(* ===== verification/Prelude.thy ===== *)
theory Prelude
  imports Main "HOL-Library.Word" "HOL-Library.Multiset" "HOL-Library.Monad_Syntax"
begin

text \<open>
  Shared vocabulary of the development: the machine integer types of the C++ sources, the
  word lemmas that move \<open>uint64_t\<close> arithmetic to natural numbers when it cannot wrap, and the
  insertion of \<open>std::multimap\<close> / \<open>std::multiset\<close> (at the upper bound of the equal range) with
  the facts every ordered container of the simulator needs.
\<close>

unbundle bit_operations_syntax

section \<open>Machine integers\<close>

type_synonym u8 = "8 word"
type_synonym u16 = "16 word"
type_synonym u32 = "32 word"
type_synonym u64 = "64 word"

text \<open>Facts about containers, collected for the component proofs.\<close>

named_theorems container_simps
named_theorems nowrap

lemma unat_add_nowrap [nowrap]:
  fixes a b :: "'a::len word"
  assumes "unat a + unat b < 2 ^ LENGTH('a)"
  shows "unat (a + b) = unat a + unat b"
  using assms by (simp add: unat_word_ariths)

lemma unat_sub_nowrap [nowrap]:
  fixes a b :: "'a::len word"
  assumes "unat b \<le> unat a"
  shows "unat (a - b) = unat a - unat b"
  using assms by (simp add: unat_sub word_le_nat_alt)

lemma unat_lt_2_64: "unat (a :: u64) < 18446744073709551616"
  using unsigned_less [of a] by simp

lemma unat_lt_2_32: "unat (a :: u32) < 4294967296"
  using unsigned_less [of a] by simp

lemma unat_add_64:
  fixes a b :: u64
  shows "unat a + unat b < 18446744073709551616 \<Longrightarrow> unat (a + b) = unat a + unat b"
  by (simp add: unat_word_ariths)

lemma unat_mult_64:
  fixes a b :: u64
  shows "unat a * unat b < 18446744073709551616 \<Longrightarrow> unat (a * b) = unat a * unat b"
  by (simp add: unat_word_ariths)

lemma unat_add_32:
  fixes a b :: u32
  shows "unat a + unat b < 4294967296 \<Longrightarrow> unat (a + b) = unat a + unat b"
  by (simp add: unat_word_ariths)

lemma unat_ucast_32_64 [simp]: "unat (ucast (a :: u32) :: u64) = unat a"
proof -
  have "unat a < 2 ^ 64" using unat_lt_2_32 [of a] by simp
  then show ?thesis by (simp add: unsigned_ucast_eq take_bit_nat_eq_self)
qed

lemma unat_of_nat_64: "n < 18446744073709551616 \<Longrightarrow> unat (of_nat n :: u64) = n"
  by (simp add: unat_of_nat)

lemma of_nat_eq_64:
  "a < 18446744073709551616 \<Longrightarrow> b < 18446744073709551616 \<Longrightarrow> (of_nat a :: u64) = of_nat b \<longleftrightarrow> a = b"
  by (metis unat_of_nat_64)

lemma of_nat_less_64:
  "a < 18446744073709551616 \<Longrightarrow> b < 18446744073709551616 \<Longrightarrow> (of_nat a :: u64) < of_nat b \<longleftrightarrow> a < b"
  by (simp add: word_less_nat_alt unat_of_nat_64)

lemma of_nat_le_64:
  "a < 18446744073709551616 \<Longrightarrow> b < 18446744073709551616 \<Longrightarrow> (of_nat a :: u64) \<le> of_nat b \<longleftrightarrow> a \<le> b"
  by (simp add: word_le_nat_alt unat_of_nat_64)

lemma unat_word_of_int_64:
  assumes "0 \<le> k" "k < 18446744073709551616"
  shows "unat (word_of_int k :: u64) = nat k"
proof -
  obtain n where n: "k = int n" using assms(1) by (rule nonneg_int_cases)
  have "n < 18446744073709551616" using assms(2) unfolding n by simp
  then show ?thesis unfolding n of_int_of_nat_eq nat_int by (rule unat_of_nat_64)
qed

section \<open>Insertion into an ordered container\<close>

text \<open>
  \<open>std::multimap::insert\<close> and \<open>std::multiset::insert\<close> put a new element behind all elements
  that are not greater: in front of the first one that is greater.
\<close>

fun ins_ub :: "('a \<Rightarrow> 'a \<Rightarrow> bool) \<Rightarrow> 'a \<Rightarrow> 'a list \<Rightarrow> 'a list" where
  "ins_ub lt x [] = [x]"
| "ins_ub lt x (y # ys) = (if lt x y then x # y # ys else y # ins_ub lt x ys)"

lemma ins_ub_not_Nil [simp]: "ins_ub lt x ys \<noteq> []"
  by (cases ys) auto

lemma mset_ins_ub [simp, container_simps]: "mset (ins_ub lt x ys) = add_mset x (mset ys)"
  by (induction ys) auto

lemma set_ins_ub [simp, container_simps]: "set (ins_ub lt x ys) = insert x (set ys)"
  by (induction ys) auto

lemma length_ins_ub [simp, container_simps]: "length (ins_ub lt x ys) = Suc (length ys)"
  by (induction ys) auto

lemma sum_list_ins_ub [simp, container_simps]:
  fixes f :: "'a \<Rightarrow> nat"
  shows "sum_list (map f (ins_ub lt x ys)) = f x + sum_list (map f ys)"
  by (induction ys) auto

lemma sorted_ins_ub:
  fixes k :: "'a \<Rightarrow> 'k::linorder"
  assumes "\<And>a b. lt a b \<longleftrightarrow> k a < k b"
  shows "sorted (map k (ins_ub lt x ys)) = sorted (map k ys)"
proof (induction ys)
  case Nil
  then show ?case by simp
next
  case (Cons y ys)
  then show ?case
    using assms by (auto simp: not_less intro: order.trans less_imp_le)
qed

text \<open>Elements with equal keys keep their order of insertion.\<close>

lemma filter_ins_ub_same:
  fixes k :: "'a \<Rightarrow> 'k::linorder"
  assumes lt: "\<And>a b. lt a b \<longleftrightarrow> k a < k b" and "sorted (map k ys)"
  shows "filter (\<lambda>y. k y = v) (ins_ub lt x ys) =
    filter (\<lambda>y. k y = v) ys @ (if k x = v then [x] else [])"
  using assms(2)
proof (induction ys)
  case Nil
  then show ?case by simp
next
  case (Cons y ys)
  show ?case
  proof (cases "lt x y")
    case True
    with Cons.prems lt have "\<forall>z\<in>set (y # ys). k x < k z" by auto
    then have "filter (\<lambda>z. k z = k x) (y # ys) = []" by (auto simp: filter_empty_conv)
    with True show ?thesis by (auto split: if_splits)
  next
    case False
    with Cons show ?thesis by simp
  qed
qed

lemma butlast_last_mset: "xs \<noteq> [] \<Longrightarrow> add_mset (last xs) (mset (butlast xs)) = mset xs"
  by (induction xs rule: rev_induct) auto

lemma butlast_last_sum:
  fixes f :: "'a \<Rightarrow> nat"
  shows "xs \<noteq> [] \<Longrightarrow> f (last xs) + sum_list (map f (butlast xs)) = sum_list (map f xs)"
  by (induction xs rule: rev_induct) auto

lemma sorted_butlast_map: "sorted (map k xs) \<Longrightarrow> sorted (map k (butlast xs))"
  by (simp add: map_butlast sorted_butlast)

lemma sorted_rev_last_le: "sorted (map k (rev xs)) \<Longrightarrow> e \<in> set xs \<Longrightarrow> k (last xs) \<le> k e"
  by (induction xs rule: rev_induct) auto

lemma sum_list_member_le:
  fixes f :: "'a \<Rightarrow> nat"
  shows "x \<in> set xs \<Longrightarrow> f x \<le> sum_list (map f xs)"
  by (induction xs) auto

lemma mod_add_cancel_lt:
  fixes c k j n :: nat
  assumes "(c + k) mod n = (c + j) mod n" "k < n" "j < n"
  shows "k = j"
proof -
  have "a = b" if "a \<le> b" "b < n" "(c + b) mod n = (c + a) mod n" for a b
  proof -
    have "n dvd (c + b) - (c + a)" using that mod_eq_dvd_iff_nat [of "c + a" "c + b" n] by simp
    then have "n dvd b - a" by simp
    then show ?thesis using that nat_dvd_not_less [of "b - a" n] by fastforce
  qed
  then show ?thesis using assms by (metis nat_le_linear)
qed

section \<open>Vectors\<close>

text \<open>Reading and writing an element of a \<open>std::vector\<close>; outside its bounds it is undefined, \<open>None\<close>.\<close>

definition vec_at :: "'a list \<Rightarrow> nat \<Rightarrow> 'a option" where
  "vec_at xs i = (if i < length xs then Some (xs ! i) else None)"

definition vec_set :: "'a list \<Rightarrow> nat \<Rightarrow> 'a \<Rightarrow> 'a list option" where
  "vec_set xs i x = (if i < length xs then Some (xs[i := x]) else None)"

lemma vec_at_Some [simp]: "i < length xs \<Longrightarrow> vec_at xs i = Some (xs ! i)"
  by (simp add: vec_at_def)

lemma vec_set_Some [simp]: "i < length xs \<Longrightarrow> vec_set xs i x = Some (xs[i := x])"
  by (simp add: vec_set_def)

lemma vec_at_eq_Some: "vec_at xs i = Some x \<longleftrightarrow> i < length xs \<and> xs ! i = x"
  by (auto simp: vec_at_def)

text \<open>Replacing one of several lists.\<close>

lemma mset_concat_update:
  "i < length xss \<Longrightarrow> mset (concat (xss[i := ys])) + mset (xss ! i) = mset (concat xss) + mset ys"
proof (induction xss arbitrary: i)
  case (Cons xs xss)
  then show ?case by (cases i) (auto simp: ac_simps)
qed simp

lemma mset_concat_push:
  "i < length xss \<Longrightarrow> mset (concat (xss[i := x # xss ! i])) = add_mset x (mset (concat xss))"
  using mset_concat_update [of i xss "x # xss ! i"] by simp

lemma mset_concat_pop:
  assumes "i < length xss" "xss ! i \<noteq> []"
  shows "mset (concat xss) = add_mset (last (xss ! i)) (mset (concat (xss[i := butlast (xss ! i)])))"
proof -
  let ?A = "mset (concat (xss[i := butlast (xss ! i)]))" and ?M = "mset (butlast (xss ! i))"
  have "?A + add_mset (last (xss ! i)) ?M = mset (concat xss) + ?M"
    using mset_concat_update [OF assms(1)] butlast_last_mset [OF assms(2)] by simp
  then show ?thesis by simp
qed

end
