(* ===== verification/Floating.thy ===== *)
theory Floating
  imports Complex_Main "HOL-Library.Log_Nat"
begin

text \<open>
  The floating-point arithmetic the simulator uses: IEEE 754 binary formats, as rationals. Every
  operation of \<open>double\<close> (\<open>long double\<close>) is the exact rational operation followed by rounding to
  nearest, ties to even, at 53 (64) bits of precision, gradual underflow included. Infinities
  and NaNs are not represented: the code that could divide by zero or overflow says so in its
  own model.
\<close>

section \<open>Binary exponent of a positive rational\<close>

definition ilog2 :: "rat \<Rightarrow> int" where
  "ilog2 x = (let (a, b) = quotient_of x; e = bitlen a - bitlen b
              in if 2 powi e \<le> x then e else e - 1)"

lemma bitlen_powi_bounds:
  assumes "0 < (a :: int)"
  shows "(2 :: rat) powi (bitlen a - 1) \<le> of_int a" and "of_int a < (2 :: rat) powi (bitlen a)"
proof -
  have p: "0 < bitlen a"
    using assms bitlen_nonneg [of a] bitlen_eq_zero_iff [of a] by linarith
  have b: "2 ^ nat (bitlen a - 1) \<le> a \<and> a < 2 ^ nat (bitlen a)"
    using assms by (rule bitlen_bounds)
  have "(of_int (2 ^ nat (bitlen a - 1)) :: rat) \<le> of_int a"
    using b of_int_le_iff by blast
  then show "(2 :: rat) powi (bitlen a - 1) \<le> of_int a"
    using p by (simp add: power_int_def)
  have "(of_int a :: rat) < of_int (2 ^ nat (bitlen a))"
    using b of_int_less_iff by blast
  then show "of_int a < (2 :: rat) powi (bitlen a)"
    using p by (simp add: power_int_def)
qed

lemma ilog2_bounds:
  assumes "0 < x"
  shows "2 powi (ilog2 x) \<le> x" and "x < 2 powi (ilog2 x + 1)"
proof -
  obtain a b where q: "quotient_of x = (a, b)" by (cases "quotient_of x")
  have b: "0 < b" using q by (rule quotient_of_denom_pos)
  have x: "x = of_int a / of_int b" using q by (rule quotient_of_div)
  have a: "0 < a" using assms b x by (simp add: zero_less_divide_iff)
  define e where "e = bitlen a - bitlen b"
  have A: "(2 :: rat) powi (bitlen a - 1) \<le> of_int a" "of_int a < (2 :: rat) powi (bitlen a)"
    using a by (rule bitlen_powi_bounds)+
  have B: "(2 :: rat) powi (bitlen b - 1) \<le> of_int b" "of_int b < (2 :: rat) powi (bitlen b)"
    using b by (rule bitlen_powi_bounds)+
  have up: "x < 2 powi (e + 1)"
  proof -
    have "x * 2 powi (bitlen b - 1) \<le> x * of_int b"
      using B(1) assms by (intro mult_left_mono) simp_all
    then have "x * 2 powi (bitlen b - 1) \<le> of_int a" using b by (simp add: x)
    then have "x * 2 powi (bitlen b - 1) < 2 powi (bitlen a)" using A(2) by simp
    moreover have "(2 :: rat) powi (bitlen a) = 2 powi (e + 1) * 2 powi (bitlen b - 1)"
      by (simp add: e_def power_int_add [symmetric])
    ultimately show ?thesis by simp
  qed
  have lo: "2 powi (e - 1) \<le> x"
  proof -
    have "x * of_int b \<le> x * 2 powi (bitlen b)"
      using B(2) assms by (intro mult_left_mono) simp_all
    then have "of_int a \<le> x * 2 powi (bitlen b)" using b by (simp add: x)
    then have "(2 :: rat) powi (bitlen a - 1) \<le> x * 2 powi (bitlen b)" using A(1) by simp
    moreover have "(2 :: rat) powi (bitlen a - 1) = 2 powi (e - 1) * 2 powi (bitlen b)"
      by (simp add: e_def power_int_add [symmetric])
    ultimately show ?thesis by simp
  qed
  have "ilog2 x = (if 2 powi e \<le> x then e else e - 1)"
    by (simp add: ilog2_def q e_def Let_def)
  then show "2 powi (ilog2 x) \<le> x" and "x < 2 powi (ilog2 x + 1)"
    using up lo by (auto split: if_splits)
qed

lemma powi2_le: "i \<le> j \<Longrightarrow> (2 :: rat) powi i \<le> 2 powi j"
  by (rule power_int_increasing) simp_all

lemma powi2_less_iff: "(2 :: rat) powi i < 2 powi j \<longleftrightarrow> i < j"
proof
  assume "(2 :: rat) powi i < 2 powi j"
  then show "i < j" using powi2_le [of j i] by linarith
next
  assume "i < j"
  then show "(2 :: rat) powi i < 2 powi j" by (rule power_int_strict_increasing) simp
qed

lemma ilog2_mono:
  assumes "0 < x" "x \<le> y"
  shows "ilog2 x \<le> ilog2 y"
proof -
  have "(2 :: rat) powi (ilog2 x) < 2 powi (ilog2 y + 1)"
    using ilog2_bounds(1) [of x] ilog2_bounds(2) [of y] assms by linarith
  then show ?thesis by (simp add: powi2_less_iff)
qed

lemma ilog2_lt: "0 < x \<Longrightarrow> x < 2 powi k \<Longrightarrow> ilog2 x < k"
  using ilog2_bounds(1) [of x] by (meson order.strict_trans1 powi2_less_iff)

section \<open>Rounding to an integer\<close>

text \<open>Nearest, ties to even.\<close>

definition rne :: "rat \<Rightarrow> int" where
  "rne y = (let f = \<lfloor>y\<rfloor>; d = y - of_int f
            in if d < 1 / 2 then f else if 1 / 2 < d then f + 1 else if even f then f else f + 1)"

lemma rne_of_int [simp]: "rne (of_int n) = n"
  by (simp add: rne_def)

lemma rne_mono: "x \<le> y \<Longrightarrow> rne x \<le> rne y"
proof -
  assume le: "x \<le> y"
  then have f: "\<lfloor>x\<rfloor> \<le> \<lfloor>y\<rfloor>" by (rule floor_mono)
  show ?thesis
  proof (cases "\<lfloor>x\<rfloor> = \<lfloor>y\<rfloor>")
    case True
    then show ?thesis using le by (auto simp: rne_def Let_def)
  next
    case False
    with f have "\<lfloor>x\<rfloor> + 1 \<le> \<lfloor>y\<rfloor>" by simp
    then show ?thesis by (auto simp: rne_def Let_def)
  qed
qed

lemma rne_nonneg: "0 \<le> x \<Longrightarrow> 0 \<le> rne x"
  using rne_mono [of 0 x] rne_of_int [of 0] by simp

lemma rne_error: "\<bar>of_int (rne x) - x\<bar> \<le> 1 / 2"
proof -
  have "of_int \<lfloor>x\<rfloor> \<le> x" "x < of_int \<lfloor>x\<rfloor> + 1" by linarith+
  then have "0 \<le> x - of_int \<lfloor>x\<rfloor>" "x - of_int \<lfloor>x\<rfloor> < 1" by linarith+
  then show ?thesis unfolding rne_def Let_def by (auto simp del: of_int_floor_le floor_less_iff)
qed

lemma rne_uminus: "rne (- y) = - rne y"
proof (cases "y = of_int \<lfloor>y\<rfloor>")
  case True
  then show ?thesis using rne_of_int [of "\<lfloor>y\<rfloor>"] rne_of_int [of "- \<lfloor>y\<rfloor>"] by simp
next
  case False
  then have fl: "\<lfloor>- y\<rfloor> = - \<lfloor>y\<rfloor> - 1"
    by (simp add: floor_minus ceiling_altdef)
  show ?thesis by (auto simp: rne_def Let_def fl)
qed

section \<open>Rounding to a binary format\<close>

text \<open>Precision \<open>p\<close>, smallest exponent \<open>emin\<close> of the last place.\<close>

definition ulp_exp :: "int \<Rightarrow> int \<Rightarrow> rat \<Rightarrow> int" where
  "ulp_exp p emin x = max (ilog2 \<bar>x\<bar> - (p - 1)) emin"

definition fl :: "int \<Rightarrow> int \<Rightarrow> rat \<Rightarrow> rat" where
  "fl p emin x =
     (if x = 0 then 0
      else let u = 2 powi ulp_exp p emin x in of_int (rne (x / u)) * u)"

text \<open>The formats of \<open>double\<close> (binary64) and of \<open>long double\<close> (x87, 64 bits of precision).\<close>

definition dbl :: "rat \<Rightarrow> rat" where "dbl = fl 53 (- 1074)"
definition ldbl :: "rat \<Rightarrow> rat" where "ldbl = fl 64 (- 16445)"

lemma fl_0 [simp]: "fl p emin 0 = 0"
  by (simp add: fl_def)

lemma fl_uminus: "fl p emin (- x) = - fl p emin x"
  by (simp add: fl_def ulp_exp_def Let_def rne_uminus)

lemma fl_nonneg: "0 \<le> x \<Longrightarrow> 0 \<le> fl p emin x"
  by (simp add: fl_def Let_def rne_nonneg)

text \<open>A value with at most \<open>p\<close> significant bits is not changed.\<close>

lemma fl_exact:
  assumes "\<bar>m\<bar> < 2 ^ nat p" "0 \<le> p" "emin \<le> k"
  shows "fl p emin (of_int m * 2 powi k) = of_int m * 2 powi k"
proof (cases "m = 0")
  case True
  then show ?thesis by simp
next
  case False
  let ?x = "of_int m * 2 powi k :: rat"
  have "(of_int \<bar>m\<bar> :: rat) < of_int (2 ^ nat p)" using assms(1) of_int_less_iff by blast
  then have "of_int \<bar>m\<bar> < (2 :: rat) powi p" using assms(2) by (simp add: power_int_def)
  then have "\<bar>?x\<bar> < 2 powi (p + k)"
    by (simp add: abs_mult power_int_add)
  then have "ilog2 \<bar>?x\<bar> < p + k" using False by (intro ilog2_lt) simp_all
  then have e: "ulp_exp p emin ?x \<le> k" using assms(3) by (simp add: ulp_exp_def)
  define e where "e = ulp_exp p emin ?x"
  have "?x / 2 powi e = of_int (m * 2 ^ nat (k - e))"
  proof -
    have "(2 :: rat) powi k / 2 powi e = 2 powi (k - e)" by (simp add: power_int_diff)
    also have "\<dots> = 2 ^ nat (k - e)" using e by (simp add: e_def power_int_def)
    finally show ?thesis
      by (simp only: times_divide_eq_right [symmetric]) simp
  qed
  then have "of_int (rne (?x / 2 powi e)) * 2 powi e = ?x"
    by (metis rne_of_int nonzero_eq_divide_eq power_int_not_zero zero_neq_numeral)
  then show ?thesis using False by (simp add: fl_def Let_def e_def)
qed

lemma fl_of_int: "\<bar>m\<bar> < 2 ^ nat p \<Longrightarrow> 0 \<le> p \<Longrightarrow> emin \<le> 0 \<Longrightarrow> fl p emin (of_int m) = of_int m"
  using fl_exact [of m p emin 0] by simp

text \<open>Rounding is monotone, first on the positive numbers.\<close>

lemma fl_mono_pos:
  assumes "0 < x" "x \<le> y" "1 \<le> p"
  shows "fl p emin x \<le> fl p emin y"
proof -
  define ex where "ex = ulp_exp p emin x"
  define ey where "ey = ulp_exp p emin y"
  have il: "ilog2 x \<le> ilog2 y" using assms by (intro ilog2_mono)
  then have le: "ex \<le> ey" using assms by (simp add: ex_def ey_def ulp_exp_def)
  have fx: "fl p emin x = of_int (rne (x / 2 powi ex)) * 2 powi ex"
    using assms by (simp add: fl_def ex_def Let_def)
  have fy: "fl p emin y = of_int (rne (y / 2 powi ey)) * 2 powi ey"
    using assms by (simp add: fl_def ey_def Let_def)
  show ?thesis
  proof (cases "ex = ey")
    case True
    have "rne (x / 2 powi ex) \<le> rne (y / 2 powi ex)"
      using assms by (intro rne_mono divide_right_mono) simp_all
    then show ?thesis using True by (simp add: fx fy)
  next
    case False
    define B where "B = ilog2 y"
    have lt: "ex < ey" using le False by simp
    then have ey: "ey = B - (p - 1)" and xB: "ilog2 x < B"
      using assms il by (auto simp: ex_def ey_def ulp_exp_def B_def max_def split: if_splits)
    have B: "x \<le> 2 powi B" "2 powi B \<le> y"
    proof -
      have "(2 :: rat) powi (ilog2 x + 1) \<le> 2 powi B" using xB by (intro powi2_le) simp
      then show "x \<le> 2 powi B" using ilog2_bounds(2) [of x] assms by simp
      show "2 powi B \<le> y" using ilog2_bounds(1) [of y] assms by (simp add: B_def)
    qed
    have int: "(2 :: rat) powi B / 2 powi e = of_int (2 ^ nat (B - e))" if "e \<le> B" for e
    proof -
      have "(2 :: rat) powi B / 2 powi e = 2 powi (B - e)" by (simp add: power_int_diff)
      then show ?thesis using that by (simp add: power_int_def)
    qed
    have exB: "ex \<le> B" and eyB: "ey \<le> B" using lt ey assms(3) by auto
    have "rne (x / 2 powi ex) \<le> rne (2 powi B / 2 powi ex)"
      using B(1) by (intro rne_mono divide_right_mono) simp_all
    then have "(of_int (rne (x / 2 powi ex)) :: rat) \<le> 2 powi B / 2 powi ex"
      using int [OF exB] by (metis of_int_le_iff rne_of_int)
    then have 1: "fl p emin x \<le> 2 powi B" by (simp add: fx pos_le_divide_eq)
    have "rne (2 powi B / 2 powi ey) \<le> rne (y / 2 powi ey)"
      using B(2) by (intro rne_mono divide_right_mono) simp_all
    then have "2 powi B / 2 powi ey \<le> (of_int (rne (y / 2 powi ey)) :: rat)"
      using int [OF eyB] by (metis of_int_le_iff rne_of_int)
    then have 2: "2 powi B \<le> fl p emin y" by (simp add: fy pos_divide_le_eq)
    from 1 2 show ?thesis by simp
  qed
qed

lemma fl_mono:
  assumes "x \<le> y" "1 \<le> p"
  shows "fl p emin x \<le> fl p emin y"
proof -
  consider "0 < x" | "x \<le> 0" "0 \<le> y" | "y < 0" by linarith
  then show ?thesis
  proof cases
    case 1
    then show ?thesis using assms by (intro fl_mono_pos)
  next
    case 2
    then show ?thesis
      using fl_nonneg [of y p emin] fl_nonneg [of "- x" p emin] by (simp add: fl_uminus)
  next
    case 3
    then have "fl p emin (- y) \<le> fl p emin (- x)" using assms by (intro fl_mono_pos) simp_all
    then show ?thesis by (simp add: fl_uminus)
  qed
qed

lemma dbl_mono: "x \<le> y \<Longrightarrow> dbl x \<le> dbl y"
  by (simp add: dbl_def fl_mono)

lemma ldbl_mono: "x \<le> y \<Longrightarrow> ldbl x \<le> ldbl y"
  by (simp add: ldbl_def fl_mono)

lemma dbl_nonneg: "0 \<le> x \<Longrightarrow> 0 \<le> dbl x"
  by (simp add: dbl_def fl_nonneg)

lemma dbl_0 [simp]: "dbl 0 = 0"
  by (simp add: dbl_def)

lemma dbl_of_int: "\<bar>m\<bar> < 2 ^ 53 \<Longrightarrow> dbl (of_int m) = of_int m"
  unfolding dbl_def by (rule fl_of_int) simp_all

lemma dbl_dyadic: "\<bar>m\<bar> < 2 ^ 53 \<Longrightarrow> n \<le> 1074 \<Longrightarrow> dbl (of_int m / 2 ^ n) = of_int m / 2 ^ n"
  using fl_exact [of m 53 "- 1074" "- int n"]
  by (simp add: dbl_def power_int_minus divide_inverse)

text \<open>A bound that is itself representable survives rounding.\<close>

lemma dbl_le_int: "x \<le> of_int m \<Longrightarrow> \<bar>m\<bar> < 2 ^ 53 \<Longrightarrow> dbl x \<le> of_int m"
  using dbl_mono [of x "of_int m"] by (simp add: dbl_of_int)

lemma dbl_ge_int: "of_int m \<le> x \<Longrightarrow> \<bar>m\<bar> < 2 ^ 53 \<Longrightarrow> of_int m \<le> dbl x"
  using dbl_mono [of "of_int m" x] by (simp add: dbl_of_int)

lemma dbl_le_dyadic:
  "x \<le> of_int m / 2 ^ n \<Longrightarrow> \<bar>m\<bar> < 2 ^ 53 \<Longrightarrow> n \<le> 1074 \<Longrightarrow> dbl x \<le> of_int m / 2 ^ n"
  using dbl_mono [of x "of_int m / 2 ^ n"] by (simp add: dbl_dyadic)

lemma dbl_ge_dyadic:
  "of_int m / 2 ^ n \<le> x \<Longrightarrow> \<bar>m\<bar> < 2 ^ 53 \<Longrightarrow> n \<le> 1074 \<Longrightarrow> of_int m / 2 ^ n \<le> dbl x"
  using dbl_mono [of "of_int m / 2 ^ n" x] by (simp add: dbl_dyadic)

lemma ldbl_dyadic: "\<bar>m\<bar> < 2 ^ 64 \<Longrightarrow> n \<le> 16445 \<Longrightarrow> ldbl (of_int m / 2 ^ n) = of_int m / 2 ^ n"
  using fl_exact [of m 64 "- 16445" "- int n"]
  by (simp add: ldbl_def power_int_minus divide_inverse)

lemma ldbl_le_dyadic:
  "x \<le> of_int m / 2 ^ n \<Longrightarrow> \<bar>m\<bar> < 2 ^ 64 \<Longrightarrow> n \<le> 16445 \<Longrightarrow> ldbl x \<le> of_int m / 2 ^ n"
  using ldbl_mono [of x "of_int m / 2 ^ n"] by (simp add: ldbl_dyadic)

lemma ldbl_ge_dyadic:
  "of_int m / 2 ^ n \<le> x \<Longrightarrow> \<bar>m\<bar> < 2 ^ 64 \<Longrightarrow> n \<le> 16445 \<Longrightarrow> of_int m / 2 ^ n \<le> ldbl x"
  using ldbl_mono [of "of_int m / 2 ^ n" x] by (simp add: ldbl_dyadic)

lemma ldbl_nonneg: "0 \<le> x \<Longrightarrow> 0 \<le> ldbl x"
  by (simp add: ldbl_def fl_nonneg)

lemma ldbl_of_nat: "n < 2 ^ 64 \<Longrightarrow> ldbl (of_nat n) = of_nat n"
  using ldbl_dyadic [of "int n" 0] by simp

lemma ldbl_le_int: "x \<le> of_int m \<Longrightarrow> \<bar>m\<bar> < 2 ^ 64 \<Longrightarrow> ldbl x \<le> of_int m"
  using ldbl_le_dyadic [of x m 0] by simp

lemma dbl_le_12e15: "x \<le> 12000000000000000 \<Longrightarrow> dbl x \<le> 12000000000000000"
  using fl_exact [of 6000000000000000 53 "- 1074" 1] dbl_mono [of x 12000000000000000]
  by (simp add: dbl_def)

lemma dbl_le_power: "x \<le> 2 ^ k \<Longrightarrow> dbl x \<le> 2 ^ k"
  using fl_exact [of 1 53 "- 1074" "int k"] dbl_mono [of x "2 ^ k"] by (simp add: dbl_def)

text \<open>Rounding a rounded value changes nothing.\<close>

lemma rne_abs_le: "\<bar>y\<bar> \<le> of_int n \<Longrightarrow> \<bar>rne y\<bar> \<le> n"
  using rne_mono [of y "of_int n"] rne_mono [of "of_int (- n)" y]
  unfolding rne_of_int by linarith

lemma fl_idem:
  assumes "1 \<le> p"
  shows "fl p emin (fl p emin x) = fl p emin x"
proof (cases "x = 0")
  case True
  then show ?thesis by simp
next
  case False
  define k where "k = ulp_exp p emin x"
  define n where "n = rne (x / 2 powi k)"
  have f: "fl p emin x = of_int n * 2 powi k"
    using False by (simp add: fl_def Let_def k_def n_def)
  have "\<bar>x\<bar> < 2 powi (ilog2 \<bar>x\<bar> + 1)" using False by (intro ilog2_bounds) simp
  also have "\<dots> \<le> 2 powi (p + k)"
    by (rule powi2_le) (simp add: k_def ulp_exp_def)
  also have pk: "2 powi (p + k) = (2 ^ nat p * 2 powi k :: rat)"
    using assms power_int_of_nat [of "2 :: rat" "nat p"] by (simp add: power_int_add)
  finally have "\<bar>x / 2 powi k\<bar> \<le> of_int (2 ^ nat p)"
    by (simp add: divide_le_eq)
  then have "\<bar>n\<bar> \<le> 2 ^ nat p" unfolding n_def by (rule rne_abs_le)
  then consider "\<bar>n\<bar> < 2 ^ nat p" | "n = 2 ^ nat p" | "n = - (2 ^ nat p)" by linarith
  moreover have e: "fl p emin (2 ^ nat p * 2 powi k) = 2 ^ nat p * 2 powi k"
  proof -
    have "emin \<le> p + k" using assms by (simp add: k_def ulp_exp_def)
    then show ?thesis using fl_exact [of 1 p emin "p + k"] assms pk by simp
  qed
  ultimately show ?thesis
  proof cases
    case 1
    then show ?thesis unfolding f using assms by (intro fl_exact) (simp_all add: k_def ulp_exp_def)
  next
    case 2
    then show ?thesis using f e by simp
  next
    case 3
    then show ?thesis using f e fl_uminus [of p emin "2 ^ nat p * 2 powi k"] by simp
  qed
qed

lemma dbl_idem [simp]: "dbl (dbl x) = dbl x"
  by (simp add: dbl_def fl_idem)
text \<open>The error of a rounding is relative, but for gradual underflow.\<close>

lemma fl_error:
  assumes "x \<noteq> 0"
  shows "\<bar>fl p emin x - x\<bar> \<le> (\<bar>x\<bar> * 2 powi (1 - p) + 2 powi emin) / 2"
proof -
  define u where "u = (2 :: rat) powi ulp_exp p emin x"
  have u: "0 < u" by (simp add: u_def)
  have f: "fl p emin x = of_int (rne (x / u)) * u" using assms by (simp add: fl_def u_def Let_def)
  have "\<bar>of_int (rne (x / u)) - x / u\<bar> * u \<le> 1 / 2 * u"
    using rne_error [of "x / u"] u by (intro mult_right_mono) simp_all
  moreover have "\<bar>of_int (rne (x / u)) - x / u\<bar> * u = \<bar>fl p emin x - x\<bar>"
    using u by (simp add: f abs_mult_pos left_diff_distrib)
  ultimately have e: "\<bar>fl p emin x - x\<bar> \<le> u / 2" by simp
  have "u \<le> 2 powi (ilog2 \<bar>x\<bar> - (p - 1)) + 2 powi emin"
    by (cases "ilog2 \<bar>x\<bar> - (p - 1) \<le> emin") (simp_all add: u_def ulp_exp_def max_def)
  also have "(2 :: rat) powi (ilog2 \<bar>x\<bar> - (p - 1)) = 2 powi ilog2 \<bar>x\<bar> * 2 powi (1 - p)"
    using power_int_add [of "2 :: rat" "ilog2 \<bar>x\<bar>" "1 - p"] by (simp add: diff_diff_eq2 add_diff_eq)
  also have "2 powi ilog2 \<bar>x\<bar> * 2 powi (1 - p) \<le> \<bar>x\<bar> * 2 powi (1 - p)"
    using ilog2_bounds(1) [of "\<bar>x\<bar>"] assms by (intro mult_right_mono) simp_all
  finally show ?thesis using e by simp
qed

lemma dbl_error:
  assumes "0 \<le> x"
  shows "dbl x \<le> x + x / 2 ^ 53 + 1 / 2 ^ 100" "x - x / 2 ^ 53 - 1 / 2 ^ 100 \<le> dbl x"
proof -
  have p: "(2 :: rat) powi (1 - 53) = 1 / 2 ^ 52" "(2 :: rat) powi - 1074 \<le> 1 / 2 ^ 100"
    using powi2_le [of "- 1074" "- 100"] by (simp_all add: power_int_def field_simps)
  have "\<bar>dbl x - x\<bar> \<le> x / 2 ^ 53 + 1 / 2 ^ 100"
  proof (cases "x = 0")
    case False
    have "\<bar>dbl x - x\<bar> \<le> (\<bar>x\<bar> * 2 powi (1 - 53) + 2 powi - 1074) / 2"
      unfolding dbl_def by (rule fl_error [OF False])
    also have "\<dots> \<le> (x * (1 / 2 ^ 52) + 1 / 2 ^ 100) / 2" unfolding p(1) using p(2) assms by simp
    finally show ?thesis using assms by simp
  qed simp
  then show "dbl x \<le> x + x / 2 ^ 53 + 1 / 2 ^ 100" "x - x / 2 ^ 53 - 1 / 2 ^ 100 \<le> dbl x" by linarith+
qed

section \<open>Conversions to integers\<close>

text \<open>\<open>llround\<close>: nearest, ties away from zero; the C conversion of a double truncates.\<close>

definition llround :: "rat \<Rightarrow> int" where
  "llround x = (if 0 \<le> x then \<lfloor>x + 1 / 2\<rfloor> else - \<lfloor>1 / 2 - x\<rfloor>)"

definition trunc_rat :: "rat \<Rightarrow> int" where
  "trunc_rat x = (if 0 \<le> x then \<lfloor>x\<rfloor> else - \<lfloor>- x\<rfloor>)"

lemma llround_of_int [simp]: "llround (of_int n) = n"
proof -
  have "\<lfloor>(of_int n :: rat) + 1 / 2\<rfloor> = n" by linarith
  moreover have "\<lfloor>1 / 2 - (of_int n :: rat)\<rfloor> = - n" by linarith
  ultimately show ?thesis by (simp add: llround_def)
qed

text \<open>\<open>llround\<close> of a non-negative number is within one half of it.\<close>

lemma llround_near:
  assumes "0 \<le> x"
  shows "of_int (llround x) \<le> x + 1 / 2" "x - 1 / 2 < of_int (llround x)" "0 \<le> llround x"
proof -
  have l: "llround x = \<lfloor>x + 1 / 2\<rfloor>" using assms by (simp add: llround_def)
  have "of_int \<lfloor>x + 1 / 2\<rfloor> \<le> x + 1 / 2" "x + 1 / 2 < of_int \<lfloor>x + 1 / 2\<rfloor> + 1" by linarith+
  then show "of_int (llround x) \<le> x + 1 / 2" "x - 1 / 2 < of_int (llround x)"
    unfolding l by linarith+
  show "0 \<le> llround x" unfolding l using assms by simp
qed

lemma llround_le_int: "0 \<le> x \<Longrightarrow> x \<le> of_int n \<Longrightarrow> llround x \<le> n"
  using llround_near(1) [of x] by linarith

lemma llround_ge_int: "0 \<le> x \<Longrightarrow> of_int n \<le> x \<Longrightarrow> n \<le> llround x"
  using llround_near(2) [of x] by linarith

lemma trunc_of_int [simp]: "trunc_rat (of_int n) = n"
  using floor_of_int [of "- n", where ?'a = rat] by (simp add: trunc_rat_def)

lemma trunc_le: "0 \<le> x \<Longrightarrow> x \<le> of_int n \<Longrightarrow> trunc_rat x \<le> n"
  unfolding trunc_rat_def by (simp add: floor_le_iff)

lemma trunc_ge: "of_int n \<le> x \<Longrightarrow> 0 \<le> n \<Longrightarrow> n \<le> trunc_rat x"
  unfolding trunc_rat_def by (simp add: le_floor_iff order.trans [of 0 "of_int n" x])

text \<open>The same for natural numbers, and a number scaled down and truncated.\<close>

lemma dbl_of_nat: "n < 2 ^ 53 \<Longrightarrow> dbl (of_nat n) = of_nat n"
  using dbl_of_int [of "int n"] by simp

lemma ratio_range: "a \<le> b \<Longrightarrow> 0 \<le> dbl (of_nat a / of_nat b) \<and> dbl (of_nat a / of_nat b) \<le> 1"
proof -
  assume "a \<le> b"
  then have "of_nat a / of_nat b \<le> (of_int 1 :: rat)" by (cases "b = 0") (simp_all add: divide_le_eq_1)
  then have "dbl (of_nat a / of_nat b) \<le> of_int 1" by (rule dbl_le_int) simp
  then show ?thesis by (simp add: dbl_nonneg)
qed

lemma trunc_scaled:
  assumes "n < 2 ^ 53" "0 \<le> f" "f \<le> 1"
  shows "0 \<le> trunc_rat (dbl (of_nat n * f)) \<and> trunc_rat (dbl (of_nat n * f)) \<le> int n"
proof -
  have "of_nat n * f \<le> of_int (int n)" using assms(2,3) by (simp add: mult_left_le)
  then have "dbl (of_nat n * f) \<le> of_int (int n)" using assms(1) by (intro dbl_le_int) simp_all
  moreover have "0 \<le> dbl (of_nat n * f)" using assms(2) by (intro dbl_nonneg) simp
  ultimately show ?thesis using trunc_le trunc_ge [of 0] by simp
qed

end
