(* ===== verification/Htsim.thy ===== *)
theory Htsim
  imports Prelude Floating
begin

text \<open>
  \<open>htsim.h\<close>: the simulator's constants, the uniform random number and the conversions between
  times in picoseconds, speeds in bits per second and floating-point quantities. A \<open>double\<close> is a
  rational that has been rounded by \<^const>\<open>dbl\<close>; the conversions divide in \<open>long double\<close>
  and round twice, as the C++ does.
\<close>

section \<open>Constants\<close>

definition MIN_RTO_US :: int where "MIN_RTO_US = 200"
definition INIT_RTO_US :: int where "INIT_RTO_US = 2500"
definition MSS_BYTES :: int where "MSS_BYTES = 1500"
definition ACK_SIZE :: int where "ACK_SIZE = 40"
definition ENABLE_ECN :: bool where "ENABLE_ECN = True"

text \<open>\<open>MSS_BYTES\<close> and \<open>ACK_SIZE\<close> as the unsigned types they are converted to.\<close>

abbreviation MSS64 :: u64 where "MSS64 \<equiv> word_of_int MSS_BYTES"
abbreviation MSS32 :: u32 where "MSS32 \<equiv> word_of_int MSS_BYTES"

section \<open>Random numbers\<close>

text \<open>\<open>drand\<close> on one result \<open>r\<close> of \<open>rand()\<close>; \<open>m\<close> is the platform's \<open>RAND_MAX\<close>.\<close>

definition drand :: "int \<Rightarrow> int \<Rightarrow> rat" where
  "drand m r = dbl (dbl (of_int r) / dbl (of_int m))"

section \<open>Time and speed conversions\<close>

definition timeFromSec :: "rat \<Rightarrow> u64" where
  "timeFromSec secs = word_of_int (llround (dbl (secs * 1000000000000)))"
definition timeFromMs :: "rat \<Rightarrow> u64" where
  "timeFromMs msecs = word_of_int (llround (dbl (msecs * 1000000000)))"
definition timeFromUs :: "rat \<Rightarrow> u64" where
  "timeFromUs usecs = word_of_int (llround (dbl (usecs * 1000000)))"
definition timeFromNs :: "rat \<Rightarrow> u64" where
  "timeFromNs nsecs = word_of_int (llround (dbl (nsecs * 1000)))"

definition timeAsSec :: "u64 \<Rightarrow> rat" where
  "timeAsSec ps = dbl (ldbl (of_nat (unat ps) / 1000000000000))"
definition timeAsMs :: "u64 \<Rightarrow> rat" where
  "timeAsMs ps = dbl (ldbl (of_nat (unat ps) / 1000000000))"
definition timeAsUs :: "u64 \<Rightarrow> rat" where
  "timeAsUs ps = dbl (ldbl (of_nat (unat ps) / 1000000))"
definition timeAsNs :: "u64 \<Rightarrow> rat" where
  "timeAsNs ps = dbl (ldbl (of_nat (unat ps) / 1000))"

definition speedFromGbps :: "rat \<Rightarrow> u64" where
  "speedFromGbps g = word_of_int (llround (dbl (g * 1000000000)))"
definition speedFromMbps :: "rat \<Rightarrow> u64" where
  "speedFromMbps m = word_of_int (llround (dbl (m * 1000000)))"
definition speedFromKbps :: "rat \<Rightarrow> u64" where
  "speedFromKbps k = word_of_int (llround (dbl (k * 1000)))"

definition speedAsGbps :: "u64 \<Rightarrow> rat" where
  "speedAsGbps bps = dbl (ldbl (of_nat (unat bps) / 1000000000))"
definition speedAsMbps :: "u64 \<Rightarrow> rat" where
  "speedAsMbps bps = dbl (ldbl (of_nat (unat bps) / 1000000))"
definition speedAsKbps :: "u64 \<Rightarrow> rat" where
  "speedAsKbps bps = dbl (ldbl (of_nat (unat bps) / 1000))"

definition speedFromPktps :: "u64 \<Rightarrow> u64" where
  "speedFromPktps packetsPerSec = packetsPerSec * 8 * MSS64"
definition speedAsPktps :: "u64 \<Rightarrow> rat" where
  "speedAsPktps bps = dbl (ldbl (of_nat (unat bps) / ldbl (8 * of_int MSS_BYTES)))"

section \<open>Facts about the conversions\<close>

lemma ldbl_of_int: "\<bar>m\<bar> < 2 ^ 64 \<Longrightarrow> ldbl (of_int m) = of_int m"
  unfolding ldbl_def by (rule fl_of_int) simp_all

lemma llround_dbl_scale:
  assumes "n * k < 2 ^ 53"
  shows "llround (dbl (of_nat n * of_nat k)) = int (n * k)"
proof -
  have "int (n * k) < 2 ^ 53" using assms by (metis of_nat_less_iff of_nat_numeral of_nat_power)
  then have "dbl (of_int (int (n * k))) = of_int (int (n * k))" by (intro dbl_of_int) simp
  then show ?thesis by (metis of_int_of_nat_eq of_nat_mult llround_of_int)
qed

text \<open>Whole microseconds convert exactly while the product fits in the 53 bits of a double.\<close>

lemma timeFromUs_nat:
  "n * 1000000 < 2 ^ 53 \<Longrightarrow> timeFromUs (of_nat n) = of_nat (n * 1000000)"
  using llround_dbl_scale [of n 1000000] by (simp add: timeFromUs_def)

lemma unat_timeFromUs_nat:
  assumes "n * 1000000 < 2 ^ 53"
  shows "unat (timeFromUs (of_nat n)) = n * 1000000"
  unfolding timeFromUs_nat [OF assms] unat_of_nat using assms by simp

lemma timeFromUs_MIN_RTO: "timeFromUs (of_int MIN_RTO_US) = 200000000"
  using timeFromUs_nat [of 200] by (simp add: MIN_RTO_US_def)

lemma timeFromUs_INIT_RTO: "timeFromUs (of_int INIT_RTO_US) = 2500000000"
  using timeFromUs_nat [of 2500] by (simp add: INIT_RTO_US_def)

lemma dbl_ldbl_nat: "n < 2 ^ 53 \<Longrightarrow> dbl (ldbl (of_nat n)) = of_nat n"
  using ldbl_of_int [of "int n"] dbl_of_int [of "int n"] by simp

lemma dbl_ldbl_mono: "x \<le> y \<Longrightarrow> dbl (ldbl x) \<le> dbl (ldbl y)"
  by (intro dbl_mono ldbl_mono)

lemma timeAsUs_roundtrip:
  assumes "n * 1000000 < 2 ^ 53"
  shows "timeAsUs (timeFromUs (of_nat n)) = of_nat n"
  using assms dbl_ldbl_nat [of n] by (simp add: timeAsUs_def unat_timeFromUs_nat)

lemma timeAsSec_mono:
  assumes "a \<le> b"
  shows "timeAsSec a \<le> timeAsSec b"
proof -
  have "(of_nat (unat a) :: rat) \<le> of_nat (unat b)"
    using assms by (simp only: of_nat_le_iff word_le_nat_alt)
  then show ?thesis
    unfolding timeAsSec_def by (intro dbl_ldbl_mono divide_right_mono) simp_all
qed

text \<open>At most \<open>2^24\<close> bytes in at least a picosecond are a rate of 64 bits.\<close>

lemma measured_rate_bound:
  assumes "secs \<noteq> 0" "bytes < 16777216"
  shows "timeAsSec secs \<noteq> 0"
    "trunc_rat (dbl (dbl (of_nat bytes) / timeAsSec secs)) < 2 ^ 64"
proof -
  have n: "(of_nat 1 :: rat) \<le> of_nat (unat secs)"
    unfolding of_nat_le_iff using assms(1) by (simp add: unat_gt_0 Suc_leI)
  have "of_int 1 / 2 ^ 40 \<le> (of_nat (unat secs) :: rat) / 1000000000000"
    using n by (simp add: field_simps)
  then have "of_int 1 / 2 ^ 40 \<le> ldbl (of_nat (unat secs) / 1000000000000)"
    by (rule ldbl_ge_dyadic) simp_all
  then have "of_int 1 / 2 ^ 40 \<le> timeAsSec secs"
    unfolding timeAsSec_def by (rule dbl_ge_dyadic) simp_all
  then have t: "1 / 1099511627776 \<le> timeAsSec secs" by simp
  then show "timeAsSec secs \<noteq> 0" by auto
  have b: "(of_nat bytes :: rat) \<le> of_nat 16777215" unfolding of_nat_le_iff using assms(2) by simp
  have "dbl (of_nat bytes) = of_nat bytes" using assms(2) by (intro dbl_of_nat) simp
  moreover have "of_nat bytes / timeAsSec secs \<le> of_nat bytes / (1 / 1099511627776)"
    using t by (intro divide_left_mono) simp_all
  ultimately have "dbl (of_nat bytes) / timeAsSec secs \<le> of_int 16777215 * 2 powi 40"
    using b by (simp add: power_int_def)
  then have "dbl (dbl (of_nat bytes) / timeAsSec secs) \<le> dbl (of_int 16777215 * 2 powi 40)"
    by (rule dbl_mono)
  also have "\<dots> = of_int 16777215 * 2 powi 40"
    unfolding dbl_def by (rule fl_exact) simp_all
  also have "\<dots> = of_int (16777215 * 2 ^ 40)" by (simp add: power_int_def)
  finally have "dbl (dbl (of_nat bytes) / timeAsSec secs) \<le> of_int (16777215 * 2 ^ 40)" .
  moreover have "0 \<le> dbl (dbl (of_nat bytes) / timeAsSec secs)"
    using t by (intro dbl_nonneg divide_nonneg_nonneg) simp_all
  ultimately have "trunc_rat (dbl (dbl (of_nat bytes) / timeAsSec secs)) \<le> 16777215 * 2 ^ 40"
    by (intro trunc_le)
  then show "trunc_rat (dbl (dbl (of_nat bytes) / timeAsSec secs)) < 2 ^ 64" by simp
qed

lemma unat_MSS64 [simp]: "unat MSS64 = 1500"
  by (simp add: MSS_BYTES_def)

lemma unat_MSS32 [simp]: "unat MSS32 = 1500"
  by (simp add: MSS_BYTES_def)

lemma drand_range:
  assumes "0 \<le> r" "r \<le> m" "0 < m" "m < 2 ^ 53"
  shows "0 \<le> drand m r \<and> drand m r \<le> 1"
proof -
  have "dbl (of_int r) = of_int r" "dbl (of_int m) = of_int m" using assms by (auto intro: dbl_of_int)
  then have d: "drand m r = dbl (of_int r / of_int m)" by (simp add: drand_def)
  have "dbl (of_int r / of_int m) \<le> of_int 1" using assms by (intro dbl_le_int) simp_all
  then show ?thesis using assms by (simp add: d dbl_nonneg)
qed

section \<open>Properties\<close>

text \<open>
  The conversions of \<open>htsim.h\<close> between microseconds and the picoseconds of the event list lose
  nothing while the product is below the 53 bits of a \<open>double\<close>: \<open>timeFromUs\<close> is exact there and
  \<open>timeAsUs\<close> is its inverse; and reading a time as seconds never reverses the order of two times.
\<close>

lemma us_roundtrip:
  assumes "n * 1000000 < 2 ^ 53" "timeFromUs (of_nat n) \<le> t"
  shows "unat (timeFromUs (of_nat n)) = n * 1000000 \<and> timeAsUs (timeFromUs (of_nat n)) = of_nat n \<and>
    timeAsSec (timeFromUs (of_nat n)) \<le> timeAsSec t"
  using unat_timeFromUs_nat [OF assms(1)] timeAsUs_roundtrip [OF assms(1)] timeAsSec_mono [OF assms(2)] by simp

lemma us_roundtrip_witness:
  "timeAsUs (timeFromUs (of_nat 2500)) = 2500 \<and> unat (timeFromUs (of_nat 2500)) = 2500000000"
  using us_roundtrip [of 2500 "timeFromUs (of_nat 2500)"] by simp

text \<open>
  \<open>drand\<close> yields a number of the closed interval from 0 to 1. The upper end is reached, when
  \<open>rand()\<close> returns \<open>RAND_MAX\<close>.
\<close>

lemma drand_unit:
  assumes "0 \<le> r" "r \<le> m" "0 < m" "m < 2 ^ 53"
  shows "0 \<le> drand m r \<and> drand m r \<le> 1 \<and> drand m m = 1"
proof -
  have "dbl (of_int m) = of_int m" using assms by (auto intro: dbl_of_int)
  then have "drand m m = dbl (of_int 1)" using assms(3) by (simp add: drand_def)
  then have "drand m m = 1" using dbl_of_int [of 1] by simp
  then show ?thesis using drand_range [OF assms] by simp
qed

lemma drand_unit_witness: "0 \<le> drand 2147483647 5 \<and> drand 2147483647 2147483647 = 1"
  using drand_unit [of 5 2147483647] by simp

end
