(* ===== verification/Network.thy ===== *)
theory Network
  imports Htsim
begin

text \<open>
  \<open>network.h\<close>, \<open>network.cpp\<close>, \<open>datapacket.h\<close>: packets and their flags, the packet pool, the flow
  a packet belongs to, and \<open>sendOn\<close>, which moves a packet to the next sink of its route. A
  pointer to a flow is the flow's id; a pointer to a route is an address of a route store,
  because packets of one flow share the route object. The calls a component makes on others are
  the values of \<open>action\<close>, in the order in which it makes them.
\<close>

section \<open>Packets\<close>

record vxlan_t =
  vx_src :: u8
  vx_dst :: u8
  vx_lbtag :: u8
  vx_ce :: u8
  vx_fb_lbtag :: u8
  vx_fb_ce :: u8

datatype packet_flag = ECN_FWD | ECN_REV | PP_FIRST | DEADLINE | ACK | PASSED_CORE

fun flag_no :: "packet_flag \<Rightarrow> nat" where
  "flag_no ECN_FWD = 0"
| "flag_no ECN_REV = 1"
| "flag_no PP_FIRST = 2"
| "flag_no DEADLINE = 3"
| "flag_no ACK = 4"
| "flag_no PASSED_CORE = 5"

text \<open>The fields of the subclasses \<open>DataPacket\<close> and \<open>DataAck\<close>.\<close>

datatype pkt_class = DataPacket (seqno: u64) (ts: u64) | DataAck (seqno: u64) (ackno: u64) (ts: u64)

record packet =
  p_flow :: u32
  p_size :: u64
  p_id :: u32
  p_route :: nat
  p_nexthop :: u32
  p_flags :: u32
  p_priority :: u32
  p_vxlan :: vxlan_t
  p_class :: pkt_class

text \<open>An object as \<open>new P()\<close> leaves it, for the examples of the development.\<close>

definition pkt0 :: packet where
  "pkt0 = \<lparr>p_flow = 0, p_size = 0, p_id = 0, p_route = 0, p_nexthop = 0, p_flags = 0,
     p_priority = 0, p_vxlan = \<lparr>vx_src = 0, vx_dst = 0, vx_lbtag = 0, vx_ce = 0, vx_fb_lbtag = 0,
     vx_fb_ce = 0\<rparr>, p_class = DataPacket 0 0\<rparr>"

definition setFlag :: "packet_flag \<Rightarrow> packet \<Rightarrow> packet" where
  "setFlag f p = p\<lparr>p_flags := p_flags p OR push_bit (flag_no f) 1\<rparr>"

definition unsetFlag :: "packet_flag \<Rightarrow> packet \<Rightarrow> packet" where
  "unsetFlag f p = p\<lparr>p_flags := p_flags p AND NOT (push_bit (flag_no f) 1)\<rparr>"

definition getFlag :: "packet_flag \<Rightarrow> packet \<Rightarrow> u8" where
  "getFlag f p = (if p_flags p AND push_bit (flag_no f) 1 \<noteq> 0 then 1 else 0)"

definition setPriority :: "u32 \<Rightarrow> packet \<Rightarrow> packet" where
  "setPriority x p = p\<lparr>p_priority := x\<rparr>"

text \<open>\<open>Packet::set\<close>. The fields it does not name keep what the recycled object held.\<close>

definition packet_set :: "u32 \<Rightarrow> nat \<Rightarrow> u64 \<Rightarrow> u32 \<Rightarrow> packet \<Rightarrow> packet" where
  "packet_set flow route pkt_size pid p =
     p\<lparr>p_flow := flow, p_route := route, p_size := pkt_size, p_id := pid,
       p_nexthop := 0, p_flags := 0, p_priority := 0\<rparr>"

section \<open>Routes\<close>

text \<open>The store of route objects; a route is a vector of sinks.\<close>

type_synonym 's routes = "nat \<Rightarrow> 's list"

definition sendOn :: "'s routes \<Rightarrow> packet \<Rightarrow> ('s \<times> packet) option" where
  "sendOn routes p =
     (if unat (p_nexthop p) < length (routes (p_route p))
      then Some (routes (p_route p) ! unat (p_nexthop p), p\<lparr>p_nexthop := p_nexthop p + 1\<rparr>)
      else None)"

text \<open>\<open>Packet::updateRoute\<close>; writing behind the end of the vector is undefined behaviour, \<open>None\<close>.\<close>

definition updateRoute :: "packet \<Rightarrow> u32 \<Rightarrow> 's \<Rightarrow> 's routes \<Rightarrow> 's routes option" where
  "updateRoute p hop sink routes =
     (if unat hop < length (routes (p_route p))
      then Some (routes(p_route p := (routes (p_route p))[unat hop := sink]))
      else None)"

section \<open>The packet pool and the flow\<close>

text \<open>\<open>PacketDB\<close>: a stack of freed objects; \<open>fresh\<close> stands for what \<open>new P()\<close> returns.\<close>

definition allocPacket :: "'p \<Rightarrow> 'p list \<Rightarrow> 'p \<times> 'p list" where
  "allocPacket fresh freelist =
     (if freelist = [] then (fresh, freelist) else (last freelist, butlast freelist))"

definition freePacket :: "'p list \<Rightarrow> 'p \<Rightarrow> 'p list" where
  "freePacket freelist pkt = freelist @ [pkt]"

record packet_flow =
  f_id :: u32
  f_nPackets :: u32
  f_logger :: bool

text \<open>A \<open>PacketFlow\<close> is \<open>Logged\<close>: its constructor takes an id \<open>i\<close> of its own from the counter.\<close>

definition mkPacketFlow :: "u32 \<Rightarrow> bool \<Rightarrow> packet_flow" where
  "mkPacketFlow i logger = \<lparr>f_id = i, f_nPackets = 0, f_logger = logger\<rparr>"

lemma mkPacketFlow_fields [simp]:
  "f_id (mkPacketFlow i logger) = i" "f_nPackets (mkPacketFlow i logger) = 0" "f_logger (mkPacketFlow i logger) = logger"
  by (simp_all add: mkPacketFlow_def)

definition newDataPacket ::
  "packet \<Rightarrow> packet list \<Rightarrow> packet_flow \<Rightarrow> nat \<Rightarrow> u64 \<Rightarrow> int \<Rightarrow> packet \<times> packet list \<times> packet_flow" where
  "newDataPacket fresh db flow route sq sz =
     (let (p, db') = allocPacket fresh db;
          p = packet_set (f_id flow) route (word_of_int sz) (ucast sq) p;
          p = p\<lparr>p_class := DataPacket sq (ts (p_class p))\<rparr>;
          p = unsetFlag PASSED_CORE p
      in (p, db', flow\<lparr>f_nPackets := f_nPackets flow + 1\<rparr>))"

definition newDataAck ::
  "packet \<Rightarrow> packet list \<Rightarrow> packet_flow \<Rightarrow> nat \<Rightarrow> u64 \<Rightarrow> u64 \<Rightarrow> packet \<times> packet list \<times> packet_flow" where
  "newDataAck fresh db flow route sq ak =
     (let (p, db') = allocPacket fresh db;
          p = packet_set (f_id flow) route (word_of_int ACK_SIZE) (ucast ak) p;
          p = p\<lparr>p_class := DataAck sq ak (ts (p_class p))\<rparr>;
          p = setFlag ACK p
      in (p, db', flow\<lparr>f_nPackets := f_nPackets flow + 1\<rparr>))"

definition pkt_free :: "packet list \<Rightarrow> packet_flow \<Rightarrow> packet \<Rightarrow> packet list \<times> packet_flow" where
  "pkt_free db flow p = (freePacket db p, flow\<lparr>f_nPackets := f_nPackets flow - 1\<rparr>)"

definition set_ts :: "u64 \<Rightarrow> packet \<Rightarrow> packet" where
  "set_ts t p = p\<lparr>p_class := (case p_class p of
      DataPacket s _ \<Rightarrow> DataPacket s t | DataAck s a _ \<Rightarrow> DataAck s a t)\<rparr>"

section \<open>Calls on other objects\<close>

datatype traffic_event =
  PKT_ARRIVE | PKT_DEPART | PKT_CREATESEND | PKT_DROP | PKT_RCVDESTROY | PKT_TOR_SRC | PKT_TOR_DST

datatype tcp_event =
  TCP_RCV | TCP_RCV_FR_END | TCP_RCV_FR | TCP_RCV_DUP_FR | TCP_RCV_DUP | TCP_RCV_3DUPNOFR |
  TCP_RCV_DUP_FASTXMIT | TCP_TIMEOUT

datatype queue_event = Q_ENQUEUE | Q_DROP | Q_SERVICE

text \<open>
  \<open>Traffic\<close>: \<open>pkt.flow().logTraffic\<close>; \<open>QLog\<close>: \<open>_logger->logQueue\<close> with the queue size the logger
  then reads; \<open>SchedRel\<close> and \<open>SchedAt\<close>: \<open>EventList::sourceIsPendingRel\<close> and
  \<open>sourceIsPending\<close> on \<open>*this\<close>; \<open>SendOn\<close> and \<open>Free\<close>: the packet's methods. \<open>TcpLog\<close>:
  \<open>_logger->logTcp\<close> with the window, threshold and sequence numbers the logger can then read;
  \<open>FinishFlow\<close>, \<open>AddFct\<close>: the flow generator's methods; \<open>SinkConnect\<close>: \<open>_sink->connect\<close>;
  \<open>DeleteFlow\<close>: the deletion of the sink, the two routes and the source.
\<close>

datatype action =
    Traffic traffic_event packet
  | QLog queue_event packet u64
  | SchedRel u64
  | SchedAt u64
  | SendOn packet
  | Free packet
  | TcpLog tcp_event u32 u32 u64 u64
  | FinishFlow u32
  | AddFct rat
  | SinkConnect
  | DeleteFlow

fun sends :: "action list \<Rightarrow> packet list" where
  "sends [] = []"
| "sends (SendOn p # as) = p # sends as"
| "sends (_ # as) = sends as"

fun frees :: "action list \<Rightarrow> packet list" where
  "frees [] = []"
| "frees (Free p # as) = p # frees as"
| "frees (_ # as) = frees as"

fun scheds :: "action list \<Rightarrow> action list" where
  "scheds [] = []"
| "scheds (SchedRel t # as) = SchedRel t # scheds as"
| "scheds (SchedAt t # as) = SchedAt t # scheds as"
| "scheds (_ # as) = scheds as"

lemma sends_append [simp]: "sends (xs @ ys) = sends xs @ sends ys"
  by (induction xs rule: sends.induct) auto

lemma frees_append [simp]: "frees (xs @ ys) = frees xs @ frees ys"
  by (induction xs rule: frees.induct) auto

lemma scheds_append [simp]: "scheds (xs @ ys) = scheds xs @ scheds ys"
  by (induction xs rule: scheds.induct) auto

section \<open>Lemmas\<close>

lemma flag_no_inj: "flag_no f = flag_no g \<longleftrightarrow> f = g"
  by (cases f; cases g) simp_all

lemma flag_no_lt: "flag_no f < 32"
  by (cases f) simp_all

lemma and_push_bit_eq_0_iff:
  fixes w :: u32
  assumes "n < 32"
  shows "w AND push_bit n 1 = 0 \<longleftrightarrow> \<not> bit w n"
proof -
  have "w AND push_bit n 1 = (if bit w n then push_bit n 1 else 0)"
    by (rule bit_word_eqI) (auto simp: bit_simps)
  moreover have "push_bit n (1 :: u32) \<noteq> 0"
    using assms by (simp add: push_bit_of_1 exp_eq_zero_iff)
  ultimately show ?thesis by simp
qed

lemma getFlag_bit: "getFlag f p = (if bit (p_flags p) (flag_no f) then 1 else 0)"
  using and_push_bit_eq_0_iff [OF flag_no_lt [of f], of "p_flags p"] by (simp add: getFlag_def)

lemma getFlag_setFlag: "getFlag f (setFlag g p) = (if f = g then 1 else getFlag f p)"
  using flag_no_lt [of f] flag_no_inj [of f g]
  by (auto simp: getFlag_bit setFlag_def bit_simps)

lemma getFlag_unsetFlag: "getFlag f (unsetFlag g p) = (if f = g then 0 else getFlag f p)"
  using flag_no_lt [of f] flag_no_inj [of f g]
  by (auto simp: getFlag_bit unsetFlag_def bit_simps)

lemma setFlag_idem: "setFlag f (setFlag f p) = setFlag f p"
  by (simp add: setFlag_def or.assoc)

lemma setFlag_fields [simp]:
  "p_flow (setFlag f p) = p_flow p" "p_size (setFlag f p) = p_size p"
  "p_id (setFlag f p) = p_id p" "p_route (setFlag f p) = p_route p"
  "p_nexthop (setFlag f p) = p_nexthop p" "p_priority (setFlag f p) = p_priority p"
  "p_vxlan (setFlag f p) = p_vxlan p" "p_class (setFlag f p) = p_class p"
  by (simp_all add: setFlag_def)

lemma alloc_free: "allocPacket fresh (freePacket db p) = (p, db)"
  by (simp add: allocPacket_def freePacket_def)

lemma ts_set_ts [simp]: "ts (p_class (set_ts t p)) = t"
  by (simp add: set_ts_def split: pkt_class.split)

end
