(* ===== verification/Discipline.thy ===== *)
theory Discipline
  imports Network
begin

text \<open>
  The contract between a queue (\<open>queue.cpp\<close> and its subclasses) and the simulator that drives it:
  the simulator hands packets over with \<open>receivePacket\<close> and calls \<open>doNextEvent\<close> once for every
  event the queue has scheduled. The locale \<open>queue_discipline\<close> states what each queue promises;
  its consequences hold for every reachable state of every queue that is an interpretation.
\<close>

section \<open>Driving a queue\<close>

text \<open>Only the ECN mark may be added to a packet while it is in a queue.\<close>

abbreviation marked :: "packet \<Rightarrow> packet" where "marked p \<equiv> setFlag ECN_FWD p"

abbreviation bytes_of :: "packet multiset \<Rightarrow> nat" where
  "bytes_of M \<equiv> (\<Sum>p\<in>#M. unat (p_size p))"

record 'q qsim =
  st :: 'q
  pend :: nat
  arrived :: "packet multiset"
  sent :: "packet list"
  dropped :: "packet multiset"

definition qsim_init :: "'q \<Rightarrow> 'q qsim" where
  "qsim_init q = \<lparr>st = q, pend = 0, arrived = {#}, sent = [], dropped = {#}\<rparr>"

definition qsim_after :: "'q qsim \<Rightarrow> 'q \<Rightarrow> action list \<Rightarrow> 'q qsim" where
  "qsim_after s q as = s\<lparr>st := q, pend := pend s + length (scheds as), sent := sent s @ sends as,
     dropped := dropped s + mset (frees as)\<rparr>"

inductive qreach ::
  "('q \<Rightarrow> packet \<Rightarrow> ('q \<times> action list) option) \<Rightarrow> ('q \<Rightarrow> ('q \<times> action list) option) \<Rightarrow>
   ('q \<Rightarrow> packet \<Rightarrow> bool) \<Rightarrow> 'q \<Rightarrow> 'q qsim \<Rightarrow> bool"
  for recv serve ok q0 where
  start: "qreach recv serve ok q0 (qsim_init q0)"
| arrive: "qreach recv serve ok q0 s \<Longrightarrow> ok (st s) p \<Longrightarrow> recv (st s) p = Some (q', as) \<Longrightarrow>
    qreach recv serve ok q0 (qsim_after (s\<lparr>arrived := add_mset p (arrived s)\<rparr>) q' as)"
| tick: "qreach recv serve ok q0 s \<Longrightarrow> pend s = Suc n \<Longrightarrow> serve (st s) = Some (q', as) \<Longrightarrow>
    qreach recv serve ok q0 (qsim_after (s\<lparr>pend := n\<rparr>) q' as)"

lemma qreach_first:
  assumes "ok q0 p" "recv q0 p = Some (q', as)"
  shows "qreach recv serve ok q0 (qsim_after ((qsim_init q0)\<lparr>arrived := {#p#}\<rparr>) q' as)"
proof -
  have "st (qsim_init q0) = q0" "arrived (qsim_init q0) = {#}" by (simp_all add: qsim_init_def)
  then show ?thesis
    using qreach.arrive [where s = "qsim_init q0" and recv = recv and serve = serve and ok = ok and
        ?q0.0 = q0 and p = p and q' = q' and as = as, OF qreach.start] assms by simp
qed

text \<open>
  The promises in a state \<open>s\<close> of a run: what arrived is held, sent or freed; the bytes held are
  counted and within the limit; an event is outstanding exactly while packets wait; handling it sends
  one packet, and no acceptable packet makes a handler fail.
\<close>

definition keeps_promises ::
  "('q \<Rightarrow> packet \<Rightarrow> ('q \<times> action list) option) \<Rightarrow> ('q \<Rightarrow> ('q \<times> action list) option) \<Rightarrow>
   ('q \<Rightarrow> packet multiset) \<Rightarrow> ('q \<Rightarrow> u64) \<Rightarrow> u64 \<Rightarrow> ('q \<Rightarrow> packet \<Rightarrow> bool) \<Rightarrow> 'q qsim \<Rightarrow> bool" where
  "keeps_promises recv serve held qbytes max_bytes ok s \<longleftrightarrow>
     image_mset marked (arrived s) =
       image_mset marked (held (st s)) + image_mset marked (mset (sent s)) + image_mset marked (dropped s) \<and>
     bytes_of (held (st s)) = unat (qbytes (st s)) \<and> qbytes (st s) \<le> max_bytes \<and>
     pend s = (if held (st s) = {#} then 0 else 1) \<and>
     (0 < pend s \<longrightarrow> (\<exists>q' as p. serve (st s) = Some (q', as) \<and> sends as = [p])) \<and>
     (\<forall>p. ok (st s) p \<longrightarrow> recv (st s) p \<noteq> None)"

section \<open>The contract\<close>

locale queue_discipline =
  fixes recv :: "'q \<Rightarrow> packet \<Rightarrow> ('q \<times> action list) option"
    and serve :: "'q \<Rightarrow> ('q \<times> action list) option"
    and held :: "'q \<Rightarrow> packet multiset"
    and limit :: "'q \<Rightarrow> u64"
    and qbytes :: "'q \<Rightarrow> u64"
    and inv :: "'q \<Rightarrow> bool"
    and ok :: "'q \<Rightarrow> packet \<Rightarrow> bool"
  assumes recv_total: "inv q \<Longrightarrow> ok q p \<Longrightarrow> \<exists>q' as. recv q p = Some (q', as)"
    and recv_inv: "inv q \<Longrightarrow> ok q p \<Longrightarrow> recv q p = Some (q', as) \<Longrightarrow> inv q'"
    and recv_held: "inv q \<Longrightarrow> ok q p \<Longrightarrow> recv q p = Some (q', as) \<Longrightarrow>
      held q' + mset (frees as) = add_mset p (held q) \<and> sends as = []"
    and recv_sched: "inv q \<Longrightarrow> ok q p \<Longrightarrow> recv q p = Some (q', as) \<Longrightarrow>
      length (scheds as) = (if held q = {#} \<and> held q' \<noteq> {#} then 1 else 0)"
    and recv_busy: "inv q \<Longrightarrow> ok q p \<Longrightarrow> recv q p = Some (q', as) \<Longrightarrow>
      held q \<noteq> {#} \<Longrightarrow> held q' \<noteq> {#}"
    and serve_total: "inv q \<Longrightarrow> held q \<noteq> {#} \<Longrightarrow> \<exists>q' as. serve q = Some (q', as)"
    and serve_inv: "inv q \<Longrightarrow> held q \<noteq> {#} \<Longrightarrow> serve q = Some (q', as) \<Longrightarrow> inv q'"
    and serve_held: "inv q \<Longrightarrow> held q \<noteq> {#} \<Longrightarrow> serve q = Some (q', as) \<Longrightarrow>
      \<exists>p p'. sends as = [p'] \<and> (p' = p \<or> p' = marked p) \<and> held q = add_mset p (held q') \<and>
        frees as = []"
    and serve_sched: "inv q \<Longrightarrow> held q \<noteq> {#} \<Longrightarrow> serve q = Some (q', as) \<Longrightarrow>
      length (scheds as) = (if held q' = {#} then 0 else 1)"
    and size_bound: "inv q \<Longrightarrow> bytes_of (held q) = unat (qbytes q) \<and> qbytes q \<le> limit q"
    and limit_recv: "inv q \<Longrightarrow> ok q p \<Longrightarrow> recv q p = Some (q', as) \<Longrightarrow> limit q' = limit q"
    and limit_serve: "inv q \<Longrightarrow> held q \<noteq> {#} \<Longrightarrow> serve q = Some (q', as) \<Longrightarrow> limit q' = limit q"
begin

text \<open>What holds after any sequence of arrivals and service events.\<close>

lemma reach_inv:
  assumes "qreach recv serve ok q0 s" "inv q0" "held q0 = {#}"
  shows "inv (st s) \<and> pend s = (if held (st s) = {#} then 0 else 1) \<and> limit (st s) = limit q0"
  using assms
proof (induction rule: qreach.induct)
  case start
  then show ?case by (simp add: qsim_init_def)
next
  case (arrive s p q' as)
  then have i: "inv (st s)" "pend s = (if held (st s) = {#} then 0 else 1)" "limit (st s) = limit q0"
    by auto
  note f = i(1) arrive.hyps(2,3)
  show ?case
    using i recv_inv [OF f] recv_sched [OF f] recv_busy [OF f] limit_recv [OF f]
    by (auto simp: qsim_after_def)
next
  case (tick s n q' as)
  then have i: "inv (st s)" "pend s = (if held (st s) = {#} then 0 else 1)" "limit (st s) = limit q0"
    by auto
  then have h: "held (st s) \<noteq> {#}" "n = 0" using tick.hyps by (auto split: if_splits)
  note f = i(1) h(1) tick.hyps(3)
  show ?case
    using i h serve_inv [OF f] serve_sched [OF f] limit_serve [OF f] by (auto simp: qsim_after_def)
qed

text \<open>No packet is lost, invented or duplicated: it is held, forwarded or freed.\<close>

lemma reach_conserved:
  assumes "qreach recv serve ok q0 s" "inv q0" "held q0 = {#}"
  shows "image_mset marked (arrived s) =
    image_mset marked (held (st s)) + image_mset marked (mset (sent s)) + image_mset marked (dropped s)"
  using assms
proof (induction rule: qreach.induct)
  case start
  then show ?case by (simp add: qsim_init_def)
next
  case (arrive s p q' as)
  have i: "inv (st s)" using reach_inv [OF arrive.hyps(1)] arrive.prems by simp
  have "held q' + mset (frees as) = add_mset p (held (st s))" "sends as = []"
    using recv_held [OF i arrive.hyps(2,3)] by auto
  then have "image_mset marked (held q') + image_mset marked (mset (frees as)) =
      add_mset (marked p) (image_mset marked (held (st s)))"
    by (metis image_mset_union image_mset_add_mset)
  then show ?case using arrive.IH arrive.prems \<open>sends as = []\<close>
    by (simp add: qsim_after_def ac_simps)
next
  case (tick s n q' as)
  have i: "inv (st s)" "held (st s) \<noteq> {#}"
    using reach_inv [OF tick.hyps(1)] tick.prems tick.hyps(2) by (auto split: if_splits)
  obtain p p' where "sends as = [p']" "p' = p \<or> p' = marked p"
      "held (st s) = add_mset p (held q')" "frees as = []"
    using serve_held [OF i tick.hyps(3)] by blast
  then show ?case using tick.IH tick.prems
    by (auto simp: qsim_after_def setFlag_idem)
qed

lemma reach_bounded:
  assumes "qreach recv serve ok q0 s" "inv q0" "held q0 = {#}"
  shows "bytes_of (held (st s)) = unat (qbytes (st s)) \<and> qbytes (st s) \<le> limit q0"
  using size_bound [of "st s"] reach_inv [OF assms] by simp

text \<open>
  A service event is outstanding exactly while the queue holds a packet, and handling it never
  fails an assertion: the queue neither stalls nor serves an empty buffer.
\<close>

lemma reach_live:
  assumes "qreach recv serve ok q0 s" "inv q0" "held q0 = {#}"
  shows "pend s = (if held (st s) = {#} then 0 else 1)"
    and "0 < pend s \<Longrightarrow> \<exists>q' as p. serve (st s) = Some (q', as) \<and> sends as = [p]"
    and "ok (st s) p \<Longrightarrow> \<exists>q' as. recv (st s) p = Some (q', as)"
proof -
  have i: "inv (st s)" and p: "pend s = (if held (st s) = {#} then 0 else 1)"
    using reach_inv [OF assms] by auto
  then show "pend s = (if held (st s) = {#} then 0 else 1)" by simp
  show "\<exists>q' as p. serve (st s) = Some (q', as) \<and> sends as = [p]" if "0 < pend s"
  proof -
    have h: "held (st s) \<noteq> {#}" using p that by (auto split: if_splits)
    obtain q' as where "serve (st s) = Some (q', as)" using serve_total [OF i h] by blast
    with serve_held [OF i h] show ?thesis by blast
  qed
  show "ok (st s) p \<Longrightarrow> \<exists>q' as. recv (st s) p = Some (q', as)" using recv_total [OF i] by blast
qed

lemma reach_promises:
  assumes "qreach recv serve ok q0 s" "inv q0" "held q0 = {#}"
  shows "keeps_promises recv serve held qbytes (limit q0) ok s"
  unfolding keeps_promises_def
  using reach_conserved [OF assms] reach_bounded [OF assms] reach_live [OF assms] by auto

end

end
