(* ===== verification/FifoQueue.thy ===== *)
theory FifoQueue
  imports Discipline
begin

text \<open>
  \<open>queue.h\<close> and \<open>queue.cpp\<close>: the drop-tail FIFO \<open>Queue\<close>, base class of every other queue. The
  list \<open>_enqueued\<close> has its front at the head: packets enter at the front, leave at the back.
  A failed assertion is \<open>None\<close>.
\<close>

section \<open>State\<close>

record queue =
  q_maxsize :: u64
  q_queuesize :: u64
  q_enqueued :: "packet list"
  q_bitrate :: u64
  q_ps_per_byte :: u64
  q_logger :: bool

text \<open>The constructor; a bit rate of 0 is a division by zero, \<open>None\<close>.\<close>

definition ps_per_byte :: "u64 \<Rightarrow> u64" where
  "ps_per_byte bitrate = 8 * 1000000000000 div bitrate"

definition mkQueue :: "u64 \<Rightarrow> u64 \<Rightarrow> bool \<Rightarrow> queue option" where
  "mkQueue bitrate maxsize logger =
     (if bitrate = 0 then None
      else Some \<lparr>q_maxsize = maxsize, q_queuesize = 0, q_enqueued = [], q_bitrate = bitrate,
                 q_ps_per_byte = ps_per_byte bitrate, q_logger = logger\<rparr>)"

section \<open>Operations\<close>

definition drainTime :: "'a queue_scheme \<Rightarrow> packet \<Rightarrow> u64" where
  "drainTime q p = p_size p * q_ps_per_byte q"

definition serviceCapacity :: "'a queue_scheme \<Rightarrow> u64 \<Rightarrow> u64" where
  "serviceCapacity q t =
     word_of_int (trunc_rat (dbl (timeAsSec t * dbl (of_nat (unat (q_bitrate q))))))"

definition dctcpThreshold :: "'a queue_scheme \<Rightarrow> u64" where
  "dctcpThreshold q =
     (if q_bitrate q \<le> 1000000000 then word_of_int (10 * MSS_BYTES)
      else if q_bitrate q \<le> 10000000000 then word_of_int (30 * MSS_BYTES)
      else word_of_int (90 * MSS_BYTES))"

definition applyEcnMark :: "'a queue_scheme \<Rightarrow> packet \<Rightarrow> packet" where
  "applyEcnMark q p =
     (if ENABLE_ECN \<and> q_queuesize q > dctcpThreshold q then setFlag ECN_FWD p else p)"

definition qlog :: "'a queue_scheme \<Rightarrow> queue_event \<Rightarrow> packet \<Rightarrow> action list" where
  "qlog q ev p = (if q_logger q then [QLog ev p (q_queuesize q)] else [])"

definition fifo_beginService :: "queue \<Rightarrow> action list option" where
  "fifo_beginService q =
     (if q_enqueued q = [] then None else Some [SchedRel (drainTime q (last (q_enqueued q)))])"

definition fifo_completeService :: "queue \<Rightarrow> (queue \<times> action list) option" where
  "fifo_completeService q =
     (if q_enqueued q = [] then None
      else let pkt = last (q_enqueued q);
               q = q\<lparr>q_enqueued := butlast (q_enqueued q)\<rparr>;
               q = q\<lparr>q_queuesize := q_queuesize q - p_size pkt\<rparr>;
               as = Traffic PKT_DEPART pkt # qlog q Q_SERVICE pkt @ [SendOn (applyEcnMark q pkt)]
           in if q_enqueued q \<noteq> []
              then map_option (\<lambda>bs. (q, as @ bs)) (fifo_beginService q)
              else Some (q, as))"

definition fifo_doNextEvent :: "queue \<Rightarrow> (queue \<times> action list) option" where
  "fifo_doNextEvent q = fifo_completeService q"

definition fifo_receivePacket :: "queue \<Rightarrow> packet \<Rightarrow> (queue \<times> action list) option" where
  "fifo_receivePacket q pkt =
     (if q_queuesize q + p_size pkt > q_maxsize q
      then Some (q, qlog q Q_DROP pkt @ [Traffic PKT_DROP pkt, Free pkt])
      else let queueWasEmpty = (q_enqueued q = []);
               q = q\<lparr>q_enqueued := pkt # q_enqueued q\<rparr>;
               q = q\<lparr>q_queuesize := q_queuesize q + p_size pkt\<rparr>;
               as = Traffic PKT_ARRIVE pkt # qlog q Q_ENQUEUE pkt
           in if queueWasEmpty
              then if length (q_enqueued q) \<noteq> 1 then None
                   else map_option (\<lambda>bs. (q, as @ bs)) (fifo_beginService q)
              else Some (q, as))"

text \<open>\<open>printStats\<close>: the number of held packets per flow.\<close>

fun flow_counts :: "packet list \<Rightarrow> (u32 \<rightharpoonup> u32) \<Rightarrow> (u32 \<rightharpoonup> u32)" where
  "flow_counts [] counts = counts"
| "flow_counts (p # ps) counts =
     (let fid = p_flow p;
          counts = (if counts fid = None then counts(fid \<mapsto> 0) else counts)
      in flow_counts ps (counts(fid \<mapsto> the (counts fid) + 1)))"

definition fifo_printStats :: "queue \<Rightarrow> (u32 \<rightharpoonup> u32)" where
  "fifo_printStats q = flow_counts (q_enqueued q) Map.empty"

section \<open>Invariant and contract\<close>

definition list_bytes :: "packet list \<Rightarrow> nat" where
  "list_bytes ps = sum_list (map (\<lambda>p. unat (p_size p)) ps)"

lemma list_bytes_simps [simp, container_simps]:
  "list_bytes [] = 0" "list_bytes (p # ps) = unat (p_size p) + list_bytes ps"
  "list_bytes (ps @ qs) = list_bytes ps + list_bytes qs"
  by (simp_all add: list_bytes_def)

lemma list_bytes_mset: "list_bytes ps = bytes_of (mset ps)"
  by (simp add: list_bytes_def flip: sum_mset_sum_list)

lemma list_bytes_last: "ps \<noteq> [] \<Longrightarrow> unat (p_size (last ps)) + list_bytes (butlast ps) = list_bytes ps"
  unfolding list_bytes_def by (rule butlast_last_sum)

definition fifo_inv :: "queue \<Rightarrow> bool" where
  "fifo_inv q \<longleftrightarrow> unat (q_queuesize q) = list_bytes (q_enqueued q) \<and> q_queuesize q \<le> q_maxsize q"

text \<open>The size sum of the admission test must fit the 64 bits of \<open>mem_b\<close>.\<close>

definition fits :: "'a queue_scheme \<Rightarrow> packet \<Rightarrow> bool" where
  "fits q p \<longleftrightarrow> unat (q_maxsize q) + unat (p_size p) < 18446744073709551616"

lemma scheds_qlog [simp]: "scheds (qlog q ev p) = []" "sends (qlog q ev p) = []" "frees (qlog q ev p) = []"
  by (simp_all add: qlog_def)

lemma applyEcnMark_cases: "applyEcnMark q p = p \<or> applyEcnMark q p = marked p"
  by (simp add: applyEcnMark_def)

lemma applyEcnMark_cong:
  "q_queuesize q1 = q_queuesize q2 \<Longrightarrow> q_bitrate q1 = q_bitrate q2 \<Longrightarrow>
     applyEcnMark q1 p = applyEcnMark q2 p"
  by (simp only: applyEcnMark_def dctcpThreshold_def)

lemma mkQueue_inv: "mkQueue bitrate maxsize lg = Some q \<Longrightarrow> fifo_inv q \<and> q_enqueued q = []"
  by (auto simp: mkQueue_def fifo_inv_def split: if_splits)

text \<open>The two outcomes of \<open>receivePacket\<close> and the one of \<open>doNextEvent\<close>.\<close>

lemma fifo_receive_drop:
  "q_queuesize q + p_size p > q_maxsize q \<Longrightarrow>
     fifo_receivePacket q p = Some (q, qlog q Q_DROP p @ [Traffic PKT_DROP p, Free p])"
  by (simp add: fifo_receivePacket_def)

lemma fifo_receive_accept:
  assumes "\<not> q_queuesize q + p_size p > q_maxsize q"
  shows "\<exists>as. fifo_receivePacket q p =
      Some (q\<lparr>q_enqueued := p # q_enqueued q, q_queuesize := q_queuesize q + p_size p\<rparr>, as) \<and>
    sends as = [] \<and> frees as = [] \<and>
    scheds as = (if q_enqueued q = [] then [SchedRel (drainTime q p)] else [])"
  using assms
  by (simp add: fifo_receivePacket_def fifo_beginService_def Let_def drainTime_def)

lemma fifo_serve:
  assumes "q_enqueued q \<noteq> []"
  shows "\<exists>as. let p = last (q_enqueued q);
      q' = q\<lparr>q_enqueued := butlast (q_enqueued q), q_queuesize := q_queuesize q - p_size p\<rparr>
    in fifo_doNextEvent q = Some (q', as) \<and> sends as = [applyEcnMark q' p] \<and> frees as = [] \<and>
      scheds as = (if butlast (q_enqueued q) = [] then []
        else [SchedRel (drainTime q (last (butlast (q_enqueued q))))])"
  using assms
  by (simp add: fifo_doNextEvent_def fifo_completeService_def fifo_beginService_def Let_def
      drainTime_def)

lemma fifo_admit_bytes:
  assumes "fifo_inv q" "fits q p" "\<not> q_queuesize q + p_size p > q_maxsize q"
  shows "unat (q_queuesize q + p_size p) = list_bytes (p # q_enqueued q)"
proof -
  have "unat (q_queuesize q) \<le> unat (q_maxsize q)"
    using assms(1) by (simp add: fifo_inv_def word_le_nat_alt)
  then have "unat (q_queuesize q + p_size p) = unat (q_queuesize q) + unat (p_size p)"
    using assms(2) by (intro unat_add_64) (simp add: fits_def)
  then show ?thesis using assms(1) by (simp add: fifo_inv_def)
qed

lemma fifo_recv_inv:
  assumes "fifo_inv q" "fits q p" "fifo_receivePacket q p = Some (q', as)"
  shows "fifo_inv q'"
proof (cases "q_queuesize q + p_size p > q_maxsize q")
  case True
  then show ?thesis using assms by (simp add: fifo_receive_drop)
next
  case False
  then show ?thesis
    using fifo_receive_accept [OF False] fifo_admit_bytes [OF assms(1,2) False] assms(3)
    by (auto simp: fifo_inv_def)
qed

lemma fifo_serve_inv:
  assumes "fifo_inv q" "q_enqueued q \<noteq> []" "fifo_doNextEvent q = Some (q', as)"
  shows "fifo_inv q'"
proof -
  let ?p = "last (q_enqueued q)"
  have b: "unat (p_size ?p) + list_bytes (butlast (q_enqueued q)) = unat (q_queuesize q)"
    using assms(1) list_bytes_last [OF assms(2)] by (simp add: fifo_inv_def)
  then have le: "p_size ?p \<le> q_queuesize q" by (simp add: word_le_nat_alt)
  then have "unat (q_queuesize q - p_size ?p) = list_bytes (butlast (q_enqueued q))"
    using b by (simp add: unat_sub)
  moreover have "q_queuesize q - p_size ?p \<le> q_queuesize q"
    using le by (simp add: word_le_nat_alt unat_sub)
  ultimately show ?thesis
    using fifo_serve [OF assms(2)] assms(1,3) by (auto simp: fifo_inv_def Let_def)
qed

interpretation fifo: queue_discipline fifo_receivePacket fifo_doNextEvent
  "\<lambda>q. mset (q_enqueued q)" q_maxsize q_queuesize fifo_inv fits
proof (unfold_locales, goal_cases)
  case (1 q p)
  then show ?case
    using fifo_receive_drop fifo_receive_accept by (cases "q_queuesize q + p_size p > q_maxsize q") blast+
next
  case (2 q p q' as)
  then show ?case by (rule fifo_recv_inv)
next
  case (3 q p q' as)
  then show ?case
    using fifo_receive_drop [of q p] fifo_receive_accept [of q p]
    by (cases "q_queuesize q + p_size p > q_maxsize q") auto
next
  case (4 q p q' as)
  then show ?case
    using fifo_receive_drop [of q p] fifo_receive_accept [of q p]
    by (cases "q_queuesize q + p_size p > q_maxsize q") auto
next
  case (5 q p q' as)
  then show ?case
    using fifo_receive_drop [of q p] fifo_receive_accept [of q p]
    by (cases "q_queuesize q + p_size p > q_maxsize q") auto
next
  case (6 q)
  then show ?case using fifo_serve [of q] by (auto simp: Let_def)
next
  case (7 q q' as)
  then show ?case using fifo_serve_inv by simp
next
  case (8 q q' as)
  then have ne: "q_enqueued q \<noteq> []" by simp
  let ?p = "last (q_enqueued q)"
  have "sends as = [applyEcnMark q' ?p]" "frees as = []" "q_enqueued q' = butlast (q_enqueued q)"
    using fifo_serve [OF ne] 8 by (auto simp: Let_def)
  then show ?case
    using applyEcnMark_cases [of q' ?p] butlast_last_mset [OF ne] by metis
next
  case (9 q q' as)
  then show ?case using fifo_serve [of q] by (auto simp: Let_def)
next
  case (10 q)
  then show ?case by (simp add: fifo_inv_def list_bytes_mset)
next
  case (11 q p q' as)
  then show ?case
    using fifo_receive_drop [of q p] fifo_receive_accept [of q p]
    by (cases "q_queuesize q + p_size p > q_maxsize q") auto
next
  case (12 q q' as)
  then show ?case using fifo_serve [of q] by (auto simp: Let_def)
qed

section \<open>Order\<close>

text \<open>The packets of a run that were not dropped, in the order of their arrival.\<close>

inductive fifo_run :: "queue \<Rightarrow> packet list \<Rightarrow> packet list \<Rightarrow> queue \<Rightarrow> bool" for q0 where
  start: "fifo_run q0 [] [] q0"
| accept: "fifo_run q0 ins outs q \<Longrightarrow> fifo_receivePacket q p = Some (q', as) \<Longrightarrow> frees as = [] \<Longrightarrow>
    fifo_run q0 (ins @ [p]) outs q'"
| drop: "fifo_run q0 ins outs q \<Longrightarrow> fifo_receivePacket q p = Some (q', as) \<Longrightarrow> frees as = [p] \<Longrightarrow>
    fifo_run q0 ins outs q'"
| depart: "fifo_run q0 ins outs q \<Longrightarrow> fifo_doNextEvent q = Some (q', as) \<Longrightarrow>
    fifo_run q0 ins (outs @ sends as) q'"

lemma map_marked_ecn: "map marked [applyEcnMark q p] = [marked p]"
  using applyEcnMark_cases [of q p] by (auto simp: setFlag_idem)

lemma fifo_run_order:
  assumes "fifo_run q0 ins outs q" "q_enqueued q0 = []"
  shows "map marked ins = map marked outs @ map marked (rev (q_enqueued q))"
  using assms
proof (induction rule: fifo_run.induct)
  case start
  then show ?case by simp
next
  case (accept ins outs q p q' as)
  then show ?case
    using fifo_receive_drop [of q p] fifo_receive_accept [of q p]
    by (cases "q_queuesize q + p_size p > q_maxsize q") auto
next
  case (drop ins outs q p q' as)
  then show ?case
    using fifo_receive_drop [of q p] fifo_receive_accept [of q p]
    by (cases "q_queuesize q + p_size p > q_maxsize q") auto
next
  case (depart ins outs q q' as)
  then have ne: "q_enqueued q \<noteq> []"
    by (auto simp: fifo_doNextEvent_def fifo_completeService_def)
  let ?p = "last (q_enqueued q)"
  have s: "sends as = [applyEcnMark q' ?p]" "q_enqueued q' = butlast (q_enqueued q)"
    using fifo_serve [OF ne] depart.hyps by (auto simp: Let_def)
  have "rev (q_enqueued q) = ?p # rev (butlast (q_enqueued q))"
    using ne by (metis append_butlast_last_id rev_eq_Cons_iff rev_rev_ident)
  then have "map marked (rev (q_enqueued q)) = marked ?p # map marked (rev (butlast (q_enqueued q)))"
    by (simp only: list.map)
  then show ?case using depart.IH depart.prems s map_marked_ecn [of q' ?p] by simp
qed

section \<open>Properties\<close>

text \<open>A 10 Gbit/s queue for 100000 bytes and a full segment, for the examples.\<close>

definition ex_fifo :: queue where
  "ex_fifo = the (mkQueue 10000000000 100000 False)"

definition ex_full :: packet where "ex_full = pkt0\<lparr>p_size := 1500\<rparr>"

lemma ex_fifo_eq: "mkQueue 10000000000 100000 False = Some ex_fifo" "q_enqueued ex_fifo = []"
    "q_maxsize ex_fifo = 100000" "q_queuesize ex_fifo = 0" "q_ps_per_byte ex_fifo = 800"
  by code_simp+

lemma ex_fifo_inv: "fifo_inv ex_fifo" "mset (q_enqueued ex_fifo) = {#}" "fits ex_fifo ex_full"
  by (simp_all add: fifo_inv_def fits_def ex_fifo_eq ex_full_def)

lemma ex_fifo_recv: "\<exists>q as. fifo_receivePacket ex_fifo ex_full = Some (q, as) \<and> frees as = [] \<and>
    q_enqueued q = [ex_full]"
proof -
  have "\<not> q_queuesize ex_fifo + p_size ex_full > q_maxsize ex_fifo"
    by (simp add: ex_fifo_eq ex_full_def)
  from fifo_receive_accept [OF this] show ?thesis by (auto simp: ex_fifo_eq)
qed

text \<open>
  The queue is first in, first out: over any run from an empty queue the packets sent, followed
  by the ones still held, are exactly the accepted packets in the order of their arrival (up to the
  ECN mark).
\<close>

lemma fifo_in_order:
  assumes "fifo_run q0 ins outs q" "q_enqueued q0 = []"
  shows "map marked ins = map marked outs @ map marked (rev (q_enqueued q)) \<and>
    map p_id outs = take (length outs) (map p_id ins)"
proof -
  have o: "map marked ins = map marked outs @ map marked (rev (q_enqueued q))"
    by (rule fifo_run_order [OF assms])
  then have "map p_id (map marked ins) = map p_id (map marked outs) @ map p_id (map marked (rev (q_enqueued q)))"
    by (metis map_append)
  then have "map p_id ins = map p_id outs @ map p_id (rev (q_enqueued q))"
    by (simp add: comp_def)
  then show ?thesis using o by (metis append_eq_conv_conj length_map)
qed

lemma fifo_in_order_witness:
  "\<exists>outs q. fifo_run ex_fifo [ex_full] outs q \<and> outs \<noteq> [] \<and> map p_id outs = [p_id ex_full]"
proof -
  obtain q as where q: "fifo_receivePacket ex_fifo ex_full = Some (q, as)" "frees as = []"
    "q_enqueued q = [ex_full]" using ex_fifo_recv by blast
  have r: "fifo_run ex_fifo [ex_full] [] q"
    using fifo_run.accept [OF fifo_run.start q(1,2)] by simp
  obtain q' bs where s: "fifo_doNextEvent q = Some (q', bs)" "length (sends bs) = 1"
    using fifo_serve [of q] q(3) by (auto simp: Let_def)
  have r2: "fifo_run ex_fifo [ex_full] (sends bs) q'" using fifo_run.depart [OF r s(1)] by simp
  show ?thesis using r2 fifo_in_order [OF r2 ex_fifo_eq(2)] s(2) by fastforce
qed

end
