(* ===== verification/Events.thy ===== *)
theory Events
  imports Htsim
begin

text \<open>
  \<open>eventlist.h\<close> and \<open>eventlist.cpp\<close>: the singleton \<open>EventList\<close>, an ordered multimap from
  times to event sources. A failed \<open>assert\<close> is the result \<open>None\<close>. The virtual call
  \<open>nextsource->doNextEvent()\<close> is a parameter, the handler of the simulation: it may change the
  world and schedule further events.
\<close>

section \<open>State and operations\<close>

record 'src eventlist =
  pendingsources :: "(u64 \<times> 'src) list"
  endtime :: u64
  lasteventtime :: u64
  nEventsProcessed :: u64

definition el_Get :: "'src eventlist" where
  "el_Get = \<lparr>pendingsources = [], endtime = 0, lasteventtime = 0, nEventsProcessed = 0\<rparr>"

definition setEndtime :: "'src eventlist \<Rightarrow> u64 \<Rightarrow> 'src eventlist" where
  "setEndtime el t = el\<lparr>endtime := t\<rparr>"

definition el_now :: "'src eventlist \<Rightarrow> u64" where
  "el_now el = lasteventtime el"

definition earlier :: "u64 \<times> 'src \<Rightarrow> u64 \<times> 'src \<Rightarrow> bool" where
  "earlier a b = (fst a < fst b)"

definition sourceIsPending :: "'src eventlist \<Rightarrow> 'src \<Rightarrow> u64 \<Rightarrow> 'src eventlist option" where
  "sourceIsPending el src when =
     (if \<not> el_now el \<le> when then None
      else if endtime el = 0 \<or> when \<le> endtime el
      then Some (el\<lparr>pendingsources := ins_ub earlier (when, src) (pendingsources el)\<rparr>)
      else Some el)"

definition sourceIsPendingRel :: "'src eventlist \<Rightarrow> 'src \<Rightarrow> u64 \<Rightarrow> 'src eventlist option" where
  "sourceIsPendingRel el src timefromnow = sourceIsPending el src (el_now el + timefromnow)"

definition el_doNextEvent ::
  "('src \<Rightarrow> 'src eventlist \<Rightarrow> 'w \<Rightarrow> ('src eventlist \<times> 'w) option) \<Rightarrow>
   'src eventlist \<Rightarrow> 'w \<Rightarrow> (bool \<times> 'src eventlist \<times> 'w) option" where
  "el_doNextEvent handler el w =
     (case pendingsources el of
        [] \<Rightarrow> Some (False, el, w)
      | (nexteventtime, nextsource) # rest \<Rightarrow>
          if \<not> lasteventtime el \<le> nexteventtime then None
          else case handler nextsource (el\<lparr>pendingsources := rest, lasteventtime := nexteventtime\<rparr>) w of
                 None \<Rightarrow> None
               | Some (el', w') \<Rightarrow>
                   Some (True, el'\<lparr>nEventsProcessed := nEventsProcessed el' + 1\<rparr>, w'))"

text \<open>
  The main loop \<open>while (eventlist.doNextEvent()) {}\<close> of \<open>main.cpp\<close>, cut after \<open>n\<close> events (a
  simulation with a clock and no end time never stops), with the times of the events it processed.
\<close>

fun el_run ::
  "('src \<Rightarrow> 'src eventlist \<Rightarrow> 'w \<Rightarrow> ('src eventlist \<times> 'w) option) \<Rightarrow> nat \<Rightarrow>
   'src eventlist \<Rightarrow> 'w \<Rightarrow> (u64 list \<times> 'src eventlist \<times> 'w) option" where
  "el_run handler 0 el w = Some ([], el, w)"
| "el_run handler (Suc n) el w =
     (case el_doNextEvent handler el w of
        None \<Rightarrow> None
      | Some (False, el', w') \<Rightarrow> Some ([], el', w')
      | Some (True, el', w') \<Rightarrow>
          (case el_run handler n el' w' of
             None \<Rightarrow> None
           | Some (ts, el'', w'') \<Rightarrow> Some (lasteventtime el' # ts, el'', w'')))"

section \<open>Invariant\<close>

text \<open>The multimap is ordered by time and holds nothing of the past.\<close>

definition el_inv :: "'src eventlist \<Rightarrow> bool" where
  "el_inv el \<longleftrightarrow> sorted (map fst (pendingsources el)) \<and>
     (\<forall>e \<in> set (pendingsources el). lasteventtime el \<le> fst e)"

lemma el_inv_Get: "el_inv el_Get"
  by (simp add: el_inv_def el_Get_def)

lemma sourceIsPending_frame:
  "sourceIsPending el src t = Some el' \<Longrightarrow>
     lasteventtime el' = lasteventtime el \<and> endtime el' = endtime el"
  by (auto simp: sourceIsPending_def split: if_splits)

lemma sourceIsPending_inv:
  assumes "el_inv el" "sourceIsPending el src t = Some el'"
  shows "el_inv el'"
proof -
  have "sorted (map fst (ins_ub earlier (t, src) (pendingsources el))) =
      sorted (map fst (pendingsources el))"
    by (rule sorted_ins_ub) (simp add: earlier_def)
  then show ?thesis
    using assms by (fastforce simp: sourceIsPending_def el_inv_def el_now_def split: if_splits)
qed

text \<open>An event whose time has come is never refused; one after the end time is dropped.\<close>

lemma sourceIsPending_total: "el_now el \<le> t \<Longrightarrow> sourceIsPending el src t \<noteq> None"
  by (simp add: sourceIsPending_def)

lemma sourceIsPending_mset:
  assumes "sourceIsPending el src t = Some el'"
  shows "mset (pendingsources el') =
    (if endtime el = 0 \<or> t \<le> endtime el then add_mset (t, src) (mset (pendingsources el))
     else mset (pendingsources el))"
  using assms by (auto simp: sourceIsPending_def split: if_splits)

lemma sourceIsPending_fifo:
  assumes "el_inv el" "sourceIsPending el src t = Some el'" "endtime el = 0 \<or> t \<le> endtime el"
  shows "filter (\<lambda>e. fst e = t) (pendingsources el') =
    filter (\<lambda>e. fst e = t) (pendingsources el) @ [(t, src)]"
proof -
  have "pendingsources el' = ins_ub earlier (t, src) (pendingsources el)"
    using assms(2,3) by (auto simp: sourceIsPending_def split: if_splits)
  then show ?thesis
    using filter_ins_ub_same [of earlier fst "pendingsources el" t "(t, src)"] assms(1)
    by (simp add: earlier_def el_inv_def)
qed

section \<open>What a handler may do to the event list\<close>

text \<open>
  Everything the simulation does with the event list while an event is processed is a sequence
  of calls to \<open>sourceIsPending\<close>.
\<close>

inductive schedules :: "'src eventlist \<Rightarrow> 'src eventlist \<Rightarrow> bool" where
  none: "schedules el el"
| call: "schedules el el' \<Longrightarrow> sourceIsPending el' src t = Some el'' \<Longrightarrow> schedules el el''"

lemma schedules_trans: "schedules b c \<Longrightarrow> schedules a b \<Longrightarrow> schedules a c"
  by (induction rule: schedules.induct) (auto intro: schedules.call)

lemma schedules_inv: "schedules el el' \<Longrightarrow> el_inv el \<Longrightarrow> el_inv el'"
  by (induction rule: schedules.induct) (auto intro: sourceIsPending_inv)

lemma schedules_frame:
  "schedules el el' \<Longrightarrow> lasteventtime el' = lasteventtime el \<and> endtime el' = endtime el"
  by (induction rule: schedules.induct) (auto dest: sourceIsPending_frame)

text \<open>The interface between the event loop and the simulated components.\<close>

locale event_handler =
  fixes handler :: "'src \<Rightarrow> 'src eventlist \<Rightarrow> 'w \<Rightarrow> ('src eventlist \<times> 'w) option"
    and wf :: "'src eventlist \<Rightarrow> 'w \<Rightarrow> bool"
  assumes handler_schedules: "handler src el w = Some (el', w') \<Longrightarrow> schedules el el'"
    and handler_ok: "el_inv el \<Longrightarrow> wf el w \<Longrightarrow> pendingsources el = (t, src) # rest \<Longrightarrow>
      \<exists>el' w'. handler src (el\<lparr>pendingsources := rest, lasteventtime := t\<rparr>) w = Some (el', w') \<and>
        wf (el'\<lparr>nEventsProcessed := nEventsProcessed el' + 1\<rparr>) w'"
begin

lemma popped_inv:
  "el_inv el \<Longrightarrow> pendingsources el = (t, src) # rest \<Longrightarrow>
     el_inv (el\<lparr>pendingsources := rest, lasteventtime := t\<rparr>) \<and> lasteventtime el \<le> t"
  by (auto simp: el_inv_def)

lemma step_total:
  assumes "el_inv el" "wf el w"
  shows "\<exists>b el' w'. el_doNextEvent handler el w = Some (b, el', w') \<and> el_inv el' \<and> wf el' w' \<and>
    lasteventtime el \<le> lasteventtime el' \<and> b = (pendingsources el \<noteq> [])"
proof (cases "pendingsources el")
  case Nil
  then have "el_doNextEvent handler el w = Some (False, el, w)" by (simp add: el_doNextEvent_def)
  then show ?thesis using assms Nil by blast
next
  case (Cons e rest)
  obtain t src where e: "e = (t, src)" by (cases e)
  let ?el = "el\<lparr>pendingsources := rest, lasteventtime := t\<rparr>"
  obtain el' w' where h: "handler src ?el w = Some (el', w')"
      "wf (el'\<lparr>nEventsProcessed := nEventsProcessed el' + 1\<rparr>) w'"
    using handler_ok [OF assms] Cons e by metis
  have p: "el_inv ?el" "lasteventtime el \<le> t" using popped_inv [OF assms(1), of t src rest] Cons e by simp_all
  have s: "schedules ?el el'" using h by (blast intro: handler_schedules)
  then have "el_inv el'" "lasteventtime el' = t"
    using p schedules_inv schedules_frame by fastforce+
  then show ?thesis using Cons e h p by (auto simp: el_doNextEvent_def el_inv_def)
qed

lemma run_total:
  assumes "el_inv el" "wf el w"
  shows "\<exists>ts el' w'. el_run handler n el w = Some (ts, el', w') \<and> el_inv el' \<and> wf el' w' \<and>
    sorted (lasteventtime el # ts)"
  using assms
proof (induction n arbitrary: el w)
  case 0
  then show ?case by simp
next
  case (Suc n)
  obtain b el1 w1 where s: "el_doNextEvent handler el w = Some (b, el1, w1)" "el_inv el1" "wf el1 w1"
      "lasteventtime el \<le> lasteventtime el1"
    using step_total [OF Suc.prems] by blast
  from Suc.IH [OF s(2,3)] s show ?case
    by (cases b) fastforce+
qed

end

section \<open>Properties\<close>

text \<open>
  \<open>EventList::sourceIsPending\<close>. Scheduling in the past fails the assertion. Otherwise the call
  returns; an event after the end time is ignored, any other is added to the list, which stays
  ordered by time and has the new event behind all events of the same time: events of one time are
  handled in the order in which they were scheduled.
\<close>

lemma schedule_in_order:
  assumes "el_inv el"
  shows "(t < el_now el \<longrightarrow> sourceIsPending el src t = None) \<and>
    (el_now el \<le> t \<longrightarrow> (\<exists>el'. sourceIsPending el src t = Some el' \<and> el_inv el' \<and> el_now el' = el_now el \<and>
       (if endtime el = 0 \<or> t \<le> endtime el
        then mset (pendingsources el') = add_mset (t, src) (mset (pendingsources el)) \<and>
          filter (\<lambda>e. fst e = t) (pendingsources el') =
            filter (\<lambda>e. fst e = t) (pendingsources el) @ [(t, src)]
        else el' = el)))"
proof (cases "el_now el \<le> t")
  case False
  then show ?thesis by (simp add: sourceIsPending_def)
next
  case True
  then obtain el' where s: "sourceIsPending el src t = Some el'" by (metis not_None_eq sourceIsPending_total)
  have i: "el_inv el'" "el_now el' = el_now el"
    using sourceIsPending_inv [OF assms s] sourceIsPending_frame [OF s] by (simp_all add: el_now_def)
  show ?thesis
  proof (cases "endtime el = 0 \<or> t \<le> endtime el")
    case T: True
    then have "mset (pendingsources el') = add_mset (t, src) (mset (pendingsources el))"
      using sourceIsPending_mset [OF s] by simp
    then show ?thesis using True T s i sourceIsPending_fifo [OF assms s T] by simp
  next
    case False
    then have "el' = el" using s by (auto simp: sourceIsPending_def split: if_splits)
    then show ?thesis using True False s i by simp
  qed
qed

lemma schedule_in_order_witness:
  "\<exists>el. sourceIsPending (setEndtime el_Get 100) (1 :: nat) 7 = Some el \<and> el_inv el \<and>
    (\<exists>el'. sourceIsPending el 2 7 = Some el' \<and>
       filter (\<lambda>e. fst e = 7) (pendingsources el') = [(7, 1), (7, 2)])"
proof -
  let ?e = "setEndtime el_Get 100 :: nat eventlist"
  have i: "el_inv ?e" by (simp add: setEndtime_def el_Get_def el_inv_def)
  have f: "el_now ?e = 0" "endtime ?e = 100" "pendingsources ?e = []"
    by (simp_all add: setEndtime_def el_Get_def el_now_def)
  obtain el where e: "sourceIsPending ?e 1 7 = Some el" "el_inv el" "el_now el = 0"
      "filter (\<lambda>e. fst e = 7) (pendingsources el) = [(7, 1)]"
    using schedule_in_order [OF i, of 7 1] f by auto
  have "endtime el = 100" using sourceIsPending_frame [OF e(1)] f by simp
  then show ?thesis using schedule_in_order [OF e(2), of 7 2] e by auto
qed

end
