(* ===== verification/PipeModel.thy ===== *)
theory PipeModel
  imports Network Events
begin

text \<open>
  \<open>pipe.h\<close> and \<open>pipe.cpp\<close>: a \<open>Pipe\<close> delays every packet by a fixed time. The deque \<open>_inflight\<close>
  has its front at the head; the current time is the event list's, passed as \<open>now\<close>.
\<close>

section \<open>State and operations\<close>

record pipe =
  pi_delay :: u64
  pi_inflight :: "(u64 \<times> packet) list"

definition mkPipe :: "u64 \<Rightarrow> pipe" where
  "mkPipe delay = \<lparr>pi_delay = delay, pi_inflight = []\<rparr>"

definition pipe_receivePacket :: "u64 \<Rightarrow> pipe \<Rightarrow> packet \<Rightarrow> pipe \<times> action list" where
  "pipe_receivePacket now pip pkt =
     (pip\<lparr>pi_inflight := (now + pi_delay pip, pkt) # pi_inflight pip\<rparr>,
      Traffic PKT_ARRIVE pkt # (if pi_inflight pip = [] then [SchedRel (pi_delay pip)] else []))"

definition pipe_doNextEvent :: "pipe \<Rightarrow> pipe \<times> action list" where
  "pipe_doNextEvent pip =
     (if length (pi_inflight pip) = 0 then (pip, [])
      else let pkt = snd (last (pi_inflight pip));
               pip = pip\<lparr>pi_inflight := butlast (pi_inflight pip)\<rparr>
           in (pip, [Traffic PKT_DEPART pkt, SendOn pkt] @
                   (if pi_inflight pip \<noteq> [] then [SchedAt (fst (last (pi_inflight pip)))] else [])))"

section \<open>A pipe on the time line\<close>

text \<open>
  The pipe together with its one event in the event list: \<open>due\<close> is the time of that event.
  Packets arrive at times that do not go backwards; the event is handled when its time has come.
\<close>

record pipe_sim =
  ps_pipe :: pipe
  ps_now :: u64
  ps_due :: "u64 option"
  ps_in :: "(u64 \<times> packet) list"
  ps_out :: "(u64 \<times> packet) list"

fun due_after :: "u64 \<Rightarrow> u64 option \<Rightarrow> action list \<Rightarrow> u64 option" where
  "due_after now due [] = due"
| "due_after now due (SchedRel t # as) = due_after now (Some (now + t)) as"
| "due_after now due (SchedAt t # as) = due_after now (Some t) as"
| "due_after now due (_ # as) = due_after now due as"

definition pipe_init :: "u64 \<Rightarrow> pipe_sim" where
  "pipe_init delay = \<lparr>ps_pipe = mkPipe delay, ps_now = 0, ps_due = None, ps_in = [], ps_out = []\<rparr>"

text \<open>Time stands still or advances, but never past the pending event.\<close>

inductive pipe_step :: "pipe_sim \<Rightarrow> pipe_sim \<Rightarrow> bool" where
  arrive: "ps_now s \<le> t \<Longrightarrow> (case ps_due s of None \<Rightarrow> True | Some d \<Rightarrow> t \<le> d) \<Longrightarrow>
    unat t + unat (pi_delay (ps_pipe s)) < 18446744073709551616 \<Longrightarrow>
    pipe_receivePacket t (ps_pipe s) p = (pip', as) \<Longrightarrow>
    pipe_step s (s\<lparr>ps_pipe := pip', ps_now := t, ps_due := due_after t (ps_due s) as,
      ps_in := ps_in s @ [(t, p)]\<rparr>)"
| event: "ps_due s = Some t \<Longrightarrow> pipe_doNextEvent (ps_pipe s) = (pip', as) \<Longrightarrow>
    pipe_step s (s\<lparr>ps_pipe := pip', ps_now := t, ps_due := due_after t None as,
      ps_out := ps_out s @ map (Pair t) (sends as)\<rparr>)"

inductive pipe_reach :: "u64 \<Rightarrow> pipe_sim \<Rightarrow> bool" for delay where
  start: "pipe_reach delay (pipe_init delay)"
| step: "pipe_reach delay s \<Longrightarrow> pipe_step s s' \<Longrightarrow> pipe_reach delay s'"

text \<open>What the pipe should do: each packet again, \<open>delay\<close> later.\<close>

definition delayed :: "u64 \<Rightarrow> (u64 \<times> packet) list \<Rightarrow> (u64 \<times> packet) list" where
  "delayed delay = map (\<lambda>(t, p). (t + delay, p))"

definition pipe_inv :: "u64 \<Rightarrow> pipe_sim \<Rightarrow> bool" where
  "pipe_inv delay s \<longleftrightarrow>
     pi_delay (ps_pipe s) = delay \<and>
     ps_out s @ rev (pi_inflight (ps_pipe s)) = delayed delay (ps_in s) \<and>
     ps_due s = (if pi_inflight (ps_pipe s) = [] then None
                 else Some (fst (last (pi_inflight (ps_pipe s))))) \<and>
     sorted (map fst (rev (pi_inflight (ps_pipe s)))) \<and>
     (\<forall>e \<in> set (pi_inflight (ps_pipe s)).
        ps_now s \<le> fst e \<and> unat (fst e) \<le> unat (ps_now s) + unat delay)"

lemma pipe_inv_init: "pipe_inv delay (pipe_init delay)"
  by (simp add: pipe_inv_def pipe_init_def mkPipe_def delayed_def)

lemma pipe_inv_arrive:
  assumes "pipe_inv delay s" "ps_now s \<le> t" "case ps_due s of None \<Rightarrow> True | Some d \<Rightarrow> t \<le> d"
    "unat t + unat delay < 18446744073709551616"
    "pipe_receivePacket t (ps_pipe s) p = (pip', as)"
  shows "pipe_inv delay (s\<lparr>ps_pipe := pip', ps_now := t, ps_due := due_after t (ps_due s) as,
      ps_in := ps_in s @ [(t, p)]\<rparr>)"
proof -
  let ?fs = "pi_inflight (ps_pipe s)"
  have td: "unat (t + delay) = unat t + unat delay" using assms(4) by (rule unat_add_64)
  then have ge: "t \<le> t + delay" by (simp add: word_le_nat_alt)
  have d: "pi_delay (ps_pipe s) = delay" using assms(1) by (simp add: pipe_inv_def)
  have pip: "pi_inflight pip' = (t + delay, p) # ?fs" "pi_delay pip' = delay"
    using assms(5) d by (auto simp: pipe_receivePacket_def)
  have old: "t \<le> fst e \<and> unat (fst e) \<le> unat t + unat delay" if "e \<in> set ?fs" for e
  proof -
    have ne: "?fs \<noteq> []" using that by auto
    have "fst (last ?fs) \<le> fst e"
      using assms(1) that by (auto simp: pipe_inv_def intro: sorted_rev_last_le)
    moreover have "t \<le> fst (last ?fs)"
      using assms(1,3) ne by (simp add: pipe_inv_def split: option.splits)
    moreover have "unat (fst e) \<le> unat (ps_now s) + unat delay"
      using assms(1) that by (simp add: pipe_inv_def)
    ultimately show ?thesis using assms(2) by (auto simp: word_le_nat_alt)
  qed
  have due: "due_after t (ps_due s) as = Some (fst (last (pi_inflight pip')))"
    using assms(1,5) d by (auto simp: pipe_receivePacket_def pipe_inv_def)
  have "sorted (map fst (rev ?fs) @ [t + delay])"
    using assms(1) old td by (auto simp: sorted_append pipe_inv_def word_le_nat_alt)
  then show ?thesis using assms(1) pip due old ge td
    by (auto simp: pipe_inv_def delayed_def)
qed

lemma pipe_inv_event:
  assumes "pipe_inv delay s" "ps_due s = Some t" "pipe_doNextEvent (ps_pipe s) = (pip', as)"
  shows "pipe_inv delay (s\<lparr>ps_pipe := pip', ps_now := t, ps_due := due_after t None as,
      ps_out := ps_out s @ map (Pair t) (sends as)\<rparr>)"
proof -
  let ?fs = "pi_inflight (ps_pipe s)"
  have ne: "?fs \<noteq> []" and t: "fst (last ?fs) = t"
    using assms(1,2) by (auto simp: pipe_inv_def split: if_splits)
  obtain fs e where fs: "?fs = fs @ [e]" using ne by (metis append_butlast_last_id)
  obtain p where e: "e = (t, p)" using t fs by (cases e) simp
  have pip: "pip' = (ps_pipe s)\<lparr>pi_inflight := fs\<rparr>" "sends as = [p]"
      "due_after t None as = (if fs = [] then None else Some (fst (last fs)))"
    using assms(3) fs e by (auto simp: pipe_doNextEvent_def Let_def)
  have "t \<le> fst x" "unat (fst x) \<le> unat t + unat delay" if "x \<in> set fs" for x
    using assms(1) that fs e by (auto simp: pipe_inv_def word_le_nat_alt)
  then show ?thesis using assms(1) fs e pip by (auto simp: pipe_inv_def)
qed

lemma pipe_reach_inv: "pipe_reach delay s \<Longrightarrow> pipe_inv delay s"
proof (induction rule: pipe_reach.induct)
  case start
  show ?case by (rule pipe_inv_init)
next
  case (step s s')
  from step.hyps(2) step.IH show ?case
  proof (cases rule: pipe_step.cases)
    case (arrive t p pip' as)
    then show ?thesis using step.IH pipe_inv_arrive [of delay s t p pip' as]
      by (simp add: pipe_inv_def)
  next
    case (event t pip' as)
    then show ?thesis using step.IH pipe_inv_event by simp
  qed
qed

section \<open>Properties\<close>

text \<open>
  A \<open>Pipe\<close> delivers every packet exactly its delay after it came, in the order of arrival: at
  any time the deliveries made, followed by those in flight, are the arrivals with the delay added;
  and as long as something is in flight the pipe's one event is pending at the time its oldest
  packet is due, which is not in the past.
\<close>

lemma pipe_delays:
  assumes "pipe_reach delay s"
  shows "ps_out s @ rev (pi_inflight (ps_pipe s)) = map (\<lambda>(t, p). (t + delay, p)) (ps_in s) \<and>
    (case ps_due s of
       None \<Rightarrow> pi_inflight (ps_pipe s) = []
     | Some t \<Rightarrow> pi_inflight (ps_pipe s) \<noteq> [] \<and> t = fst (last (pi_inflight (ps_pipe s))) \<and> ps_now s \<le> t)"
  using pipe_reach_inv [OF assms] by (auto simp: pipe_inv_def delayed_def split: if_splits)

lemma pipe_delays_witness:
  "\<exists>s. pipe_reach 10 s \<and> ps_in s = [(5, pkt0)] \<and> ps_out s = [(15, pkt0)]"
proof -
  let ?s0 = "pipe_init 10"
  obtain pip as where r: "pipe_receivePacket 5 (ps_pipe ?s0) pkt0 = (pip, as)"
    by (cases "pipe_receivePacket 5 (ps_pipe ?s0) pkt0")
  let ?s1 = "?s0\<lparr>ps_pipe := pip, ps_now := 5, ps_due := due_after 5 (ps_due ?s0) as,
    ps_in := ps_in ?s0 @ [(5, pkt0)]\<rparr>"
  have r1: "pipe_reach 10 ?s1"
    by (rule pipe_reach.step [OF pipe_reach.start pipe_step.arrive [OF _ _ _ r]])
      (simp_all add: pipe_init_def mkPipe_def)
  have d: "ps_due ?s1 = Some 15" using r by (auto simp: pipe_init_def mkPipe_def pipe_receivePacket_def)
  obtain pip' bs where e: "pipe_doNextEvent (ps_pipe ?s1) = (pip', bs)"
    by (cases "pipe_doNextEvent (ps_pipe ?s1)")
  let ?s2 = "?s1\<lparr>ps_pipe := pip', ps_now := 15, ps_due := due_after 15 None bs,
    ps_out := ps_out ?s1 @ map (Pair 15) (sends bs)\<rparr>"
  have r2: "pipe_reach 10 ?s2" by (rule pipe_reach.step [OF r1 pipe_step.event [OF d e]])
  have "pi_inflight (ps_pipe ?s2) = []" "ps_in ?s2 = [(5, pkt0)]"
    using r e by (auto simp: pipe_init_def mkPipe_def pipe_receivePacket_def pipe_doNextEvent_def)
  then have "ps_out ?s2 = [(15, pkt0)]" using pipe_delays [OF r2] by simp
  then show ?thesis using r2 \<open>ps_in ?s2 = _\<close> by blast
qed

end
