(* ===== verification/Link.thy ===== *)
theory Link
  imports FifoQueue PipeModel
begin

text \<open>
  A link of the simulated network as the test programs build it: a \<open>Queue\<close>, the \<open>Pipe\<close> behind it
  and a destination, on one route, driven by the event list. Packets enter at given times. The
  handler is the virtual call \<open>doNextEvent\<close> of the event loop; the actions of a component run
  in their order, \<open>SendOn\<close> through \<open>Packet::sendOn\<close> into the \<open>receivePacket\<close> of the next hop.
\<close>

section \<open>The composed system\<close>

datatype link_src = QueueSrc | PipeSrc | Inject packet

datatype link_sink = LQueue | LPipe | LDst

record link =
  ln_queue :: queue
  ln_pipe :: pipe
  ln_out :: "packet list"
  ln_freed :: "packet list"

definition link_routes :: "link_sink routes" where
  "link_routes = (\<lambda>_. [LQueue, LPipe, LDst])"

text \<open>
  Running the actions of the component whose events are \<open>self\<close>'s; \<open>fwd\<close> is what \<open>sendOn\<close> does.
\<close>

fun link_acts :: "(packet \<Rightarrow> link_src eventlist \<Rightarrow> link \<Rightarrow> (link_src eventlist \<times> link) option) \<Rightarrow>
    link_src \<Rightarrow> action list \<Rightarrow> link_src eventlist \<Rightarrow> link \<Rightarrow> (link_src eventlist \<times> link) option" where
  "link_acts fwd self [] el w = Some (el, w)"
| "link_acts fwd self (a # as) el w =
     Option.bind
       (case a of
          SchedRel t \<Rightarrow> map_option (\<lambda>el. (el, w)) (sourceIsPendingRel el self t)
        | SchedAt t \<Rightarrow> map_option (\<lambda>el. (el, w)) (sourceIsPending el self t)
        | Free p \<Rightarrow> Some (el, w\<lparr>ln_freed := ln_freed w @ [p]\<rparr>)
        | SendOn p \<Rightarrow> fwd p el w
        | _ \<Rightarrow> Some (el, w))
       (\<lambda>(el, w). link_acts fwd self as el w)"

text \<open>\<open>d\<close> bounds the depth of nested \<open>sendOn\<close> calls, at most the length of the route.\<close>

fun link_sendOn :: "nat \<Rightarrow> packet \<Rightarrow> link_src eventlist \<Rightarrow> link \<Rightarrow> (link_src eventlist \<times> link) option" where
  "link_sendOn 0 p el w = None"
| "link_sendOn (Suc d) p el w =
     (case sendOn link_routes p of
        None \<Rightarrow> None
      | Some (LQueue, p) \<Rightarrow> Option.bind (fifo_receivePacket (ln_queue w) p)
          (\<lambda>(q, as). link_acts (link_sendOn d) QueueSrc as el (w\<lparr>ln_queue := q\<rparr>))
      | Some (LPipe, p) \<Rightarrow> (let (pip, as) = pipe_receivePacket (el_now el) (ln_pipe w) p
          in link_acts (link_sendOn d) PipeSrc as el (w\<lparr>ln_pipe := pip\<rparr>))
      | Some (LDst, p) \<Rightarrow> Some (el, w\<lparr>ln_out := ln_out w @ [p]\<rparr>))"

definition link_handler ::
  "link_src \<Rightarrow> link_src eventlist \<Rightarrow> link \<Rightarrow> (link_src eventlist \<times> link) option" where
  "link_handler src el w =
     (case src of
        QueueSrc \<Rightarrow> Option.bind (fifo_doNextEvent (ln_queue w))
          (\<lambda>(q, as). link_acts (link_sendOn 3) QueueSrc as el (w\<lparr>ln_queue := q\<rparr>))
      | PipeSrc \<Rightarrow> (let (pip, as) = pipe_doNextEvent (ln_pipe w)
                    in link_acts (link_sendOn 3) PipeSrc as el (w\<lparr>ln_pipe := pip\<rparr>))
      | Inject p \<Rightarrow> link_sendOn 3 p el w)"

section \<open>Running actions\<close>

fun run_scheds :: "'s \<Rightarrow> action list \<Rightarrow> 's eventlist \<Rightarrow> 's eventlist option" where
  "run_scheds self [] el = Some el"
| "run_scheds self (SchedRel t # as) el = Option.bind (sourceIsPendingRel el self t) (run_scheds self as)"
| "run_scheds self (SchedAt t # as) el = Option.bind (sourceIsPending el self t) (run_scheds self as)"
| "run_scheds self (_ # as) el = run_scheds self as el"

lemma link_acts_quiet:
  "sends as = [] \<Longrightarrow> link_acts fwd self as el w =
     map_option (\<lambda>el. (el, w\<lparr>ln_freed := ln_freed w @ frees as\<rparr>)) (run_scheds self (scheds as) el)"
proof (induction as arbitrary: el w)
  case (Cons a as)
  show ?case
  proof (cases a)
    case (SchedRel t)
    then show ?thesis using Cons by (cases "sourceIsPendingRel el self t") auto
  next
    case (SchedAt t)
    then show ?thesis using Cons by (cases "sourceIsPending el self t") auto
  qed (use Cons in auto)
qed simp

lemma link_acts_append:
  "link_acts fwd self (xs @ ys) el w =
     Option.bind (link_acts fwd self xs el w) (\<lambda>(el, w). link_acts fwd self ys el w)"
proof (induction xs arbitrary: el w)
  case (Cons a xs)
  show ?case unfolding append_Cons link_acts.simps Cons.IH bind_assoc split_def ..
qed simp

lemma schedules_pending: "sourceIsPending el s t = Some el' \<Longrightarrow> schedules el el'"
  by (rule schedules.call [OF schedules.none])

lemma link_acts_schedules:
  assumes "\<And>p el w el' w'. fwd p el w = Some (el', w') \<Longrightarrow> schedules el el'"
  shows "link_acts fwd self as el w = Some (el', w') \<Longrightarrow> schedules el el'"
proof (induction as arbitrary: el w)
  case Nil
  then show ?case by (simp add: schedules.none)
next
  case (Cons a as)
  obtain el1 w1 where f: "(case a of
          SchedRel t \<Rightarrow> map_option (\<lambda>el. (el, w)) (sourceIsPendingRel el self t)
        | SchedAt t \<Rightarrow> map_option (\<lambda>el. (el, w)) (sourceIsPending el self t)
        | Free p \<Rightarrow> Some (el, w\<lparr>ln_freed := ln_freed w @ [p]\<rparr>)
        | SendOn p \<Rightarrow> fwd p el w
        | _ \<Rightarrow> Some (el, w)) = Some (el1, w1)"
    and s: "link_acts fwd self as el1 w1 = Some (el', w')"
    using Cons.prems unfolding link_acts.simps bind_eq_Some_conv by auto
  have "schedules el el1"
    using f assms by (cases a) (auto simp: sourceIsPendingRel_def intro: schedules.none schedules_pending)
  then show ?case using Cons.IH [OF s] schedules_trans by blast
qed

lemma link_sendOn_schedules: "link_sendOn d p el w = Some (el', w') \<Longrightarrow> schedules el el'"
proof (induction d arbitrary: p el w el' w')
  case (Suc d)
  then show ?case
    using link_acts_schedules [of "link_sendOn d"]
    by (auto simp: bind_eq_Some_conv schedules.none split: option.splits prod.splits link_sink.splits)
qed simp

lemma link_handler_schedules:
  assumes "link_handler src el w = Some (el', w')"
  shows "schedules el el'"
proof -
  note a = link_acts_schedules [of "link_sendOn 3", OF link_sendOn_schedules]
  show ?thesis using assms a link_sendOn_schedules
    by (cases src) (auto simp: link_handler_def bind_eq_Some_conv split: prod.splits)
qed

section \<open>Invariant\<close>

text \<open>
  What a packet is, apart from its marks and hop count; a packet of the link at hop \<open>k\<close>, whose
  service time stays on the time line up to the end time \<open>t\<close>.
\<close>

definition ident :: "packet \<Rightarrow> u32 \<times> u32 \<times> u64 \<times> pkt_class" where
  "ident p = (p_flow p, p_id p, p_size p, p_class p)"

definition link_pkt :: "queue \<Rightarrow> u64 \<Rightarrow> u32 \<Rightarrow> packet \<Rightarrow> bool" where
  "link_pkt q t k p \<longleftrightarrow> p_nexthop p = k \<and> fits q p \<and>
     unat t + unat (drainTime q p) < 18446744073709551616"

definition injects :: "link_src \<Rightarrow> packet multiset" where
  "injects s = (case s of Inject p \<Rightarrow> {#p#} | _ \<Rightarrow> {#})"

definition link_all :: "(u64 \<times> link_src) multiset \<Rightarrow> link \<Rightarrow> packet multiset" where
  "link_all P w = (\<Sum>e\<in>#P. injects (snd e)) + mset (q_enqueued (ln_queue w)) +
     mset (map snd (pi_inflight (ln_pipe w))) + mset (ln_out w) + mset (ln_freed w)"

definition evs :: "link_src \<Rightarrow> (u64 \<times> link_src) multiset \<Rightarrow> (u64 \<times> link_src) multiset" where
  "evs s P = filter_mset (\<lambda>e. snd e = s) P"

lemma evs_simps [simp]:
  "evs s {#} = {#}" "evs s (add_mset e P) = (if snd e = s then add_mset e (evs s P) else evs s P)"
  by (simp_all add: evs_def)

text \<open>Time, and the packets that are still to enter.\<close>

definition link_time :: "u64 \<Rightarrow> u64 \<Rightarrow> (u64 \<times> link_src) multiset \<Rightarrow> link \<Rightarrow> bool" where
  "link_time now fin P w \<longleftrightarrow> fin \<noteq> 0 \<and> now \<le> fin \<and> (\<forall>e\<in>#P. now \<le> fst e \<and> fst e \<le> fin) \<and>
     unat fin + unat (pi_delay (ln_pipe w)) < 18446744073709551616 \<and>
     (\<forall>e\<in>#P. \<forall>p. snd e = Inject p \<longrightarrow> link_pkt (ln_queue w) fin 0 p)"

text \<open>The queue has at most the one service event, and only while it holds a packet.\<close>

definition link_queue :: "u64 \<Rightarrow> (u64 \<times> link_src) multiset \<Rightarrow> link \<Rightarrow> bool" where
  "link_queue fin P w \<longleftrightarrow> fifo_inv (ln_queue w) \<and>
     (\<forall>p \<in> set (q_enqueued (ln_queue w)). link_pkt (ln_queue w) fin 1 p) \<and>
     size (evs QueueSrc P) \<le> (if q_enqueued (ln_queue w) = [] then 0 else 1)"

text \<open>The pipe's event is the delivery of its oldest packet, unless that is after the end.\<close>

definition link_pipe :: "u64 \<Rightarrow> u64 \<Rightarrow> (u64 \<times> link_src) multiset \<Rightarrow> link \<Rightarrow> bool" where
  "link_pipe now fin P w \<longleftrightarrow> (let fs = pi_inflight (ln_pipe w) in
     (\<forall>e \<in> set fs. p_nexthop (snd e) = 2 \<and> now \<le> fst e \<and>
        unat (fst e) \<le> unat now + unat (pi_delay (ln_pipe w))) \<and>
     sorted (map fst (rev fs)) \<and>
     evs PipeSrc P = (if fs = [] \<or> fin < fst (last fs) then {#} else {#(fst (last fs), PipeSrc)#}))"

definition link_inv :: "u64 \<Rightarrow> u64 \<Rightarrow> (u64 \<times> link_src) multiset \<Rightarrow> link \<Rightarrow> bool" where
  "link_inv now fin P w \<longleftrightarrow> link_time now fin P w \<and> link_queue fin P w \<and> link_pipe now fin P w"

definition link_wf ::
  "(u32 \<times> u32 \<times> u64 \<times> pkt_class) multiset \<Rightarrow> link_src eventlist \<Rightarrow> link \<Rightarrow> bool" where
  "link_wf M el w \<longleftrightarrow> link_inv (lasteventtime el) (endtime el) (mset (pendingsources el)) w \<and>
     image_mset ident (link_all (mset (pendingsources el)) w) = M"

section \<open>Scheduling\<close>

lemma sched_spec:
  assumes "lasteventtime el \<le> t" "endtime el \<noteq> 0"
  obtains el' where "sourceIsPending el s t = Some el'" "lasteventtime el' = lasteventtime el"
    "endtime el' = endtime el"
    "mset (pendingsources el') =
      (if t \<le> endtime el then {#(t, s)#} else {#}) + mset (pendingsources el)"
proof -
  obtain el' where e: "sourceIsPending el s t = Some el'"
    using sourceIsPending_total [of el t s] assms(1) by (auto simp: el_now_def)
  show thesis
    by (rule that [OF e]) (use sourceIsPending_frame [OF e] sourceIsPending_mset [OF e] assms in auto)
qed

lemma sched_rel_spec:
  assumes "unat (lasteventtime el) + unat d < 18446744073709551616" "endtime el \<noteq> 0"
  obtains el' where "sourceIsPendingRel el s d = Some el'" "lasteventtime el' = lasteventtime el"
    "endtime el' = endtime el"
    "mset (pendingsources el') = (if lasteventtime el + d \<le> endtime el
       then {#(lasteventtime el + d, s)#} else {#}) + mset (pendingsources el)"
proof -
  have "lasteventtime el \<le> lasteventtime el + d"
    using unat_add_64 [OF assms(1)] by (simp add: word_le_nat_alt)
  then show thesis
    using sched_spec [OF _ assms(2), of "lasteventtime el + d" s] that
    by (auto simp: sourceIsPendingRel_def el_now_def)
qed

section \<open>One hop\<close>

lemma ident_marked [simp]: "ident (marked p) = ident p" "ident (p\<lparr>p_nexthop := n\<rparr>) = ident p"
  by (simp_all add: ident_def)

lemma sendOn_link:
  "sendOn link_routes p = (if unat (p_nexthop p) < 3
     then Some ([LQueue, LPipe, LDst] ! unat (p_nexthop p), p\<lparr>p_nexthop := p_nexthop p + 1\<rparr>) else None)"
  by (simp add: sendOn_def link_routes_def)

lemma injects_src [simp]: "injects QueueSrc = {#}" "injects PipeSrc = {#}" "injects (Inject p) = {#p#}"
  by (simp_all add: injects_def)

text \<open>A packet at hop 0 is dropped or goes to the buffer of the queue.\<close>

lemma link_enter:
  assumes "link_inv t fin (mset (pendingsources el)) w" "lasteventtime el = t" "endtime el = fin"
    "link_pkt (ln_queue w) fin 0 p"
  shows "\<exists>el' w'. link_sendOn (Suc d) p el w = Some (el', w') \<and> lasteventtime el' = t \<and> endtime el' = fin \<and>
    link_inv t fin (mset (pendingsources el')) w' \<and>
    image_mset ident (link_all (mset (pendingsources el')) w') =
      add_mset (ident p) (image_mset ident (link_all (mset (pendingsources el)) w))"
proof -
  let ?q = "ln_queue w" and ?p = "p\<lparr>p_nexthop := 1\<rparr>" and ?P = "mset (pendingsources el)"
  have hop: "p_nexthop p = 0" using assms(4) by (simp add: link_pkt_def)
  have ft: "fits ?q ?p" "drainTime ?q ?p = drainTime ?q p" using assms(4)
    by (simp_all add: link_pkt_def fits_def drainTime_def)
  have T: "link_time t fin ?P w" "link_queue fin ?P w" "link_pipe t fin ?P w"
    using assms(1) by (simp_all add: link_inv_def)
  have snd: "link_sendOn (Suc d) p el w = Option.bind (fifo_receivePacket ?q ?p)
      (\<lambda>(q, as). link_acts (link_sendOn d) QueueSrc as el (w\<lparr>ln_queue := q\<rparr>))"
    using hop by (simp add: sendOn_link)
  show ?thesis
  proof (cases "q_queuesize ?q + p_size ?p > q_maxsize ?q")
    case True
    let ?w = "w\<lparr>ln_freed := ln_freed w @ [?p]\<rparr>"
    have "link_sendOn (Suc d) p el w = Some (el, ?w)"
      unfolding snd fifo_receive_drop [OF True] by (simp add: link_acts_quiet)
    then show ?thesis using assms T
      by (intro exI [of _ el] exI [of _ ?w])
        (simp add: link_inv_def link_time_def link_queue_def link_pipe_def link_all_def)
  next
    case False
    define q' where "q' = ?q\<lparr>q_enqueued := ?p # q_enqueued ?q, q_queuesize := q_queuesize ?q + p_size ?p\<rparr>"
    obtain as where r: "fifo_receivePacket ?q ?p = Some (q', as)" "sends as = []" "frees as = []"
        "scheds as = (if q_enqueued ?q = [] then [SchedRel (drainTime ?q p)] else [])"
      using fifo_receive_accept [OF False] ft(2) unfolding q'_def by auto
    have inv': "fifo_inv q'" using T(2) ft(1) r(1) by (auto simp: link_queue_def intro: fifo_recv_inv)
    have pk: "link_pkt q' fin k x = link_pkt ?q fin k x" for k x
      by (simp add: link_pkt_def fits_def drainTime_def q'_def)
    have eq: "q_enqueued q' = ?p # q_enqueued ?q" by (simp add: q'_def)
    have pkp: "link_pkt ?q fin 1 ?p" using assms(4) ft by (simp add: link_pkt_def)
    obtain el' where e: "run_scheds QueueSrc (scheds as) el = Some el'" "lasteventtime el' = t" "endtime el' = fin"
      "mset (pendingsources el') = (if q_enqueued ?q = [] \<and> t + drainTime ?q p \<le> fin
         then {#(t + drainTime ?q p, QueueSrc)#} else {#}) + ?P"
    proof (cases "q_enqueued ?q = []")
      case False
      then show thesis using that [of el] r(4) assms(2,3) by simp
    next
      case True
      have "unat t \<le> unat fin" using T(1) by (simp add: link_time_def word_le_nat_alt)
      then have "unat (lasteventtime el) + unat (drainTime ?q p) < 18446744073709551616"
        using assms(2,4) by (simp add: link_pkt_def)
      moreover have "endtime el \<noteq> 0" using T(1) assms(3) by (simp add: link_time_def)
      ultimately obtain el' where "sourceIsPendingRel el QueueSrc (drainTime ?q p) = Some el'"
        "lasteventtime el' = lasteventtime el" "endtime el' = endtime el"
        "mset (pendingsources el') = (if lasteventtime el + drainTime ?q p \<le> endtime el
           then {#(lasteventtime el + drainTime ?q p, QueueSrc)#} else {#}) + ?P"
        by (rule sched_rel_spec)
      then show thesis using True r(4) assms(2,3) by (intro that [of el']) auto
    qed
    let ?w = "w\<lparr>ln_queue := q'\<rparr>"
    have len: "t \<le> t + drainTime ?q p"
    proof -
      have "unat t \<le> unat fin" using T(1) by (simp add: link_time_def word_le_nat_alt)
      then have "unat t + unat (drainTime ?q p) < 18446744073709551616" using assms(4) by (simp add: link_pkt_def)
      then show ?thesis by (simp add: word_le_nat_alt unat_add_64)
    qed
    have "link_sendOn (Suc d) p el w = Some (el', ?w)"
      unfolding snd r(1) using e(1) r(2,3) by (simp add: link_acts_quiet)
    moreover have "link_time t fin (mset (pendingsources el')) ?w"
      using T(1) e(4) len by (auto simp: link_time_def pk split: if_splits)
    moreover have "link_queue fin (mset (pendingsources el')) ?w"
      using T(2) e(4) inv' pkp eq by (auto simp: link_queue_def pk split: if_splits)
    moreover have "link_pipe t fin (mset (pendingsources el')) ?w"
      using T(3) e(4) by (auto simp: link_pipe_def Let_def)
    ultimately show ?thesis using e
      by (intro exI [of _ el'] exI [of _ ?w]) (auto simp: link_inv_def link_all_def q'_def)
  qed
qed

text \<open>A packet at hop 1 goes into the pipe.\<close>

lemma link_forward:
  assumes "link_time t fin (mset (pendingsources el)) w" "link_pipe t fin (mset (pendingsources el)) w"
    "lasteventtime el = t" "endtime el = fin" "p_nexthop p = 1"
  shows "\<exists>el' pip. link_sendOn (Suc d) p el w = Some (el', w\<lparr>ln_pipe := pip\<rparr>) \<and> lasteventtime el' = t \<and>
    endtime el' = fin \<and> pi_inflight pip = (t + pi_delay (ln_pipe w), p\<lparr>p_nexthop := 2\<rparr>) # pi_inflight (ln_pipe w) \<and>
    link_time t fin (mset (pendingsources el')) (w\<lparr>ln_pipe := pip\<rparr>) \<and>
    link_pipe t fin (mset (pendingsources el')) (w\<lparr>ln_pipe := pip\<rparr>) \<and>
    evs QueueSrc (mset (pendingsources el')) = evs QueueSrc (mset (pendingsources el)) \<and>
    (\<Sum>e\<in>#mset (pendingsources el'). injects (snd e)) = (\<Sum>e\<in>#mset (pendingsources el). injects (snd e))"
proof -
  let ?pip = "ln_pipe w" and ?p = "p\<lparr>p_nexthop := 2\<rparr>" and ?P = "mset (pendingsources el)"
  let ?due = "t + pi_delay (ln_pipe w)"
  define pip where "pip = ?pip\<lparr>pi_inflight := (?due, ?p) # pi_inflight ?pip\<rparr>"
  have "unat t \<le> unat fin" using assms(1) by (simp add: link_time_def word_le_nat_alt)
  then have nw: "unat t + unat (pi_delay ?pip) < 18446744073709551616"
    using assms(1) by (simp add: link_time_def)
  have due: "unat ?due = unat t + unat (pi_delay ?pip)" using nw by (rule unat_add_64)
  then have le: "t \<le> ?due" by (simp add: word_le_nat_alt)
  obtain el' where e: "run_scheds PipeSrc (if pi_inflight ?pip = [] then [SchedRel (pi_delay ?pip)] else []) el = Some el'"
    "lasteventtime el' = t" "endtime el' = fin"
    "mset (pendingsources el') = (if pi_inflight ?pip = [] \<and> ?due \<le> fin then {#(?due, PipeSrc)#} else {#}) + ?P"
  proof (cases "pi_inflight ?pip = []")
    case False
    then show thesis using that [of el] assms(3,4) by simp
  next
    case True
    have "unat (lasteventtime el) + unat (pi_delay ?pip) < 18446744073709551616" "endtime el \<noteq> 0"
      using nw assms(1,3,4) by (simp_all add: link_time_def)
    then obtain el' where "sourceIsPendingRel el PipeSrc (pi_delay ?pip) = Some el'"
      "lasteventtime el' = lasteventtime el" "endtime el' = endtime el"
      "mset (pendingsources el') = (if lasteventtime el + pi_delay ?pip \<le> endtime el
         then {#(lasteventtime el + pi_delay ?pip, PipeSrc)#} else {#}) + ?P"
      by (rule sched_rel_spec)
    then show thesis using True assms(3,4) by (intro that [of el']) auto
  qed
  have "link_sendOn (Suc d) p el w = Some (el', w\<lparr>ln_pipe := pip\<rparr>)"
    using assms(3,5) e(1)
    by (simp add: sendOn_link pipe_receivePacket_def link_acts_quiet el_now_def pip_def split: if_splits)
  moreover have "link_time t fin (mset (pendingsources el')) (w\<lparr>ln_pipe := pip\<rparr>)"
    using assms(1) e(4) le by (auto simp: link_time_def pip_def split: if_splits)
  moreover have "link_pipe t fin (mset (pendingsources el')) (w\<lparr>ln_pipe := pip\<rparr>)"
  proof -
    have "sorted (map fst (rev (pi_inflight ?pip)) @ [?due])"
      using assms(2) due by (auto simp: sorted_append link_pipe_def Let_def word_le_nat_alt)
    then show ?thesis using assms(2) e(4) le due by (auto simp: link_pipe_def Let_def pip_def)
  qed
  ultimately show ?thesis using e(2-4)
    by (intro exI [of _ el'] exI [of _ pip]) (auto simp: pip_def)
qed

section \<open>Events\<close>

text \<open>Taking the first event off the list: nothing in flight is due before it.\<close>

lemma link_advance:
  assumes "link_inv now fin (add_mset (t, s) R) w" "\<forall>e\<in>#R. t \<le> fst e"
  shows "link_time t fin R w" "\<forall>e \<in> set (pi_inflight (ln_pipe w)).
    t \<le> fst e \<and> unat (fst e) \<le> unat t + unat (pi_delay (ln_pipe w))"
proof -
  let ?fs = "pi_inflight (ln_pipe w)"
  have T: "link_time now fin (add_mset (t, s) R) w" "link_pipe now fin (add_mset (t, s) R) w"
    using assms(1) by (simp_all add: link_inv_def)
  then show "link_time t fin R w" using assms(2) by (auto simp: link_time_def)
  have ft: "now \<le> t" "t \<le> fin" using T(1) by (auto simp: link_time_def)
  show "\<forall>e \<in> set ?fs. t \<le> fst e \<and> unat (fst e) \<le> unat t + unat (pi_delay (ln_pipe w))"
  proof
    fix e assume e: "e \<in> set ?fs"
    have ev: "evs PipeSrc (add_mset (t, s) R) =
        (if ?fs = [] \<or> fin < fst (last ?fs) then {#} else {#(fst (last ?fs), PipeSrc)#})"
      and sr: "sorted (map fst (rev ?fs))"
      using T(2) by (simp_all add: link_pipe_def Let_def)
    have "t \<le> fst (last ?fs)"
    proof (cases "fin < fst (last ?fs)")
      case True
      then show ?thesis using ft(2) by simp
    next
      case False
      then have "(fst (last ?fs), PipeSrc) \<in># evs PipeSrc (add_mset (t, s) R)" using ev e by auto
      then have "(fst (last ?fs), PipeSrc) \<in># add_mset (t, s) R" by (auto simp: evs_def split: if_splits)
      then show ?thesis using assms(2) by auto
    qed
    also have "fst (last ?fs) \<le> fst e" using sorted_rev_last_le [OF sr e] by simp
    finally show "t \<le> fst e \<and> unat (fst e) \<le> unat t + unat (pi_delay (ln_pipe w))"
      using T(2) e ft(1) by (auto simp: link_pipe_def Let_def word_le_nat_alt)
  qed
qed

text \<open>What an event does to the link; \<open>Q\<close> is what is known of the state after it.\<close>

definition link_after :: "u64 \<Rightarrow> u64 \<Rightarrow> (u32 \<times> u32 \<times> u64 \<times> pkt_class) multiset \<Rightarrow>
    (link_src eventlist \<times> link) option \<Rightarrow> bool" where
  "link_after t fin M r \<longleftrightarrow> (\<exists>el w. r = Some (el, w) \<and> lasteventtime el = t \<and> endtime el = fin \<and>
     link_inv t fin (mset (pendingsources el)) w \<and>
     image_mset ident (link_all (mset (pendingsources el)) w) = M)"

lemma link_inject:
  assumes "link_inv now fin (add_mset (t, Inject p) (mset (pendingsources el))) w"
    "\<forall>e\<in>#mset (pendingsources el). t \<le> fst e" "lasteventtime el = t" "endtime el = fin"
  shows "link_after t fin
    (add_mset (ident p) (image_mset ident (link_all (mset (pendingsources el)) w)))
    (link_handler (Inject p) el w)"
proof -
  have "link_inv t fin (mset (pendingsources el)) w"
    using link_advance [OF assms(1,2)] assms(1)
    by (auto simp: link_inv_def link_queue_def link_pipe_def Let_def)
  moreover have "link_pkt (ln_queue w) fin 0 p" using assms(1) by (simp add: link_inv_def link_time_def)
  ultimately show ?thesis using link_enter [OF _ assms(3,4), of w p 2]
    by (simp add: link_handler_def link_after_def numeral_3_eq_3 numeral_2_eq_2)
qed

lemma link_serve:
  assumes "link_inv now fin (add_mset (t, QueueSrc) (mset (pendingsources el))) w"
    "\<forall>e\<in>#mset (pendingsources el). t \<le> fst e" "lasteventtime el = t" "endtime el = fin"
  shows "link_after t fin (image_mset ident (link_all (mset (pendingsources el)) w))
    (link_handler QueueSrc el w)"
proof -
  let ?P = "mset (pendingsources el)" and ?q = "ln_queue w"
  define p where "p = last (q_enqueued ?q)"
  define q' where "q' = ?q\<lparr>q_enqueued := butlast (q_enqueued ?q), q_queuesize := q_queuesize ?q - p_size p\<rparr>"
  let ?p = "applyEcnMark q' p" and ?w = "w\<lparr>ln_queue := q'\<rparr>"
  have Q: "link_queue fin (add_mset (t, QueueSrc) ?P) w" using assms(1) by (simp add: link_inv_def)
  then have ne: "q_enqueued ?q \<noteq> []" and none: "evs QueueSrc ?P = {#}"
    by (auto simp: link_queue_def split: if_splits)
  have pk: "link_pkt q' fin k x = link_pkt ?q fin k x" for k x
    by (simp add: link_pkt_def fits_def drainTime_def q'_def)
  have enq: "q_enqueued q' = butlast (q_enqueued ?q)" "set (q_enqueued q') \<subseteq> set (q_enqueued ?q)"
      "p \<in> set (q_enqueued ?q)"
    using ne by (auto simp: q'_def p_def dest: in_set_butlastD)
  have hop: "p_nexthop ?p = 1"
    using Q enq(3) applyEcnMark_cases [of q' p] by (auto simp: link_queue_def link_pkt_def)
  have T: "link_time t fin ?P ?w" "link_pipe t fin ?P ?w"
    using link_advance [OF assms(1,2)] assms(1)
    by (auto simp: link_inv_def link_time_def link_pipe_def Let_def pk)
  obtain el1 pip where f: "link_sendOn 3 ?p el ?w = Some (el1, ?w\<lparr>ln_pipe := pip\<rparr>)"
    "lasteventtime el1 = t" "endtime el1 = fin"
    "pi_inflight pip = (t + pi_delay (ln_pipe ?w), ?p\<lparr>p_nexthop := 2\<rparr>) # pi_inflight (ln_pipe ?w)"
    "link_time t fin (mset (pendingsources el1)) (?w\<lparr>ln_pipe := pip\<rparr>)"
    "link_pipe t fin (mset (pendingsources el1)) (?w\<lparr>ln_pipe := pip\<rparr>)"
    "evs QueueSrc (mset (pendingsources el1)) = evs QueueSrc ?P"
    "(\<Sum>e\<in>#mset (pendingsources el1). injects (snd e)) = (\<Sum>e\<in>#?P. injects (snd e))"
    using link_forward [OF T assms(3,4) hop, of 2] by (auto simp: numeral_3_eq_3 numeral_2_eq_2)
  let ?w1 = "?w\<lparr>ln_pipe := pip\<rparr>" and ?n = "last (q_enqueued q')"
  obtain as where s: "fifo_doNextEvent ?q = Some (q', as)"
    "link_acts (link_sendOn 3) QueueSrc as el ?w = map_option (\<lambda>el. (el, ?w1))
       (run_scheds QueueSrc (if q_enqueued q' = [] then [] else [SchedRel (drainTime q' ?n)]) el1)"
  proof -
    let ?pre = "Traffic PKT_DEPART p # qlog q' Q_SERVICE p"
    let ?post = "if q_enqueued q' = [] then [] else [SchedRel (drainTime q' ?n)]"
    have "fifo_doNextEvent ?q = Some (q', ?pre @ SendOn ?p # ?post)"
      using ne by (simp add: fifo_doNextEvent_def fifo_completeService_def fifo_beginService_def Let_def
          q'_def p_def drainTime_def)
    moreover have "link_acts (link_sendOn 3) QueueSrc (?pre @ SendOn ?p # ?post) el ?w =
        link_acts (link_sendOn 3) QueueSrc ?post el1 ?w1"
      unfolding link_acts_append by (simp add: link_acts_quiet f(1))
    moreover have "link_acts (link_sendOn 3) QueueSrc ?post el1 ?w1 =
        map_option (\<lambda>el. (el, ?w1)) (run_scheds QueueSrc ?post el1)"
      by (subst link_acts_quiet) simp_all
    ultimately show thesis by (intro that) (simp_all only:)
  qed
  have inv': "fifo_inv q'" using Q ne s(1) by (auto simp: link_queue_def intro: fifo_serve_inv)
  obtain el2 where e: "run_scheds QueueSrc (if q_enqueued q' = [] then [] else [SchedRel (drainTime q' ?n)]) el1 = Some el2"
    "lasteventtime el2 = t" "endtime el2 = fin"
    "mset (pendingsources el2) = (if q_enqueued q' \<noteq> [] \<and> t + drainTime q' ?n \<le> fin
       then {#(t + drainTime q' ?n, QueueSrc)#} else {#}) + mset (pendingsources el1)"
    "q_enqueued q' \<noteq> [] \<longrightarrow> t \<le> t + drainTime q' ?n"
  proof (cases "q_enqueued q' = []")
    case True
    then show thesis using that [of el1] f(2,3) by simp
  next
    case False
    then have "?n \<in> set (q_enqueued ?q)" using enq(2) last_in_set by blast
    then have "link_pkt q' fin 1 ?n" using Q by (simp add: link_queue_def pk)
    moreover have "unat t \<le> unat fin" "fin \<noteq> 0" using T(1) by (simp_all add: link_time_def word_le_nat_alt)
    ultimately have nw: "unat t + unat (drainTime q' ?n) < 18446744073709551616" "fin \<noteq> 0"
      by (simp_all add: link_pkt_def)
    then obtain el2 where "sourceIsPendingRel el1 QueueSrc (drainTime q' ?n) = Some el2"
      "lasteventtime el2 = lasteventtime el1" "endtime el2 = endtime el1"
      "mset (pendingsources el2) = (if lasteventtime el1 + drainTime q' ?n \<le> endtime el1
         then {#(lasteventtime el1 + drainTime q' ?n, QueueSrc)#} else {#}) + mset (pendingsources el1)"
      using sched_rel_spec [of el1 "drainTime q' ?n" QueueSrc] f(2,3) by blast
    moreover have "t \<le> t + drainTime q' ?n" using nw by (simp add: word_le_nat_alt unat_add_64)
    ultimately show thesis using False f(2,3) by (intro that [of el2]) auto
  qed
  have "link_handler QueueSrc el w = Some (el2, ?w1)"
    using s e(1) by (simp add: link_handler_def)
  moreover have "link_time t fin (mset (pendingsources el2)) ?w1"
    using f(5) e(4,5) by (auto simp: link_time_def split: if_splits)
  moreover have "link_queue fin (mset (pendingsources el2)) ?w1"
    using Q e(4) inv' none f(7) enq(2) by (auto simp: link_queue_def pk split: if_splits)
  moreover have "link_pipe t fin (mset (pendingsources el2)) ?w1"
    using f(6) e(4) by (auto simp: link_pipe_def Let_def)
  moreover have "image_mset ident (link_all (mset (pendingsources el2)) ?w1) = image_mset ident (link_all ?P w)"
  proof -
    have "add_mset p (mset (q_enqueued q')) = mset (q_enqueued ?q)"
      unfolding enq(1) p_def using butlast_last_mset [OF ne] by simp
    then have "image_mset ident (mset (q_enqueued ?q)) = add_mset (ident p) (image_mset ident (mset (q_enqueued q')))"
      by (metis image_mset_add_mset)
    moreover have "ident ?p = ident p" using applyEcnMark_cases [of q' p] by auto
    ultimately show ?thesis using e(4) f(4,8) by (simp add: link_all_def)
  qed
  ultimately show ?thesis using e by (simp add: link_after_def link_inv_def)
qed

lemma link_deliver:
  assumes "link_inv now fin (add_mset (t, PipeSrc) (mset (pendingsources el))) w"
    "\<forall>e\<in>#mset (pendingsources el). t \<le> fst e" "lasteventtime el = t" "endtime el = fin"
  shows "link_after t fin (image_mset ident (link_all (mset (pendingsources el)) w))
    (link_handler PipeSrc el w)"
proof -
  let ?P = "mset (pendingsources el)" and ?fs = "pi_inflight (ln_pipe w)"
  have L: "link_pipe now fin (add_mset (t, PipeSrc) ?P) w" using assms(1) by (simp add: link_inv_def)
  note adv = link_advance [OF assms(1,2)]
  have ne: "?fs \<noteq> []" and none: "evs PipeSrc ?P = {#}" and t: "fst (last ?fs) = t"
    using L by (auto simp: link_pipe_def Let_def split: if_splits)
  obtain fs e where fs: "?fs = fs @ [e]" using ne by (metis append_butlast_last_id)
  obtain p where e: "e = (t, p)" using t fs by (cases e) simp
  let ?pip = "(ln_pipe w)\<lparr>pi_inflight := fs\<rparr>" and ?p = "p\<lparr>p_nexthop := 3\<rparr>"
  let ?w = "w\<lparr>ln_pipe := ?pip, ln_out := ln_out w @ [?p]\<rparr>" and ?due = "fst (last fs)"
  have hop: "p_nexthop p = 2" using L fs e by (simp add: link_pipe_def)
  have due: "fs \<noteq> [] \<Longrightarrow> t \<le> ?due" using adv(2) fs by simp
  obtain el' where el': "run_scheds PipeSrc (if fs = [] then [] else [SchedAt ?due]) el = Some el'"
    "lasteventtime el' = t" "endtime el' = fin"
    "mset (pendingsources el') = (if fs \<noteq> [] \<and> ?due \<le> fin then {#(?due, PipeSrc)#} else {#}) + ?P"
  proof (cases "fs = []")
    case True
    then show thesis using that [of el] assms(3,4) by simp
  next
    case False
    have "endtime el \<noteq> 0" using adv(1) assms(4) by (simp add: link_time_def)
    then obtain el' where "sourceIsPending el PipeSrc ?due = Some el'" "lasteventtime el' = lasteventtime el"
      "endtime el' = endtime el" "mset (pendingsources el') =
        (if ?due \<le> endtime el then {#(?due, PipeSrc)#} else {#}) + ?P"
      using sched_spec [of el ?due PipeSrc] due [OF False] assms(3) by auto
    then show thesis using False assms(3,4) by (intro that [of el']) auto
  qed
  have "link_handler PipeSrc el w = map_option (\<lambda>el. (el, ?w))
      (run_scheds PipeSrc (if fs = [] then [] else [SchedAt ?due]) el)"
    using fs e hop by (simp add: link_handler_def pipe_doNextEvent_def Let_def numeral_3_eq_3 sendOn_link
        link_acts_quiet)
  then have "link_handler PipeSrc el w = Some (el', ?w)" using el'(1) by simp
  moreover have "link_time t fin (mset (pendingsources el')) ?w"
    using adv(1) el'(4) due by (auto simp: link_time_def split: if_splits)
  moreover have "link_queue fin (mset (pendingsources el')) ?w"
    using assms(1) el'(4) by (auto simp: link_inv_def link_queue_def)
  moreover have "link_pipe t fin (mset (pendingsources el')) ?w"
    using L adv(2) none el'(4) fs by (auto simp: link_pipe_def Let_def not_le)
  moreover have "image_mset ident (link_all (mset (pendingsources el')) ?w) = image_mset ident (link_all ?P w)"
    using el'(4) fs e by (simp add: link_all_def)
  ultimately show ?thesis using el' by (simp add: link_after_def link_inv_def)
qed

lemma link_step:
  assumes "link_inv now fin (add_mset (t, s) (mset (pendingsources el))) w"
    "\<forall>e\<in>#mset (pendingsources el). t \<le> fst e" "lasteventtime el = t" "endtime el = fin"
  shows "link_after t fin (image_mset ident (link_all (add_mset (t, s) (mset (pendingsources el))) w))
    (link_handler s el w)"
  using link_serve [of now fin t el w] link_deliver [of now fin t el w] link_inject [of now fin t _ el w] assms
  by (cases s) (simp_all add: link_all_def)

interpretation link: event_handler link_handler "link_wf M"
proof (unfold_locales, goal_cases)
  case (1 src el w el' w')
  then show ?case by (rule link_handler_schedules)
next
  case (2 el w t src rest)
  let ?el = "el\<lparr>pendingsources := rest, lasteventtime := t\<rparr>"
  have "\<forall>e\<in>#mset rest. t \<le> fst e" using 2(1,3) by (auto simp: el_inv_def)
  then have "link_after t (endtime el) M (link_handler src ?el w)"
    using link_step [of "lasteventtime el" "endtime el" t src ?el w] 2(2,3) by (simp add: link_wf_def)
  then show ?case by (auto simp: link_after_def link_wf_def)
qed

text \<open>The link before anything has entered.\<close>

lemma link_wf_init:
  assumes "el_inv el" "endtime el \<noteq> 0" "lasteventtime el \<le> endtime el" "\<forall>e\<in>set (pendingsources el). fst e \<le> endtime el \<and>
      (\<exists>p. snd e = Inject p \<and> link_pkt q (endtime el) 0 p)"
    "unat (endtime el) + unat delay < 18446744073709551616" "mkQueue bitrate maxsize lg = Some q"
  shows "link_wf (\<Sum>e\<in>#mset (pendingsources el). image_mset ident (injects (snd e))) el
    \<lparr>ln_queue = q, ln_pipe = mkPipe delay, ln_out = [], ln_freed = []\<rparr>"
proof -
  have "evs QueueSrc (mset (pendingsources el)) = {#}" "evs PipeSrc (mset (pendingsources el)) = {#}"
    using assms(4) by (fastforce simp: evs_def filter_mset_eq_conv)+
  moreover have "fifo_inv q" "q_enqueued q = []" using assms(6)
    by (auto simp: mkQueue_def fifo_inv_def split: if_splits)
  moreover have "image_mset ident (\<Sum>e\<in>#P. injects (snd e)) = (\<Sum>e\<in>#P. image_mset ident (injects (snd e)))" for P
    by (induction P) auto
  ultimately show ?thesis using assms
    by (auto simp: link_wf_def link_inv_def link_time_def link_queue_def link_pipe_def Let_def mkPipe_def
        link_all_def el_inv_def)
qed

section \<open>Properties\<close>

text \<open>
  C10: a queue and a pipe driven by the event list. A link starts with packets to come at given
  times, up to an end time. However many events are processed, no assertion of the queue, the pipe
  or the event list fails, the times of the events never decrease, every packet is still to come, in
  the queue, in flight, delivered or dropped, and none of them twice.
\<close>

theorem link_simulation:
  assumes "el_inv el" "endtime el \<noteq> 0" "lasteventtime el \<le> endtime el"
    "\<forall>e \<in> set (pendingsources el). fst e \<le> endtime el \<and>
      (\<exists>p. snd e = Inject p \<and> link_pkt q (endtime el) 0 p)"
    "unat (endtime el) + unat delay < 18446744073709551616" "mkQueue bitrate maxsize lg = Some q"
    "w = \<lparr>ln_queue = q, ln_pipe = mkPipe delay, ln_out = [], ln_freed = []\<rparr>"
  shows "\<exists>ts el' w'. el_run link_handler n el w = Some (ts, el', w') \<and>
    sorted (lasteventtime el # ts) \<and> el_inv el' \<and> q_queuesize (ln_queue w') \<le> q_maxsize (ln_queue w') \<and>
    image_mset ident (link_all (mset (pendingsources el')) w') =
      image_mset ident (link_all (mset (pendingsources el)) w)"
proof -
  have "link_wf (\<Sum>e\<in>#mset (pendingsources el). image_mset ident (injects (snd e))) el w"
    unfolding assms(7) by (rule link_wf_init [OF assms(1-6)])
  from link.run_total [OF assms(1) this, of n] this show ?thesis
    by (auto simp: link_wf_def link_inv_def link_queue_def fifo_inv_def)
qed

lemma link_simulation_witness:
  "\<exists>ts el' w'. el_run link_handler 5
      \<lparr>pendingsources = [(5, Inject ex_full), (9, Inject ex_full)], endtime = 10000000, lasteventtime = 0,
       nEventsProcessed = 0\<rparr>
      \<lparr>ln_queue = ex_fifo, ln_pipe = mkPipe 1000, ln_out = [], ln_freed = []\<rparr> = Some (ts, el', w') \<and>
    sorted (0 # ts)"
proof -
  let ?el = "\<lparr>pendingsources = [(5, Inject ex_full), (9, Inject ex_full)], endtime = 10000000,
    lasteventtime = 0, nEventsProcessed = 0\<rparr> :: link_src eventlist"
  have "drainTime ex_fifo ex_full = 1200000" by (simp add: drainTime_def ex_full_def ex_fifo_eq)
  moreover have "p_nexthop ex_full = 0" by (simp add: ex_full_def pkt0_def)
  ultimately have "link_pkt ex_fifo 10000000 0 ex_full" using ex_fifo_inv(3) by (simp add: link_pkt_def)
  then have "\<forall>e \<in> set (pendingsources ?el). fst e \<le> endtime ?el \<and>
      (\<exists>p. snd e = Inject p \<and> link_pkt ex_fifo (endtime ?el) 0 p)" by simp
  from link_simulation [OF _ _ _ this _ ex_fifo_eq(1) refl, of 1000 5] show ?thesis
    by (auto simp: el_inv_def)
qed

end
