(* ===== verification/CongaNet.thy ===== *)
theory CongaNet
  imports Network
begin

text \<open>
  The leaf-spine network of \<open>test_conga_testbed.cpp\<close>: the sinks a route can name, the random
  routes between servers and \<open>congaRoute::updateRoute\<close>, which moves a route to another core.
  A pointer into one of the testbed's arrays is the array's name with the indices; the results of
  \<open>rand()\<close> are arguments. Reading or writing outside a vector is \<open>None\<close>.
\<close>

section \<open>Topology\<close>

definition N_CORE :: nat where "N_CORE = 2"
definition N_TOR :: nat where "N_TOR = 8"
definition N_SERVER :: nat where "N_SERVER = 8"

datatype sink =
    QToRCore nat nat | PToRCore nat nat | QCoreToR nat nat | PCoreToR nat nat
  | QServerToR nat nat | PServerToR nat nat | QToRServer nat nat | PToRServer nat nat
  | SToR u8 | EndhostQ nat | DataSrc u32 | DataSnk u32

section \<open>Random routes\<close>

definition simpleHash :: "u32 \<Rightarrow> u32 \<Rightarrow> u8" where
  "simpleHash val1 val2 = ucast ((val1 + val2) mod 256)"

text \<open>The route through \<open>core\<close> from a server to a server of another leaf.\<close>

definition conga_route :: "bool \<Rightarrow> nat \<Rightarrow> nat \<Rightarrow> nat \<Rightarrow> nat \<Rightarrow> nat \<Rightarrow> sink list" where
  "conga_route ecmp core srcToR sInRack dstToR dInRack =
     [QServerToR srcToR sInRack, PServerToR srcToR sInRack] @
     (if \<not> ecmp then [SToR (of_nat srcToR)] else []) @
     [QToRCore core srcToR, PToRCore core srcToR, QCoreToR core dstToR, PCoreToR core dstToR] @
     (if \<not> ecmp then [SToR (of_nat dstToR)] else []) @
     [QToRServer dstToR dInRack, PToRServer dstToR dInRack]"

record conga_routes =
  cr_fwd :: "sink list"
  cr_rev :: "sink list"
  cr_src :: u32
  cr_dst :: u32

text \<open>\<open>conga::routeGenerate\<close>; \<open>r1 .. r5\<close> are the results of its calls of \<open>rand()\<close>.\<close>

definition conga_routeGenerate :: "bool \<Rightarrow> nat \<Rightarrow> nat \<Rightarrow> nat \<Rightarrow> nat \<Rightarrow> nat \<Rightarrow> conga_routes" where
  "conga_routeGenerate ecmp r1 r2 r3 r4 r5 =
     (let srcToR = r1 mod N_TOR;
          dstToR = ((srcToR + 1 + r2 mod (N_TOR - 1)) mod 256) mod N_TOR;
          sInRack = r3 mod N_SERVER;
          dInRack = r4 mod N_SERVER;
          src = of_nat (srcToR * N_TOR + sInRack);
          dst = of_nat (dstToR * N_TOR + dInRack);
          core = unat (simpleHash src (of_nat r5)) mod N_CORE
      in \<lparr>cr_fwd = conga_route ecmp core srcToR sInRack dstToR dInRack,
          cr_rev = conga_route ecmp core dstToR dInRack srcToR sInRack,
          cr_src = src, cr_dst = dst\<rparr>)"

section \<open>Rerouting\<close>

text \<open>The testbed's arrays \<open>qToRCore\<close> etc. have \<open>N_CORE\<close> rows of \<open>N_TOR\<close> entries.\<close>

definition core_link :: "(nat \<Rightarrow> nat \<Rightarrow> sink) \<Rightarrow> nat \<Rightarrow> nat \<Rightarrow> sink option" where
  "core_link arr core tor = (if core < N_CORE \<and> tor < N_TOR then Some (arr core tor) else None)"

definition congaRoute_updateRoute ::
  "packet \<Rightarrow> nat \<Rightarrow> sink routes \<Rightarrow> sink routes option" where
  "congaRoute_updateRoute p core rs = do {
     let src = unat (vx_src (p_vxlan p));
     let dst = unat (vx_dst (p_vxlan p));
     s0 \<leftarrow> core_link QToRCore core src;
     rs0 \<leftarrow> updateRoute p (p_nexthop p) s0 rs;
     s1 \<leftarrow> core_link PToRCore core src;
     rs1 \<leftarrow> updateRoute p (p_nexthop p + 1) s1 rs0;
     s2 \<leftarrow> core_link QCoreToR core dst;
     rs2 \<leftarrow> updateRoute p (p_nexthop p + 2) s2 rs1;
     s3 \<leftarrow> core_link PCoreToR core dst;
     updateRoute p (p_nexthop p + 3) s3 rs2
   }"

section \<open>Lemmas\<close>

lemma conga_leaves_differ:
  "((a mod 8 + 1 + b mod 7) mod 256) mod 8 \<noteq> a mod (8 :: nat)"
proof -
  have "((a mod 8 + 1 + b mod 7) mod 256) mod 8 = (a mod 8 + 1 + b mod 7) mod 8"
    by (rule mod_mod_cancel) simp
  moreover have "(x + 1 + y) mod 8 \<noteq> x" if "x < 8" "y < 7" for x y :: nat
    using that by (cases "x + 1 + y < 8") (auto simp: le_mod_geq not_less)
  ultimately show ?thesis by simp
qed

lemma unat_nexthop_add:
  fixes h :: u32
  assumes "unat h + n < 4294967296"
  shows "unat (h + of_nat n) = unat h + n"
proof -
  have "unat (of_nat n :: u32) = n" using assms by (simp only: unat_of_nat) simp
  then show ?thesis using assms by (subst unat_add_32) simp_all
qed

text \<open>The rerouting replaces the four hops from the next one on.\<close>

lemma congaRoute_updateRoute_eq:
  assumes "core < N_CORE" "unat (vx_src (p_vxlan p)) < N_TOR" "unat (vx_dst (p_vxlan p)) < N_TOR"
    and "rs (p_route p) = xs @ [a, b, c, d] @ ys" "unat (p_nexthop p) = length xs"
    and "length (rs (p_route p)) < 4294967296"
  shows "congaRoute_updateRoute p core rs = Some (rs(p_route p := xs @
    [QToRCore core (unat (vx_src (p_vxlan p))), PToRCore core (unat (vx_src (p_vxlan p))),
     QCoreToR core (unat (vx_dst (p_vxlan p))), PCoreToR core (unat (vx_dst (p_vxlan p)))] @ ys))"
proof -
  have "unat (p_nexthop p + 1) = length xs + 1" "unat (p_nexthop p + 2) = length xs + 2"
      "unat (p_nexthop p + 3) = length xs + 3"
    using unat_nexthop_add [of "p_nexthop p" 1] unat_nexthop_add [of "p_nexthop p" 2]
      unat_nexthop_add [of "p_nexthop p" 3] assms(4-6) by simp_all
  then show ?thesis using assms(1-5)
    by (simp add: congaRoute_updateRoute_def core_link_def updateRoute_def list_update_append Let_def)
qed

section \<open>Properties\<close>

text \<open>The leaf of a server route, from its first hop.\<close>

definition route_leaves :: "sink list \<Rightarrow> (nat \<times> nat) option" where
  "route_leaves xs = (case (xs, last xs) of
      (QServerToR a _ # _, PToRServer b _) \<Rightarrow> Some (a, b) | _ \<Rightarrow> None)"

text \<open>
  The testbed's random routes and their rerouting. Whatever \<open>rand()\<close> returns, \<open>routeGenerate\<close>
  connects servers of two different leaves through one of the cores, the reverse route the other way
  round, all indices within the testbed's arrays; and for a packet that has just left its source leaf
  (hop 3 of a route that is not ECMP) \<open>congaRoute::updateRoute\<close> yields exactly the generated route
  through the other core.
\<close>

lemma routes_and_rerouting:
  assumes "core' < N_CORE" "r = conga_routeGenerate False r1 r2 r3 r4 r5"
    "rs (p_route p) = cr_fwd r" "p_nexthop p = 3"
    "Some (unat (vx_src (p_vxlan p)), unat (vx_dst (p_vxlan p))) = route_leaves (cr_fwd r)"
  shows "\<exists>a b i j core. a < N_TOR \<and> b < N_TOR \<and> a \<noteq> b \<and> i < N_SERVER \<and> j < N_SERVER \<and> core < N_CORE \<and>
    cr_fwd r = conga_route False core a i b j \<and> cr_rev r = conga_route False core b j a i \<and>
    congaRoute_updateRoute p core' rs = Some (rs(p_route p := conga_route False core' a i b j))"
proof -
  define a where "a = r1 mod N_TOR"
  define b where "b = ((a + 1 + r2 mod (N_TOR - 1)) mod 256) mod N_TOR"
  define i where "i = r3 mod N_SERVER"
  define j where "j = r4 mod N_SERVER"
  define core where "core = unat (simpleHash (of_nat (a * N_TOR + i)) (of_nat r5)) mod N_CORE"
  have core: "core < N_CORE" "cr_fwd r = conga_route False core a i b j" "cr_rev r = conga_route False core b j a i"
    using assms(2) by (simp_all add: conga_routeGenerate_def Let_def a_def b_def i_def j_def core_def N_CORE_def)
  have ab: "a < N_TOR" "b < N_TOR" "a \<noteq> b" "i < N_SERVER" "j < N_SERVER"
    using conga_leaves_differ [of r1 r2] by (auto simp: a_def b_def i_def j_def N_TOR_def N_SERVER_def)
  have v: "unat (vx_src (p_vxlan p)) = a" "unat (vx_dst (p_vxlan p)) = b"
    using assms(5) core(2) by (simp_all add: route_leaves_def conga_route_def)
  have n: "unat (p_nexthop p) = length [QServerToR a i, PServerToR a i, SToR (of_nat a)]"
    using assms(4) by simp
  have "congaRoute_updateRoute p core' rs = Some (rs(p_route p := conga_route False core' a i b j))"
    using congaRoute_updateRoute_eq [OF assms(1) _ _ _ n, of rs] ab v assms(3) core(2)
    by (simp add: conga_route_def)
  then show ?thesis using ab core by blast
qed

lemma routes_and_rerouting_witness:
  "\<exists>r p core'. r = conga_routeGenerate False 3 4 5 6 7 \<and>
    congaRoute_updateRoute p core' (\<lambda>_. cr_fwd r) = Some ((\<lambda>_. cr_fwd r)(0 := conga_route False core' 3 5 0 6))"
proof -
  let ?r = "conga_routeGenerate False 3 4 5 6 7"
  let ?p = "pkt0\<lparr>p_nexthop := 3, p_vxlan := (p_vxlan pkt0)\<lparr>vx_src := 3, vx_dst := 0\<rparr>\<rparr>"
  have l: "route_leaves (cr_fwd ?r) = Some (3, 0)" by code_simp
  have "(1 :: nat) < N_CORE" by (simp add: N_CORE_def)
  then obtain a b i j core where e: "cr_fwd ?r = conga_route False core a i b j"
    "congaRoute_updateRoute ?p 1 (\<lambda>_. cr_fwd ?r) = Some ((\<lambda>_. cr_fwd ?r)(0 := conga_route False 1 a i b j))"
    using routes_and_rerouting [of 1 ?r 3 4 5 6 7 "\<lambda>_. cr_fwd ?r" ?p] l by (auto simp: pkt0_def)
  have "take 2 (cr_fwd ?r) = [QServerToR 3 5, PServerToR 3 5]" "last (cr_fwd ?r) = PToRServer 0 6" by code_simp+
  then have "a = 3" "i = 5" "b = 0" "j = 6" unfolding e(1) by (simp_all add: conga_route_def numeral_2_eq_2)
  then show ?thesis using e(2) by blast
qed

end
