(* ===== verification/Conga.thy ===== *)
theory Conga
  imports CongaNet FifoQueue
begin

text \<open>
  \<open>conga.h\<close> and \<open>conga.cpp\<close>: the leaf switch \<open>ToR\<close>, which chooses the core with the least
  congestion and carries the measurements back to the other leaves, and \<open>CoreQueue\<close>, the egress
  queue of a core switch, which stamps the congestion it measures into the packets.
\<close>

section \<open>The leaf switch\<close>

record tor =
  tor_id :: u8
  nxtLbTag :: "u8 list"
  CongFromLeaf :: "u8 list list"
  CongToLeaf :: "u8 list list"

text \<open>The constructor; \<open>rs\<close> are the results of its calls of \<open>rand()\<close>, one for each leaf.\<close>

definition mkToR :: "u8 \<Rightarrow> nat list \<Rightarrow> tor" where
  "mkToR i rs = \<lparr>tor_id = i,
     nxtLbTag = map (\<lambda>r. of_nat (r mod N_CORE)) rs,
     CongFromLeaf = replicate N_TOR (replicate N_CORE 0),
     CongToLeaf = replicate N_TOR (replicate N_CORE 0)\<rparr>"

definition cong_at :: "u8 list list \<Rightarrow> nat \<Rightarrow> nat \<Rightarrow> u8 option" where
  "cong_at tab i j = Option.bind (vec_at tab i) (\<lambda>row. vec_at row j)"

definition cong_set :: "u8 list list \<Rightarrow> nat \<Rightarrow> nat \<Rightarrow> u8 \<Rightarrow> u8 list list option" where
  "cong_set tab i j x = do { row \<leftarrow> vec_at tab i; row' \<leftarrow> vec_set row j x; vec_set tab i row' }"

text \<open>The loop of \<open>minCongestedCore\<close> over the cores \<open>i, i + 1, \<dots>\<close> of a row.\<close>

fun minCores :: "u8 list \<Rightarrow> nat \<Rightarrow> u8 \<Rightarrow> nat list \<Rightarrow> nat list" where
  "minCores [] i minCg cores = cores"
| "minCores (c # cs) i minCg cores =
     (if c = minCg then minCores cs (i + 1) minCg (cores @ [i])
      else if c < minCg then minCores cs (i + 1) c [i]
      else minCores cs (i + 1) minCg cores)"

definition minCongestedCore :: "tor \<Rightarrow> nat \<Rightarrow> nat \<Rightarrow> nat option" where
  "minCongestedCore t dstToR r = do {
     row \<leftarrow> vec_at (CongToLeaf t) dstToR;
     minCg \<leftarrow> vec_at row 0;
     let cores = minCores (tl row) 1 minCg [0];
     vec_at cores (r mod length cores)
   }"

definition updateNxtLbTag :: "tor \<Rightarrow> nat \<Rightarrow> tor option" where
  "updateNxtLbTag t dstToR = do {
     x \<leftarrow> vec_at (nxtLbTag t) dstToR;
     tags \<leftarrow> vec_set (nxtLbTag t) dstToR (of_nat ((unat x + 1) mod N_CORE));
     Some (t\<lparr>nxtLbTag := tags\<rparr>)
   }"

text \<open>\<open>dynamic_cast<ToR *>\<close> followed by \<open>->idTor\<close>; a null pointer is \<open>None\<close>.\<close>

definition as_tor :: "sink \<Rightarrow> u8 option" where
  "as_tor s = (case s of SToR i \<Rightarrow> Some i | _ \<Rightarrow> None)"

definition tor_asSrcToR ::
  "tor \<Rightarrow> nat \<Rightarrow> sink routes \<Rightarrow> packet \<Rightarrow> (tor \<times> sink routes \<times> packet \<times> action list) option" where
  "tor_asSrcToR t r rs pkt = do {
     let as = [Traffic PKT_TOR_SRC pkt];
     let route = rs (p_route pkt);
     s \<leftarrow> (if length route < 4 then None else vec_at route (length route - 4));
     dstToRId \<leftarrow> as_tor s;
     core \<leftarrow> minCongestedCore t (unat dstToRId) r;
     fb_lbtag \<leftarrow> vec_at (nxtLbTag t) (unat dstToRId);
     fb_ce \<leftarrow> cong_at (CongFromLeaf t) (unat dstToRId) (unat fb_lbtag);
     let pkt' = pkt\<lparr>p_vxlan := \<lparr>vx_src = tor_id t, vx_dst = dstToRId, vx_lbtag = of_nat core,
                   vx_ce = 0, vx_fb_lbtag = fb_lbtag, vx_fb_ce = fb_ce\<rparr>\<rparr>;
     t' \<leftarrow> updateNxtLbTag t (unat dstToRId);
     rs' \<leftarrow> congaRoute_updateRoute pkt' core rs;
     Some (t', rs', pkt', as)
   }"

definition tor_asDstToR :: "tor \<Rightarrow> packet \<Rightarrow> (tor \<times> action list) option" where
  "tor_asDstToR t pkt = do {
     let v = p_vxlan pkt;
     toLeaf \<leftarrow> cong_set (CongToLeaf t) (unat (vx_src v)) (unat (vx_fb_lbtag v)) (vx_fb_ce v);
     fromLeaf \<leftarrow> cong_set (CongFromLeaf t) (unat (vx_src v)) (unat (vx_lbtag v)) (vx_ce v);
     tags \<leftarrow> vec_set (nxtLbTag t) (unat (vx_src v)) (vx_lbtag v);
     Some (t\<lparr>CongToLeaf := toLeaf, CongFromLeaf := fromLeaf, nxtLbTag := tags\<rparr>,
           [Traffic PKT_TOR_DST pkt])
   }"

definition tor_receivePacket ::
  "tor \<Rightarrow> nat \<Rightarrow> sink routes \<Rightarrow> packet \<Rightarrow> (tor \<times> sink routes \<times> action list) option" where
  "tor_receivePacket t r rs pkt =
     (if getFlag PASSED_CORE pkt = 0
      then map_option (\<lambda>(t', rs', pkt', as). (t', rs', as @ [SendOn pkt'])) (tor_asSrcToR t r rs pkt)
      else map_option (\<lambda>(t', as). (t', rs, as @ [SendOn pkt])) (tor_asDstToR t pkt))"

section \<open>The egress queue of a core\<close>

record core_queue = queue +
  regCong :: "rat list"
  coreId :: u8
  torId :: u8

definition CE_BITS :: nat where "CE_BITS = 6"

definition mkCoreQueue :: "u8 \<Rightarrow> u8 \<Rightarrow> u64 \<Rightarrow> u64 \<Rightarrow> bool \<Rightarrow> core_queue option" where
  "mkCoreQueue cid tid bitrate maxsize logger =
     map_option (\<lambda>q. queue.extend q \<lparr>regCong = replicate N_TOR 0, coreId = cid, torId = tid\<rparr>)
       (mkQueue bitrate maxsize logger)"

text \<open>\<open>_queuesize * 1.0 / _maxsize\<close> in doubles.\<close>

definition queue_fill :: "'a queue_scheme \<Rightarrow> rat" where
  "queue_fill q = dbl (dbl (dbl (of_nat (unat (q_queuesize q))) * 1) / dbl (of_nat (unat (q_maxsize q))))"

definition new_regCong :: "'a queue_scheme \<Rightarrow> rat \<Rightarrow> rat" where
  "new_regCong q old =
     (if \<bar>dbl (old - 0)\<bar> < dbl (1 / 100000) then queue_fill q
      else dbl (dbl (dbl (old * 7) / 8) + dbl (dbl (queue_fill q * 1) / 8)))"

text \<open>A buffer of size 0 would divide 0 by 0.\<close>

definition updateRegCong :: "core_queue \<Rightarrow> nat \<Rightarrow> core_queue option" where
  "updateRegCong q egPort = do {
     old \<leftarrow> vec_at (regCong q) egPort;
     (if q_maxsize q = 0 then None
      else Some (q\<lparr>regCong := (regCong q)[egPort := new_regCong q old]\<rparr>))
   }"

text \<open>The conversion of a double outside the range of \<open>uint8_t\<close> is undefined.\<close>

definition egress_ce :: "rat \<Rightarrow> u8 option" where
  "egress_ce reg = (let x = trunc_rat (dbl (reg * 2 ^ CE_BITS))
                    in if 0 \<le> x \<and> x < 256 then Some (word_of_int x) else None)"

definition core_queue_base :: "core_queue \<Rightarrow> queue" where
  "core_queue_base q = queue.truncate q"

definition core_with_base :: "core_queue \<Rightarrow> queue \<Rightarrow> core_queue" where
  "core_with_base q b = queue.extend b \<lparr>regCong = regCong q, coreId = coreId q, torId = torId q\<rparr>"

definition core_stamp :: "core_queue \<Rightarrow> nat \<Rightarrow> packet \<Rightarrow> packet option" where
  "core_stamp q egPort pkt = do {
     reg \<leftarrow> vec_at (regCong q) egPort;
     egCe \<leftarrow> egress_ce reg;
     Some (setFlag PASSED_CORE (pkt\<lparr>p_vxlan := (p_vxlan pkt)\<lparr>vx_ce := egCe\<rparr>\<rparr>))
   }"

definition core_receivePacket ::
  "sink routes \<Rightarrow> core_queue \<Rightarrow> packet \<Rightarrow> (core_queue \<times> action list) option" where
  "core_receivePacket rs q pkt = do {
     s \<leftarrow> vec_at (rs (p_route pkt)) (unat (p_nexthop pkt + 1));
     egPort \<leftarrow> as_tor s;
     pkt' \<leftarrow> core_stamp q (unat egPort) pkt;
     (b, as) \<leftarrow> fifo_receivePacket (core_queue_base q) pkt';
     q' \<leftarrow> updateRegCong (core_with_base q b) (unat egPort);
     Some (q', as)
   }"

section \<open>Choice of the core\<close>

lemma argmin_eq:
  fixes m :: "'a::linorder"
  assumes "\<forall>k < n. m \<le> row ! k" "k < n" "row ! k = m"
  shows "{k. k < n \<and> row ! k = m} = {k. k < n \<and> (\<forall>j < n. row ! k \<le> row ! j)}"
proof (intro set_eqI iffI; clarsimp)
  fix x assume "x < n" "\<forall>j < n. row ! x \<le> row ! j"
  then have "row ! x \<le> m" "m \<le> row ! x" using assms by auto
  then show "row ! x = m" by (rule order.antisym)
qed (use assms(1) in blast)

lemma minCores_spec:
  assumes "\<forall>k < i. m \<le> row ! k" "cs = drop i row" "i \<le> length row"
    "set cores = {k. k < i \<and> row ! k = m}" "cores \<noteq> []"
  shows "minCores cs i m cores \<noteq> [] \<and>
    set (minCores cs i m cores) = {k. k < length row \<and> (\<forall>j < length row. row ! k \<le> row ! j)}"
  using assms
proof (induction cs arbitrary: i m cores)
  case Nil
  have "length row \<le> i" using Nil.prems(2) [symmetric] by (rule iffD1 [OF drop_eq_Nil])
  then have i: "length row = i" using Nil.prems(3) by (rule le_antisym)
  have "hd cores \<in> set cores" using Nil.prems(5) by (rule hd_in_set)
  then have k: "hd cores < i" "row ! hd cores = m" unfolding Nil.prems(4) by (simp_all only: mem_Collect_eq)
  have e: "{k. k < i \<and> row ! k = m} = {k. k < i \<and> (\<forall>j < i. row ! k \<le> row ! j)}"
    by (rule argmin_eq [OF Nil.prems(1) k])
  show ?case unfolding minCores.simps i Nil.prems(4) e using Nil.prems(5) by (intro conjI refl)
next
  case (Cons c cs)
  have lt: "i < length row" using Cons.prems(2) by (cases "i < length row") simp_all
  have "drop i row = row ! i # drop (Suc i) row" by (rule Cons_nth_drop_Suc [OF lt, symmetric])
  then have i: "i < length row" "c = row ! i" "cs = drop (Suc i) row"
    using Cons.prems(2) lt by simp_all
  have len: "Suc i \<le> length row" using i(1) by simp
  consider "c = m" | "c < m" | "m < c" by (metis linorder_neqE)
  then show ?case
  proof cases
    case 1
    have l: "\<forall>k < Suc i. m \<le> row ! k" using 1 i Cons.prems(1) by (simp add: less_Suc_eq)
    have s: "set (cores @ [i]) = {k. k < Suc i \<and> row ! k = m}"
      using 1 i Cons.prems(4) by (auto simp: less_Suc_eq)
    show ?thesis using Cons.IH [OF l i(3) len s] 1 by simp
  next
    case 2
    have l: "\<forall>k < Suc i. c \<le> row ! k" using 2 i Cons.prems(1) by (auto simp: less_Suc_eq)
    have s: "set [i] = {k. k < Suc i \<and> row ! k = c}"
      using 2 i Cons.prems(1) by (auto simp: less_Suc_eq)
    have "c \<noteq> m" using 2 by auto
    then show ?thesis using Cons.IH [OF l i(3) len s] 2 by simp
  next
    case 3
    have l: "\<forall>k < Suc i. m \<le> row ! k" using 3 i Cons.prems(1) by (auto simp: less_Suc_eq)
    have s: "set cores = {k. k < Suc i \<and> row ! k = m}"
      using 3 i Cons.prems(4) by (auto simp: less_Suc_eq)
    have "c \<noteq> m" "\<not> c < m" using 3 by auto
    then show ?thesis using Cons.IH [OF l i(3) len s Cons.prems(5)] by simp
  qed
qed

lemma minCores_argmin:
  assumes "row \<noteq> []"
  shows "minCores (tl row) 1 (row ! 0) [0] \<noteq> [] \<and>
    set (minCores (tl row) 1 (row ! 0) [0]) = {k. k < length row \<and> (\<forall>j < length row. row ! k \<le> row ! j)}"
proof (rule minCores_spec)
  show "tl row = drop 1 row" by (simp add: drop_Suc)
  show "1 \<le> length row" using assms by (cases row) simp_all
qed (use assms in auto)

text \<open>The tables of a leaf: one row for each leaf, one column for each core.\<close>

definition table_ok :: "u8 list list \<Rightarrow> bool" where
  "table_ok tab \<longleftrightarrow> length tab = N_TOR \<and> (\<forall>row \<in> set tab. length row = N_CORE)"

definition tor_inv :: "tor \<Rightarrow> bool" where
  "tor_inv t \<longleftrightarrow> table_ok (CongFromLeaf t) \<and> table_ok (CongToLeaf t) \<and> length (nxtLbTag t) = N_TOR \<and>
     (\<forall>x \<in> set (nxtLbTag t). unat x < N_CORE)"

lemma N_pos [simp]: "0 < N_CORE" "0 < N_TOR"
  by (simp_all add: N_CORE_def N_TOR_def)

lemma table_row: "table_ok tab \<Longrightarrow> i < N_TOR \<Longrightarrow> length (tab ! i) = N_CORE"
  by (simp add: table_ok_def)

lemma minCongestedCore_spec:
  assumes "tor_inv t" "d < N_TOR"
  shows "\<exists>c. minCongestedCore t d r = Some c \<and> c < N_CORE \<and>
    (\<forall>j < N_CORE. CongToLeaf t ! d ! c \<le> CongToLeaf t ! d ! j)"
proof -
  let ?row = "CongToLeaf t ! d"
  have l: "length (CongToLeaf t) = N_TOR" "length ?row = N_CORE"
    using assms by (auto simp: tor_inv_def table_ok_def)
  then have ne: "?row \<noteq> []" using N_pos(1) by (metis list.size(3) less_numeral_extra(3))
  let ?cs = "minCores (tl ?row) 1 (?row ! 0) [0]"
  have cs: "?cs \<noteq> []" "set ?cs = {k. k < length ?row \<and> (\<forall>j < length ?row. ?row ! k \<le> ?row ! j)}"
    using minCores_argmin [OF ne] by auto
  then have i: "r mod length ?cs < length ?cs" by simp
  then have "?cs ! (r mod length ?cs) \<in> set ?cs" by (rule nth_mem)
  moreover have "minCongestedCore t d r = Some (?cs ! (r mod length ?cs))"
    using assms(2) l ne i by (simp add: minCongestedCore_def Let_def)
  ultimately show ?thesis using cs(2) l by auto
qed

lemma cong_at_ok: "table_ok tab \<Longrightarrow> i < N_TOR \<Longrightarrow> j < N_CORE \<Longrightarrow> cong_at tab i j = Some (tab ! i ! j)"
  by (simp add: cong_at_def table_ok_def)

lemma cong_set_ok:
  "table_ok tab \<Longrightarrow> i < N_TOR \<Longrightarrow> j < N_CORE \<Longrightarrow>
     cong_set tab i j x = Some (tab[i := (tab ! i)[j := x]]) \<and> table_ok (tab[i := (tab ! i)[j := x]])"
  by (auto simp: cong_set_def table_ok_def dest!: set_update_subset_insert [THEN subsetD])

lemma mkToR_inv: "length rs = N_TOR \<Longrightarrow> tor_inv (mkToR i rs)"
  by (auto simp: tor_inv_def mkToR_def table_ok_def N_CORE_def unat_of_nat)

end
