(* ===== verification/CongaLoop.thy ===== *)
theory CongaLoop
  imports Conga
begin

text \<open>
  Lemmas about \<open>conga.cpp\<close> and \<open>conga.h\<close>: what the two roles of a leaf do to its tables and to
  the packet, the range of the measurements of a core, the loop that carries a measurement
  back to the leaf that balances the load, and the effect of a shared route object.
\<close>

section \<open>Leaf switch\<close>

lemma table_set_at:
  assumes "table_ok tab" "i < N_TOR" "j < N_CORE"
  shows "tab[i := (tab ! i)[j := x]] ! i ! j = x"
    and "(i', j') \<noteq> (i, j) \<Longrightarrow> tab[i := (tab ! i)[j := x]] ! i' ! j' = tab ! i' ! j'"
  using assms by (auto simp: table_ok_def nth_list_update)

lemma tor_asDstToR_ok:
  assumes "tor_inv t" "unat (vx_src v) < N_TOR" "unat (vx_lbtag v) < N_CORE"
    and "unat (vx_fb_lbtag v) < N_CORE" "p_vxlan p = v"
  shows "tor_asDstToR t p = Some (t\<lparr>
      CongToLeaf := (CongToLeaf t)[unat (vx_src v) :=
        (CongToLeaf t ! unat (vx_src v))[unat (vx_fb_lbtag v) := vx_fb_ce v]],
      CongFromLeaf := (CongFromLeaf t)[unat (vx_src v) :=
        (CongFromLeaf t ! unat (vx_src v))[unat (vx_lbtag v) := vx_ce v]],
      nxtLbTag := (nxtLbTag t)[unat (vx_src v) := vx_lbtag v]\<rparr>, [Traffic PKT_TOR_DST p])"
proof -
  have t: "table_ok (CongToLeaf t)" "table_ok (CongFromLeaf t)" "length (nxtLbTag t) = N_TOR"
    using assms(1) by (simp_all add: tor_inv_def)
  show ?thesis
    using cong_set_ok [OF t(1) assms(2,4)] cong_set_ok [OF t(2) assms(2,3)] t(3) assms(2,5)
    by (simp add: tor_asDstToR_def Let_def)
qed

lemma tor_asDstToR_inv:
  assumes "tor_inv t" "unat (vx_src v) < N_TOR" "unat (vx_lbtag v) < N_CORE"
    and "unat (vx_fb_lbtag v) < N_CORE" "p_vxlan p = v" "tor_asDstToR t p = Some (t', as)"
  shows "tor_inv t'"
proof -
  have t: "table_ok (CongToLeaf t)" "table_ok (CongFromLeaf t)" "length (nxtLbTag t) = N_TOR"
    "\<forall>x \<in> set (nxtLbTag t). unat x < N_CORE" using assms(1) by (simp_all add: tor_inv_def)
  have "\<forall>x \<in> set ((nxtLbTag t)[unat (vx_src v) := vx_lbtag v]). unat x < N_CORE"
    using t(4) assms(3) set_update_subset_insert [of "nxtLbTag t"] by fastforce
  then show ?thesis
    using cong_set_ok [OF t(1) assms(2,4)] cong_set_ok [OF t(2) assms(2,3)] t(3)
      tor_asDstToR_ok [OF assms(1-5)] assms(6) by (auto simp: tor_inv_def)
qed

lemma updateNxtLbTag_ok:
  assumes "tor_inv t" "d < N_TOR"
  shows "\<exists>t'. updateNxtLbTag t d = Some t' \<and> tor_inv t' \<and> tor_id t' = tor_id t \<and>
    CongToLeaf t' = CongToLeaf t \<and> CongFromLeaf t' = CongFromLeaf t \<and>
    unat (nxtLbTag t' ! d) = (unat (nxtLbTag t ! d) + 1) mod N_CORE \<and>
    (\<forall>e. e \<noteq> d \<longrightarrow> nxtLbTag t' ! e = nxtLbTag t ! e)"
proof -
  let ?x = "of_nat ((unat (nxtLbTag t ! d) + 1) mod N_CORE) :: u8"
  have l: "length (nxtLbTag t) = N_TOR" "\<forall>x \<in> set (nxtLbTag t). unat x < N_CORE"
    using assms(1) by (simp_all add: tor_inv_def)
  have x: "unat ?x = (unat (nxtLbTag t ! d) + 1) mod N_CORE"
    by (simp add: unat_of_nat N_CORE_def)
  then have "unat ?x < N_CORE" by simp
  then have "\<forall>x \<in> set ((nxtLbTag t)[d := ?x]). unat x < N_CORE"
    using l(2) set_update_subset_insert [of "nxtLbTag t" d ?x] by blast
  then show ?thesis using assms l x by (simp add: updateNxtLbTag_def tor_inv_def)
qed

text \<open>
  A packet of a server at leaf \<open>s\<close>: behind the leaf its route has the four hops through a core,
  then the destination leaf, two hops to the server and the sink.
\<close>

definition src_route :: "sink list \<Rightarrow> nat \<Rightarrow> nat \<Rightarrow> u8 \<Rightarrow> sink list \<Rightarrow> sink list" where
  "src_route pre core s d post = pre @ [QToRCore core s, PToRCore core s, QCoreToR core (unat d),
     PCoreToR core (unat d)] @ [SToR d] @ post"

lemma tor_asSrcToR_ok:
  assumes "tor_inv t" "unat (tor_id t) < N_TOR" "unat d < N_TOR"
    and "rs (p_route p) = src_route pre k s d post" "length post = 3"
    and "unat (p_nexthop p) = length pre" "length pre < 4294967288"
  shows "\<exists>t' c. c < N_CORE \<and> (\<forall>j < N_CORE. CongToLeaf t ! unat d ! c \<le> CongToLeaf t ! unat d ! j) \<and>
    tor_asSrcToR t r rs p = Some (t',
      rs(p_route p := src_route pre c (unat (tor_id t)) d post),
      p\<lparr>p_vxlan := \<lparr>vx_src = tor_id t, vx_dst = d, vx_lbtag = of_nat c, vx_ce = 0,
        vx_fb_lbtag = nxtLbTag t ! unat d,
        vx_fb_ce = CongFromLeaf t ! unat d ! unat (nxtLbTag t ! unat d)\<rparr>\<rparr>,
      [Traffic PKT_TOR_SRC p]) \<and>
    tor_inv t' \<and> tor_id t' = tor_id t \<and> CongToLeaf t' = CongToLeaf t \<and>
    CongFromLeaf t' = CongFromLeaf t \<and>
    unat (nxtLbTag t' ! unat d) = (unat (nxtLbTag t ! unat d) + 1) mod N_CORE"
proof -
  let ?R = "src_route pre k s d post"
  have l: "length ?R = length pre + 8" using assms(5) by (simp add: src_route_def)
  have "?R ! (length ?R - 4) = SToR d"
    using assms(5) by (simp add: src_route_def nth_append)
  then have at: "vec_at ?R (length ?R - 4) = Some (SToR d)" using l by simp
  obtain c where c: "minCongestedCore t (unat d) r = Some c" "c < N_CORE"
      "\<forall>j < N_CORE. CongToLeaf t ! unat d ! c \<le> CongToLeaf t ! unat d ! j"
    using minCongestedCore_spec [OF assms(1,3)] by blast
  have i: "table_ok (CongFromLeaf t)" "length (nxtLbTag t) = N_TOR"
      "\<forall>x \<in> set (nxtLbTag t). unat x < N_CORE"
    using assms(1) by (simp_all add: tor_inv_def)
  then have fb: "unat (nxtLbTag t ! unat d) < N_CORE" using assms(3) by simp
  obtain t' where t': "updateNxtLbTag t (unat d) = Some t'" "tor_inv t'" "tor_id t' = tor_id t"
      "CongToLeaf t' = CongToLeaf t" "CongFromLeaf t' = CongFromLeaf t"
      "unat (nxtLbTag t' ! unat d) = (unat (nxtLbTag t ! unat d) + 1) mod N_CORE"
    using updateNxtLbTag_ok [OF assms(1,3)] by blast
  let ?p = "p\<lparr>p_vxlan := \<lparr>vx_src = tor_id t, vx_dst = d, vx_lbtag = of_nat c, vx_ce = 0,
    vx_fb_lbtag = nxtLbTag t ! unat d,
    vx_fb_ce = CongFromLeaf t ! unat d ! unat (nxtLbTag t ! unat d)\<rparr>\<rparr>"
  have "congaRoute_updateRoute ?p c rs =
      Some (rs(p_route ?p := src_route pre c (unat (tor_id t)) d post))"
    using congaRoute_updateRoute_eq [of c ?p rs pre _ _ _ _ "[SToR d] @ post"] c(2) assms l
    by (simp add: src_route_def)
  then have "tor_asSrcToR t r rs p = Some (t',
      rs(p_route p := src_route pre c (unat (tor_id t)) d post), ?p, [Traffic PKT_TOR_SRC p])"
    using at c(1) cong_at_ok [OF i(1) assms(3) fb] t'(1) i(2) assms(3,4) l
    by (simp add: tor_asSrcToR_def as_tor_def Let_def)
  with c t' show ?thesis by blast
qed

section \<open>Measurements of a core\<close>





lemma core_base_with [simp]: "core_queue_base (core_with_base q b) = b"
  by (simp add: core_queue_base_def core_with_base_def queue.defs)

lemma core_with_base_fields [simp]:
  "regCong (core_with_base q b) = regCong q" "q_maxsize (core_with_base q b) = q_maxsize b"
  "q_queuesize (core_with_base q b) = q_queuesize b"
  by (simp_all add: core_with_base_def queue.defs)

lemma core_queue_base_fields [simp]:
  "q_maxsize (core_queue_base q) = q_maxsize q" "q_queuesize (core_queue_base q) = q_queuesize q"
  "q_enqueued (core_queue_base q) = q_enqueued q"
  by (simp_all add: core_queue_base_def queue.defs)

lemma fits_core_base: "fits (core_queue_base q) p = fits q p"
  by (simp add: fits_def)



section \<open>Shared routes\<close>

lemma src_route_core:
  assumes "length pre + 2 < 4294967296"
  shows "src_route pre k s d post ! unat (of_nat (length pre + 2) :: u32) = QCoreToR k (unat d)"
proof -
  have "unat (of_nat (length pre + 2) :: u32) = length pre + 2"
    using assms by (simp only: unat_of_nat) simp
  then show ?thesis by (simp add: src_route_def nth_append)
qed

text \<open>The next \<open>n\<close> sinks a packet visits.\<close>

primrec hops :: "nat \<Rightarrow> 's routes \<Rightarrow> packet \<Rightarrow> 's list" where
  "hops 0 rs p = []"
| "hops (Suc n) rs p = (case sendOn rs p of None \<Rightarrow> [] | Some (s, p') \<Rightarrow> s # hops n rs p')"

lemma hops_take:
  assumes "unat (p_nexthop p) + n \<le> length (rs (p_route p))" "length (rs (p_route p)) < 4294967295"
  shows "hops n rs p = take n (drop (unat (p_nexthop p)) (rs (p_route p)))"
  using assms
proof (induction n arbitrary: p)
  case 0
  then show ?case by simp
next
  case (Suc n)
  let ?h = "unat (p_nexthop p)"
  have h: "?h < length (rs (p_route p))" "unat (p_nexthop p + 1) = Suc ?h"
    using Suc.prems unat_nexthop_add [of "p_nexthop p" 1] by simp_all
  then show ?case
    using Suc.IH [of "p\<lparr>p_nexthop := p_nexthop p + 1\<rparr>"] Suc.prems
    by (simp add: sendOn_def Cons_nth_drop_Suc [symmetric])
qed

section \<open>Properties\<close>

text \<open>
  C1: the measurement loop of CONGA. A packet that leaf \<open>a\<close> tagged with core \<open>k\<close> reaches leaf \<open>b\<close>
  with the congestion that core measured; the next packet \<open>b\<close> sends to \<open>a\<close> carries it back,
  whatever the cores it crosses write into \<open>ce\<close>, and \<open>a\<close> records it as the congestion of
  the path through \<open>k\<close> to \<open>b\<close>, and changes no other entry of the table it balances the load with.
\<close>

theorem congestion_feedback:
  assumes "tor_inv tA" "tor_inv tB" "unat (tor_id tA) < N_TOR" "unat (tor_id tB) < N_TOR"
    and "vx_src (p_vxlan p) = tor_id tA" "unat (vx_lbtag (p_vxlan p)) < N_CORE"
    and "unat (vx_fb_lbtag (p_vxlan p)) < N_CORE"
    and "tor_asDstToR tB p = Some (tB', as1)"
    and "rs (p_route r) = src_route pre c (unat (tor_id tB)) (tor_id tA) post" "length post = 3"
    and "unat (p_nexthop r) = length pre" "length pre < 4294967288"
    and "tor_asSrcToR tB' n rs r = Some (tB'', rs', r', as2)"
    and "p_vxlan r'' = (p_vxlan r')\<lparr>vx_ce := e\<rparr>"
    and "tor_asDstToR tA r'' = Some (tA', as3)"
  shows "CongToLeaf tA' ! unat (tor_id tB) ! unat (vx_lbtag (p_vxlan p)) = vx_ce (p_vxlan p) \<and>
    (\<forall>d j. (d, j) \<noteq> (unat (tor_id tB), unat (vx_lbtag (p_vxlan p))) \<longrightarrow>
      CongToLeaf tA' ! d ! j = CongToLeaf tA ! d ! j)"
proof -
  let ?a = "unat (tor_id tA)" and ?k = "vx_lbtag (p_vxlan p)"
  have a: "unat (vx_src (p_vxlan p)) < N_TOR" using assms(3,5) by simp
  have B: "table_ok (CongFromLeaf tB)" "length (nxtLbTag tB) = N_TOR"
    using assms(2) by (simp_all add: tor_inv_def)
  note d1 = tor_asDstToR_ok [OF assms(2) a assms(6,7) refl]
  have iB: "tor_inv tB'" by (rule tor_asDstToR_inv [OF assms(2) a assms(6,7) refl assms(8)])
  have B': "tor_id tB' = tor_id tB" "nxtLbTag tB' ! ?a = ?k"
      "CongFromLeaf tB' ! ?a ! unat ?k = vx_ce (p_vxlan p)"
    using d1 assms(3,5,8) B(2) table_set_at(1) [OF B(1) a assms(6)] by auto
  have idB: "unat (tor_id tB') < N_TOR" using assms(4) B' by simp
  obtain t c' where s: "c' < N_CORE" "tor_asSrcToR tB' n rs r = Some (t,
      rs(p_route r := src_route pre c' (unat (tor_id tB')) (tor_id tA) post),
      r\<lparr>p_vxlan := \<lparr>vx_src = tor_id tB', vx_dst = tor_id tA, vx_lbtag = of_nat c', vx_ce = 0,
        vx_fb_lbtag = nxtLbTag tB' ! ?a,
        vx_fb_ce = CongFromLeaf tB' ! ?a ! unat (nxtLbTag tB' ! ?a)\<rparr>\<rparr>, [Traffic PKT_TOR_SRC r])"
    using tor_asSrcToR_ok [where t = tB' and rs = rs and p = r and d = "tor_id tA" and r = n,
        OF iB idB assms(3,9-12)] by blast
  have c': "c' < N_CORE" "p_vxlan r' = \<lparr>vx_src = tor_id tB, vx_dst = tor_id tA,
      vx_lbtag = of_nat c', vx_ce = 0, vx_fb_lbtag = ?k, vx_fb_ce = vx_ce (p_vxlan p)\<rparr>"
    using s assms(13) B' by auto
  have v: "unat (vx_src (p_vxlan r'')) < N_TOR" "unat (vx_lbtag (p_vxlan r'')) < N_CORE"
      "unat (vx_fb_lbtag (p_vxlan r'')) < N_CORE"
    using c' assms(4,6,14) by (simp_all add: unat_of_nat N_CORE_def)
  have A: "table_ok (CongToLeaf tA)" using assms(1) by (simp add: tor_inv_def)
  show ?thesis
    using tor_asDstToR_ok [OF assms(1) v refl] table_set_at [OF A v(1,3)] assms(14,15) c' by auto
qed

definition ex_route :: "sink routes" where
  "ex_route = (\<lambda>_. src_route [] 0 1 0 [QToRServer 0 0, PToRServer 0 0, DataSnk 0])"

definition ex_data :: packet where
  "ex_data = pkt0\<lparr>p_vxlan := \<lparr>vx_src = 0, vx_dst = 1, vx_lbtag = 1, vx_ce = 37, vx_fb_lbtag = 0,
     vx_fb_ce = 0\<rparr>\<rparr>"

lemma ex_tor_inv: "tor_inv (mkToR i (replicate 8 r))" "tor_id (mkToR i rs) = i"
  using mkToR_inv [of "replicate 8 r" i] by (simp_all add: N_TOR_def mkToR_def)

lemma congestion_feedback_witness:
  "\<exists>tB' tB'' tA' rs' r' as1 as2 as3.
     tor_asDstToR (mkToR 1 (replicate 8 0)) ex_data = Some (tB', as1) \<and>
     tor_asSrcToR tB' 0 ex_route pkt0 = Some (tB'', rs', r', as2) \<and>
     tor_asDstToR (mkToR 0 (replicate 8 0)) (r'\<lparr>p_vxlan := (p_vxlan r')\<lparr>vx_ce := 5\<rparr>\<rparr>) = Some (tA', as3) \<and>
     CongToLeaf tA' ! 1 ! 1 = 37"
proof -
  let ?A = "mkToR 0 (replicate 8 0)" and ?B = "mkToR 1 (replicate 8 0)" and ?v = "p_vxlan ex_data"
  note i = ex_tor_inv(1) [of _ 0]
  have v: "unat (vx_src ?v) < N_TOR" "unat (vx_lbtag ?v) < N_CORE" "unat (vx_fb_lbtag ?v) < N_CORE"
    by (simp_all add: ex_data_def pkt0_def N_TOR_def N_CORE_def)
  obtain tB' as1 where d1: "tor_asDstToR ?B ex_data = Some (tB', as1)" "tor_id tB' = 1"
    using tor_asDstToR_ok [OF i(1) v refl] by (simp add: ex_tor_inv)
  have iB: "tor_inv tB'" by (rule tor_asDstToR_inv [OF i(1) v refl d1(1)])
  have rt: "ex_route (p_route pkt0) = src_route [] 0 1 0 [QToRServer 0 0, PToRServer 0 0, DataSnk 0]"
    by (simp add: ex_route_def)
  obtain tB'' rs' r' as2 where s: "tor_asSrcToR tB' 0 ex_route pkt0 = Some (tB'', rs', r', as2)"
      "vx_src (p_vxlan r') = 1" "unat (vx_lbtag (p_vxlan r')) < N_CORE"
      "unat (vx_fb_lbtag (p_vxlan r')) < N_CORE"
    using tor_asSrcToR_ok [where rs = ex_route and p = pkt0 and d = 0 and r = 0, OF iB _ _ rt] d1(2) iB
    by (force simp: tor_inv_def N_TOR_def pkt0_def N_CORE_def unat_of_nat)
  obtain tA' as3 where d2:
      "tor_asDstToR ?A (r'\<lparr>p_vxlan := (p_vxlan r')\<lparr>vx_ce := 5\<rparr>\<rparr>) = Some (tA', as3)"
    using tor_asDstToR_ok [OF i(1) _ _ _ refl, of "r'\<lparr>p_vxlan := (p_vxlan r')\<lparr>vx_ce := 5\<rparr>\<rparr>"] s(2-4)
    by (simp add: N_TOR_def)
  have "CongToLeaf tA' ! 1 ! 1 = 37"
    using congestion_feedback [OF i(1) i(1) _ _ _ v(2,3) d1(1) _ _ _ _ s(1) _ d2, where e = 5 and c = 0
        and pre = "[]" and post = "[QToRServer 0 0, PToRServer 0 0, DataSnk 0]"] rt
    by (simp add: ex_tor_inv N_TOR_def pkt0_def ex_data_def)
  with d1 s d2 show ?thesis by blast
qed

text \<open>
  C2: the leaf of the sender (\<open>receivePacket\<close> of a packet that has not passed a core) never
  fails, sends the packet on, and the packet then crosses a core whose recorded congestion to
  the destination is the least of all cores, down to the destination's leaf.
\<close>

theorem least_congested_core:
  assumes "tor_inv t" "unat (tor_id t) < N_TOR" "unat d < N_TOR" "getFlag PASSED_CORE p = 0"
    and "rs (p_route p) = src_route pre k s d post" "length post = 3"
    and "unat (p_nexthop p) = length pre" "length pre < 4294967280"
  shows "\<exists>t' rs' as p' c. tor_receivePacket t r rs p = Some (t', rs', as) \<and> tor_inv t' \<and>
    sends as = [p'] \<and> c < N_CORE \<and> vx_lbtag (p_vxlan p') = of_nat c \<and>
    (\<forall>j < N_CORE. CongToLeaf t ! unat d ! c \<le> CongToLeaf t ! unat d ! j) \<and>
    hops 5 rs' p' = [QToRCore c (unat (tor_id t)), PToRCore c (unat (tor_id t)),
      QCoreToR c (unat d), PCoreToR c (unat d), SToR d]"
proof -
  obtain t' c where c: "c < N_CORE"
      "\<forall>j < N_CORE. CongToLeaf t ! unat d ! c \<le> CongToLeaf t ! unat d ! j"
    and s: "tor_asSrcToR t r rs p = Some (t',
      rs(p_route p := src_route pre c (unat (tor_id t)) d post),
      p\<lparr>p_vxlan := \<lparr>vx_src = tor_id t, vx_dst = d, vx_lbtag = of_nat c, vx_ce = 0,
        vx_fb_lbtag = nxtLbTag t ! unat d,
        vx_fb_ce = CongFromLeaf t ! unat d ! unat (nxtLbTag t ! unat d)\<rparr>\<rparr>,
      [Traffic PKT_TOR_SRC p])" "tor_inv t'"
    using tor_asSrcToR_ok [where rs = rs and p = p and r = r, OF assms(1-3,5-7)] assms(8) by force
  show ?thesis
    using c s assms(4,6,7,8) by (auto simp: tor_receivePacket_def hops_take src_route_def
        intro!: exI [of _ c])
qed

lemma least_congested_core_witness:
  "\<exists>t' rs' as p' c. tor_receivePacket (mkToR 1 (replicate 8 0)) 3 ex_route pkt0 = Some (t', rs', as) \<and>
    sends as = [p'] \<and> c < N_CORE \<and>
    hops 5 rs' p' = [QToRCore c 1, PToRCore c 1, QCoreToR c 0, PCoreToR c 0, SToR 0]"
  using least_congested_core [OF ex_tor_inv(1) [of 1 0], where d = 0 and p = pkt0 and rs = ex_route
      and r = 3 and pre = "[]" and k = 0 and s = 1 and post = "[QToRServer 0 0, PToRServer 0 0, DataSnk 0]"]
  by (force simp: ex_tor_inv N_TOR_def pkt0_def ex_route_def getFlag_def)

text \<open>
  C21: routes are shared. The rerouting of one packet also moves the packets of its flow that
  are on the way to the core they were tagged with: a packet in the pipe to its core is handed
  to the egress queue of the core chosen for the later packet, although its own tag is kept.
\<close>

theorem in_flight_rerouted:
  assumes "tor_inv t" "unat (tor_id t) < N_TOR" "unat d < N_TOR"
    and "rs (p_route p) = src_route pre k s d post" "length post = 3"
    and "unat (p_nexthop p) = length pre" "length pre < 4294967280"
    and "p_route q = p_route p" "p_nexthop q = of_nat (length pre + 2)"
    and "tor_asSrcToR t r rs p = Some (t', rs', p', as)"
  shows "\<exists>c < N_CORE. vx_lbtag (p_vxlan p') = of_nat c \<and>
    sendOn rs' q = Some (QCoreToR c (unat d), q\<lparr>p_nexthop := p_nexthop q + 1\<rparr>)"
proof -
  have l: "unat (p_nexthop q) = length pre + 2"
    using assms(7,9) by (simp only: unat_of_nat) simp
  obtain c where "c < N_CORE" "p' = p\<lparr>p_vxlan := \<lparr>vx_src = tor_id t, vx_dst = d,
        vx_lbtag = of_nat c, vx_ce = 0, vx_fb_lbtag = nxtLbTag t ! unat d,
        vx_fb_ce = CongFromLeaf t ! unat d ! unat (nxtLbTag t ! unat d)\<rparr>\<rparr>"
      "rs' = rs(p_route p := src_route pre c (unat (tor_id t)) d post)"
    using tor_asSrcToR_ok [where rs = rs and p = p and r = r, OF assms(1-6)] assms(7,10) by force
  then show ?thesis
    using assms(8) l by (auto simp: sendOn_def src_route_def nth_append intro!: exI [of _ c])
qed

text \<open>The packet tagged with core 0 is sent through the egress queue of core 1.\<close>

lemma in_flight_rerouted_witness:
  "\<exists>t' rs' p' as q'. tor_asSrcToR (mkToR 1 (replicate 8 0)) 1 ex_route pkt0 = Some (t', rs', p', as) \<and>
    vx_lbtag (p_vxlan (pkt0\<lparr>p_nexthop := 2\<rparr>)) = 0 \<and>
    sendOn rs' (pkt0\<lparr>p_nexthop := 2\<rparr>) = Some (QCoreToR 1 0, q')"
proof -
  have e: "ex_route (p_route pkt0) = src_route [] 0 1 0 [QToRServer 0 0, PToRServer 0 0, DataSnk 0]"
    by (simp add: ex_route_def)
  have "map_option (\<lambda>(t', rs', p', as). vx_lbtag (p_vxlan p'))
      (tor_asSrcToR (mkToR 1 (replicate 8 0)) 1 ex_route pkt0) = Some 1"
    by code_simp
  then obtain t' rs' p' as where s:
      "tor_asSrcToR (mkToR 1 (replicate 8 0)) 1 ex_route pkt0 = Some (t', rs', p', as)"
      "vx_lbtag (p_vxlan p') = 1" by auto
  obtain c where c: "c < N_CORE" "vx_lbtag (p_vxlan p') = of_nat c"
      "sendOn rs' (pkt0\<lparr>p_nexthop := 2\<rparr>) = Some (QCoreToR c 0, pkt0\<lparr>p_nexthop := 3\<rparr>)"
    using in_flight_rerouted [OF ex_tor_inv(1) _ _ e _ _ _ _ _ s(1), of "pkt0\<lparr>p_nexthop := 2\<rparr>"]
    by (auto simp: ex_tor_inv N_TOR_def pkt0_def)
  have "c = 1" using c(1,2) s(2) by (cases "c = 0") (auto simp: N_CORE_def)
  then show ?thesis using s(1) c(3) by (auto simp: pkt0_def)
qed



end
