(* ===== verification/Endpoint.thy ===== *)
theory Endpoint
  imports Network
begin

text \<open>
  \<open>datasource.h\<close>, \<open>datasource.cpp\<close> and the part of the world an end host operates on: the
  current time of the event list, the packet pools and the static members of \<open>TcpSrc\<close> and
  \<open>TcpSink\<close>. The pools hold the freed objects; \<open>w_fresh\<close> is what \<open>new P()\<close> returns.
\<close>

section \<open>The world of an end host\<close>

record world =
  w_now :: u64
  w_fresh :: packet
  w_datadb :: "packet list"
  w_ackdb :: "packet list"
  w_dctcp :: bool
  w_src_slacks :: "u64 \<rightharpoonup> u64"
  w_src_total :: u64
  w_sink_slacks :: "u64 \<rightharpoonup> u64"
  w_sink_total :: u64

text \<open>The counting of a histogram: \<open>if (find(k) == end()) m[k] = 1; else m[k] += 1;\<close>.\<close>

definition hist_add :: "u64 \<Rightarrow> (u64 \<rightharpoonup> u64) \<Rightarrow> (u64 \<rightharpoonup> u64)" where
  "hist_add k m = (case m k of None \<Rightarrow> m(k \<mapsto> 1) | Some n \<Rightarrow> m(k \<mapsto> n + 1))"

section \<open>Data sources\<close>

record data_source =
  src_id :: u32
  src_flowsize :: u64
  src_duration :: u64
  src_start_time :: u64
  src_deadline :: u64
  src_packets_sent :: u64
  src_highest_sent :: u64
  src_last_acked :: u64
  src_enable_deadline :: bool
  src_flowgen :: bool
  src_flow :: packet_flow
  src_route_fwd :: nat
  src_route_rev :: nat
  src_sink :: u32
  src_node_id :: u32

text \<open>
  The constructor. What it leaves uninitialised, the routes, the sink and the node, is an
  argument; a pointer to the flow generator is whether it is non-null. The source takes the id \<open>i\<close> from
  the counter of \<open>Logged\<close> and its member \<open>_flow\<close>, which is \<open>Logged\<close> too, the next one; \<open>connect\<close> replaces
  the id of the flow by that of the source.
\<close>

definition mkDataSource ::
  "u32 \<Rightarrow> bool \<Rightarrow> u64 \<Rightarrow> u64 \<Rightarrow> nat \<Rightarrow> nat \<Rightarrow> u32 \<Rightarrow> u32 \<Rightarrow> data_source" where
  "mkDataSource i logger flowsize duration fwd0 rev0 sink0 node0 =
     \<lparr>src_id = i, src_flowsize = flowsize, src_duration = duration, src_start_time = 0,
      src_deadline = 0, src_packets_sent = 0, src_highest_sent = 0, src_last_acked = 0,
      src_enable_deadline = False, src_flowgen = False,
      src_flow = mkPacketFlow (i + 1) logger,
      src_route_fwd = fwd0, src_route_rev = rev0, src_sink = sink0, src_node_id = node0\<rparr>"

definition setFlowGenerator :: "bool \<Rightarrow> 'a data_source_scheme \<Rightarrow> 'a data_source_scheme" where
  "setFlowGenerator flowgen s = s\<lparr>src_flowgen := flowgen\<rparr>"

definition setDeadline :: "u64 \<Rightarrow> 'a data_source_scheme \<Rightarrow> 'a data_source_scheme" where
  "setDeadline deadline s = s\<lparr>src_deadline := deadline\<rparr>"

definition source_connect ::
  "u64 \<Rightarrow> nat \<Rightarrow> nat \<Rightarrow> u32 \<Rightarrow> 'a data_source_scheme \<Rightarrow> 'a data_source_scheme \<times> action list" where
  "source_connect start_time route_fwd route_rev sink s =
     (let s = s\<lparr>src_route_fwd := route_fwd, src_route_rev := route_rev\<rparr>;
          s = s\<lparr>src_start_time := start_time\<rparr>;
          s = s\<lparr>src_sink := sink\<rparr>;
          s = s\<lparr>src_flow := (src_flow s)\<lparr>f_id := src_id s\<rparr>\<rparr>
      in (s, [SinkConnect, SchedAt (src_start_time s)]))"

text \<open>Allocating a data packet of the source's flow and freeing a received acknowledgement.\<close>

definition source_newpkt ::
  "u64 \<Rightarrow> int \<Rightarrow> world \<Rightarrow> 'a data_source_scheme \<Rightarrow> packet \<times> world \<times> 'a data_source_scheme" where
  "source_newpkt sq sz w s =
     (let (p, db, flow) = newDataPacket (w_fresh w) (w_datadb w) (src_flow s) (src_route_fwd s) sq sz
      in (p, w\<lparr>w_datadb := db\<rparr>, s\<lparr>src_flow := flow\<rparr>))"

definition source_free_ack ::
  "packet \<Rightarrow> world \<Rightarrow> 'a data_source_scheme \<Rightarrow> world \<times> 'a data_source_scheme" where
  "source_free_ack p w s =
     (let (db, flow) = pkt_free (w_ackdb w) (src_flow s) p
      in (w\<lparr>w_ackdb := db\<rparr>, s\<lparr>src_flow := flow\<rparr>))"

text \<open>A world for the examples, one millisecond after the start.\<close>

definition ex_world :: world where
  "ex_world = \<lparr>w_now = 1000000000, w_fresh = pkt0, w_datadb = [], w_ackdb = [], w_dctcp = False,
     w_src_slacks = Map.empty, w_src_total = 0, w_sink_slacks = Map.empty, w_sink_total = 0\<rparr>"

section \<open>Lemmas\<close>

lemma source_newpkt_fields:
  assumes "source_newpkt sq sz w s = (p, w', s')"
  shows "p_class p = DataPacket sq (ts (p_class p))" "p_size p = word_of_int sz"
    "p_flow p = f_id (src_flow s)" "p_route p = src_route_fwd s" "p_nexthop p = 0"
    "getFlag PASSED_CORE p = 0"
    "s' = s\<lparr>src_flow := (src_flow s)\<lparr>f_nPackets := f_nPackets (src_flow s) + 1\<rparr>\<rparr>"
    "w' = w\<lparr>w_datadb := w_datadb w'\<rparr>"
  using assms
  by (auto simp: source_newpkt_def newDataPacket_def packet_set_def unsetFlag_def Let_def
      getFlag_bit bit_simps split: prod.splits)

lemma source_free_ack_eq:
  "source_free_ack p w s = (w\<lparr>w_ackdb := w_ackdb w @ [p]\<rparr>,
     s\<lparr>src_flow := (src_flow s)\<lparr>f_nPackets := f_nPackets (src_flow s) - 1\<rparr>\<rparr>)"
  by (simp add: source_free_ack_def pkt_free_def freePacket_def)

text \<open>
  The sequence numbers an operation sends, and what makes a packet a segment of the flow of
  \<open>s\<close>: a whole data packet, on the flow's route and stamped with the current time.
\<close>

definition sent_seqs :: "action list \<Rightarrow> u64 list" where
  "sent_seqs as = map (\<lambda>p. seqno (p_class p)) (sends as)"

definition own_segment :: "world \<Rightarrow> 'a data_source_scheme \<Rightarrow> packet \<Rightarrow> bool" where
  "own_segment w s p \<longleftrightarrow> p_size p = MSS64 \<and> p_flow p = f_id (src_flow s) \<and>
     p_route p = src_route_fwd s \<and> p_nexthop p = 0 \<and>
     p_class p = DataPacket (seqno (p_class p)) (w_now w)"

lemma sent_seqs_simps [simp]: "sent_seqs [] = []" "sent_seqs (as @ bs) = sent_seqs as @ sent_seqs bs"
  "sent_seqs (SendOn p # as) = seqno (p_class p) # sent_seqs as"
  "sent_seqs (SchedRel t # as) = sent_seqs as" "sent_seqs (Traffic ev p # as) = sent_seqs as"
  by (simp_all add: sent_seqs_def)

lemma own_segment_same:
  "p_class q = p_class p \<Longrightarrow> p_size q = p_size p \<Longrightarrow> p_flow q = p_flow p \<Longrightarrow> p_route q = p_route p \<Longrightarrow>
     p_nexthop q = p_nexthop p \<Longrightarrow> own_segment w s q = own_segment w s p"
  by (simp add: own_segment_def)

lemma fresh_segment:
  assumes "source_newpkt sq MSS_BYTES w s = (p, w', s')"
  shows "w_now w' = w_now w" "p_class (set_ts (w_now w) p) = DataPacket sq (w_now w)"
    "own_segment w s (set_ts (w_now w) p)"
    "s' = s\<lparr>src_flow := (src_flow s)\<lparr>f_nPackets := f_nPackets (src_flow s) + 1\<rparr>\<rparr>"
proof -
  note f = source_newpkt_fields [OF assms]
  show "w_now w' = w_now w"
    using f(8) by (metis world.select_convs(1) world.surjective world.update_convs(3))
  show c: "p_class (set_ts (w_now w) p) = DataPacket sq (w_now w)"
    using f(1) by (cases "p_class p") (auto simp: set_ts_def)
  have "p_size (set_ts t p) = p_size p" "p_flow (set_ts t p) = p_flow p" "p_route (set_ts t p) = p_route p"
    "p_nexthop (set_ts t p) = p_nexthop p" for t
    by (simp_all add: set_ts_def)
  then show "own_segment w s (set_ts (w_now w) p)"
    unfolding own_segment_def c using f by simp
  show "s' = s\<lparr>src_flow := (src_flow s)\<lparr>f_nPackets := f_nPackets (src_flow s) + 1\<rparr>\<rparr>" by (rule f(7))
qed

text \<open>A histogram counts: after \<open>n\<close> samples of \<open>k\<close> its entry is \<open>n\<close>, while it does not wrap.\<close>

lemma hist_add_count:
  "n < 18446744073709551616 \<Longrightarrow>
     (hist_add k ^^ n) Map.empty = (if n = 0 then Map.empty else [k \<mapsto> of_nat n])"
proof (induction n)
  case (Suc n)
  then show ?case by (auto simp: hist_add_def)
qed simp

end
