(* ===== verification/Tcp.thy ===== *)
theory Tcp
  imports Endpoint
begin

text \<open>
  \<open>tcp.h\<close> and \<open>tcp.cpp\<close>, the sender \<open>TcpSrc\<close>: New Reno with an optional DCTCP window. An
  operation maps the world and the sender to both after the call and the calls it makes. The
  loop of \<open>sendPackets\<close> is a partial function, because it need not end when the sequence
  numbers wrap; division by zero and a null flow generator are \<open>None\<close> as well.
\<close>

section \<open>State\<close>

datatype flow_status = IDLE | SLOW_START | CONG_AVOID | FAST_RECOV | FINISH

record tcp_src = data_source +
  t_state :: flow_status
  t_ssthresh :: u32
  t_cwnd :: u32
  t_recover_seq :: u64
  t_dupacks :: u16
  t_drops :: u32
  t_rtt :: u64
  t_rto :: u64
  t_mdev :: u64
  t_RTO_timeout :: u64
  t_alpha :: rat
  t_marked_pkts :: u32
  t_total_pkts :: u32
  t_dctcp_cwnd :: u64
  t_logger :: bool

definition DCTCP_GAIN :: rat where "DCTCP_GAIN = 625 / 10000"

text \<open>The constructor; its parameter \<open>flowsize\<close> has 32 bits.\<close>

definition mkTcpSrc :: "data_source \<Rightarrow> bool \<Rightarrow> u32 \<Rightarrow> u64 \<Rightarrow> tcp_src" where
  "mkTcpSrc base logger flowsize duration =
     data_source.extend (base\<lparr>src_flowsize := ucast flowsize, src_duration := duration\<rparr>)
       \<lparr>t_state = IDLE, t_ssthresh = 0xffffffff, t_cwnd = 0, t_recover_seq = 0, t_dupacks = 0,
        t_drops = 0, t_rtt = 0, t_rto = timeFromUs (of_int INIT_RTO_US), t_mdev = 0,
        t_RTO_timeout = 0, t_alpha = 0, t_marked_pkts = 0, t_total_pkts = 0, t_dctcp_cwnd = 0,
        t_logger = logger\<rparr>"

definition tcp_log :: "tcp_event \<Rightarrow> tcp_src \<Rightarrow> action list" where
  "tcp_log ev s = (if t_logger s
     then [TcpLog ev (t_cwnd s) (t_ssthresh s) (src_last_acked s) (src_highest_sent s)] else [])"

section \<open>The window\<close>

definition tcp_inflateWindow :: "tcp_src \<Rightarrow> tcp_src option" where
  "tcp_inflateWindow s =
     (let newly_acked = sint (ucast (src_last_acked s + ucast (t_cwnd s) - src_highest_sent s) :: u32)
      in if newly_acked < 0 then Some s
         else let newly_acked = (if newly_acked > MSS_BYTES then MSS_BYTES else newly_acked)
              in if t_cwnd s < t_ssthresh s
                 then Some (s\<lparr>t_cwnd := t_cwnd s + min (t_ssthresh s - t_cwnd s) (word_of_int newly_acked)\<rparr>)
                 else if t_cwnd s = 0 then None
                 else let increment = word_of_int (newly_acked * MSS_BYTES) div t_cwnd s;
                          increment = (if increment = 0 then 1 else increment)
                      in Some (s\<lparr>t_cwnd := t_cwnd s + increment\<rparr>))"

section \<open>Sending\<close>

text \<open>The deadline of a packet: the slack per remaining packet, counted and made the priority.\<close>

definition tcp_setDeadline :: "world \<Rightarrow> tcp_src \<Rightarrow> packet \<Rightarrow> world \<times> packet" where
  "tcp_setDeadline w s p =
     (let timeRemaining = (if src_deadline s > w_now w then src_deadline s - w_now w else 0);
          packetsRemaining = (src_flowsize s - src_highest_sent s) div MSS64 + 1;
          slack = timeRemaining div packetsRemaining;
          hist = slack div 1000000;
          w = w\<lparr>w_src_slacks := hist_add hist (w_src_slacks w)\<rparr>;
          w = w\<lparr>w_src_total := w_src_total w + 1\<rparr>;
          p = setFlag DEADLINE p;
          p = setPriority (word_of_int (llround (timeAsNs slack))) p
      in (w, p))"

text \<open>One round of the loop of \<open>sendPackets\<close>, up to the test that leaves it.\<close>

definition tcp_sendOne :: "world \<Rightarrow> tcp_src \<Rightarrow> world \<times> tcp_src \<times> action list" where
  "tcp_sendOne w s =
     (let (p, w, s) = source_newpkt (src_highest_sent s + 1) MSS_BYTES w s;
          as = [Traffic PKT_CREATESEND p];
          p = set_ts (w_now w) p;
          (w, p) = (if src_enable_deadline s then tcp_setDeadline w s p else (w, p));
          s = s\<lparr>src_highest_sent := src_highest_sent s + MSS64\<rparr>;
          s = s\<lparr>src_packets_sent := src_packets_sent s + MSS64\<rparr>;
          as = as @ [SendOn p];
          s = (if t_RTO_timeout s = 0 then s\<lparr>t_RTO_timeout := w_now w + t_rto s\<rparr> else s)
      in (w, s, as))"

definition tcp_window_open :: "tcp_src \<Rightarrow> bool" where
  "tcp_window_open s \<longleftrightarrow> src_last_acked s + ucast (t_cwnd s) \<ge> src_highest_sent s + MSS64"

definition tcp_flow_sent :: "tcp_src \<Rightarrow> bool" where
  "tcp_flow_sent s \<longleftrightarrow> src_flowsize s > 0 \<and> src_highest_sent s \<ge> src_flowsize s"

partial_function (option) tcp_sendLoop ::
  "world \<Rightarrow> tcp_src \<Rightarrow> action list \<Rightarrow> (world \<times> tcp_src \<times> action list) option" where
  "tcp_sendLoop w s as =
     (if tcp_window_open s
      then let r = tcp_sendOne w s; w' = fst r; s' = fst (snd r); as' = as @ snd (snd r)
           in if tcp_flow_sent s' then Some (w', s', as') else tcp_sendLoop w' s' as'
      else Some (w, s, as))"

definition tcp_sendPackets :: "world \<Rightarrow> tcp_src \<Rightarrow> (world \<times> tcp_src \<times> action list) option" where
  "tcp_sendPackets w s = (if tcp_flow_sent s then Some (w, s, []) else tcp_sendLoop w s [])"

definition tcp_retransmitPacket :: "world \<Rightarrow> tcp_src \<Rightarrow> world \<times> tcp_src \<times> action list" where
  "tcp_retransmitPacket w s =
     (let (p, w, s) = source_newpkt (src_last_acked s + 1) MSS_BYTES w s;
          as = [Traffic PKT_CREATESEND p];
          p = set_ts (w_now w) p;
          p = (if src_enable_deadline s then setPriority 0 (setFlag DEADLINE p) else p);
          s = s\<lparr>src_packets_sent := src_packets_sent s + MSS64\<rparr>;
          as = as @ [SendOn p];
          s = (if t_RTO_timeout s = 0 then s\<lparr>t_RTO_timeout := w_now w + t_rto s\<rparr> else s)
      in (w, s, as))"

section \<open>Timer events\<close>

text \<open>The state changes of a retransmission timeout, before the retransmission.\<close>

definition tcp_timeout :: "u64 \<Rightarrow> tcp_src \<Rightarrow> tcp_src" where
  "tcp_timeout now s =
     (let s = (if t_state s = FAST_RECOV
               then let flightsize = ucast (src_highest_sent s - src_last_acked s)
                    in s\<lparr>t_cwnd := min (t_ssthresh s) (flightsize + MSS32)\<rparr>
               else s);
          s = s\<lparr>t_ssthresh := max (t_cwnd s div 2) (word_of_int (MSS_BYTES * 2))\<rparr>;
          s = s\<lparr>t_cwnd := MSS32\<rparr>;
          s = s\<lparr>t_state := SLOW_START\<rparr>;
          s = s\<lparr>t_recover_seq := src_highest_sent s\<rparr>;
          s = s\<lparr>src_highest_sent := src_last_acked s + MSS64\<rparr>;
          s = s\<lparr>t_dupacks := 0\<rparr>;
          s = s\<lparr>t_rto := t_rto s * 2\<rparr>
      in s\<lparr>t_RTO_timeout := now + t_rto s\<rparr>)"

definition tcp_resched :: "tcp_src \<Rightarrow> action list" where
  "tcp_resched s = (if t_rtt s \<noteq> 0 then [SchedRel (t_rtt s)]
                    else [SchedRel (timeFromUs (of_int MIN_RTO_US))])"

definition tcp_doNextEvent :: "world \<Rightarrow> tcp_src \<Rightarrow> (world \<times> tcp_src \<times> action list) option" where
  "tcp_doNextEvent w s =
     (if t_state s = IDLE
      then let s = s\<lparr>t_state := SLOW_START\<rparr>;
               s = s\<lparr>t_cwnd := word_of_int (2 * MSS_BYTES)\<rparr>;
               s = s\<lparr>t_dctcp_cwnd := ucast (t_cwnd s)\<rparr>
           in do { (w, s, as) \<leftarrow> tcp_sendPackets w s; Some (w, s, as @ tcp_resched s) }
      else if t_state s = FINISH
      then if f_nPackets (src_flow s) = 0 then Some (w, s, [DeleteFlow])
           else Some (w, s, tcp_resched s)
      else if t_RTO_timeout s \<noteq> 0 \<and> w_now w \<ge> t_RTO_timeout s
      then let as = tcp_log TCP_TIMEOUT s;
               (w, s, bs) = tcp_retransmitPacket w (tcp_timeout (w_now w) s)
           in Some (w, s, as @ bs @ tcp_resched s)
      else Some (w, s, tcp_resched s))"

section \<open>Acknowledgements\<close>

definition tcp_flow_done :: "u64 \<Rightarrow> u64 \<Rightarrow> tcp_src \<Rightarrow> bool" where
  "tcp_flow_done now ack s \<longleftrightarrow>
     (src_flowsize s > 0 \<and> ack \<ge> src_flowsize s) \<or>
     (src_duration s > 0 \<and> now > src_start_time s + src_duration s)"

text \<open>The end of the flow. \<open>_flowgen->addFct\<close> is outside the test for a null pointer.\<close>

definition tcp_finish :: "u64 \<Rightarrow> tcp_src \<Rightarrow> (tcp_src \<times> action list) option" where
  "tcp_finish now s =
     (let as = (if src_flowgen s then [FinishFlow (src_id s)] else []);
          s = s\<lparr>t_state := FINISH\<rparr>
      in if src_flowgen s then Some (s, as @ [AddFct (timeAsUs (now - src_start_time s))]) else None)"

definition tcp_updateRtt :: "u64 \<Rightarrow> u64 \<Rightarrow> tcp_src \<Rightarrow> tcp_src" where
  "tcp_updateRtt now ts0 s =
     (let m = now - ts0
      in if m > 0
         then let s = (if t_rtt s > 0
                       then let a = (if m > t_rtt s then m - t_rtt s else t_rtt s - m);
                                s = s\<lparr>t_mdev := t_mdev s * 3 div 4 + a div 4\<rparr>
                            in s\<lparr>t_rtt := t_rtt s * 7 div 8 + m div 8\<rparr>
                       else s\<lparr>t_rtt := m, t_mdev := m div 2\<rparr>);
                  s = s\<lparr>t_rto := t_rtt s + 4 * t_mdev s\<rparr>
              in if t_rto s < timeFromUs (of_int MIN_RTO_US)
                 then s\<lparr>t_rto := timeFromUs (of_int MIN_RTO_US)\<rparr> else s
         else s)"

text \<open>\<open>_cwnd * (1 - _alpha / 2)\<close>, truncated to 32 bits.\<close>

definition dctcp_reduce :: "rat \<Rightarrow> u32 \<Rightarrow> u32" where
  "dctcp_reduce alpha cwnd =
     word_of_int (trunc_rat (dbl (dbl (of_nat (unat cwnd)) * dbl (1 - dbl (alpha / 2)))))"

definition dctcp_alpha :: "rat \<Rightarrow> u32 \<Rightarrow> u32 \<Rightarrow> rat" where
  "dctcp_alpha alpha marked tot =
     (let fractionMarked = dbl (dbl (of_nat (unat marked)) / dbl (of_nat (unat tot)))
      in dbl (dbl (alpha * dbl (1 - DCTCP_GAIN)) + dbl (fractionMarked * DCTCP_GAIN)))"

text \<open>Counting a packet; a mark in slow start ends it.\<close>

definition tcp_countMark :: "bool \<Rightarrow> tcp_src \<Rightarrow> tcp_src" where
  "tcp_countMark marked s =
     (let s = (if marked
               then let s = s\<lparr>t_marked_pkts := t_marked_pkts s + 1\<rparr>
                    in if t_state s = SLOW_START \<and> t_ssthresh s > t_cwnd s
                       then s\<lparr>t_state := CONG_AVOID, t_ssthresh := t_cwnd s\<rparr> else s
               else s)
      in s\<lparr>t_total_pkts := t_total_pkts s + 1\<rparr>)"

text \<open>The window cut by \<open>_alpha\<close>, and the whole update once a window of data is counted.\<close>

definition dctcp_window :: "rat \<Rightarrow> u32 \<Rightarrow> u32" where
  "dctcp_window alpha cwnd =
     (let cwnd = dctcp_reduce alpha cwnd in if cwnd < MSS32 then MSS32 else cwnd)"

definition tcp_updateAlpha :: "tcp_src \<Rightarrow> tcp_src" where
  "tcp_updateAlpha s =
     (let s = s\<lparr>t_alpha := dctcp_alpha (t_alpha s) (t_marked_pkts s) (t_total_pkts s)\<rparr>;
          s = s\<lparr>t_marked_pkts := 0, t_total_pkts := 0\<rparr>;
          s = (if t_alpha s > 0
               then let s = s\<lparr>t_cwnd := dctcp_window (t_alpha s) (t_cwnd s)\<rparr>
                    in s\<lparr>t_ssthresh := t_cwnd s\<rparr>
               else s)
      in if t_state s \<noteq> FAST_RECOV then s\<lparr>t_dctcp_cwnd := ucast (t_cwnd s)\<rparr>
         else s\<lparr>t_dctcp_cwnd := ucast (t_ssthresh s)\<rparr>)"

definition tcp_updateDctcp :: "bool \<Rightarrow> tcp_src \<Rightarrow> tcp_src" where
  "tcp_updateDctcp marked s =
     (let s = tcp_countMark marked s
      in if ucast (t_total_pkts s * MSS32) > t_dctcp_cwnd s then tcp_updateAlpha s else s)"

text \<open>A brand new acknowledgement, \<open>seqno > _last_acked\<close>; the model's \<open>ack\<close> is \<open>seqno\<close>.\<close>

definition tcp_rearm :: "u64 \<Rightarrow> u64 \<Rightarrow> tcp_src \<Rightarrow> tcp_src" where
  "tcp_rearm now ack s =
     (let s = s\<lparr>t_RTO_timeout := now + t_rto s\<rparr>
      in if ack = src_highest_sent s then s\<lparr>t_RTO_timeout := 0\<rparr> else s)"

definition tcp_leaveRecovery :: "u64 \<Rightarrow> tcp_src \<Rightarrow> tcp_src" where
  "tcp_leaveRecovery ack s =
     (let flightsize = ucast (src_highest_sent s - ack);
          s = s\<lparr>t_cwnd := min (t_ssthresh s) (flightsize + MSS32)\<rparr>
      in s\<lparr>src_last_acked := ack, t_dupacks := 0, t_state := CONG_AVOID\<rparr>)"

definition tcp_partialAck :: "u64 \<Rightarrow> tcp_src \<Rightarrow> tcp_src" where
  "tcp_partialAck ack s =
     (let new_data = ucast (ack - src_last_acked s);
          s = s\<lparr>src_last_acked := ack\<rparr>;
          s = (if new_data < t_cwnd s then s\<lparr>t_cwnd := t_cwnd s - new_data\<rparr> else s\<lparr>t_cwnd := 0\<rparr>)
      in s\<lparr>t_cwnd := t_cwnd s + MSS32\<rparr>)"

definition tcp_newAck ::
  "world \<Rightarrow> u64 \<Rightarrow> tcp_src \<Rightarrow> (world \<times> tcp_src \<times> action list) option" where
  "tcp_newAck w ack s =
     (let s = tcp_rearm (w_now w) ack s
      in if t_state s \<noteq> FAST_RECOV
         then do {
           s \<leftarrow> tcp_inflateWindow (s\<lparr>src_last_acked := ack, t_dupacks := 0\<rparr>);
           let as = tcp_log TCP_RCV s;
           (w, s, bs) \<leftarrow> tcp_sendPackets w s;
           Some (w, s, as @ bs)
         }
         else if ack \<ge> t_recover_seq s
         then do {
           let s = tcp_leaveRecovery ack s;
           let as = tcp_log TCP_RCV_FR_END s;
           (w, s, bs) \<leftarrow> tcp_sendPackets w s;
           Some (w, s, as @ bs)
         }
         else do {
           let s = tcp_partialAck ack s;
           let as = tcp_log TCP_RCV_FR s;
           let (w, s, bs) = tcp_retransmitPacket w s;
           (w, s, cs) \<leftarrow> tcp_sendPackets w s;
           Some (w, s, as @ bs @ cs)
         })"

text \<open>A duplicate acknowledgement.\<close>

definition tcp_enterRecovery :: "tcp_src \<Rightarrow> tcp_src" where
  "tcp_enterRecovery s =
     (let s = s\<lparr>t_drops := t_drops s + 1\<rparr>;
          s = s\<lparr>t_ssthresh := max (t_cwnd s div 2) (word_of_int (MSS_BYTES * 2))\<rparr>;
          s = s\<lparr>t_cwnd := t_ssthresh s + word_of_int (3 * MSS_BYTES)\<rparr>
      in s\<lparr>t_state := FAST_RECOV, t_recover_seq := src_highest_sent s\<rparr>)"

definition tcp_dupAck :: "world \<Rightarrow> tcp_src \<Rightarrow> (world \<times> tcp_src \<times> action list) option" where
  "tcp_dupAck w s =
     (if t_state s = FAST_RECOV
      then do {
        let s = s\<lparr>t_cwnd := t_cwnd s + MSS32\<rparr>;
        let as = tcp_log TCP_RCV_DUP_FR s;
        (w, s, bs) \<leftarrow> tcp_sendPackets w s;
        Some (w, s, as @ bs)
      }
      else let s = s\<lparr>t_dupacks := t_dupacks s + 1\<rparr>
           in if t_dupacks s \<noteq> 3
              then do {
                let as = tcp_log TCP_RCV_DUP s;
                (w, s, bs) \<leftarrow> tcp_sendPackets w s;
                Some (w, s, as @ bs)
              }
              else if src_last_acked s < t_recover_seq s
              then Some (w, s, tcp_log TCP_RCV_3DUPNOFR s)
              else let (w, s, as) = tcp_retransmitPacket w (tcp_enterRecovery s)
                   in Some (w, s, as @ tcp_log TCP_RCV_DUP_FASTXMIT s))"

text \<open>
  The handler. The packet is a \<open>DataAck\<close>; its flags are read after it has been freed, which
  only puts the object on the pool's stack.
\<close>

definition tcp_receiveAck ::
  "world \<Rightarrow> tcp_src \<Rightarrow> packet \<Rightarrow> u64 \<Rightarrow> u64 \<Rightarrow> (world \<times> tcp_src \<times> action list) option" where
  "tcp_receiveAck w s pkt ack ts0 =
     (let as = [Traffic PKT_RCVDESTROY pkt];
          (w, s) = source_free_ack pkt w s
      in if t_state s = FINISH then Some (w, s, as)
         else if tcp_flow_done (w_now w) ack s
         then do { (s, bs) \<leftarrow> tcp_finish (w_now w) s; Some (w, s, as @ bs) }
         else if ack < src_last_acked s then Some (w, s, as)
         else let s = tcp_updateRtt (w_now w) ts0 s;
                  s = (if w_dctcp w then tcp_updateDctcp (getFlag ECN_REV pkt \<noteq> 0) s else s)
              in do {
                (w, s, bs) \<leftarrow> (if ack > src_last_acked s then tcp_newAck w ack s else tcp_dupAck w s);
                Some (w, s, as @ bs)
              })"

definition tcp_receivePacket ::
  "world \<Rightarrow> tcp_src \<Rightarrow> packet \<Rightarrow> (world \<times> tcp_src \<times> action list) option" where
  "tcp_receivePacket w s pkt =
     (case p_class pkt of
        DataAck _ ack ts0 \<Rightarrow> tcp_receiveAck w s pkt ack ts0
      | DataPacket _ _ \<Rightarrow> None)"

end
