(* ===== verification/TcpSend.thy ===== *)
theory TcpSend
  imports Tcp
begin

text \<open>
  Sending in \<open>tcp.cpp\<close>: the loop of \<open>sendPackets\<close> ends while the sequence numbers do not wrap,
  and it sends consecutive segments up to the edge of the window; no operation below the
  handlers changes what the others rely on.
\<close>

section \<open>One packet\<close>

lemma tcp_log_sends [simp]:
  "sent_seqs (tcp_log ev s) = []" "sends (tcp_log ev s) = []" "scheds (tcp_log ev s) = []"
  by (simp_all add: sent_seqs_def tcp_log_def)

text \<open>The sender after \<open>n\<close> rounds of the loop.\<close>

definition tcp_advance :: "u64 \<Rightarrow> nat \<Rightarrow> tcp_src \<Rightarrow> tcp_src" where
  "tcp_advance now n s = s\<lparr>src_highest_sent := src_highest_sent s + of_nat n * MSS64,
     src_packets_sent := src_packets_sent s + of_nat n * MSS64,
     src_flow := (src_flow s)\<lparr>f_nPackets := f_nPackets (src_flow s) + of_nat n\<rparr>,
     t_RTO_timeout := (if 0 < n \<and> t_RTO_timeout s = 0 then now + t_rto s else t_RTO_timeout s)\<rparr>"

lemma tcp_advance_0 [simp]: "tcp_advance now 0 s = s"
  by (simp add: tcp_advance_def)

lemma tcp_advance_Suc: "tcp_advance now n (tcp_advance now 1 s) = tcp_advance now (Suc n) s"
  by (simp add: tcp_advance_def algebra_simps)

lemma tcp_advance_fields [simp]:
  "src_last_acked (tcp_advance now n s) = src_last_acked s"
  "src_flowsize (tcp_advance now n s) = src_flowsize s"
  "t_cwnd (tcp_advance now n s) = t_cwnd s" "t_ssthresh (tcp_advance now n s) = t_ssthresh s"
  "t_state (tcp_advance now n s) = t_state s" "t_alpha (tcp_advance now n s) = t_alpha s"
  "t_rto (tcp_advance now n s) = t_rto s" "t_rtt (tcp_advance now n s) = t_rtt s"
  "t_recover_seq (tcp_advance now n s) = t_recover_seq s"
  "t_dupacks (tcp_advance now n s) = t_dupacks s"
  "t_dctcp_cwnd (tcp_advance now n s) = t_dctcp_cwnd s"
  "f_id (src_flow (tcp_advance now n s)) = f_id (src_flow s)"
  "src_route_fwd (tcp_advance now n s) = src_route_fwd s"
  by (simp_all add: tcp_advance_def)

lemma tcp_setDeadline_fields:
  assumes "tcp_setDeadline w s p = (w', p')"
  shows "w_now w' = w_now w" "p_class p' = p_class p" "p_size p' = p_size p" "p_flow p' = p_flow p"
    "p_route p' = p_route p" "p_nexthop p' = p_nexthop p"
  using assms by (auto simp: tcp_setDeadline_def setPriority_def Let_def)

lemma tcp_sendOne_spec:
  assumes "tcp_sendOne w s = (w', s', as)"
  shows "s' = tcp_advance (w_now w) 1 s" "w_now w' = w_now w"
    "sent_seqs as = [src_highest_sent s + 1]" "\<forall>p \<in> set (sends as). own_segment w s p"
    "scheds as = []" "frees as = []"
proof -
  obtain p w1 s1 where n: "source_newpkt (src_highest_sent s + 1) MSS_BYTES w s = (p, w1, s1)"
    by (cases "source_newpkt (src_highest_sent s + 1) MSS_BYTES w s") auto
  note f = fresh_segment [OF n]
  have w1: "w_now w1 = w_now w" by (rule f(1))
  let ?p = "set_ts (w_now w1) p"
  obtain w2 p2 where d: "(if src_enable_deadline s1 then tcp_setDeadline w1 s1 ?p else (w1, ?p)) = (w2, p2)"
    by (cases "if src_enable_deadline s1 then tcp_setDeadline w1 s1 ?p else (w1, ?p)") auto
  have d': "w_now w2 = w_now w1" "p_class p2 = p_class ?p" "p_size p2 = p_size ?p"
      "p_flow p2 = p_flow ?p" "p_route p2 = p_route ?p" "p_nexthop p2 = p_nexthop ?p"
    using d tcp_setDeadline_fields by (auto split: if_splits)
  have c: "p_class ?p = DataPacket (src_highest_sent s + 1) (w_now w)" using f(2) w1 by simp
  have r: "w' = w2" "as = [Traffic PKT_CREATESEND p, SendOn p2]" "s' = tcp_advance (w_now w) 1 s"
    using assms n d f(4) d'(1) w1 by (auto simp: tcp_sendOne_def tcp_advance_def Let_def)
  then show "s' = tcp_advance (w_now w) 1 s" "w_now w' = w_now w"
      "sent_seqs as = [src_highest_sent s + 1]" "scheds as = []" "frees as = []"
    using d' c w1 by (simp_all add: sent_seqs_def)
  show "\<forall>p \<in> set (sends as). own_segment w s p"
    using r own_segment_same [OF d'(2-6), of w s] f(3) w1 by simp
qed

section \<open>The loop\<close>

lemma tcp_window_open_iff:
  assumes "unat (src_last_acked s) + unat (t_cwnd s) < 18446744073709551616"
    "unat (src_highest_sent s) + 1500 < 18446744073709551616"
  shows "tcp_window_open s \<longleftrightarrow>
    unat (src_highest_sent s) + 1500 \<le> unat (src_last_acked s) + unat (t_cwnd s)"
proof -
  show ?thesis
    using assms unat_add_64 [of "src_last_acked s" "ucast (t_cwnd s)"] unat_add_64 [of "src_highest_sent s" MSS64]
    by (simp add: tcp_window_open_def word_le_nat_alt)
qed

lemma tcp_sendLoop_spec:
  assumes "unat (src_last_acked s) + unat (t_cwnd s) + 1500 < 18446744073709551616"
    "unat (src_highest_sent s) + 1500 < 18446744073709551616"
  shows "\<exists>n w' as. tcp_sendLoop w s as0 = Some (w', tcp_advance (w_now w) n s, as0 @ as) \<and>
    w_now w' = w_now w \<and>
    sent_seqs as = map (\<lambda>i. src_highest_sent s + of_nat i * MSS64 + 1) [0..<n] \<and>
    (\<forall>p \<in> set (sends as). own_segment w s p) \<and> scheds as = [] \<and> frees as = [] \<and>
    unat (src_highest_sent (tcp_advance (w_now w) n s)) = unat (src_highest_sent s) + n * 1500 \<and>
    (0 < n \<longrightarrow> unat (src_highest_sent s) + n * 1500 \<le> unat (src_last_acked s) + unat (t_cwnd s)) \<and>
    (tcp_flow_sent (tcp_advance (w_now w) n s) \<or> \<not> tcp_window_open (tcp_advance (w_now w) n s))"
  using assms
proof (induction "unat (src_last_acked s) + unat (t_cwnd s) - unat (src_highest_sent s)"
    arbitrary: w s as0 rule: less_induct)
  case less
  note w = tcp_window_open_iff [of s]
  show ?case
  proof (cases "tcp_window_open s")
    case False
    have "tcp_sendLoop w s as0 = Some (w, s, as0)"
      using False by (subst tcp_sendLoop.simps) simp
    then show ?thesis using False
      by (intro exI [of _ 0] exI [of _ w] exI [of _ "[]"]) simp
  next
    case True
    then have le: "unat (src_highest_sent s) + 1500 \<le> unat (src_last_acked s) + unat (t_cwnd s)"
      using w less.prems by simp
    obtain w1 s1 as1 where one: "tcp_sendOne w s = (w1, s1, as1)" by (cases "tcp_sendOne w s") auto
    note f = tcp_sendOne_spec [OF one]
    have hs: "src_highest_sent s1 = src_highest_sent s + MSS64"
      "unat (src_highest_sent s1) = unat (src_highest_sent s) + 1500"
      using f(1) less.prems(2) unat_add_64 [of "src_highest_sent s" MSS64]
      by (simp_all add: tcp_advance_def)
    have step: "tcp_sendLoop w s as0 =
        (if tcp_flow_sent s1 then Some (w1, s1, as0 @ as1) else tcp_sendLoop w1 s1 (as0 @ as1))"
      using True one by (subst tcp_sendLoop.simps) simp
    show ?thesis
    proof (cases "tcp_flow_sent s1")
      case flow: True
      show ?thesis using step flow f hs le
        by (intro exI [of _ 1] exI [of _ w1] exI [of _ as1]) simp
    next
      case False
      have p: "unat (src_last_acked s1) + unat (t_cwnd s1) - unat (src_highest_sent s1)
          < unat (src_last_acked s) + unat (t_cwnd s) - unat (src_highest_sent s)"
        "unat (src_last_acked s1) + unat (t_cwnd s1) + 1500 < 18446744073709551616"
        "unat (src_highest_sent s1) + 1500 < 18446744073709551616"
        using f(1) hs le less.prems by simp_all
      obtain n w' as where IH: "tcp_sendLoop w1 s1 (as0 @ as1) =
            Some (w', tcp_advance (w_now w1) n s1, (as0 @ as1) @ as)"
          "w_now w' = w_now w1"
          "sent_seqs as = map (\<lambda>i. src_highest_sent s1 + of_nat i * MSS64 + 1) [0..<n]"
          "\<forall>p \<in> set (sends as). own_segment w1 s1 p" "scheds as = []" "frees as = []"
          "unat (src_highest_sent (tcp_advance (w_now w1) n s1)) = unat (src_highest_sent s1) + n * 1500"
          "0 < n \<longrightarrow> unat (src_highest_sent s1) + n * 1500 \<le> unat (src_last_acked s1) + unat (t_cwnd s1)"
          "tcp_flow_sent (tcp_advance (w_now w1) n s1) \<or> \<not> tcp_window_open (tcp_advance (w_now w1) n s1)"
        using less.hyps [OF p, of w1 "as0 @ as1"] by blast
      have adv: "tcp_advance (w_now w1) n s1 = tcp_advance (w_now w) (Suc n) s"
        using f(1,2) tcp_advance_Suc by simp
      have own: "own_segment w1 s1 = own_segment w s" using f(1,2) by (simp add: own_segment_def fun_eq_iff)
      have "map (\<lambda>i. src_highest_sent s1 + of_nat i * MSS64 + 1) [0..<n] =
          map (\<lambda>i. src_highest_sent s + of_nat i * MSS64 + 1) [1..<Suc n]"
        using hs(1) by (simp add: map_Suc_upt [symmetric] comp_def algebra_simps del: upt_Suc)
      then have seqs: "sent_seqs (as1 @ as) = map (\<lambda>i. src_highest_sent s + of_nat i * MSS64 + 1) [0..<Suc n]"
        using f(3) IH(3) by (simp add: upt_conv_Cons del: upt_Suc)
      show ?thesis
        using step False IH f(2,4-6) hs(2) le seqs unfolding adv own
        by (intro exI [of _ "Suc n"] exI [of _ w'] exI [of _ "as1 @ as"]) (auto simp: f(1))
    qed
  qed
qed

end
