(* ===== verification/TcpInv.thy ===== *)
theory TcpInv
  imports TcpSend
begin

text \<open>
  The invariants of \<open>TcpSrc\<close>: the window and the threshold hold at least a segment, the
  DCTCP fraction stays between 0 and 1, the timeout is never below its minimum, and the
  retransmission timer runs whenever data is outstanding. Each operation is shown to keep the
  part of them it touches; the handlers follow.
\<close>

section \<open>Invariants\<close>

definition win_inv :: "tcp_src \<Rightarrow> bool" where
  "win_inv s \<longleftrightarrow> t_state s \<noteq> IDLE \<and> 1500 \<le> unat (t_cwnd s) \<and> 1500 \<le> unat (t_ssthresh s)"

definition alpha_inv :: "tcp_src \<Rightarrow> bool" where
  "alpha_inv s \<longleftrightarrow> 0 \<le> t_alpha s \<and> t_alpha s \<le> 1 \<and> t_marked_pkts s \<le> t_total_pkts s \<and>
     unat (t_total_pkts s) * 1500 \<le> unat (t_dctcp_cwnd s)"

definition rto_inv :: "tcp_src \<Rightarrow> bool" where
  "rto_inv s \<longleftrightarrow> 200000000 \<le> unat (t_rto s)"

definition timer_inv :: "tcp_src \<Rightarrow> bool" where
  "timer_inv s \<longleftrightarrow> src_last_acked s \<le> src_highest_sent s \<and>
     (src_highest_sent s \<noteq> src_last_acked s \<longrightarrow> t_RTO_timeout s \<noteq> 0)"

definition tcp_inv :: "tcp_src \<Rightarrow> bool" where
  "tcp_inv s \<longleftrightarrow> win_inv s \<and> alpha_inv s \<and> rto_inv s \<and> timer_inv s"

text \<open>Magnitudes below which no counter of a simulation wraps; times up to 20 hours.\<close>

definition tcp_room :: "u64 \<Rightarrow> tcp_src \<Rightarrow> bool" where
  "tcp_room now s \<longleftrightarrow> unat (src_highest_sent s) < 2 ^ 62 \<and> unat (src_highest_sent s - src_last_acked s) < 2 ^ 31 \<and>
     unat (t_cwnd s) < 2 ^ 31 \<and> unat (t_dctcp_cwnd s) < 2 ^ 31 \<and> unat now < 2 ^ 56 \<and>
     unat (t_rtt s) < 2 ^ 56 \<and> unat (t_mdev s) < 2 ^ 56 \<and> unat (t_rto s) < 2 ^ 60"

section \<open>Round-trip times\<close>

lemma tcp_updateRtt_fields [simp]:
  "src_last_acked (tcp_updateRtt now ts0 s) = src_last_acked s"
  "src_highest_sent (tcp_updateRtt now ts0 s) = src_highest_sent s"
  "src_flowsize (tcp_updateRtt now ts0 s) = src_flowsize s"
  "t_cwnd (tcp_updateRtt now ts0 s) = t_cwnd s" "t_ssthresh (tcp_updateRtt now ts0 s) = t_ssthresh s"
  "t_state (tcp_updateRtt now ts0 s) = t_state s" "t_alpha (tcp_updateRtt now ts0 s) = t_alpha s"
  "t_marked_pkts (tcp_updateRtt now ts0 s) = t_marked_pkts s"
  "t_total_pkts (tcp_updateRtt now ts0 s) = t_total_pkts s"
  "t_dctcp_cwnd (tcp_updateRtt now ts0 s) = t_dctcp_cwnd s"
  "t_RTO_timeout (tcp_updateRtt now ts0 s) = t_RTO_timeout s"
  "t_recover_seq (tcp_updateRtt now ts0 s) = t_recover_seq s"
  "t_dupacks (tcp_updateRtt now ts0 s) = t_dupacks s"
  "src_route_fwd (tcp_updateRtt now ts0 s) = src_route_fwd s"
  "src_flow (tcp_updateRtt now ts0 s) = src_flow s"
  by (simp_all add: tcp_updateRtt_def Let_def)

lemma unat_shrink:
  fixes r m :: u64
  assumes "unat r < 2 ^ 56" "unat m < 2 ^ 56"
  shows "unat (r * 7 div 8 + m div 8) = unat r * 7 div 8 + unat m div 8"
    and "unat (r * 3 div 4 + m div 4) = unat r * 3 div 4 + unat m div 4"
proof -
  have "unat (r * 7) = unat r * 7" "unat (r * 3) = unat r * 3"
    using assms(1) unat_mult_64 [of r 7] unat_mult_64 [of r 3] by simp_all
  then have d: "unat (r * 7 div 8) = unat r * 7 div 8" "unat (r * 3 div 4) = unat r * 3 div 4"
      "unat (m div 8) = unat m div 8" "unat (m div 4) = unat m div 4"
    by (simp_all add: unat_div)
  have "unat (r * 7 div 8) + unat (m div 8) < 18446744073709551616"
    "unat (r * 3 div 4) + unat (m div 4) < 18446744073709551616"
    unfolding d using assms by simp_all
  then show "unat (r * 7 div 8 + m div 8) = unat r * 7 div 8 + unat m div 8"
    "unat (r * 3 div 4 + m div 4) = unat r * 3 div 4 + unat m div 4"
    using unat_add_64 d by simp_all
qed

lemma unat_rto:
  fixes r d :: u64
  assumes "unat r < 2 ^ 56" "unat d < 2 ^ 56"
  shows "unat (r + 4 * d) = unat r + 4 * unat d"
proof -
  have "unat (4 * d) = 4 * unat d" using assms(2) unat_mult_64 [of 4 d] by simp
  then show ?thesis using assms unat_add_64 [of r "4 * d"] by simp
qed

text \<open>Smoothing keeps the estimates small, and the timeout is at least the minimum.\<close>

lemma tcp_updateRtt_bounds:
  assumes "unat now < 2 ^ 56" "ts0 \<le> now" "unat (t_rtt s) < 2 ^ 56" "unat (t_mdev s) < 2 ^ 56"
    "rto_inv s" "unat (t_rto s) < 2 ^ 60"
  shows "unat (t_rtt (tcp_updateRtt now ts0 s)) < 2 ^ 56 \<and> unat (t_mdev (tcp_updateRtt now ts0 s)) < 2 ^ 56 \<and>
    rto_inv (tcp_updateRtt now ts0 s) \<and> unat (t_rto (tcp_updateRtt now ts0 s)) < 2 ^ 60"
proof (cases "now - ts0 > 0")
  case False
  then have "tcp_updateRtt now ts0 s = s" unfolding tcp_updateRtt_def Let_def by (simp only: if_False)
  then show ?thesis using assms by simp
next
  case True
  define m where "m = now - ts0"
  have m: "unat m < 2 ^ 56" "0 < m"
    using assms(1,2) True by (simp_all add: m_def unat_sub word_le_nat_alt)
  define a where "a = (if m > t_rtt s then m - t_rtt s else t_rtt s - m)"
  have a: "unat a < 2 ^ 56"
    using m(1) assms(3) by (auto simp: a_def unat_sub word_less_nat_alt word_le_nat_alt)
  define r where "r = (if t_rtt s > 0 then t_rtt s * 7 div 8 + m div 8 else m)"
  define d where "d = (if t_rtt s > 0 then t_mdev s * 3 div 4 + a div 4 else m div 2)"
  have r: "unat r < 2 ^ 56"
    using unat_shrink(1) [OF assms(3) m(1)] assms(3) m(1) by (auto simp: r_def)
  have "unat (m div 2) < 2 ^ 56" using m(1) by (simp add: unat_div)
  then have d: "unat d < 2 ^ 56"
    using unat_shrink(2) [OF assms(4) a] assms(4) a by (auto simp: d_def)
  have e: "t_rtt (tcp_updateRtt now ts0 s) = r" "t_mdev (tcp_updateRtt now ts0 s) = d"
      "t_rto (tcp_updateRtt now ts0 s) =
        (if r + 4 * d < timeFromUs (of_int MIN_RTO_US) then timeFromUs (of_int MIN_RTO_US) else r + 4 * d)"
    using m(2) unfolding tcp_updateRtt_def Let_def r_def d_def a_def m_def [symmetric]
    by simp_all
  have "unat (r + 4 * d) < 2 ^ 60" using unat_rto [OF r d] r d by simp
  then show ?thesis using r d unfolding e rto_inv_def timeFromUs_MIN_RTO
    by (auto simp: word_less_nat_alt not_less)
qed

section \<open>The DCTCP window\<close>

lemma dbl_u32: "dbl (of_nat (unat (c :: u32))) = of_nat (unat c)"
  by (rule dbl_of_nat) (use unat_lt_2_32 [of c] in simp)

lemma dctcp_reduce_le:
  assumes "0 \<le> alpha" "alpha \<le> 1"
  shows "unat (dctcp_reduce alpha c) \<le> unat c"
proof -
  define f where "f = dbl (1 - dbl (alpha / 2))"
  have "dbl (alpha / 2) \<le> of_int 1" using assms by (intro dbl_le_int) simp_all
  then have f: "0 \<le> f" unfolding f_def by (intro dbl_nonneg) simp
  have "0 \<le> dbl (alpha / 2)" using assms by (intro dbl_nonneg) simp
  then have "f \<le> of_int 1" unfolding f_def by (intro dbl_le_int) simp_all
  then have "0 \<le> trunc_rat (dbl (of_nat (unat c) * f)) \<and> trunc_rat (dbl (of_nat (unat c) * f)) \<le> int (unat c)"
    using f unat_lt_2_32 [of c] by (intro trunc_scaled) simp_all
  then obtain n where n: "trunc_rat (dbl (of_nat (unat c) * f)) = int n" "n \<le> unat c"
    by (metis nonneg_int_cases of_nat_le_iff)
  have "dctcp_reduce alpha c = of_nat n"
    unfolding dctcp_reduce_def dbl_u32 f_def [symmetric] n(1) by simp
  then show ?thesis using n(2) unat_lt_2_32 [of c] by (simp add: unat_of_nat)
qed

lemma dctcp_alpha_range:
  assumes "0 \<le> alpha" "alpha \<le> 1" "marked \<le> tot"
  shows "0 \<le> dctcp_alpha alpha marked tot \<and> dctcp_alpha alpha marked tot \<le> 1"
proof -
  have g: "dbl (1 - DCTCP_GAIN) = 15 / 16" using dbl_dyadic [of 15 4] by (simp add: DCTCP_GAIN_def)
  define fm where "fm = dbl (of_nat (unat marked) / of_nat (unat tot))"
  have "unat marked \<le> unat tot" using assms(3) by (simp only: word_le_nat_alt)
  then have fm: "0 \<le> fm" "fm \<le> 1" unfolding fm_def using ratio_range by blast+
  have le: "alpha * (15 / 16) \<le> of_int 15 / 2 ^ 4" "fm * DCTCP_GAIN \<le> of_int 1 / 2 ^ 4"
    using assms(2) fm by (simp_all add: DCTCP_GAIN_def)
  have a: "dbl (alpha * (15 / 16)) \<le> of_int 15 / 2 ^ 4" by (rule dbl_le_dyadic [OF le(1)]) simp_all
  have b: "dbl (fm * DCTCP_GAIN) \<le> of_int 1 / 2 ^ 4" by (rule dbl_le_dyadic [OF le(2)]) simp_all
  have n: "0 \<le> dbl (alpha * (15 / 16))" "0 \<le> dbl (fm * DCTCP_GAIN)"
    using assms(1) fm by (auto intro!: dbl_nonneg simp: DCTCP_GAIN_def)
  have e: "dctcp_alpha alpha marked tot = dbl (dbl (alpha * (15 / 16)) + dbl (fm * DCTCP_GAIN))"
    unfolding dctcp_alpha_def g dbl_u32 fm_def Let_def .. 
  have "dbl (dbl (alpha * (15 / 16)) + dbl (fm * DCTCP_GAIN)) \<le> of_int 1"
    using a b by (intro dbl_le_int) simp_all
  then show ?thesis unfolding e using n by (auto intro!: dbl_nonneg)
qed

lemma tcp_countMark_fields [simp]:
  "src_last_acked (tcp_countMark b s) = src_last_acked s"
  "src_highest_sent (tcp_countMark b s) = src_highest_sent s"
  "src_flowsize (tcp_countMark b s) = src_flowsize s"
  "t_RTO_timeout (tcp_countMark b s) = t_RTO_timeout s" "t_recover_seq (tcp_countMark b s) = t_recover_seq s"
  "t_dupacks (tcp_countMark b s) = t_dupacks s" "t_rto (tcp_countMark b s) = t_rto s"
  "t_rtt (tcp_countMark b s) = t_rtt s" "t_mdev (tcp_countMark b s) = t_mdev s"
  "t_cwnd (tcp_countMark b s) = t_cwnd s" "t_alpha (tcp_countMark b s) = t_alpha s"
  "t_dctcp_cwnd (tcp_countMark b s) = t_dctcp_cwnd s"
  "t_total_pkts (tcp_countMark b s) = t_total_pkts s + 1"
  "src_route_fwd (tcp_countMark b s) = src_route_fwd s" "src_flow (tcp_countMark b s) = src_flow s"
  "t_state (tcp_countMark b s) = FAST_RECOV \<longleftrightarrow> t_state s = FAST_RECOV"
  "t_marked_pkts (tcp_countMark b s) = (if b then t_marked_pkts s + 1 else t_marked_pkts s)"
  by (simp_all add: tcp_countMark_def Let_def)

lemma tcp_updateAlpha_fields [simp]:
  "src_last_acked (tcp_updateAlpha s) = src_last_acked s"
  "src_highest_sent (tcp_updateAlpha s) = src_highest_sent s"
  "src_flowsize (tcp_updateAlpha s) = src_flowsize s"
  "t_RTO_timeout (tcp_updateAlpha s) = t_RTO_timeout s" "t_recover_seq (tcp_updateAlpha s) = t_recover_seq s"
  "t_dupacks (tcp_updateAlpha s) = t_dupacks s" "t_rto (tcp_updateAlpha s) = t_rto s"
  "t_rtt (tcp_updateAlpha s) = t_rtt s" "t_mdev (tcp_updateAlpha s) = t_mdev s"
  "t_state (tcp_updateAlpha s) = t_state s"
  "src_route_fwd (tcp_updateAlpha s) = src_route_fwd s" "src_flow (tcp_updateAlpha s) = src_flow s"
  by (simp_all add: tcp_updateAlpha_def Let_def)

lemma tcp_updateDctcp_fields [simp]:
  "src_last_acked (tcp_updateDctcp b s) = src_last_acked s"
  "src_highest_sent (tcp_updateDctcp b s) = src_highest_sent s"
  "src_flowsize (tcp_updateDctcp b s) = src_flowsize s"
  "t_RTO_timeout (tcp_updateDctcp b s) = t_RTO_timeout s" "t_recover_seq (tcp_updateDctcp b s) = t_recover_seq s"
  "t_dupacks (tcp_updateDctcp b s) = t_dupacks s" "t_rto (tcp_updateDctcp b s) = t_rto s"
  "t_rtt (tcp_updateDctcp b s) = t_rtt s" "t_mdev (tcp_updateDctcp b s) = t_mdev s"
  "src_route_fwd (tcp_updateDctcp b s) = src_route_fwd s" "src_flow (tcp_updateDctcp b s) = src_flow s"
  "t_state (tcp_updateDctcp b s) = FAST_RECOV \<longleftrightarrow> t_state s = FAST_RECOV"
  by (simp_all add: tcp_updateDctcp_def Let_def)

lemma dctcp_window_bounds:
  assumes "0 \<le> alpha" "alpha \<le> 1" "1500 \<le> unat c"
  shows "1500 \<le> unat (dctcp_window alpha c) \<and> unat (dctcp_window alpha c) \<le> unat c"
  using dctcp_reduce_le [OF assms(1,2), of c] assms(3) unat_MSS32
  by (auto simp: dctcp_window_def word_less_nat_alt not_less Let_def)

lemma tcp_countMark_inv:
  assumes "win_inv s" "alpha_inv s" "unat (t_dctcp_cwnd s) < 2 ^ 31"
  shows "win_inv (tcp_countMark b s)" "t_marked_pkts (tcp_countMark b s) \<le> t_total_pkts (tcp_countMark b s)"
    "unat (t_total_pkts (tcp_countMark b s) * MSS32) = unat (t_total_pkts (tcp_countMark b s)) * 1500"
proof -
  have t: "unat (t_total_pkts s) < 2000000" "unat (t_marked_pkts s) \<le> unat (t_total_pkts s)"
    using assms(2,3) by (auto simp: alpha_inv_def word_le_nat_alt)
  have u: "unat (t_total_pkts s + 1) = unat (t_total_pkts s) + 1" "unat (t_marked_pkts s + 1) = unat (t_marked_pkts s) + 1"
    using t unat_add_32 [of "t_total_pkts s" 1] unat_add_32 [of "t_marked_pkts s" 1] by simp_all
  show "win_inv (tcp_countMark b s)"
    using assms(1) by (simp add: win_inv_def tcp_countMark_def Let_def)
  show "t_marked_pkts (tcp_countMark b s) \<le> t_total_pkts (tcp_countMark b s)"
    using u t by (simp add: word_le_nat_alt)
  show "unat (t_total_pkts (tcp_countMark b s) * MSS32) = unat (t_total_pkts (tcp_countMark b s)) * 1500"
    using t(1) u unfolding tcp_countMark_fields unat_word_ariths unat_MSS32 by simp
qed

lemma tcp_updateAlpha_inv:
  assumes "win_inv s" "0 \<le> t_alpha s" "t_alpha s \<le> 1" "t_marked_pkts s \<le> t_total_pkts s"
  shows "win_inv (tcp_updateAlpha s) \<and> alpha_inv (tcp_updateAlpha s) \<and>
    unat (t_cwnd (tcp_updateAlpha s)) \<le> unat (t_cwnd s)"
proof -
  define al where "al = dctcp_alpha (t_alpha s) (t_marked_pkts s) (t_total_pkts s)"
  define c where "c = (if al > 0 then dctcp_window al (t_cwnd s) else t_cwnd s)"
  have al: "0 \<le> al" "al \<le> 1" using dctcp_alpha_range [OF assms(2-4)] by (auto simp: al_def)
  have c: "1500 \<le> unat c" "unat c \<le> unat (t_cwnd s)"
    using dctcp_window_bounds [OF al] assms(1) by (auto simp: c_def win_inv_def)
  have e: "t_cwnd (tcp_updateAlpha s) = c" "t_alpha (tcp_updateAlpha s) = al"
      "t_marked_pkts (tcp_updateAlpha s) = 0" "t_total_pkts (tcp_updateAlpha s) = 0"
      "t_ssthresh (tcp_updateAlpha s) = (if al > 0 then c else t_ssthresh s)"
    by (simp_all add: tcp_updateAlpha_def Let_def al_def c_def)
  show ?thesis using e c al assms(1) by (simp add: win_inv_def alpha_inv_def)
qed

lemma tcp_updateDctcp_inv:
  assumes "win_inv s" "alpha_inv s" "unat (t_dctcp_cwnd s) < 2 ^ 31"
  shows "win_inv (tcp_updateDctcp b s) \<and> alpha_inv (tcp_updateDctcp b s) \<and>
    unat (t_cwnd (tcp_updateDctcp b s)) \<le> unat (t_cwnd s)"
proof -
  define s1 where "s1 = tcp_countMark b s"
  note c = tcp_countMark_inv [OF assms, of b, folded s1_def]
  have f: "t_cwnd s1 = t_cwnd s" "t_alpha s1 = t_alpha s" "t_dctcp_cwnd s1 = t_dctcp_cwnd s"
    by (simp_all add: s1_def)
  have a: "0 \<le> t_alpha s1" "t_alpha s1 \<le> 1" using assms(2) f by (simp_all add: alpha_inv_def)
  show ?thesis
  proof (cases "ucast (t_total_pkts s1 * MSS32) > t_dctcp_cwnd s1")
    case True
    then have "tcp_updateDctcp b s = tcp_updateAlpha s1" by (simp add: tcp_updateDctcp_def s1_def Let_def)
    then show ?thesis using tcp_updateAlpha_inv [OF c(1) a c(2)] f(1) by simp
  next
    case False
    then have e: "tcp_updateDctcp b s = s1" by (simp add: tcp_updateDctcp_def s1_def Let_def)
    have "unat (ucast (t_total_pkts s1 * MSS32) :: u64) \<le> unat (t_dctcp_cwnd s1)"
      using False by (simp only: word_less_nat_alt not_less)
    then have "unat (t_total_pkts s1) * 1500 \<le> unat (t_dctcp_cwnd s1)" using c(3) by simp
    then show ?thesis using e c(1,2) a f by (simp add: alpha_inv_def)
  qed
qed

end
