(* ===== verification/TcpSteps.thy ===== *)
theory TcpSteps
  imports TcpInv
begin

text \<open>
  The handlers of \<open>TcpSrc\<close>: specifications of \<open>inflateWindow\<close>, \<open>sendPackets\<close> and
  \<open>retransmitPacket\<close>, the branches of \<open>receivePacket\<close> and \<open>doNextEvent\<close>, and the proof that
  both handlers keep the invariants.
\<close>

section \<open>Window increase\<close>

lemma tcp_inflateWindow_spec:
  assumes "win_inv s" "unat (t_cwnd s) < 2 ^ 32 - 1500"
  shows "\<exists>c. tcp_inflateWindow s = Some (s\<lparr>t_cwnd := c\<rparr>) \<and> unat (t_cwnd s) \<le> unat c \<and>
    unat c \<le> unat (t_cwnd s) + 1500 \<and> (t_cwnd s < t_ssthresh s \<longrightarrow> c \<le> t_ssthresh s) \<and>
    (\<not> t_cwnd s < t_ssthresh s \<longrightarrow> unat c \<le> unat (t_cwnd s) + max 1 (2250000 div unat (t_cwnd s)))"
proof -
  define na where "na = sint (ucast (src_last_acked s + ucast (t_cwnd s) - src_highest_sent s) :: u32)"
  have cw: "1500 \<le> unat (t_cwnd s)" "t_cwnd s \<noteq> 0"
    using assms(1) unat_eq_0 [of "t_cwnd s"] by (auto simp: win_inv_def)
  show ?thesis
  proof (cases "na < 0")
    case True
    then have "tcp_inflateWindow s = Some s" unfolding tcp_inflateWindow_def na_def [symmetric] Let_def by (simp only: if_True)
    then show ?thesis using cw by (intro exI [of _ "t_cwnd s"]) (simp add: less_imp_le)
  next
    case False
    define k where "k = nat (if na > MSS_BYTES then MSS_BYTES else na)"
    have k: "(if na > MSS_BYTES then MSS_BYTES else na) = int k" "k \<le> 1500"
      using False by (auto simp: k_def MSS_BYTES_def)
    have uk: "unat (of_nat k :: u32) = k" using k(2) by (simp add: unat_of_nat)
    define d where "d = (if t_cwnd s < t_ssthresh s then min (t_ssthresh s - t_cwnd s) (of_nat k)
       else let i = of_nat (k * 1500) div t_cwnd s in if i = 0 then 1 else i)"
    have e: "tcp_inflateWindow s = Some (s\<lparr>t_cwnd := t_cwnd s + d\<rparr>)"
      using cw False unfolding tcp_inflateWindow_def na_def [symmetric] Let_def k(1)
      by (auto simp: d_def MSS_BYTES_def Let_def)
    have dca: "unat d \<le> max 1 (2250000 div unat (t_cwnd s))" if "\<not> t_cwnd s < t_ssthresh s"
    proof -
      have "unat (of_nat (k * 1500) :: u32) = k * 1500" using k(2) by (simp only: unat_of_nat) simp
      then have "unat (of_nat (k * 1500) div t_cwnd s) = k * 1500 div unat (t_cwnd s)" by (simp only: unat_div)
      also have "\<dots> \<le> 2250000 div unat (t_cwnd s)" using k(2) by (intro div_le_mono) simp
      finally show ?thesis using that unfolding d_def Let_def by (auto simp: max_def)
    qed
    have d1500: "unat d \<le> 1500"
    proof (cases "t_cwnd s < t_ssthresh s")
      case True
      then show ?thesis using uk k(2) by (simp add: d_def min_def word_le_nat_alt)
    next
      case False
      have "2250000 div unat (t_cwnd s) \<le> 2250000 div 1500" using cw(1) by (intro div_le_mono2) simp_all
      then show ?thesis using dca [OF False] by simp
    qed
    have c: "unat (t_cwnd s + d) = unat (t_cwnd s) + unat d"
      using assms(2) d1500 by (intro unat_add_32) simp
    have "t_cwnd s + d \<le> t_ssthresh s" if "t_cwnd s < t_ssthresh s"
    proof -
      have "d \<le> t_ssthresh s - t_cwnd s" using that by (simp add: d_def)
      then show ?thesis using that c by (simp add: word_le_nat_alt word_less_nat_alt unat_sub)
    qed
    then show ?thesis using e c d1500 dca by auto
  qed
qed

section \<open>Sending and retransmitting\<close>

definition seq_room :: "tcp_src \<Rightarrow> bool" where
  "seq_room s \<longleftrightarrow> unat (src_last_acked s) < 2 ^ 63 \<and> unat (src_highest_sent s) < 2 ^ 63"

text \<open>What \<open>sendPackets\<close> does: \<open>n\<close> consecutive segments, to the edge of the window or the flow.\<close>

definition sends_segments :: "world \<Rightarrow> tcp_src \<Rightarrow> nat \<Rightarrow> world \<Rightarrow> tcp_src \<Rightarrow> action list \<Rightarrow> bool" where
  "sends_segments w s n w' s' as \<longleftrightarrow> s' = tcp_advance (w_now w) n s \<and> w_now w' = w_now w \<and>
     sent_seqs as = map (\<lambda>i. src_highest_sent s + of_nat i * MSS64 + 1) [0..<n] \<and>
     (\<forall>p \<in> set (sends as). own_segment w s p) \<and> scheds as = [] \<and> frees as = [] \<and>
     unat (src_highest_sent s') = unat (src_highest_sent s) + n * 1500 \<and>
     (0 < n \<longrightarrow> unat (src_highest_sent s) + n * 1500 \<le> unat (src_last_acked s) + unat (t_cwnd s)) \<and>
     (tcp_flow_sent s' \<or> \<not> tcp_window_open s')"

lemma tcp_sendPackets_spec:
  assumes "seq_room s"
  shows "\<exists>n w' s' as. tcp_sendPackets w s = Some (w', s', as) \<and> sends_segments w s n w' s' as"
proof (cases "tcp_flow_sent s")
  case True
  then show ?thesis
    by (intro exI [of _ 0] exI [of _ w] exI [of _ s] exI [of _ "[]"])
      (simp add: tcp_sendPackets_def sends_segments_def)
next
  case False
  have "unat (src_last_acked s) + unat (t_cwnd s) + 1500 < 18446744073709551616"
    "unat (src_highest_sent s) + 1500 < 18446744073709551616"
    using assms unat_lt_2_32 [of "t_cwnd s"] by (simp_all add: seq_room_def)
  from tcp_sendLoop_spec [OF this, of w "[]"] show ?thesis
    using False by (auto simp: tcp_sendPackets_def sends_segments_def)
qed

text \<open>After it nothing acknowledged lies beyond what was sent, and the timer runs.\<close>

lemma sends_segments_timer:
  assumes "sends_segments w s n w' s' as" "seq_room s" "1500 \<le> unat (t_cwnd s)"
    and "src_flowsize s = 0 \<or> src_last_acked s < src_flowsize s"
    and "src_highest_sent s \<noteq> src_last_acked s \<Longrightarrow> t_RTO_timeout s \<noteq> 0"
    and "w_now w + t_rto s \<noteq> 0"
  shows "timer_inv s'"
proof -
  have e: "s' = tcp_advance (w_now w) n s" using assms(1) by (simp add: sends_segments_def)
  have le: "src_last_acked s' \<le> src_highest_sent s'"
  proof (cases "tcp_flow_sent s'")
    case True
    then show ?thesis using assms(4) e by (auto simp: tcp_flow_sent_def)
  next
    case False
    then have nw: "\<not> tcp_window_open s'" using assms(1) unfolding sends_segments_def by blast
    have hs: "unat (src_highest_sent s') + 1500 < 18446744073709551616"
      using assms(1,2) unat_lt_2_32 [of "t_cwnd s"]
      by (cases "n = 0") (auto simp: sends_segments_def seq_room_def)
    have la: "unat (src_last_acked s') + unat (t_cwnd s') < 18446744073709551616"
      using assms(2) e unat_lt_2_32 [of "t_cwnd s"] by (simp add: seq_room_def)
    have "unat (src_last_acked s') + unat (t_cwnd s') < unat (src_highest_sent s') + 1500"
      using tcp_window_open_iff [OF la hs] nw by simp
    then show ?thesis using assms(3) e by (simp add: word_le_nat_alt)
  qed
  have "t_RTO_timeout s' \<noteq> 0" if "src_highest_sent s' \<noteq> src_last_acked s'"
    using that assms(5,6) e by (cases "n = 0") (auto simp: tcp_advance_def split: if_splits)
  then show ?thesis using le by (simp add: timer_inv_def)
qed

definition tcp_rexmit :: "u64 \<Rightarrow> tcp_src \<Rightarrow> tcp_src" where
  "tcp_rexmit now s = s\<lparr>src_packets_sent := src_packets_sent s + MSS64,
     src_flow := (src_flow s)\<lparr>f_nPackets := f_nPackets (src_flow s) + 1\<rparr>,
     t_RTO_timeout := (if t_RTO_timeout s = 0 then now + t_rto s else t_RTO_timeout s)\<rparr>"

lemma tcp_rexmit_fields [simp]:
  "src_last_acked (tcp_rexmit now s) = src_last_acked s"
  "src_highest_sent (tcp_rexmit now s) = src_highest_sent s"
  "src_flowsize (tcp_rexmit now s) = src_flowsize s"
  "t_cwnd (tcp_rexmit now s) = t_cwnd s" "t_ssthresh (tcp_rexmit now s) = t_ssthresh s"
  "t_state (tcp_rexmit now s) = t_state s" "t_alpha (tcp_rexmit now s) = t_alpha s"
  "t_marked_pkts (tcp_rexmit now s) = t_marked_pkts s" "t_total_pkts (tcp_rexmit now s) = t_total_pkts s"
  "t_dctcp_cwnd (tcp_rexmit now s) = t_dctcp_cwnd s"
  "t_rto (tcp_rexmit now s) = t_rto s" "t_rtt (tcp_rexmit now s) = t_rtt s"
  "t_recover_seq (tcp_rexmit now s) = t_recover_seq s" "t_dupacks (tcp_rexmit now s) = t_dupacks s"
  by (simp_all add: tcp_rexmit_def)

lemma tcp_retransmitPacket_spec:
  assumes "tcp_retransmitPacket w s = (w', s', as)"
  shows "s' = tcp_rexmit (w_now w) s" "w_now w' = w_now w" "sent_seqs as = [src_last_acked s + 1]"
    "\<forall>p \<in> set (sends as). own_segment w s p" "scheds as = []"
proof -
  obtain p w1 s1 where n: "source_newpkt (src_last_acked s + 1) MSS_BYTES w s = (p, w1, s1)"
    by (cases "source_newpkt (src_last_acked s + 1) MSS_BYTES w s") auto
  note f = fresh_segment [OF n]
  have w1: "w_now w1 = w_now w" by (rule f(1))
  define p2 where "p2 = (if src_enable_deadline s1 then setPriority 0 (setFlag DEADLINE (set_ts (w_now w1) p))
    else set_ts (w_now w1) p)"
  have p2: "p_class p2 = DataPacket (src_last_acked s + 1) (w_now w)" "own_segment w s p2"
    using f(2,3) w1 by (auto simp: p2_def setPriority_def own_segment_def)
  have r: "w' = w1" "as = [Traffic PKT_CREATESEND p, SendOn p2]" "s' = tcp_rexmit (w_now w) s"
    using assms n f(4) w1 by (auto simp: tcp_retransmitPacket_def tcp_rexmit_def Let_def p2_def)
  then show "s' = tcp_rexmit (w_now w) s" "w_now w' = w_now w" "sent_seqs as = [src_last_acked s + 1]"
      "\<forall>p \<in> set (sends as). own_segment w s p" "scheds as = []"
    using p2 w1 by (simp_all add: sent_seqs_def)
qed

section \<open>The branches of the handlers\<close>

text \<open>What an acknowledgement may assume: no counter is near its limit and the flow goes on.\<close>

definition ack_ok :: "world \<Rightarrow> u64 \<Rightarrow> tcp_src \<Rightarrow> bool" where
  "ack_ok w ack s \<longleftrightarrow> unat (w_now w) < 2 ^ 56 \<and> unat (t_rto s) < 2 ^ 60 \<and> unat (t_cwnd s) < 2 ^ 31 \<and>
     unat ack < 2 ^ 62 \<and> unat (src_highest_sent s) < 2 ^ 62 \<and>
     (src_flowsize s = 0 \<or> ack < src_flowsize s) \<and>
     (t_state s = FAST_RECOV \<longrightarrow> ack \<le> src_highest_sent s \<and> unat (src_highest_sent s) - unat ack < 2 ^ 31)"

lemma timer_nonzero:
  assumes "rto_inv s" "unat (w_now w) < 2 ^ 56" "unat (t_rto s) < 2 ^ 60"
  shows "w_now w + t_rto s \<noteq> 0"
proof -
  have "unat (w_now w + t_rto s) = unat (w_now w) + unat (t_rto s)"
    using assms(2,3) by (intro unat_add_64) simp
  then show ?thesis using assms(1) unat_eq_0 [of "w_now w + t_rto s"] by (simp add: rto_inv_def)
qed

text \<open>A state that has accepted its last acknowledgement, before it sends.\<close>

definition pre_send :: "world \<Rightarrow> tcp_src \<Rightarrow> bool" where
  "pre_send w s \<longleftrightarrow> win_inv s \<and> alpha_inv s \<and> rto_inv s \<and> seq_room s \<and> w_now w + t_rto s \<noteq> 0 \<and>
     (src_flowsize s = 0 \<or> src_last_acked s < src_flowsize s) \<and>
     (src_highest_sent s \<noteq> src_last_acked s \<longrightarrow> t_RTO_timeout s \<noteq> 0)"

lemma tcp_advance_invs [simp]:
  "win_inv (tcp_advance now n s) = win_inv s" "alpha_inv (tcp_advance now n s) = alpha_inv s"
  "rto_inv (tcp_advance now n s) = rto_inv s"
  by (simp_all add: win_inv_def alpha_inv_def rto_inv_def tcp_advance_def)

lemma tcp_rexmit_invs [simp]:
  "win_inv (tcp_rexmit now s) = win_inv s" "alpha_inv (tcp_rexmit now s) = alpha_inv s"
  "rto_inv (tcp_rexmit now s) = rto_inv s"
  by (simp_all add: win_inv_def alpha_inv_def rto_inv_def tcp_rexmit_def)

lemma pre_send_sends:
  assumes "pre_send w s"
  shows "\<exists>n w' s' as. tcp_sendPackets w s = Some (w', s', as) \<and> sends_segments w s n w' s' as \<and> tcp_inv s' \<and>
    src_last_acked s' = src_last_acked s"
proof -
  have p: "win_inv s" "alpha_inv s" "rto_inv s" "seq_room s" "w_now w + t_rto s \<noteq> 0"
    "src_flowsize s = 0 \<or> src_last_acked s < src_flowsize s"
    "src_highest_sent s \<noteq> src_last_acked s \<Longrightarrow> t_RTO_timeout s \<noteq> 0"
    using assms by (auto simp: pre_send_def)
  obtain n w' s' as where s: "tcp_sendPackets w s = Some (w', s', as)" "sends_segments w s n w' s' as"
    using tcp_sendPackets_spec [OF p(4), of w] by blast
  have "1500 \<le> unat (t_cwnd s)" using p(1) by (simp add: win_inv_def)
  from sends_segments_timer [OF s(2) p(4) this p(6,7,5)] have "timer_inv s'" by simp
  moreover have "s' = tcp_advance (w_now w) n s" using s(2) by (simp add: sends_segments_def)
  ultimately have "tcp_inv s'" using p(1-3) by (simp add: tcp_inv_def)
  moreover have "src_last_acked s' = src_last_acked s" using \<open>s' = tcp_advance (w_now w) n s\<close> by simp
  ultimately show ?thesis using s by blast
qed

lemma tcp_rearm_timer:
  assumes "w_now w + t_rto s \<noteq> 0"
  shows "src_highest_sent s \<noteq> ack \<Longrightarrow> t_RTO_timeout (tcp_rearm (w_now w) ack s) \<noteq> 0"
  using assms by (auto simp: tcp_rearm_def Let_def)

lemma tcp_rearm_fields [simp]:
  "src_last_acked (tcp_rearm now ack s) = src_last_acked s"
  "src_highest_sent (tcp_rearm now ack s) = src_highest_sent s"
  "src_flowsize (tcp_rearm now ack s) = src_flowsize s"
  "t_cwnd (tcp_rearm now ack s) = t_cwnd s" "t_ssthresh (tcp_rearm now ack s) = t_ssthresh s"
  "t_state (tcp_rearm now ack s) = t_state s" "t_recover_seq (tcp_rearm now ack s) = t_recover_seq s"
  "t_rto (tcp_rearm now ack s) = t_rto s"
  "win_inv (tcp_rearm now ack s) = win_inv s" "alpha_inv (tcp_rearm now ack s) = alpha_inv s"
  "rto_inv (tcp_rearm now ack s) = rto_inv s"
  by (simp_all add: tcp_rearm_def Let_def win_inv_def alpha_inv_def rto_inv_def)

text \<open>The states in which the three cases of a new acknowledgement reach \<open>sendPackets\<close>.\<close>

lemma tcp_newAck_normal:
  assumes "win_inv s" "alpha_inv s" "rto_inv s" "ack_ok w ack s" "t_state s \<noteq> FAST_RECOV"
  shows "\<exists>c. tcp_inflateWindow ((tcp_rearm (w_now w) ack s)\<lparr>src_last_acked := ack, t_dupacks := 0\<rparr>) =
      Some ((tcp_rearm (w_now w) ack s)\<lparr>src_last_acked := ack, t_dupacks := 0, t_cwnd := c\<rparr>) \<and>
    unat (t_cwnd s) \<le> unat c \<and> unat c \<le> unat (t_cwnd s) + 1500 \<and>
    (t_cwnd s < t_ssthresh s \<longrightarrow> c \<le> t_ssthresh s) \<and>
    (\<not> t_cwnd s < t_ssthresh s \<longrightarrow> unat c \<le> unat (t_cwnd s) + max 1 (2250000 div unat (t_cwnd s))) \<and>
    pre_send w ((tcp_rearm (w_now w) ack s)\<lparr>src_last_acked := ack, t_dupacks := 0, t_cwnd := c\<rparr>)"
proof -
  let ?s = "(tcp_rearm (w_now w) ack s)\<lparr>src_last_acked := ack, t_dupacks := 0\<rparr>"
  have w: "win_inv ?s" "unat (t_cwnd ?s) < 2 ^ 32 - 1500"
    using assms(1,4) by (simp_all add: win_inv_def ack_ok_def)
  have nz: "w_now w + t_rto s \<noteq> 0" using assms(3,4) by (intro timer_nonzero) (simp_all add: ack_ok_def)
  obtain c where c: "tcp_inflateWindow ?s = Some (?s\<lparr>t_cwnd := c\<rparr>)" "unat (t_cwnd s) \<le> unat c"
      "unat c \<le> unat (t_cwnd s) + 1500" "t_cwnd s < t_ssthresh s \<longrightarrow> c \<le> t_ssthresh s"
      "\<not> t_cwnd s < t_ssthresh s \<longrightarrow> unat c \<le> unat (t_cwnd s) + max 1 (2250000 div unat (t_cwnd s))"
    using tcp_inflateWindow_spec [OF w] by auto
  have ai: "alpha_inv (tcp_rearm (w_now w) ack s)" "rto_inv (tcp_rearm (w_now w) ack s)"
    using assms(2,3) by simp_all
  have "pre_send w (?s\<lparr>t_cwnd := c\<rparr>)"
    using c(2) assms(1,4) nz tcp_rearm_timer [OF nz, of ack] ai
    by (auto simp: pre_send_def win_inv_def alpha_inv_def rto_inv_def seq_room_def ack_ok_def)
  with c show ?thesis by auto
qed

lemma tcp_newAck_leave:
  assumes "win_inv s" "alpha_inv s" "rto_inv s" "ack_ok w ack s" "t_state s = FAST_RECOV"
  shows "pre_send w (tcp_leaveRecovery ack (tcp_rearm (w_now w) ack s))"
proof -
  define fl where "fl = (ucast (src_highest_sent s - ack) :: u32)"
  have a: "ack \<le> src_highest_sent s" "unat (src_highest_sent s) - unat ack < 2 ^ 31"
    using assms(4,5) by (auto simp: ack_ok_def)
  then have d: "unat (src_highest_sent s - ack) < 2 ^ 31" by (simp add: unat_sub word_le_nat_alt)
  then have "unat fl = unat (src_highest_sent s - ack)"
    by (simp add: fl_def unsigned_ucast_eq take_bit_nat_eq_self)
  then have "unat (fl + MSS32) = unat fl + 1500" using d unat_add_32 [of fl MSS32] by simp
  then have c: "1500 \<le> unat (min (t_ssthresh s) (fl + MSS32))"
    using assms(1) by (simp add: min_def win_inv_def)
  have nz: "w_now w + t_rto s \<noteq> 0" using assms(3,4) by (intro timer_nonzero) (simp_all add: ack_ok_def)
  have ai: "alpha_inv (tcp_rearm (w_now w) ack s)" "rto_inv (tcp_rearm (w_now w) ack s)"
    using assms(2,3) by simp_all
  show ?thesis
    using c assms(1,4) nz tcp_rearm_timer [OF nz, of ack] ai
    by (auto simp: tcp_leaveRecovery_def Let_def fl_def [symmetric] pre_send_def win_inv_def
        alpha_inv_def rto_inv_def seq_room_def ack_ok_def)
qed

lemma tcp_newAck_partial:
  assumes "win_inv s" "alpha_inv s" "rto_inv s" "ack_ok w ack s" "t_state s = FAST_RECOV"
  shows "pre_send w (tcp_rexmit (w_now w) (tcp_partialAck ack (tcp_rearm (w_now w) ack s)))"
proof -
  define nd where "nd = (ucast (ack - src_last_acked s) :: u32)"
  define c where "c = (if nd < t_cwnd s then t_cwnd s - nd else 0) + MSS32"
  have "unat (t_cwnd s - nd) = unat (t_cwnd s) - unat nd" if "nd < t_cwnd s"
    using that by (intro unat_sub_nowrap) (simp add: word_less_nat_alt)
  moreover have "unat (t_cwnd s) < 2 ^ 31" using assms(4) by (simp add: ack_ok_def)
  ultimately have "unat (if nd < t_cwnd s then t_cwnd s - nd else 0) < 2 ^ 31" by auto
  then have c: "1500 \<le> unat c"
    unfolding c_def using unat_add_32 [of "if nd < t_cwnd s then t_cwnd s - nd else 0" MSS32] by simp
  have e: "tcp_partialAck ack (tcp_rearm (w_now w) ack s) =
      (tcp_rearm (w_now w) ack s)\<lparr>src_last_acked := ack, t_cwnd := c\<rparr>"
    by (simp add: tcp_partialAck_def Let_def c_def nd_def)
  have nz: "w_now w + t_rto s \<noteq> 0" using assms(3,4) by (intro timer_nonzero) (simp_all add: ack_ok_def)
  have ai: "alpha_inv (tcp_rearm (w_now w) ack s)" "rto_inv (tcp_rearm (w_now w) ack s)"
    using assms(2,3) by simp_all
  show ?thesis unfolding e
    using c assms(1,4) nz ai
    by (auto simp: pre_send_def win_inv_def alpha_inv_def rto_inv_def seq_room_def ack_ok_def tcp_rexmit_def)
qed

text \<open>The handler's branches, with the states in which they end.\<close>

lemma tcp_newAck_inv:
  assumes "win_inv s" "alpha_inv s" "rto_inv s" "ack_ok w ack s"
  shows "\<exists>w' s' as. tcp_newAck w ack s = Some (w', s', as) \<and> tcp_inv s' \<and> src_last_acked s' = ack"
proof (cases "t_state s = FAST_RECOV")
  case False
  obtain c where c: "tcp_inflateWindow ((tcp_rearm (w_now w) ack s)\<lparr>src_last_acked := ack, t_dupacks := 0\<rparr>) =
      Some ((tcp_rearm (w_now w) ack s)\<lparr>src_last_acked := ack, t_dupacks := 0, t_cwnd := c\<rparr>)"
    "pre_send w ((tcp_rearm (w_now w) ack s)\<lparr>src_last_acked := ack, t_dupacks := 0, t_cwnd := c\<rparr>)"
    using tcp_newAck_normal [OF assms False] by blast
  from pre_send_sends [OF c(2)] c(1) show ?thesis
    using False by (auto simp: tcp_newAck_def Let_def)
next
  case True
  let ?r = "tcp_rearm (w_now w) ack s"
  obtain w1 s1 as1 where r: "tcp_retransmitPacket w (tcp_partialAck ack ?r) = (w1, s1, as1)"
    by (cases "tcp_retransmitPacket w (tcp_partialAck ack ?r)") auto
  have la: "src_last_acked s1 = ack" "src_last_acked (tcp_leaveRecovery ack ?r) = ack"
    using tcp_retransmitPacket_spec(1) [OF r] by (simp_all add: tcp_partialAck_def tcp_leaveRecovery_def Let_def)
  have "pre_send w1 s1"
    using tcp_newAck_partial [OF assms True] tcp_retransmitPacket_spec(1,2) [OF r]
    by (simp add: pre_send_def)
  from pre_send_sends [OF this] pre_send_sends [OF tcp_newAck_leave [OF assms True]]
  show ?thesis using True r la by (cases "ack \<ge> t_recover_seq s") (auto simp: tcp_newAck_def Let_def)
qed

lemma pre_send_same_ack:
  assumes "tcp_inv s" "ack_ok w (src_last_acked s) s"
  shows "pre_send w s"
  using assms timer_nonzero [of s w]
  by (auto simp: tcp_inv_def pre_send_def timer_inv_def ack_ok_def seq_room_def word_le_nat_alt)

lemma tcp_dupAck_inv:
  assumes "tcp_inv s" "ack_ok w (src_last_acked s) s"
  shows "\<exists>w' s' as. tcp_dupAck w s = Some (w', s', as) \<and> tcp_inv s' \<and>
    src_last_acked s' = src_last_acked s"
proof -
  note p = pre_send_same_ack [OF assms]
  have "unat (t_cwnd s + MSS32) = unat (t_cwnd s) + 1500"
    using assms(2) unat_add_32 [of "t_cwnd s" MSS32] by (simp add: ack_ok_def)
  then have p1: "pre_send w (s\<lparr>t_cwnd := t_cwnd s + MSS32\<rparr>)"
    using p by (simp add: pre_send_def win_inv_def alpha_inv_def rto_inv_def seq_room_def)
  have p2: "pre_send w (s\<lparr>t_dupacks := t_dupacks s + 1\<rparr>)"
    using p by (simp add: pre_send_def win_inv_def alpha_inv_def rto_inv_def seq_room_def)
  define ss where "ss = max (t_cwnd s div 2) (word_of_int (MSS_BYTES * 2) :: u32)"
  have "unat (word_of_int (MSS_BYTES * 2) :: u32) = 3000" "unat (word_of_int (3 * MSS_BYTES) :: u32) = 4500"
    by (simp_all add: MSS_BYTES_def)
  moreover have "unat (t_cwnd s) < 2 ^ 31" using assms(2) by (simp add: ack_ok_def)
  then have "unat (t_cwnd s div 2) < 2 ^ 31" by (simp add: unat_div)
  ultimately have ss: "1500 \<le> unat ss" "unat ss < 2 ^ 31" "unat (ss + word_of_int (3 * MSS_BYTES)) = unat ss + 4500"
    using unat_add_32 [of ss "word_of_int (3 * MSS_BYTES)"]
    by (auto simp: ss_def max_def word_le_nat_alt)
  define c where "c = ss + word_of_int (3 * MSS_BYTES)"
  have e: "tcp_enterRecovery (s\<lparr>t_dupacks := 3\<rparr>) = s\<lparr>t_dupacks := 3, t_drops := t_drops s + 1,
      t_ssthresh := ss, t_cwnd := c, t_state := FAST_RECOV, t_recover_seq := src_highest_sent s\<rparr>"
    unfolding tcp_enterRecovery_def Let_def ss_def c_def by simp
  have cu: "unat c = unat ss + 4500" using ss(3) by (simp only: c_def)
  have i3: "tcp_inv (tcp_rexmit (w_now w) (tcp_enterRecovery (s\<lparr>t_dupacks := 3\<rparr>)))"
    using assms(1) ss(1) cu p unfolding e
    by (auto simp: tcp_inv_def win_inv_def alpha_inv_def rto_inv_def timer_inv_def tcp_rexmit_def pre_send_def)
  have i4: "tcp_inv (s\<lparr>t_dupacks := 3\<rparr>)"
    using assms(1) by (simp add: tcp_inv_def win_inv_def alpha_inv_def rto_inv_def timer_inv_def)
  obtain w1 s1 as1 where r: "tcp_retransmitPacket w (tcp_enterRecovery (s\<lparr>t_dupacks := 3\<rparr>)) = (w1, s1, as1)"
    by (cases "tcp_retransmitPacket w (tcp_enterRecovery (s\<lparr>t_dupacks := 3\<rparr>))") auto
  have "tcp_inv s1" "src_last_acked s1 = src_last_acked s"
    using i3 tcp_retransmitPacket_spec(1) [OF r] by (simp_all add: e)
  then show ?thesis
    using pre_send_sends [OF p1] pre_send_sends [OF p2] i4 r
    by (cases "t_state s = FAST_RECOV"; cases "t_dupacks s + 1 = 3") (auto simp: tcp_dupAck_def Let_def)
qed

section \<open>The handlers\<close>

lemma tcp_updates_ack_ok:
  assumes "tcp_inv s" "tcp_room (w_now w) s" "ts0 \<le> w_now w" "unat ack < 2 ^ 62"
    and "src_flowsize s = 0 \<or> ack < src_flowsize s" "src_last_acked s \<le> ack"
    and "t_state s = FAST_RECOV \<Longrightarrow> ack \<le> src_highest_sent s"
    and "s1 = tcp_updateRtt (w_now w) ts0 s"
    and "s2 = (if d then tcp_updateDctcp m s1 else s1)"
  shows "win_inv s2 \<and> alpha_inv s2 \<and> rto_inv s2 \<and> ack_ok w ack s2 \<and>
    src_last_acked s2 = src_last_acked s \<and> (timer_inv s2 = timer_inv s)"
proof -
  have r: "rto_inv s1" "unat (t_rto s1) < 2 ^ 60"
    using tcp_updateRtt_bounds [of "w_now w" ts0 s] assms(1-3,8) by (auto simp: tcp_inv_def tcp_room_def)
  have i1: "win_inv s1" "alpha_inv s1" "unat (t_dctcp_cwnd s1) < 2 ^ 31" "unat (t_cwnd s1) < 2 ^ 31"
    using assms(1,2,8) by (auto simp: tcp_inv_def win_inv_def alpha_inv_def tcp_room_def)
  have i2: "win_inv s2" "alpha_inv s2" "unat (t_cwnd s2) < 2 ^ 31"
    using tcp_updateDctcp_inv [OF i1(1-3), of m] i1 assms(9) by (auto split: if_splits)
  have st: "t_state s2 = FAST_RECOV \<longleftrightarrow> t_state s = FAST_RECOV" "t_rto s2 = t_rto s1"
    "src_last_acked s2 = src_last_acked s" "src_highest_sent s2 = src_highest_sent s"
    "t_RTO_timeout s2 = t_RTO_timeout s" "src_flowsize s2 = src_flowsize s"
    using assms(8,9) by auto
  have gap: "unat (src_highest_sent s) - unat ack < 2 ^ 31" if "ack \<le> src_highest_sent s"
  proof -
    have le: "unat (src_last_acked s) \<le> unat ack" "unat (src_last_acked s) \<le> unat (src_highest_sent s)"
      using assms(1,6) by (auto simp: tcp_inv_def timer_inv_def word_le_nat_alt)
    then have "unat (src_highest_sent s) - unat (src_last_acked s) < 2 ^ 31"
      using assms(2) unat_sub_nowrap [of "src_last_acked s" "src_highest_sent s"] by (simp add: tcp_room_def)
    then show ?thesis using le by simp
  qed
  show ?thesis
    using i2 r st assms(2,4,5) assms(7) gap
    by (auto simp: ack_ok_def tcp_room_def rto_inv_def timer_inv_def)
qed

text \<open>Freeing the acknowledgement changes the flow's counter and the pool only.\<close>

lemma tcp_inv_free [simp]:
  "tcp_inv (s\<lparr>src_flow := f\<rparr>) = tcp_inv s" "tcp_room now (s\<lparr>src_flow := f\<rparr>) = tcp_room now s"
  by (simp_all add: tcp_inv_def win_inv_def alpha_inv_def rto_inv_def timer_inv_def tcp_room_def)

text \<open>The handler on an acknowledgement that is processed.\<close>

lemma tcp_receivePacket_processed:
  assumes "p_class pkt = DataAck sq ack ts0" "t_state s \<noteq> FINISH" "\<not> tcp_flow_done (w_now w) ack s"
    and "src_last_acked s \<le> ack" "w1 = w\<lparr>w_ackdb := w_ackdb w @ [pkt]\<rparr>"
    and "s1 = tcp_updateRtt (w_now w) ts0
      (s\<lparr>src_flow := (src_flow s)\<lparr>f_nPackets := f_nPackets (src_flow s) - 1\<rparr>\<rparr>)"
    and "s2 = (if w_dctcp w then tcp_updateDctcp (getFlag ECN_REV pkt \<noteq> 0) s1 else s1)"
  shows "tcp_receivePacket w s pkt = do {
      (w', s', bs) \<leftarrow> (if ack > src_last_acked s2 then tcp_newAck w1 ack s2 else tcp_dupAck w1 s2);
      Some (w', s', Traffic PKT_RCVDESTROY pkt # bs) }"
proof -
  let ?s0 = "s\<lparr>src_flow := (src_flow s)\<lparr>f_nPackets := f_nPackets (src_flow s) - 1\<rparr>\<rparr>"
  have "tcp_flow_done (w_now w) ack ?s0 = tcp_flow_done (w_now w) ack s" by (simp add: tcp_flow_done_def)
  then show ?thesis
    using assms(1-4) unfolding assms(5-7)
    by (simp add: tcp_receivePacket_def tcp_receiveAck_def source_free_ack_eq Let_def not_less [symmetric])
qed

lemma tcp_receive_inv:
  assumes "tcp_inv s" "tcp_room (w_now w) s" "p_class pkt = DataAck sq ack ts0" "ts0 \<le> w_now w"
    and "unat ack < 2 ^ 62" "tcp_flow_done (w_now w) ack s \<Longrightarrow> t_state s = FINISH \<or> src_flowgen s"
    and "t_state s = FAST_RECOV \<Longrightarrow> ack \<le> src_highest_sent s"
  shows "\<exists>w' s' as. tcp_receivePacket w s pkt = Some (w', s', as) \<and> tcp_inv s' \<and>
    src_last_acked s \<le> src_last_acked s'"
proof -
  define w1 where "w1 = w\<lparr>w_ackdb := w_ackdb w @ [pkt]\<rparr>"
  define s0 where "s0 = s\<lparr>src_flow := (src_flow s)\<lparr>f_nPackets := f_nPackets (src_flow s) - 1\<rparr>\<rparr>"
  have s0: "tcp_inv s0" "tcp_room (w_now w1) s0" "ts0 \<le> w_now w1" "src_last_acked s0 = src_last_acked s"
      "t_state s0 = t_state s" "src_flowgen s0 = src_flowgen s" "src_highest_sent s0 = src_highest_sent s"
      "tcp_flow_done (w_now w1) ack s0 = tcp_flow_done (w_now w) ack s"
    using assms(1,2,4) by (simp_all add: s0_def w1_def tcp_flow_done_def)
  have u: "tcp_receivePacket w s pkt = (let as = [Traffic PKT_RCVDESTROY pkt] in
      if t_state s0 = FINISH then Some (w1, s0, as)
      else if tcp_flow_done (w_now w1) ack s0
      then do { (s, bs) \<leftarrow> tcp_finish (w_now w1) s0; Some (w1, s, as @ bs) }
      else if ack < src_last_acked s0 then Some (w1, s0, as)
      else let s1 = tcp_updateRtt (w_now w1) ts0 s0;
               s2 = (if w_dctcp w1 then tcp_updateDctcp (getFlag ECN_REV pkt \<noteq> 0) s1 else s1)
           in do { (w, s, bs) \<leftarrow> (if ack > src_last_acked s2 then tcp_newAck w1 ack s2 else tcp_dupAck w1 s2);
                   Some (w, s, as @ bs) })"
    using assms(3) by (simp add: tcp_receivePacket_def tcp_receiveAck_def source_free_ack_eq
        w1_def s0_def Let_def)
  define s1 where "s1 = tcp_updateRtt (w_now w1) ts0 s0"
  define s2 where "s2 = (if w_dctcp w1 then tcp_updateDctcp (getFlag ECN_REV pkt \<noteq> 0) s1 else s1)"
  consider "t_state s0 = FINISH" | "t_state s0 \<noteq> FINISH" "tcp_flow_done (w_now w1) ack s0"
    | "t_state s0 \<noteq> FINISH" "\<not> tcp_flow_done (w_now w1) ack s0" "ack < src_last_acked s0"
    | "t_state s0 \<noteq> FINISH" "\<not> tcp_flow_done (w_now w1) ack s0" "src_last_acked s0 \<le> ack"
    by fastforce
  then show ?thesis
  proof cases
    case 2
    have "tcp_inv (s0\<lparr>t_state := FINISH\<rparr>)"
      using s0(1) by (simp add: tcp_inv_def win_inv_def alpha_inv_def rto_inv_def timer_inv_def)
    then show ?thesis using u 2 s0 assms(6) by (simp add: tcp_finish_def Let_def)
  next
    case 4
    have fl: "src_flowsize s0 = 0 \<or> ack < src_flowsize s0"
      using 4(2) by (auto simp: tcp_flow_done_def word_gt_0 not_le)
    have k: "win_inv s2" "alpha_inv s2" "rto_inv s2" "ack_ok w1 ack s2"
        "src_last_acked s2 = src_last_acked s0" "timer_inv s2 = timer_inv s0"
      using tcp_updates_ack_ok [OF s0(1-3) assms(5) fl 4(3) _ s1_def s2_def] assms(7) s0 by auto
    show ?thesis
    proof (cases "ack > src_last_acked s2")
      case True
      then show ?thesis using tcp_newAck_inv [OF k(1-4)] u 4 s0 k(5)
        by (auto simp: Let_def s1_def [symmetric] s2_def [symmetric])
    next
      case False
      then have e: "ack = src_last_acked s2" using 4(3) k(5) by simp
      have "tcp_inv s2" using k s0(1) by (simp add: tcp_inv_def)
      from tcp_dupAck_inv [OF this k(4) [unfolded e]] show ?thesis using u 4 s0 k(5) False
        by (auto simp: Let_def s1_def [symmetric] s2_def [symmetric])
    qed
  qed (use u s0 in \<open>auto simp: Let_def\<close>)
qed

text \<open>In recovery the handler returns even for an acknowledgement of more than has been sent.\<close>

lemma tcp_newAck_recovery:
  assumes "t_state s = FAST_RECOV" "unat ack < 2 ^ 62" "unat (src_highest_sent s) < 2 ^ 62"
  shows "\<exists>w' s' as. tcp_newAck w ack s = Some (w', s', as) \<and> src_last_acked s' = ack"
proof -
  define s1 where "s1 = tcp_rearm (w_now w) ack s"
  have f: "t_state s1 = FAST_RECOV" "src_highest_sent s1 = src_highest_sent s" "t_recover_seq s1 = t_recover_seq s"
    using assms(1) by (simp_all add: s1_def tcp_rearm_def Let_def)
  show ?thesis
  proof (cases "ack \<ge> t_recover_seq s")
    case True
    define s2 where "s2 = tcp_leaveRecovery ack s1"
    have l: "src_last_acked s2 = ack" "src_highest_sent s2 = src_highest_sent s"
      using f by (simp_all add: s2_def tcp_leaveRecovery_def Let_def)
    then have "seq_room s2" using assms(2,3) by (simp add: seq_room_def)
    then obtain n w' s' as where "tcp_sendPackets w s2 = Some (w', s', as)" "s' = tcp_advance (w_now w) n s2"
      using tcp_sendPackets_spec [of s2 w] unfolding sends_segments_def by blast
    then show ?thesis using True f l by (simp add: tcp_newAck_def Let_def s1_def [symmetric] s2_def [symmetric])
  next
    case False
    define s2 where "s2 = tcp_partialAck ack s1"
    obtain w3 s3 bs where r: "tcp_retransmitPacket w s2 = (w3, s3, bs)" by (cases "tcp_retransmitPacket w s2") auto
    have "src_last_acked s2 = ack" "src_highest_sent s2 = src_highest_sent s"
      using f by (simp_all add: s2_def tcp_partialAck_def Let_def)
    then have l: "src_last_acked s3 = ack" "src_highest_sent s3 = src_highest_sent s"
      using tcp_retransmitPacket_spec(1) [OF r] by simp_all
    then have "seq_room s3" using assms(2,3) by (simp add: seq_room_def)
    then obtain n w' s' as where "tcp_sendPackets w3 s3 = Some (w', s', as)" "s' = tcp_advance (w_now w3) n s3"
      using tcp_sendPackets_spec [of s3 w3] unfolding sends_segments_def by blast
    then show ?thesis using False f l r by (simp add: tcp_newAck_def Let_def s1_def [symmetric] s2_def [symmetric])
  qed
qed

lemma tcp_receive_recovery:
  assumes "tcp_inv s" "tcp_room (w_now w) s" "p_class pkt = DataAck sq ack ts0" "unat ack < 2 ^ 62"
    and "tcp_flow_done (w_now w) ack s \<Longrightarrow> src_flowgen s" "t_state s = FAST_RECOV" "src_highest_sent s < ack"
  shows "\<exists>w' s' as. tcp_receivePacket w s pkt = Some (w', s', as) \<and> src_last_acked s \<le> src_last_acked s'"
proof -
  define w1 where "w1 = w\<lparr>w_ackdb := w_ackdb w @ [pkt]\<rparr>"
  define s0 where "s0 = s\<lparr>src_flow := (src_flow s)\<lparr>f_nPackets := f_nPackets (src_flow s) - 1\<rparr>\<rparr>"
  define s1 where "s1 = tcp_updateRtt (w_now w) ts0 s0"
  define s2 where "s2 = (if w_dctcp w then tcp_updateDctcp (getFlag ECN_REV pkt \<noteq> 0) s1 else s1)"
  have lt: "src_last_acked s < ack" using assms(1,7) by (auto simp: tcp_inv_def timer_inv_def)
  show ?thesis
  proof (cases "tcp_flow_done (w_now w) ack s")
    case True
    then have "tcp_flow_done (w_now w) ack s0" "src_flowgen s0" "t_state s0 = FAST_RECOV" "src_last_acked s0 = src_last_acked s"
      using assms(5,6) by (simp_all add: s0_def tcp_flow_done_def)
    then show ?thesis using assms(3) lt
      by (simp add: tcp_receivePacket_def tcp_receiveAck_def source_free_ack_eq s0_def [symmetric] w1_def [symmetric]
          tcp_finish_def Let_def) (simp add: w1_def)
  next
    case False
    have f: "src_last_acked s2 = src_last_acked s" "t_state s2 = FAST_RECOV" "src_highest_sent s2 = src_highest_sent s"
      using assms(6) by (auto simp: s2_def s1_def s0_def)
    have "unat (src_highest_sent s2) < 2 ^ 62" using assms(2) f(3) by (simp add: tcp_room_def)
    then obtain w' s' as where n: "tcp_newAck w1 ack s2 = Some (w', s', as)" "src_last_acked s' = ack"
      using tcp_newAck_recovery [OF f(2) assms(4), of w1] by blast
    have "tcp_receivePacket w s pkt = Some (w', s', Traffic PKT_RCVDESTROY pkt # as)"
      using tcp_receivePacket_processed [OF assms(3) _ False _ w1_def s1_def [unfolded s0_def] s2_def] assms(6) lt f(1) n(1)
      by simp
    then show ?thesis using n(2) lt by simp
  qed
qed

lemma tcp_timeout_spec:
  assumes "tcp_inv s" "unat (src_last_acked s) < 2 ^ 63" "unat (t_rto s) < 2 ^ 60" "unat now < 2 ^ 56"
  shows "tcp_inv (tcp_timeout now s)" "t_cwnd (tcp_timeout now s) = MSS32"
    "t_state (tcp_timeout now s) = SLOW_START" "unat (t_rto (tcp_timeout now s)) = 2 * unat (t_rto s)"
    "t_RTO_timeout (tcp_timeout now s) = now + t_rto s * 2" "t_RTO_timeout (tcp_timeout now s) \<noteq> 0"
    "src_highest_sent (tcp_timeout now s) = src_last_acked s + MSS64"
    "src_last_acked (tcp_timeout now s) = src_last_acked s"
    "t_recover_seq (tcp_timeout now s) = src_highest_sent s"
    "3000 \<le> unat (t_ssthresh (tcp_timeout now s))"
proof -
  define c where "c = (if t_state s = FAST_RECOV
    then min (t_ssthresh s) (ucast (src_highest_sent s - src_last_acked s) + MSS32) else t_cwnd s)"
  define th where "th = max (c div 2) (word_of_int (MSS_BYTES * 2))"
  have e: "tcp_timeout now s = s\<lparr>t_ssthresh := th, t_cwnd := MSS32, t_state := SLOW_START,
      t_recover_seq := src_highest_sent s, src_highest_sent := src_last_acked s + MSS64,
      t_dupacks := 0, t_rto := t_rto s * 2, t_RTO_timeout := now + t_rto s * 2\<rparr>"
    unfolding tcp_timeout_def Let_def th_def c_def by simp
  have "unat (word_of_int (MSS_BYTES * 2) :: u32) = 3000" by (simp add: MSS_BYTES_def)
  then have th: "3000 \<le> unat th" unfolding th_def by (simp add: max_def word_le_nat_alt)
  have r: "unat (t_rto s * 2) = 2 * unat (t_rto s)" using assms(3) unat_mult_64 [of "t_rto s" 2] by simp
  have h: "unat (src_last_acked s + MSS64) = unat (src_last_acked s) + 1500"
    using assms(2) by (subst unat_add_64) simp_all
  have rt: "200000000 \<le> unat (t_rto s)" using assms(1) by (simp add: tcp_inv_def rto_inv_def)
  have "unat (now + t_rto s * 2) = unat now + 2 * unat (t_rto s)"
    using assms(3,4) r by (subst unat_add_64) simp_all
  then have nz: "now + t_rto s * 2 \<noteq> 0" using rt unat_eq_0 [of "now + t_rto s * 2"] by simp
  show "tcp_inv (tcp_timeout now s)"
    using assms(1) th r h rt nz unfolding e
    by (simp add: tcp_inv_def win_inv_def alpha_inv_def rto_inv_def timer_inv_def word_le_nat_alt)
  show "t_cwnd (tcp_timeout now s) = MSS32"
    "t_state (tcp_timeout now s) = SLOW_START" "unat (t_rto (tcp_timeout now s)) = 2 * unat (t_rto s)"
    "t_RTO_timeout (tcp_timeout now s) = now + t_rto s * 2" "t_RTO_timeout (tcp_timeout now s) \<noteq> 0"
    "src_highest_sent (tcp_timeout now s) = src_last_acked s + MSS64"
    "src_last_acked (tcp_timeout now s) = src_last_acked s"
    "t_recover_seq (tcp_timeout now s) = src_highest_sent s"
    "3000 \<le> unat (t_ssthresh (tcp_timeout now s))"
    using th r nz unfolding e by simp_all
qed

end
