(* ===== verification/TcpProps.thy ===== *)
theory TcpProps
  imports TcpSteps
begin

text \<open>
  The properties of \<open>TcpSrc\<close>: safety of the handlers, the segments sent, the window of New Reno
  and of DCTCP, fast retransmit, the retransmission timeout and the periodic event.
\<close>

section \<open>Example states\<close>

definition ex_idle :: tcp_src where
  "ex_idle = (mkTcpSrc (mkDataSource 7 False 0 0 0 0 0 0) False 15000 0)\<lparr>src_flowgen := True\<rparr>"

definition ex_active :: tcp_src where
  "ex_active = ex_idle\<lparr>t_state := SLOW_START, t_cwnd := 3000, t_dctcp_cwnd := 3000,
     src_highest_sent := 3000, src_packets_sent := 3000, t_RTO_timeout := 900000000\<rparr>"

definition ex_ack :: "u64 \<Rightarrow> packet" where
  "ex_ack a = pkt0\<lparr>p_class := DataAck 1 a 900000000\<rparr>"

lemma ex_active_inv: "tcp_inv ex_active" "tcp_room (w_now ex_world) ex_active"
  using timeFromUs_INIT_RTO
  by (simp_all add: tcp_inv_def win_inv_def alpha_inv_def rto_inv_def timer_inv_def tcp_room_def ex_active_def
      ex_idle_def mkTcpSrc_def mkDataSource_def data_source.defs ex_world_def)

lemma ex_active_fields:
  "t_state ex_active = SLOW_START" "src_last_acked ex_active = 0" "src_highest_sent ex_active = 3000"
  "src_flowsize ex_active = 15000" "src_duration ex_active = 0" "src_flowgen ex_active"
  "t_RTO_timeout ex_active = 900000000" "t_rto ex_active = 2500000000" "t_cwnd ex_active = 3000"
  "t_recover_seq ex_active = 0" "w_now ex_world = 1000000000" "\<not> w_dctcp ex_world"
  "t_ssthresh ex_active = 0xffffffff" "t_rtt ex_active = 0" "t_dctcp_cwnd ex_active = 3000"
  using timeFromUs_INIT_RTO
  by (simp_all add: ex_active_def ex_idle_def mkTcpSrc_def mkDataSource_def data_source.defs ex_world_def)

section \<open>Properties\<close>

text \<open>
  C7: the handler of acknowledgements, in a state of the invariant, with sequence numbers, times and windows in
  the range of \<open>tcp_room\<close> and an acknowledgement that was stamped before now. It fails in one case only: the
  acknowledgement ends the flow and there is no flow generator, because \<open>_flowgen->addFct\<close> is called outside
  the test for a null pointer. Otherwise it returns, so there is no division by zero and the sending loop ends,
  and what was acknowledged stays so. It keeps the invariant, that is the window and threshold hold
  a segment, \<open>_alpha\<close> is a fraction, the timeout is at least the minimum and the timer runs while data is
  outstanding, unless the source is in fast recovery and the acknowledgement is beyond the highest byte sent; then
  the window can become 0 (\<open>tcp_ack_beyond_sent\<close>).
\<close>

theorem tcp_receivePacket_safe:
  assumes "tcp_inv s" "tcp_room (w_now w) s" "p_class pkt = DataAck sq ack ts0" "ts0 \<le> w_now w" "unat ack < 2 ^ 62"
  shows "if t_state s \<noteq> FINISH \<and> tcp_flow_done (w_now w) ack s \<and> \<not> src_flowgen s
    then tcp_receivePacket w s pkt = None
    else \<exists>w' s' as. tcp_receivePacket w s pkt = Some (w', s', as) \<and> src_last_acked s \<le> src_last_acked s' \<and>
      (\<not> (t_state s = FAST_RECOV \<and> src_highest_sent s < ack) \<longrightarrow> tcp_inv s')"
proof (cases "t_state s \<noteq> FINISH \<and> tcp_flow_done (w_now w) ack s \<and> \<not> src_flowgen s")
  case True
  then have "tcp_flow_done (w_now w) ack (s\<lparr>src_flow := f\<rparr>)" for f by (simp add: tcp_flow_done_def)
  then show ?thesis using True assms(3)
    by (simp add: tcp_receivePacket_def tcp_receiveAck_def source_free_ack_eq tcp_finish_def Let_def)
next
  case False
  then have g: "tcp_flow_done (w_now w) ack s \<Longrightarrow> t_state s = FINISH \<or> src_flowgen s" by blast
  show ?thesis
  proof (cases "t_state s = FAST_RECOV \<and> src_highest_sent s < ack")
    case True
    then show ?thesis using tcp_receive_recovery [OF assms(1-3,5)] g False by auto
  next
    case False
    then have "t_state s = FAST_RECOV \<Longrightarrow> ack \<le> src_highest_sent s" by simp
    from tcp_receive_inv [OF assms g this] show ?thesis using g by auto
  qed
qed

lemma tcp_receivePacket_safe_witness:
  "(\<exists>w' s' as. tcp_receivePacket ex_world ex_active (ex_ack 1500) = Some (w', s', as) \<and> tcp_inv s') \<and>
    tcp_receivePacket ex_world (ex_active\<lparr>src_flowgen := False\<rparr>) (ex_ack 15000) = None"
proof
  show "\<exists>w' s' as. tcp_receivePacket ex_world ex_active (ex_ack 1500) = Some (w', s', as) \<and> tcp_inv s'"
    using tcp_receivePacket_safe [OF ex_active_inv, of "ex_ack 1500" 1 1500 900000000]
    by (force simp: ex_ack_def ex_active_fields)
  have "tcp_inv (ex_active\<lparr>src_flowgen := False\<rparr>)" "tcp_room (w_now ex_world) (ex_active\<lparr>src_flowgen := False\<rparr>)"
    using ex_active_inv by (simp_all add: tcp_inv_def win_inv_def alpha_inv_def rto_inv_def timer_inv_def tcp_room_def)
  from tcp_receivePacket_safe [OF this, of "ex_ack 15000" 1 15000 900000000]
  show "tcp_receivePacket ex_world (ex_active\<lparr>src_flowgen := False\<rparr>) (ex_ack 15000) = None"
    by (simp add: ex_ack_def ex_active_fields tcp_flow_done_def)
qed

text \<open>
  In fast recovery an acknowledgement of 1500 bytes more than have been sent makes the flight size wrap, and the
  window becomes 0: the invariant is lost.
\<close>

lemma tcp_ack_beyond_sent:
  assumes "s = ex_active\<lparr>t_state := FAST_RECOV, t_recover_seq := 3000\<rparr>"
  shows "tcp_inv s \<and> tcp_room (w_now ex_world) s \<and>
    (\<exists>w' s' as. tcp_receivePacket ex_world s (ex_ack 4500) = Some (w', s', as) \<and> t_cwnd s' = 0 \<and> \<not> tcp_inv s')"
proof -
  define s2 where "s2 = tcp_updateRtt (w_now ex_world) 900000000
    (s\<lparr>src_flow := (src_flow s)\<lparr>f_nPackets := f_nPackets (src_flow s) - 1\<rparr>\<rparr>)"
  define w1 where "w1 = ex_world\<lparr>w_ackdb := w_ackdb ex_world @ [ex_ack 4500]\<rparr>"
  define s3 where "s3 = tcp_leaveRecovery 4500 (tcp_rearm (w_now w1) 4500 s2)"
  have f: "t_state s2 = FAST_RECOV" "src_last_acked s2 = 0" "src_highest_sent s2 = 3000" "t_recover_seq s2 = 3000"
    "src_flowsize s2 = 15000"
    by (simp_all add: s2_def assms ex_active_fields)
  have "min x 18446744073709551616 = (0 :: u32)" for x by (simp add: min_def word_le_nat_alt word_unat_eq_iff)
  then have g: "t_cwnd s3 = 0" "src_last_acked s3 = 4500" "src_highest_sent s3 = 3000"
    using f by (simp_all add: s3_def tcp_leaveRecovery_def tcp_rearm_def Let_def MSS_BYTES_def)
  obtain n w' s' as where snd: "tcp_sendPackets w1 s3 = Some (w', s', as)" "s' = tcp_advance (w_now w1) n s3"
    using tcp_sendPackets_spec [of s3 w1] g by (auto simp: seq_room_def sends_segments_def)
  have "\<not> tcp_flow_done (w_now ex_world) 4500 s" by (simp add: tcp_flow_done_def assms ex_active_fields)
  then have "tcp_receivePacket ex_world s (ex_ack 4500) =
      Some (w', s', Traffic PKT_RCVDESTROY (ex_ack 4500) # tcp_log TCP_RCV_FR_END s3 @ as)"
    using tcp_receivePacket_processed [of "ex_ack 4500" 1 4500 900000000 s ex_world w1 s2 s2] f snd(1)
    by (simp add: ex_ack_def [of 4500] w1_def s2_def assms ex_active_fields tcp_newAck_def Let_def s3_def) 
  moreover have "t_cwnd s' = 0" using snd(2) g(1) by simp
  moreover have "\<not> tcp_inv s'" using \<open>t_cwnd s' = 0\<close> by (simp add: tcp_inv_def win_inv_def)
  moreover have "tcp_inv s" "tcp_room (w_now ex_world) s" using ex_active_inv
    by (simp_all add: assms tcp_inv_def win_inv_def alpha_inv_def rto_inv_def timer_inv_def tcp_room_def)
  ultimately show ?thesis by blast
qed

text \<open>
  C8: \<open>sendPackets\<close> ends, and sends consecutive whole segments from the highest byte sent on, each
  within the congestion window, until the next one would leave the window or the flow is sent.
\<close>

theorem tcp_sendPackets_window:
  assumes "unat (src_last_acked s) < 2 ^ 63" "unat (src_highest_sent s) < 2 ^ 63"
  shows "\<exists>n w' s' as. tcp_sendPackets w s = Some (w', s', as) \<and>
    sent_seqs as = map (\<lambda>i. src_highest_sent s + of_nat i * MSS64 + 1) [0..<n] \<and>
    (\<forall>p \<in> set (sends as). p_size p = MSS64 \<and> p_flow p = f_id (src_flow s)) \<and>
    unat (src_highest_sent s') = unat (src_highest_sent s) + n * 1500 \<and>
    (0 < n \<longrightarrow> unat (src_highest_sent s') \<le> unat (src_last_acked s) + unat (t_cwnd s)) \<and>
    (tcp_flow_sent s' \<or> unat (src_last_acked s) + unat (t_cwnd s) < unat (src_highest_sent s') + 1500)"
proof -
  obtain n w' s' as where s: "tcp_sendPackets w s = Some (w', s', as)" "sends_segments w s n w' s' as"
    using tcp_sendPackets_spec [of s w] assms by (auto simp: seq_room_def)
  have f: "src_last_acked s' = src_last_acked s" "t_cwnd s' = t_cwnd s"
    using s(2) by (simp_all add: sends_segments_def)
  have b: "unat (src_last_acked s') + unat (t_cwnd s') < 18446744073709551616"
    "unat (src_highest_sent s') + 1500 < 18446744073709551616"
    using s(2) f assms unat_lt_2_32 [of "t_cwnd s"] by (cases "n = 0"; force simp: sends_segments_def)+
  have c: "tcp_flow_sent s' \<or> \<not> tcp_window_open s'"
    using s(2) unfolding sends_segments_def by blast
  have "tcp_flow_sent s' \<or> unat (src_last_acked s) + unat (t_cwnd s) < unat (src_highest_sent s') + 1500"
    using tcp_window_open_iff [OF b] c f by auto
  then show ?thesis using s by (auto simp: sends_segments_def own_segment_def)
qed

lemma tcp_sendPackets_window_witness:
  "\<exists>n w' s' as. tcp_sendPackets ex_world ex_active = Some (w', s', as) \<and>
    unat (src_highest_sent s') = 3000 + n * 1500"
  using tcp_sendPackets_window [of ex_active ex_world] by (force simp: ex_active_fields)

text \<open>
  Growth of the window. A new acknowledgement outside fast recovery never shrinks the window;
  below the threshold it adds at most one segment and does not pass the threshold, above it
  at most \<open>MSS * MSS / cwnd\<close> bytes (one at least), and the segments sent fit the new window.
\<close>

lemma tcp_window_growth:
  assumes "win_inv s" "alpha_inv s" "rto_inv s" "ack_ok w ack s" "t_state s \<noteq> FAST_RECOV"
  shows "\<exists>w' s' as. tcp_newAck w ack s = Some (w', s', as) \<and> src_last_acked s' = ack \<and>
    t_cwnd s \<le> t_cwnd s' \<and> t_ssthresh s' = t_ssthresh s \<and> t_state s' = t_state s \<and>
    (if t_cwnd s < t_ssthresh s
     then unat (t_cwnd s') \<le> unat (t_cwnd s) + 1500 \<and> t_cwnd s' \<le> t_ssthresh s
     else unat (t_cwnd s') \<le> unat (t_cwnd s) + max 1 (2250000 div unat (t_cwnd s)))"
proof -
  let ?s1 = "\<lambda>c. (tcp_rearm (w_now w) ack s)\<lparr>src_last_acked := ack, t_dupacks := 0, t_cwnd := c\<rparr>"
  obtain c where c: "tcp_inflateWindow ((tcp_rearm (w_now w) ack s)\<lparr>src_last_acked := ack, t_dupacks := 0\<rparr>) =
      Some (?s1 c)" "unat (t_cwnd s) \<le> unat c" "unat c \<le> unat (t_cwnd s) + 1500"
      "t_cwnd s < t_ssthresh s \<longrightarrow> c \<le> t_ssthresh s"
      "\<not> t_cwnd s < t_ssthresh s \<longrightarrow> unat c \<le> unat (t_cwnd s) + max 1 (2250000 div unat (t_cwnd s))"
      "pre_send w (?s1 c)"
    using tcp_newAck_normal [OF assms] by blast
  obtain n w' s' as where s: "tcp_sendPackets w (?s1 c) = Some (w', s', as)"
      "sends_segments w (?s1 c) n w' s' as"
    using pre_send_sends [OF c(6)] by blast
  have "s' = tcp_advance (w_now w) n (?s1 c)" using s(2) by (simp add: sends_segments_def)
  then show ?thesis using c s(1) assms(5)
    by (simp add: tcp_newAck_def Let_def word_le_nat_alt)
qed

lemma tcp_window_growth_witness:
  "\<exists>w' s' as. tcp_newAck ex_world 1500 ex_active = Some (w', s', as) \<and> unat (t_cwnd s') \<le> 4500"
  using tcp_window_growth [of ex_active ex_world 1500] ex_active_inv(1)
  by (force simp: tcp_inv_def ack_ok_def ex_active_fields)

text \<open>
  C16: fast retransmit. Let the source be neither in recovery nor finished, DCTCP off, and the acknowledgement not
  the end of the flow and the third that repeats \<open>_last_acked\<close>. If the last recovery ended at or before that
  byte, the source enters recovery: it sends the first unacknowledged segment and nothing else, sets the threshold
  to half the window or to two segments, whichever is more, and the window to the threshold and three segments,
  counts a drop and records the highest byte sent as the end of the recovery. Otherwise it sends nothing and
  keeps state, window and threshold.
\<close>

theorem tcp_fast_retransmit:
  assumes "t_state s \<noteq> FAST_RECOV" "t_state s \<noteq> FINISH" "t_dupacks s = 2"
    and "p_class pkt = DataAck sq (src_last_acked s) ts0" "\<not> w_dctcp w"
    and "\<not> tcp_flow_done (w_now w) (src_last_acked s) s"
  shows "\<exists>w' s' as. tcp_receivePacket w s pkt = Some (w', s', as) \<and> src_last_acked s' = src_last_acked s \<and>
    (if t_recover_seq s \<le> src_last_acked s
     then t_state s' = FAST_RECOV \<and> sent_seqs as = [src_last_acked s + 1] \<and> t_recover_seq s' = src_highest_sent s \<and>
       t_ssthresh s' = max (t_cwnd s div 2) 3000 \<and> t_cwnd s' = t_ssthresh s' + 4500 \<and> t_drops s' = t_drops s + 1
     else t_state s' = t_state s \<and> sent_seqs as = [] \<and> t_recover_seq s' = t_recover_seq s \<and>
       t_ssthresh s' = t_ssthresh s \<and> t_cwnd s' = t_cwnd s \<and> t_drops s' = t_drops s)"
proof -
  define w1 where "w1 = w\<lparr>w_ackdb := w_ackdb w @ [pkt]\<rparr>"
  define s1 where "s1 = tcp_updateRtt (w_now w) ts0
    (s\<lparr>src_flow := (src_flow s)\<lparr>f_nPackets := f_nPackets (src_flow s) - 1\<rparr>\<rparr>)"
  have f: "t_state s1 = t_state s" "t_dupacks s1 = 2" "src_last_acked s1 = src_last_acked s"
    "t_recover_seq s1 = t_recover_seq s" "t_cwnd s1 = t_cwnd s" "src_highest_sent s1 = src_highest_sent s"
    "t_drops s1 = t_drops s" "t_ssthresh s1 = t_ssthresh s"
    using assms(3) by (simp_all add: s1_def) (simp_all add: tcp_updateRtt_def Let_def)
  note p = tcp_receivePacket_processed [OF assms(4,2,6) _ w1_def s1_def refl]
  show ?thesis
  proof (cases "t_recover_seq s \<le> src_last_acked s")
    case False
    have "tcp_receivePacket w s pkt = Some (w1, s1\<lparr>t_dupacks := 3\<rparr>,
        Traffic PKT_RCVDESTROY pkt # tcp_log TCP_RCV_3DUPNOFR (s1\<lparr>t_dupacks := 3\<rparr>))"
      using p assms(1,5) f False by (simp add: tcp_dupAck_def Let_def not_le)
    then show ?thesis using f False by (auto simp: tcp_log_def sent_seqs_def)
  next
    case True
    define s2 where "s2 = tcp_enterRecovery (s1\<lparr>t_dupacks := 3\<rparr>)"
    obtain w3 s3 as3 where r: "tcp_retransmitPacket w1 s2 = (w3, s3, as3)"
      by (cases "tcp_retransmitPacket w1 s2") auto
    have e: "tcp_receivePacket w s pkt =
        Some (w3, s3, [Traffic PKT_RCVDESTROY pkt] @ as3 @ tcp_log TCP_RCV_DUP_FASTXMIT s3)"
      using p assms(1,5) True f r by (simp add: tcp_dupAck_def Let_def s2_def not_less [symmetric])
    have s2: "t_ssthresh s2 = max (t_cwnd s div 2) 3000" "t_cwnd s2 = t_ssthresh s2 + 4500"
      "t_state s2 = FAST_RECOV" "t_recover_seq s2 = src_highest_sent s" "t_drops s2 = t_drops s + 1"
      "src_last_acked s2 = src_last_acked s"
      using f by (simp_all add: s2_def tcp_enterRecovery_def Let_def MSS_BYTES_def)
    show ?thesis
      using e tcp_retransmitPacket_spec(1,3) [OF r] s2 True
      by (auto simp: tcp_rexmit_def sent_seqs_def tcp_log_def)
  qed
qed

lemma tcp_fast_retransmit_witness:
  "\<exists>w' s' as. tcp_receivePacket ex_world (ex_active\<lparr>t_dupacks := 2\<rparr>) (ex_ack 0) = Some (w', s', as) \<and>
    sent_seqs as = [1] \<and> t_cwnd s' = 7500"
proof -
  have "\<not> tcp_flow_done (w_now ex_world) 0 (ex_active\<lparr>t_dupacks := 2\<rparr>)"
    using ex_active_fields by (simp add: tcp_flow_done_def)
  then show ?thesis
    using tcp_fast_retransmit [of "ex_active\<lparr>t_dupacks := 2\<rparr>" "ex_ack 0" 1 900000000 ex_world] ex_active_fields
    by (auto simp: ex_ack_def)
qed

text \<open>
  C17: the retransmission timeout. The event of an expired timer sends the first unacknowledged
  segment and nothing else, starts again in slow start with a window of one segment and a
  threshold of at least two, doubles the timeout and arms the timer with it, keeps the
  invariant and schedules the next event.
\<close>

theorem tcp_retransmission_timeout:
  assumes "tcp_inv s" "t_state s \<noteq> FINISH" "t_RTO_timeout s \<noteq> 0" "t_RTO_timeout s \<le> w_now w"
    and "unat (src_last_acked s) < 2 ^ 63" "unat (t_rto s) < 2 ^ 60" "unat (w_now w) < 2 ^ 56"
  shows "\<exists>w' s' as. tcp_doNextEvent w s = Some (w', s', as) \<and> tcp_inv s' \<and>
    sent_seqs as = [src_last_acked s + 1] \<and> t_state s' = SLOW_START \<and> t_cwnd s' = MSS32 \<and>
    3000 \<le> unat (t_ssthresh s') \<and> unat (t_rto s') = 2 * unat (t_rto s) \<and>
    t_RTO_timeout s' = w_now w + t_rto s * 2 \<and> t_recover_seq s' = src_highest_sent s \<and>
    length (scheds as) = 1"
proof -
  define s1 where "s1 = tcp_timeout (w_now w) s"
  note t = tcp_timeout_spec [OF assms(1,5,6,7), folded s1_def]
  obtain w2 s2 as2 where r: "tcp_retransmitPacket w s1 = (w2, s2, as2)"
    by (cases "tcp_retransmitPacket w s1") auto
  note rs = tcp_retransmitPacket_spec [OF r]
  have st: "t_state s \<noteq> IDLE" using assms(1) by (simp add: tcp_inv_def win_inv_def)
  have e: "tcp_doNextEvent w s = Some (w2, s2, tcp_log TCP_TIMEOUT s @ as2 @ tcp_resched s2)"
    using st assms(2-4) r by (simp add: tcp_doNextEvent_def Let_def s1_def)
  have "tcp_inv s2" "t_RTO_timeout s2 = t_RTO_timeout s1"
    using t(1,6) by (simp_all add: rs(1) tcp_inv_def timer_inv_def) (simp_all add: tcp_rexmit_def)
  moreover have "sent_seqs (tcp_resched s2) = []" "length (scheds (tcp_resched s2)) = 1"
    by (simp_all add: tcp_resched_def sent_seqs_def)
  ultimately show ?thesis using e rs t by auto
qed

lemma tcp_retransmission_timeout_witness:
  "\<exists>w' s' as. tcp_doNextEvent ex_world ex_active = Some (w', s', as) \<and> sent_seqs as = [1] \<and>
    t_state s' = SLOW_START \<and> unat (t_rto s') = 5000000000"
  using tcp_retransmission_timeout [OF ex_active_inv(1), of ex_world] by (force simp: ex_active_fields)

text \<open>
  C25: the periodic event of a source. It either deletes a finished flow that has no packet
  left in the network, or schedules itself exactly once more, after a round-trip time or the
  minimal timeout; so no flow is forgotten by the event list.
\<close>

theorem tcp_event_rescheduled:
  assumes "unat (src_last_acked s) < 2 ^ 63" "unat (src_highest_sent s) < 2 ^ 63"
  shows "\<exists>w' s' as. tcp_doNextEvent w s = Some (w', s', as) \<and>
    (if t_state s = FINISH \<and> f_nPackets (src_flow s) = 0 then as = [DeleteFlow]
     else scheds as = [SchedRel (if t_rtt s \<noteq> 0 then t_rtt s else 200000000)])"
proof -
  have sr: "scheds (tcp_resched s') = [SchedRel (if t_rtt s \<noteq> 0 then t_rtt s else 200000000)]"
    if "t_rtt s' = t_rtt s" for s' using that timeFromUs_MIN_RTO by (simp add: tcp_resched_def)
  let ?i = "s\<lparr>t_state := SLOW_START, t_cwnd := word_of_int (2 * MSS_BYTES),
    t_dctcp_cwnd := ucast (word_of_int (2 * MSS_BYTES) :: u32)\<rparr>"
  consider "t_state s = IDLE" | "t_state s = FINISH"
    | "t_state s \<noteq> IDLE" "t_state s \<noteq> FINISH" "t_RTO_timeout s \<noteq> 0 \<and> w_now w \<ge> t_RTO_timeout s"
    | "t_state s \<noteq> IDLE" "t_state s \<noteq> FINISH" "\<not> (t_RTO_timeout s \<noteq> 0 \<and> w_now w \<ge> t_RTO_timeout s)"
    by blast
  then show ?thesis
  proof cases
    case 1
    obtain n w' s' as where s: "tcp_sendPackets w ?i = Some (w', s', as)" "sends_segments w ?i n w' s' as"
      using tcp_sendPackets_spec [of ?i w] assms by (auto simp: seq_room_def)
    then have "t_rtt s' = t_rtt s" "scheds as = []" by (simp_all add: sends_segments_def)
    then show ?thesis using 1 s(1) sr by (simp add: tcp_doNextEvent_def Let_def)
  next
    case 2
    then show ?thesis using sr by (simp add: tcp_doNextEvent_def)
  next
    case 3
    obtain w2 s2 as2 where r: "tcp_retransmitPacket w (tcp_timeout (w_now w) s) = (w2, s2, as2)"
      by (cases "tcp_retransmitPacket w (tcp_timeout (w_now w) s)") auto
    have "t_rtt s2 = t_rtt s" "scheds as2 = []"
      using tcp_retransmitPacket_spec [OF r] by (simp_all add: tcp_timeout_def Let_def)
    then show ?thesis using 3 r sr by (simp add: tcp_doNextEvent_def Let_def)
  next
    case 4
    then show ?thesis using sr by (auto simp: tcp_doNextEvent_def)
  qed
qed

lemma tcp_event_rescheduled_witness:
  "\<exists>w' s' as. tcp_doNextEvent ex_world ex_active = Some (w', s', as) \<and> scheds as = [SchedRel 200000000]"
  using tcp_event_rescheduled [of ex_active ex_world] by (force simp: ex_active_fields)

text \<open>
  The start of a flow of more than one segment sends the first two segments, opens a window
  of two segments in slow start and arms the timer with the initial timeout.
\<close>

lemma tcp_flow_start:
  assumes "t_state s = IDLE" "src_last_acked s = 0" "src_highest_sent s = 0" "t_RTO_timeout s = 0"
    and "src_flowsize s = 0 \<or> 1500 < unat (src_flowsize s)"
  shows "\<exists>w' s' as. tcp_doNextEvent w s = Some (w', s', as) \<and> sent_seqs as = [1, 1501] \<and>
    t_state s' = SLOW_START \<and> t_cwnd s' = 3000 \<and> t_RTO_timeout s' = w_now w + t_rto s \<and>
    src_highest_sent s' = 3000 \<and> src_flowgen s' = src_flowgen s"
proof -
  define i where "i = s\<lparr>t_state := SLOW_START, t_cwnd := 3000, t_dctcp_cwnd := 3000\<rparr>"
  have ids: "unat (t_cwnd i) = 3000" "src_last_acked i = 0" "src_highest_sent i = 0"
    "src_flowsize i = src_flowsize s" using assms by (simp_all add: i_def)
  obtain n w' s' as where s: "tcp_sendPackets w i = Some (w', s', as)" "sends_segments w i n w' s' as"
    using tcp_sendPackets_spec [of i w] ids by (auto simp: seq_room_def)
  have sf: "s' = tcp_advance (w_now w) n i" "unat (src_highest_sent s') = n * 1500"
    "0 < n \<longrightarrow> n * 1500 \<le> 3000" "tcp_flow_sent s' \<or> \<not> tcp_window_open s'"
    using s(2) ids by (auto simp: sends_segments_def)
  have n2: "n \<le> 2" using sf(3) by (cases "n = 0") simp_all
  have "tcp_window_open s' \<longleftrightarrow> n * 1500 + 1500 \<le> 3000"
    using tcp_window_open_iff [of s'] sf(1,2) n2 ids by simp
  moreover have "tcp_flow_sent s' \<longrightarrow> 1500 < n * 1500"
    using sf(1,2) assms(5) ids by (auto simp: tcp_flow_sent_def word_le_nat_alt)
  ultimately have n: "n = 2" using sf(4) n2 by linarith
  have "[0..<2] = [0, 1 :: nat]" by (simp add: upt_rec)
  then have q: "sent_seqs as = [1, 1501]"
    using s(2) n ids by (simp add: sends_segments_def MSS_BYTES_def)
  have e: "tcp_doNextEvent w s = Some (w', s', as @ tcp_resched s')"
    using assms(1) s(1) by (simp add: tcp_doNextEvent_def Let_def i_def MSS_BYTES_def)
  have "src_highest_sent s' = 3000" using sf(2) n by (simp add: word_unat_eq_iff)
  then show ?thesis using e q sf(1) n assms(4) by (simp add: i_def tcp_advance_def tcp_resched_def sent_seqs_def)
qed

lemma tcp_flow_start_witness:
  "\<exists>w' s' as. tcp_doNextEvent ex_world ex_idle = Some (w', s', as) \<and> sent_seqs as = [1, 1501]"
  using tcp_flow_start [of ex_idle ex_world]
  by (force simp: ex_idle_def mkTcpSrc_def mkDataSource_def data_source.defs)

text \<open>
  C18: DCTCP. Counting an acknowledgement keeps \<open>_alpha\<close> between 0 and 1 and never enlarges the
  window or takes it below a segment; while no mark was ever seen it does not touch the window.
\<close>

theorem dctcp_window_cut:
  assumes "win_inv s" "alpha_inv s" "unat (t_dctcp_cwnd s) < 2 ^ 31"
  shows "let s' = tcp_updateDctcp marked s in 0 \<le> t_alpha s' \<and> t_alpha s' \<le> 1 \<and>
    1500 \<le> unat (t_cwnd s') \<and> t_cwnd s' \<le> t_cwnd s \<and>
    (t_alpha s = 0 \<and> t_marked_pkts s = 0 \<and> \<not> marked \<longrightarrow> t_cwnd s' = t_cwnd s \<and> t_alpha s' = 0)"
proof -
  have "t_cwnd (tcp_updateDctcp marked s) = t_cwnd s \<and> t_alpha (tcp_updateDctcp marked s) = 0"
    if "t_alpha s = 0" "t_marked_pkts s = 0" "\<not> marked"
    using that by (simp add: tcp_updateDctcp_def tcp_updateAlpha_def dctcp_alpha_def Let_def)
  then show ?thesis
    using tcp_updateDctcp_inv [OF assms, of marked]
    by (simp add: Let_def win_inv_def alpha_inv_def word_le_nat_alt)
qed

lemma dctcp_window_cut_witness:
  "1500 \<le> unat (t_cwnd (tcp_updateDctcp True ex_active))"
  using dctcp_window_cut [of ex_active True] ex_active_inv(1)
  by (simp add: Let_def tcp_inv_def ex_active_fields)

end
