(* ===== verification/Sink.thy ===== *)
theory Sink
  imports Network
begin

text \<open>
  \<open>datasink.h\<close>, \<open>datasink.cpp\<close> and the sink of \<open>tcp.cpp\<close>: reassembly of the byte stream and the
  acknowledgement. The abstract state of a sink is the set of segments it has seen; its
  cumulative acknowledgement is the length of the longest complete prefix.
\<close>

section \<open>The reassembly buffer\<close>

record data_sink =
  ds_cumulative_ack :: u64
  ds_received :: "(u64 \<times> u64) list"

definition mkDataSink :: data_sink where
  "mkDataSink = \<lparr>ds_cumulative_ack = 0, ds_received = []\<rparr>"

text \<open>The \<open>while\<close> loop that acknowledges buffered packets.\<close>

fun ack_buffered :: "u64 \<Rightarrow> (u64 \<times> u64) list \<Rightarrow> u64 \<times> (u64 \<times> u64) list" where
  "ack_buffered cum [] = (cum, [])"
| "ack_buffered cum ((s, z) # rs) =
     (if cum + 1 = s then ack_buffered (cum + z) rs else (cum, (s, z) # rs))"

text \<open>The \<open>for\<close> loop that inserts a packet in the right position.\<close>

fun insert_received :: "u64 \<Rightarrow> u64 \<Rightarrow> (u64 \<times> u64) list \<Rightarrow> (u64 \<times> u64) list" where
  "insert_received sq sz [] = []"
| "insert_received sq sz ((s, z) # rs) =
     (if sq = s then (s, z) # rs
      else if sq < s then (sq, sz) # (s, z) # rs
      else (s, z) # insert_received sq sz rs)"

definition processDataPacket :: "'a data_sink_scheme \<Rightarrow> u64 \<Rightarrow> u64 \<Rightarrow> 'a data_sink_scheme" where
  "processDataPacket d sq sz =
     (if sq = ds_cumulative_ack d + 1
      then let (cum, rs) = ack_buffered (sq + sz - 1) (ds_received d)
           in d\<lparr>ds_cumulative_ack := cum, ds_received := rs\<rparr>
      else if sq \<le> ds_cumulative_ack d then d
      else if ds_received d = [] then d\<lparr>ds_received := ds_received d @ [(sq, sz)]\<rparr>
      else if sq > fst (last (ds_received d)) then d\<lparr>ds_received := ds_received d @ [(sq, sz)]\<rparr>
      else d\<lparr>ds_received := insert_received sq sz (ds_received d)\<rparr>)"

section \<open>Refinement of a set of segments\<close>

text \<open>
  Segment \<open>k\<close> of size \<open>m\<close> carries the bytes \<open>k * m + 1\<close> to \<open>(k + 1) * m\<close>. Every source of the
  simulator sends segments of \<open>MSS_BYTES\<close>.
\<close>

definition cum_at :: "nat \<Rightarrow> nat \<Rightarrow> u64" where
  "cum_at m n = of_nat (n * m)"

definition seg :: "nat \<Rightarrow> nat \<Rightarrow> u64 \<times> u64" where
  "seg m k = (cum_at m k + 1, of_nat m)"

definition mex :: "nat set \<Rightarrow> nat" where
  "mex R = (LEAST n. n \<notin> R)"

definition sink_rep :: "nat \<Rightarrow> nat set \<Rightarrow> 'a data_sink_scheme \<Rightarrow> bool" where
  "sink_rep m R d \<longleftrightarrow> (\<exists>n ks. ds_cumulative_ack d = cum_at m n \<and>
     ds_received d = map (seg m) ks \<and> sorted_wrt (<) ks \<and> (\<forall>k \<in> set ks. n < k) \<and>
     R = {..<n} \<union> set ks)"

text \<open>The segments that can be numbered in 64 bits.\<close>

definition seg_ok :: "nat \<Rightarrow> nat \<Rightarrow> bool" where
  "seg_ok m k \<longleftrightarrow> 0 < m \<and> (k + 1) * m + 1 < 18446744073709551616"

lemma mex_prefix: "(\<forall>k \<in> K. n < k) \<Longrightarrow> mex ({..<n} \<union> K) = n"
  unfolding mex_def by (rule Least_equality) (auto simp: not_less [symmetric])

lemma seg_ok_le:
  assumes "seg_ok m k" "j \<le> k"
  shows "seg_ok m j"
proof -
  have "(j + 1) * m \<le> (k + 1) * m" using assms(2) by (intro mult_le_mono1) simp
  then show ?thesis using assms(1) unfolding seg_ok_def by linarith
qed

lemma unat_cum_at: "n * m < 18446744073709551616 \<Longrightarrow> unat (cum_at m n) = n * m"
  unfolding cum_at_def by (rule unat_of_nat_64)

lemma seg_ok_bounds:
  "seg_ok m k \<Longrightarrow> k * m < 18446744073709551616 \<and> k * m + 1 < 18446744073709551616 \<and> 0 < m"
  by (simp add: seg_ok_def)

lemma unat_seg_start:
  assumes "seg_ok m k"
  shows "unat (cum_at m k + 1) = k * m + 1"
proof -
  have "cum_at m k + 1 = of_nat (k * m + 1)" by (simp add: cum_at_def)
  then show ?thesis using seg_ok_bounds [OF assms] by (simp only: unat_of_nat_64)
qed

lemma seg_start_less:
  assumes "seg_ok m j" "seg_ok m k"
  shows "cum_at m j + 1 < cum_at m k + 1 \<longleftrightarrow> j < k"
  using unat_seg_start [OF assms(1)] unat_seg_start [OF assms(2)] seg_ok_bounds [OF assms(1)]
  by (simp add: word_less_nat_alt)

lemma seg_start_eq:
  assumes "seg_ok m j" "seg_ok m k"
  shows "cum_at m j = cum_at m k \<longleftrightarrow> j = k"
  using seg_start_less [OF assms] seg_start_less [OF assms(2,1)] by (metis less_irrefl nat_neq_iff)

lemma cum_at_Suc: "cum_at m k + of_nat m = cum_at m (Suc k)"
  by (simp add: cum_at_def)

lemma seg_start_old:
  assumes "k < n" "n * m < 18446744073709551616" "0 < m"
  shows "cum_at m k + 1 \<le> cum_at m n"
proof -
  have "(k + 1) * m \<le> n * m" using assms(1) by (intro mult_le_mono1) simp
  then have le: "k * m + 1 \<le> n * m" using assms(3) by simp
  then have "unat (cum_at m k) + 1 < 18446744073709551616" "k * m < 18446744073709551616"
    using assms(2) unat_cum_at [of k m] by auto
  then have "unat (cum_at m k + 1) = k * m + 1"
    by (subst unat_add_64) (simp_all add: unat_cum_at)
  then show ?thesis using le unat_cum_at [OF assms(2)] by (simp add: word_le_nat_alt)
qed

lemma ack_buffered_spec:
  assumes "sorted_wrt (<) ks" "\<forall>k \<in> set ks. n \<le> k" "\<forall>k \<in> set ks. seg_ok m k"
  shows "\<exists>n' ks'. ack_buffered (cum_at m n) (map (seg m) ks) = (cum_at m n', map (seg m) ks') \<and>
    sorted_wrt (<) ks' \<and> (\<forall>k \<in> set ks'. n' < k) \<and> {..<n} \<union> set ks = {..<n'} \<union> set ks'"
  using assms
proof (induction ks arbitrary: n)
  case Nil
  then show ?case by (intro exI [of _ n] exI [of _ "[]"]) simp
next
  case (Cons k ks)
  have k: "n \<le> k" "seg_ok m k" "sorted_wrt (<) ks" "\<forall>j \<in> set ks. k < j" "\<forall>j \<in> set ks. seg_ok m j"
    using Cons.prems by auto
  show ?case
  proof (cases "n = k")
    case False
    then have "cum_at m n \<noteq> cum_at m k"
      using seg_start_eq [OF seg_ok_le [OF k(2,1)] k(2)] by simp
    then have "ack_buffered (cum_at m n) (map (seg m) (k # ks)) = (cum_at m n, map (seg m) (k # ks))"
      by (simp add: seg_def)
    moreover have "\<forall>j \<in> set (k # ks). n < j" using False k by auto
    ultimately show ?thesis using Cons.prems(1) by blast
  next
    case True
    have step: "ack_buffered (cum_at m n) (map (seg m) (k # ks)) =
        ack_buffered (cum_at m (Suc n)) (map (seg m) ks)"
      using True by (simp add: seg_def cum_at_Suc)
    have pre: "\<forall>j \<in> set ks. Suc n \<le> j" using k(4) True by auto
    obtain n' ks' where IH: "ack_buffered (cum_at m (Suc n)) (map (seg m) ks) = (cum_at m n', map (seg m) ks')"
        "sorted_wrt (<) ks'" "\<forall>k \<in> set ks'. n' < k" "{..<Suc n} \<union> set ks = {..<n'} \<union> set ks'"
      using Cons.IH [OF k(3) pre k(5)] by blast
    have "{..<n} \<union> set (k # ks) = {..<Suc n} \<union> set ks" using True by auto
    also have "\<dots> = {..<n'} \<union> set ks'" by (rule IH(4))
    finally have eq: "{..<n} \<union> set (k # ks) = {..<n'} \<union> set ks'" .
    show ?thesis unfolding step eq using IH(1-3) by blast
  qed
qed

lemma insert_received_spec:
  assumes "sorted_wrt (<) ks" "\<forall>j \<in> set ks. seg_ok m j" "seg_ok m k" "ks \<noteq> []" "k \<le> last ks"
  shows "insert_received (cum_at m k + 1) (of_nat m) (map (seg m) ks) =
    map (seg m) (if k \<in> set ks then ks else insort k ks)"
  using assms
proof (induction ks)
  case Nil
  then show ?case by simp
next
  case (Cons j js)
  consider "k = j" | "k < j" | "j < k" by linarith
  then show ?case
  proof cases
    case 1
    then show ?thesis by (simp add: seg_def)
  next
    case 2
    then have "k \<notin> set (j # js)" using Cons.prems(1) by auto
    then show ?thesis using 2 seg_start_less [of m k j] seg_start_eq [of m k j] Cons.prems
      by (simp add: seg_def)
  next
    case 3
    then have "js \<noteq> []" using Cons.prems(5) by auto
    then show ?thesis using 3 Cons seg_start_less [of m k j] seg_start_eq [of m k j]
      by (auto simp: seg_def)
  qed
qed

lemma sorted_wrt_less_insort:
  "sorted_wrt (<) ks \<Longrightarrow> k \<notin> set ks \<Longrightarrow> sorted_wrt (<) (insort k (ks :: nat list))"
  by (simp add: strict_sorted_iff sorted_insort distinct_insort)

lemma sorted_wrt_less_snoc:
  "sorted_wrt (<) ks \<Longrightarrow> ks = [] \<or> last ks < k \<Longrightarrow> sorted_wrt (<) (ks @ [k :: nat])"
proof (induction ks)
  case (Cons a ks)
  then show ?case
    using last_in_set [of ks] by (cases "ks = []") (auto intro: less_trans)
qed simp

text \<open>The three cases of \<open>processDataPacket\<close> on an aligned segment.\<close>

lemma process_next:
  assumes "ds_cumulative_ack d = cum_at m n" "ds_received d = map (seg m) ks"
    "sorted_wrt (<) ks" "\<forall>j \<in> set ks. n < j" "\<forall>j \<in> set ks. seg_ok m j"
  shows "sink_rep m ({..<Suc n} \<union> set ks) (processDataPacket d (fst (seg m n)) (snd (seg m n)))"
proof -
  obtain n' ks' where a: "ack_buffered (cum_at m (Suc n)) (map (seg m) ks) = (cum_at m n', map (seg m) ks')"
      "sorted_wrt (<) ks'" "\<forall>k \<in> set ks'. n' < k" "{..<Suc n} \<union> set ks = {..<n'} \<union> set ks'"
    using ack_buffered_spec [OF assms(3) _ assms(5), of "Suc n"] assms(4) Suc_le_eq by blast
  have e: "cum_at m n + 1 + of_nat m - 1 = cum_at m (Suc n)" by (simp add: cum_at_Suc [symmetric])
  have "processDataPacket d (fst (seg m n)) (snd (seg m n)) =
      d\<lparr>ds_cumulative_ack := cum_at m n', ds_received := map (seg m) ks'\<rparr>"
    using a(1) assms(1,2) unfolding processDataPacket_def seg_def fst_conv snd_conv e
    by (simp add: seg_def)
  then show ?thesis unfolding sink_rep_def
    using a by (intro exI [of _ n'] exI [of _ ks']) simp
qed

lemma process_old:
  assumes "ds_cumulative_ack d = cum_at m n" "k < n" "n * m < 18446744073709551616" "seg_ok m k"
  shows "processDataPacket d (fst (seg m k)) (snd (seg m k)) = d"
proof -
  have le: "cum_at m k + 1 \<le> cum_at m n"
    using assms by (intro seg_start_old) (simp_all add: seg_ok_def)
  have "k * m \<noteq> n * m" using assms(2,4) by (simp add: seg_ok_def)
  then have "cum_at m k \<noteq> cum_at m n"
    using unat_cum_at [of k m] unat_cum_at [OF assms(3)] seg_ok_bounds [OF assms(4)] by metis
  then show ?thesis using assms(1) le by (simp add: processDataPacket_def seg_def)
qed

lemma process_ahead:
  assumes "ds_cumulative_ack d = cum_at m n" "ds_received d = map (seg m) ks"
    "sorted_wrt (<) ks" "\<forall>j \<in> set ks. n < j" "\<forall>j \<in> set ks. seg_ok m j" "n < k" "seg_ok m k"
  shows "sink_rep m ({..<n} \<union> insert k (set ks)) (processDataPacket d (fst (seg m k)) (snd (seg m k)))"
proof -
  have okn: "seg_ok m n" using assms(6,7) seg_ok_le by simp
  have "n * m < k * m + 1"
    using mult_le_mono1 [OF less_imp_le [OF assms(6)], of m] by linarith
  then have "unat (cum_at m n) < unat (cum_at m k + 1)"
    using unat_seg_start [OF assms(7)] unat_cum_at [of n m] seg_ok_bounds [OF okn] by simp
  then have c: "\<not> cum_at m k + 1 \<le> cum_at m n" "cum_at m k \<noteq> cum_at m n"
    using seg_start_eq [OF assms(7) okn] assms(6) by (auto simp: word_le_nat_alt)
  show ?thesis
  proof (cases "ks = [] \<or> last ks < k")
    case True
    then have "processDataPacket d (fst (seg m k)) (snd (seg m k)) = d\<lparr>ds_received := map (seg m) (ks @ [k])\<rparr>"
      using c assms(1,2,5,7) seg_start_less [of m "last ks" k]
      by (auto simp: processDataPacket_def seg_def last_map)
    then show ?thesis unfolding sink_rep_def
      using assms(1,4,6) sorted_wrt_less_snoc [OF assms(3) True]
      by (intro exI [of _ n] exI [of _ "ks @ [k]"]) simp
  next
    case False
    then have l: "ks \<noteq> []" "k \<le> last ks" by auto
    have "processDataPacket d (fst (seg m k)) (snd (seg m k)) =
        d\<lparr>ds_received := map (seg m) (if k \<in> set ks then ks else insort k ks)\<rparr>"
      using c assms(1,2,5,7) l insert_received_spec [OF assms(3,5,7) l] seg_start_less [of m "last ks" k]
      by (auto simp: processDataPacket_def seg_def last_map)
    then show ?thesis unfolding sink_rep_def
      using assms(1,3,4,6) sorted_wrt_less_insort [of ks k]
      by (intro exI [of _ n] exI [of _ "if k \<in> set ks then ks else insort k ks"])
        (auto simp: set_insort_key)
  qed
qed

text \<open>The refinement: processing a segment adds it to the set of segments seen.\<close>

lemma processDataPacket_refines:
  assumes "sink_rep m R d" "\<forall>j \<in> R. seg_ok m j" "seg_ok m k"
  shows "sink_rep m (insert k R) (processDataPacket d (fst (seg m k)) (snd (seg m k)))"
proof -
  obtain n ks where r: "ds_cumulative_ack d = cum_at m n" "ds_received d = map (seg m) ks"
      "sorted_wrt (<) ks" "\<forall>j \<in> set ks. n < j" "R = {..<n} \<union> set ks"
    using assms(1) by (auto simp: sink_rep_def)
  have okk: "\<forall>j \<in> set ks. seg_ok m j" using assms(2) r(5) by auto
  consider "k = n" | "k < n" | "n < k" by linarith
  then show ?thesis
  proof cases
    case 1
    then have "insert k R = {..<Suc n} \<union> set ks" using r(5) by auto
    then show ?thesis using process_next [OF r(1-4) okk] 1 by simp
  next
    case 2
    have "seg_ok m (n - 1)" using 2 assms(2) r(5) by auto
    then have "n * m < 18446744073709551616" using 2 by (simp add: seg_ok_def)
    moreover have "insert k R = R" using 2 r(5) by auto
    ultimately show ?thesis using process_old [OF r(1) 2 _ assms(3)] assms(1) by simp
  next
    case 3
    have "insert k R = {..<n} \<union> insert k (set ks)" using r(5) by auto
    then show ?thesis using process_ahead [OF r(1-4) okk 3 assms(3)] by simp
  qed
qed

lemma sink_rep_init: "sink_rep m {} (mkDataSink)"
  unfolding sink_rep_def mkDataSink_def
  by (intro exI [of _ 0] exI [of _ "[]"]) (simp add: cum_at_def)

lemma sink_rep_cumulative: "sink_rep m R d \<Longrightarrow> ds_cumulative_ack d = of_nat (mex R * m)"
  by (auto simp: sink_rep_def mex_prefix cum_at_def)

text \<open>A sink that receives a list of segments, in any order and with repetitions.\<close>

definition sink_run :: "nat \<Rightarrow> nat list \<Rightarrow> data_sink" where
  "sink_run m ks = fold (\<lambda>k d. processDataPacket d (fst (seg m k)) (snd (seg m k))) ks mkDataSink"

lemma sink_run_rep:
  assumes "\<forall>k \<in> set ks. seg_ok m k"
  shows "sink_rep m (set ks) (sink_run m ks)"
proof -
  have "sink_rep m (R \<union> set ks) (fold (\<lambda>k d. processDataPacket d (fst (seg m k)) (snd (seg m k))) ks d)"
    if "sink_rep m R d" "\<forall>j \<in> R. seg_ok m j" for R and d :: data_sink
    using that assms
  proof (induction ks arbitrary: R d)
    case (Cons k ks)
    then show ?case
      using Cons.IH [of "insert k R" "processDataPacket d (fst (seg m k)) (snd (seg m k))"]
        processDataPacket_refines [of m R d k] by simp
  qed simp
  from this [OF sink_rep_init] show ?thesis by (simp add: sink_run_def)
qed

end
