(* ===== verification/TcpSinkModel.thy ===== *)
theory TcpSinkModel
  imports Sink TcpSend
begin

text \<open>
  \<open>TcpSink\<close> of \<open>tcp.cpp\<close> and the connection of \<open>datasink.cpp\<close>: the receiver of a flow answers
  every segment with a cumulative acknowledgement that echoes the segment's time stamp and ECN mark.
\<close>

section \<open>Operations\<close>

record tcp_sink = data_sink +
  sk_src :: u32
  sk_route :: nat

definition sink_connect :: "u32 \<Rightarrow> nat \<Rightarrow> tcp_sink \<Rightarrow> tcp_sink" where
  "sink_connect src route d = d\<lparr>sk_src := src, sk_route := route\<rparr>"

definition cumulative_ack :: "tcp_sink \<Rightarrow> u64" where
  "cumulative_ack d = ds_cumulative_ack d"

text \<open>The histogram of the deadlines of received packets.\<close>

definition sink_countDeadline :: "packet \<Rightarrow> world \<Rightarrow> world" where
  "sink_countDeadline p w =
     (if getFlag DEADLINE p \<noteq> 0
      then let hist = ucast (p_priority p div 1000);
               w = w\<lparr>w_sink_slacks := hist_add hist (w_sink_slacks w)\<rparr>
           in w\<lparr>w_sink_total := w_sink_total w + 1\<rparr>
      else w)"

text \<open>
  The handler; \<open>flow\<close> is \<open>_src->_flow\<close>, to which the received packet and the acknowledgement
  belong. The packet's flags are read after it has been freed.
\<close>

definition tcp_sink_receivePacket ::
  "world \<Rightarrow> packet_flow \<Rightarrow> tcp_sink \<Rightarrow> packet \<Rightarrow> (world \<times> packet_flow \<times> tcp_sink \<times> action list) option" where
  "tcp_sink_receivePacket w flow d p =
     (case p_class p of
        DataAck _ _ _ \<Rightarrow> None
      | DataPacket sq ts0 \<Rightarrow>
          let d = processDataPacket d sq (p_size p);
              w = sink_countDeadline p w;
              as = [Traffic PKT_RCVDESTROY p];
              (db, flow) = pkt_free (w_datadb w) flow p;
              w = w\<lparr>w_datadb := db\<rparr>;
              (ack, adb, flow) = newDataAck (w_fresh w) (w_ackdb w) flow (sk_route d) 1 (ds_cumulative_ack d);
              w = w\<lparr>w_ackdb := adb\<rparr>;
              as = as @ [Traffic PKT_CREATESEND ack];
              ack = set_ts ts0 ack;
              ack = (if getFlag ECN_FWD p \<noteq> 0 then setFlag ECN_REV ack else ack)
          in Some (w, flow, d, as @ [SendOn ack]))"

section \<open>Lemmas\<close>

lemma processDataPacket_frame:
  "sk_route (processDataPacket d sq sz) = sk_route d" "sk_src (processDataPacket d sq sz) = sk_src d"
  by (simp_all add: processDataPacket_def Let_def split: prod.split)

lemma getFlag_none: "p_flags p = 0 \<Longrightarrow> getFlag f p = 0"
  by (simp add: getFlag_def)

lemma newDataAck_fields:
  assumes "newDataAck fresh db flow route sq ak = (p, db', flow')"
  shows "p_class p = DataAck sq ak (ts (p_class p))" "p_size p = 40" "p_route p = route" "p_nexthop p = 0"
    "getFlag ACK p = 1" "getFlag ECN_REV p = 0" "p_flow p = f_id flow"
    "flow' = flow\<lparr>f_nPackets := f_nPackets flow + 1\<rparr>"
  using assms
  by (auto simp: newDataAck_def packet_set_def Let_def ACK_SIZE_def getFlag_setFlag getFlag_none
      split: prod.splits)

lemma getFlag_set_ts [simp]: "getFlag f (set_ts t p) = getFlag f p"
  by (simp add: getFlag_def set_ts_def)

lemma set_ts_fields [simp]:
  "p_size (set_ts t p) = p_size p" "p_route (set_ts t p) = p_route p" "p_nexthop (set_ts t p) = p_nexthop p"
  "p_flow (set_ts t p) = p_flow p"
  by (simp_all add: set_ts_def)

section \<open>Properties\<close>

text \<open>
  C9: reassembly. After any number of segments in any order, with repetitions, the cumulative
  acknowledgement is the length of the longest complete prefix: the segments below the first
  missing one, and nothing beyond it.
\<close>

theorem sink_acks_prefix:
  assumes "\<forall>k \<in> set ks. seg_ok m k"
  shows "ds_cumulative_ack (sink_run m ks) = of_nat (mex (set ks) * m)"
  by (rule sink_rep_cumulative [OF sink_run_rep [OF assms]])

lemma sink_acks_prefix_witness:
  "ds_cumulative_ack (sink_run 1500 [0, 3, 1, 3, 0]) = 3000"
proof -
  have "set [0, 3, 1, 3, 0] = {..<2} \<union> {3 :: nat}" by (auto simp: lessThan_def)
  then have "mex (set [0, 3, 1, 3, 0]) = 2" using mex_prefix [of "{3}" 2] by simp
  then show ?thesis using sink_acks_prefix [of "[0, 3, 1, 3, 0]" 1500] by (simp add: seg_ok_def)
qed

text \<open>
  The handler of the receiver. Every data packet is answered by exactly one acknowledgement
  of the source's flow, of 40 bytes, on the route back, which carries the cumulative
  acknowledgement after the packet, the packet's time stamp and, in \<open>ECN_REV\<close>, its ECN mark; the
  number of packets of the flow in the network stays the same.
\<close>

lemma tcp_sink_acknowledges:
  assumes "p_class p = DataPacket sq ts0"
  shows "\<exists>w' flow' d' as ack. tcp_sink_receivePacket w flow d p = Some (w', flow', d', as) \<and>
    d' = processDataPacket d sq (p_size p) \<and> sends as = [ack] \<and>
    p_class ack = DataAck 1 (ds_cumulative_ack d') ts0 \<and> p_size ack = 40 \<and>
    p_route ack = sk_route d \<and> p_nexthop ack = 0 \<and> p_flow ack = f_id flow \<and> getFlag ACK ack = 1 \<and>
    getFlag ECN_REV ack = getFlag ECN_FWD p \<and> f_nPackets flow' = f_nPackets flow"
proof -
  define d1 where "d1 = processDataPacket d sq (p_size p)"
  define w1 where "w1 = (sink_countDeadline p w)\<lparr>w_datadb := w_datadb (sink_countDeadline p w) @ [p]\<rparr>"
  define fl where "fl = flow\<lparr>f_nPackets := f_nPackets flow - 1\<rparr>"
  obtain a adb fl' where n: "newDataAck (w_fresh w1) (w_ackdb w1) fl (sk_route d1) 1 (ds_cumulative_ack d1) =
      (a, adb, fl')"
    by (cases "newDataAck (w_fresh w1) (w_ackdb w1) fl (sk_route d1) 1 (ds_cumulative_ack d1)") auto
  note f = newDataAck_fields [OF n]
  define b where "b = (if getFlag ECN_FWD p \<noteq> 0 then setFlag ECN_REV (set_ts ts0 a) else set_ts ts0 a)"
  have "p_class (set_ts ts0 a) = DataAck 1 (ds_cumulative_ack d1) ts0"
    using f(1) by (cases "p_class a") (auto simp: set_ts_def)
  moreover have "getFlag ECN_FWD p = 0 \<or> getFlag ECN_FWD p = 1" by (simp add: getFlag_def)
  ultimately have b: "p_class b = DataAck 1 (ds_cumulative_ack d1) ts0" "p_size b = 40"
      "p_route b = sk_route d" "p_nexthop b = 0" "p_flow b = f_id flow" "getFlag ACK b = 1"
      "getFlag ECN_REV b = getFlag ECN_FWD p"
    using f by (auto simp: b_def getFlag_setFlag d1_def processDataPacket_frame fl_def)
  have "tcp_sink_receivePacket w flow d p =
      Some (w1\<lparr>w_ackdb := adb\<rparr>, fl', d1, [Traffic PKT_RCVDESTROY p, Traffic PKT_CREATESEND a, SendOn b])"
    using assms n by (simp add: tcp_sink_receivePacket_def pkt_free_def freePacket_def Let_def
        d1_def w1_def fl_def b_def)
  moreover have "f_nPackets fl' = f_nPackets flow" using f(8) by (simp add: fl_def)
  ultimately show ?thesis using b by (auto simp: d1_def)
qed

definition ex_sink :: tcp_sink where
  "ex_sink = \<lparr>ds_cumulative_ack = 0, ds_received = [], sk_src = 7, sk_route = 1\<rparr>"

lemma tcp_sink_acknowledges_witness:
  "\<exists>w' flow' d' as ack. tcp_sink_receivePacket ex_world \<lparr>f_id = 7, f_nPackets = 1, f_logger = False\<rparr> ex_sink
      (setFlag ECN_FWD (pkt0\<lparr>p_size := 1500, p_class := DataPacket 1 77\<rparr>)) = Some (w', flow', d', as) \<and>
    sends as = [ack] \<and> p_class ack = DataAck 1 1500 77 \<and> getFlag ECN_REV ack = 1"
  using tcp_sink_acknowledges [of "setFlag ECN_FWD (pkt0\<lparr>p_size := 1500, p_class := DataPacket 1 77\<rparr>)" 1 77
      ex_world "\<lparr>f_id = 7, f_nPackets = 1, f_logger = False\<rparr>" ex_sink]
  by (force simp: ex_sink_def processDataPacket_def getFlag_setFlag)

end
