(* ===== verification/HashFlow.thy ===== *)
theory HashFlow
  imports FifoQueue
begin

text \<open>
  The hash \<open>hashFlow\<close> that \<open>aprx-fairqueue.cpp\<close> and \<open>stoc-fairqueue.cpp\<close> share, and the facts on
  a vector of FIFO queues that both disciplines rest on.
\<close>

definition hash_prime :: "nat \<Rightarrow> u64" where
  "hash_prime index =
     (if index = 0 then 7643 else if index = 1 then 7723 else if index = 2 then 7829
      else if index = 3 then 7919 else 1)"

definition hashFlow :: "nat \<Rightarrow> u32 \<Rightarrow> u64" where
  "hashFlow index flowid = hash_prime index * ucast flowid"

text \<open>\<open>hashFlow(i, flowid) % n\<close>; the modulus 0 is undefined, \<open>None\<close>.\<close>

definition hash_mod :: "nat \<Rightarrow> u32 \<Rightarrow> u32 \<Rightarrow> nat option" where
  "hash_mod i flowid n = (if n = 0 then None else Some (unat (hashFlow i flowid mod ucast n)))"

lemma hash_mod_Some:
  "n \<noteq> 0 \<Longrightarrow> hash_mod i f n = Some (unat (hashFlow i f mod ucast n)) \<and>
     unat (hashFlow i f mod ucast n) < unat n"
  using unat_gt_0 [of n] by (simp add: hash_mod_def unat_mod)

text \<open>\<open>dropPacket\<close>, the same in both files.\<close>

definition dropPacket :: "'a queue_scheme \<Rightarrow> packet \<Rightarrow> action list" where
  "dropPacket q pkt = qlog q Q_DROP pkt @ [Traffic PKT_DROP pkt, Free pkt]"

lemma dropPacket_actions [simp]:
  "sends (dropPacket q p) = []" "frees (dropPacket q p) = [p]" "scheds (dropPacket q p) = []"
  by (simp_all add: dropPacket_def)

section \<open>Vectors of queues\<close>

text \<open>The counters of a vector of queues: how many packets it holds and how many bytes.\<close>

definition multi_inv :: "packet list list \<Rightarrow> u64 \<Rightarrow> u64 \<Rightarrow> bool" where
  "multi_inv xss n b \<longleftrightarrow> unat n = size (mset (concat xss)) \<and> unat b = bytes_of (mset (concat xss))"

lemma multi_inv_init [simp]: "multi_inv (replicate k []) 0 0"
  by (simp add: multi_inv_def)

lemma multi_inv_empty: "multi_inv xss n b \<Longrightarrow> n = 0 \<longleftrightarrow> mset (concat xss) = {#}"
  unfolding multi_inv_def by (metis size_eq_0_iff_empty unat_eq_0)

text \<open>
  The packet counter could wrap only in a buffer with \<open>2 ^ 64\<close> packets; every packet has a byte.
\<close>

definition sized :: "packet multiset \<Rightarrow> bool" where
  "sized M \<longleftrightarrow> (\<forall>p \<in># M. p_size p \<noteq> 0)"

definition sized_fits :: "'a queue_scheme \<Rightarrow> packet \<Rightarrow> bool" where
  "sized_fits q p \<longleftrightarrow> fits q p \<and> p_size p \<noteq> 0"

lemma sized_count: "sized M \<Longrightarrow> size M \<le> bytes_of M"
proof (induction M)
  case (add p M)
  then have "0 < unat (p_size p)" by (simp add: sized_def unat_gt_0)
  then show ?case using add by (simp add: sized_def)
qed simp

lemma multi_inv_push:
  assumes "multi_inv xss n b" "i < length xss" "sized (mset (concat xss))" "p_size p \<noteq> 0"
    and "unat b + unat (p_size p) < 18446744073709551616"
  shows "multi_inv (xss[i := p # xss ! i]) (n + 1) (b + p_size p)"
proof -
  have e: "unat n = size (mset (concat xss))" "unat b = bytes_of (mset (concat xss))"
    using assms(1) by (simp_all add: multi_inv_def)
  have "unat n \<le> unat b" using sized_count [OF assms(3)] e by simp
  moreover have "0 < unat (p_size p)" using assms(4) by (simp add: unat_gt_0)
  ultimately have "unat n + unat (1 :: u64) < 18446744073709551616" using assms(5) by simp
  then have "unat (n + 1) = unat n + 1" using unat_add_64 [of n 1] by simp
  moreover have "unat (b + p_size p) = unat b + unat (p_size p)" using assms(5) by (rule unat_add_64)
  ultimately show ?thesis
    unfolding multi_inv_def mset_concat_push [OF assms(2)] using e by simp
qed

lemma multi_inv_pop:
  assumes "multi_inv xss n b" "i < length xss" "xss ! i \<noteq> []"
  shows "multi_inv (xss[i := butlast (xss ! i)]) (n - 1) (b - p_size (last (xss ! i)))"
    and "b - p_size (last (xss ! i)) \<le> b"
proof -
  note m = mset_concat_pop [OF assms(2,3)]
  have e: "unat n = Suc (size (mset (concat (xss[i := butlast (xss ! i)]))))"
    "unat b = unat (p_size (last (xss ! i))) + bytes_of (mset (concat (xss[i := butlast (xss ! i)])))"
    using assms(1) unfolding multi_inv_def m by simp_all
  have n: "unat (n - 1) = unat n - 1" using e(1) unat_sub_nowrap [of 1 n] by simp
  have b: "unat (b - p_size (last (xss ! i))) = unat b - unat (p_size (last (xss ! i)))"
    using e(2) by (intro unat_sub_nowrap) simp
  show "multi_inv (xss[i := butlast (xss ! i)]) (n - 1) (b - p_size (last (xss ! i)))"
    using n b e by (simp add: multi_inv_def)
  show "b - p_size (last (xss ! i)) \<le> b" using b by (simp add: word_le_nat_alt)
qed

lemma concat_nonempty: "mset (concat xss) \<noteq> {#} \<longleftrightarrow> (\<exists>i < length xss. xss ! i \<noteq> [])"
  by (simp add: concat_eq_Nil_conv) (metis in_set_conv_nth)

end
