(* ===== verification/StocFairQ.thy ===== *)
theory StocFairQ
  imports HashFlow
begin

text \<open>
  \<open>stoc-fairqueue.h\<close> and \<open>stoc-fairqueue.cpp\<close>: \<open>StocFairQueue\<close>, stochastic fair queueing with
  deficit round robin. Flows are hashed to FIFO queues; a queue sends when it has credit for its
  next packet, otherwise it gets a quantum and moves to the back of the list of active queues.
\<close>

section \<open>State and operations\<close>

record sfq = queue +
  sf_nQueue :: u32
  sf_nPackets :: u64
  sf_quantum :: u32
  sf_packets :: "packet list list"
  sf_credits :: "u32 list"
  sf_Qsize :: "u32 list"
  sf_isActive :: "bool list"
  sf_activeQ :: "u32 list"

definition mkStocFairQueue :: "u64 \<Rightarrow> u64 \<Rightarrow> bool \<Rightarrow> u32 \<Rightarrow> u32 \<Rightarrow> sfq option" where
  "mkStocFairQueue bitrate maxsize logger nQueue quantum =
     map_option (\<lambda>q. queue.extend q
       \<lparr>sf_nQueue = nQueue, sf_nPackets = 0, sf_quantum = quantum,
        sf_packets = replicate (unat nQueue) [], sf_credits = replicate (unat nQueue) 0,
        sf_Qsize = replicate (unat nQueue) 0, sf_isActive = replicate (unat nQueue) False,
        sf_activeQ = []\<rparr>)
       (mkQueue bitrate maxsize logger)"

text \<open>The packet at the back of a queue and the credit of the queue; an empty list is undefined.\<close>

definition sfq_head :: "sfq \<Rightarrow> (u32 \<times> packet \<times> u32) option" where
  "sfq_head q = do {
     queue \<leftarrow> vec_at (sf_activeQ q) 0;
     credit \<leftarrow> vec_at (sf_credits q) (unat queue);
     ps \<leftarrow> vec_at (sf_packets q) (unat queue);
     (if ps = [] then None else Some (queue, last ps, credit))
   }"

text \<open>Not enough credit: bump the queue to the back.\<close>

definition sfq_bump :: "sfq \<Rightarrow> u32 \<Rightarrow> u32 \<Rightarrow> sfq" where
  "sfq_bump q queue credit = q\<lparr>sf_activeQ := tl (sf_activeQ q) @ [queue],
     sf_credits := (sf_credits q)[unat queue := credit + sf_quantum q]\<rparr>"

partial_function (option) sfq_seek :: "sfq \<Rightarrow> (sfq \<times> packet) option" where
  "sfq_seek q = Option.bind (sfq_head q)
     (\<lambda>h. if ucast (snd (snd h)) < p_size (fst (snd h))
          then sfq_seek (sfq_bump q (fst h) (snd (snd h)))
          else Some (q, fst (snd h)))"

definition sfq_beginService :: "sfq \<Rightarrow> (sfq \<times> action list) option" where
  "sfq_beginService q =
     (if sf_nPackets q > 0
      then do { (q, p) \<leftarrow> sfq_seek q; Some (q, [SchedRel (drainTime q p)]) }
      else Some (q, []))"

text \<open>Removing the packet; an empty queue leaves the active list and loses its credit.\<close>

definition sfq_dequeue :: "sfq \<Rightarrow> u32 \<Rightarrow> packet \<Rightarrow> u32 \<Rightarrow> sfq option" where
  "sfq_dequeue q queue pkt credit = do {
     ps \<leftarrow> vec_at (sf_packets q) (unat queue);
     sz \<leftarrow> vec_at (sf_Qsize q) (unat queue);
     active \<leftarrow> vec_at (sf_isActive q) (unat queue);
     let q = q\<lparr>sf_packets := (sf_packets q)[unat queue := butlast ps]\<rparr>;
     let q = q\<lparr>sf_credits := (sf_credits q)[unat queue := credit - ucast (p_size pkt)]\<rparr>;
     let q = q\<lparr>sf_Qsize := (sf_Qsize q)[unat queue := sz - ucast (p_size pkt)]\<rparr>;
     let q = q\<lparr>q_queuesize := q_queuesize q - p_size pkt\<rparr>;
     let q = q\<lparr>sf_nPackets := sf_nPackets q - 1\<rparr>;
     (if butlast ps = []
      then Some (q\<lparr>sf_isActive := (sf_isActive q)[unat queue := False],
                   sf_activeQ := tl (sf_activeQ q),
                   sf_credits := (sf_credits q)[unat queue := 0]\<rparr>)
      else Some q)
   }"

definition sfq_completeService :: "sfq \<Rightarrow> (sfq \<times> action list) option" where
  "sfq_completeService q =
     (if \<not> sf_nPackets q > 0 then None
      else do {
        (queue, pkt, credit) \<leftarrow> sfq_head q;
        q \<leftarrow> sfq_dequeue q queue pkt credit;
        let as = Traffic PKT_DEPART pkt # qlog q Q_SERVICE pkt @ [SendOn (applyEcnMark q pkt)];
        (q, bs) \<leftarrow> sfq_beginService q;
        Some (q, as @ bs)
      })"

definition sfq_doNextEvent :: "sfq \<Rightarrow> (sfq \<times> action list) option" where
  "sfq_doNextEvent q = sfq_completeService q"

definition sfq_enqueue :: "sfq \<Rightarrow> u32 \<Rightarrow> packet \<Rightarrow> sfq option" where
  "sfq_enqueue q queue pkt = do {
     ps \<leftarrow> vec_at (sf_packets q) (unat queue);
     sz \<leftarrow> vec_at (sf_Qsize q) (unat queue);
     active \<leftarrow> vec_at (sf_isActive q) (unat queue);
     let q = q\<lparr>sf_packets := (sf_packets q)[unat queue := pkt # ps]\<rparr>;
     let q = q\<lparr>sf_Qsize := (sf_Qsize q)[unat queue := sz + ucast (p_size pkt)]\<rparr>;
     let q = q\<lparr>q_queuesize := q_queuesize q + p_size pkt\<rparr>;
     let q = q\<lparr>sf_nPackets := sf_nPackets q + 1\<rparr>;
     (if \<not> active
      then Some (q\<lparr>sf_isActive := (sf_isActive q)[unat queue := True],
                   sf_activeQ := sf_activeQ q @ [queue],
                   sf_credits := (sf_credits q)[unat queue := sf_quantum q]\<rparr>)
      else Some q)
   }"

definition sfq_receivePacket :: "sfq \<Rightarrow> packet \<Rightarrow> (sfq \<times> action list) option" where
  "sfq_receivePacket q pkt =
     (if q_queuesize q + p_size pkt > q_maxsize q then Some (q, dropPacket q pkt)
      else do {
        let as = [Traffic PKT_ARRIVE pkt];
        let queueWasEmpty = (sf_nPackets q = 0);
        queue \<leftarrow> hash_mod 0 (p_flow pkt) (sf_nQueue q);
        q \<leftarrow> sfq_enqueue q (of_nat queue) pkt;
        (if queueWasEmpty
         then if sf_nPackets q \<noteq> 1 then None
              else do { (q, bs) \<leftarrow> sfq_beginService q; Some (q, as @ bs) }
         else Some (q, as))
      })"

section \<open>Invariant\<close>

text \<open>
  The active list names the queues that hold packets, each once. Credits stay below what the buffer
  and a quantum need, so that a 32-bit credit does not wrap.
\<close>

definition sfq_pre :: "sfq \<Rightarrow> bool" where
  "sfq_pre q \<longleftrightarrow> (let n = unat (sf_nQueue q) in
     0 < n \<and> length (sf_packets q) = n \<and> length (sf_credits q) = n \<and> length (sf_Qsize q) = n \<and>
     length (sf_isActive q) = n \<and> distinct (sf_activeQ q) \<and>
     (\<forall>i. i \<in> set (sf_activeQ q) \<longleftrightarrow> unat i < n \<and> sf_packets q ! unat i \<noteq> []) \<and>
     (\<forall>i < n. sf_isActive q ! i \<longleftrightarrow> sf_packets q ! i \<noteq> []) \<and>
     multi_inv (sf_packets q) (sf_nPackets q) (q_queuesize q) \<and> sized (mset (concat (sf_packets q))) \<and>
     q_queuesize q \<le> q_maxsize q \<and> sf_quantum q \<noteq> 0 \<and>
     unat (q_maxsize q) + unat (sf_quantum q) < 2 ^ 32 \<and>
     (\<forall>i < n. unat (sf_credits q ! i) \<le> unat (q_maxsize q) + unat (sf_quantum q)))"

definition sfq_held :: "sfq \<Rightarrow> packet multiset" where
  "sfq_held q = mset (concat (sf_packets q))"

text \<open>Between events the first active queue can pay for its packet.\<close>

definition sfq_ready :: "sfq \<Rightarrow> bool" where
  "sfq_ready q \<longleftrightarrow> (\<exists>i rest. sf_activeQ q = i # rest \<and>
     p_size (last (sf_packets q ! unat i)) \<le> ucast (sf_credits q ! unat i))"

definition sfq_inv :: "sfq \<Rightarrow> bool" where
  "sfq_inv q \<longleftrightarrow> sfq_pre q \<and> (sfq_held q \<noteq> {#} \<longrightarrow> sfq_ready q)"

lemma mkStocFairQueue_inv:
  assumes "mkStocFairQueue bitrate maxsize lg n c = Some q" "n \<noteq> 0" "c \<noteq> 0"
    "unat maxsize + unat c < 2 ^ 32"
  shows "sfq_inv q \<and> sfq_held q = {#}"
proof -
  have "0 < unat n" using assms(2) by (simp add: unat_gt_0)
  moreover have "concat (replicate k []) = ([] :: packet list)" for k by (induction k) auto
  ultimately show ?thesis
    using assms by (auto simp: mkStocFairQueue_def mkQueue_def queue.defs sfq_inv_def sfq_pre_def
        sfq_held_def sized_def multi_inv_def Let_def split: if_splits)
qed

section \<open>The search for a queue with credit\<close>

text \<open>The credit the active queues lack for their next packets.\<close>

definition sfq_lack :: "sfq \<Rightarrow> u32 \<Rightarrow> nat" where
  "sfq_lack q i = unat (p_size (last (sf_packets q ! unat i))) - unat (sf_credits q ! unat i)"

lemma sfq_pre_packet:
  assumes "sfq_pre q" "unat i < unat (sf_nQueue q)" "sf_packets q ! unat i \<noteq> []"
  shows "last (sf_packets q ! unat i) \<in># sfq_held q" "p_size (last (sf_packets q ! unat i)) \<le> q_maxsize q"
proof -
  have "sf_packets q ! unat i \<in> set (sf_packets q)" using assms by (auto simp: sfq_pre_def Let_def)
  then show m: "last (sf_packets q ! unat i) \<in># sfq_held q"
    using last_in_set [OF assms(3)] unfolding sfq_held_def set_mset_mset set_concat by blast
  have "unat (p_size (last (sf_packets q ! unat i))) \<le> bytes_of (sfq_held q)"
    using m by (metis (no_types, lifting) le_add1 multi_member_split sum_mset.insert image_mset_add_mset)
  also have "\<dots> \<le> unat (q_maxsize q)"
    using assms(1) by (simp add: sfq_pre_def Let_def multi_inv_def sfq_held_def word_le_nat_alt)
  finally show "p_size (last (sf_packets q ! unat i)) \<le> q_maxsize q" by (simp add: word_le_nat_alt)
qed

lemma sfq_head_eq:
  assumes "sfq_pre q" "sf_activeQ q = i # rest"
  shows "sfq_head q = Some (i, last (sf_packets q ! unat i), sf_credits q ! unat i)"
    and "unat i < unat (sf_nQueue q)" "sf_packets q ! unat i \<noteq> []"
proof -
  show "unat i < unat (sf_nQueue q)" "sf_packets q ! unat i \<noteq> []"
    using assms by (auto simp: sfq_pre_def Let_def)
  then show "sfq_head q = Some (i, last (sf_packets q ! unat i), sf_credits q ! unat i)"
    using assms by (simp add: sfq_head_def sfq_pre_def Let_def)
qed

lemma sfq_bump_fields [simp]:
  "sf_packets (sfq_bump q i c) = sf_packets q" "sf_nQueue (sfq_bump q i c) = sf_nQueue q"
  "sf_isActive (sfq_bump q i c) = sf_isActive q" "sf_Qsize (sfq_bump q i c) = sf_Qsize q"
  "sf_nPackets (sfq_bump q i c) = sf_nPackets q" "q_queuesize (sfq_bump q i c) = q_queuesize q"
  "q_maxsize (sfq_bump q i c) = q_maxsize q" "sf_quantum (sfq_bump q i c) = sf_quantum q"
  by (simp_all add: sfq_bump_def)

lemma sfq_bump_pre:
  assumes "sfq_pre q" "sf_activeQ q = i # rest"
    and "ucast (sf_credits q ! unat i) < p_size (last (sf_packets q ! unat i))"
  shows "sfq_pre (sfq_bump q i (sf_credits q ! unat i))"
    and "sum (sfq_lack (sfq_bump q i (sf_credits q ! unat i))) (set (sf_activeQ (sfq_bump q i (sf_credits q ! unat i))))
      < sum (sfq_lack q) (set (sf_activeQ q))"
proof -
  let ?c = "sf_credits q ! unat i" and ?p = "last (sf_packets q ! unat i)"
  let ?q = "sfq_bump q i ?c"
  note h = sfq_head_eq [OF assms(1,2)]
  have lt: "unat ?c < unat (p_size ?p)" using assms(3) by (simp add: word_less_nat_alt)
  have le: "unat (p_size ?p) \<le> unat (q_maxsize q)"
    using sfq_pre_packet(2) [OF assms(1) h(2,3)] by (simp add: word_le_nat_alt)
  have b: "unat (q_maxsize q) + unat (sf_quantum q) < 2 ^ 32" "0 < unat (sf_quantum q)"
    "length (sf_credits q) = unat (sf_nQueue q)" "distinct (sf_activeQ q)"
    using assms(1) by (simp_all add: sfq_pre_def Let_def unat_gt_0)
  have add: "unat (?c + sf_quantum q) = unat ?c + unat (sf_quantum q)"
    using lt le b(1) by (intro unat_add_32) simp
  have act: "sf_activeQ ?q = rest @ [i]" "set (sf_activeQ ?q) = set (sf_activeQ q)"
    using assms(2) by (auto simp: sfq_bump_def)
  have cr: "sf_credits ?q = (sf_credits q)[unat i := ?c + sf_quantum q]" by (simp add: sfq_bump_def)
  have "distinct (sf_activeQ ?q)" using b(4) act assms(2) by auto
  moreover have "unat (sf_credits ?q ! j) \<le> unat (q_maxsize q) + unat (sf_quantum q)"
    if "j < unat (sf_nQueue q)" for j
    using that assms(1) add lt le b(3) unfolding cr
    by (cases "j = unat i") (auto simp: sfq_pre_def Let_def)
  ultimately show "sfq_pre ?q"
    using assms(1) act(2) cr by (simp add: sfq_pre_def Let_def)
  have same: "sfq_lack ?q j = sfq_lack q j" if "j \<in> set rest" for j
  proof -
    have "j \<noteq> i" using that b(4) assms(2) by auto
    then have "unat j \<noteq> unat i" by (simp add: word_unat_eq_iff)
    then show ?thesis by (simp add: sfq_lack_def cr)
  qed
  have "sfq_lack ?q i < sfq_lack q i"
    using add lt b(2,3) h(2) by (simp add: sfq_lack_def cr)
  moreover have "sum (sfq_lack ?q) (set rest) = sum (sfq_lack q) (set rest)"
    using same by (intro sum.cong) auto
  moreover have "i \<notin> set rest" using b(4) assms(2) by simp
  ultimately show "sum (sfq_lack ?q) (set (sf_activeQ ?q)) < sum (sfq_lack q) (set (sf_activeQ q))"
    unfolding act(2) assms(2) by simp
qed

text \<open>
  The quanta that a queue gets while the first of the active queues is sent to the back \<open>m\<close> times. A queue
  gets one only while its credit does not cover its oldest packet.
\<close>

fun sfq_bumps :: "u32 list \<Rightarrow> nat \<Rightarrow> u32 \<Rightarrow> nat" where
  "sfq_bumps A 0 j = 0"
| "sfq_bumps A (Suc m) j = (if hd A = j then 1 else 0) + sfq_bumps (rotate1 A) m j"

definition sfq_rounds :: "sfq \<Rightarrow> nat \<Rightarrow> sfq \<Rightarrow> bool" where
  "sfq_rounds q m q' \<longleftrightarrow> sf_activeQ q' = rotate m (sf_activeQ q) \<and>
     (\<forall>j. unat j < unat (sf_nQueue q) \<longrightarrow>
        unat (sf_credits q' ! unat j) =
          unat (sf_credits q ! unat j) + sfq_bumps (sf_activeQ q) m j * unat (sf_quantum q) \<and>
        (sfq_bumps (sf_activeQ q) m j \<noteq> 0 \<longrightarrow> unat (sf_credits q' ! unat j) <
          unat (p_size (last (sf_packets q ! unat j))) + unat (sf_quantum q)))"

lemma sfq_rounds_0: "sfq_rounds q 0 q"
  by (simp add: sfq_rounds_def)

lemma sfq_rounds_Suc:
  assumes "sfq_pre q" "sf_activeQ q = i # rest"
    and "ucast (sf_credits q ! unat i) < p_size (last (sf_packets q ! unat i))"
    and "sfq_rounds (sfq_bump q i (sf_credits q ! unat i)) m q'"
  shows "sfq_rounds q (Suc m) q'"
proof -
  let ?c = "sf_credits q ! unat i" and ?p = "last (sf_packets q ! unat i)"
  let ?q = "sfq_bump q i ?c"
  note h = sfq_head_eq [OF assms(1,2)]
  have lt: "unat ?c < unat (p_size ?p)" using assms(3) by (simp add: word_less_nat_alt)
  have "unat (p_size ?p) \<le> unat (q_maxsize q)"
    using sfq_pre_packet(2) [OF assms(1) h(2,3)] by (simp add: word_le_nat_alt)
  then have add: "unat (?c + sf_quantum q) = unat ?c + unat (sf_quantum q)"
    using lt assms(1) by (intro unat_add_32) (simp add: sfq_pre_def Let_def)
  have n: "length (sf_credits q) = unat (sf_nQueue q)" using assms(1) by (simp add: sfq_pre_def Let_def)
  have act: "sf_activeQ ?q = rotate1 (sf_activeQ q)" "hd (sf_activeQ q) = i" using assms(2) by (simp_all add: sfq_bump_def)
  have cr: "unat (sf_credits ?q ! unat j) = unat (sf_credits q ! unat j) + (if j = i then unat (sf_quantum q) else 0)"
    if "unat j < unat (sf_nQueue q)" for j
    using that n add by (auto simp: sfq_bump_def nth_list_update word_unat_eq_iff)
  have r: "unat (sf_credits q' ! unat j) =
        unat (sf_credits ?q ! unat j) + sfq_bumps (rotate1 (sf_activeQ q)) m j * unat (sf_quantum q)"
      "sfq_bumps (rotate1 (sf_activeQ q)) m j \<noteq> 0 \<longrightarrow>
        unat (sf_credits q' ! unat j) < unat (p_size (last (sf_packets q ! unat j))) + unat (sf_quantum q)"
    if "unat j < unat (sf_nQueue q)" for j
    using assms(4) that unfolding sfq_rounds_def act(1) sfq_bump_fields by blast+
  have "sf_activeQ q' = rotate (Suc m) (sf_activeQ q)"
    using assms(4) by (simp add: sfq_rounds_def act(1) rotate1_rotate_swap)
  moreover have "unat (sf_credits q' ! unat j) =
        unat (sf_credits q ! unat j) + sfq_bumps (sf_activeQ q) (Suc m) j * unat (sf_quantum q)"
    if "unat j < unat (sf_nQueue q)" for j using r(1) [OF that] cr [OF that] act(2) by simp
  moreover have "unat (sf_credits q' ! unat j) < unat (p_size (last (sf_packets q ! unat j))) + unat (sf_quantum q)"
    if "unat j < unat (sf_nQueue q)" "sfq_bumps (sf_activeQ q) (Suc m) j \<noteq> 0" for j
  proof (cases "sfq_bumps (rotate1 (sf_activeQ q)) m j = 0")
    case True
    then have "j = i" using that(2) act(2) by (simp split: if_splits)
    then show ?thesis using True r(1) [OF that(1)] cr [OF that(1)] lt by simp
  qed (use r(2) [OF that(1)] in simp)
  ultimately show ?thesis unfolding sfq_rounds_def by blast
qed

text \<open>The search ends, at a queue that can pay; it moves credits and the active list only.\<close>

lemma sfq_seek_spec:
  assumes "sfq_pre q" "sf_activeQ q \<noteq> []"
  shows "\<exists>q' p m. sfq_seek q = Some (q', p) \<and> sfq_pre q' \<and> sfq_ready q' \<and> sfq_rounds q m q' \<and>
    sf_packets q' = sf_packets q \<and> sf_nPackets q' = sf_nPackets q \<and> q_maxsize q' = q_maxsize q \<and>
    q_queuesize q' = q_queuesize q \<and> sf_quantum q' = sf_quantum q"
  using assms
proof (induction "sum (sfq_lack q) (set (sf_activeQ q))" arbitrary: q rule: less_induct)
  case less
  then obtain i rest where a: "sf_activeQ q = i # rest" by (cases "sf_activeQ q") auto
  let ?c = "sf_credits q ! unat i" and ?p = "last (sf_packets q ! unat i)"
  note h = sfq_head_eq [OF less.prems(1) a]
  show ?case
  proof (cases "ucast ?c < p_size ?p")
    case False
    then have "sfq_seek q = Some (q, ?p)" using h(1) by (subst sfq_seek.simps) simp
    moreover have "sfq_ready q" using a False by (simp add: sfq_ready_def)
    ultimately show ?thesis using less.prems(1) sfq_rounds_0 by blast
  next
    case True
    let ?q = "sfq_bump q i ?c"
    have e: "sfq_seek q = sfq_seek ?q" using True h(1) by (subst sfq_seek.simps) simp
    note b = sfq_bump_pre [OF less.prems(1) a True]
    have "sf_activeQ ?q \<noteq> []" by (simp add: sfq_bump_def)
    then obtain q' p m where "sfq_seek ?q = Some (q', p) \<and> sfq_pre q' \<and> sfq_ready q' \<and> sfq_rounds ?q m q' \<and>
        sf_packets q' = sf_packets q \<and> sf_nPackets q' = sf_nPackets q \<and> q_maxsize q' = q_maxsize q \<and>
        q_queuesize q' = q_queuesize q \<and> sf_quantum q' = sf_quantum q"
      using less.hyps [OF b(2) b(1)] by auto
    then show ?thesis using sfq_rounds_Suc [OF less.prems(1) a True] unfolding e by blast
  qed
qed

section \<open>The contract\<close>

lemma sfq_begin_spec:
  assumes "sfq_pre q"
  shows "\<exists>q' as m. sfq_beginService q = Some (q', as) \<and> sfq_inv q' \<and> sfq_held q' = sfq_held q \<and>
    sfq_rounds q m q' \<and> sf_packets q' = sf_packets q \<and> q_maxsize q' = q_maxsize q \<and> sends as = [] \<and> frees as = [] \<and>
    length (scheds as) = (if sfq_held q = {#} then 0 else 1)"
proof -
  have z: "sf_nPackets q = 0 \<longleftrightarrow> sfq_held q = {#}"
    using assms multi_inv_empty [of "sf_packets q" "sf_nPackets q" "q_queuesize q"]
    by (simp add: sfq_pre_def Let_def sfq_held_def)
  show ?thesis
  proof (cases "sf_nPackets q = 0")
    case True
    then show ?thesis using z assms sfq_rounds_0 [of q] by (auto simp: sfq_beginService_def sfq_inv_def)
  next
    case False
    then obtain j where j: "j < length (sf_packets q)" "sf_packets q ! j \<noteq> []"
      using z concat_nonempty [of "sf_packets q"] by (auto simp: sfq_held_def)
    have "j < unat (sf_nQueue q)" using j(1) assms by (simp add: sfq_pre_def Let_def)
    then have "unat (of_nat j :: u32) = j"
      using unat_lt_2_32 [of "sf_nQueue q"] by (simp add: unat_of_nat)
    then have "(of_nat j :: u32) \<in> set (sf_activeQ q)"
      using assms j \<open>j < unat (sf_nQueue q)\<close> by (simp add: sfq_pre_def Let_def)
    then have "sf_activeQ q \<noteq> []" by auto
    then obtain q' p m where s: "sfq_seek q = Some (q', p)" "sfq_pre q'" "sfq_ready q'" "sfq_rounds q m q'"
      "sf_packets q' = sf_packets q" "q_maxsize q' = q_maxsize q"
      using sfq_seek_spec [OF assms] by blast
    then show ?thesis using False z
      by (auto simp: sfq_beginService_def sfq_inv_def sfq_held_def word_gt_0)
  qed
qed

text \<open>Dequeueing from the first active queue.\<close>

lemma sfq_dequeue_spec:
  assumes "sfq_pre q" "sf_activeQ q = i # rest"
    and "p = last (sf_packets q ! unat i)" "c = sf_credits q ! unat i" "p_size p \<le> ucast c"
  shows "\<exists>q'. sfq_dequeue q i p c = Some q' \<and> sfq_pre q' \<and> sfq_held q = add_mset p (sfq_held q') \<and>
    q_maxsize q' = q_maxsize q \<and> sf_nQueue q' = sf_nQueue q \<and> sf_quantum q' = sf_quantum q \<and>
    sf_packets q' = (sf_packets q)[unat i := butlast (sf_packets q ! unat i)] \<and>
    sf_activeQ q' = (if butlast (sf_packets q ! unat i) = [] then rest else i # rest) \<and>
    (\<forall>j. unat j < unat (sf_nQueue q) \<longrightarrow> unat (sf_credits q' ! unat j) =
       (if j \<noteq> i then unat (sf_credits q ! unat j)
        else if butlast (sf_packets q ! unat i) = [] then 0
        else unat (sf_credits q ! unat i) - unat (p_size p)))"
proof -
  note h = sfq_head_eq [OF assms(1,2)]
  let ?n = "unat (sf_nQueue q)" and ?xss = "(sf_packets q)[unat i := butlast (sf_packets q ! unat i)]"
  have l: "length (sf_packets q) = ?n" "length (sf_credits q) = ?n" "length (sf_Qsize q) = ?n"
    "length (sf_isActive q) = ?n" "multi_inv (sf_packets q) (sf_nPackets q) (q_queuesize q)"
    "distinct (sf_activeQ q)" "sized (mset (concat (sf_packets q)))" "q_queuesize q \<le> q_maxsize q"
    "\<forall>j. j \<in> set (sf_activeQ q) \<longleftrightarrow> unat j < ?n \<and> sf_packets q ! unat j \<noteq> []"
    "\<forall>j < ?n. sf_isActive q ! j \<longleftrightarrow> sf_packets q ! j \<noteq> []"
    "\<forall>j < ?n. unat (sf_credits q ! j) \<le> unat (q_maxsize q) + unat (sf_quantum q)"
    using assms(1) by (simp_all add: sfq_pre_def Let_def)
  have i: "unat i < length (sf_packets q)" using h(2) l(1) by simp
  note pop = multi_inv_pop [OF l(5) i h(3), folded assms(3)] and mm = mset_concat_pop [OF i h(3), folded assms(3)]
  have sz: "sized (mset (concat ?xss))" using l(7) unfolding mm by (simp add: sized_def)
  have qs: "q_queuesize q - p_size p \<le> q_maxsize q" using pop(2) l(8) by (rule order_trans)
  have "unat (p_size p) \<le> unat c" using assms(5) by (simp add: word_le_nat_alt)
  then have up: "unat (ucast (p_size p) :: u32) = unat (p_size p)"
    using unat_lt_2_32 [of c] by (simp add: unsigned_ucast_eq take_bit_nat_eq_self)
  then have pay: "unat (c - ucast (p_size p)) = unat c - unat (p_size p)"
    using \<open>unat (p_size p) \<le> unat c\<close> unat_sub_nowrap [of "ucast (p_size p)" c] by simp
  then have cr: "unat (c - ucast (p_size p)) \<le> unat c" by simp
  define q1 where "q1 = q\<lparr>sf_packets := ?xss, sf_credits := (sf_credits q)[unat i := c - ucast (p_size p)],
    sf_Qsize := (sf_Qsize q)[unat i := sf_Qsize q ! unat i - ucast (p_size p)],
    q_queuesize := q_queuesize q - p_size p, sf_nPackets := sf_nPackets q - 1\<rparr>"
  define q2 where "q2 = (if butlast (sf_packets q ! unat i) = []
    then q1\<lparr>sf_isActive := (sf_isActive q1)[unat i := False], sf_activeQ := tl (sf_activeQ q1),
            sf_credits := (sf_credits q1)[unat i := 0]\<rparr> else q1)"
  have e: "sfq_dequeue q i p c = Some q2"
    using h(2) l(1,3,4) by (simp add: sfq_dequeue_def Let_def q1_def q2_def)
  have dist: "unat j = unat i \<longleftrightarrow> j = i" for j by (simp add: word_unat_eq_iff)
  have act: "j \<in> set (sf_activeQ q2) \<longleftrightarrow> unat j < ?n \<and> ?xss ! unat j \<noteq> []" for j
    using l(6) spec [OF l(9), of j] assms(2) h(2,3) dist [of j] l(1)
    by (cases "j = i") (auto simp: q2_def q1_def)
  have ia: "sf_isActive q2 ! j \<longleftrightarrow> ?xss ! j \<noteq> []" if "j < ?n" for j
    using that l(1,4,10) h(2,3) by (cases "j = unat i") (auto simp: q2_def q1_def)
  have cc: "unat (sf_credits q2 ! j) \<le> unat (q_maxsize q) + unat (sf_quantum q)" if "j < ?n" for j
    using that l(2,11) cr h(2) assms(4) by (cases "j = unat i") (auto simp: q2_def q1_def intro: order_trans)
  have f: "sf_packets q2 = ?xss" "sf_nPackets q2 = sf_nPackets q - 1" "q_queuesize q2 = q_queuesize q - p_size p"
    "q_maxsize q2 = q_maxsize q" "sf_nQueue q2 = sf_nQueue q" "sf_quantum q2 = sf_quantum q"
    "length (sf_credits q2) = ?n" "length (sf_Qsize q2) = ?n" "length (sf_isActive q2) = ?n"
    "distinct (sf_activeQ q2)"
    using l assms(2) by (auto simp: q2_def q1_def distinct_tl)
  have "sfq_pre q2"
    unfolding sfq_pre_def Let_def f(1-6)
    using assms(1) f act ia cc pop(1) sz qs l(1) by (simp add: sfq_pre_def Let_def)
  moreover have "unat (sf_credits q2 ! unat j) =
       (if j \<noteq> i then unat (sf_credits q ! unat j)
        else if butlast (sf_packets q ! unat i) = [] then 0
        else unat (sf_credits q ! unat i) - unat (p_size p))" if "unat j < ?n" for j
    using that l(2) h(2) pay assms(4) dist [of j] by (auto simp: q2_def q1_def nth_list_update)
  moreover have "sf_activeQ q2 = (if butlast (sf_packets q ! unat i) = [] then rest else i # rest)"
    using assms(2) by (simp add: q2_def q1_def)
  ultimately show ?thesis using e f by (simp add: sfq_held_def mm)
qed

lemma sfq_enqueue_spec:
  assumes "sfq_inv q" "sized_fits q p" "\<not> q_queuesize q + p_size p > q_maxsize q"
    and "unat i < unat (sf_nQueue q)"
  shows "\<exists>q'. sfq_enqueue q i p = Some q' \<and> sfq_pre q' \<and> sfq_held q' = add_mset p (sfq_held q) \<and>
    q_maxsize q' = q_maxsize q \<and> sf_nPackets q' = sf_nPackets q + 1 \<and>
    (sfq_held q \<noteq> {#} \<longrightarrow> sfq_inv q')"
proof -
  let ?n = "unat (sf_nQueue q)" and ?xss = "(sf_packets q)[unat i := p # sf_packets q ! unat i]"
  have pre: "sfq_pre q" using assms(1) by (simp add: sfq_inv_def)
  then have l: "length (sf_packets q) = ?n" "length (sf_credits q) = ?n" "length (sf_Qsize q) = ?n"
    "length (sf_isActive q) = ?n" "multi_inv (sf_packets q) (sf_nPackets q) (q_queuesize q)"
    "distinct (sf_activeQ q)" "sized (mset (concat (sf_packets q)))" "q_queuesize q \<le> q_maxsize q"
    "\<forall>j. j \<in> set (sf_activeQ q) \<longleftrightarrow> unat j < ?n \<and> sf_packets q ! unat j \<noteq> []"
    "\<forall>j < ?n. sf_isActive q ! j \<longleftrightarrow> sf_packets q ! j \<noteq> []"
    "\<forall>j < ?n. unat (sf_credits q ! j) \<le> unat (q_maxsize q) + unat (sf_quantum q)"
    by (simp_all add: sfq_pre_def Let_def)
  have i: "unat i < length (sf_packets q)" using assms(4) l(1) by simp
  have sz: "p_size p \<noteq> 0" "unat (q_queuesize q) + unat (p_size p) < 18446744073709551616"
    using assms(2) l(8) by (simp_all add: sized_fits_def fits_def word_le_nat_alt)
  have mi: "multi_inv ?xss (sf_nPackets q + 1) (q_queuesize q + p_size p)"
    by (rule multi_inv_push [OF l(5) i l(7) sz])
  note mm = mset_concat_push [OF i, of p]
  have sd: "sized (mset (concat ?xss))" using l(7) sz(1) unfolding mm by (simp add: sized_def)
  have qs: "q_queuesize q + p_size p \<le> q_maxsize q" using assms(3) by simp
  define q1 where "q1 = q\<lparr>sf_packets := ?xss,
    sf_Qsize := (sf_Qsize q)[unat i := sf_Qsize q ! unat i + ucast (p_size p)],
    q_queuesize := q_queuesize q + p_size p, sf_nPackets := sf_nPackets q + 1\<rparr>"
  define q2 where "q2 = (if \<not> sf_isActive q ! unat i
    then q1\<lparr>sf_isActive := (sf_isActive q1)[unat i := True], sf_activeQ := sf_activeQ q1 @ [i],
            sf_credits := (sf_credits q1)[unat i := sf_quantum q1]\<rparr> else q1)"
  have e: "sfq_enqueue q i p = Some q2"
    using assms(4) l(1,3,4) by (simp add: sfq_enqueue_def Let_def q1_def q2_def)
  have ai: "sf_isActive q ! unat i \<longleftrightarrow> i \<in> set (sf_activeQ q)" "sf_isActive q ! unat i \<longleftrightarrow> sf_packets q ! unat i \<noteq> []"
    using l(9,10) assms(4) by auto
  have dist: "unat j = unat i \<longleftrightarrow> j = i" for j by (simp add: word_unat_eq_iff)
  have act: "j \<in> set (sf_activeQ q2) \<longleftrightarrow> unat j < ?n \<and> ?xss ! unat j \<noteq> []" for j
    using spec [OF l(9), of j] assms(4) dist [of j] l(1) ai
    by (cases "j = i") (auto simp: q2_def q1_def)
  have ia: "sf_isActive q2 ! j \<longleftrightarrow> ?xss ! j \<noteq> []" if "j < ?n" for j
    using that l(1,4,10) assms(4) ai by (cases "j = unat i") (auto simp: q2_def q1_def)
  have cc: "unat (sf_credits q2 ! j) \<le> unat (q_maxsize q) + unat (sf_quantum q)" if "j < ?n" for j
    using that l(2,11) assms(4) by (cases "j = unat i") (auto simp: q2_def q1_def)
  have f: "sf_packets q2 = ?xss" "sf_nPackets q2 = sf_nPackets q + 1" "q_queuesize q2 = q_queuesize q + p_size p"
    "q_maxsize q2 = q_maxsize q" "sf_nQueue q2 = sf_nQueue q" "sf_quantum q2 = sf_quantum q"
    "length (sf_credits q2) = ?n" "length (sf_Qsize q2) = ?n" "length (sf_isActive q2) = ?n"
    "distinct (sf_activeQ q2)"
    using l ai by (auto simp: q2_def q1_def)
  have pre2: "sfq_pre q2"
    unfolding sfq_pre_def Let_def f(1-6)
    using pre f act ia cc mi sd qs l(1) by (simp add: sfq_pre_def Let_def)
  have rdy: "sfq_ready q2" if ne: "sfq_held q \<noteq> {#}"
  proof -
    obtain h rest where h: "sf_activeQ q = h # rest"
      "p_size (last (sf_packets q ! unat h)) \<le> ucast (sf_credits q ! unat h)"
      using assms(1) ne by (auto simp: sfq_inv_def sfq_ready_def)
    note hh = sfq_head_eq [OF pre h(1)]
    have "last (?xss ! unat h) = last (sf_packets q ! unat h)"
      using hh(3) i by (cases "unat h = unat i") auto
    moreover have "sf_credits q2 ! unat h = sf_credits q ! unat h"
      using ai hh(3) by (cases "unat h = unat i") (auto simp: q2_def q1_def)
    moreover have "\<exists>r. sf_activeQ q2 = h # r" using h(1) by (auto simp: q2_def q1_def)
    ultimately show ?thesis using h(2) f(1) by (auto simp: sfq_ready_def)
  qed
  then show ?thesis using e pre2 f by (auto simp: sfq_held_def mm sfq_inv_def)
qed

lemma sfq_receive_spec:
  assumes "sfq_inv q" "sized_fits q p"
  shows "\<exists>q' as. sfq_receivePacket q p = Some (q', as) \<and> sfq_inv q' \<and> q_maxsize q' = q_maxsize q \<and>
    sends as = [] \<and>
    (q' = q \<and> frees as = [p] \<and> scheds as = [] \<or>
     sfq_held q' = add_mset p (sfq_held q) \<and> frees as = [] \<and>
     length (scheds as) = (if sfq_held q = {#} then 1 else 0))"
proof (cases "q_queuesize q + p_size p > q_maxsize q")
  case True
  then show ?thesis using assms(1) by (simp add: sfq_receivePacket_def)
next
  case False
  have pre: "sfq_pre q" using assms(1) by (simp add: sfq_inv_def)
  then have n0: "sf_nQueue q \<noteq> 0" by (auto simp: sfq_pre_def Let_def)
  define k where "k = unat (hashFlow 0 (p_flow p) mod ucast (sf_nQueue q))"
  have k: "hash_mod 0 (p_flow p) (sf_nQueue q) = Some k" "k < unat (sf_nQueue q)"
    using hash_mod_Some [OF n0, of 0 "p_flow p"] by (simp_all add: k_def)
  then have i: "unat (of_nat k :: u32) < unat (sf_nQueue q)"
    using unat_lt_2_32 [of "sf_nQueue q"] by (simp add: unat_of_nat)
  obtain q1 where s: "sfq_enqueue q (of_nat k) p = Some q1" "sfq_pre q1"
    "sfq_held q1 = add_mset p (sfq_held q)" "q_maxsize q1 = q_maxsize q"
    "sf_nPackets q1 = sf_nPackets q + 1" "sfq_held q \<noteq> {#} \<longrightarrow> sfq_inv q1"
    using sfq_enqueue_spec [OF assms False i] by blast
  have z: "sf_nPackets q = 0 \<longleftrightarrow> sfq_held q = {#}"
    using pre multi_inv_empty [of "sf_packets q" "sf_nPackets q" "q_queuesize q"]
    by (simp add: sfq_pre_def Let_def sfq_held_def)
  obtain q2 bs where b: "sfq_beginService q1 = Some (q2, bs)" "sfq_inv q2" "sfq_held q2 = sfq_held q1"
    "q_maxsize q2 = q_maxsize q1" "sends bs = []" "frees bs = []"
    "length (scheds bs) = (if sfq_held q1 = {#} then 0 else 1)"
    using sfq_begin_spec [OF s(2)] by blast
  show ?thesis
    using False k(1) s z b by (cases "sf_nPackets q = 0") (auto simp: sfq_receivePacket_def Let_def)
qed

text \<open>The credits after a service: the queue \<open>i\<close> pays for the packet \<open>p\<close>, and \<open>m\<close> quanta are given out.\<close>

definition sfq_account :: "sfq \<Rightarrow> u32 \<Rightarrow> packet \<Rightarrow> u32 list \<Rightarrow> nat \<Rightarrow> sfq \<Rightarrow> bool" where
  "sfq_account q i p A m q' \<longleftrightarrow>
     (\<forall>j. unat j < unat (sf_nQueue q) \<longrightarrow>
        unat (sf_credits q' ! unat j) =
          (if j \<noteq> i then unat (sf_credits q ! unat j)
           else if sf_packets q' ! unat i = [] then 0
           else unat (sf_credits q ! unat i) - unat (p_size p)) + sfq_bumps A m j * unat (sf_quantum q) \<and>
        (sfq_bumps A m j \<noteq> 0 \<longrightarrow> unat (sf_credits q' ! unat j) <
          unat (p_size (last (sf_packets q' ! unat j))) + unat (sf_quantum q)))"

lemma sfq_serve_spec:
  assumes "sfq_inv q" "sfq_held q \<noteq> {#}"
  shows "\<exists>q' as p p' i rest A m. sfq_doNextEvent q = Some (q', as) \<and> sfq_inv q' \<and> sf_activeQ q = i # rest \<and>
    p = last (sf_packets q ! unat i) \<and> p_size p \<le> ucast (sf_credits q ! unat i) \<and>
    sends as = [p'] \<and> (p' = p \<or> p' = marked p) \<and> frees as = [] \<and>
    sfq_held q = add_mset p (sfq_held q') \<and> q_maxsize q' = q_maxsize q \<and>
    length (scheds as) = (if sfq_held q' = {#} then 0 else 1) \<and>
    sf_packets q' = (sf_packets q)[unat i := butlast (sf_packets q ! unat i)] \<and>
    A = (if sf_packets q' ! unat i = [] then rest else i # rest) \<and> sf_activeQ q' = rotate m A \<and>
    sfq_account q i p A m q'"
proof -
  have pre: "sfq_pre q" using assms(1) by (simp add: sfq_inv_def)
  obtain i rest where a: "sf_activeQ q = i # rest"
    "p_size (last (sf_packets q ! unat i)) \<le> ucast (sf_credits q ! unat i)"
    using assms by (auto simp: sfq_inv_def sfq_ready_def)
  define p where "p = last (sf_packets q ! unat i)"
  note h = sfq_head_eq [OF pre a(1)]
  have pos: "sf_nPackets q > 0"
    using assms pre multi_inv_empty [of "sf_packets q" "sf_nPackets q" "q_queuesize q"]
    by (auto simp: sfq_pre_def Let_def sfq_held_def word_gt_0)
  obtain q1 where d: "sfq_dequeue q i p (sf_credits q ! unat i) = Some q1" "sfq_pre q1"
    "sfq_held q = add_mset p (sfq_held q1)" "q_maxsize q1 = q_maxsize q" "sf_nQueue q1 = sf_nQueue q"
    "sf_quantum q1 = sf_quantum q" "sf_packets q1 = (sf_packets q)[unat i := butlast (sf_packets q ! unat i)]"
    "sf_activeQ q1 = (if butlast (sf_packets q ! unat i) = [] then rest else i # rest)"
    "\<forall>j. unat j < unat (sf_nQueue q) \<longrightarrow> unat (sf_credits q1 ! unat j) =
       (if j \<noteq> i then unat (sf_credits q ! unat j)
        else if butlast (sf_packets q ! unat i) = [] then 0
        else unat (sf_credits q ! unat i) - unat (p_size p))"
    using sfq_dequeue_spec [OF pre a(1) p_def refl a(2) [folded p_def]] by blast
  obtain q2 bs m where b: "sfq_beginService q1 = Some (q2, bs)" "sfq_inv q2" "sfq_held q2 = sfq_held q1"
    "q_maxsize q2 = q_maxsize q1" "sends bs = []" "frees bs = []"
    "length (scheds bs) = (if sfq_held q1 = {#} then 0 else 1)" "sfq_rounds q1 m q2" "sf_packets q2 = sf_packets q1"
    using sfq_begin_spec [OF d(2)] by blast
  have "unat i < length (sf_packets q)" using h(2) pre by (simp add: sfq_pre_def Let_def)
  then have i: "sf_packets q2 ! unat i = butlast (sf_packets q ! unat i)" using b(9) d(7) by simp
  have acc: "sfq_account q i p (sf_activeQ q1) m q2"
    unfolding sfq_account_def
  proof (intro allI impI)
    fix j :: u32
    assume j: "unat j < unat (sf_nQueue q)"
    have r: "unat (sf_credits q2 ! unat j) =
        unat (sf_credits q1 ! unat j) + sfq_bumps (sf_activeQ q1) m j * unat (sf_quantum q)"
      "sfq_bumps (sf_activeQ q1) m j \<noteq> 0 \<longrightarrow> unat (sf_credits q2 ! unat j) <
        unat (p_size (last (sf_packets q2 ! unat j))) + unat (sf_quantum q)"
      using b(8) j unfolding sfq_rounds_def b(9) d(5,6) by blast+
    note c = mp [OF spec [OF d(9), of j] j]
    have "unat (sf_credits q2 ! unat j) =
        (if j \<noteq> i then unat (sf_credits q ! unat j) else if sf_packets q2 ! unat i = [] then 0
         else unat (sf_credits q ! unat i) - unat (p_size p)) + sfq_bumps (sf_activeQ q1) m j * unat (sf_quantum q)"
      unfolding r(1) c i ..
    then show "unat (sf_credits q2 ! unat j) =
        (if j \<noteq> i then unat (sf_credits q ! unat j) else if sf_packets q2 ! unat i = [] then 0
         else unat (sf_credits q ! unat i) - unat (p_size p)) + sfq_bumps (sf_activeQ q1) m j * unat (sf_quantum q) \<and>
      (sfq_bumps (sf_activeQ q1) m j \<noteq> 0 \<longrightarrow> unat (sf_credits q2 ! unat j) <
        unat (p_size (last (sf_packets q2 ! unat j))) + unat (sf_quantum q))"
      using r(2) by (rule conjI)
  qed
  have act: "sf_activeQ q1 = (if sf_packets q2 ! unat i = [] then rest else i # rest)"
    "sf_activeQ q2 = rotate m (sf_activeQ q1)" using d(8) i b(8) by (simp_all add: sfq_rounds_def)
  have "sfq_doNextEvent q =
      Some (q2, Traffic PKT_DEPART p # qlog q1 Q_SERVICE p @ [SendOn (applyEcnMark q1 p)] @ bs)"
    using pos h(1) d(1) b(1) by (simp add: sfq_doNextEvent_def sfq_completeService_def Let_def p_def)
  moreover have "sends (Traffic PKT_DEPART p # qlog q1 Q_SERVICE p @ [SendOn (applyEcnMark q1 p)] @ bs) = [applyEcnMark q1 p]"
    "frees (Traffic PKT_DEPART p # qlog q1 Q_SERVICE p @ [SendOn (applyEcnMark q1 p)] @ bs) = []"
    "length (scheds (Traffic PKT_DEPART p # qlog q1 Q_SERVICE p @ [SendOn (applyEcnMark q1 p)] @ bs)) =
       (if sfq_held q2 = {#} then 0 else 1)"
    using b by simp_all
  moreover have "applyEcnMark q1 p = p \<or> applyEcnMark q1 p = marked p" using applyEcnMark_cases [of q1 p] by blast
  moreover have "sfq_held q = add_mset p (sfq_held q2)" "q_maxsize q2 = q_maxsize q"
    "sf_packets q2 = (sf_packets q)[unat i := butlast (sf_packets q ! unat i)]" using b d by simp_all
  ultimately show ?thesis using b(2) a acc act p_def by blast
qed

interpretation stoc: queue_discipline sfq_receivePacket sfq_doNextEvent sfq_held
  q_maxsize q_queuesize sfq_inv sized_fits
proof (unfold_locales, goal_cases)
  case (1 q p)
  then show ?case using sfq_receive_spec by blast
next
  case (2 q p q' as)
  then show ?case using sfq_receive_spec [of q p] by auto
next
  case (3 q p q' as)
  then show ?case using sfq_receive_spec [of q p] by auto
next
  case (4 q p q' as)
  then show ?case using sfq_receive_spec [of q p] by auto
next
  case (5 q p q' as)
  then show ?case using sfq_receive_spec [of q p] by auto
next
  case (6 q)
  then show ?case using sfq_serve_spec by blast
next
  case (7 q q' as)
  then show ?case using sfq_serve_spec [of q] by auto
next
  case (8 q q' as)
  then show ?case using sfq_serve_spec [of q] by force
next
  case (9 q q' as)
  then show ?case using sfq_serve_spec [of q] by auto
next
  case (10 q)
  then show ?case by (simp add: sfq_inv_def sfq_pre_def multi_inv_def sfq_held_def Let_def)
next
  case (11 q p q' as)
  then show ?case using sfq_receive_spec [of q p] by auto
next
  case (12 q q' as)
  then show ?case using sfq_serve_spec [of q] by auto
qed

section \<open>Properties\<close>

definition ex_sfq :: sfq where
  "ex_sfq = the (mkStocFairQueue 10000000000 100000 False 4 1000)"

lemma ex_sfq_inv: "sfq_inv ex_sfq" "sfq_held ex_sfq = {#}"
proof -
  have "mkStocFairQueue 10000000000 100000 False 4 1000 = Some ex_sfq"
    by (simp add: ex_sfq_def mkStocFairQueue_def mkQueue_def)
  from mkStocFairQueue_inv [OF this] show "sfq_inv ex_sfq" "sfq_held ex_sfq = {#}" by simp_all
qed

lemma ex_sfq_fits: "sized_fits ex_sfq ex_full"
proof -
  have "q_maxsize ex_sfq = 100000" by code_simp
  then show ?thesis by (simp add: sized_fits_def fits_def ex_full_def)
qed

lemma ex_sfq_recv:
  "\<exists>q as. sfq_receivePacket ex_sfq ex_full = Some (q, as) \<and> sfq_inv q \<and> sfq_held q = {#ex_full#}"
proof -
  obtain q as where q: "sfq_receivePacket ex_sfq ex_full = Some (q, as)" "sfq_inv q" "q_maxsize q = q_maxsize ex_sfq"
    "(q = ex_sfq \<and> frees as = [ex_full] \<and> scheds as = [] \<or>
     sfq_held q = add_mset ex_full (sfq_held ex_sfq) \<and> frees as = [])"
    using sfq_receive_spec [OF ex_sfq_inv(1) ex_sfq_fits] by blast
  have "\<not> q_queuesize ex_sfq + p_size ex_full > q_maxsize ex_sfq" by code_simp
  then have "frees as = []" using q(1)
    by (auto simp: sfq_receivePacket_def Let_def bind_eq_Some_conv sfq_beginService_def split: if_splits)
  then show ?thesis using q ex_sfq_inv(2) by auto
qed

text \<open>
  C27: \<open>StocFairQueue\<close>. In every state reached from a well-formed empty queue, no packet is lost,
  invented or duplicated, the bytes held are \<open>_queuesize\<close> and fit the buffer, an event is
  outstanding exactly while packets wait, and neither handler can fail: the search for a queue with
  enough credit always ends.
\<close>

theorem sfq_reachable:
  assumes "qreach sfq_receivePacket sfq_doNextEvent sized_fits q0 s" "sfq_inv q0" "sfq_held q0 = {#}"
  shows "image_mset marked (arrived s) = image_mset marked (sfq_held (st s)) +
      image_mset marked (mset (sent s)) + image_mset marked (dropped s) \<and>
    bytes_of (sfq_held (st s)) = unat (q_queuesize (st s)) \<and> q_queuesize (st s) \<le> q_maxsize q0 \<and>
    pend s = (if sfq_held (st s) = {#} then 0 else 1) \<and>
    (0 < pend s \<longrightarrow> (\<exists>q' as p. sfq_doNextEvent (st s) = Some (q', as) \<and> sends as = [p])) \<and>
    (\<forall>p. sized_fits (st s) p \<longrightarrow> sfq_receivePacket (st s) p \<noteq> None)"
  using stoc.reach_conserved [OF assms] stoc.reach_bounded [OF assms] stoc.reach_live [OF assms] by auto

lemma sfq_reachable_witness:
  "\<exists>s. qreach sfq_receivePacket sfq_doNextEvent sized_fits ex_sfq s \<and> arrived s = {#ex_full#} \<and>
    pend s = (if sfq_held (st s) = {#} then 0 else 1)"
proof -
  obtain q as where q: "sfq_receivePacket ex_sfq ex_full = Some (q, as)" using ex_sfq_recv by blast
  note r = qreach_first [where recv = sfq_receivePacket and serve = sfq_doNextEvent and ok = sized_fits,
      OF ex_sfq_fits q]
  show ?thesis using r sfq_reachable [OF r ex_sfq_inv] by (auto simp: qsim_after_def qsim_init_def)
qed

text \<open>
  C15: deficit round robin. A service event of a non-empty \<open>StocFairQueue\<close> sends the oldest packet \<open>p\<close> of
  the first active queue \<open>i\<close>, a packet that the credit of that queue covers, and takes its size from the
  credit; a queue that is emptied leaves the active list with credit 0. Then active queues are sent to the
  back \<open>m\<close> times, in turn: the credit of every queue grows by the quantum for each time that it is, and by
  nothing else, and the last quantum a queue gets is one it needs, its credit having been below the size of
  its oldest packet. Afterwards the queue is ready again: if packets are left, the first active queue can
  pay for its oldest one.
\<close>

theorem sfq_pays_for_service:
  assumes "sfq_inv q" "sfq_held q \<noteq> {#}"
  shows "\<exists>q' as i rest p A m. sfq_doNextEvent q = Some (q', as) \<and> sf_activeQ q = i # rest \<and>
    p = last (sf_packets q ! unat i) \<and> map p_id (sends as) = [p_id p] \<and>
    p_size p \<le> ucast (sf_credits q ! unat i) \<and> sfq_held q = add_mset p (sfq_held q') \<and>
    sf_packets q' = (sf_packets q)[unat i := butlast (sf_packets q ! unat i)] \<and>
    A = (if sf_packets q' ! unat i = [] then rest else i # rest) \<and> sf_activeQ q' = rotate m A \<and>
    (\<forall>j. unat j < unat (sf_nQueue q) \<longrightarrow>
       unat (sf_credits q' ! unat j) =
         (if j \<noteq> i then unat (sf_credits q ! unat j)
          else if sf_packets q' ! unat i = [] then 0
          else unat (sf_credits q ! unat i) - unat (p_size p)) + sfq_bumps A m j * unat (sf_quantum q) \<and>
       (sfq_bumps A m j \<noteq> 0 \<longrightarrow> unat (sf_credits q' ! unat j) <
         unat (p_size (last (sf_packets q' ! unat j))) + unat (sf_quantum q))) \<and>
    (sfq_held q' \<noteq> {#} \<longrightarrow> (\<exists>j js. sf_activeQ q' = j # js \<and> sf_packets q' ! unat j \<noteq> [] \<and>
       p_size (last (sf_packets q' ! unat j)) \<le> ucast (sf_credits q' ! unat j)))"
proof -
  obtain q' as p p' i rest A m where s: "sfq_doNextEvent q = Some (q', as)" "sfq_inv q'" "sf_activeQ q = i # rest"
    "p = last (sf_packets q ! unat i)" "p_size p \<le> ucast (sf_credits q ! unat i)"
    "sends as = [p']" "p' = p \<or> p' = marked p" "sfq_held q = add_mset p (sfq_held q')"
    "sf_packets q' = (sf_packets q)[unat i := butlast (sf_packets q ! unat i)]"
    "A = (if sf_packets q' ! unat i = [] then rest else i # rest)" "sf_activeQ q' = rotate m A"
    "sfq_account q i p A m q'"
    using sfq_serve_spec [OF assms] by blast
  have r: "sfq_held q' \<noteq> {#} \<longrightarrow> (\<exists>j js. sf_activeQ q' = j # js \<and> sf_packets q' ! unat j \<noteq> [] \<and>
       p_size (last (sf_packets q' ! unat j)) \<le> ucast (sf_credits q' ! unat j))"
    using s(2) sfq_head_eq(3) by (fastforce simp: sfq_inv_def sfq_ready_def)
  have "map p_id (sends as) = [p_id p]" using s(6,7) by auto
  then show ?thesis
    using s(1,3-5,8-11) s(12)[unfolded sfq_account_def] r
    by (intro exI [of _ q'] exI [of _ as] exI [of _ i] exI [of _ rest] exI [of _ p] exI [of _ A] exI [of _ m] conjI)
qed

lemma sfq_pays_for_service_witness:
  "\<exists>q as q' bs. sfq_receivePacket ex_sfq ex_full = Some (q, as) \<and> sfq_doNextEvent q = Some (q', bs) \<and>
    map p_id (sends bs) = [p_id ex_full]"
proof -
  obtain q as where q: "sfq_receivePacket ex_sfq ex_full = Some (q, as)" "sfq_inv q" "sfq_held q = {#ex_full#}"
    using ex_sfq_recv by blast
  then have "sfq_held q \<noteq> {#}" by simp
  from sfq_pays_for_service [OF q(2) this] obtain q' bs i rest p where
    "sfq_doNextEvent q = Some (q', bs)" "map p_id (sends bs) = [p_id p]" "sfq_held q = add_mset p (sfq_held q')"
    by (elim exE conjE)
  then show ?thesis using q by auto
qed

end
