(* ===== verification/AprxFairQ.thy ===== *)
theory AprxFairQ
  imports HashFlow
begin

text \<open>
  \<open>aprx-fairqueue.h\<close> and \<open>aprx-fairqueue.cpp\<close>: \<open>AprxFairQueue\<close>, approximate fair queueing. A
  count-min sketch estimates the bytes of a flow; the estimate, in rounds of \<open>bytesPerRound\<close>,
  chooses one of the rotating FIFO queues. The members of the error measure that is
  commented out in the source are left out.
\<close>

section \<open>State\<close>

record AFQcfg =
  nHash :: u32
  nBucket :: u32
  nQueue :: u32
  bytesPerRound :: u32
  cfg_alpha :: u32

definition ECN_MARK_ROUND :: u64 where "ECN_MARK_ROUND = 8"

definition defaultAFQcfg :: AFQcfg where
  "defaultAFQcfg = \<lparr>nHash = 2, nBucket = 1024, nQueue = 32, bytesPerRound = MSS32, cfg_alpha = 8\<rparr>"

record afq = queue +
  af_packets :: "packet list list"
  af_sketch :: "u64 list list"
  af_Qsize :: "u32 list"
  af_cfg :: AFQcfg
  af_currQ :: u32
  af_nRounds :: u64
  af_nPackets :: u64

definition mkAprxFairQueue :: "u64 \<Rightarrow> u64 \<Rightarrow> bool \<Rightarrow> AFQcfg \<Rightarrow> afq option" where
  "mkAprxFairQueue bitrate maxsize logger config =
     map_option (\<lambda>q. queue.extend q
       \<lparr>af_packets = replicate (unat (nQueue config)) [],
        af_sketch = replicate (unat (nHash config)) (replicate (unat (nBucket config)) 0),
        af_Qsize = replicate (unat (nQueue config)) 0,
        af_cfg = config, af_currQ = 0, af_nRounds = 0, af_nPackets = 0\<rparr>)
       (mkQueue bitrate maxsize logger)"

section \<open>The sketch\<close>

text \<open>The loop over the rows that reads the least counter of a flow, from row \<open>i\<close> on.\<close>

fun afq_read :: "u64 list list \<Rightarrow> u32 \<Rightarrow> u32 \<Rightarrow> nat \<Rightarrow> u64 \<Rightarrow> u64 option" where
  "afq_read [] nb flowid i bytes = Some bytes"
| "afq_read (row # rows) nb flowid i bytes = do {
     index \<leftarrow> hash_mod i flowid nb;
     x \<leftarrow> vec_at row index;
     afq_read rows nb flowid (i + 1) (min x bytes)
   }"

text \<open>The loop that raises the counters.\<close>

fun afq_raise :: "u64 list list \<Rightarrow> u32 \<Rightarrow> u32 \<Rightarrow> nat \<Rightarrow> u64 \<Rightarrow> u64 list list option" where
  "afq_raise [] nb flowid i bytes = Some []"
| "afq_raise (row # rows) nb flowid i bytes = do {
     index \<leftarrow> hash_mod i flowid nb;
     x \<leftarrow> vec_at row index;
     row' \<leftarrow> vec_set row index (max x bytes);
     rows' \<leftarrow> afq_raise rows nb flowid (i + 1) bytes;
     Some (row' # rows')
   }"

definition afq_estimate :: "afq \<Rightarrow> u32 \<Rightarrow> u64 option" where
  "afq_estimate q flowid = afq_read (af_sketch q) (nBucket (af_cfg q)) flowid 0 0xffffffffffffffff"

text \<open>\<open>bytes / _cfg.bytesPerRound\<close>.\<close>

definition afq_round :: "afq \<Rightarrow> u64 \<Rightarrow> u64 option" where
  "afq_round q bytes =
     (if bytesPerRound (af_cfg q) = 0 then None else Some (bytes div ucast (bytesPerRound (af_cfg q))))"

section \<open>Service\<close>

definition afq_nextQ :: "afq \<Rightarrow> afq" where
  "afq_nextQ q =
     (let q = q\<lparr>af_currQ := af_currQ q + 1\<rparr>;
          q = q\<lparr>af_nRounds := af_nRounds q + 1\<rparr>
      in if af_currQ q = nQueue (af_cfg q) then q\<lparr>af_currQ := 0\<rparr> else q)"

text \<open>The search for a queue that is not empty; it does not end when all are.\<close>

partial_function (option) afq_seek :: "afq \<Rightarrow> (afq \<times> packet list) option" where
  "afq_seek q = Option.bind (vec_at (af_packets q) (unat (af_currQ q)))
     (\<lambda>ps. if ps = [] then afq_seek (afq_nextQ q) else Some (q, ps))"

definition afq_beginService :: "afq \<Rightarrow> (afq \<times> action list) option" where
  "afq_beginService q =
     (if af_nPackets q > 0
      then do { (q, ps) \<leftarrow> afq_seek q; Some (q, [SchedRel (drainTime q (last ps))]) }
      else Some (q, []))"

definition afq_completeService :: "afq \<Rightarrow> (afq \<times> action list) option" where
  "afq_completeService q =
     (if \<not> af_nPackets q > 0 then None
      else do {
        ps \<leftarrow> vec_at (af_packets q) (unat (af_currQ q));
        pkt \<leftarrow> (if ps = [] then None else Some (last ps));
        xss \<leftarrow> vec_set (af_packets q) (unat (af_currQ q)) (butlast ps);
        sz \<leftarrow> vec_at (af_Qsize q) (unat (af_currQ q));
        szs \<leftarrow> vec_set (af_Qsize q) (unat (af_currQ q)) (sz - ucast (p_size pkt));
        let q = q\<lparr>af_packets := xss, af_Qsize := szs, q_queuesize := q_queuesize q - p_size pkt,
                  af_nPackets := af_nPackets q - 1\<rparr>;
        let as = Traffic PKT_DEPART pkt # qlog q Q_SERVICE pkt;
        bytes \<leftarrow> afq_estimate q (p_flow pkt);
        flowRound \<leftarrow> afq_round q bytes;
        let pkt = (if flowRound - af_nRounds q \<ge> ECN_MARK_ROUND then setFlag ECN_FWD pkt else pkt);
        let as = as @ [SendOn (applyEcnMark q pkt)];
        (q, bs) \<leftarrow> afq_beginService q;
        Some (q, as @ bs)
      })"

definition afq_doNextEvent :: "afq \<Rightarrow> (afq \<times> action list) option" where
  "afq_doNextEvent q = afq_completeService q"

section \<open>Arrival\<close>

text \<open>The end of \<open>receivePacket\<close> for a packet put into the queue \<open>outQ\<close>.\<close>

definition afq_enqueue ::
  "afq \<Rightarrow> packet \<Rightarrow> bool \<Rightarrow> u64 \<Rightarrow> u32 \<Rightarrow> (afq \<times> action list) option" where
  "afq_enqueue q pkt queueWasEmpty bytes outQ = do {
     let bytes = bytes + p_size pkt;
     ps \<leftarrow> vec_at (af_packets q) (unat outQ);
     xss \<leftarrow> vec_set (af_packets q) (unat outQ) (pkt # ps);
     sz \<leftarrow> vec_at (af_Qsize q) (unat outQ);
     szs \<leftarrow> vec_set (af_Qsize q) (unat outQ) (sz + ucast (p_size pkt));
     let q = q\<lparr>af_packets := xss, af_Qsize := szs, q_queuesize := q_queuesize q + p_size pkt,
               af_nPackets := af_nPackets q + 1\<rparr>;
     sk \<leftarrow> afq_raise (af_sketch q) (nBucket (af_cfg q)) (p_flow pkt) 0 bytes;
     let q = q\<lparr>af_sketch := sk\<rparr>;
     (if queueWasEmpty
      then if af_nPackets q \<noteq> 1 then None else afq_beginService q
      else Some (q, []))
   }"

definition afq_receivePacket :: "afq \<Rightarrow> packet \<Rightarrow> (afq \<times> action list) option" where
  "afq_receivePacket q pkt =
     (if q_queuesize q + p_size pkt > q_maxsize q then Some (q, dropPacket q pkt)
      else do {
        let as = [Traffic PKT_ARRIVE pkt];
        let queueWasEmpty = (af_nPackets q = 0);
        bytes \<leftarrow> afq_estimate q (p_flow pkt);
        flowRound \<leftarrow> afq_round q bytes;
        (if flowRound \<le> af_nRounds q
         then do {
           (q, bs) \<leftarrow> afq_enqueue q pkt queueWasEmpty
             (max (af_nRounds q * ucast (bytesPerRound (af_cfg q))) bytes) (af_currQ q);
           Some (q, as @ bs)
         }
         else if flowRound - af_nRounds q \<ge> ucast (nQueue (af_cfg q))
         then Some (q, as @ dropPacket q pkt)
         else do {
           let outQ = ucast (ucast (af_currQ q) + (flowRound - af_nRounds q));
           let outQ = (if outQ \<ge> nQueue (af_cfg q) then outQ - nQueue (af_cfg q) else outQ);
           (q, bs) \<leftarrow> afq_enqueue q pkt queueWasEmpty bytes outQ;
           Some (q, as @ bs)
         })
      })"

definition afq_printStats :: "afq \<Rightarrow> (u32 \<rightharpoonup> u32)" where
  "afq_printStats q = flow_counts (concat (af_packets q)) Map.empty"

section \<open>Invariant\<close>

definition sketch_ok :: "u32 \<Rightarrow> u64 list list \<Rightarrow> bool" where
  "sketch_ok nb sk \<longleftrightarrow> (\<forall>row \<in> set sk. length row = unat nb)"

definition afq_pre :: "afq \<Rightarrow> bool" where
  "afq_pre q \<longleftrightarrow> length (af_packets q) = unat (nQueue (af_cfg q)) \<and>
     length (af_Qsize q) = unat (nQueue (af_cfg q)) \<and> sketch_ok (nBucket (af_cfg q)) (af_sketch q) \<and>
     nBucket (af_cfg q) \<noteq> 0 \<and> bytesPerRound (af_cfg q) \<noteq> 0 \<and> 0 < unat (nQueue (af_cfg q)) \<and>
     unat (nQueue (af_cfg q)) < 2 ^ 31 \<and> unat (af_currQ q) < unat (nQueue (af_cfg q)) \<and>
     multi_inv (af_packets q) (af_nPackets q) (q_queuesize q) \<and> sized (mset (concat (af_packets q))) \<and>
     q_queuesize q \<le> q_maxsize q"

definition afq_held :: "afq \<Rightarrow> packet multiset" where
  "afq_held q = mset (concat (af_packets q))"

text \<open>Between events the current queue is one that is not empty, if there is a packet.\<close>

definition afq_inv :: "afq \<Rightarrow> bool" where
  "afq_inv q \<longleftrightarrow> afq_pre q \<and> (afq_held q \<noteq> {#} \<longrightarrow> af_packets q ! unat (af_currQ q) \<noteq> [])"

lemma mkAprxFairQueue_inv:
  assumes "mkAprxFairQueue bitrate maxsize lg c = Some q" "nBucket c \<noteq> 0" "bytesPerRound c \<noteq> 0"
    "nQueue c \<noteq> 0" "unat (nQueue c) < 2 ^ 31"
  shows "afq_inv q \<and> afq_held q = {#}"
proof -
  have "0 < unat (nQueue c)" using assms(4) by (simp add: unat_gt_0)
  moreover have "concat (replicate n []) = ([] :: packet list)" for n by (induction n) auto
  ultimately show ?thesis
    using assms by (auto simp: mkAprxFairQueue_def mkQueue_def queue.defs afq_inv_def afq_pre_def
        afq_held_def sketch_ok_def sized_def multi_inv_def split: if_splits)
qed

end
