(* ===== verification/AprxLemmas.thy ===== *)
theory AprxLemmas
  imports AprxFairQ
begin

text \<open>
  \<open>AprxFairQueue\<close> fulfils the contract of a queue discipline, its sketch never underestimates a
  flow, and a packet is never served before the round its flow is in.
\<close>

section \<open>The sketch\<close>

lemma sketch_ok_Cons: "sketch_ok nb (row # sk) \<longleftrightarrow> length row = unat nb \<and> sketch_ok nb sk"
  by (auto simp: sketch_ok_def)

text \<open>The index of a flow in row \<open>i\<close>.\<close>

abbreviation flow_index :: "u32 \<Rightarrow> nat \<Rightarrow> u32 \<Rightarrow> nat" where
  "flow_index nb i f \<equiv> unat (hashFlow i f mod ucast nb)"

lemma afq_read_total:
  assumes "sketch_ok nb sk" "nb \<noteq> 0"
  shows "\<exists>x. afq_read sk nb f i b = Some x \<and> x \<le> b \<and>
    (\<forall>k < length sk. x \<le> sk ! k ! flow_index nb (i + k) f) \<and>
    (\<forall>m. m \<le> b \<longrightarrow> (\<forall>k < length sk. m \<le> sk ! k ! flow_index nb (i + k) f) \<longrightarrow> m \<le> x)"
  using assms(1)
proof (induction sk arbitrary: i b)
  case Nil
  then show ?case by simp
next
  case (Cons row sk)
  note h = hash_mod_Some [OF assms(2), of i f]
  have r: "flow_index nb i f < length row" "sketch_ok nb sk"
    using Cons.prems h by (auto simp: sketch_ok_Cons)
  obtain x where x: "afq_read sk nb f (i + 1) (min (row ! flow_index nb i f) b) = Some x"
    "x \<le> min (row ! flow_index nb i f) b"
    "\<forall>k < length sk. x \<le> sk ! k ! flow_index nb (i + 1 + k) f"
    "\<forall>m. m \<le> min (row ! flow_index nb i f) b \<longrightarrow>
      (\<forall>k < length sk. m \<le> sk ! k ! flow_index nb (i + 1 + k) f) \<longrightarrow> m \<le> x"
    using Cons.IH [OF r(2), of "i + 1" "min (row ! flow_index nb i f) b"] by blast
  have e: "afq_read (row # sk) nb f i b = Some x" using h r(1) x(1) by simp
  have le: "x \<le> row ! flow_index nb i f" "x \<le> b" using x(2) by simp_all
  have rows: "\<forall>k < length (row # sk). x \<le> (row # sk) ! k ! flow_index nb (i + k) f"
    using x(3) le(1) by (auto simp: nth_Cons split: nat.split)
  have "m \<le> x" if m: "m \<le> b" "\<forall>k < length (row # sk). m \<le> (row # sk) ! k ! flow_index nb (i + k) f" for m
  proof -
    have "m \<le> row ! flow_index nb i f" using spec [OF m(2), of 0] by simp
    moreover have "m \<le> sk ! k ! flow_index nb (i + 1 + k) f" if "k < length sk" for k
      using spec [OF m(2), of "Suc k"] that by simp
    ultimately show ?thesis using x(4) m(1) by (metis min.boundedI)
  qed
  then show ?case using e le(2) rows by blast
qed

lemma afq_raise_total:
  assumes "sketch_ok nb sk" "nb \<noteq> 0"
  shows "\<exists>sk'. afq_raise sk nb f i b = Some sk' \<and> sketch_ok nb sk' \<and> length sk' = length sk \<and>
    (\<forall>k < length sk. \<forall>j. sk ! k ! j \<le> sk' ! k ! j) \<and>
    (\<forall>k < length sk. b \<le> sk' ! k ! flow_index nb (i + k) f)"
  using assms(1)
proof (induction sk arbitrary: i)
  case Nil
  then show ?case by (simp add: sketch_ok_def)
next
  case (Cons row sk)
  note h = hash_mod_Some [OF assms(2), of i f]
  have r: "flow_index nb i f < length row" "sketch_ok nb sk" "length row = unat nb"
    using Cons.prems h by (auto simp: sketch_ok_Cons)
  let ?row = "row[flow_index nb i f := max (row ! flow_index nb i f) b]"
  obtain sk' where s: "afq_raise sk nb f (i + 1) b = Some sk'" "sketch_ok nb sk'" "length sk' = length sk"
    "\<forall>k < length sk. \<forall>j. sk ! k ! j \<le> sk' ! k ! j"
    "\<forall>k < length sk. b \<le> sk' ! k ! flow_index nb (i + 1 + k) f"
    using Cons.IH [OF r(2), of "i + 1"] by blast
  have e: "afq_raise (row # sk) nb f i b = Some (?row # sk')" using h r(1) s(1) by simp
  have up: "row ! j \<le> ?row ! j" for j
    using r(1) by (cases "j = flow_index nb i f") simp_all
  have "sketch_ok nb (?row # sk')" using s(2) r(3) by (simp add: sketch_ok_Cons)
  moreover have "\<forall>k < length (row # sk). \<forall>j. (row # sk) ! k ! j \<le> (?row # sk') ! k ! j"
    using s(4) up by (auto simp: nth_Cons split: nat.split)
  moreover have "\<forall>k < length (row # sk). b \<le> (?row # sk') ! k ! flow_index nb (i + k) f"
    using s(5) r(1) by (auto simp: nth_Cons split: nat.split)
  ultimately show ?case using e s(3) by auto
qed

section \<open>Rotation\<close>

lemma afq_nextQ_fields [simp]:
  "af_packets (afq_nextQ q) = af_packets q" "af_cfg (afq_nextQ q) = af_cfg q"
  "af_sketch (afq_nextQ q) = af_sketch q" "af_Qsize (afq_nextQ q) = af_Qsize q"
  "af_nPackets (afq_nextQ q) = af_nPackets q" "q_queuesize (afq_nextQ q) = q_queuesize q"
  "q_maxsize (afq_nextQ q) = q_maxsize q" "af_nRounds (afq_nextQ q) = af_nRounds q + 1"
  "q_bitrate (afq_nextQ q) = q_bitrate q" "q_ps_per_byte (afq_nextQ q) = q_ps_per_byte q"
  by (simp_all add: afq_nextQ_def Let_def)

lemma afq_nextQ_curr:
  assumes "unat (af_currQ q) < unat (nQueue (af_cfg q))" "unat (nQueue (af_cfg q)) < 2 ^ 31"
  shows "unat (af_currQ (afq_nextQ q)) = (unat (af_currQ q) + 1) mod unat (nQueue (af_cfg q))"
proof -
  have u: "unat (af_currQ q + 1) = unat (af_currQ q) + 1"
    using assms unat_add_32 [of "af_currQ q" 1] by simp
  then have "af_currQ q + 1 = nQueue (af_cfg q) \<longleftrightarrow> unat (af_currQ q) + 1 = unat (nQueue (af_cfg q))"
    by (simp add: word_unat_eq_iff)
  then show ?thesis using u assms by (auto simp: afq_nextQ_def Let_def)
qed

text \<open>The search moves \<open>n\<close> queues on, to the first that is not empty.\<close>

lemma afq_seek_spec:
  assumes "length (af_packets q) = unat (nQueue (af_cfg q))" "unat (af_currQ q) < unat (nQueue (af_cfg q))"
    and "unat (nQueue (af_cfg q)) < 2 ^ 31"
    and "k < unat (nQueue (af_cfg q))" "af_packets q ! ((unat (af_currQ q) + k) mod unat (nQueue (af_cfg q))) \<noteq> []"
  shows "\<exists>n \<le> k. afq_seek q =
      Some ((afq_nextQ ^^ n) q, af_packets q ! unat (af_currQ ((afq_nextQ ^^ n) q))) \<and>
    unat (af_currQ ((afq_nextQ ^^ n) q)) = (unat (af_currQ q) + n) mod unat (nQueue (af_cfg q)) \<and>
    af_packets q ! unat (af_currQ ((afq_nextQ ^^ n) q)) \<noteq> []"
  using assms
proof (induction k arbitrary: q)
  case 0
  then have "af_packets q ! unat (af_currQ q) \<noteq> []" by simp
  then have "afq_seek q = Some (q, af_packets q ! unat (af_currQ q))"
    using 0 by (subst afq_seek.simps) simp
  then show ?case using 0 by (intro exI [of _ 0]) simp
next
  case (Suc k)
  show ?case
  proof (cases "af_packets q ! unat (af_currQ q) = []")
    case False
    then have "afq_seek q = Some (q, af_packets q ! unat (af_currQ q))"
      using Suc.prems by (subst afq_seek.simps) simp
    then show ?thesis using Suc.prems False by (intro exI [of _ 0]) simp
  next
    case True
    let ?N = "unat (nQueue (af_cfg q))"
    have c: "unat (af_currQ (afq_nextQ q)) = (unat (af_currQ q) + 1) mod ?N"
      by (rule afq_nextQ_curr [OF Suc.prems(2,3)])
    have N: "0 < ?N" using Suc.prems(2) by linarith
    have step: "afq_seek q = afq_seek (afq_nextQ q)"
      using True Suc.prems by (subst afq_seek.simps) simp
    have "((unat (af_currQ q) + 1) mod ?N + k) mod ?N = (unat (af_currQ q) + Suc k) mod ?N"
      by (simp add: mod_simps)
    then have "af_packets (afq_nextQ q) ! ((unat (af_currQ (afq_nextQ q)) + k) mod unat (nQueue (af_cfg (afq_nextQ q)))) \<noteq> []"
      using Suc.prems(5) c by simp
    then obtain n where n: "n \<le> k" "afq_seek (afq_nextQ q) = Some ((afq_nextQ ^^ n) (afq_nextQ q),
        af_packets q ! unat (af_currQ ((afq_nextQ ^^ n) (afq_nextQ q))))"
      "unat (af_currQ ((afq_nextQ ^^ n) (afq_nextQ q))) = (unat (af_currQ (afq_nextQ q)) + n) mod ?N"
      "af_packets q ! unat (af_currQ ((afq_nextQ ^^ n) (afq_nextQ q))) \<noteq> []"
      using Suc.IH [of "afq_nextQ q"] Suc.prems c N by auto
    have m: "((unat (af_currQ q) + 1) mod ?N + n) mod ?N = (unat (af_currQ q) + Suc n) mod ?N"
      by (simp add: mod_simps)
    have e: "(afq_nextQ ^^ Suc n) q = (afq_nextQ ^^ n) (afq_nextQ q)" by (simp add: funpow_swap1)
    show ?thesis
    proof (intro exI conjI)
      show "Suc n \<le> Suc k" using n(1) by simp
      show "afq_seek q = Some ((afq_nextQ ^^ Suc n) q,
          af_packets q ! unat (af_currQ ((afq_nextQ ^^ Suc n) q)))"
        unfolding e step by (rule n(2))
      show "unat (af_currQ ((afq_nextQ ^^ Suc n) q)) = (unat (af_currQ q) + Suc n) mod ?N"
        unfolding e n(3) c m ..
      show "af_packets q ! unat (af_currQ ((afq_nextQ ^^ Suc n) q)) \<noteq> []"
        unfolding e by (rule n(4))
    qed
  qed
qed

lemma funpow_nextQ_fields [simp]:
  "af_packets ((afq_nextQ ^^ n) q) = af_packets q" "af_cfg ((afq_nextQ ^^ n) q) = af_cfg q"
  "af_sketch ((afq_nextQ ^^ n) q) = af_sketch q" "af_Qsize ((afq_nextQ ^^ n) q) = af_Qsize q"
  "af_nPackets ((afq_nextQ ^^ n) q) = af_nPackets q" "q_queuesize ((afq_nextQ ^^ n) q) = q_queuesize q"
  "q_maxsize ((afq_nextQ ^^ n) q) = q_maxsize q" "q_ps_per_byte ((afq_nextQ ^^ n) q) = q_ps_per_byte q"
  "af_nRounds ((afq_nextQ ^^ n) q) = af_nRounds q + of_nat n"
  by (induction n) simp_all

section \<open>The contract\<close>

lemma afq_begin_spec:
  assumes "afq_pre q"
  shows "\<exists>q' as n. afq_beginService q = Some (q', as) \<and> q' = (afq_nextQ ^^ n) q \<and> afq_inv q' \<and>
    sends as = [] \<and> frees as = [] \<and> length (scheds as) = (if afq_held q = {#} then 0 else 1) \<and>
    unat (af_currQ q') = (unat (af_currQ q) + n) mod unat (nQueue (af_cfg q)) \<and>
    (af_packets q ! unat (af_currQ q) \<noteq> [] \<longrightarrow> n = 0) \<and>
    (\<forall>k < unat (nQueue (af_cfg q)). af_packets q ! ((unat (af_currQ q) + k) mod unat (nQueue (af_cfg q))) \<noteq> [] \<longrightarrow> n \<le> k)"
proof (cases "af_nPackets q > 0")
  case False
  then have "afq_held q = {#}"
    using assms multi_inv_empty [of "af_packets q" "af_nPackets q" "q_queuesize q"]
    by (simp add: afq_pre_def afq_held_def word_gt_0)
  then show ?thesis using False assms
    by (intro exI [of _ q] exI [of _ "[]"] exI [of _ 0])
      (simp add: afq_beginService_def afq_inv_def afq_pre_def)
next
  case True
  let ?N = "unat (nQueue (af_cfg q))" and ?c = "unat (af_currQ q)"
  have p: "length (af_packets q) = ?N" "?c < ?N" "?N < 2 ^ 31" using assms by (simp_all add: afq_pre_def)
  have ne: "mset (concat (af_packets q)) \<noteq> {#}"
    using True assms multi_inv_empty [of "af_packets q" "af_nPackets q" "q_queuesize q"]
    by (auto simp: afq_pre_def)
  then obtain i where i: "i < ?N" "af_packets q ! i \<noteq> []" using p(1) concat_nonempty by metis
  have "(?c + (i + ?N - ?c) mod ?N) mod ?N = (?c + (i + ?N - ?c)) mod ?N" by (rule mod_add_right_eq)
  also have "\<dots> = i" using p(2) i(1) by simp
  finally have ex: "\<exists>k. k < ?N \<and> af_packets q ! ((?c + k) mod ?N) \<noteq> []"
    using i p(2) by (intro exI [of _ "(i + ?N - ?c) mod ?N"]) simp
  define k where "k = (LEAST k. k < ?N \<and> af_packets q ! ((?c + k) mod ?N) \<noteq> [])"
  have k: "k < ?N" "af_packets q ! ((?c + k) mod ?N) \<noteq> []"
    using LeastI_ex [OF ex] by (auto simp: k_def)
  have least: "k \<le> j" if "j < ?N" "af_packets q ! ((?c + j) mod ?N) \<noteq> []" for j
    unfolding k_def using that by (intro Least_le) simp
  obtain n where n: "n \<le> k" "afq_seek q =
      Some ((afq_nextQ ^^ n) q, af_packets q ! unat (af_currQ ((afq_nextQ ^^ n) q)))"
    "unat (af_currQ ((afq_nextQ ^^ n) q)) = (?c + n) mod ?N"
    "af_packets q ! unat (af_currQ ((afq_nextQ ^^ n) q)) \<noteq> []"
    using afq_seek_spec [OF p k] by blast
  have i': "afq_inv ((afq_nextQ ^^ n) q)"
    using assms n(3,4) p(2) by (simp add: afq_inv_def afq_pre_def)
  have n0: "n = 0" if "af_packets q ! ?c \<noteq> []" using least [of 0] that p(2) n(1) by simp
  have b: "afq_beginService q = Some ((afq_nextQ ^^ n) q,
      [SchedRel (drainTime ((afq_nextQ ^^ n) q) (last (af_packets q ! unat (af_currQ ((afq_nextQ ^^ n) q)))))])"
    using True n(2) by (simp add: afq_beginService_def)
  have le: "\<forall>j < ?N. af_packets q ! ((?c + j) mod ?N) \<noteq> [] \<longrightarrow> n \<le> j"
    using least n(1) by (meson le_trans)
  show ?thesis
    using b i' n(3) n0 le ne unfolding afq_held_def
    by (intro exI [of _ "(afq_nextQ ^^ n) q"] exI [of _ "[SchedRel _]"] exI [of _ n]) simp
qed

lemma afq_estimate_total:
  "afq_pre q \<Longrightarrow> \<exists>x. afq_estimate q f = Some x"
  unfolding afq_estimate_def using afq_read_total [of "nBucket (af_cfg q)" "af_sketch q"]
  by (fastforce simp: afq_pre_def)

lemma afq_round_total:
  "afq_pre q \<Longrightarrow> afq_round q x = Some (x div ucast (bytesPerRound (af_cfg q)))"
  by (simp add: afq_round_def afq_pre_def)

lemma afq_enqueue_spec:
  assumes "afq_inv q" "sized_fits q p" "\<not> q_queuesize q + p_size p > q_maxsize q"
    and "unat outQ < unat (nQueue (af_cfg q))"
  shows "\<exists>q' as sk n. afq_enqueue q p (af_nPackets q = 0) bytes outQ = Some (q', as) \<and> afq_inv q' \<and>
    afq_held q' = add_mset p (afq_held q) \<and> q_maxsize q' = q_maxsize q \<and>
    sends as = [] \<and> frees as = [] \<and> length (scheds as) = (if afq_held q = {#} then 1 else 0) \<and>
    afq_raise (af_sketch q) (nBucket (af_cfg q)) (p_flow p) 0 (bytes + p_size p) = Some sk \<and>
    af_sketch q' = sk \<and> af_packets q' = (af_packets q)[unat outQ := p # af_packets q ! unat outQ] \<and>
    af_cfg q' = af_cfg q \<and> af_nRounds q' = af_nRounds q + of_nat n \<and>
    unat (af_currQ q') = (unat (af_currQ q) + n) mod unat (nQueue (af_cfg q)) \<and>
    (afq_held q \<noteq> {#} \<longrightarrow> n = 0) \<and>
    (afq_held q = {#} \<longrightarrow> (\<forall>k < unat (nQueue (af_cfg q)).
      unat outQ = (unat (af_currQ q) + k) mod unat (nQueue (af_cfg q)) \<longrightarrow> n \<le> k))"
proof -
  let ?N = "unat (nQueue (af_cfg q))" and ?b = "bytes + p_size p"
  have p: "length (af_packets q) = ?N" "length (af_Qsize q) = ?N" "sketch_ok (nBucket (af_cfg q)) (af_sketch q)"
    "nBucket (af_cfg q) \<noteq> 0" "multi_inv (af_packets q) (af_nPackets q) (q_queuesize q)"
    "sized (mset (concat (af_packets q)))" "q_queuesize q \<le> q_maxsize q"
    using assms(1) by (simp_all add: afq_inv_def afq_pre_def)
  have sz: "p_size p \<noteq> 0" "unat (q_queuesize q) + unat (p_size p) < 18446744073709551616"
    using assms(2) p(7) by (simp_all add: sized_fits_def fits_def word_le_nat_alt)
  have i: "unat outQ < length (af_packets q)" using assms(4) p(1) by simp
  let ?xss = "(af_packets q)[unat outQ := p # af_packets q ! unat outQ]"
  obtain sk where sk: "afq_raise (af_sketch q) (nBucket (af_cfg q)) (p_flow p) 0 ?b = Some sk"
      "sketch_ok (nBucket (af_cfg q)) sk"
    using afq_raise_total [OF p(3,4)] by blast
  define q1 where "q1 = q\<lparr>af_packets := ?xss,
    af_Qsize := (af_Qsize q)[unat outQ := af_Qsize q ! unat outQ + ucast (p_size p)],
    q_queuesize := q_queuesize q + p_size p, af_nPackets := af_nPackets q + 1, af_sketch := sk\<rparr>"
  have mi: "multi_inv ?xss (af_nPackets q + 1) (q_queuesize q + p_size p)"
    by (rule multi_inv_push [OF p(5) i p(6) sz])
  have m: "mset (concat ?xss) = add_mset p (mset (concat (af_packets q)))" by (rule mset_concat_push [OF i])
  have pre: "afq_pre q1"
    using assms(1,3) sk(2) mi m sz(1) p(6)
    by (auto simp: afq_inv_def afq_pre_def q1_def sized_def)
  have h: "afq_held q1 = add_mset p (afq_held q)" by (simp add: afq_held_def q1_def m)
  have e: "afq_enqueue q p (af_nPackets q = 0) bytes outQ =
      (if af_nPackets q = 0 then if af_nPackets q1 \<noteq> 1 then None else afq_beginService q1 else Some (q1, []))"
    using i assms(4) p(2) sk(1) by (simp add: afq_enqueue_def Let_def q1_def)
  have z: "af_nPackets q = 0 \<longleftrightarrow> afq_held q = {#}"
    using multi_inv_empty [OF p(5)] by (simp add: afq_held_def)
  show ?thesis
  proof (cases "af_nPackets q = 0")
    case False
    have "af_packets q1 ! unat (af_currQ q) \<noteq> []"
      using assms(1) False z i by (cases "unat outQ = unat (af_currQ q)") (auto simp: q1_def afq_inv_def)
    then have "afq_inv q1" using pre by (simp add: afq_inv_def q1_def)
    then show ?thesis using e False z h sk(1) assms(1)
      by (intro exI [of _ q1] exI [of _ "[]"] exI [of _ sk] exI [of _ 0])
        (auto simp: q1_def afq_inv_def afq_pre_def)
  next
    case True
    obtain q2 as n where b: "afq_beginService q1 = Some (q2, as)" "q2 = (afq_nextQ ^^ n) q1" "afq_inv q2"
        "sends as = []" "frees as = []" "length (scheds as) = (if afq_held q1 = {#} then 0 else 1)"
        "unat (af_currQ q2) = (unat (af_currQ q1) + n) mod ?N"
        "\<forall>k < ?N. af_packets q1 ! ((unat (af_currQ q1) + k) mod ?N) \<noteq> [] \<longrightarrow> n \<le> k"
      using afq_begin_spec [OF pre] by (auto simp: q1_def)
    have "n \<le> k" if "k < ?N" "unat outQ = (unat (af_currQ q) + k) mod ?N" for k
      using b(8) that i by (auto simp: q1_def)
    then show ?thesis using e True z h b sk(1)
      by (intro exI [of _ q2] exI [of _ as] exI [of _ sk] exI [of _ n])
        (auto simp: afq_held_def q1_def)
  qed
qed

text \<open>The queue for a packet that is \<open>d\<close> rounds ahead.\<close>

definition afq_outQ :: "afq \<Rightarrow> u64 \<Rightarrow> u32" where
  "afq_outQ q d =
     (let outQ = ucast (ucast (af_currQ q) + d)
      in if outQ \<ge> nQueue (af_cfg q) then outQ - nQueue (af_cfg q) else outQ)"

lemma afq_outQ_mod:
  assumes "afq_pre q" "d < ucast (nQueue (af_cfg q))"
  shows "unat (afq_outQ q d) = (unat (af_currQ q) + unat d) mod unat (nQueue (af_cfg q))"
proof -
  let ?N = "unat (nQueue (af_cfg q))" and ?o = "ucast (ucast (af_currQ q) + d) :: u32"
  have b: "unat (af_currQ q) < ?N" "?N < 2 ^ 31" "unat d < ?N"
    using assms by (simp_all add: afq_pre_def word_less_nat_alt)
  have "unat (ucast (af_currQ q) + d :: u64) = unat (af_currQ q) + unat d"
    using b unat_add_64 [of "ucast (af_currQ q)" d] by simp
  then have o: "unat ?o = unat (af_currQ q) + unat d"
    using b by (simp add: unsigned_ucast_eq take_bit_nat_eq_self)
  show ?thesis
  proof (cases "?o \<ge> nQueue (af_cfg q)")
    case True
    then have "unat (?o - nQueue (af_cfg q)) = unat ?o - ?N" by (simp add: unat_sub)
    moreover have "?N \<le> unat ?o" using True by (simp add: word_le_nat_alt)
    ultimately show ?thesis using True o b by (simp add: afq_outQ_def Let_def mod_if)
  next
    case False
    then have "unat ?o < ?N" by (simp add: word_le_nat_alt)
    then show ?thesis using False o by (simp add: afq_outQ_def Let_def)
  qed
qed

text \<open>The outcome of an arrival: a drop, or a packet put \<open>k\<close> queues ahead of the current one.\<close>

definition afq_accepts :: "afq \<Rightarrow> packet \<Rightarrow> u64 \<Rightarrow> nat \<Rightarrow> afq \<Rightarrow> nat \<Rightarrow> action list \<Rightarrow> bool" where
  "afq_accepts q p bytes k q' n as \<longleftrightarrow> k < unat (nQueue (af_cfg q)) \<and>
     afq_held q' = add_mset p (afq_held q) \<and> frees as = [] \<and>
     length (scheds as) = (if afq_held q = {#} then 1 else 0) \<and>
     afq_raise (af_sketch q) (nBucket (af_cfg q)) (p_flow p) 0 (bytes + p_size p) = Some (af_sketch q') \<and>
     af_packets q' = (let j = (unat (af_currQ q) + k) mod unat (nQueue (af_cfg q))
                      in (af_packets q)[j := p # af_packets q ! j]) \<and>
     af_cfg q' = af_cfg q \<and> af_nRounds q' = af_nRounds q + of_nat n \<and>
     unat (af_currQ q') = (unat (af_currQ q) + n) mod unat (nQueue (af_cfg q)) \<and>
     (afq_held q \<noteq> {#} \<longrightarrow> n = 0) \<and> (afq_held q = {#} \<longrightarrow> n \<le> k)"

lemma afq_enqueue_accepts:
  assumes "afq_inv q" "sized_fits q p" "\<not> q_queuesize q + p_size p > q_maxsize q"
    and "k < unat (nQueue (af_cfg q))" "unat outQ = (unat (af_currQ q) + k) mod unat (nQueue (af_cfg q))"
  shows "\<exists>q' as n. afq_enqueue q p (af_nPackets q = 0) bytes outQ = Some (q', as) \<and> afq_inv q' \<and>
    q_maxsize q' = q_maxsize q \<and> sends as = [] \<and> afq_accepts q p bytes k q' n as"
proof -
  have "unat outQ < unat (nQueue (af_cfg q))" using assms(4,5) by simp
  from afq_enqueue_spec [OF assms(1-3) this, of bytes]
  obtain q' as sk n where s: "afq_enqueue q p (af_nPackets q = 0) bytes outQ = Some (q', as)" "afq_inv q'"
    "afq_held q' = add_mset p (afq_held q)" "q_maxsize q' = q_maxsize q" "sends as = []" "frees as = []"
    "length (scheds as) = (if afq_held q = {#} then 1 else 0)"
    "afq_raise (af_sketch q) (nBucket (af_cfg q)) (p_flow p) 0 (bytes + p_size p) = Some sk"
    "af_sketch q' = sk" "af_packets q' = (af_packets q)[unat outQ := p # af_packets q ! unat outQ]"
    "af_cfg q' = af_cfg q" "af_nRounds q' = af_nRounds q + of_nat n"
    "unat (af_currQ q') = (unat (af_currQ q) + n) mod unat (nQueue (af_cfg q))"
    "afq_held q \<noteq> {#} \<longrightarrow> n = 0"
    "afq_held q = {#} \<longrightarrow> (\<forall>k < unat (nQueue (af_cfg q)).
      unat outQ = (unat (af_currQ q) + k) mod unat (nQueue (af_cfg q)) \<longrightarrow> n \<le> k)"
    by blast
  have "afq_accepts q p bytes k q' n as"
    unfolding afq_accepts_def Let_def using s assms(4,5) by simp
  with s show ?thesis by blast
qed

text \<open>The bytes that \<open>receivePacket\<close> takes the flow to have sent, and how far ahead it puts it.\<close>

definition afq_base :: "afq \<Rightarrow> u64 \<Rightarrow> u64" where
  "afq_base q est =
     (if est div ucast (bytesPerRound (af_cfg q)) \<le> af_nRounds q
      then max (af_nRounds q * ucast (bytesPerRound (af_cfg q))) est else est)"

definition afq_ahead :: "afq \<Rightarrow> u64 \<Rightarrow> nat" where
  "afq_ahead q est =
     (if est div ucast (bytesPerRound (af_cfg q)) \<le> af_nRounds q then 0
      else unat (est div ucast (bytesPerRound (af_cfg q)) - af_nRounds q))"

lemma afq_receive_spec:
  assumes "afq_inv q" "sized_fits q p"
  shows "\<exists>est q' as n. afq_estimate q (p_flow p) = Some est \<and> afq_receivePacket q p = Some (q', as) \<and>
    afq_inv q' \<and> q_maxsize q' = q_maxsize q \<and> sends as = [] \<and>
    (q' = q \<and> frees as = [p] \<and> scheds as = [] \<or> afq_accepts q p (afq_base q est) (afq_ahead q est) q' n as)"
proof -
  have pre: "afq_pre q" using assms(1) by (simp add: afq_inv_def)
  obtain est where est: "afq_estimate q (p_flow p) = Some est" using afq_estimate_total [OF pre] by blast
  note rd = afq_round_total [OF pre, of est]
  define r where "r = est div ucast (bytesPerRound (af_cfg q))"
  consider "q_queuesize q + p_size p > q_maxsize q"
    | "\<not> q_queuesize q + p_size p > q_maxsize q" "r \<le> af_nRounds q"
    | "\<not> q_queuesize q + p_size p > q_maxsize q" "\<not> r \<le> af_nRounds q" "r - af_nRounds q \<ge> ucast (nQueue (af_cfg q))"
    | "\<not> q_queuesize q + p_size p > q_maxsize q" "\<not> r \<le> af_nRounds q" "r - af_nRounds q < ucast (nQueue (af_cfg q))"
    by fastforce
  then show ?thesis
  proof cases
    case 1
    then show ?thesis using assms(1) est
      by (intro exI [of _ est] exI [of _ q]) (simp add: afq_receivePacket_def)
  next
    case 2
    have k: "afq_ahead q est = 0" "afq_base q est = max (af_nRounds q * ucast (bytesPerRound (af_cfg q))) est"
      using 2(2) by (simp_all add: afq_ahead_def afq_base_def r_def)
    have N: "0 < unat (nQueue (af_cfg q))" "unat (af_currQ q) = (unat (af_currQ q) + 0) mod unat (nQueue (af_cfg q))"
      using pre by (simp_all add: afq_pre_def)
    obtain q' as n where s: "afq_enqueue q p (af_nPackets q = 0) (afq_base q est) (af_currQ q) = Some (q', as)"
        "afq_inv q'" "q_maxsize q' = q_maxsize q" "sends as = []" "afq_accepts q p (afq_base q est) 0 q' n as"
      using afq_enqueue_accepts [OF assms 2(1) N] by blast
    have "afq_receivePacket q p = Some (q', Traffic PKT_ARRIVE p # as)"
      using 2 est rd s(1) k(2) by (simp add: afq_receivePacket_def Let_def r_def)
    moreover have "afq_accepts q p (afq_base q est) 0 q' n (Traffic PKT_ARRIVE p # as)"
      using s(5) by (simp add: afq_accepts_def)
    ultimately show ?thesis using est s k(1)
      by (intro exI [of _ est] exI [of _ q'] exI [of _ "Traffic PKT_ARRIVE p # as"] exI [of _ n]) simp
  next
    case 3
    then have "afq_receivePacket q p = Some (q, Traffic PKT_ARRIVE p # dropPacket q p)"
      using est rd by (simp add: afq_receivePacket_def Let_def r_def)
    then show ?thesis using assms(1) est
      by (intro exI [of _ est] exI [of _ q] exI [of _ "Traffic PKT_ARRIVE p # dropPacket q p"]) simp
  next
    case 4
    have k: "afq_ahead q est = unat (r - af_nRounds q)" "afq_base q est = est"
      using 4(2) by (simp_all add: afq_ahead_def afq_base_def r_def)
    have N: "unat (r - af_nRounds q) < unat (nQueue (af_cfg q))"
      using 4(3) by (simp add: word_less_nat_alt)
    obtain q' as n where s: "afq_enqueue q p (af_nPackets q = 0) est (afq_outQ q (r - af_nRounds q)) = Some (q', as)"
        "afq_inv q'" "q_maxsize q' = q_maxsize q" "sends as = []"
        "afq_accepts q p est (unat (r - af_nRounds q)) q' n as"
      using afq_enqueue_accepts [OF assms 4(1) N afq_outQ_mod [OF pre 4(3)]] by blast
    have "afq_receivePacket q p = Some (q', Traffic PKT_ARRIVE p # as)"
      using 4 est rd s(1) by (simp add: afq_receivePacket_def Let_def r_def afq_outQ_def not_le [symmetric])
    moreover have "afq_accepts q p est (unat (r - af_nRounds q)) q' n (Traffic PKT_ARRIVE p # as)"
      using s(5) by (simp add: afq_accepts_def)
    ultimately show ?thesis using est s k
      by (intro exI [of _ est] exI [of _ q'] exI [of _ "Traffic PKT_ARRIVE p # as"] exI [of _ n]) simp
  qed
qed

text \<open>The packet that is served, the state it leaves and the marks it gets.\<close>

definition afq_departed :: "afq \<Rightarrow> afq" where
  "afq_departed q =
     (let c = unat (af_currQ q); p = last (af_packets q ! c)
      in q\<lparr>af_packets := (af_packets q)[c := butlast (af_packets q ! c)],
           af_Qsize := (af_Qsize q)[c := af_Qsize q ! c - ucast (p_size p)],
           q_queuesize := q_queuesize q - p_size p, af_nPackets := af_nPackets q - 1\<rparr>)"

lemma afq_departed_pre:
  assumes "afq_inv q" "afq_held q \<noteq> {#}"
  shows "afq_pre (afq_departed q)"
    and "afq_held q = add_mset (last (af_packets q ! unat (af_currQ q))) (afq_held (afq_departed q))"
proof -
  let ?c = "unat (af_currQ q)"
  have i: "?c < length (af_packets q)" "af_packets q ! ?c \<noteq> []"
    using assms by (auto simp: afq_inv_def afq_pre_def)
  have m: "multi_inv (af_packets q) (af_nPackets q) (q_queuesize q)"
    using assms(1) by (simp add: afq_inv_def afq_pre_def)
  note pop = multi_inv_pop [OF m i] and mm = mset_concat_pop [OF i]
  show "afq_held q = add_mset (last (af_packets q ! ?c)) (afq_held (afq_departed q))"
    by (simp add: afq_held_def afq_departed_def Let_def mm)
  have "sized (mset (concat ((af_packets q)[?c := butlast (af_packets q ! ?c)])))"
    using assms(1) unfolding afq_inv_def afq_pre_def sized_def mm by simp
  moreover have "q_queuesize q - p_size (last (af_packets q ! ?c)) \<le> q_maxsize q"
    using pop(2) assms(1) by (meson afq_inv_def afq_pre_def order_trans)
  ultimately show "afq_pre (afq_departed q)"
    using assms(1) pop(1) by (simp add: afq_inv_def afq_pre_def afq_departed_def Let_def)
qed

lemma afq_serve_spec:
  assumes "afq_inv q" "afq_held q \<noteq> {#}"
  shows "\<exists>q' as n est p p'. afq_doNextEvent q = Some (q', as) \<and> afq_inv q' \<and>
    p = last (af_packets q ! unat (af_currQ q)) \<and> sends as = [p'] \<and> (p' = p \<or> p' = marked p) \<and>
    frees as = [] \<and> afq_held q = add_mset p (afq_held q') \<and> q_maxsize q' = q_maxsize q \<and>
    length (scheds as) = (if afq_held q' = {#} then 0 else 1) \<and>
    afq_estimate q (p_flow p) = Some est \<and>
    q' = (afq_nextQ ^^ n) (afq_departed q) \<and>
    unat (af_currQ q') = (unat (af_currQ q) + n) mod unat (nQueue (af_cfg q)) \<and>
    (\<forall>k < unat (nQueue (af_cfg q)).
      af_packets (afq_departed q) ! ((unat (af_currQ q) + k) mod unat (nQueue (af_cfg q))) \<noteq> [] \<longrightarrow> n \<le> k)"
proof -
  let ?c = "unat (af_currQ q)"
  define p where "p = last (af_packets q ! ?c)"
  define q1 where "q1 = afq_departed q"
  have i: "?c < length (af_packets q)" "?c < length (af_Qsize q)" "af_packets q ! ?c \<noteq> []"
    using assms by (auto simp: afq_inv_def afq_pre_def)
  have pos: "af_nPackets q > 0"
    using assms multi_inv_empty [of "af_packets q" "af_nPackets q" "q_queuesize q"]
    by (auto simp: afq_inv_def afq_pre_def afq_held_def word_gt_0)
  have pre: "afq_pre q1" "afq_held q = add_mset p (afq_held q1)"
    using afq_departed_pre [OF assms] by (simp_all add: q1_def p_def)
  have f: "af_cfg q1 = af_cfg q" "af_sketch q1 = af_sketch q" "q_maxsize q1 = q_maxsize q"
    "af_currQ q1 = af_currQ q" "af_nRounds q1 = af_nRounds q"
    by (simp_all add: q1_def afq_departed_def Let_def)
  obtain est where est: "afq_estimate q1 (p_flow p) = Some est" using afq_estimate_total [OF pre(1)] by blast
  have est': "afq_estimate q (p_flow p) = Some est" using est f by (simp add: afq_estimate_def)
  define r where "r = est div ucast (bytesPerRound (af_cfg q1))"
  have rd: "afq_round q1 est = Some r" using afq_round_total [OF pre(1)] by (simp add: r_def)
  define p1 where "p1 = (if r - af_nRounds q1 \<ge> ECN_MARK_ROUND then setFlag ECN_FWD p else p)"
  obtain q2 bs n where b: "afq_beginService q1 = Some (q2, bs)" "q2 = (afq_nextQ ^^ n) q1" "afq_inv q2"
      "sends bs = []" "frees bs = []" "length (scheds bs) = (if afq_held q1 = {#} then 0 else 1)"
      "unat (af_currQ q2) = (unat (af_currQ q1) + n) mod unat (nQueue (af_cfg q1))"
      "\<forall>k < unat (nQueue (af_cfg q1)).
        af_packets q1 ! ((unat (af_currQ q1) + k) mod unat (nQueue (af_cfg q1))) \<noteq> [] \<longrightarrow> n \<le> k"
    using afq_begin_spec [OF pre(1)] by blast
  have "afq_doNextEvent q =
      Some (q2, (Traffic PKT_DEPART p # qlog q1 Q_SERVICE p) @ [SendOn (applyEcnMark q1 p1)] @ bs)"
    using pos i est rd b(1)
    by (simp add: afq_doNextEvent_def afq_completeService_def Let_def q1_def [symmetric]
        afq_departed_def p_def [symmetric] p1_def)
      (simp add: q1_def afq_departed_def Let_def p_def p1_def)?
  moreover have "applyEcnMark q1 p1 = p \<or> applyEcnMark q1 p1 = marked p"
    using applyEcnMark_cases [of q1 p1] by (auto simp: p1_def setFlag_idem)
  moreover have "afq_held q2 = afq_held q1" by (simp add: b(2) afq_held_def)
  ultimately show ?thesis
    using b pre(2) est' f by (auto simp: p_def q1_def)
qed

interpretation aprx: queue_discipline afq_receivePacket afq_doNextEvent afq_held
  q_maxsize q_queuesize afq_inv sized_fits
proof (unfold_locales, goal_cases)
  case (1 q p)
  then show ?case using afq_receive_spec by blast
next
  case (2 q p q' as)
  then show ?case using afq_receive_spec [of q p] by auto
next
  case (3 q p q' as)
  then show ?case using afq_receive_spec [of q p] by (auto simp: afq_accepts_def)
next
  case (4 q p q' as)
  then show ?case using afq_receive_spec [of q p] by (auto simp: afq_accepts_def)
next
  case (5 q p q' as)
  then show ?case using afq_receive_spec [of q p] by (auto simp: afq_accepts_def)
next
  case (6 q)
  then show ?case using afq_serve_spec by blast
next
  case (7 q q' as)
  then show ?case using afq_serve_spec [of q] by auto
next
  case (8 q q' as)
  then show ?case using afq_serve_spec [of q] by force
next
  case (9 q q' as)
  then show ?case using afq_serve_spec [of q] by auto
next
  case (10 q)
  then show ?case by (simp add: afq_inv_def afq_pre_def multi_inv_def afq_held_def)
next
  case (11 q p q' as)
  then show ?case using afq_receive_spec [of q p] by auto
next
  case (12 q q' as)
  then show ?case using afq_serve_spec [of q] by auto
qed

end
