(* ===== verification/AprxProps.thy ===== *)
theory AprxProps
  imports AprxLemmas
begin

text \<open>
  The properties of \<open>AprxFairQueue\<close>: what holds in every reachable state, the count-min sketch,
  and the rounds of the packets that wait.
\<close>

section \<open>The sketch counts every byte\<close>

lemma afq_estimate_le_rows:
  assumes "afq_pre q" "afq_estimate q f = Some e"
  shows "\<forall>k < length (af_sketch q). e \<le> af_sketch q ! k ! flow_index (nBucket (af_cfg q)) k f"
    and "\<And>m. (\<forall>k < length (af_sketch q). m \<le> af_sketch q ! k ! flow_index (nBucket (af_cfg q)) k f) \<Longrightarrow> m \<le> e"
proof -
  have s: "sketch_ok (nBucket (af_cfg q)) (af_sketch q)" "nBucket (af_cfg q) \<noteq> 0"
    using assms(1) by (simp_all add: afq_pre_def)
  obtain x where x: "afq_read (af_sketch q) (nBucket (af_cfg q)) f 0 0xffffffffffffffff = Some x"
    "\<forall>k < length (af_sketch q). x \<le> af_sketch q ! k ! flow_index (nBucket (af_cfg q)) (0 + k) f"
    "\<forall>m. m \<le> 0xffffffffffffffff \<longrightarrow>
      (\<forall>k < length (af_sketch q). m \<le> af_sketch q ! k ! flow_index (nBucket (af_cfg q)) (0 + k) f) \<longrightarrow> m \<le> x"
    using afq_read_total [OF s, of f 0 "0xffffffffffffffff"] by blast
  have e: "e = x" using x(1) assms(2) by (simp add: afq_estimate_def)
  show "\<forall>k < length (af_sketch q). e \<le> af_sketch q ! k ! flow_index (nBucket (af_cfg q)) k f"
    using x(2) e by simp
  have top: "m \<le> 0xffffffffffffffff" for m :: u64
    using unat_lt_2_64 [of m] by (simp add: word_le_nat_alt)
  show "m \<le> e" if "\<forall>k < length (af_sketch q). m \<le> af_sketch q ! k ! flow_index (nBucket (af_cfg q)) k f" for m
    using x(3) top that e by simp
qed

text \<open>An accepted packet raises the estimate of its flow, and lowers none.\<close>

lemma afq_accepts_estimate:
  assumes "afq_pre q" "afq_pre q'" "afq_accepts q p b k q' n as"
    and "afq_estimate q f = Some e" "afq_estimate q' f = Some e'"
  shows "e \<le> e'" and "f = p_flow p \<Longrightarrow> b + p_size p \<le> e'"
proof -
  have s: "sketch_ok (nBucket (af_cfg q)) (af_sketch q)" "nBucket (af_cfg q) \<noteq> 0"
    using assms(1) by (simp_all add: afq_pre_def)
  have a: "afq_raise (af_sketch q) (nBucket (af_cfg q)) (p_flow p) 0 (b + p_size p) = Some (af_sketch q')"
    "af_cfg q' = af_cfg q" using assms(3) by (simp_all add: afq_accepts_def)
  have r: "length (af_sketch q') = length (af_sketch q)"
    "\<forall>k < length (af_sketch q). \<forall>j. af_sketch q ! k ! j \<le> af_sketch q' ! k ! j"
    "\<forall>k < length (af_sketch q). b + p_size p \<le> af_sketch q' ! k ! flow_index (nBucket (af_cfg q)) k (p_flow p)"
    using afq_raise_total [OF s, of "p_flow p" 0 "b + p_size p"] a(1) by auto
  have "e \<le> af_sketch q' ! j ! flow_index (nBucket (af_cfg q)) j f" if "j < length (af_sketch q)" for j
    using afq_estimate_le_rows(1) [OF assms(1,4)] r(2) that by (blast intro: order.trans)
  then show "e \<le> e'"
    using r(1) a(2) by (intro afq_estimate_le_rows(2) [OF assms(2,5)]) simp
  show "b + p_size p \<le> e'" if "f = p_flow p"
    using r(1,3) that a(2) by (intro afq_estimate_le_rows(2) [OF assms(2,5)]) simp
qed

text \<open>
  A run of the queue with the bytes of each flow it has accepted. Sums stay below the 64 bits of a
  counter.
\<close>

inductive afq_run :: "afq \<Rightarrow> (u32 \<Rightarrow> nat) \<Rightarrow> afq \<Rightarrow> bool" for q0 where
  start: "afq_run q0 (\<lambda>_. 0) q0"
| accept: "afq_run q0 c q \<Longrightarrow> sized_fits q p \<Longrightarrow> afq_receivePacket q p = Some (q', as) \<Longrightarrow> frees as = [] \<Longrightarrow>
    afq_estimate q (p_flow p) = Some e \<Longrightarrow>
    unat (afq_base q e) + unat (p_size p) < 18446744073709551616 \<Longrightarrow>
    afq_run q0 (c(p_flow p := c (p_flow p) + unat (p_size p))) q'"
| drop: "afq_run q0 c q \<Longrightarrow> sized_fits q p \<Longrightarrow> afq_receivePacket q p = Some (q', as) \<Longrightarrow> frees as = [p] \<Longrightarrow>
    afq_run q0 c q'"
| serve: "afq_run q0 c q \<Longrightarrow> afq_held q \<noteq> {#} \<Longrightarrow> afq_doNextEvent q = Some (q', as) \<Longrightarrow> afq_run q0 c q'"

lemma afq_base_ge: "e \<le> afq_base q e"
  by (simp add: afq_base_def)

lemma afq_run_counts:
  assumes "afq_run q0 c q" "afq_inv q0"
  shows "afq_inv q \<and> (\<exists>e. afq_estimate q f = Some e \<and> c f \<le> unat e)"
  using assms
proof (induction arbitrary: f rule: afq_run.induct)
  case start
  then show ?case using afq_estimate_total by (force simp: afq_inv_def)
next
  case (accept c q p q' as e f)
  have i: "afq_inv q" using accept by blast
  obtain est q2 as2 n where s: "afq_estimate q (p_flow p) = Some est" "afq_receivePacket q p = Some (q2, as2)"
    "afq_inv q2" "q2 = q \<and> frees as2 = [p] \<and> scheds as2 = [] \<or> afq_accepts q p (afq_base q est) (afq_ahead q est) q2 n as2"
    using afq_receive_spec [OF i accept.hyps(2)] by blast
  have q2: "q2 = q'" "as2 = as" "est = e" using s(1,2) accept.hyps(3,5) by simp_all
  then have a: "afq_accepts q p (afq_base q e) (afq_ahead q e) q' n as" using s(4) accept.hyps(4) by auto
  have pre: "afq_pre q" "afq_pre q'" using i s(3) q2 by (simp_all add: afq_inv_def)
  obtain ef where ef: "afq_estimate q f = Some ef" "c f \<le> unat ef" using accept.IH accept.prems by blast
  obtain ef' where ef': "afq_estimate q' f = Some ef'" using afq_estimate_total [OF pre(2)] by blast
  note est = afq_accepts_estimate [OF pre a ef(1) ef']
  show ?case
  proof (cases "f = p_flow p")
    case True
    then have "ef = e" using ef(1) accept.hyps(5) by simp
    moreover have "unat (afq_base q e + p_size p) = unat (afq_base q e) + unat (p_size p)"
      using accept.hyps(6) by (rule unat_add_64)
    ultimately have "c f + unat (p_size p) \<le> unat ef'"
      using est(2) [OF True] ef(2) afq_base_ge [of e q] by (simp add: word_le_nat_alt)
    then show ?thesis using True ef' s(3) q2 by simp
  next
    case False
    then show ?thesis using est(1) ef(2) ef' s(3) q2 by (auto simp: word_le_nat_alt)
  qed
next
  case (drop c q p q' as f)
  have i: "afq_inv q" using drop by blast
  then have "q' = q" using afq_receive_spec [OF i drop.hyps(2)] drop.hyps(3,4) by (auto simp: afq_accepts_def)
  then show ?case using drop by blast
next
  case (serve c q q' as f)
  have i: "afq_inv q" using serve by blast
  obtain n where "q' = (afq_nextQ ^^ n) (afq_departed q)" "afq_inv q'"
    using afq_serve_spec [OF i serve.hyps(2)] serve.hyps(3) by auto
  then have "afq_estimate q' f = afq_estimate q f" by (simp add: afq_estimate_def afq_departed_def Let_def)
  then show ?case using serve \<open>afq_inv q'\<close> by metis
qed

section \<open>Rounds\<close>

text \<open>
  A packet \<open>k\<close> queues ahead waits for round \<open>_nRounds + k\<close>, and each counter of its flow has
  reached that round.
\<close>

definition afq_sched :: "afq \<Rightarrow> bool" where
  "afq_sched q \<longleftrightarrow> (\<forall>k < unat (nQueue (af_cfg q)).
     \<forall>p \<in> set (af_packets q ! ((unat (af_currQ q) + k) mod unat (nQueue (af_cfg q)))).
     \<forall>i < length (af_sketch q). (unat (af_nRounds q) + k) * unat (bytesPerRound (af_cfg q)) \<le>
       unat (af_sketch q ! i ! flow_index (nBucket (af_cfg q)) i (p_flow p)))"

text \<open>Moving on \<open>n\<close> queues, none of which holds a packet, keeps the schedule.\<close>

lemma afq_sched_rotate:
  assumes "afq_sched q" "unat (af_nRounds q) + n < 18446744073709551616"
    and "\<forall>k < unat (nQueue (af_cfg q)).
      af_packets q ! ((unat (af_currQ q) + k) mod unat (nQueue (af_cfg q))) \<noteq> [] \<longrightarrow> n \<le> k"
    and "af_packets q' = af_packets q" "af_sketch q' = af_sketch q" "af_cfg q' = af_cfg q"
    and "af_nRounds q' = af_nRounds q + of_nat n"
    and "unat (af_currQ q') = (unat (af_currQ q) + n) mod unat (nQueue (af_cfg q))"
    and "0 < unat (nQueue (af_cfg q))" "n < unat (nQueue (af_cfg q))"
  shows "afq_sched q'"
proof -
  let ?N = "unat (nQueue (af_cfg q))" and ?c = "unat (af_currQ q)"
  have "unat (of_nat n :: u64) = n" using assms(2) by (intro unat_of_nat_64) simp
  then have R: "unat (af_nRounds q') = unat (af_nRounds q) + n"
    using assms(2,7) unat_add_64 [of "af_nRounds q" "of_nat n"] by simp
  show ?thesis unfolding afq_sched_def assms(4-6,8) R
  proof (intro allI ballI impI)
    fix k p i
    assume k: "k < ?N" and p: "p \<in> set (af_packets q ! (((?c + n) mod ?N + k) mod ?N))"
      and i: "i < length (af_sketch q)"
    define j where "j = (n + k) mod ?N"
    have j: "(?c + j) mod ?N = ((?c + n) mod ?N + k) mod ?N"
      by (simp add: j_def mod_simps ac_simps)
    have jN: "j < ?N" using assms(9) by (simp add: j_def)
    have "n \<le> j" using assms(3) jN p j by fastforce
    then have "n + k < ?N" using k assms(10) by (auto simp: j_def mod_if split: if_splits)
    then have "j = n + k" by (simp add: j_def)
    then show "(unat (af_nRounds q) + n + k) * unat (bytesPerRound (af_cfg q)) \<le>
        unat (af_sketch q ! i ! flow_index (nBucket (af_cfg q)) i (p_flow p))"
    proof -
      have "p \<in> set (af_packets q ! ((?c + j) mod ?N))" using p j by simp
      then have "(unat (af_nRounds q) + j) * unat (bytesPerRound (af_cfg q)) \<le>
          unat (af_sketch q ! i ! flow_index (nBucket (af_cfg q)) i (p_flow p))"
        using assms(1) jN i unfolding afq_sched_def by blast
      then show ?thesis by (simp add: \<open>j = n + k\<close> add.assoc)
    qed
  qed
qed

lemma afq_sched_empty:
  assumes "afq_pre q" "afq_held q = {#}"
  shows "afq_sched q"
proof -
  have "af_packets q ! i = []" if "i < unat (nQueue (af_cfg q))" for i
    using assms that concat_nonempty [of "af_packets q"] by (auto simp: afq_held_def afq_pre_def)
  then show ?thesis using assms(1) by (simp add: afq_sched_def afq_pre_def)
qed

text \<open>There is a packet fewer than \<open>nQueue\<close> queues ahead, so the rotation is shorter than that.\<close>

lemma rotation_bound:
  assumes "afq_pre q" "afq_held q \<noteq> {#}"
    and "\<forall>k < unat (nQueue (af_cfg q)).
      af_packets q ! ((c + k) mod unat (nQueue (af_cfg q))) \<noteq> [] \<longrightarrow> n \<le> k"
  shows "n < unat (nQueue (af_cfg q))"
proof -
  let ?N = "unat (nQueue (af_cfg q))"
  obtain i where i: "i < ?N" "af_packets q ! i \<noteq> []"
    using assms(1,2) concat_nonempty [of "af_packets q"] by (auto simp: afq_held_def afq_pre_def)
  define k where "k = (i + (?N - c mod ?N)) mod ?N"
  have N: "0 < ?N" using i by linarith
  have e: "c mod ?N + (i + (?N - c mod ?N)) = i + ?N"
    using mod_less_divisor [OF N, of c] by linarith
  have "(c + k) mod ?N = (c mod ?N + (i + (?N - c mod ?N))) mod ?N" by (simp add: k_def mod_simps)
  also have "\<dots> = (i + ?N) mod ?N" unfolding e ..
  also have "\<dots> = i" using i by simp
  finally have "n \<le> k" using assms(3) i N by (simp add: k_def)
  also have "k < ?N" using N by (simp add: k_def)
  finally show ?thesis .
qed

text \<open>Service keeps the schedule, while the round counter does not wrap.\<close>

lemma afq_sched_serve:
  assumes "afq_inv q" "afq_held q \<noteq> {#}" "afq_sched q" "afq_doNextEvent q = Some (q', as)"
    and "unat (af_nRounds q) + unat (nQueue (af_cfg q)) < 18446744073709551616"
  shows "afq_sched q'"
proof -
  let ?N = "unat (nQueue (af_cfg q))" and ?q1 = "afq_departed q"
  obtain n where n: "q' = (afq_nextQ ^^ n) ?q1" "afq_inv q'"
    "unat (af_currQ q') = (unat (af_currQ q) + n) mod ?N"
    "\<forall>k < ?N. af_packets ?q1 ! ((unat (af_currQ q) + k) mod ?N) \<noteq> [] \<longrightarrow> n \<le> k"
    using afq_serve_spec [OF assms(1,2)] assms(4) by auto
  have f: "af_cfg ?q1 = af_cfg q" "af_sketch ?q1 = af_sketch q" "af_currQ ?q1 = af_currQ q"
    "af_nRounds ?q1 = af_nRounds q"
    by (simp_all add: afq_departed_def Let_def)
  have pre: "afq_pre ?q1" using afq_departed_pre [OF assms(1,2)] by simp
  have sub: "set (af_packets ?q1 ! i) \<subseteq> set (af_packets q ! i)" if "i < ?N" for i
    using that assms(1) by (auto simp: afq_departed_def Let_def nth_list_update afq_inv_def afq_pre_def
        dest: in_set_butlastD)
  have N: "0 < ?N" using pre f by (simp add: afq_pre_def)
  have s1: "afq_sched ?q1"
    unfolding afq_sched_def f
  proof (intro allI ballI impI)
    fix k p i assume a: "k < ?N" "p \<in> set (af_packets ?q1 ! ((unat (af_currQ q) + k) mod ?N))" "i < length (af_sketch q)"
    then have "p \<in> set (af_packets q ! ((unat (af_currQ q) + k) mod ?N))"
      using sub [of "(unat (af_currQ q) + k) mod ?N"] N by auto
    then show "(unat (af_nRounds q) + k) * unat (bytesPerRound (af_cfg q)) \<le>
        unat (af_sketch q ! i ! flow_index (nBucket (af_cfg q)) i (p_flow p))"
      using assms(3) a unfolding afq_sched_def by blast
  qed
  show ?thesis
  proof (cases "afq_held ?q1 = {#}")
    case True
    then have "afq_held q' = {#}" by (simp add: n(1) afq_held_def)
    then show ?thesis using n(2) by (intro afq_sched_empty) (simp_all add: afq_inv_def)
  next
    case False
    have b: "n < ?N" using rotation_bound [OF pre False, of "unat (af_currQ q)" n] n(4) f by simp
    show ?thesis
      using n(1,3,4) b N assms(5) f by (intro afq_sched_rotate [OF s1, of n]) simp_all
  qed
qed

text \<open>An arrival puts the packet where its flow's counters have reached.\<close>

lemma afq_sched_receive:
  assumes "afq_inv q" "sized_fits q p" "afq_sched q" "afq_receivePacket q p = Some (q', as)"
    and "afq_estimate q (p_flow p) = Some e" "unat (afq_base q e) + unat (p_size p) < 18446744073709551616"
    and "unat (af_nRounds q) * unat (bytesPerRound (af_cfg q)) < 18446744073709551616"
    and "unat (af_nRounds q) + unat (nQueue (af_cfg q)) < 18446744073709551616"
  shows "afq_sched q'"
proof -
  let ?N = "unat (nQueue (af_cfg q))" and ?c = "unat (af_currQ q)" and ?bpr = "bytesPerRound (af_cfg q)"
  obtain n where s: "afq_inv q'" "q' = q \<or> afq_accepts q p (afq_base q e) (afq_ahead q e) q' n as"
    using afq_receive_spec [OF assms(1,2)] assms(4,5) by auto
  show ?thesis
  proof (cases "q' = q")
    case True
    then show ?thesis using assms(3) by simp
  next
    case False
    define k0 where "k0 = afq_ahead q e"
    define i0 where "i0 = (?c + k0) mod ?N"
    have a: "k0 < ?N" "afq_held q' = add_mset p (afq_held q)"
      "afq_raise (af_sketch q) (nBucket (af_cfg q)) (p_flow p) 0 (afq_base q e + p_size p) = Some (af_sketch q')"
      "af_packets q' = (af_packets q)[i0 := p # af_packets q ! i0]" "af_cfg q' = af_cfg q"
      "af_nRounds q' = af_nRounds q + of_nat n" "unat (af_currQ q') = (?c + n) mod ?N"
      "afq_held q \<noteq> {#} \<longrightarrow> n = 0" "afq_held q = {#} \<longrightarrow> n \<le> k0"
      using s(2) False by (auto simp: afq_accepts_def k0_def i0_def Let_def)
    have pre: "afq_pre q" "afq_pre q'" using assms(1) s(1) by (simp_all add: afq_inv_def)
    have sk: "sketch_ok (nBucket (af_cfg q)) (af_sketch q)" "nBucket (af_cfg q) \<noteq> 0" "0 < ?N"
      "length (af_packets q) = ?N" using pre(1) by (simp_all add: afq_pre_def)
    have r: "length (af_sketch q') = length (af_sketch q)"
      "\<forall>k < length (af_sketch q). \<forall>j. af_sketch q ! k ! j \<le> af_sketch q' ! k ! j"
      "\<forall>k < length (af_sketch q). afq_base q e + p_size p \<le>
        af_sketch q' ! k ! flow_index (nBucket (af_cfg q)) k (p_flow p)"
      using afq_raise_total [OF sk(1,2), of "p_flow p" 0 "afq_base q e + p_size p"] a(3) by auto
    have base: "(unat (af_nRounds q) + k0) * unat ?bpr \<le> unat (afq_base q e)"
    proof (cases "e div ucast ?bpr \<le> af_nRounds q")
      case True
      then have "afq_base q e = max (af_nRounds q * ucast ?bpr) e" "k0 = 0"
        by (simp_all add: afq_base_def afq_ahead_def k0_def)
      moreover have "unat (af_nRounds q * ucast ?bpr :: u64) = unat (af_nRounds q) * unat ?bpr"
        using assms(7) unat_mult_64 [of "af_nRounds q" "ucast ?bpr"] by simp
      ultimately show ?thesis by (metis add.right_neutral max.cobounded1 word_le_nat_alt)
    next
      case F: False
      have d: "unat (e div ucast ?bpr) = unat e div unat ?bpr" by (simp add: unat_div)
      have "k0 = unat (e div ucast ?bpr) - unat (af_nRounds q)"
        using F by (simp add: afq_ahead_def k0_def unat_sub word_le_nat_alt)
      then have "unat (af_nRounds q) + k0 = unat e div unat ?bpr"
        using F d by (simp add: word_le_nat_alt)
      moreover have "afq_base q e = e" using F by (simp add: afq_base_def)
      ultimately show ?thesis by (metis div_times_less_eq_dividend)
    qed
    have new: "(unat (af_nRounds q) + k0) * unat ?bpr \<le>
        unat (af_sketch q' ! i ! flow_index (nBucket (af_cfg q)) i (p_flow p))" if "i < length (af_sketch q)" for i
      using base r(3) that unat_add_64 [OF assms(6)] by (fastforce simp: word_le_nat_alt)
    define q1 where "q1 = q'\<lparr>af_currQ := af_currQ q, af_nRounds := af_nRounds q\<rparr>"
    have s1: "afq_sched q1"
      unfolding afq_sched_def q1_def
    proof (simp add: a(4,5) r(1), intro allI ballI impI)
      fix k x i assume k: "k < ?N" and x: "x \<in> set ((af_packets q)[i0 := p # af_packets q ! i0] ! ((?c + k) mod ?N))"
        and i: "i < length (af_sketch q)"
      show "(unat (af_nRounds q) + k) * unat ?bpr \<le>
          unat (af_sketch q' ! i ! flow_index (nBucket (af_cfg q)) i (p_flow x))"
      proof (cases "x \<in> set (af_packets q ! ((?c + k) mod ?N))")
        case True
        then have "(unat (af_nRounds q) + k) * unat ?bpr \<le>
            unat (af_sketch q ! i ! flow_index (nBucket (af_cfg q)) i (p_flow x))"
          using assms(3) k i unfolding afq_sched_def by blast
        also have "\<dots> \<le> unat (af_sketch q' ! i ! flow_index (nBucket (af_cfg q)) i (p_flow x))"
          using r(2) i by (simp add: word_le_nat_alt)
        finally show ?thesis .
      next
        case F: False
        then have xi: "(?c + k) mod ?N = i0" using x by (metis nth_list_update_neq)
        have "i0 < length (af_packets q)" using sk(3,4) by (simp add: i0_def)
        then have xp: "x = p" using x F xi by simp
        have "k = k0" using mod_add_cancel_lt [of ?c k ?N k0] xi k a(1) by (simp add: i0_def)
        then show ?thesis using new i xp by simp
      qed
    qed
    have nN: "n < ?N" using a(1,8,9) sk(3) by (cases "afq_held q = {#}") auto
    have nk: "n \<le> k" if "k < ?N" "af_packets q' ! ((?c + k) mod ?N) \<noteq> []" for k
    proof (cases "afq_held q = {#}")
      case True
      then have "af_packets q ! j = []" if "j < ?N" for j
        using that concat_nonempty [of "af_packets q"] sk(4) by (auto simp: afq_held_def)
      then have "(?c + k) mod ?N = i0"
        using that(2) sk(3) a(4) by (metis mod_less_divisor nth_list_update_neq)
      then have "k = k0" using mod_add_cancel_lt [of ?c k ?N k0] that(1) a(1) by (simp add: i0_def)
      then show ?thesis using a(9) True by simp
    qed (use a(8) in simp)
    show ?thesis
      using assms(8) a(5-7) nN nk sk(3) by (intro afq_sched_rotate [OF s1, of n]) (simp_all add: q1_def)
  qed
qed

section \<open>Properties\<close>

definition ex_cfg :: AFQcfg where
  "ex_cfg = \<lparr>nHash = 2, nBucket = 4, nQueue = 4, bytesPerRound = 1500, cfg_alpha = 8\<rparr>"

definition ex_afq :: afq where
  "ex_afq = the (mkAprxFairQueue 10000000000 100000 False ex_cfg)"

definition ex_seg :: packet where
  "ex_seg = pkt0\<lparr>p_size := 1500, p_flow := 3\<rparr>"

lemma ex_afq_inv: "afq_inv ex_afq" "afq_held ex_afq = {#}"
proof -
  have "mkAprxFairQueue 10000000000 100000 False ex_cfg = Some ex_afq"
    by (simp add: ex_afq_def mkAprxFairQueue_def mkQueue_def)
  from mkAprxFairQueue_inv [OF this] show "afq_inv ex_afq" "afq_held ex_afq = {#}"
    by (simp_all add: ex_cfg_def)
qed

lemma ex_seg_fits: "q_maxsize q = 100000 \<Longrightarrow> sized_fits q ex_seg"
  by (simp add: sized_fits_def fits_def ex_seg_def pkt0_def)

lemma ex_afq_steps:
  "(case afq_receivePacket ex_afq ex_seg of None \<Rightarrow> None
    | Some (q, as) \<Rightarrow> Some (frees as, af_nPackets q, af_nRounds q, afq_estimate q 3)) =
    Some ([], 1, 0, Some 1500)"
  by (code_simp, subst afq_seek.simps, code_simp)

text \<open>
  C13: the count-min sketch of \<open>AprxFairQueue\<close> never underestimates. After any run of arrivals, drops
  and services, the estimate for a flow is at least the number of bytes of that flow the queue has
  accepted since the start, whatever other flows share its counters.
\<close>

theorem afq_sketch_counts:
  assumes "afq_run q0 c q" "afq_inv q0"
  shows "\<exists>e. afq_estimate q f = Some e \<and> c f \<le> unat e"
  using afq_run_counts [OF assms] by blast

lemma afq_sketch_counts_witness:
  "\<exists>q c e. afq_run ex_afq c q \<and> c 3 = 1500 \<and> afq_estimate q 3 = Some e \<and> 1500 \<le> unat e"
proof -
  obtain q as where q: "afq_receivePacket ex_afq ex_seg = Some (q, as)" "frees as = []"
    using ex_afq_steps by (auto split: option.splits)
  have m: "q_maxsize ex_afq = 100000" by code_simp
  have e: "afq_estimate ex_afq (p_flow ex_seg) = Some 0" by code_simp
  have "afq_base ex_afq 0 = 0" by code_simp
  then have b: "unat (afq_base ex_afq 0) + unat (p_size ex_seg) < 18446744073709551616"
    by (simp add: ex_seg_def)
  note r = afq_run.accept [OF afq_run.start ex_seg_fits [OF m] q e b]
  have "unat (p_size ex_seg) = 1500" "p_flow ex_seg = 3" by (simp_all add: ex_seg_def)
  then show ?thesis using r afq_sketch_counts [OF r ex_afq_inv(1), of 3] by fastforce
qed

text \<open>
  Rounds of \<open>AprxFairQueue\<close>. While the schedule invariant holds, the flow of the packet at the
  head has reached the current round, so the subtraction in the ECN test of \<open>completeService\<close> does
  not underflow; service and arrival keep the invariant, and an empty queue has it.
\<close>

lemma afq_head_round:
  assumes "afq_inv q" "afq_held q \<noteq> {#}" "afq_sched q"
    and "unat (af_nRounds q) * unat (bytesPerRound (af_cfg q)) < 18446744073709551616"
    and "unat (af_nRounds q) + unat (nQueue (af_cfg q)) < 18446744073709551616"
  shows "\<exists>e r q' as. afq_estimate q (p_flow (last (af_packets q ! unat (af_currQ q)))) = Some e \<and>
    afq_round q e = Some r \<and> af_nRounds q \<le> r \<and> afq_doNextEvent q = Some (q', as) \<and> afq_sched q'"
proof -
  let ?N = "unat (nQueue (af_cfg q))" and ?bpr = "bytesPerRound (af_cfg q)"
  define p where "p = last (af_packets q ! unat (af_currQ q))"
  have pre: "afq_pre q" using assms(1) by (simp add: afq_inv_def)
  have ne: "af_packets q ! unat (af_currQ q) \<noteq> []" using assms(1,2) by (simp add: afq_inv_def)
  have N: "0 < ?N" "(unat (af_currQ q) + 0) mod ?N = unat (af_currQ q)" "?bpr \<noteq> 0"
    using pre by (simp_all add: afq_pre_def)
  have "p \<in> set (af_packets q ! ((unat (af_currQ q) + 0) mod ?N))" using ne N(2) by (simp add: p_def)
  then have "\<forall>i < length (af_sketch q). (unat (af_nRounds q) + 0) * unat ?bpr \<le>
      unat (af_sketch q ! i ! flow_index (nBucket (af_cfg q)) i (p_flow p))"
    using assms(3) N(1) unfolding afq_sched_def by blast
  moreover have m: "unat (af_nRounds q * ucast ?bpr) = unat (af_nRounds q) * unat ?bpr"
    using assms(4) unat_mult_64 [of "af_nRounds q" "ucast ?bpr"] by simp
  ultimately have rows: "\<forall>i < length (af_sketch q).
      af_nRounds q * ucast ?bpr \<le> af_sketch q ! i ! flow_index (nBucket (af_cfg q)) i (p_flow p)"
    by (simp add: word_le_nat_alt)
  obtain e where e: "afq_estimate q (p_flow p) = Some e" using afq_estimate_total [OF pre] by blast
  have "af_nRounds q * ucast ?bpr \<le> e" by (rule afq_estimate_le_rows(2) [OF pre e rows])
  then have "unat (af_nRounds q) * unat ?bpr \<le> unat e" using m by (simp add: word_le_nat_alt)
  then have "unat (af_nRounds q) \<le> unat e div unat ?bpr"
    using N(3) by (simp add: less_eq_div_iff_mult_less_eq unat_gt_0)
  then have r: "af_nRounds q \<le> e div ucast ?bpr" by (simp add: word_le_nat_alt unat_div)
  obtain q' as where s: "afq_doNextEvent q = Some (q', as)" using afq_serve_spec [OF assms(1,2)] by blast
  have "afq_sched q'" by (rule afq_sched_serve [OF assms(1-3) s assms(5)])
  then show ?thesis using e r s afq_round_total [OF pre, of e] by (auto simp: p_def)
qed

lemma afq_head_round_witness:
  "\<exists>q as e r. afq_receivePacket ex_afq ex_seg = Some (q, as) \<and>
    afq_estimate q (p_flow (last (af_packets q ! unat (af_currQ q)))) = Some e \<and>
    afq_round q e = Some r \<and> af_nRounds q \<le> r"
proof -
  have m: "q_maxsize ex_afq = 100000" "af_nRounds ex_afq = 0" "nQueue (af_cfg ex_afq) = 4" by code_simp+
  have e: "afq_estimate ex_afq (p_flow ex_seg) = Some 0" by code_simp
  have "afq_base ex_afq 0 = 0" by code_simp
  then have b: "unat (afq_base ex_afq 0) + unat (p_size ex_seg) < 18446744073709551616"
    by (simp add: ex_seg_def)
  obtain q as n where q: "afq_receivePacket ex_afq ex_seg = Some (q, as)" "afq_inv q" "frees as = []"
      "af_nRounds q = 0" "afq_accepts ex_afq ex_seg (afq_base ex_afq 0) (afq_ahead ex_afq 0) q n as"
    using afq_receive_spec [OF ex_afq_inv(1) ex_seg_fits [OF m(1)]] ex_afq_steps e by auto
  have "afq_sched ex_afq" using ex_afq_inv by (intro afq_sched_empty) (simp_all add: afq_inv_def)
  then have "afq_sched q"
    using afq_sched_receive [OF ex_afq_inv(1) ex_seg_fits [OF m(1)] _ q(1) e b] m by simp
  then show ?thesis
    using afq_head_round [OF q(2)] q(1,4,5) m(3) by (auto simp: afq_accepts_def)
qed

end
