(* ===== verification/PrioQueue.thy ===== *)
theory PrioQueue
  imports FifoQueue
begin

text \<open>
  \<open>priorityqueue.h\<close> and \<open>priorityqueue.cpp\<close>: \<open>PriorityQueue\<close> sends the packet with the smallest
  priority number first and drops from the other end when its buffer is over the limit. The
  packet on the wire, \<open>_currentPkt\<close>, has left the multiset but still counts in \<open>_queuesize\<close>.
\<close>

section \<open>State and operations\<close>

record prio_queue = queue +
  pq_packets :: "packet list"
  pq_current :: "packet option"

definition comparePacketPriority :: "packet \<Rightarrow> packet \<Rightarrow> bool" where
  "comparePacketPriority a b = (if p_priority a < p_priority b then True else False)"

text \<open>
  The constructor leaves \<open>_currentPkt\<close> uninitialised: \<open>cur0\<close> is the pointer the memory happens to
  hold, \<open>None\<close> for a null pointer.
\<close>

definition mkPriorityQueue :: "packet option \<Rightarrow> u64 \<Rightarrow> u64 \<Rightarrow> bool \<Rightarrow> prio_queue option" where
  "mkPriorityQueue cur0 bitrate maxsize logger =
     map_option (\<lambda>q. queue.extend q \<lparr>pq_packets = [], pq_current = cur0\<rparr>)
       (mkQueue bitrate maxsize logger)"

definition pq_beginService :: "prio_queue \<Rightarrow> prio_queue \<times> action list" where
  "pq_beginService q =
     (case pq_packets q of
        [] \<Rightarrow> (q, [])
      | p # ps \<Rightarrow> (q\<lparr>pq_current := Some p, pq_packets := ps\<rparr>, [SchedRel (drainTime q p)]))"

definition pq_completeService :: "prio_queue \<Rightarrow> (prio_queue \<times> action list) option" where
  "pq_completeService q =
     (case pq_current q of
        None \<Rightarrow> None
      | Some p \<Rightarrow>
          let as = Traffic PKT_DEPART p # qlog q Q_SERVICE p @ [SendOn (applyEcnMark q p)];
              q = q\<lparr>q_queuesize := q_queuesize q - p_size p\<rparr>;
              q = q\<lparr>pq_current := None\<rparr>;
              (q, bs) = pq_beginService q
          in Some (q, as @ bs))"

definition pq_doNextEvent :: "prio_queue \<Rightarrow> (prio_queue \<times> action list) option" where
  "pq_doNextEvent q = pq_completeService q"

text \<open>The loop that drops from the end; taking the end of an empty container is \<open>None\<close>.\<close>

function pq_dropLoop :: "prio_queue \<Rightarrow> (prio_queue \<times> action list) option" where
  "pq_dropLoop q =
     (if q_queuesize q > q_maxsize q
      then if pq_packets q = [] then None
           else let p = last (pq_packets q);
                    q1 = q\<lparr>pq_packets := butlast (pq_packets q)\<rparr>;
                    q2 = q1\<lparr>q_queuesize := q_queuesize q1 - p_size p\<rparr>
                in map_option (\<lambda>(q', as). (q', qlog q2 Q_DROP p @ [Traffic PKT_DROP p, Free p] @ as))
                     (pq_dropLoop q2)
      else Some (q, []))"
  by pat_completeness auto
termination
  by (relation "measure (\<lambda>q. length (pq_packets q))") auto

declare pq_dropLoop.simps [simp del]

definition pq_receivePacket :: "prio_queue \<Rightarrow> packet \<Rightarrow> (prio_queue \<times> action list) option" where
  "pq_receivePacket q pkt =
     (let queueWasEmpty = (pq_current q = None \<and> pq_packets q = []);
          q = q\<lparr>pq_packets := ins_ub comparePacketPriority pkt (pq_packets q)\<rparr>;
          q = q\<lparr>q_queuesize := q_queuesize q + p_size pkt\<rparr>;
          as = Traffic PKT_ARRIVE pkt # qlog q Q_ENQUEUE pkt
      in case pq_dropLoop q of
           None \<Rightarrow> None
         | Some (q, bs) \<Rightarrow>
             let (q, cs) = (if queueWasEmpty then pq_beginService q else (q, []))
             in Some (q, as @ bs @ cs))"

definition pq_printStats :: "prio_queue \<Rightarrow> (u32 \<rightharpoonup> u32)" where
  "pq_printStats q = flow_counts (pq_packets q) Map.empty"

section \<open>Invariant\<close>

definition cur_bytes :: "packet option \<Rightarrow> nat" where
  "cur_bytes c = (case c of None \<Rightarrow> 0 | Some p \<Rightarrow> unat (p_size p))"

definition cur_mset :: "packet option \<Rightarrow> packet multiset" where
  "cur_mset c = (case c of None \<Rightarrow> {#} | Some p \<Rightarrow> {#p#})"

lemma cur_simps [simp]:
  "cur_bytes None = 0" "cur_bytes (Some p) = unat (p_size p)"
  "cur_mset None = {#}" "cur_mset (Some p) = {#p#}" "cur_mset c = {#} \<longleftrightarrow> c = None"
  by (simp_all add: cur_bytes_def cur_mset_def split: option.splits)

definition pq_sorted :: "prio_queue \<Rightarrow> bool" where
  "pq_sorted q \<longleftrightarrow> sorted (map p_priority (pq_packets q))"

text \<open>What also holds while the drop loop runs.\<close>

definition pq_pre :: "prio_queue \<Rightarrow> bool" where
  "pq_pre q \<longleftrightarrow> unat (q_queuesize q) = list_bytes (pq_packets q) + cur_bytes (pq_current q) \<and>
     cur_bytes (pq_current q) \<le> unat (q_maxsize q) \<and> pq_sorted q"

definition pq_inv :: "prio_queue \<Rightarrow> bool" where
  "pq_inv q \<longleftrightarrow> pq_pre q \<and> q_queuesize q \<le> q_maxsize q \<and>
     (pq_current q = None \<longrightarrow> pq_packets q = [])"

definition pq_held :: "prio_queue \<Rightarrow> packet multiset" where
  "pq_held q = mset (pq_packets q) + cur_mset (pq_current q)"

lemma comparePacketPriority_iff: "comparePacketPriority a b \<longleftrightarrow> p_priority a < p_priority b"
  by (simp add: comparePacketPriority_def)

lemma sorted_ins_priority:
  "sorted (map p_priority (ins_ub comparePacketPriority p ps)) = sorted (map p_priority ps)"
  by (rule sorted_ins_ub) (rule comparePacketPriority_iff)

lemma list_bytes_ins [simp, container_simps]:
  "list_bytes (ins_ub lt p ps) = unat (p_size p) + list_bytes ps"
  by (simp add: list_bytes_def)

text \<open>
  The drop loop ends, keeps the invariant, and splits the buffer into what stays and what is
  freed; no freed packet has a better (smaller) priority than one that stays.
\<close>

lemma pq_dropLoop_spec:
  assumes "pq_pre q"
  shows "\<exists>q' as ds. pq_dropLoop q = Some (q', as) \<and> pq_pre q' \<and> q_queuesize q' \<le> q_maxsize q' \<and>
    pq_packets q = pq_packets q' @ rev ds \<and> frees as = ds \<and> sends as = [] \<and> scheds as = [] \<and>
    pq_current q' = pq_current q \<and> q_maxsize q' = q_maxsize q"
  using assms
proof (induction q rule: pq_dropLoop.induct)
  case (1 q)
  show ?case
  proof (cases "q_queuesize q > q_maxsize q")
    case False
    then show ?thesis using 1(2) by (subst pq_dropLoop.simps) (auto simp: not_less)
  next
    case True
    then have gt: "unat (q_maxsize q) < unat (q_queuesize q)" by (simp add: word_less_nat_alt)
    then have ne: "pq_packets q \<noteq> []" using 1(2) by (auto simp: pq_pre_def)
    let ?p = "last (pq_packets q)"
    let ?q1 = "q\<lparr>pq_packets := butlast (pq_packets q)\<rparr>"
    let ?q2 = "?q1\<lparr>q_queuesize := q_queuesize ?q1 - p_size ?p\<rparr>"
    have b: "unat (p_size ?p) + list_bytes (butlast (pq_packets q)) = list_bytes (pq_packets q)"
      by (rule list_bytes_last [OF ne])
    then have "p_size ?p \<le> q_queuesize q" using 1(2) by (simp add: pq_pre_def word_le_nat_alt)
    then have "pq_pre ?q2" using 1(2) b
      by (simp add: pq_pre_def unat_sub pq_sorted_def sorted_butlast_map)
    from 1(1) [OF True ne refl refl refl this] obtain q' as ds where IH:
      "pq_dropLoop ?q2 = Some (q', as)" "pq_pre q'" "q_queuesize q' \<le> q_maxsize q'"
      "pq_packets ?q2 = pq_packets q' @ rev ds" "frees as = ds" "sends as = []" "scheds as = []"
      "pq_current q' = pq_current ?q2" "q_maxsize q' = q_maxsize ?q2"
      by blast
    have "pq_packets q = pq_packets q' @ rev (?p # ds)"
      using IH(4) ne by simp (metis append.assoc append_butlast_last_id)
    moreover have "pq_dropLoop q =
        Some (q', qlog ?q2 Q_DROP ?p @ [Traffic PKT_DROP ?p, Free ?p] @ as)"
      using True ne IH(1) by (subst pq_dropLoop.simps) (simp add: Let_def)
    ultimately show ?thesis using IH by fastforce
  qed
qed

lemma pq_receive_spec:
  assumes "pq_inv q" "fits q p"
  shows "\<exists>q' as ds ks. pq_receivePacket q p = Some (q', as) \<and> pq_inv q' \<and>
    frees as = ds \<and> sends as = [] \<and> q_maxsize q' = q_maxsize q \<and>
    ins_ub comparePacketPriority p (pq_packets q) = ks @ rev ds \<and>
    (if pq_current q = None
     then (case ks of [] \<Rightarrow> pq_current q' = None \<and> pq_packets q' = [] \<and> scheds as = []
           | k # ks' \<Rightarrow> pq_current q' = Some k \<and> pq_packets q' = ks' \<and>
                       scheds as = [SchedRel (drainTime q' k)])
     else pq_current q' = pq_current q \<and> pq_packets q' = ks \<and> scheds as = [])"
proof -
  let ?q1 = "q\<lparr>pq_packets := ins_ub comparePacketPriority p (pq_packets q)\<rparr>"
  let ?q2 = "?q1\<lparr>q_queuesize := q_queuesize ?q1 + p_size p\<rparr>"
  have "unat (q_queuesize q) \<le> unat (q_maxsize q)"
    using assms(1) by (simp add: pq_inv_def word_le_nat_alt)
  then have "unat (q_queuesize q + p_size p) = unat (q_queuesize q) + unat (p_size p)"
    using assms(2) by (intro unat_add_64) (simp add: fits_def)
  then have "pq_pre ?q2" using assms(1)
    by (simp add: pq_inv_def pq_pre_def pq_sorted_def sorted_ins_priority)
  from pq_dropLoop_spec [OF this] obtain q' as ds where d: "pq_dropLoop ?q2 = Some (q', as)"
      "pq_pre q'" "q_queuesize q' \<le> q_maxsize q'" "pq_packets ?q2 = pq_packets q' @ rev ds"
      "frees as = ds" "sends as = []" "scheds as = []" "pq_current q' = pq_current ?q2"
      "q_maxsize q' = q_maxsize ?q2"
    by blast
  have emp: "pq_current q = None \<Longrightarrow> pq_packets q = []" using assms(1) by (simp add: pq_inv_def)
  show ?thesis
  proof (cases "pq_current q")
    case (Some c)
    then show ?thesis using d
      by (intro exI [of _ q'] exI [of _ "Traffic PKT_ARRIVE p # qlog ?q2 Q_ENQUEUE p @ as"]
          exI [of _ ds] exI [of _ "pq_packets q'"]) (auto simp: pq_receivePacket_def pq_inv_def)
  next
    case None
    let ?b = "pq_beginService q'"
    have r: "pq_receivePacket q p = Some (fst ?b, (Traffic PKT_ARRIVE p # qlog ?q2 Q_ENQUEUE p @ as) @ snd ?b)"
      using d(1) None emp by (simp add: pq_receivePacket_def Let_def split: prod.split)
    have "pq_inv (fst ?b)" using d None
      by (auto simp: pq_beginService_def pq_inv_def pq_pre_def pq_sorted_def word_le_nat_alt split: list.split)
    then show ?thesis using r d None
      by (intro exI [of _ "fst ?b"] exI [of _ "(Traffic PKT_ARRIVE p # qlog ?q2 Q_ENQUEUE p @ as) @ snd ?b"]
          exI [of _ ds] exI [of _ "pq_packets q'"])
        (auto simp: pq_beginService_def drainTime_def split: list.split)
  qed
qed

lemma pq_serve_spec:
  assumes "pq_inv q" "pq_current q = Some p"
  shows "\<exists>q' as. pq_doNextEvent q = Some (q', as) \<and> pq_inv q' \<and> sends as = [applyEcnMark q p] \<and>
    frees as = [] \<and> q_maxsize q' = q_maxsize q \<and>
    (case pq_packets q of
       [] \<Rightarrow> pq_current q' = None \<and> pq_packets q' = [] \<and> scheds as = []
     | k # ks \<Rightarrow> pq_current q' = Some k \<and> pq_packets q' = ks \<and> scheds as = [SchedRel (drainTime q k)])"
proof -
  let ?q1 = "q\<lparr>q_queuesize := q_queuesize q - p_size p\<rparr>"
  let ?q2 = "?q1\<lparr>pq_current := None\<rparr>"
  let ?b = "pq_beginService ?q2"
  let ?as = "Traffic PKT_DEPART p # qlog q Q_SERVICE p @ [SendOn (applyEcnMark q p)]"
  have le: "p_size p \<le> q_queuesize q" using assms by (simp add: pq_inv_def pq_pre_def word_le_nat_alt)
  then have "unat (q_queuesize q - p_size p) = list_bytes (pq_packets q)"
    using assms by (simp add: pq_inv_def pq_pre_def unat_sub)
  moreover have "unat (q_queuesize q - p_size p) \<le> unat (q_maxsize q)"
    using le assms(1) by (simp add: unat_sub pq_inv_def word_le_nat_alt) arith
  ultimately have "pq_inv (fst ?b)" using assms
    by (auto simp: pq_beginService_def pq_inv_def pq_pre_def pq_sorted_def word_le_nat_alt split: list.split)
  moreover have "pq_doNextEvent q = Some (fst ?b, ?as @ snd ?b)"
    using assms(2) by (simp add: pq_doNextEvent_def pq_completeService_def Let_def split: prod.split)
  ultimately show ?thesis
    by (intro exI [of _ "fst ?b"] exI [of _ "?as @ snd ?b"])
      (auto simp: pq_beginService_def drainTime_def split: list.split)
qed

lemma mkPriorityQueue_inv:
  "mkPriorityQueue None bitrate maxsize lg = Some q \<Longrightarrow> pq_inv q \<and> pq_held q = {#}"
  by (auto simp: mkPriorityQueue_def mkQueue_def queue.defs pq_inv_def pq_pre_def pq_sorted_def
      pq_held_def split: if_splits)

lemma pq_held_empty: "pq_inv q \<Longrightarrow> pq_held q = {#} \<longleftrightarrow> pq_current q = None"
  by (auto simp: pq_held_def pq_inv_def)

lemma mset_split: "ins_ub lt p ps = ks @ rev ds \<Longrightarrow> mset ks + mset ds = add_mset p (mset ps)"
  by (metis mset_append mset_ins_ub mset_rev)

interpretation prio: queue_discipline pq_receivePacket pq_doNextEvent pq_held q_maxsize q_queuesize
  pq_inv fits
proof (unfold_locales, goal_cases)
  case (1 q p)
  then show ?case using pq_receive_spec by blast
next
  case (2 q p q' as)
  then show ?case using pq_receive_spec [OF 2(1,2)] by auto
next
  case (3 q p q' as)
  then obtain ds ks where s: "frees as = ds" "sends as = []"
      "ins_ub comparePacketPriority p (pq_packets q) = ks @ rev ds"
      "if pq_current q = None
       then (case ks of [] \<Rightarrow> pq_current q' = None \<and> pq_packets q' = []
             | k # ks' \<Rightarrow> pq_current q' = Some k \<and> pq_packets q' = ks')
       else pq_current q' = pq_current q \<and> pq_packets q' = ks"
    using pq_receive_spec [OF 3(1,2)] by (auto split: if_splits list.splits)
  have "pq_held q' = mset ks + cur_mset (pq_current q)"
    using s(4) by (auto simp: pq_held_def split: if_splits list.splits)
  then show ?case using s(1,2) mset_split [OF s(3)]
    by (simp add: pq_held_def union_assoc [symmetric] union_commute)
next
  case (4 q p q' as)
  then show ?case using pq_receive_spec [OF 4(1,2)] pq_held_empty [OF 4(1)]
    by (auto simp: pq_held_def split: if_splits list.splits)
next
  case (5 q p q' as)
  then show ?case using pq_receive_spec [OF 5(1,2)] pq_held_empty [OF 5(1)]
    by (auto simp: pq_held_def split: if_splits)
next
  case (6 q)
  then show ?case using pq_serve_spec pq_held_empty by fastforce
next
  case (7 q q' as)
  then show ?case using pq_serve_spec pq_held_empty by fastforce
next
  case (8 q q' as)
  then obtain p where p: "pq_current q = Some p" using pq_held_empty by fastforce
  then have "sends as = [applyEcnMark q p]" "frees as = []" "pq_held q = add_mset p (pq_held q')"
    using pq_serve_spec [OF 8(1) p] 8(3) by (auto simp: pq_held_def split: list.splits)
  then show ?case using applyEcnMark_cases by metis
next
  case (9 q q' as)
  then obtain p where p: "pq_current q = Some p" using pq_held_empty by fastforce
  then show ?case using pq_serve_spec [OF 9(1) p] 9(3) by (auto simp: pq_held_def split: list.splits)
next
  case (10 q)
  then show ?case
    by (cases "pq_current q") (auto simp: pq_inv_def pq_pre_def pq_held_def list_bytes_mset)
next
  case (11 q p q' as)
  then show ?case using pq_receive_spec [OF 11(1,2)] by auto
next
  case (12 q q' as)
  then obtain p where p: "pq_current q = Some p" using pq_held_empty by fastforce
  then show ?case using pq_serve_spec [OF 12(1) p] 12(3) by auto
qed

section \<open>Priorities\<close>

lemma sorted_append_priority:
  "sorted (map p_priority (ks @ ds)) \<Longrightarrow> k \<in> set ks \<Longrightarrow> d \<in> set ds \<Longrightarrow> p_priority k \<le> p_priority d"
  by (auto simp: sorted_append)

lemma pq_drops_worst:
  assumes "pq_inv q" "fits q p" "pq_receivePacket q p = Some (q', as)"
    "d \<in> set (frees as)" "k \<in> set (pq_packets q')"
  shows "p_priority k \<le> p_priority d"
proof -
  obtain ds ks where s: "frees as = ds" "ins_ub comparePacketPriority p (pq_packets q) = ks @ rev ds"
      "set (pq_packets q') \<subseteq> set ks"
    using pq_receive_spec [OF assms(1,2)] assms(3) by (fastforce split: if_splits list.splits)
  have "sorted (map p_priority (ks @ rev ds))"
    using assms(1) s(2) sorted_ins_priority [of p "pq_packets q"]
    by (simp add: pq_inv_def pq_pre_def pq_sorted_def del: map_append)
  then show ?thesis using s assms(4,5) by (intro sorted_append_priority [of ks "rev ds"]) auto
qed

lemma pq_serves_best:
  assumes "pq_inv q" "pq_current q \<noteq> None" "pq_doNextEvent q = Some (q', as)"
    "pq_current q' = Some c" "k \<in> set (pq_packets q')"
  shows "p_priority c \<le> p_priority k"
proof -
  obtain p where p: "pq_current q = Some p" using assms(2) by blast
  have "pq_packets q = c # pq_packets q'"
    using pq_serve_spec [OF assms(1) p] assms(3,4) by (auto split: list.splits)
  moreover have "sorted (map p_priority (pq_packets q))"
    using assms(1) by (simp add: pq_inv_def pq_pre_def pq_sorted_def)
  ultimately show ?thesis using assms(5) by simp
qed

text \<open>
  The uninitialised pointer: where it is not null, the first packet does not start the service
  and nothing else will.
\<close>

lemma pq_uninitialised_stalls:
  assumes "mkPriorityQueue (Some junk) bitrate maxsize lg = Some q" "p_size p \<le> maxsize"
  shows "\<exists>q' as. pq_receivePacket q p = Some (q', as) \<and> scheds as = [] \<and> sends as = [] \<and>
    pq_packets q' = [p]"
proof -
  have q: "q_queuesize q = 0" "q_maxsize q = maxsize" "pq_packets q = []" "pq_current q = Some junk"
    using assms(1) by (auto simp: mkPriorityQueue_def mkQueue_def queue.defs split: if_splits)
  show ?thesis using q assms(2)
    by (auto simp: pq_receivePacket_def pq_dropLoop.simps Let_def)
qed

section \<open>Properties\<close>

definition ex_prio :: prio_queue where
  "ex_prio = the (mkPriorityQueue None 10000000000 2000 False)"

definition ex_low :: packet where "ex_low = setPriority 7 ex_full"
definition ex_high :: packet where "ex_high = setPriority 2 ex_full"

lemma ex_prio_eq: "mkPriorityQueue None 10000000000 2000 False = Some ex_prio"
  by (simp add: ex_prio_def mkPriorityQueue_def mkQueue_def)

lemma ex_prio_fields: "q_maxsize ex_prio = 2000" "q_queuesize ex_prio = 0" "pq_current ex_prio = None"
    "pq_packets ex_prio = []"
  by (simp_all add: ex_prio_def mkPriorityQueue_def mkQueue_def queue.defs)

lemma ex_prio_fits: "q_maxsize q = 2000 \<Longrightarrow> fits q ex_low \<and> fits q ex_high"
  by (simp add: fits_def ex_low_def ex_high_def ex_full_def setPriority_def)

text \<open>
  C26: \<open>PriorityQueue\<close> orders by priority. What an arrival drops is never more urgent than anything
  it leaves in the buffer, and the packet a completed service puts on the wire is at least as urgent
  as everything that stays (a smaller number is more urgent).
\<close>

theorem prio_order:
  assumes "pq_inv q" "fits q p"
  shows "\<exists>q' as. pq_receivePacket q p = Some (q', as) \<and>
    (\<forall>d \<in> set (frees as). \<forall>k \<in> set (pq_packets q'). p_priority k \<le> p_priority d) \<and>
    (\<forall>c q'' bs c'. pq_current q' = Some c \<longrightarrow> pq_doNextEvent q' = Some (q'', bs) \<longrightarrow>
       pq_current q'' = Some c' \<longrightarrow> (\<forall>k \<in> set (pq_packets q''). p_priority c' \<le> p_priority k))"
proof -
  obtain q' as where r: "pq_receivePacket q p = Some (q', as)" "pq_inv q'"
    using pq_receive_spec [OF assms] by blast
  then show ?thesis using pq_drops_worst [OF assms r(1)] pq_serves_best [OF r(2)] by fastforce
qed

lemma prio_order_witness:
  "\<exists>q as q' bs. pq_receivePacket ex_prio ex_low = Some (q, as) \<and>
    pq_receivePacket q ex_high = Some (q', bs) \<and>
    (\<forall>d \<in> set (frees bs). \<forall>k \<in> set (pq_packets q'). p_priority k \<le> p_priority d)"
proof -
  note i = mkPriorityQueue_inv [OF ex_prio_eq]
  have f: "fits ex_prio ex_low" using ex_prio_fits ex_prio_fields(1) by blast
  obtain q as where q: "pq_receivePacket ex_prio ex_low = Some (q, as)" "pq_inv q" "q_maxsize q = 2000"
    using pq_receive_spec [of ex_prio ex_low] i f ex_prio_fields(1) by auto
  have "fits q ex_high" using q(3) ex_prio_fits by blast
  from prio_order [OF q(2) this] q(1) show ?thesis by blast
qed

text \<open>
  The constructor of \<open>PriorityQueue\<close> leaves \<open>_currentPkt\<close> unset. If the memory is not null there,
  the first packet is stored without scheduling a service, so a new queue never sends: the
  guarantees of the other theorems need the null pointer.
\<close>

lemma prio_uninitialised:
  assumes "mkPriorityQueue (Some junk) bitrate maxsize lg = Some q" "p_size p \<le> maxsize"
  shows "\<exists>q' as. pq_receivePacket q p = Some (q', as) \<and> scheds as = [] \<and> sends as = [] \<and>
    pq_packets q' = [p]"
  by (rule pq_uninitialised_stalls [OF assms])

lemma prio_uninitialised_witness:
  "\<exists>q q' as. mkPriorityQueue (Some pkt0) 10000000000 2000 False = Some q \<and>
    pq_receivePacket q ex_low = Some (q', as) \<and> scheds as = []"
proof -
  obtain q where q: "mkPriorityQueue (Some pkt0) 10000000000 2000 False = Some q"
    by (simp add: mkPriorityQueue_def mkQueue_def)
  have "p_size ex_low \<le> 2000" by (simp add: ex_low_def ex_full_def setPriority_def)
  from prio_uninitialised [OF q this] q show ?thesis by blast
qed

end
