(* ===== verification/FairQ.thy ===== *)
theory FairQ
  imports PrioQueue "HOL-Library.Product_Lexorder"
begin

text \<open>
  \<open>fairqueue.h\<close> and \<open>fairqueue.cpp\<close>: \<open>FairQueue\<close> emulates byte-by-byte round robin. Every packet
  is tagged with the round in which its last byte would leave; the smallest round goes first, the
  largest is dropped. The constructor selects the mode \<open>LAZY\<close> and nothing changes it; this is
  the mode modelled here (the round number is the one of the packet in service).
\<close>

section \<open>State and operations\<close>

record fair_queue = queue +
  fq_packets :: "(u64 \<times> packet) list"
  fq_flowRound :: "u32 \<rightharpoonup> u64"
  fq_nPackets :: "u32 \<rightharpoonup> u32"
  fq_nActiveFlows :: u32
  fq_roundNumber :: u64
  fq_current :: "packet option"

definition compareFqPackets :: "u64 \<times> packet \<Rightarrow> u64 \<times> packet \<Rightarrow> bool" where
  "compareFqPackets a b =
     (if fst a < fst b then True
      else if fst a > fst b then False
      else if p_id (snd a) < p_id (snd b) then True
      else False)"

text \<open>As for \<open>PriorityQueue\<close>, the constructor does not set \<open>_currentPkt\<close>.\<close>

definition mkFairQueue :: "packet option \<Rightarrow> u64 \<Rightarrow> u64 \<Rightarrow> bool \<Rightarrow> fair_queue option" where
  "mkFairQueue cur0 bitrate maxsize logger =
     map_option (\<lambda>q. queue.extend q
         \<lparr>fq_packets = [], fq_flowRound = Map.empty, fq_nPackets = Map.empty, fq_nActiveFlows = 0,
          fq_roundNumber = 0, fq_current = cur0\<rparr>)
       (mkQueue bitrate maxsize logger)"

text \<open>\<open>operator[]\<close> of an unordered map reads 0 where there is no entry.\<close>

definition at0 :: "('k \<rightharpoonup> 'v::len word) \<Rightarrow> 'k \<Rightarrow> 'v word" where
  "at0 m k = (case m k of None \<Rightarrow> 0 | Some v \<Rightarrow> v)"

definition fq_beginService :: "fair_queue \<Rightarrow> fair_queue \<times> action list" where
  "fq_beginService q =
     (case fq_packets q of
        [] \<Rightarrow> (q, [])
      | (r, p) # ps \<Rightarrow>
          (q\<lparr>fq_roundNumber := r, fq_current := Some p, fq_packets := ps\<rparr>,
           [SchedRel (drainTime q p)]))"

definition fq_completeService :: "fair_queue \<Rightarrow> (fair_queue \<times> action list) option" where
  "fq_completeService q =
     (case fq_current q of
        None \<Rightarrow> None
      | Some p \<Rightarrow>
          let flowid = p_flow p;
              q = (if at0 (fq_nPackets q) flowid = 1
                   then q\<lparr>fq_nPackets := (fq_nPackets q)(flowid := None),
                          fq_flowRound := (fq_flowRound q)(flowid := None)\<rparr>
                   else q\<lparr>fq_nPackets := (fq_nPackets q)(flowid \<mapsto> at0 (fq_nPackets q) flowid - 1)\<rparr>);
              as = Traffic PKT_DEPART p # qlog q Q_SERVICE p @ [SendOn (applyEcnMark q p)];
              q = q\<lparr>q_queuesize := q_queuesize q - p_size p, fq_current := None\<rparr>;
              (q, bs) = fq_beginService q
          in Some (q, as @ bs))"

definition fq_doNextEvent :: "fair_queue \<Rightarrow> (fair_queue \<times> action list) option" where
  "fq_doNextEvent q = fq_completeService q"

text \<open>The finish round \<open>receivePacket\<close> gives to a packet, and the new state of the round table.\<close>

definition fq_assignRound :: "fair_queue \<Rightarrow> packet \<Rightarrow> fair_queue" where
  "fq_assignRound q pkt =
     (let flowid = p_flow pkt in
      if fq_flowRound q flowid = None
      then q\<lparr>fq_flowRound := (fq_flowRound q)(flowid \<mapsto> fq_roundNumber q + p_size pkt),
             fq_nActiveFlows := fq_nActiveFlows q + 1\<rparr>
      else if at0 (fq_flowRound q) flowid > fq_roundNumber q
      then q\<lparr>fq_flowRound := (fq_flowRound q)(flowid \<mapsto> at0 (fq_flowRound q) flowid + p_size pkt)\<rparr>
      else q\<lparr>fq_flowRound := (fq_flowRound q)(flowid \<mapsto> fq_roundNumber q + p_size pkt)\<rparr>)"

text \<open>The bookkeeping for one packet dropped from the end.\<close>

definition fq_forget :: "fair_queue \<Rightarrow> packet \<Rightarrow> fair_queue" where
  "fq_forget q p =
     (let dropid = p_flow p in
      if at0 (fq_nPackets q) dropid = 1
      then q\<lparr>fq_flowRound := (fq_flowRound q)(dropid := None),
             fq_nPackets := (fq_nPackets q)(dropid := None),
             fq_nActiveFlows := fq_nActiveFlows q - 1\<rparr>
      else q\<lparr>fq_flowRound := (fq_flowRound q)(dropid \<mapsto> at0 (fq_flowRound q) dropid - p_size p),
             fq_nPackets := (fq_nPackets q)(dropid \<mapsto> at0 (fq_nPackets q) dropid - 1)\<rparr>)"

lemma fq_forget_fields [simp]:
  "fq_packets (fq_forget q p) = fq_packets q" "q_queuesize (fq_forget q p) = q_queuesize q"
  "q_maxsize (fq_forget q p) = q_maxsize q" "fq_current (fq_forget q p) = fq_current q"
  "q_logger (fq_forget q p) = q_logger q" "q_ps_per_byte (fq_forget q p) = q_ps_per_byte q"
  by (simp_all add: fq_forget_def Let_def)

function fq_dropLoop :: "fair_queue \<Rightarrow> (fair_queue \<times> action list) option" where
  "fq_dropLoop q =
     (if q_queuesize q > q_maxsize q
      then if fq_packets q = [] then None
           else let p = snd (last (fq_packets q));
                    q1 = q\<lparr>fq_packets := butlast (fq_packets q)\<rparr>;
                    q2 = q1\<lparr>q_queuesize := q_queuesize q1 - p_size p\<rparr>;
                    q3 = fq_forget q2 p
                in map_option (\<lambda>(q', as). (q', qlog q3 Q_DROP p @ [Traffic PKT_DROP p, Free p] @ as))
                     (fq_dropLoop q3)
      else Some (q, []))"
  by pat_completeness auto
termination
  by (relation "measure (\<lambda>q. length (fq_packets q))") auto

declare fq_dropLoop.simps [simp del]

text \<open>The bookkeeping of \<open>receivePacket\<close> for the new packet, before the drop loop.\<close>

definition fq_arrived :: "fair_queue \<Rightarrow> packet \<Rightarrow> fair_queue" where
  "fq_arrived q pkt =
     (let flowid = p_flow pkt;
          q1 = q\<lparr>fq_nPackets := (fq_nPackets q)(flowid \<mapsto> at0 (fq_nPackets q) flowid + 1)\<rparr>;
          q2 = fq_assignRound q1 pkt
      in q2\<lparr>fq_packets := ins_ub compareFqPackets (at0 (fq_flowRound q2) flowid, pkt) (fq_packets q2),
            q_queuesize := q_queuesize q2 + p_size pkt\<rparr>)"

definition fq_receivePacket :: "fair_queue \<Rightarrow> packet \<Rightarrow> (fair_queue \<times> action list) option" where
  "fq_receivePacket q pkt =
     (let queueWasEmpty = (fq_current q = None \<and> fq_packets q = []);
          q1 = fq_arrived q pkt;
          as = Traffic PKT_ARRIVE pkt # qlog q1 Q_ENQUEUE pkt
      in case fq_dropLoop q1 of
           None \<Rightarrow> None
         | Some (q2, bs) \<Rightarrow>
             let (q3, cs) = (if queueWasEmpty then fq_beginService q2 else (q2, []))
             in Some (q3, as @ bs @ cs))"

definition fq_printStats :: "fair_queue \<Rightarrow> (u32 \<rightharpoonup> u32)" where
  "fq_printStats q = flow_counts (map snd (fq_packets q)) Map.empty"

section \<open>Packet counts per flow\<close>

definition flow_size :: "u32 \<Rightarrow> packet multiset \<Rightarrow> nat" where
  "flow_size f M = size (filter_mset (\<lambda>p. p_flow p = f) M)"

definition counts_of :: "packet multiset \<Rightarrow> (u32 \<rightharpoonup> u32)" where
  "counts_of M f = (if flow_size f M = 0 then None else Some (of_nat (flow_size f M)))"

lemma flow_size_le: "flow_size f M \<le> size M"
  unfolding flow_size_def by (metis multiset_filter_subset size_mset_mono)

lemma flow_size_add: "flow_size f (add_mset p M) = (if p_flow p = f then 1 else 0) + flow_size f M"
  by (simp add: flow_size_def)

lemma at0_counts: "at0 (counts_of M) f = of_nat (flow_size f M)"
  by (simp add: at0_def counts_of_def)

lemma counts_of_add: "counts_of (add_mset p M) = (counts_of M)(p_flow p \<mapsto> at0 (counts_of M) (p_flow p) + 1)"
  by (auto simp: counts_of_def at0_counts flow_size_add fun_eq_iff)

lemma counts_of_remove:
  assumes "size (add_mset p M) < 4294967296"
  shows "counts_of M =
    (if at0 (counts_of (add_mset p M)) (p_flow p) = 1
     then (counts_of (add_mset p M))(p_flow p := None)
     else (counts_of (add_mset p M))(p_flow p \<mapsto> at0 (counts_of (add_mset p M)) (p_flow p) - 1))"
proof -
  let ?n = "flow_size (p_flow p) M"
  have "Suc ?n < 4294967296" using assms flow_size_le [of "p_flow p" M] by simp
  then have "unat (of_nat (Suc ?n) :: u32) = Suc ?n" by (simp only: unat_of_nat) simp
  then have "(of_nat (Suc ?n) :: u32) = 1 \<longleftrightarrow> ?n = 0"
    by (metis One_nat_def old.nat.inject of_nat_1 unat_1)
  then show ?thesis
    by (auto simp: counts_of_def at0_counts flow_size_add fun_eq_iff)
qed


section \<open>Invariant\<close>

definition fq_held :: "fair_queue \<Rightarrow> packet multiset" where
  "fq_held q = mset (map snd (fq_packets q)) + cur_mset (fq_current q)"

definition fq_key :: "u64 \<times> packet \<Rightarrow> u64 \<times> u32" where
  "fq_key e = (fst e, p_id (snd e))"

definition fq_pre :: "fair_queue \<Rightarrow> bool" where
  "fq_pre q \<longleftrightarrow>
     unat (q_queuesize q) = list_bytes (map snd (fq_packets q)) + cur_bytes (fq_current q) \<and>
     cur_bytes (fq_current q) \<le> unat (q_maxsize q) \<and>
     sorted (map fq_key (fq_packets q)) \<and>
     size (fq_held q) < 4294967296 \<and>
     fq_nPackets q = counts_of (fq_held q) \<and>
     dom (fq_flowRound q) = dom (fq_nPackets q)"

definition fq_inv :: "fair_queue \<Rightarrow> bool" where
  "fq_inv q \<longleftrightarrow> fq_pre q \<and> q_queuesize q \<le> q_maxsize q \<and>
     (fq_current q = None \<longrightarrow> fq_packets q = [])"

text \<open>An arriving packet must also leave the packet counters within 32 bits.\<close>

definition fq_ok :: "fair_queue \<Rightarrow> packet \<Rightarrow> bool" where
  "fq_ok q p \<longleftrightarrow> fits q p \<and> size (fq_held q) < 4294967295"

lemma compareFqPackets_iff: "compareFqPackets a b \<longleftrightarrow> fq_key a < fq_key b"
  by (auto simp: compareFqPackets_def fq_key_def less_prod_def')

lemma sorted_ins_fq: "sorted (map fq_key (ins_ub compareFqPackets e es)) = sorted (map fq_key es)"
  by (rule sorted_ins_ub) (rule compareFqPackets_iff)

lemma list_bytes_snd_ins: "list_bytes (map snd (ins_ub lt e es)) = unat (p_size (snd e)) + list_bytes (map snd es)"
  by (simp add: list_bytes_def comp_def)

lemma mset_snd_ins: "mset (map snd (ins_ub lt e es)) = add_mset (snd e) (mset (map snd es))"
  by simp

lemma fq_forget_counts:
  assumes "fq_nPackets q = counts_of (add_mset p M)" "size (add_mset p M) < 4294967296"
    "dom (fq_flowRound q) = dom (fq_nPackets q)"
  shows "fq_nPackets (fq_forget q p) = counts_of M \<and>
    dom (fq_flowRound (fq_forget q p)) = dom (fq_nPackets (fq_forget q p))"
  using counts_of_remove [OF assms(2)] assms(1,3)
  by (auto simp: fq_forget_def Let_def split: if_splits)

lemma map_snd_last: "es \<noteq> [] \<Longrightarrow> map snd es = map snd (butlast es) @ [snd (last es)]"
  by (metis append_butlast_last_id list.simps(8) list.simps(9) map_append)

lemma fq_drop_pre:
  assumes "fq_pre q" "q_queuesize q > q_maxsize q" "fq_packets q \<noteq> []"
  defines "p \<equiv> snd (last (fq_packets q))"
  shows "fq_pre (fq_forget (q\<lparr>fq_packets := butlast (fq_packets q), q_queuesize := q_queuesize q - p_size p\<rparr>) p)"
proof -
  let ?q3 = "fq_forget (q\<lparr>fq_packets := butlast (fq_packets q), q_queuesize := q_queuesize q - p_size p\<rparr>) p"
  have m: "map snd (fq_packets q) = map snd (butlast (fq_packets q)) @ [p]"
    unfolding p_def by (rule map_snd_last [OF assms(3)])
  then have b: "unat (p_size p) + list_bytes (map snd (butlast (fq_packets q))) =
      list_bytes (map snd (fq_packets q))"
    by simp
  then have "p_size p \<le> q_queuesize q" using assms(1) by (simp add: fq_pre_def word_le_nat_alt)
  then have u: "unat (q_queuesize q - p_size p) =
      list_bytes (map snd (butlast (fq_packets q))) + cur_bytes (fq_current q)"
    using assms(1) b by (simp add: fq_pre_def unat_sub)
  have h: "fq_held q = add_mset p (fq_held ?q3)" unfolding fq_held_def m by simp
  then have "fq_nPackets ?q3 = counts_of (fq_held ?q3) \<and> dom (fq_flowRound ?q3) = dom (fq_nPackets ?q3)"
    using assms(1) fq_forget_counts [of "q\<lparr>fq_packets := butlast (fq_packets q), q_queuesize := q_queuesize q - p_size p\<rparr>"
        p "fq_held ?q3"] by (simp add: fq_pre_def)
  moreover have "size (fq_held ?q3) < 4294967296" using assms(1) h by (simp add: fq_pre_def)
  ultimately show ?thesis using assms(1) u by (simp add: fq_pre_def sorted_butlast_map)
qed

lemma fq_dropLoop_spec:
  assumes "fq_pre q"
  shows "\<exists>q' as ds. fq_dropLoop q = Some (q', as) \<and> fq_pre q' \<and> q_queuesize q' \<le> q_maxsize q' \<and>
    fq_packets q = fq_packets q' @ rev ds \<and> frees as = map snd ds \<and> sends as = [] \<and>
    scheds as = [] \<and> fq_current q' = fq_current q \<and> q_maxsize q' = q_maxsize q"
  using assms
proof (induction q rule: fq_dropLoop.induct)
  case (1 q)
  show ?case
  proof (cases "q_queuesize q > q_maxsize q")
    case False
    then show ?thesis using 1(2) by (subst fq_dropLoop.simps) (auto simp: not_less)
  next
    case True
    then have gt: "unat (q_maxsize q) < unat (q_queuesize q)" by (simp add: word_less_nat_alt)
    then have ne: "fq_packets q \<noteq> []" using 1(2) by (auto simp: fq_pre_def)
    let ?p = "snd (last (fq_packets q))"
    let ?q1 = "q\<lparr>fq_packets := butlast (fq_packets q)\<rparr>"
    let ?q2 = "?q1\<lparr>q_queuesize := q_queuesize ?q1 - p_size ?p\<rparr>"
    let ?q3 = "fq_forget ?q2 ?p"
    have "fq_pre ?q3" using fq_drop_pre [OF 1(2) True ne] by simp
    from 1(1) [OF True ne refl refl refl refl this] obtain q' as ds where IH:
      "fq_dropLoop ?q3 = Some (q', as)" "fq_pre q'" "q_queuesize q' \<le> q_maxsize q'"
      "fq_packets ?q3 = fq_packets q' @ rev ds" "frees as = map snd ds" "sends as = []"
      "scheds as = []" "fq_current q' = fq_current ?q3" "q_maxsize q' = q_maxsize ?q3"
      by blast
    have "fq_packets q = fq_packets q' @ rev (last (fq_packets q) # ds)"
      using IH(4) ne by simp (metis append.assoc append_butlast_last_id)
    moreover have "fq_dropLoop q =
        Some (q', qlog ?q3 Q_DROP ?p @ [Traffic PKT_DROP ?p, Free ?p] @ as)"
      using True ne IH(1) by (subst fq_dropLoop.simps) (simp add: Let_def)
    ultimately show ?thesis using IH
      by (intro exI [of _ q'] exI [of _ "qlog ?q3 Q_DROP ?p @ [Traffic PKT_DROP ?p, Free ?p] @ as"]
          exI [of _ "last (fq_packets q) # ds"]) simp
  qed
qed

lemma fq_assignRound_fields [simp]:
  "fq_packets (fq_assignRound q p) = fq_packets q" "q_queuesize (fq_assignRound q p) = q_queuesize q"
  "q_maxsize (fq_assignRound q p) = q_maxsize q" "fq_current (fq_assignRound q p) = fq_current q"
  "fq_nPackets (fq_assignRound q p) = fq_nPackets q"
  "dom (fq_flowRound (fq_assignRound q p)) = insert (p_flow p) (dom (fq_flowRound q))"
  by (auto simp: fq_assignRound_def Let_def)

lemma fq_arrived_pre:
  assumes "fq_inv q" "fq_ok q p"
  shows "fq_pre (fq_arrived q p)"
proof -
  have "unat (q_queuesize q) \<le> unat (q_maxsize q)"
    using assms(1) by (simp add: fq_inv_def word_le_nat_alt)
  then have "unat (q_queuesize q + p_size p) = unat (q_queuesize q) + unat (p_size p)"
    using assms(2) by (intro unat_add_64) (simp add: fits_def fq_ok_def)
  moreover have "fq_held (fq_arrived q p) = add_mset p (fq_held q)"
    by (simp add: fq_held_def fq_arrived_def Let_def)
  moreover have "fq_nPackets (fq_arrived q p) = counts_of (add_mset p (fq_held q))"
    using assms(1) by (simp add: fq_arrived_def Let_def counts_of_add fq_inv_def fq_pre_def)
  moreover have "dom (fq_flowRound (fq_arrived q p)) = dom (fq_nPackets (fq_arrived q p))"
    using assms(1) by (simp add: fq_arrived_def Let_def fq_inv_def fq_pre_def)
  ultimately show ?thesis using assms
    unfolding fq_pre_def fq_ok_def fq_inv_def
    by (simp add: fq_arrived_def Let_def sorted_ins_fq list_bytes_snd_ins)
qed

lemma fq_begin_inv:
  assumes "fq_pre q" "fq_current q = None" "q_queuesize q \<le> q_maxsize q"
  shows "fq_inv (fst (fq_beginService q))"
proof (cases "fq_packets q")
  case Nil
  then show ?thesis using assms by (simp add: fq_beginService_def fq_inv_def)
next
  case (Cons e es)
  obtain r p where e: "e = (r, p)" by (cases e)
  have "unat (p_size p) \<le> unat (q_maxsize q)"
    using assms Cons e by (simp add: fq_pre_def word_le_nat_alt)
  then show ?thesis using assms Cons e
    by (simp add: fq_beginService_def fq_inv_def fq_pre_def fq_held_def)
qed

lemma fq_begin_cases:
  "(case fq_packets q of
      [] \<Rightarrow> fq_beginService q = (q, [])
    | (r, k) # ks \<Rightarrow> fq_packets (fst (fq_beginService q)) = ks \<and>
        fq_current (fst (fq_beginService q)) = Some k \<and> fq_roundNumber (fst (fq_beginService q)) = r \<and>
        snd (fq_beginService q) = [SchedRel (drainTime q k)]) \<and>
   q_maxsize (fst (fq_beginService q)) = q_maxsize q"
  by (auto simp: fq_beginService_def split: list.split)

lemma fq_receive_spec:
  assumes "fq_inv q" "fq_ok q p"
  shows "\<exists>q' as ds ks. fq_receivePacket q p = Some (q', as) \<and> fq_inv q' \<and>
    frees as = map snd ds \<and> sends as = [] \<and> q_maxsize q' = q_maxsize q \<and>
    fq_packets (fq_arrived q p) = ks @ rev ds \<and>
    (if fq_current q = None
     then (case ks of [] \<Rightarrow> fq_current q' = None \<and> fq_packets q' = [] \<and> scheds as = []
           | (r, k) # ks' \<Rightarrow> fq_current q' = Some k \<and> fq_packets q' = ks' \<and> length (scheds as) = 1)
     else fq_current q' = fq_current q \<and> fq_packets q' = ks \<and> scheds as = [])"
proof -
  from fq_dropLoop_spec [OF fq_arrived_pre [OF assms]] obtain q1 bs ds where d:
      "fq_dropLoop (fq_arrived q p) = Some (q1, bs)" "fq_pre q1" "q_queuesize q1 \<le> q_maxsize q1"
      "fq_packets (fq_arrived q p) = fq_packets q1 @ rev ds" "frees bs = map snd ds" "sends bs = []"
      "scheds bs = []" "fq_current q1 = fq_current (fq_arrived q p)"
      "q_maxsize q1 = q_maxsize (fq_arrived q p)"
    by blast
  have c: "fq_current (fq_arrived q p) = fq_current q" "q_maxsize (fq_arrived q p) = q_maxsize q"
    by (simp_all add: fq_arrived_def Let_def)
  let ?as = "(Traffic PKT_ARRIVE p # qlog (fq_arrived q p) Q_ENQUEUE p) @ bs"
  show ?thesis
  proof (cases "fq_current q")
    case (Some x)
    then have "fq_receivePacket q p = Some (q1, ?as)" using d by (simp add: fq_receivePacket_def Let_def)
    then show ?thesis using d c Some
      by (intro exI [of _ q1] exI [of _ ?as] exI [of _ ds] exI [of _ "fq_packets q1"])
        (simp add: fq_inv_def)
  next
    case None
    let ?b = "fq_beginService q1"
    have emp: "fq_packets q = []" using assms(1) None by (simp add: fq_inv_def)
    have r: "fq_receivePacket q p = Some (fst ?b, ?as @ snd ?b)"
      using d(1) None emp by (simp add: fq_receivePacket_def Let_def split: prod.split)
    have "fq_inv (fst ?b)" using d c None by (intro fq_begin_inv) simp_all
    then show ?thesis using r d c None fq_begin_cases [of q1]
      by (intro exI [of _ "fst ?b"] exI [of _ "?as @ snd ?b"] exI [of _ ds] exI [of _ "fq_packets q1"])
        (auto split: list.splits)
  qed
qed


text \<open>The counters after the packet on the wire has been counted off.\<close>

definition fq_uncount :: "fair_queue \<Rightarrow> u32 \<Rightarrow> fair_queue" where
  "fq_uncount q flowid =
     (if at0 (fq_nPackets q) flowid = 1
      then q\<lparr>fq_nPackets := (fq_nPackets q)(flowid := None),
             fq_flowRound := (fq_flowRound q)(flowid := None)\<rparr>
      else q\<lparr>fq_nPackets := (fq_nPackets q)(flowid \<mapsto> at0 (fq_nPackets q) flowid - 1)\<rparr>)"

lemma fq_uncount_fields [simp]:
  "fq_packets (fq_uncount q f) = fq_packets q" "q_queuesize (fq_uncount q f) = q_queuesize q"
  "q_maxsize (fq_uncount q f) = q_maxsize q" "fq_current (fq_uncount q f) = fq_current q"
  "q_ps_per_byte (fq_uncount q f) = q_ps_per_byte q" "q_bitrate (fq_uncount q f) = q_bitrate q"
  "fq_roundNumber (fq_uncount q f) = fq_roundNumber q"
  by (simp_all add: fq_uncount_def)

lemma fq_uncount_counts:
  assumes "fq_nPackets q = counts_of (add_mset p M)" "size (add_mset p M) < 4294967296"
    "dom (fq_flowRound q) = dom (fq_nPackets q)"
  shows "fq_nPackets (fq_uncount q (p_flow p)) = counts_of M \<and>
    dom (fq_flowRound (fq_uncount q (p_flow p))) = dom (fq_nPackets (fq_uncount q (p_flow p)))"
proof -
  have "p_flow p \<in> dom (fq_nPackets q)" using assms(1) by (simp add: counts_of_add)
  then show ?thesis using counts_of_remove [OF assms(2)] assms(1,3)
    by (simp add: fq_uncount_def insert_absorb)
qed

lemma fq_serve_eq:
  assumes "fq_current q = Some p"
  shows "fq_doNextEvent q =
    (let q1 = fq_uncount q (p_flow p);
         b = fq_beginService (q1\<lparr>q_queuesize := q_queuesize q1 - p_size p, fq_current := None\<rparr>)
     in Some (fst b, (Traffic PKT_DEPART p # qlog q1 Q_SERVICE p @ [SendOn (applyEcnMark q1 p)]) @ snd b))"
  using assms by (simp add: fq_doNextEvent_def fq_completeService_def fq_uncount_def Let_def
      split: prod.split)

lemma fq_serve_spec:
  assumes "fq_inv q" "fq_current q = Some p"
  shows "\<exists>q' as. fq_doNextEvent q = Some (q', as) \<and> fq_inv q' \<and> sends as = [applyEcnMark q p] \<and>
    frees as = [] \<and> q_maxsize q' = q_maxsize q \<and>
    (case fq_packets q of
       [] \<Rightarrow> fq_current q' = None \<and> fq_packets q' = [] \<and> scheds as = []
     | (r, k) # ks \<Rightarrow> fq_current q' = Some k \<and> fq_packets q' = ks \<and> fq_roundNumber q' = r \<and>
         length (scheds as) = 1)"
proof -
  let ?q1 = "fq_uncount q (p_flow p)"
  let ?q2 = "?q1\<lparr>q_queuesize := q_queuesize ?q1 - p_size p, fq_current := None\<rparr>"
  let ?b = "fq_beginService ?q2"
  have le: "p_size p \<le> q_queuesize q" using assms by (simp add: fq_inv_def fq_pre_def word_le_nat_alt)
  then have u: "unat (q_queuesize q - p_size p) = list_bytes (map snd (fq_packets q))"
    using assms by (simp add: fq_inv_def fq_pre_def unat_sub)
  have m: "unat (q_queuesize q - p_size p) \<le> unat (q_maxsize q)"
    using le assms(1) by (simp add: unat_sub fq_inv_def word_le_nat_alt) arith
  have h: "fq_held q = add_mset p (fq_held ?q2)" using assms(2) by (simp add: fq_held_def)
  have "fq_nPackets ?q2 = counts_of (fq_held ?q2) \<and> dom (fq_flowRound ?q2) = dom (fq_nPackets ?q2)"
    using fq_uncount_counts [of q p "fq_held ?q2"] assms(1) h
    by (simp add: fq_inv_def fq_pre_def)
  moreover have "size (fq_held ?q2) < 4294967296" using assms(1) h by (simp add: fq_inv_def fq_pre_def)
  ultimately have "fq_pre ?q2" using assms(1) u by (simp add: fq_inv_def fq_pre_def)
  then have "fq_inv (fst ?b)" using m by (intro fq_begin_inv) (simp_all add: word_le_nat_alt)
  moreover have "applyEcnMark ?q1 p = applyEcnMark q p"
    by (rule applyEcnMark_cong) simp_all
  ultimately show ?thesis
    using fq_serve_eq [OF assms(2)] fq_begin_cases [of ?q2]
    by (intro exI [of _ "fst ?b"] exI [of _ "(Traffic PKT_DEPART p # qlog ?q1 Q_SERVICE p @
        [SendOn (applyEcnMark ?q1 p)]) @ snd ?b"]) (auto simp: Let_def fq_beginService_def split: list.splits)
qed

lemma fq_held_empty: "fq_inv q \<Longrightarrow> fq_held q = {#} \<longleftrightarrow> fq_current q = None"
  by (auto simp: fq_held_def fq_inv_def)

lemma mkFairQueue_inv:
  "mkFairQueue None bitrate maxsize lg = Some q \<Longrightarrow> fq_inv q \<and> fq_held q = {#}"
  by (auto simp: mkFairQueue_def mkQueue_def queue.defs fq_inv_def fq_pre_def fq_held_def
      counts_of_def flow_size_def fun_eq_iff split: if_splits)

lemma fq_arrived_split:
  assumes "fq_packets (fq_arrived q p) = ks @ rev ds"
  shows "mset (map snd ks) + mset (map snd ds) = add_mset p (mset (map snd (fq_packets q)))"
proof -
  have "mset (map snd (fq_packets (fq_arrived q p))) = add_mset p (mset (map snd (fq_packets q)))"
    by (simp add: fq_arrived_def Let_def)
  then show ?thesis by (simp add: assms)
qed

interpretation fair: queue_discipline fq_receivePacket fq_doNextEvent fq_held q_maxsize q_queuesize
  fq_inv fq_ok
proof (unfold_locales, goal_cases)
  case (1 q p)
  then show ?case using fq_receive_spec by blast
next
  case (2 q p q' as)
  then show ?case using fq_receive_spec [OF 2(1,2)] by auto
next
  case (3 q p q' as)
  then obtain ds ks where s: "frees as = map snd ds" "sends as = []"
      "fq_packets (fq_arrived q p) = ks @ rev ds" "fq_held q' = mset (map snd ks) + cur_mset (fq_current q)"
    using fq_receive_spec [OF 3(1,2)] by (auto simp: fq_held_def split: if_splits list.splits)
  have "fq_held q' + mset (frees as) = mset (map snd ks) + mset (map snd ds) + cur_mset (fq_current q)"
    by (simp add: s(1,4) ac_simps)
  then show ?case using s(2) fq_arrived_split [OF s(3)] by (simp add: fq_held_def)
next
  case (4 q p q' as)
  then show ?case using fq_receive_spec [OF 4(1,2)] fq_held_empty [OF 4(1)]
    by (auto simp: fq_held_def split: if_splits list.splits)
next
  case (5 q p q' as)
  then show ?case using fq_receive_spec [OF 5(1,2)] fq_held_empty [OF 5(1)]
    by (auto simp: fq_held_def split: if_splits)
next
  case (6 q)
  then show ?case using fq_serve_spec fq_held_empty by fastforce
next
  case (7 q q' as)
  then show ?case using fq_serve_spec fq_held_empty by fastforce
next
  case (8 q q' as)
  then obtain p where p: "fq_current q = Some p" using fq_held_empty by fastforce
  then have "sends as = [applyEcnMark q p]" "frees as = []" "fq_held q = add_mset p (fq_held q')"
    using fq_serve_spec [OF 8(1) p] 8(3) by (auto simp: fq_held_def split: list.splits)
  then show ?case using applyEcnMark_cases by metis
next
  case (9 q q' as)
  then obtain p where p: "fq_current q = Some p" using fq_held_empty by fastforce
  then show ?case using fq_serve_spec [OF 9(1) p] 9(3) by (auto simp: fq_held_def split: list.splits)
next
  case (10 q)
  then show ?case
    by (cases "fq_current q")
      (auto simp: fq_inv_def fq_pre_def fq_held_def list_bytes_mset image_mset.compositionality comp_def)
next
  case (11 q p q' as)
  then show ?case using fq_receive_spec [OF 11(1,2)] by auto
next
  case (12 q q' as)
  then obtain p where p: "fq_current q = Some p" using fq_held_empty by fastforce
  then show ?case using fq_serve_spec [OF 12(1) p] 12(3) by auto
qed

end
