(* ===== verification/FairProps.thy ===== *)
theory FairProps
  imports FairQ "HOL-Library.Sublist"
begin

text \<open>
  The fairness of \<open>FairQueue\<close>: its round number, the virtual time of the emulated byte-by-byte
  round robin, never runs backwards, and the packets of one flow leave in the order in which they
  came. Both need that the finish rounds stay within 64 bits.
\<close>

section \<open>Finish rounds\<close>

definition same_flow :: "u64 \<times> packet \<Rightarrow> u64 \<times> packet \<Rightarrow> bool" where
  "same_flow a b \<longleftrightarrow> p_flow (snd a) = p_flow (snd b)"

text \<open>Of two packets of a flow, the later one finishes at least its own length later.\<close>

definition fq_after :: "u64 \<times> packet \<Rightarrow> u64 \<times> packet \<Rightarrow> bool" where
  "fq_after a b \<longleftrightarrow> (same_flow a b \<longrightarrow> unat (fst a) + unat (p_size (snd b)) \<le> unat (fst b))"

definition fq_fair :: "fair_queue \<Rightarrow> bool" where
  "fq_fair q \<longleftrightarrow> (\<forall>e \<in> set (fq_packets q). fq_roundNumber q \<le> fst e) \<and>
     sorted_wrt fq_after (fq_packets q) \<and>
     (\<forall>e \<in> set (fq_packets q). \<exists>R. fq_flowRound q (p_flow (snd e)) = Some R \<and> fst e \<le> R)"

text \<open>An arrival that leaves the rounds within 64 bits.\<close>

definition fq_room :: "fair_queue \<Rightarrow> packet \<Rightarrow> bool" where
  "fq_room q p \<longleftrightarrow> p_size p \<noteq> 0 \<and> unat (fq_roundNumber q) + unat (p_size p) < 18446744073709551616 \<and>
     unat (at0 (fq_flowRound q) (p_flow p)) + unat (p_size p) < 18446744073709551616"

text \<open>The packets of a flow, from the one on the wire to the last one in the buffer.\<close>

definition fq_flow :: "fair_queue \<Rightarrow> u32 \<Rightarrow> packet list" where
  "fq_flow q f = filter (\<lambda>p. p_flow p = f)
     ((case fq_current q of None \<Rightarrow> [] | Some p \<Rightarrow> [p]) @ map snd (fq_packets q))"

section \<open>Insertion\<close>

lemma ins_ub_filter_last:
  assumes "sorted (map key ys)" "\<And>a b. lt a b \<longleftrightarrow> key a < key b" "\<And>y. y \<in> set ys \<Longrightarrow> P y \<Longrightarrow> \<not> lt e y"
  shows "filter P (ins_ub lt e ys) = filter P ys @ (if P e then [e] else [])"
  using assms(1,3)
proof (induction ys)
  case (Cons y ys)
  show ?case
  proof (cases "lt e y")
    case True
    then have "lt e z" if "z \<in> set (y # ys)" for z
      using that Cons.prems(1) assms(2) by (auto intro: less_le_trans)
    then have "\<not> P z" if "z \<in> set (y # ys)" for z using that Cons.prems(2) by blast
    then have "filter P (y # ys) = []" by (simp add: filter_empty_conv)
    then show ?thesis using True by simp
  next
    case False
    then show ?thesis using Cons by simp
  qed
qed simp

lemma filter_ins_ub_neg: "\<not> P e \<Longrightarrow> filter P (ins_ub lt e ys) = filter P ys"
  by (induction ys) auto

lemma ins_ub_sorted_wrt:
  assumes "sorted (map key ys)" "\<And>a b. lt a b \<longleftrightarrow> key a < key b" "sorted_wrt R ys"
    "\<And>y. y \<in> set ys \<Longrightarrow> R y e" "\<And>y. y \<in> set ys \<Longrightarrow> lt e y \<Longrightarrow> R e y"
  shows "sorted_wrt R (ins_ub lt e ys)"
  using assms(1,3-5)
proof (induction ys)
  case (Cons y ys)
  show ?case
  proof (cases "lt e y")
    case True
    then have "lt e z" if "z \<in> set (y # ys)" for z
      using that Cons.prems(1) assms(2) by (auto intro: less_le_trans)
    then show ?thesis using True Cons.prems by auto
  next
    case False
    then show ?thesis using Cons by auto
  qed
qed simp

lemma fq_arrived_eq:
  "fq_packets (fq_arrived q p) = ins_ub compareFqPackets (at0 (fq_flowRound (fq_arrived q p)) (p_flow p), p) (fq_packets q)"
  "fq_roundNumber (fq_arrived q p) = fq_roundNumber q" "fq_current (fq_arrived q p) = fq_current q"
  "fq_flowRound (fq_arrived q p) = (fq_flowRound q)(p_flow p \<mapsto>
     (if at0 (fq_flowRound q) (p_flow p) > fq_roundNumber q \<and> fq_flowRound q (p_flow p) \<noteq> None
      then at0 (fq_flowRound q) (p_flow p) else fq_roundNumber q) + p_size p)"
  by (auto simp: fq_arrived_def fq_assignRound_def Let_def at0_def)

lemma fq_arrived_fair:
  assumes "fq_inv q" "fq_fair q" "fq_room q p"
  shows "fq_fair (fq_arrived q p)"
    "filter (\<lambda>x. p_flow x = f) (map snd (fq_packets (fq_arrived q p))) =
      filter (\<lambda>x. p_flow x = f) (map snd (fq_packets q)) @ (if p_flow p = f then [p] else [])"
proof -
  let ?r = "at0 (fq_flowRound (fq_arrived q p)) (p_flow p)"
  let ?e = "(?r, p)"
  have srt: "sorted (map fq_key (fq_packets q))" using assms(1) by (simp add: fq_inv_def fq_pre_def)
  have pos: "0 < unat (p_size p)" using assms(3) by (simp add: fq_room_def unat_gt_0)
  define b where "b = (if at0 (fq_flowRound q) (p_flow p) > fq_roundNumber q \<and> fq_flowRound q (p_flow p) \<noteq> None
      then at0 (fq_flowRound q) (p_flow p) else fq_roundNumber q)"
  have r: "?r = b + p_size p" by (simp add: fq_arrived_eq at0_def b_def)
  have "unat b + unat (p_size p) < 18446744073709551616"
    using assms(3) by (simp add: fq_room_def b_def)
  then have ur: "unat ?r = unat b + unat (p_size p)" unfolding r by (rule unat_add_64)
  have bn: "fq_roundNumber q \<le> b" by (auto simp: b_def)
  have old: "unat (fst y) + unat (p_size p) \<le> unat ?r" if y: "y \<in> set (fq_packets q)" "p_flow (snd y) = p_flow p" for y
  proof -
    obtain R where R: "fq_flowRound q (p_flow p) = Some R" "fst y \<le> R"
      using assms(2) y by (metis fq_fair_def)
    have "R \<le> b" using R(1) bn by (auto simp: b_def at0_def)
    then show ?thesis using R(2) ur by (simp add: word_le_nat_alt)
  qed
  have lt: "\<not> compareFqPackets ?e y" if "y \<in> set (fq_packets q)" "p_flow (snd y) = p_flow p" for y
    using old [OF that] pos by (auto simp: compareFqPackets_iff fq_key_def less_prod_def' word_less_nat_alt)
  have eq: "fq_packets (fq_arrived q p) = ins_ub compareFqPackets ?e (fq_packets q)" by (rule fq_arrived_eq(1))
  have st: "set (fq_packets (fq_arrived q p)) = insert ?e (set (fq_packets q))"
    unfolding eq by simp
  have "sorted_wrt fq_after (fq_packets (fq_arrived q p))"
    unfolding eq using assms(2) old lt
    by (intro ins_ub_sorted_wrt [OF srt compareFqPackets_iff])
      (auto simp: fq_fair_def fq_after_def same_flow_def)
  moreover have "fq_roundNumber q \<le> ?r" using bn ur by (simp add: word_le_nat_alt)
  moreover have "\<exists>R. fq_flowRound (fq_arrived q p) (p_flow (snd y)) = Some R \<and> fst y \<le> R"
    if "y \<in> set (fq_packets (fq_arrived q p))" for y
  proof (cases "p_flow (snd y) = p_flow p")
    case True
    have "fst y \<le> ?r" using that old [of y] True unfolding st by (auto simp: word_le_nat_alt)
    moreover have "fq_flowRound (fq_arrived q p) (p_flow p) = Some ?r" by (simp add: fq_arrived_eq(4) at0_def)
    ultimately show ?thesis using True by simp
  next
    case False
    then have "y \<in> set (fq_packets q)" using that st by auto
    then show ?thesis using False assms(2) unfolding fq_fair_def by (simp add: fq_arrived_eq(4))
  qed
  ultimately show "fq_fair (fq_arrived q p)"
    using assms(2) unfolding fq_fair_def st fq_arrived_eq(2) by auto
  show "filter (\<lambda>x. p_flow x = f) (map snd (fq_packets (fq_arrived q p))) =
      filter (\<lambda>x. p_flow x = f) (map snd (fq_packets q)) @ (if p_flow p = f then [p] else [])"
    unfolding eq filter_map
  proof (cases "p_flow p = f")
    case True
    then show "map snd (filter ((\<lambda>x. p_flow x = f) \<circ> snd) (ins_ub compareFqPackets ?e (fq_packets q))) =
        map snd (filter ((\<lambda>x. p_flow x = f) \<circ> snd) (fq_packets q)) @ (if p_flow p = f then [p] else [])"
      using lt by (subst ins_ub_filter_last [OF srt compareFqPackets_iff]) auto
  next
    case False
    then show "map snd (filter ((\<lambda>x. p_flow x = f) \<circ> snd) (ins_ub compareFqPackets ?e (fq_packets q))) =
        map snd (filter ((\<lambda>x. p_flow x = f) \<circ> snd) (fq_packets q)) @ (if p_flow p = f then [p] else [])"
      by (simp add: filter_ins_ub_neg)
  qed
qed

section \<open>Drops and service\<close>

lemma fq_fair_subset:
  assumes "fq_fair q" "fq_packets q = ks @ rs" "fq_packets q' = ks" "fq_roundNumber q' = fq_roundNumber q"
    "fq_flowRound q' = fq_flowRound q"
  shows "fq_fair q'"
  using assms by (auto simp: fq_fair_def sorted_wrt_append)

lemma fq_forget_fair:
  assumes "fq_fair q" "fq_packets q = ks @ [e]" "fq_nPackets q = counts_of M" "size M < 4294967296"
    "mset (map snd (fq_packets q)) \<subseteq># M"
  shows "fq_fair (fq_forget (q\<lparr>fq_packets := ks, q_queuesize := n\<rparr>) (snd e))"
proof -
  let ?p = "snd e" and ?q = "fq_forget (q\<lparr>fq_packets := ks, q_queuesize := n\<rparr>) (snd e)"
  have fld: "fq_packets ?q = ks" "fq_roundNumber ?q = fq_roundNumber q" by (simp_all add: fq_forget_def Let_def)
  have other: "fq_flowRound ?q f = fq_flowRound q f" if "f \<noteq> p_flow ?p" for f
    using that by (simp add: fq_forget_def Let_def)
  have last: "same_flow y e \<Longrightarrow> unat (fst y) + unat (p_size ?p) \<le> unat (fst e)" if "y \<in> set ks" for y
    using assms(1,2) that by (auto simp: fq_fair_def sorted_wrt_append fq_after_def)
  obtain R where R: "fq_flowRound q (p_flow ?p) = Some R" "fst e \<le> R"
    using assms(1,2) by (auto simp: fq_fair_def)
  have "\<exists>S. fq_flowRound ?q (p_flow (snd y)) = Some S \<and> fst y \<le> S" if "y \<in> set ks" for y
  proof (cases "p_flow (snd y) = p_flow ?p")
    case False
    then show ?thesis using assms(1,2) that other by (auto simp: fq_fair_def)
  next
    case True
    have "add_mset ?p (add_mset (snd y) {#}) \<subseteq># mset (map snd (fq_packets q))"
      using that unfolding assms(2) by simp
    then have "add_mset ?p (add_mset (snd y) {#}) \<subseteq># M" using assms(5) by (rule subset_mset.order_trans)
    then have "flow_size (p_flow ?p) (add_mset ?p (add_mset (snd y) {#})) \<le> flow_size (p_flow ?p) M"
      unfolding flow_size_def by (intro size_mset_mono multiset_filter_mono)
    then have two: "2 \<le> flow_size (p_flow ?p) M" using True by (simp add: flow_size_add flow_size_def)
    have "flow_size (p_flow ?p) M < 4294967296" using assms(4) flow_size_le [of "p_flow ?p" M] by simp
    then have "unat (of_nat (flow_size (p_flow ?p) M) :: u32) = flow_size (p_flow ?p) M"
      by (simp only: unat_of_nat) simp
    then have "at0 (fq_nPackets q) (p_flow ?p) \<noteq> 1" using two assms(3) by (auto simp: at0_counts)
    then have fr: "fq_flowRound ?q (p_flow (snd y)) = Some (R - p_size ?p)"
      using True R(1) by (simp add: fq_forget_def Let_def at0_def)
    have l: "unat (fst y) + unat (p_size ?p) \<le> unat (fst e)"
      using last [OF that] True by (simp add: same_flow_def)
    then have "unat (p_size ?p) \<le> unat R" "unat (fst y) + unat (p_size ?p) \<le> unat R"
      using R(2) by (simp_all add: word_le_nat_alt)
    then have "fst y \<le> R - p_size ?p" by (simp add: word_le_nat_alt unat_sub_nowrap)
    then show ?thesis using fr by simp
  qed
  then show ?thesis using assms(1,2) fld by (auto simp: fq_fair_def sorted_wrt_append)
qed

lemma fq_dropLoop_fair:
  assumes "fq_pre q" "fq_fair q" "fq_dropLoop q = Some (q', as)"
  shows "fq_fair q' \<and> fq_roundNumber q' = fq_roundNumber q"
  using assms
proof (induction q arbitrary: q' as rule: fq_dropLoop.induct)
  case (1 q)
  show ?case
  proof (cases "q_queuesize q > q_maxsize q")
    case False
    then show ?thesis using 1(3,4) by (subst (asm) fq_dropLoop.simps) simp
  next
    case True
    obtain q1 bs where d1: "fq_dropLoop q = Some (q1, bs)" using 1(4) by blast
    have ne: "fq_packets q \<noteq> []" using True d1 by (subst (asm) fq_dropLoop.simps) (simp split: if_splits)
    let ?p = "snd (last (fq_packets q))"
    let ?q1 = "q\<lparr>fq_packets := butlast (fq_packets q)\<rparr>"
    let ?q2 = "?q1\<lparr>q_queuesize := q_queuesize ?q1 - p_size ?p\<rparr>"
    let ?q3 = "fq_forget ?q2 ?p"
    obtain as' where d3: "fq_dropLoop ?q3 = Some (q', as')"
      using 1(4) True ne by (subst (asm) fq_dropLoop.simps) (auto simp: Let_def)
    have f3: "fq_fair ?q3"
      using fq_forget_fair [of q "butlast (fq_packets q)" "last (fq_packets q)" "fq_held q"] 1(2,3) ne
      by (simp add: fq_pre_def fq_held_def)
    have p3: "fq_pre ?q3" using fq_drop_pre [OF 1(2) True ne] by simp
    have "fq_roundNumber ?q3 = fq_roundNumber q" by (simp add: fq_forget_def Let_def)
    then show ?thesis using 1(1) [OF True ne refl refl refl refl p3 f3 d3] by simp
  qed
qed

lemma fq_begin_fair:
  assumes "fq_fair q" "sorted (map fq_key (fq_packets q))"
  shows "fq_fair (fst (fq_beginService q)) \<and> fq_roundNumber q \<le> fq_roundNumber (fst (fq_beginService q))"
proof (cases "fq_packets q")
  case Nil
  then show ?thesis using assms by (simp add: fq_beginService_def)
next
  case (Cons e es)
  have "fst e \<le> fst y" if "y \<in> set es" for y
    using assms(2) that Cons by (auto simp: fq_key_def less_eq_prod_def)
  then show ?thesis using assms(1) Cons
    by (cases e) (auto simp: fq_beginService_def fq_fair_def)
qed

lemma fq_uncount_fair:
  assumes "fq_fair q" "fq_nPackets q = counts_of (add_mset p M)" "size (add_mset p M) < 4294967296"
    "mset (map snd (fq_packets q)) = M"
  shows "fq_fair (fq_uncount q (p_flow p))"
proof -
  have "p_flow (snd e) \<noteq> p_flow p" if one: "at0 (fq_nPackets q) (p_flow p) = 1" and e: "e \<in> set (fq_packets q)" for e
  proof -
    have n: "flow_size (p_flow p) M < 4294967295" using assms(3) flow_size_le [of "p_flow p" M] by simp
    then have "unat (of_nat (Suc (flow_size (p_flow p) M)) :: u32) = Suc (flow_size (p_flow p) M)"
      by (simp only: unat_of_nat) simp
    then have "flow_size (p_flow p) M = 0"
      using one assms(2) by (simp add: at0_counts flow_size_add del: unat_of_nat)
    moreover have "snd e \<in># M" using e by (simp flip: assms(4))
    ultimately show ?thesis by (auto simp: flow_size_def)
  qed
  then show ?thesis using assms(1) by (auto simp: fq_uncount_def fq_fair_def)
qed

section \<open>The two operations\<close>

lemma fq_receive_fair:
  assumes "fq_inv q" "fq_ok q p" "fq_fair q" "fq_room q p"
  shows "\<exists>q' as. fq_receivePacket q p = Some (q', as) \<and> fq_inv q' \<and> fq_fair q' \<and>
    fq_roundNumber q \<le> fq_roundNumber q' \<and>
    (\<forall>f. fq_flow q' f @ filter (\<lambda>x. p_flow x = f) (rev (frees as)) =
       fq_flow q f @ (if p_flow p = f then [p] else []))"
proof -
  obtain q1 bs ds where d: "fq_dropLoop (fq_arrived q p) = Some (q1, bs)" "fq_pre q1"
      "fq_packets (fq_arrived q p) = fq_packets q1 @ rev ds" "frees bs = map snd ds"
      "fq_current q1 = fq_current q"
    using fq_dropLoop_spec [OF fq_arrived_pre [OF assms(1,2)]] by (auto simp: fq_arrived_eq(3))
  have f1: "fq_fair q1" "fq_roundNumber q1 = fq_roundNumber q"
    using fq_dropLoop_fair [OF fq_arrived_pre [OF assms(1,2)] fq_arrived_fair(1) d(1)] assms
    by (simp_all add: fq_arrived_eq(2))
  have sp: "filter (\<lambda>x. p_flow x = f) (map snd (fq_packets q1)) @ filter (\<lambda>x. p_flow x = f) (rev (map snd ds)) =
      filter (\<lambda>x. p_flow x = f) (map snd (fq_packets q)) @ (if p_flow p = f then [p] else [])" for f
    using fq_arrived_fair(2) [OF assms(1,3,4), of f] unfolding d(3) by (simp add: rev_map)
  define b where "b = (if fq_current q = None then fq_beginService q1 else (q1, []))"
  have emp: "fq_current q = None \<Longrightarrow> fq_packets q = []" using assms(1) by (simp add: fq_inv_def)
  have r: "fq_receivePacket q p = Some (fst b, (Traffic PKT_ARRIVE p # qlog (fq_arrived q p) Q_ENQUEUE p) @ bs @ snd b)"
    using d(1) emp by (auto simp: fq_receivePacket_def Let_def b_def split: prod.split)
  have srt: "sorted (map fq_key (fq_packets q1))" using d(2) by (simp add: fq_pre_def)
  have "fq_fair (fst b) \<and> fq_roundNumber q \<le> fq_roundNumber (fst b)"
    using fq_begin_fair [OF f1(1) srt] f1 by (simp add: b_def)
  moreover have "frees (snd b) = []" "fq_flow (fst b) f = fq_flow q1 f" for f
    using d(5) by (auto simp: b_def fq_beginService_def fq_flow_def split: list.splits option.splits)
  moreover have "fq_flow q1 f @ filter (\<lambda>x. p_flow x = f) (rev (map snd ds)) =
      fq_flow q f @ (if p_flow p = f then [p] else [])" for f
    using sp [of f] d(5) by (simp add: fq_flow_def)
  moreover have "fq_inv (fst b)" using fq_receive_spec [OF assms(1,2)] r by auto
  ultimately show ?thesis using r d(4) by simp
qed

lemma fq_serve_fair:
  assumes "fq_inv q" "fq_current q = Some p" "fq_fair q"
  shows "\<exists>q' as. fq_doNextEvent q = Some (q', as) \<and> fq_inv q' \<and> fq_fair q' \<and>
    fq_roundNumber q \<le> fq_roundNumber q' \<and> sends as = [applyEcnMark q p] \<and>
    (\<forall>f. fq_flow q f = (if p_flow p = f then [p] else []) @ fq_flow q' f)"
proof -
  let ?q2 = "(fq_uncount q (p_flow p))\<lparr>q_queuesize := q_queuesize (fq_uncount q (p_flow p)) - p_size p, fq_current := None\<rparr>"
  let ?b = "fq_beginService ?q2"
  obtain as where s: "fq_doNextEvent q = Some (fst ?b, as)" "fq_inv (fst ?b)" "sends as = [applyEcnMark q p]"
    using fq_serve_spec [OF assms(1,2)] fq_serve_eq [OF assms(2)] by (auto simp: Let_def)
  have pre: "fq_nPackets q = counts_of (add_mset p (mset (map snd (fq_packets q))))"
    "size (add_mset p (mset (map snd (fq_packets q)))) < 4294967296" "sorted (map fq_key (fq_packets q))"
    using assms(1,2) by (simp_all add: fq_inv_def fq_pre_def fq_held_def)
  have "fq_fair (fq_uncount q (p_flow p))" by (rule fq_uncount_fair [OF assms(3) pre(1,2) refl])
  then have "fq_fair ?q2" by (simp add: fq_fair_def)
  then have "fq_fair (fst ?b) \<and> fq_roundNumber ?q2 \<le> fq_roundNumber (fst ?b)"
    using pre(3) by (intro fq_begin_fair) simp_all
  moreover have "fq_flow q f = (if p_flow p = f then [p] else []) @ fq_flow (fst ?b) f" for f
    using assms(2) by (auto simp: fq_flow_def fq_beginService_def split: list.splits)
  ultimately show ?thesis using s by auto
qed

section \<open>Runs\<close>

text \<open>A run from \<open>q0\<close>: the packets that arrived, in order, and the packets sent, in order.\<close>

inductive fq_run :: "fair_queue \<Rightarrow> packet list \<Rightarrow> packet list \<Rightarrow> fair_queue \<Rightarrow> bool" for q0 where
  start: "fq_run q0 [] [] q0"
| arrive: "fq_run q0 ins outs q \<Longrightarrow> fq_ok q p \<Longrightarrow> fq_room q p \<Longrightarrow> fq_receivePacket q p = Some (q', as) \<Longrightarrow>
    fq_run q0 (ins @ [p]) outs q'"
| serve: "fq_run q0 ins outs q \<Longrightarrow> fq_current q \<noteq> None \<Longrightarrow> fq_doNextEvent q = Some (q', as) \<Longrightarrow>
    fq_run q0 ins (outs @ sends as) q'"

abbreviation of_flow :: "u32 \<Rightarrow> packet list \<Rightarrow> packet list" where
  "of_flow f \<equiv> filter (\<lambda>p. p_flow p = f)"

definition fq_order :: "packet list \<Rightarrow> packet list \<Rightarrow> fair_queue \<Rightarrow> bool" where
  "fq_order ins outs q \<longleftrightarrow> (\<forall>f. subseq (map marked (of_flow f outs @ fq_flow q f)) (map marked (of_flow f ins)))"

lemma fq_run_fair:
  assumes "fq_run q0 ins outs q" "fq_inv q0" "fq_held q0 = {#}"
  shows "fq_inv q \<and> fq_fair q \<and> fq_roundNumber q0 \<le> fq_roundNumber q \<and> fq_order ins outs q"
  using assms
proof (induction rule: fq_run.induct)
  case start
  then have "fq_packets q0 = []" "fq_current q0 = None" by (auto simp: fq_held_def)
  then show ?case using start by (simp add: fq_fair_def fq_order_def fq_flow_def)
next
  case (arrive ins outs q p q' as)
  then have I: "fq_inv q" "fq_fair q" "fq_roundNumber q0 \<le> fq_roundNumber q" "fq_order ins outs q" by auto
  have r: "fq_inv q'" "fq_fair q'" "fq_roundNumber q \<le> fq_roundNumber q'"
    and fl: "fq_flow q' f @ of_flow f (rev (frees as)) = fq_flow q f @ (if p_flow p = f then [p] else [])" for f
    using fq_receive_fair [OF I(1) arrive.hyps(2) I(2) arrive.hyps(3)] arrive.hyps(4) by auto
  have "subseq (map marked (of_flow f outs @ fq_flow q' f)) (map marked (of_flow f (ins @ [p])))" for f
  proof -
    let ?tl = "if p_flow p = f then [p] else []"
    have "subseq (map marked (of_flow f outs @ fq_flow q' f))
        (map marked (of_flow f outs @ fq_flow q' f) @ map marked (of_flow f (rev (frees as))))"
      by (rule prefix_imp_subseq) simp
    also have "\<dots> = map marked (of_flow f outs @ fq_flow q f) @ map marked ?tl"
      using fl [of f] by (simp flip: map_append)
    also have "subseq \<dots> (map marked (of_flow f ins) @ map marked ?tl)"
      using I(4) by (intro list_emb_append_mono) (simp_all add: fq_order_def)
    finally show ?thesis by (simp split: if_splits)
  qed
  then show ?case using r I(3) by (auto simp: fq_order_def)
next
  case (serve ins outs q q' as)
  then have I: "fq_inv q" "fq_fair q" "fq_roundNumber q0 \<le> fq_roundNumber q" "fq_order ins outs q" by auto
  obtain p where p: "fq_current q = Some p" using serve.hyps(2) by blast
  have r: "fq_inv q'" "fq_fair q'" "fq_roundNumber q \<le> fq_roundNumber q'" "sends as = [applyEcnMark q p]"
    and fl: "fq_flow q f = (if p_flow p = f then [p] else []) @ fq_flow q' f" for f
    using fq_serve_fair [OF I(1) p I(2)] serve.hyps(3) by auto
  have fp: "p_flow (applyEcnMark q p) = p_flow p" "marked (applyEcnMark q p) = marked p"
    using applyEcnMark_cases [of q p] by (auto simp: setFlag_idem)
  have "map marked (of_flow f (outs @ sends as) @ fq_flow q' f) = map marked (of_flow f outs @ fq_flow q f)" for f
    unfolding fl [of f] using r(4) fp by simp
  then show ?case using r(1-3) I(3,4) by (simp add: fq_order_def)
qed

section \<open>Properties\<close>

definition ex_fq :: fair_queue where
  "ex_fq = the (mkFairQueue None 10000000000 2000 False)"

lemma ex_fq_eq: "mkFairQueue None 10000000000 2000 False = Some ex_fq"
  by (simp add: ex_fq_def mkFairQueue_def mkQueue_def)

lemma ex_fq_ok: "fq_ok ex_fq ex_full" "fq_room ex_fq ex_full"
  by (simp_all add: fq_ok_def fq_room_def fits_def fq_held_def ex_fq_def mkFairQueue_def mkQueue_def queue.defs
      ex_full_def at0_def)

text \<open>
  C12: fair queueing keeps its promises. Over any run of \<open>FairQueue\<close> from an empty queue, as long as
  the finish rounds fit 64 bits: the round number (the virtual time) never decreases, every packet
  in the buffer finishes at or after it, and within each flow the packets sent, followed by those
  still held, are a subsequence of those that arrived: a flow's packets are never reordered.
\<close>

theorem fq_virtual_time:
  assumes "fq_run q0 ins outs q" "fq_inv q0" "fq_held q0 = {#}"
  shows "fq_roundNumber q0 \<le> fq_roundNumber q \<and>
    (\<forall>e \<in> set (fq_packets q). fq_roundNumber q \<le> fst e) \<and>
    (\<forall>f. subseq (map marked (of_flow f outs @ fq_flow q f)) (map marked (of_flow f ins)))"
  using fq_run_fair [OF assms] by (auto simp: fq_fair_def fq_order_def)

lemma fq_virtual_time_witness:
  "\<exists>q outs. fq_run ex_fq [ex_full] outs q \<and> length outs = 1 \<and>
    (\<forall>e \<in> set (fq_packets q). fq_roundNumber q \<le> fst e)"
proof -
  note i = mkFairQueue_inv [OF ex_fq_eq]
  have f: "fq_current ex_fq = None" "fq_packets ex_fq = []" "q_maxsize ex_fq = 2000" "q_queuesize ex_fq = 0"
    by (simp_all add: ex_fq_def mkFairQueue_def mkQueue_def queue.defs)
  have nd: "fq_dropLoop (fq_arrived ex_fq ex_full) = Some (fq_arrived ex_fq ex_full, [])"
    by (subst fq_dropLoop.simps) (simp add: fq_arrived_def fq_assignRound_def Let_def f ex_full_def)
  obtain q as where q: "fq_receivePacket ex_fq ex_full = Some (q, as)" "fq_current q = Some ex_full" "fq_inv q"
    using fq_receive_spec [OF _ ex_fq_ok(1)] i f
    by (fastforce simp: fq_receivePacket_def Let_def nd fq_beginService_def fq_arrived_eq)
  obtain q' bs where s: "fq_doNextEvent q = Some (q', bs)" "length (sends bs) = 1"
    using fq_serve_spec [OF q(3,2)] by auto
  have "fq_run ex_fq [ex_full] [] q" using fq_run.arrive [OF fq_run.start ex_fq_ok q(1)] by simp
  then have r: "fq_run ex_fq [ex_full] (sends bs) q'" using fq_run.serve [of ex_fq _ "[]" q q' bs] q(2) s(1) by simp
  show ?thesis using r fq_virtual_time [OF r] i s(2) by blast
qed

end
