(* ===== verification/Logfile.thy ===== *)
theory Logfile
  imports Htsim
begin

text \<open>
  \<open>logfile.h\<close> and \<open>logfile.cpp\<close>: the log of a simulation. Records are collected in an array and
  written to the trace file when it is full; the destructor writes the rest and, over the first four
  bytes of the file, the number of records. Files are their contents, a line of the text file is the
  list of the arguments of its \<open>fprintf\<close>. An access outside the array is \<open>None\<close>.
\<close>

section \<open>State\<close>

definition MAX_RECORDS :: nat where "MAX_RECORDS = 100000"

record log_record =
  lr_time :: rat
  lr_type :: u32
  lr_id :: u32
  lr_ev :: u32
  lr_val1 :: rat
  lr_val2 :: rat
  lr_val3 :: rat

datatype txt_entry =
    TxtRecord rat string string string "(string \<times> rat) list"
  | Txt string

record logfile =
  lf_trace_head :: u32
  lf_trace_body :: "log_record list"
  lf_id_file :: string
  lf_txt_file :: "txt_entry list"
  lf_start :: u64
  lf_end :: u64
  lf_records :: "log_record list"
  lf_nRecords :: u32
  lf_nTotalRecords :: u32
  lf_evTypeMap :: "u32 \<rightharpoonup> string"
  lf_idNameMap :: "u32 \<rightharpoonup> string"

text \<open>The contents of the array \<open>malloc\<close> returns are an argument.\<close>

definition ex_record :: log_record where
  "ex_record = \<lparr>lr_time = 0, lr_type = 0, lr_id = 0, lr_ev = 0, lr_val1 = 0, lr_val2 = 0, lr_val3 = 0\<rparr>"

definition mkLogfile :: "u64 \<Rightarrow> u64 \<Rightarrow> log_record list \<Rightarrow> logfile" where
  "mkLogfile t0 t1 array =
     \<lparr>lf_trace_head = 0, lf_trace_body = [], lf_id_file = [], lf_txt_file = [], lf_start = t0,
      lf_end = t1, lf_records = array, lf_nRecords = 0, lf_nTotalRecords = 0,
      lf_evTypeMap = [0 \<mapsto> ''QUEUE_EVENT'', 1 \<mapsto> ''TCP_EVENT'', 2 \<mapsto> ''TCP_STATE'', 3 \<mapsto> ''TRAFFIC_EVENT'',
        4 \<mapsto> ''QUEUE_RECORD'', 5 \<mapsto> ''QUEUE_APPROX'', 6 \<mapsto> ''TCP_RECORD'', 11 \<mapsto> ''TCP_SINK''],
      lf_idNameMap = Map.empty\<rparr>"

section \<open>Operations\<close>

definition writeRecord ::
  "u64 \<Rightarrow> u32 \<Rightarrow> u32 \<Rightarrow> u32 \<Rightarrow> rat \<Rightarrow> rat \<Rightarrow> rat \<Rightarrow> logfile \<Rightarrow> logfile option" where
  "writeRecord now ty i ev val1 val2 val3 lf =
     (if now < lf_start lf \<or> now > lf_end lf then Some lf
      else let k = unat (lf_nRecords lf)
           in if k \<ge> length (lf_records lf) then None
              else let lf = lf\<lparr>lf_records := (lf_records lf)[k :=
                         \<lparr>lr_time = timeAsSec now, lr_type = ty, lr_id = i, lr_ev = ev,
                          lr_val1 = val1, lr_val2 = val2, lr_val3 = val3\<rparr>]\<rparr>;
                       lf = lf\<lparr>lf_nRecords := lf_nRecords lf + 1\<rparr>;
                       lf = lf\<lparr>lf_nTotalRecords := lf_nTotalRecords lf + 1\<rparr>
                   in if lf_nRecords lf = of_nat MAX_RECORDS
                      then let lf = lf\<lparr>lf_trace_body := lf_trace_body lf @ take MAX_RECORDS (lf_records lf)\<rparr>
                           in Some (lf\<lparr>lf_nRecords := 0\<rparr>)
                      else Some lf)"

text \<open>\<open>operator[]\<close> of \<open>std::unordered_map\<close> adds a missing key.\<close>

definition map_index :: "u32 \<Rightarrow> (u32 \<rightharpoonup> string) \<Rightarrow> string \<times> (u32 \<rightharpoonup> string)" where
  "map_index k m = (case m k of None \<Rightarrow> ([], m(k \<mapsto> [])) | Some v \<Rightarrow> (v, m))"

definition writeRecordWithTxt ::
  "u64 \<Rightarrow> u32 \<Rightarrow> u32 \<Rightarrow> string \<Rightarrow> u32 \<Rightarrow> string \<Rightarrow> rat \<Rightarrow> string \<Rightarrow> rat \<Rightarrow> string \<Rightarrow> rat \<Rightarrow>
     logfile \<Rightarrow> logfile option" where
  "writeRecordWithTxt now ty i evstr ev val1str val1 val2str val2 val3str val3 lf =
     (let (tyname, em) = map_index ty (lf_evTypeMap lf);
          lf = lf\<lparr>lf_evTypeMap := em\<rparr>;
          (iname, im) = map_index i (lf_idNameMap lf);
          lf = lf\<lparr>lf_idNameMap := im\<rparr>;
          lf = lf\<lparr>lf_txt_file := lf_txt_file lf @
            [TxtRecord (timeAsSec now) tyname iname evstr [(val1str, val1), (val2str, val2), (val3str, val3)]]\<rparr>
      in writeRecord now ty i ev val1 val2 val3 lf)"

definition writeTxt :: "string \<Rightarrow> logfile \<Rightarrow> logfile" where
  "writeTxt txt lf = lf\<lparr>lf_txt_file := lf_txt_file lf @ [Txt txt]\<rparr>"

text \<open>\<open>to_string\<close> of an unsigned number, and the file of names.\<close>

fun to_string :: "nat \<Rightarrow> string" where
  "to_string n =
     (if n < 10 then [char_of (48 + n)] else to_string (n div 10) @ [char_of (48 + n mod 10)])"

declare to_string.simps [simp del]

definition write_id :: "string \<Rightarrow> logfile \<Rightarrow> logfile" where
  "write_id msg lf = lf\<lparr>lf_id_file := lf_id_file lf @ msg\<rparr>"

definition writeName :: "u32 \<Rightarrow> string \<Rightarrow> logfile \<Rightarrow> logfile" where
  "writeName i name lf =
     (let lf = write_id (name @ ''='' @ to_string (unat i) @ [char_of (10 :: nat)]) lf
      in lf\<lparr>lf_idNameMap := (lf_idNameMap lf)(i \<mapsto> name)\<rparr>)"

text \<open>The destructor, up to the closing of the files: the contents of the trace file.\<close>

definition closeLogfile :: "logfile \<Rightarrow> u32 \<times> log_record list" where
  "closeLogfile lf =
     (let lf = lf\<lparr>lf_trace_body := lf_trace_body lf @ take (unat (lf_nRecords lf)) (lf_records lf)\<rparr>;
          lf = lf\<lparr>lf_trace_head := lf_nTotalRecords lf\<rparr>
      in (lf_trace_head lf, lf_trace_body lf))"

section \<open>The log as a sequence of calls\<close>

datatype log_call =
    WriteRecord u32 u32 u32 rat rat rat
  | WriteRecordWithTxt u32 u32 string u32 string rat string rat string rat
  | WriteName u32 string
  | WriteTxt string

fun do_call :: "u64 \<Rightarrow> log_call \<Rightarrow> logfile \<Rightarrow> logfile option" where
  "do_call now (WriteRecord ty i ev v1 v2 v3) lf = writeRecord now ty i ev v1 v2 v3 lf"
| "do_call now (WriteRecordWithTxt ty i evstr ev s1 v1 s2 v2 s3 v3) lf =
     writeRecordWithTxt now ty i evstr ev s1 v1 s2 v2 s3 v3 lf"
| "do_call now (WriteName i name) lf = Some (writeName i name lf)"
| "do_call now (WriteTxt txt) lf = Some (writeTxt txt lf)"

fun do_calls :: "(u64 \<times> log_call) list \<Rightarrow> logfile \<Rightarrow> logfile option" where
  "do_calls [] lf = Some lf"
| "do_calls ((now, c) # cs) lf = do { lf \<leftarrow> do_call now c lf; do_calls cs lf }"

text \<open>The record a call asks for.\<close>

fun call_record :: "u64 \<times> log_call \<Rightarrow> log_record list" where
  "call_record (now, WriteRecord ty i ev v1 v2 v3) =
     [\<lparr>lr_time = timeAsSec now, lr_type = ty, lr_id = i, lr_ev = ev, lr_val1 = v1, lr_val2 = v2, lr_val3 = v3\<rparr>]"
| "call_record (now, WriteRecordWithTxt ty i evstr ev s1 v1 s2 v2 s3 v3) =
     [\<lparr>lr_time = timeAsSec now, lr_type = ty, lr_id = i, lr_ev = ev, lr_val1 = v1, lr_val2 = v2, lr_val3 = v3\<rparr>]"
| "call_record (now, _) = []"

text \<open>The records of the calls between the start and the end, in order.\<close>

definition kept_records :: "u64 \<Rightarrow> u64 \<Rightarrow> (u64 \<times> log_call) list \<Rightarrow> log_record list" where
  "kept_records t0 t1 cs = concat (map call_record (filter (\<lambda>(now, _). t0 \<le> now \<and> now \<le> t1) cs))"

definition trace_of :: "logfile \<Rightarrow> log_record list" where
  "trace_of lf = lf_trace_body lf @ take (unat (lf_nRecords lf)) (lf_records lf)"

definition log_inv :: "logfile \<Rightarrow> bool" where
  "log_inv lf \<longleftrightarrow> length (lf_records lf) = MAX_RECORDS \<and> unat (lf_nRecords lf) < MAX_RECORDS \<and>
     lf_nTotalRecords lf = of_nat (length (trace_of lf))"

lemma writeRecord_step:
  assumes "log_inv lf"
  shows "\<exists>lf'. writeRecord now ty i ev v1 v2 v3 lf = Some lf' \<and> log_inv lf' \<and>
    lf_start lf' = lf_start lf \<and> lf_end lf' = lf_end lf \<and>
    trace_of lf' = trace_of lf @ kept_records (lf_start lf) (lf_end lf) [(now, WriteRecord ty i ev v1 v2 v3)]"
proof (cases "now < lf_start lf \<or> now > lf_end lf")
  case True
  then show ?thesis using assms by (auto simp: writeRecord_def kept_records_def)
next
  case False
  define r where "r = \<lparr>lr_time = timeAsSec now, lr_type = ty, lr_id = i, lr_ev = ev, lr_val1 = v1, lr_val2 = v2, lr_val3 = v3\<rparr>"
  define k where "k = unat (lf_nRecords lf)"
  define xs where "xs = lf_records lf"
  have k: "k < MAX_RECORDS" "length xs = MAX_RECORDS" using assms by (simp_all add: log_inv_def k_def xs_def)
  have k1: "unat (lf_nRecords lf + 1) = k + 1"
    using k(1) by (simp add: unat_word_ariths k_def MAX_RECORDS_def)
  have t: "take (Suc k) (xs[k := r]) = take k xs @ [r]"
    using k by (simp add: take_Suc_conv_app_nth)
  have kept: "kept_records (lf_start lf) (lf_end lf) [(now, WriteRecord ty i ev v1 v2 v3)] = [r]"
    using False by (auto simp: kept_records_def r_def not_less)
  have n: "lf_nTotalRecords lf = of_nat (length (trace_of lf))" using assms by (simp add: log_inv_def)
  have full: "lf_nRecords lf + 1 = of_nat MAX_RECORDS \<longleftrightarrow> k + 1 = MAX_RECORDS"
    using k1 by (simp add: word_unat_eq_iff MAX_RECORDS_def)
  define m where "m = lf\<lparr>lf_records := xs[k := r], lf_nRecords := lf_nRecords lf + 1, lf_nTotalRecords := lf_nTotalRecords lf + 1\<rparr>"
  have e: "writeRecord now ty i ev v1 v2 v3 lf =
      (if k + 1 = MAX_RECORDS
       then Some (m\<lparr>lf_trace_body := lf_trace_body m @ take MAX_RECORDS (lf_records m), lf_nRecords := 0\<rparr>)
       else Some m)"
    using False k full by (simp add: writeRecord_def Let_def m_def r_def flip: k_def xs_def)
  have tr: "trace_of m = trace_of lf @ [r]"
    using t k1 by (simp add: trace_of_def m_def flip: k_def xs_def)
  have inv: "lf_nTotalRecords m = of_nat (length (trace_of m))" "length (lf_records m) = MAX_RECORDS"
    "unat (lf_nRecords m) = k + 1" "lf_start m = lf_start lf" "lf_end m = lf_end lf"
    using n tr k k1 by (simp_all add: m_def)
  show ?thesis
  proof (cases "k + 1 = MAX_RECORDS")
    case True
    let ?z = "m\<lparr>lf_trace_body := lf_trace_body m @ take MAX_RECORDS (lf_records m), lf_nRecords := 0\<rparr>"
    have "trace_of ?z = trace_of m" using inv(2,3) True by (simp add: trace_of_def)
    then have "log_inv ?z" "trace_of ?z = trace_of lf @ [r]"
      using inv tr by (simp_all add: log_inv_def MAX_RECORDS_def)
    then show ?thesis using e True kept inv(4,5) by simp
  next
    case False
    then have "log_inv m" using inv k(1) by (simp add: log_inv_def)
    then show ?thesis using e False kept inv(4,5) tr by simp
  qed
qed

lemma log_inv_cong:
  assumes "lf_records lf' = lf_records lf" "lf_nRecords lf' = lf_nRecords lf"
    and "lf_nTotalRecords lf' = lf_nTotalRecords lf" "lf_trace_body lf' = lf_trace_body lf"
  shows "log_inv lf' = log_inv lf" "trace_of lf' = trace_of lf"
  using assms by (simp_all add: log_inv_def trace_of_def)

lemma kept_records_Cons:
  "kept_records t0 t1 (c # cs) = kept_records t0 t1 [c] @ kept_records t0 t1 cs"
  by (simp add: kept_records_def)

text \<open>Every call appends the record it asks for and stays inside the array.\<close>

lemma do_call_step:
  assumes "log_inv lf"
  shows "\<exists>lf'. do_call now c lf = Some lf' \<and> log_inv lf' \<and>
    lf_start lf' = lf_start lf \<and> lf_end lf' = lf_end lf \<and>
    trace_of lf' = trace_of lf @ kept_records (lf_start lf) (lf_end lf) [(now, c)]"
proof (cases c)
  case (WriteRecord ty i ev v1 v2 v3)
  then show ?thesis using writeRecord_step [OF assms] by simp
next
  case (WriteRecordWithTxt ty i evstr ev s1 v1 s2 v2 s3 v3)
  obtain tyname em iname im where m: "map_index ty (lf_evTypeMap lf) = (tyname, em)"
      "map_index i (lf_idNameMap lf) = (iname, im)" by fastforce
  define u where "u = lf\<lparr>lf_evTypeMap := em, lf_idNameMap := im, lf_txt_file := lf_txt_file lf @
    [TxtRecord (timeAsSec now) tyname iname evstr [(s1, v1), (s2, v2), (s3, v3)]]\<rparr>"
  have u: "log_inv u" "trace_of u = trace_of lf" "lf_start u = lf_start lf" "lf_end u = lf_end lf"
    using assms log_inv_cong [of u lf] by (simp_all add: u_def)
  have "do_call now c lf = writeRecord now ty i ev v1 v2 v3 u"
    using WriteRecordWithTxt m by (simp add: writeRecordWithTxt_def Let_def u_def)
  moreover have "kept_records t0 t1 [(now, c)] = kept_records t0 t1 [(now, WriteRecord ty i ev v1 v2 v3)]" for t0 t1
    using WriteRecordWithTxt by (simp add: kept_records_def)
  ultimately show ?thesis using writeRecord_step [OF u(1), of now ty i ev v1 v2 v3] u by simp
next
  case (WriteName i name)
  then show ?thesis
    using assms log_inv_cong [of "writeName i name lf" lf]
    by (simp add: writeName_def write_id_def kept_records_def)
next
  case (WriteTxt msg)
  then show ?thesis
    using assms log_inv_cong [of "writeTxt msg lf" lf] by (simp add: writeTxt_def kept_records_def)
qed

lemma do_calls_steps:
  assumes "log_inv lf"
  shows "\<exists>lf'. do_calls cs lf = Some lf' \<and> log_inv lf' \<and>
    trace_of lf' = trace_of lf @ kept_records (lf_start lf) (lf_end lf) cs"
  using assms
proof (induction cs arbitrary: lf)
  case Nil
  then show ?case by (simp add: kept_records_def)
next
  case (Cons c cs)
  obtain now d where c: "c = (now, d)" by fastforce
  obtain l1 where l1: "do_call now d lf = Some l1" "log_inv l1" "lf_start l1 = lf_start lf" "lf_end l1 = lf_end lf"
      "trace_of l1 = trace_of lf @ kept_records (lf_start lf) (lf_end lf) [c]"
    using do_call_step [OF Cons.prems] c by blast
  then show ?case
    using Cons.IH [OF l1(2)] kept_records_Cons [of _ _ c cs] c by simp
qed

section \<open>The trace file\<close>

text \<open>
  C28: the buffered log is equivalent to a plain list. Whatever is written and whenever the buffer is
  flushed, no record is stored outside the array, and the trace file that the destructor leaves holds
  exactly the records written between the start and the end of the log, in order, behind their number.
\<close>

theorem logfile_trace:
  assumes "length array = MAX_RECORDS"
  shows "\<exists>lf. do_calls cs (mkLogfile t0 t1 array) = Some lf \<and>
    closeLogfile lf = (of_nat (length (kept_records t0 t1 cs)), kept_records t0 t1 cs)"
proof -
  have i: "log_inv (mkLogfile t0 t1 array)" "trace_of (mkLogfile t0 t1 array) = []"
    using assms by (simp_all add: log_inv_def mkLogfile_def trace_of_def MAX_RECORDS_def)
  obtain lf where lf: "do_calls cs (mkLogfile t0 t1 array) = Some lf" "log_inv lf"
      "trace_of lf = kept_records t0 t1 cs"
    using do_calls_steps [OF i(1), of cs] i(2) by (auto simp: mkLogfile_def)
  have "closeLogfile lf = (lf_nTotalRecords lf, trace_of lf)"
    by (simp add: closeLogfile_def Let_def trace_of_def)
  then show ?thesis using lf by (simp add: log_inv_def)
qed

definition ex_calls :: "(u64 \<times> log_call) list" where
  "ex_calls = [(5, WriteName 7 ''flow''), (5, WriteRecord 4 1 0 10 20 30),
     (12, WriteRecordWithTxt 0 7 ''PKT_DROP'' 1 ''queuesize'' 3000 ''flow id'' 7 ''pkt id'' 9),
     (13, WriteTxt ''text''), (99, WriteRecord 4 1 0 11 21 31)]"

lemma logfile_trace_witness:
  "\<exists>lf. do_calls ex_calls (mkLogfile 10 50 (replicate MAX_RECORDS ex_record)) = Some lf \<and>
     closeLogfile lf = (1, [\<lparr>lr_time = timeAsSec 12, lr_type = 0, lr_id = 7, lr_ev = 1,
       lr_val1 = 3000, lr_val2 = 7, lr_val3 = 9\<rparr>])"
proof -
  have "kept_records 10 50 ex_calls = [\<lparr>lr_time = timeAsSec 12, lr_type = 0, lr_id = 7, lr_ev = 1,
      lr_val1 = 3000, lr_val2 = 7, lr_val3 = 9\<rparr>]"
    by (simp add: kept_records_def ex_calls_def)
  then show ?thesis using logfile_trace [of "replicate MAX_RECORDS ex_record" ex_calls 10 50] by simp
qed

end
