(* ===== verification/Loggers.thy ===== *)
theory Loggers
  imports Logfile FifoQueue Tcp Sink
begin

text \<open>
  \<open>loggertypes.h\<close>, \<open>loggers.h\<close> and \<open>loggers.cpp\<close>: the loggers write records to the log file. An
  operation returns the calls it makes on the log file as values of \<open>log_call\<close>. The simple loggers
  write each event; the samplers write summaries of a period, at events of their own. A failed
  assertion and a \<open>double\<close> that is not a finite number are \<open>None\<close>.
\<close>

section \<open>Events\<close>

fun queue_event_no :: "queue_event \<Rightarrow> u32" where
  "queue_event_no Q_ENQUEUE = 0" | "queue_event_no Q_DROP = 1" | "queue_event_no Q_SERVICE = 2"

fun queueEvMap :: "queue_event \<Rightarrow> string" where
  "queueEvMap Q_ENQUEUE = ''PKT_ENQUEUE''" | "queueEvMap Q_DROP = ''PKT_DROP''"
| "queueEvMap Q_SERVICE = ''PKT_SERVICE''"

fun traffic_event_no :: "traffic_event \<Rightarrow> u32" where
  "traffic_event_no PKT_ARRIVE = 0" | "traffic_event_no PKT_DEPART = 1"
| "traffic_event_no PKT_CREATESEND = 2" | "traffic_event_no PKT_DROP = 3"
| "traffic_event_no PKT_RCVDESTROY = 4" | "traffic_event_no PKT_TOR_SRC = 5"
| "traffic_event_no PKT_TOR_DST = 6"

fun trafficEvMap :: "traffic_event \<Rightarrow> string" where
  "trafficEvMap PKT_ARRIVE = ''PKT_ARRIVE''" | "trafficEvMap PKT_DEPART = ''PKT_DEPART''"
| "trafficEvMap PKT_CREATESEND = ''PKT_CREATESEND''" | "trafficEvMap PKT_DROP = ''PKT_DROP''"
| "trafficEvMap PKT_RCVDESTROY = ''PKT_RCVDESTROY''" | "trafficEvMap PKT_TOR_SRC = ''PKT_TOR_SRC''"
| "trafficEvMap PKT_TOR_DST = ''PKT_TOR_DST''"

fun tcp_event_no :: "tcp_event \<Rightarrow> u32" where
  "tcp_event_no TCP_RCV = 0" | "tcp_event_no TCP_RCV_FR_END = 1" | "tcp_event_no TCP_RCV_FR = 2"
| "tcp_event_no TCP_RCV_DUP_FR = 3" | "tcp_event_no TCP_RCV_DUP = 4" | "tcp_event_no TCP_RCV_3DUPNOFR = 5"
| "tcp_event_no TCP_RCV_DUP_FASTXMIT = 6" | "tcp_event_no TCP_TIMEOUT = 7"

fun tcpEvMap :: "tcp_event \<Rightarrow> string" where
  "tcpEvMap TCP_RCV = ''TCP_RCV''" | "tcpEvMap TCP_RCV_FR_END = ''TCP_RCV_FR_END''"
| "tcpEvMap TCP_RCV_FR = ''TCP_RCV_FR''" | "tcpEvMap TCP_RCV_DUP_FR = ''TCP_RCV_DUP_FR''"
| "tcpEvMap TCP_RCV_DUP = ''TCP_RCV_DUP''" | "tcpEvMap TCP_RCV_3DUPNOFR = ''TCP_RCV_3DUPNOFR''"
| "tcpEvMap TCP_RCV_DUP_FASTXMIT = ''TCP_RCV_DUP_FASTXMIT''" | "tcpEvMap TCP_TIMEOUT = ''TCP_TIMEOUT''"

fun flow_status_no :: "flow_status \<Rightarrow> nat" where
  "flow_status_no IDLE = 0" | "flow_status_no SLOW_START = 1" | "flow_status_no CONG_AVOID = 2"
| "flow_status_no FAST_RECOV = 3" | "flow_status_no FINISH = 4"

section \<open>The simple loggers\<close>

text \<open>The conversion of an unsigned number to \<open>double\<close>.\<close>

definition as_double :: "'w::len word \<Rightarrow> rat" where
  "as_double x = dbl (of_nat (unat x))"

definition simple_logQueue :: "u32 \<Rightarrow> queue_event \<Rightarrow> packet \<Rightarrow> u64 \<Rightarrow> log_call" where
  "simple_logQueue qid ev pkt queuesize =
     WriteRecordWithTxt 0 qid (queueEvMap ev) (queue_event_no ev) ''queuesize'' (as_double queuesize)
       ''flow id'' (as_double (p_flow pkt)) ''pkt id'' (as_double (p_id pkt))"

definition simple_logTraffic :: "u32 \<Rightarrow> traffic_event \<Rightarrow> packet \<Rightarrow> log_call" where
  "simple_logTraffic location ev pkt =
     WriteRecordWithTxt 3 location (trafficEvMap ev) (traffic_event_no ev)
       ''flow id'' (as_double (p_flow pkt)) ''pkt id'' (as_double (p_id pkt)) ''unused'' 0"

definition simple_logTcp :: "tcp_event \<Rightarrow> tcp_src \<Rightarrow> log_call list" where
  "simple_logTcp ev s =
     [WriteRecordWithTxt 1 (src_id s) (tcpEvMap ev) (tcp_event_no ev) ''cwnd'' (as_double (t_cwnd s))
        ''sendbuf size'' (as_double (src_highest_sent s - src_last_acked s))
        ''TCP state'' (of_nat (flow_status_no (t_state s))),
      WriteRecordWithTxt 2 (src_id s) ''TCPSTATE_CNTRL'' 0 ''cwnd'' (as_double (t_cwnd s))
        ''ssthresh'' (as_double (t_ssthresh s)) ''recover seq'' (as_double (t_recover_seq s)),
      WriteRecordWithTxt 2 (src_id s) ''TCPSTATE_SEQ'' 1 ''last_acked'' (as_double (src_last_acked s))
        ''highest_sent'' (as_double (src_highest_sent s)) ''RTO timeout'' (as_double (t_RTO_timeout s))]"

section \<open>The queue sampler\<close>

text \<open>
  The members that the constructor leaves uninitialised are arguments. A pointer to a queue is the
  queue's id.
\<close>

record queue_sampler =
  qs_queue :: "u32 option"
  qs_lastlook :: u64
  qs_period :: u64
  qs_lastq :: u64
  qs_seenQueueInD :: bool
  qs_minQueueInD :: u64
  qs_maxQueueInD :: u64
  qs_lastDroppedInD :: u64
  qs_lastIdledInD :: u64
  qs_numIdledInD :: int
  qs_numDropsInD :: int
  qs_cumidle :: rat
  qs_cumarr :: rat
  qs_cumdrop :: rat
  qs_bytesInD :: u32
  qs_printed :: bool

definition mkQueueLoggerSampling :: "u64 \<Rightarrow> u64 \<Rightarrow> u64 \<Rightarrow> u64 \<Rightarrow> u64 \<Rightarrow> int \<Rightarrow> int \<Rightarrow> queue_sampler \<times> action list" where
  "mkQueueLoggerSampling period min0 max0 dropped0 idled0 nIdled0 nDrops0 =
     (\<lparr>qs_queue = None, qs_lastlook = 0, qs_period = period, qs_lastq = 0, qs_seenQueueInD = False,
       qs_minQueueInD = min0, qs_maxQueueInD = max0, qs_lastDroppedInD = dropped0, qs_lastIdledInD = idled0,
       qs_numIdledInD = nIdled0, qs_numDropsInD = nDrops0, qs_cumidle = 0, qs_cumarr = 0, qs_cumdrop = 0,
       qs_bytesInD = 0, qs_printed = False\<rparr>, [SchedRel 0])"

text \<open>The event at the end of a period; \<open>q\<close> is the queue the sampler has seen.\<close>

definition qs_range :: "u32 \<Rightarrow> queue_sampler \<Rightarrow> log_call" where
  "qs_range qid s =
     (if \<not> qs_seenQueueInD s
      then WriteRecord 5 qid 0 (as_double (qs_lastq s)) (as_double (qs_lastq s)) (as_double (qs_lastq s))
      else WriteRecord 5 qid 0 (as_double (qs_lastq s)) (as_double (qs_minQueueInD s)) (as_double (qs_maxQueueInD s)))"

definition qs_overflow :: "u32 \<Rightarrow> queue_sampler \<Rightarrow> log_call option" where
  "qs_overflow qid s =
     (if timeAsSec (qs_period s) = 0 then None
      else let rate = dbl (as_double (qs_bytesInD s) / timeAsSec (qs_period s))
           in Some (if \<not> qs_seenQueueInD s then WriteRecord 5 qid 1 0 0 rate
                    else WriteRecord 5 qid 1 (- as_double (qs_lastIdledInD s))
                      (as_double (qs_lastDroppedInD s)) rate))"

definition qs_doNextEvent ::
  "u64 \<Rightarrow> 'a queue_scheme \<Rightarrow> queue_sampler \<Rightarrow> (queue_sampler \<times> log_call list \<times> action list) option" where
  "qs_doNextEvent now q s =
     (case qs_queue s of
        None \<Rightarrow> Some (s, [], [SchedRel (qs_period s)])
      | Some qid \<Rightarrow> do {
          ov \<leftarrow> qs_overflow qid s;
          let cs = [qs_range qid s, ov];
          let s = s\<lparr>qs_seenQueueInD := False\<rparr>;
          let dt_ps = now - qs_lastlook s;
          let s = s\<lparr>qs_lastlook := now, qs_bytesInD := 0, qs_printed := False\<rparr>;
          let s = (if q_queuesize q = 0 then s\<lparr>qs_cumidle := dbl (qs_cumidle s + timeAsSec dt_ps)\<rparr> else s);
          Some (s, cs @ [WriteRecord 4 qid 0 (qs_cumarr s) (qs_cumidle s) (qs_cumdrop s)], [SchedRel (qs_period s)])
        })"

text \<open>The queue size seen by the sampler, and the three events.\<close>

definition qs_look :: "u64 \<Rightarrow> queue_sampler \<Rightarrow> queue_sampler" where
  "qs_look queuesize s =
     (let s = s\<lparr>qs_lastq := queuesize\<rparr>
      in if \<not> qs_seenQueueInD s
         then let s = s\<lparr>qs_seenQueueInD := True, qs_minQueueInD := queuesize\<rparr>
              in s\<lparr>qs_maxQueueInD := qs_minQueueInD s, qs_lastDroppedInD := 0, qs_lastIdledInD := 0,
                   qs_numIdledInD := 0, qs_numDropsInD := 0\<rparr>
         else s\<lparr>qs_minQueueInD := min (qs_minQueueInD s) queuesize,
                qs_maxQueueInD := max (qs_maxQueueInD s) queuesize\<rparr>)"

definition qs_enqueued :: "u64 \<Rightarrow> 'a queue_scheme \<Rightarrow> packet \<Rightarrow> queue_sampler \<Rightarrow> queue_sampler" where
  "qs_enqueued dt_ps q pkt s =
     (let s = s\<lparr>qs_cumarr := dbl (qs_cumarr s + timeAsSec (drainTime q pkt))\<rparr>
      in if q_queuesize q > p_size pkt then s
         else let idledwork = serviceCapacity q dt_ps;
                  s = s\<lparr>qs_cumidle := dbl (qs_cumidle s + timeAsSec dt_ps)\<rparr>
              in s\<lparr>qs_lastIdledInD := idledwork, qs_numIdledInD := qs_numIdledInD s + 1\<rparr>)"

definition qs_dropped :: "'a queue_scheme \<Rightarrow> packet \<Rightarrow> queue_sampler \<Rightarrow> queue_sampler option" where
  "qs_dropped q pkt s =
     (if \<not> q_queuesize q \<ge> p_size pkt then None
      else let localdroptime = timeAsSec (drainTime q pkt);
               s = s\<lparr>qs_cumarr := dbl (qs_cumarr s + localdroptime)\<rparr>;
               s = s\<lparr>qs_cumdrop := dbl (qs_cumdrop s + localdroptime)\<rparr>
           in Some (s\<lparr>qs_lastDroppedInD := qs_lastDroppedInD s + p_size pkt,
                      qs_numDropsInD := qs_numDropsInD s + 1\<rparr>))"

definition qs_logQueue ::
  "u64 \<Rightarrow> u32 \<Rightarrow> 'a queue_scheme \<Rightarrow> queue_event \<Rightarrow> packet \<Rightarrow> queue_sampler \<Rightarrow> queue_sampler option" where
  "qs_logQueue now qid q ev pkt s = do {
     s \<leftarrow> (case qs_queue s of
              None \<Rightarrow> Some (s\<lparr>qs_queue := Some qid\<rparr>)
            | Some qid' \<Rightarrow> if qid = qid' then Some s else None);
     let s = qs_look (q_queuesize q) s;
     let dt_ps = now - qs_lastlook s;
     let s = s\<lparr>qs_lastlook := now\<rparr>;
     (case ev of
        Q_SERVICE \<Rightarrow> Some (s\<lparr>qs_bytesInD := qs_bytesInD s + ucast (p_size pkt)\<rparr>)
      | Q_ENQUEUE \<Rightarrow> Some (qs_enqueued dt_ps q pkt s)
      | Q_DROP \<Rightarrow> qs_dropped q pkt s)
   }"

section \<open>The TCP and sink samplers\<close>

text \<open>The average window of a group of flows.\<close>

record tcp_sampler =
  ts_id :: u32
  ts_period :: u64
  ts_monitored :: "u32 list"

definition mkAggregateTcpLogger :: "u32 \<Rightarrow> u64 \<Rightarrow> tcp_sampler \<times> action list" where
  "mkAggregateTcpLogger i period = (\<lparr>ts_id = i, ts_period = period, ts_monitored = []\<rparr>, [SchedRel period])"

definition monitorTcp :: "u32 \<Rightarrow> tcp_sampler \<Rightarrow> tcp_sampler" where
  "monitorTcp src s = s\<lparr>ts_monitored := ts_monitored s @ [src]\<rparr>"

fun ts_sum :: "tcp_src list \<Rightarrow> rat \<Rightarrow> rat \<Rightarrow> nat \<Rightarrow> rat \<times> rat \<times> nat" where
  "ts_sum [] totcwnd totunacked numflows = (totcwnd, totunacked, numflows)"
| "ts_sum (t # tcps) totcwnd totunacked numflows =
     (let cwnd = t_cwnd t;
          unacked = ucast (src_highest_sent t - src_last_acked t) :: u32
      in ts_sum tcps (dbl (totcwnd + as_double cwnd)) (dbl (totunacked + as_double unacked)) (numflows + 1))"

text \<open>Without a flow the record holds the quotient of two zeros, \<open>None\<close>.\<close>

definition ts_doNextEvent ::
  "(u32 \<Rightarrow> tcp_src) \<Rightarrow> tcp_sampler \<Rightarrow> (log_call list \<times> action list) option" where
  "ts_doNextEvent src s =
     (let (totcwnd, totunacked, numflows) = ts_sum (map src (ts_monitored s)) 0 0 0
      in if numflows = 0 then None
         else Some ([WriteRecord 6 (ts_id s) 0 (dbl (totcwnd / dbl (of_nat numflows)))
                      (dbl (totunacked / dbl (of_nat numflows))) 0], [SchedRel (ts_period s)]))"

definition sink_drops :: "'a data_sink_scheme \<Rightarrow> u32" where "sink_drops d = 0"

text \<open>The rates of the sinks; \<open>_last_time\<close> is uninitialised until the first event.\<close>

record sink_sampler =
  ss_sinks :: "u32 list"
  ss_last_seq :: "u64 list"
  ss_last_rate :: "rat list"
  ss_last_time :: u64
  ss_period :: u64

definition mkSinkLoggerSampling :: "u64 \<Rightarrow> u64 \<Rightarrow> sink_sampler \<times> action list" where
  "mkSinkLoggerSampling period last_time0 =
     (\<lparr>ss_sinks = [], ss_last_seq = [], ss_last_rate = [], ss_last_time = last_time0, ss_period = period\<rparr>,
      [SchedRel 0])"

definition monitorSink :: "(u32 \<Rightarrow> 'a data_sink_scheme) \<Rightarrow> u32 \<Rightarrow> sink_sampler \<Rightarrow> sink_sampler" where
  "monitorSink sink k s =
     s\<lparr>ss_sinks := ss_sinks s @ [k], ss_last_seq := ss_last_seq s @ [ds_cumulative_ack (sink k)],
       ss_last_rate := ss_last_rate s @ [0]\<rparr>"

text \<open>The loop over the sinks; the three vectors grow together.\<close>

fun ss_rates ::
  "(u32 \<Rightarrow> 'a data_sink_scheme) \<Rightarrow> u64 \<Rightarrow> u32 list \<Rightarrow> u64 list \<Rightarrow> rat list \<Rightarrow>
     (log_call list \<times> u64 list \<times> rat list) option" where
  "ss_rates sink delta (k # ks) (sq # sqs) (r # rs) = do {
     let ack = ds_cumulative_ack (sink k);
     (c, r) \<leftarrow> (if sq \<le> ack
        then if timeAsSec delta = 0 then None
             else let deltaB = ack - sq;
                      rate = dbl (as_double deltaB / timeAsSec delta)
                  in Some ([WriteRecord 11 k 0 rate (as_double (sink_drops (sink k))) (as_double ack)], rate)
        else Some ([], r));
     (cs, sqs, rs) \<leftarrow> ss_rates sink delta ks sqs rs;
     Some (c @ cs, ack # sqs, r # rs)
   }"
| "ss_rates sink delta [] sqs rs = Some ([], sqs, rs)"
| "ss_rates sink delta ks sqs rs = None"

definition ss_doNextEvent ::
  "u64 \<Rightarrow> (u32 \<Rightarrow> 'a data_sink_scheme) \<Rightarrow> sink_sampler \<Rightarrow> (sink_sampler \<times> log_call list \<times> action list) option" where
  "ss_doNextEvent now sink s = do {
     let delta = now - ss_last_time s;
     let s = s\<lparr>ss_last_time := now\<rparr>;
     (cs, sqs, rs) \<leftarrow> ss_rates sink delta (ss_sinks s) (ss_last_seq s) (ss_last_rate s);
     Some (s\<lparr>ss_last_seq := sqs, ss_last_rate := rs\<rparr>, cs, [SchedRel (ss_period s)])
   }"

end
