(* ===== verification/RandomQ.thy ===== *)
theory RandomQ
  imports FifoQueue Loggers "HOL-Library.Stream"
begin

text \<open>
  \<open>randomqueue.h\<close>, \<open>randomqueue.cpp\<close>: \<open>RandomQueue\<close>, a \<open>Queue\<close> that also drops at random when it fills
  up. \<open>exoqueue.h\<close>, \<open>exoqueue.cpp\<close>: \<open>ExoQueue\<close>, which loses packets and holds none. The results of
  \<open>drand()\<close> are arguments; a quotient by zero is infinite, \<open>None\<close>.
\<close>

section \<open>The random queue\<close>

record random_queue = queue +
  rq_drop_th :: u64
  rq_drop :: u64
  rq_buffer_drops :: int
  rq_plr :: rat

definition mkRandomQueue :: "u64 \<Rightarrow> u64 \<Rightarrow> bool \<Rightarrow> u64 \<Rightarrow> random_queue option" where
  "mkRandomQueue bitrate maxsize logger drop_bytes =
     map_option (\<lambda>q. queue.extend q
         \<lparr>rq_drop_th = q_maxsize q - drop_bytes, rq_drop = drop_bytes, rq_buffer_drops = 0, rq_plr = 0\<rparr>)
       (mkQueue bitrate maxsize logger)"

definition set_packet_loss_rate :: "rat \<Rightarrow> random_queue \<Rightarrow> random_queue" where
  "set_packet_loss_rate l q = q\<lparr>rq_plr := l\<rparr>"

text \<open>The \<open>Queue\<close> in a random queue, whose service it inherits.\<close>

definition rq_base :: "random_queue \<Rightarrow> queue" where
  "rq_base q = queue.truncate q"

definition rq_with_base :: "random_queue \<Rightarrow> queue \<Rightarrow> random_queue" where
  "rq_with_base q b = queue.extend b
     \<lparr>rq_drop_th = rq_drop_th q, rq_drop = rq_drop q, rq_buffer_drops = rq_buffer_drops q, rq_plr = rq_plr q\<rparr>"

definition rq_drop_prob :: "random_queue \<Rightarrow> u64 \<Rightarrow> rat option" where
  "rq_drop_prob q crt =
     (if crt > rq_drop_th q
      then if rq_drop_th q = 0 then None else Some (dbl (1100 / as_double (rq_drop_th q)))
      else Some 0)"

definition draw_below :: "rat \<Rightarrow> rat option \<Rightarrow> bool" where
  "draw_below r prob = (case prob of None \<Rightarrow> True | Some x \<Rightarrow> r < x)"

definition rq_receivePacket ::
  "rat \<Rightarrow> rat \<Rightarrow> random_queue \<Rightarrow> packet \<Rightarrow> (random_queue \<times> action list) option" where
  "rq_receivePacket r1 r2 q pkt =
     (let crt = q_queuesize q + p_size pkt
      in if rq_plr q > 0 \<and> r1 < rq_plr q then Some (q, [Free pkt])
         else if crt > q_maxsize q \<or> draw_below r2 (rq_drop_prob q crt)
         then let as = qlog q Q_DROP pkt @ [Traffic PKT_DROP pkt];
                  q = (if crt > q_maxsize q then q\<lparr>rq_buffer_drops := rq_buffer_drops q + 1\<rparr> else q)
              in Some (q, as @ [Free pkt])
         else let queueWasEmpty = (q_enqueued q = []);
                  q = q\<lparr>q_enqueued := pkt # q_enqueued q\<rparr>;
                  q = q\<lparr>q_queuesize := q_queuesize q + p_size pkt\<rparr>;
                  as = Traffic PKT_ARRIVE pkt # qlog q Q_ENQUEUE pkt
              in if queueWasEmpty
                 then if length (q_enqueued q) \<noteq> 1 then None
                      else map_option (\<lambda>bs. (q, as @ bs)) (fifo_beginService (rq_base q))
                 else Some (q, as))"

definition rq_doNextEvent :: "random_queue \<Rightarrow> (random_queue \<times> action list) option" where
  "rq_doNextEvent q = map_option (\<lambda>(b, as). (rq_with_base q b, as)) (fifo_doNextEvent (rq_base q))"

section \<open>The exogenous queue\<close>

definition exo_receivePacket :: "rat \<Rightarrow> rat \<Rightarrow> packet \<Rightarrow> action list" where
  "exo_receivePacket r loss_rate pkt = (if r < loss_rate then [Free pkt] else [SendOn pkt])"

section \<open>The contract of queues\<close>

text \<open>A random queue with the draws that are still to come; each arrival may use two of them.\<close>

definition rq_recv :: "random_queue \<times> rat stream \<Rightarrow> packet \<Rightarrow> ((random_queue \<times> rat stream) \<times> action list) option" where
  "rq_recv = (\<lambda>(q, ds) p. map_option (\<lambda>(q', as). ((q', stl (stl ds)), as))
     (rq_receivePacket (shd ds) (shd (stl ds)) q p))"

definition rq_serve :: "random_queue \<times> rat stream \<Rightarrow> ((random_queue \<times> rat stream) \<times> action list) option" where
  "rq_serve = (\<lambda>(q, ds). map_option (\<lambda>(q', as). ((q', ds), as)) (rq_doNextEvent q))"

lemma rq_base_fields [simp]:
  "q_enqueued (rq_base q) = q_enqueued q" "q_queuesize (rq_base q) = q_queuesize q"
  "q_maxsize (rq_base q) = q_maxsize q" "q_logger (rq_base q) = q_logger q"
  "q_ps_per_byte (rq_base q) = q_ps_per_byte q" "fits (rq_base q) p = fits q p"
  by (simp_all add: rq_base_def queue.defs fits_def)

lemma rq_with_base_fields [simp]:
  "q_enqueued (rq_with_base q b) = q_enqueued b" "q_queuesize (rq_with_base q b) = q_queuesize b"
  "q_maxsize (rq_with_base q b) = q_maxsize b" "rq_base (rq_with_base q b) = b"
  "rq_plr (rq_with_base q b) = rq_plr q" "rq_drop_th (rq_with_base q b) = rq_drop_th q"
  "rq_buffer_drops (rq_with_base q b) = rq_buffer_drops q"
  by (simp_all add: rq_with_base_def rq_base_def queue.defs)

text \<open>Whether an arriving packet is lost, before or behind the check of the buffer.\<close>

definition rq_loses :: "rat \<Rightarrow> rat \<Rightarrow> random_queue \<Rightarrow> packet \<Rightarrow> bool" where
  "rq_loses r1 r2 q p \<longleftrightarrow> (rq_plr q > 0 \<and> r1 < rq_plr q) \<or> q_queuesize q + p_size p > q_maxsize q \<or>
     draw_below r2 (rq_drop_prob q (q_queuesize q + p_size p))"

text \<open>The counter of the drops for want of space.\<close>

definition rq_drops_after :: "rat \<Rightarrow> random_queue \<Rightarrow> packet \<Rightarrow> int" where
  "rq_drops_after r1 q p = rq_buffer_drops q +
     (if q_queuesize q + p_size p > q_maxsize q \<and> \<not> (rq_plr q > 0 \<and> r1 < rq_plr q) then 1 else 0)"

lemma rq_receive_lost:
  assumes "rq_loses r1 r2 q p"
  shows "\<exists>as. rq_receivePacket r1 r2 q p = Some (q\<lparr>rq_buffer_drops := rq_drops_after r1 q p\<rparr>, as) \<and>
    frees as = [p] \<and> sends as = [] \<and> scheds as = []"
proof -
  have same: "q = q\<lparr>rq_buffer_drops := rq_buffer_drops q\<rparr>" by simp
  show ?thesis
  proof (cases "rq_plr q > 0 \<and> r1 < rq_plr q")
    case True
    then show ?thesis using same
      by (intro exI [of _ "[Free p]"]) (simp add: rq_receivePacket_def rq_drops_after_def)
  next
    case False
    then have d: "q_queuesize q + p_size p > q_maxsize q \<or> draw_below r2 (rq_drop_prob q (q_queuesize q + p_size p))"
      using assms by (auto simp: rq_loses_def)
    have "rq_receivePacket r1 r2 q p =
        Some (q\<lparr>rq_buffer_drops := rq_drops_after r1 q p\<rparr>, (qlog q Q_DROP p @ [Traffic PKT_DROP p]) @ [Free p])"
      using False d same by (auto simp: rq_receivePacket_def rq_drops_after_def Let_def)
    then show ?thesis by fastforce
  qed
qed

lemma rq_receive_kept:
  assumes "\<not> rq_loses r1 r2 q p"
  shows "\<exists>b as. fifo_receivePacket (rq_base q) p = Some (b, as) \<and> frees as = [] \<and>
    rq_receivePacket r1 r2 q p = Some (rq_with_base q b, as)"
proof -
  have c: "\<not> q_queuesize q + p_size p > q_maxsize q" "\<not> (rq_plr q > 0 \<and> r1 < rq_plr q)"
    "\<not> draw_below r2 (rq_drop_prob q (q_queuesize q + p_size p))"
    using assms by (auto simp: rq_loses_def)
  let ?b = "(rq_base q)\<lparr>q_enqueued := p # q_enqueued q, q_queuesize := q_queuesize q + p_size p\<rparr>"
  have w: "rq_with_base q ?b = q\<lparr>q_enqueued := p # q_enqueued q, q_queuesize := q_queuesize q + p_size p\<rparr>"
    and b: "rq_base (q\<lparr>q_enqueued := p # q_enqueued q, q_queuesize := q_queuesize q + p_size p\<rparr>) = ?b"
    by (simp_all add: rq_with_base_def rq_base_def queue.defs)
  have l: "qlog ?b ev p = qlog (q\<lparr>q_enqueued := p # q_enqueued q, q_queuesize := q_queuesize q + p_size p\<rparr>) ev p" for ev
    by (simp add: qlog_def)
  define as where "as = (Traffic PKT_ARRIVE p # qlog ?b Q_ENQUEUE p) @
    (if q_enqueued q = [] then [SchedRel (drainTime ?b p)] else [])"
  have "fifo_receivePacket (rq_base q) p = Some (?b, as)"
    using c(1) by (simp add: fifo_receivePacket_def fifo_beginService_def Let_def as_def)
  moreover have "rq_receivePacket r1 r2 q p = Some (rq_with_base q ?b, as)"
    using c b l by (simp add: rq_receivePacket_def fifo_beginService_def Let_def as_def w drainTime_def)
  moreover have "frees as = []" by (simp add: as_def qlog_def)
  ultimately show ?thesis by blast
qed

lemma rq_base_drops [simp]: "rq_base (q\<lparr>rq_buffer_drops := n\<rparr>) = rq_base q"
  by (simp add: rq_base_def queue.defs)

lemma rq_base_eqD:
  assumes "rq_base q' = rq_base q"
  shows "q_enqueued q' = q_enqueued q \<and> q_queuesize q' = q_queuesize q \<and> q_maxsize q' = q_maxsize q"
  using assms rq_base_fields(1-3) by metis

text \<open>The steps of the queue with its draws.\<close>

lemma rq_recv_cases:
  "\<exists>q' ds' as. rq_recv (q, ds) p = Some ((q', ds'), as) \<and>
     (rq_base q' = rq_base q \<and> frees as = [p] \<and> sends as = [] \<and> scheds as = [] \<or>
      fifo_receivePacket (rq_base q) p = Some (rq_base q', as) \<and> frees as = [])"
proof (cases "rq_loses (shd ds) (shd (stl ds)) q p")
  case True
  from rq_receive_lost [OF this] show ?thesis by (auto simp: rq_recv_def)
next
  case False
  from rq_receive_kept [OF this] show ?thesis by (auto simp: rq_recv_def)
qed

lemma rq_serve_base:
  assumes "rq_serve (q, ds) = Some ((q', ds'), as)"
  shows "fifo_doNextEvent (rq_base q) = Some (rq_base q', as)"
  using assms by (auto simp: rq_serve_def rq_doNextEvent_def)

interpretation random: queue_discipline rq_recv rq_serve
  "\<lambda>z. mset (q_enqueued (fst z))" "\<lambda>z. q_maxsize (fst z)" "\<lambda>z. q_queuesize (fst z)"
  "\<lambda>z. fifo_inv (rq_base (fst z))" "\<lambda>z p. fits (fst z) p"
proof (unfold_locales, goal_cases)
  case (1 z p)
  then show ?case using rq_recv_cases [of "fst z" "snd z" p] by auto
next
  case (2 z p z' as)
  then show ?case
    using rq_recv_cases [of "fst z" "snd z" p] fifo.recv_inv [of "rq_base (fst z)" p] by (auto dest: rq_base_eqD)
next
  case (3 z p z' as)
  then show ?case
    using rq_recv_cases [of "fst z" "snd z" p] fifo.recv_held [of "rq_base (fst z)" p] by (auto dest: rq_base_eqD)
next
  case (4 z p z' as)
  then show ?case
    using rq_recv_cases [of "fst z" "snd z" p] fifo.recv_sched [of "rq_base (fst z)" p] by (auto dest: rq_base_eqD)
next
  case (5 z p z' as)
  then show ?case
    using rq_recv_cases [of "fst z" "snd z" p] fifo.recv_busy [of "rq_base (fst z)" p] by (auto dest: rq_base_eqD)
next
  case (6 z)
  then show ?case
    using fifo.serve_total [of "rq_base (fst z)"] by (cases z) (auto simp: rq_serve_def rq_doNextEvent_def)
next
  case (7 z z' as)
  then show ?case
    using rq_serve_base [of "fst z" "snd z" "fst z'" "snd z'" as] fifo.serve_inv [of "rq_base (fst z)"] by auto
next
  case (8 z z' as)
  then show ?case
    using rq_serve_base [of "fst z" "snd z" "fst z'" "snd z'" as] fifo.serve_held [of "rq_base (fst z)"] by auto
next
  case (9 z z' as)
  then show ?case
    using rq_serve_base [of "fst z" "snd z" "fst z'" "snd z'" as] fifo.serve_sched [of "rq_base (fst z)"] by auto
next
  case (10 z)
  then show ?case using fifo.size_bound [of "rq_base (fst z)"] by auto
next
  case (11 z p z' as)
  then show ?case
    using rq_recv_cases [of "fst z" "snd z" p] fifo.limit_recv [of "rq_base (fst z)" p] by (auto dest: rq_base_eqD)
next
  case (12 z z' as)
  then show ?case
    using rq_serve_base [of "fst z" "snd z" "fst z'" "snd z'" as] fifo.limit_serve [of "rq_base (fst z)"] by auto
qed

end
