(* ===== verification/QueueProps.thy ===== *)
theory QueueProps
  imports AprxProps FairProps PrioQueue RandomQ
begin

text \<open>
  What every queue of the simulator promises to the components around it, from the interpretations of
  \<open>queue_discipline\<close>, and when \<open>RandomQueue\<close> drops.
\<close>

text \<open>
  C11: all queues keep the contract of a queue. In every state reached from a well-formed empty queue,
  no packet is lost, invented or duplicated, the bytes held are \<open>_queuesize\<close> and fit the buffer, an event
  is outstanding exactly while packets are held, handling it sends one packet, and neither handler can
  fail: \<open>Queue\<close>, \<open>PriorityQueue\<close>, \<open>FairQueue\<close>, \<open>AprxFairQueue\<close>, and \<open>RandomQueue\<close> with any draws.
\<close>

theorem queues_keep_promises:
  "(fifo_inv q1 \<and> q_enqueued q1 = [] \<and> qreach fifo_receivePacket fifo_doNextEvent fits q1 s1 \<longrightarrow>
      keeps_promises fifo_receivePacket fifo_doNextEvent (\<lambda>q. mset (q_enqueued q)) q_queuesize (q_maxsize q1) fits s1) \<and>
   (pq_inv q2 \<and> pq_held q2 = {#} \<and> qreach pq_receivePacket pq_doNextEvent fits q2 s2 \<longrightarrow>
      keeps_promises pq_receivePacket pq_doNextEvent pq_held q_queuesize (q_maxsize q2) fits s2) \<and>
   (fq_inv q3 \<and> fq_held q3 = {#} \<and> qreach fq_receivePacket fq_doNextEvent fq_ok q3 s3 \<longrightarrow>
      keeps_promises fq_receivePacket fq_doNextEvent fq_held q_queuesize (q_maxsize q3) fq_ok s3) \<and>
   (afq_inv q4 \<and> afq_held q4 = {#} \<and> qreach afq_receivePacket afq_doNextEvent sized_fits q4 s4 \<longrightarrow>
      keeps_promises afq_receivePacket afq_doNextEvent afq_held q_queuesize (q_maxsize q4) sized_fits s4) \<and>
   (fifo_inv (rq_base q5) \<and> q_enqueued q5 = [] \<and> qreach rq_recv rq_serve (\<lambda>z. fits (fst z)) (q5, ds) s5 \<longrightarrow>
      keeps_promises rq_recv rq_serve (\<lambda>z. mset (q_enqueued (fst z))) (\<lambda>z. q_queuesize (fst z)) (q_maxsize q5)
        (\<lambda>z. fits (fst z)) s5)"
  using fifo.reach_promises [of q1 s1] prio.reach_promises [of q2 s2] fair.reach_promises [of q3 s3]
    aprx.reach_promises [of q4 s4] random.reach_promises [of "(q5, ds)" s5]
  by simp

text \<open>A random queue and its draws, for the examples.\<close>

definition ex_random :: random_queue where
  "ex_random = set_packet_loss_rate (1 / 10) (the (mkRandomQueue 10000000000 100000 False 20000))"

lemma ex_random_fields:
  "q_enqueued ex_random = []" "q_maxsize ex_random = 100000" "q_queuesize ex_random = 0"
  "rq_drop_th ex_random = 80000" "rq_plr ex_random = 1 / 10"
  by (simp_all add: ex_random_def mkRandomQueue_def mkQueue_def set_packet_loss_rate_def queue.defs)

lemma ex_random_ok: "fifo_inv (rq_base ex_random)" "fits ex_random ex_full"
  by (simp_all add: fifo_inv_def fits_def ex_random_fields ex_full_def)

lemma queues_keep_promises_witness:
  "\<exists>s1 s2 s3 s4 s5.
     arrived s1 = {#ex_full#} \<and> arrived s2 = {#ex_low#} \<and> arrived s3 = {#ex_full#} \<and>
     arrived s4 = {#ex_seg#} \<and> arrived s5 = {#ex_full#} \<and>
     keeps_promises fifo_receivePacket fifo_doNextEvent (\<lambda>q. mset (q_enqueued q)) q_queuesize (q_maxsize ex_fifo) fits s1 \<and>
     keeps_promises pq_receivePacket pq_doNextEvent pq_held q_queuesize (q_maxsize ex_prio) fits s2 \<and>
     keeps_promises fq_receivePacket fq_doNextEvent fq_held q_queuesize (q_maxsize ex_fq) fq_ok s3 \<and>
     keeps_promises afq_receivePacket afq_doNextEvent afq_held q_queuesize (q_maxsize ex_afq) sized_fits s4 \<and>
     keeps_promises rq_recv rq_serve (\<lambda>z. mset (q_enqueued (fst z))) (\<lambda>z. q_queuesize (fst z)) (q_maxsize ex_random)
       (\<lambda>z. fits (fst z)) s5"
proof -
  have a: "arrived (qsim_after ((qsim_init q)\<lparr>arrived := {#p#}\<rparr>) q' as) = {#p#}" for q q' as p
    by (simp add: qsim_after_def)
  obtain b1 as1 where q1: "fifo_receivePacket ex_fifo ex_full = Some (b1, as1)" using ex_fifo_recv by blast
  note i2 = mkPriorityQueue_inv [OF ex_prio_eq]
  have f2: "fits ex_prio ex_low" using ex_prio_fits ex_prio_fields(1) by blast
  obtain b2 as2 where q2: "pq_receivePacket ex_prio ex_low = Some (b2, as2)" using pq_receive_spec i2 f2 by blast
  note i3 = mkFairQueue_inv [OF ex_fq_eq]
  obtain b3 as3 where q3: "fq_receivePacket ex_fq ex_full = Some (b3, as3)"
    using fq_receive_spec [OF _ ex_fq_ok(1)] i3 by blast
  obtain b4 as4 where q4: "afq_receivePacket ex_afq ex_seg = Some (b4, as4)"
    using ex_afq_steps by (auto split: option.splits)
  have "q_maxsize ex_afq = 100000" by code_simp
  note f4 = ex_seg_fits [OF this]
  let ?r = "(ex_random, sconst (1 / 2))"
  obtain b5 as5 where q5: "rq_recv ?r ex_full = Some (b5, as5)" using rq_recv_cases by blast
  define s1 where "s1 = qsim_after ((qsim_init ex_fifo)\<lparr>arrived := {#ex_full#}\<rparr>) b1 as1"
  define s2 where "s2 = qsim_after ((qsim_init ex_prio)\<lparr>arrived := {#ex_low#}\<rparr>) b2 as2"
  define s3 where "s3 = qsim_after ((qsim_init ex_fq)\<lparr>arrived := {#ex_full#}\<rparr>) b3 as3"
  define s4 where "s4 = qsim_after ((qsim_init ex_afq)\<lparr>arrived := {#ex_seg#}\<rparr>) b4 as4"
  define s5 where "s5 = qsim_after ((qsim_init ?r)\<lparr>arrived := {#ex_full#}\<rparr>) b5 as5"
  have r: "qreach fifo_receivePacket fifo_doNextEvent fits ex_fifo s1"
    "qreach pq_receivePacket pq_doNextEvent fits ex_prio s2"
    "qreach fq_receivePacket fq_doNextEvent fq_ok ex_fq s3"
    "qreach afq_receivePacket afq_doNextEvent sized_fits ex_afq s4"
    "qreach rq_recv rq_serve (\<lambda>z. fits (fst z)) ?r s5"
    unfolding s1_def s2_def s3_def s4_def s5_def
    using qreach_first [where ok = fits and recv = fifo_receivePacket, OF ex_fifo_inv(3) q1] qreach_first [where ok = fits and recv = pq_receivePacket, OF f2 q2]
      qreach_first [where ok = fq_ok and recv = fq_receivePacket, OF ex_fq_ok(1) q3] qreach_first [where ok = sized_fits and recv = afq_receivePacket, OF f4 q4]
      qreach_first [where ok = "\<lambda>z. fits (fst z)" and recv = rq_recv, OF _ q5] ex_random_ok(2)
    by simp_all
  note p = queues_keep_promises [of ex_fifo s1 ex_prio s2 ex_fq s3 ex_afq s4 ex_random "sconst (1 / 2)" s5]
  show ?thesis
    using p r ex_fifo_inv(1) ex_fifo_eq(2) i2 i3 ex_afq_inv ex_random_ok(1) ex_random_fields(1)
    by (intro exI [of _ s1] exI [of _ s2] exI [of _ s3] exI [of _ s4] exI [of _ s5])
      (simp add: s1_def s2_def s3_def s4_def s5_def a)
qed

text \<open>
  What \<open>RandomQueue\<close> drops. Without a loss rate it keeps every packet that leaves the buffer at or
  below the threshold, whatever the draws; a packet that does not fit is always dropped, and counted
  unless the loss rate took it before; between the two it is dropped exactly when the draw is below
  1100 divided by the threshold. A packet is accepted just as \<open>Queue\<close> accepts it.
\<close>

lemma random_queue_drops:
  assumes "0 \<le> r2" "crt = q_queuesize q + p_size p"
  shows "\<exists>q' as. rq_receivePacket r1 r2 q p = Some (q', as) \<and>
    (frees as = [] \<longrightarrow> fifo_receivePacket (rq_base q) p = Some (rq_base q', as)) \<and>
    (rq_plr q \<le> 0 \<and> crt \<le> q_maxsize q \<longrightarrow>
      frees as = (if crt > rq_drop_th q \<and> (rq_drop_th q = 0 \<or> r2 < dbl (1100 / as_double (rq_drop_th q)))
        then [p] else [])) \<and>
    (crt > q_maxsize q \<longrightarrow> frees as = [p]) \<and> rq_buffer_drops q' = rq_drops_after r1 q p"
proof (cases "rq_loses r1 r2 q p")
  case True
  from rq_receive_lost [OF this] show ?thesis
    using True assms by (auto simp: rq_loses_def rq_drop_prob_def draw_below_def split: if_splits)
next
  case False
  then have "rq_drops_after r1 q p = rq_buffer_drops q" by (auto simp: rq_loses_def rq_drops_after_def)
  then show ?thesis
    using rq_receive_kept [OF False] False assms
    by (auto simp: rq_loses_def rq_drop_prob_def draw_below_def split: if_splits)
qed

lemma random_queue_drops_witness:
  "\<exists>q' as q'' bs. rq_receivePacket 0 (1 / 2) ex_random (ex_full\<lparr>p_size := 200000\<rparr>) = Some (q', as) \<and>
     frees as \<noteq> [] \<and> rq_buffer_drops q' = rq_drops_after 0 ex_random (ex_full\<lparr>p_size := 200000\<rparr>) \<and>
     rq_receivePacket 0 (1 / 2) (set_packet_loss_rate 0 ex_random) ex_full = Some (q'', bs) \<and> frees bs = []"
  using random_queue_drops [of "1 / 2" 200000 ex_random "ex_full\<lparr>p_size := 200000\<rparr>" 0]
    random_queue_drops [of "1 / 2" 1500 "set_packet_loss_rate 0 ex_random" ex_full 0]
  by (auto simp: ex_random_fields set_packet_loss_rate_def ex_full_def)

end
