(* ===== verification/Workloads.thy ===== *)
theory Workloads
  imports Htsim
begin

text \<open>
  \<open>workloads.h\<close> and \<open>workloads.cpp\<close>: the distributions of the flow sizes. The sizes of a trace
  workload are interpolated in a table from probabilities to sizes, a \<open>std::map<double, uint64_t>\<close>,
  here the list of its entries in the order of the keys. The result of \<open>drand()\<close>, and of \<open>pareto\<close>,
  which calls the C library's \<open>pow\<close>, are arguments. Reading \<open>end()\<close> or an iterator before the first
  entry is undefined behaviour, \<open>None\<close>.
\<close>

section \<open>Tables\<close>

datatype flow_dist = UNIFORM | PARETO | ENTERPRISE | DATAMINING

text \<open>The literals of the probabilities, in millionths.\<close>

definition enterprise_size :: "nat list" where
  "enterprise_size = [
    250, 270, 286, 297, 312, 327, 342, 356, 368, 383, 404, 427, 447, 469, 490, 512, 536,
     561, 587, 612, 636, 651, 674, 696, 708, 729, 753, 782, 820, 857, 900, 945, 990, 1036,
     1086, 1140, 1200, 1260, 1311, 1353, 1393, 1452, 1485, 1510, 1540, 1597, 1658, 1721,
     1784, 1873, 1978, 2079, 2160, 2267, 2395, 2536, 2688, 2862, 2960, 3040, 3163, 3390,
     3603, 3836, 4124, 4406, 4540, 4673, 4952, 5260, 5625, 5938, 6088, 6506, 6976, 7430,
     7800, 8332, 8849, 9477, 10344, 11256, 12396, 13766, 15370, 17417, 19884, 22822, 26285,
     30973, 37152, 45274, 55796, 70997, 94050, 131474, 189792, 344538, 898190, 2221957,
     2624209, 3114668, 3849851, 4904979, 6438497, 8608848, 13392072, 23110447, 40607470,
     44466961, 48564256, 53520618, 59661017, 67292218, 76720988, 92984411, 121274824,
     168707183, 176569410, 184086600, 195504461, 211698244, 230332119, 249070260, 293849828,
     361127656, 440186178, 442950536, 449947224, 466035021, 482515012, 510665738, 561765744,
     669621992, 738727896, 1022256099, 1773379248]"

definition enterprise_millionths :: "nat list" where
  "enterprise_millionths = [
    0, 10000, 20000, 30000, 40000, 50000, 60000, 70000, 80000, 90000, 100000, 110000,
     120000, 130000, 140000, 150000, 160000, 170000, 180000, 190000, 200000, 210000, 220000,
     230000, 240000, 250000, 260000, 270000, 280000, 290000, 300000, 310000, 320000, 330000,
     340000, 350000, 360000, 370000, 380000, 390000, 400000, 410000, 420000, 430000, 440000,
     450000, 460000, 470000, 480000, 490000, 500000, 510000, 520000, 530000, 540000, 550000,
     560000, 570000, 580000, 590000, 600000, 610000, 620000, 630000, 640000, 650000, 660000,
     670000, 680000, 690000, 700000, 710000, 720000, 730000, 740000, 750000, 760000, 770000,
     780000, 790000, 800000, 810000, 820000, 830000, 840000, 850000, 860000, 870000, 880000,
     890000, 900000, 910000, 920000, 930000, 940000, 950000, 960000, 970000, 980000, 990000,
     991000, 992000, 993000, 994000, 995000, 996000, 997000, 998000, 999000, 999100, 999200,
     999300, 999400, 999500, 999600, 999700, 999800, 999900, 999910, 999920, 999930, 999940,
     999950, 999960, 999970, 999980, 999990, 999991, 999992, 999993, 999994, 999995, 999996,
     999997, 999998, 999999, 1000000]"

definition enterprise_prob :: "rat list" where
  "enterprise_prob = map (\<lambda>n. dbl (of_nat n / 1000000)) enterprise_millionths"

definition datamining_size :: "nat list" where
  "datamining_size = [
    150, 180, 216, 560, 900, 1100, 1870, 3160, 10000, 400000, 3160000, 100000000, 1000000000]"

definition datamining_millionths :: "nat list" where
  "datamining_millionths = [
    0, 100000, 200000, 300000, 400000, 500000, 600000, 700000, 800000, 900000, 950000,
     980000, 1000000]"

definition datamining_prob :: "rat list" where
  "datamining_prob = map (\<lambda>n. dbl (of_nat n / 1000000)) datamining_millionths"

section \<open>Operations\<close>

type_synonym cdf = "(rat \<times> u64) list"

text \<open>\<open>_flowSizeCDF[k] = v\<close>.\<close>

fun cdf_put :: "rat \<Rightarrow> u64 \<Rightarrow> cdf \<Rightarrow> cdf" where
  "cdf_put k v [] = [(k, v)]"
| "cdf_put k v ((k', v') # m) =
     (if k < k' then (k, v) # (k', v') # m
      else if k = k' then (k, v) # m
      else (k', v') # cdf_put k v m)"

definition cdf_fill :: "rat list \<Rightarrow> nat list \<Rightarrow> cdf" where
  "cdf_fill ks vs = foldl (\<lambda>m (k, v). cdf_put k (of_nat v) m) [] (zip ks vs)"

record workloads =
  wl_avgFlowSize :: u32
  wl_flowSizeDist :: flow_dist
  wl_flowSizeCDF :: cdf

definition mkWorkloads :: "u32 \<Rightarrow> flow_dist \<Rightarrow> workloads" where
  "mkWorkloads avgFlowSize flowSizeDist =
     (let w = \<lparr>wl_avgFlowSize = avgFlowSize, wl_flowSizeDist = flowSizeDist, wl_flowSizeCDF = []\<rparr>
      in if wl_flowSizeDist w = ENTERPRISE
         then w\<lparr>wl_avgFlowSize := 215000, wl_flowSizeCDF := cdf_fill enterprise_prob enterprise_size\<rparr>
         else if wl_flowSizeDist w = DATAMINING
         then w\<lparr>wl_avgFlowSize := 12500000, wl_flowSizeCDF := cdf_fill datamining_prob datamining_size\<rparr>
         else w)"

text \<open>\<open>upper_bound\<close> and the entry before it.\<close>

fun cdf_segment :: "(rat \<times> u64) option \<Rightarrow> rat \<Rightarrow> cdf \<Rightarrow> ((rat \<times> u64) \<times> (rat \<times> u64)) option" where
  "cdf_segment prv r [] = None"
| "cdf_segment prv r ((k, v) # m) =
     (if r < k then (case prv of None \<Rightarrow> None | Some l \<Rightarrow> Some (l, (k, v)))
      else cdf_segment (Some (k, v)) r m)"

definition wl_interpolate :: "rat \<times> u64 \<Rightarrow> rat \<times> u64 \<Rightarrow> rat \<Rightarrow> u64" where
  "wl_interpolate l r random =
     (let (lp, lv) = l; (rp, rv) = r
      in word_of_int (trunc_rat (dbl (dbl (of_nat (unat lv)) +
           dbl (dbl (dbl (of_nat (unat (rv - lv))) * dbl (random - lp)) / dbl (rp - lp))))))"

definition wl_generateFlowSize :: "workloads \<Rightarrow> rat \<Rightarrow> int \<Rightarrow> u64 option" where
  "wl_generateFlowSize w random par =
     (case wl_flowSizeDist w of
        PARETO \<Rightarrow> Some (word_of_int par)
      | UNIFORM \<Rightarrow> Some (ucast (wl_avgFlowSize w))
      | _ \<Rightarrow> (case cdf_segment None random (wl_flowSizeCDF w) of
                None \<Rightarrow> None
              | Some (l, r) \<Rightarrow> Some (wl_interpolate l r random)))"

section \<open>Lemmas\<close>

text \<open>Filling a table from increasing keys keeps the order of the arrays.\<close>

lemma cdf_put_last: "\<forall>e \<in> set m. fst e < k \<Longrightarrow> cdf_put k v m = m @ [(k, v)]"
  by (induction m) (auto dest: less_imp_neq order.strict_trans)

lemma cdf_fill_zip:
  assumes "sorted_wrt (<) ks"
  shows "cdf_fill ks vs = zip ks (map of_nat vs)"
proof -
  have "foldl (\<lambda>m (k, v). cdf_put k (of_nat v) m) m (zip ks vs) = m @ zip ks (map of_nat vs)"
    if "\<forall>e \<in> set m. \<forall>k \<in> set ks. fst e < k" for m :: cdf
    using assms that
  proof (induction ks arbitrary: vs m)
    case (Cons k ks)
    show ?case
    proof (cases vs)
      case (Cons v ws)
      have "cdf_put k (of_nat v) m = m @ [(k, of_nat v)]" using Cons.prems(2) by (intro cdf_put_last) simp
      then show ?thesis
        using Cons Cons.prems Cons.IH [of "m @ [(k, of_nat v)]" ws] by auto
    qed simp
  qed simp
  from this [of "[]"] show ?thesis by (simp add: cdf_fill_def)
qed

text \<open>Decimal literals that differ by a millionth are rounded to different doubles.\<close>

lemma dbl_millionth_gap:
  assumes "i < j" "j \<le> 1000000"
  shows "1 / 2 ^ 30 \<le> dbl (of_nat j / 1000000) - dbl (of_nat i / 1000000)"
    "0 \<le> dbl (of_nat i / 1000000)" "dbl (of_nat j / 1000000) \<le> 1"
proof -
  have n: "(of_nat (i + 1) :: rat) \<le> of_nat j" "(of_nat j :: rat) \<le> of_nat 1000000"
    unfolding of_nat_le_iff using assms by simp_all
  then have x: "0 \<le> (of_nat i / 1000000 :: rat)" "(of_nat i / 1000000 :: rat) + 1 / 1000000 \<le> of_nat j / 1000000"
    "(of_nat j / 1000000 :: rat) \<le> 1"
    by simp_all
  show "0 \<le> dbl (of_nat i / 1000000)" using x(1) by (rule dbl_nonneg)
  show "dbl (of_nat j / 1000000) \<le> 1" using dbl_le_int [of "of_nat j / 1000000" 1] x(3) by simp
  have "dbl (of_nat i / 1000000) \<le> of_nat i / 1000000 + 1 / 2 ^ 53 + 1 / 2 ^ 100"
    using dbl_error(1) [OF x(1)] x by simp
  moreover have "of_nat j / 1000000 - 1 / 2 ^ 53 - 1 / 2 ^ 100 \<le> dbl (of_nat j / 1000000)"
    using dbl_error(2) [of "of_nat j / 1000000"] x by simp
  ultimately show "1 / 2 ^ 30 \<le> dbl (of_nat j / 1000000) - dbl (of_nat i / 1000000)"
    using x(2) by simp
qed

section \<open>Interpolation\<close>

lemma wl_interpolate_bounds:
  assumes "lp \<le> r" "r < rp" "1 / 2 ^ 30 \<le> rp - lp" "lv \<le> rv" "unat rv < 2 ^ 40"
  shows "lv \<le> wl_interpolate (lp, lv) (rp, rv) r \<and> wl_interpolate (lp, lv) (rp, rv) r \<le> rv"
proof -
  define a where "a = unat lv"
  define x where "x = unat (rv - lv)"
  have ax: "unat rv = a + x" "a + x < 2 ^ 40"
    using assms(4,5) unat_sub_nowrap [of lv rv] by (simp_all add: a_def x_def word_le_nat_alt)
  have n: "dbl (of_nat a) = of_nat a" "dbl (of_nat x) = of_nat x" using ax(2) by (intro dbl_of_nat; simp)+
  define d where "d = dbl (rp - lp)"
  have d: "1 / 2 ^ 30 \<le> d" using dbl_ge_dyadic [of 1 30 "rp - lp"] assms(3) by (simp add: d_def)
  have s: "0 \<le> dbl (r - lp)" "dbl (r - lp) \<le> d"
    using assms(1,2) by (auto intro: dbl_nonneg dbl_mono simp: d_def)
  have xr: "(of_nat x :: rat) \<le> of_nat (2 ^ 40)" unfolding of_nat_le_iff using ax(2) by simp
  have "dbl (of_nat x * dbl (r - lp)) \<le> dbl (of_nat x * d)" using s by (intro dbl_mono mult_left_mono) simp_all
  also have "\<dots> \<le> of_nat x * d + of_nat x * d / 2 ^ 53 + 1 / 2 ^ 100" using d by (intro dbl_error(1)) simp
  also have "\<dots> \<le> (of_nat x + 1 / 8) * d"
  proof -
    define e where "e = of_nat x * d"
    have "e \<le> 1099511627776 * d" unfolding e_def using xr d by (intro mult_right_mono) simp_all
    then have "e / 2 ^ 53 + 1 / 2 ^ 100 \<le> 1 / 8 * d" using d by simp
    then show ?thesis by (simp add: e_def algebra_simps)
  qed
  finally have "dbl (of_nat x * dbl (r - lp)) / d \<le> of_int (int (8 * x + 1)) / 2 ^ 3"
    using d by (simp add: field_simps)
  then have q: "dbl (dbl (of_nat x * dbl (r - lp)) / d) \<le> of_int (int (8 * x + 1)) / 2 ^ 3"
    using ax(2) by (intro dbl_le_dyadic) simp_all
  have q0: "0 \<le> dbl (dbl (of_nat x * dbl (r - lp)) / d)"
    using s(1) d assms(1) by (intro dbl_nonneg divide_nonneg_nonneg mult_nonneg_nonneg) simp_all
  define y where "y = dbl (of_nat a + dbl (dbl (of_nat x * dbl (r - lp)) / d))"
  have "of_nat a + dbl (dbl (of_nat x * dbl (r - lp)) / d) \<le> of_int (int (8 * (a + x) + 1)) / 2 ^ 3"
    using q by simp
  then have "y \<le> of_int (int (8 * (a + x) + 1)) / 2 ^ 3"
    unfolding y_def using ax(2) by (intro dbl_le_dyadic) simp_all
  moreover have "of_int (int a) \<le> y" unfolding y_def using q0 ax(2) by (intro dbl_ge_int) simp_all
  ultimately have y: "of_int (int a) \<le> y" "y < of_int (int (a + x)) + 1" by simp_all
  then have y0: "0 \<le> y" by (metis of_int_0_le_iff of_nat_0_le_iff order.trans)
  have t: "int a \<le> trunc_rat y" "trunc_rat y \<le> int (a + x)"
    using y y0 by (auto simp: trunc_rat_def le_floor_iff floor_le_iff)
  have "unat (word_of_int (trunc_rat y) :: u64) = nat (trunc_rat y)"
    using t ax(2) by (intro unat_word_of_int_64) simp_all
  moreover have "wl_interpolate (lp, lv) (rp, rv) r = word_of_int (trunc_rat y)"
    unfolding wl_interpolate_def Let_def prod.case y_def a_def [symmetric] x_def [symmetric] d_def [symmetric] n ..
  ultimately have "unat (wl_interpolate (lp, lv) (rp, rv) r) = nat (trunc_rat y)" by simp
  then show ?thesis using t ax(1) unfolding word_le_nat_alt a_def [symmetric] by linarith
qed

text \<open>A table whose probabilities and sizes increase.\<close>

fun table_ok :: "cdf \<Rightarrow> bool" where
  "table_ok ((k, v) # (k', v') # m) \<longleftrightarrow>
     1 / 2 ^ 30 \<le> k' - k \<and> v \<le> v' \<and> unat v' < 2 ^ 40 \<and> table_ok ((k', v') # m)"
| "table_ok _ \<longleftrightarrow> True"

lemma table_ok_last: "table_ok ((k, v) # m) \<Longrightarrow> k \<le> fst (last ((k, v) # m)) \<and> v \<le> snd (last ((k, v) # m))"
proof (induction m arbitrary: k v)
  case (Cons e m)
  obtain k' v' where e: "e = (k', v')" by (cases e)
  have "k \<le> k'" using Cons.prems e by simp
  moreover have "v \<le> v'" using Cons.prems e by simp
  ultimately show ?case using Cons e by fastforce
qed simp

lemma cdf_segment_spec:
  assumes "table_ok ((k, v) # m)" "k \<le> r" "r < fst (last ((k, v) # m))"
  shows "\<exists>lp lv rp rv. cdf_segment (Some (k, v)) r m = Some ((lp, lv), (rp, rv)) \<and> lp \<le> r \<and> r < rp \<and>
    1 / 2 ^ 30 \<le> rp - lp \<and> lv \<le> rv \<and> unat rv < 2 ^ 40 \<and> v \<le> lv \<and> rv \<le> snd (last ((k, v) # m))"
  using assms
proof (induction m arbitrary: k v)
  case Nil
  then show ?case by simp
next
  case (Cons e m)
  obtain k' v' where e: "e = (k', v')" by (cases e)
  show ?case
  proof (cases "r < k'")
    case True
    then show ?thesis using Cons.prems table_ok_last [of k' v' m] by (simp add: e)
  next
    case False
    have p: "table_ok ((k', v') # m)" "k' \<le> r" "r < fst (last ((k', v') # m))" "v \<le> v'"
      using Cons.prems False by (simp_all add: e)
    show ?thesis using Cons.IH [OF p(1-3)] p(4) False by (fastforce simp: e)
  qed
qed

lemma cdf_segment_end:
  "\<forall>e \<in> set m. fst e \<le> r \<Longrightarrow> cdf_segment prv r m = None"
  by (induction m arbitrary: prv) auto

section \<open>The two tables\<close>

fun increasing :: "nat list \<Rightarrow> bool" where
  "increasing (a # b # xs) \<longleftrightarrow> a < b \<and> increasing (b # xs)"
| "increasing _ \<longleftrightarrow> True"

lemma table_ok_single [simp]: "table_ok (zip [k] vs)"
  by (cases vs) simp_all

lemma table_ok_zip:
  assumes "increasing ns" "increasing vs" "\<forall>n \<in> set ns. n \<le> 1000000" "\<forall>v \<in> set vs. v < 2 ^ 40"
  shows "table_ok (zip (map (\<lambda>n. dbl (of_nat n / 1000000)) ns) (map of_nat vs))"
  using assms
proof (induction ns arbitrary: vs rule: increasing.induct)
  case (1 a b ns)
  show ?case
  proof (cases vs)
    case v: (Cons v ws)
    show ?thesis
    proof (cases ws)
      case (Cons v' us)
      have "(of_nat v :: u64) \<le> of_nat v'" "unat (of_nat v' :: u64) < 2 ^ 40"
        using 1(3,5) v Cons by (simp_all add: of_nat_le_64 unat_of_nat_64)
      then show ?thesis
        using 1 v Cons dbl_millionth_gap(1) [of a b] "1.IH" [of ws] by simp
    qed (simp add: v)
  qed simp
qed simp_all

lemma increasing_dbl_sorted:
  assumes "increasing ns" "\<forall>n \<in> set ns. n \<le> 1000000"
  shows "sorted_wrt (<) (map (\<lambda>n. dbl (of_nat n / 1000000)) ns)"
proof -
  have "sorted_wrt (<) ns" using assms(1)
  proof (induction ns rule: increasing.induct)
    case (1 a b ns)
    then show ?case by (auto dest: less_trans)
  qed auto
  then show ?thesis using assms(2)
  proof (induction ns)
    case (Cons n ns)
    have "dbl (of_nat n / 1000000) < dbl (of_nat j / 1000000)" if "j \<in> set ns" for j
    proof -
      have "n < j" "j \<le> 1000000" using Cons.prems that by auto
      moreover have "(0 :: rat) < 1 / 2 ^ 30" by simp
      ultimately show ?thesis using dbl_millionth_gap(1) [of n j] by linarith
    qed
    then show ?case using Cons by simp
  qed simp
qed

definition wl_table :: "cdf \<Rightarrow> bool" where
  "wl_table m \<longleftrightarrow> m \<noteq> [] \<and> table_ok m \<and> fst (hd m) = 0 \<and> fst (last m) = 1"

lemma wl_table_fill:
  assumes "increasing ns" "increasing vs" "\<forall>n \<in> set ns. n \<le> 1000000" "\<forall>v \<in> set vs. v < 2 ^ 40"
    and "length ns = length vs" "ns \<noteq> []" "hd ns = 0" "last ns = 1000000"
  shows "wl_table (cdf_fill (map (\<lambda>n. dbl (of_nat n / 1000000)) ns) vs)"
    "snd (hd (cdf_fill (map (\<lambda>n. dbl (of_nat n / 1000000)) ns) vs)) = of_nat (hd vs)"
    "snd (last (cdf_fill (map (\<lambda>n. dbl (of_nat n / 1000000)) ns) vs)) = of_nat (last vs)"
proof -
  let ?ks = "map (\<lambda>n. dbl (of_nat n / 1000000)) ns"
  have e: "cdf_fill ?ks vs = zip ?ks (map of_nat vs)"
    using cdf_fill_zip increasing_dbl_sorted assms(1,3) by blast
  have l: "vs \<noteq> []" "length ?ks = length (map of_nat vs)" using assms(5,6) by auto
  have "dbl 1 = 1" using dbl_of_int [of 1] by simp
  then show "wl_table (cdf_fill ?ks vs)"
    using table_ok_zip [OF assms(1-4)] l assms(5-8) unfolding e wl_table_def
    by (simp add: hd_zip last_zip hd_map last_map)
  show "snd (hd (cdf_fill ?ks vs)) = of_nat (hd vs)" "snd (last (cdf_fill ?ks vs)) = of_nat (last vs)"
    using l assms(5,6) unfolding e by (simp_all add: hd_zip last_zip hd_map last_map)
qed

lemma enterprise_table:
  "wl_table (cdf_fill enterprise_prob enterprise_size)"
  "snd (hd (cdf_fill enterprise_prob enterprise_size)) = 250"
  "snd (last (cdf_fill enterprise_prob enterprise_size)) = 1773379248"
proof -
  have n: "increasing enterprise_millionths" "\<forall>n \<in> set enterprise_millionths. n \<le> 1000000"
    "enterprise_millionths \<noteq> []" "hd enterprise_millionths = 0" "last enterprise_millionths = 1000000"
    by (simp_all add: enterprise_millionths_def)
  have v: "increasing enterprise_size" "\<forall>v \<in> set enterprise_size. v < 2 ^ 40"
    "hd enterprise_size = 250" "last enterprise_size = 1773379248"
    by (simp_all add: enterprise_size_def)
  have l: "length enterprise_millionths = length enterprise_size"
    by (simp add: enterprise_millionths_def enterprise_size_def)
  show "wl_table (cdf_fill enterprise_prob enterprise_size)"
    "snd (hd (cdf_fill enterprise_prob enterprise_size)) = 250"
    "snd (last (cdf_fill enterprise_prob enterprise_size)) = 1773379248"
    using wl_table_fill [OF n(1) v(1) n(2) v(2) l n(3-5)] v(3,4) unfolding enterprise_prob_def by simp_all
qed

lemma datamining_table:
  "wl_table (cdf_fill datamining_prob datamining_size)"
  "snd (hd (cdf_fill datamining_prob datamining_size)) = 150"
  "snd (last (cdf_fill datamining_prob datamining_size)) = 1000000000"
proof -
  have n: "increasing datamining_millionths" "\<forall>n \<in> set datamining_millionths. n \<le> 1000000"
    "datamining_millionths \<noteq> []" "hd datamining_millionths = 0" "last datamining_millionths = 1000000"
    by (simp_all add: datamining_millionths_def)
  have v: "increasing datamining_size" "\<forall>v \<in> set datamining_size. v < 2 ^ 40"
    "hd datamining_size = 150" "last datamining_size = 1000000000"
    by (simp_all add: datamining_size_def)
  have l: "length datamining_millionths = length datamining_size"
    by (simp add: datamining_millionths_def datamining_size_def)
  show "wl_table (cdf_fill datamining_prob datamining_size)"
    "snd (hd (cdf_fill datamining_prob datamining_size)) = 150"
    "snd (last (cdf_fill datamining_prob datamining_size)) = 1000000000"
    using wl_table_fill [OF n(1) v(1) n(2) v(2) l n(3-5)] v(3,4) unfolding datamining_prob_def by simp_all
qed

text \<open>A draw below 1 falls into a segment; the draw 1 does not.\<close>

lemma wl_table_draw:
  assumes "wl_table m" "0 \<le> r" "r < 1"
  shows "\<exists>l u. cdf_segment None r m = Some (l, u) \<and> fst l \<le> r \<and> r < fst u \<and>
    snd (hd m) \<le> wl_interpolate l u r \<and> wl_interpolate l u r \<le> snd (last m)"
proof -
  obtain v t where m: "m = (0, v) # t" using assms(1) by (cases m) (auto simp: wl_table_def)
  have p: "table_ok ((0, v) # t)" "r < fst (last ((0, v) # t))" using assms m by (simp_all add: wl_table_def)
  obtain lp lv rp rv where s: "cdf_segment (Some (0, v)) r t = Some ((lp, lv), (rp, rv))" "lp \<le> r" "r < rp"
    "1 / 2 ^ 30 \<le> rp - lp" "lv \<le> rv" "unat rv < 2 ^ 40" "v \<le> lv" "rv \<le> snd (last ((0, v) # t))"
    using cdf_segment_spec [OF p(1) assms(2) p(2)] by blast
  have "cdf_segment None r m = Some ((lp, lv), (rp, rv))" using s(1) assms(2) m by simp
  moreover have "v \<le> wl_interpolate (lp, lv) (rp, rv) r"
    "wl_interpolate (lp, lv) (rp, rv) r \<le> snd (last ((0, v) # t))"
    using wl_interpolate_bounds [OF s(2-6)] s(7,8) by (metis order.trans)+
  ultimately show ?thesis using s(2,3) unfolding m by (metis fst_conv list.sel(1) snd_conv)
qed

lemma table_ok_keys: "table_ok m \<Longrightarrow> e \<in> set m \<Longrightarrow> fst e \<le> fst (last m)"
proof (induction m)
  case (Cons a m)
  show ?case
  proof (cases "e = a")
    case True
    then show ?thesis using table_ok_last [of "fst a" "snd a" m] Cons.prems(1) by simp
  next
    case False
    then have "e \<in> set m" using Cons.prems(2) by simp
    moreover have "table_ok m" using Cons.prems(1) by (cases a; cases m rule: table_ok.cases) auto
    ultimately show ?thesis using Cons.IH by (cases m) auto
  qed
qed simp

lemma wl_table_one: "wl_table m \<Longrightarrow> 1 \<le> r \<Longrightarrow> cdf_segment None r m = None"
  using table_ok_keys [of m] by (intro cdf_segment_end) (fastforce simp: wl_table_def)

section \<open>Properties\<close>

text \<open>
  C35: the sizes of the trace workloads. A draw below 1 yields a size between the least and the
  greatest of the table, rounding included; the draw 1, which \<open>drand()\<close> can return, reads the end
  of the table.
\<close>

theorem wl_trace_sizes:
  assumes "d = ENTERPRISE \<or> d = DATAMINING" "0 \<le> r" "r < 1"
  shows "(\<exists>size. wl_generateFlowSize (mkWorkloads avg d) r par = Some size \<and>
      (if d = ENTERPRISE then 250 \<le> size \<and> size \<le> 1773379248 else 150 \<le> size \<and> size \<le> 1000000000)) \<and>
    wl_generateFlowSize (mkWorkloads avg d) 1 par = None"
proof (cases "d = ENTERPRISE")
  case True
  then show ?thesis
    using wl_table_draw [OF enterprise_table(1) assms(2,3)] enterprise_table(2,3)
      wl_table_one [OF enterprise_table(1), of 1]
    by (auto simp: wl_generateFlowSize_def mkWorkloads_def)
next
  case False
  then have "d = DATAMINING" using assms(1) by simp
  then show ?thesis
    using wl_table_draw [OF datamining_table(1) assms(2,3)] datamining_table(2,3)
      wl_table_one [OF datamining_table(1), of 1]
    by (auto simp: wl_generateFlowSize_def mkWorkloads_def)
qed

lemma wl_trace_sizes_witness:
  "\<exists>size. wl_generateFlowSize (mkWorkloads 0 DATAMINING) (1 / 2) 0 = Some size \<and> size \<le> 1000000000"
  using wl_trace_sizes [of DATAMINING "1 / 2" 0 0] by auto

end
