(* ===== verification/Timely.thy ===== *)
theory Timely
  imports TcpSinkModel
begin

text \<open>
  \<open>timely.h\<close> and \<open>timely.cpp\<close>: \<open>TimelySrc\<close>, rate-based congestion control from the gradient of the
  round trip time, and \<open>TimelySink\<close>. A \<open>long double\<close> is rounded by \<^const>\<open>ldbl\<close>. A division by zero
  and a conversion of a \<open>double\<close> out of the range of the integer are \<open>None\<close>.
\<close>

section \<open>State\<close>

datatype timely_status = IDLE | NORMAL | RECOVERY | FINISH

record timely_src = data_source +
  tm_state :: timely_status
  tm_recover_seq :: u64
  tm_dupacks :: u16
  tm_bdp_estimate :: u64
  tm_rate :: u64
  tm_drops :: u32
  tm_rtt :: u64
  tm_rto :: u64
  tm_mdev :: u64
  tm_rto_timeout :: u64
  tm_min_rtt :: u64
  tm_prev_rtt :: u64
  tm_rtt_diff :: rat
  tm_rtt_gradient :: rat
  tm_last_rtt_update :: u64
  tm_last_rtt_bytes :: u64
  tm_measured_rate :: u64

definition T_LOW :: u64 where "T_LOW = timeFromUs 20"
definition T_HIGH :: u64 where "T_HIGH = timeFromUs 100"
definition TIMELY_ALPHA :: rat where "TIMELY_ALPHA = ldbl (2 / 100)"
definition TIMELY_DELTA :: int where "TIMELY_DELTA = 10000000"
definition TIMELY_BETA :: rat where "TIMELY_BETA = ldbl (8 / 10)"

definition mkTimelySrc :: "data_source \<Rightarrow> u64 \<Rightarrow> u64 \<Rightarrow> timely_src" where
  "mkTimelySrc base flowsize duration =
     data_source.extend (base\<lparr>src_flowsize := flowsize, src_duration := duration\<rparr>)
       \<lparr>tm_state = IDLE, tm_recover_seq = 0, tm_dupacks = 0, tm_bdp_estimate = 0,
        tm_rate = 10000000000, tm_drops = 0, tm_rtt = 0, tm_rto = timeFromUs (of_int INIT_RTO_US),
        tm_mdev = 0, tm_rto_timeout = 0, tm_min_rtt = 0xffffffffffffffff, tm_prev_rtt = 0,
        tm_rtt_diff = 0, tm_rtt_gradient = 0, tm_last_rtt_update = 0, tm_last_rtt_bytes = 0,
        tm_measured_rate = 0\<rparr>"

section \<open>Sending\<close>

definition timely_flow_sent :: "timely_src \<Rightarrow> bool" where
  "timely_flow_sent s \<longleftrightarrow> src_flowsize s \<noteq> 0 \<and> src_highest_sent s \<ge> src_flowsize s"

definition timely_limited :: "timely_src \<Rightarrow> bool" where
  "timely_limited s \<longleftrightarrow> tm_bdp_estimate s \<noteq> 0 \<and>
     src_highest_sent s - src_last_acked s \<ge>
       tm_bdp_estimate s + tm_bdp_estimate s div 2 + ucast (tm_dupacks s) * MSS64"

definition timely_arm :: "world \<Rightarrow> timely_src \<Rightarrow> timely_src" where
  "timely_arm w s =
     (if tm_rto_timeout s = 0 then s\<lparr>tm_rto_timeout := w_now w + tm_rto s\<rparr> else s)"

definition timely_sendPackets :: "world \<Rightarrow> timely_src \<Rightarrow> world \<times> timely_src \<times> action list" where
  "timely_sendPackets w s =
     (if timely_flow_sent s then (w, s, [])
      else if timely_limited s then (w, s, [])
      else let (p, w, s) = source_newpkt (src_highest_sent s + 1) MSS_BYTES w s;
               as = [Traffic PKT_CREATESEND p];
               p = set_ts (w_now w) p;
               as = as @ [SendOn p];
               s = s\<lparr>src_highest_sent := src_highest_sent s + MSS64\<rparr>;
               s = s\<lparr>src_packets_sent := src_packets_sent s + MSS64\<rparr>
           in (w, timely_arm w s, as))"

definition timely_retransmitPacket :: "world \<Rightarrow> timely_src \<Rightarrow> world \<times> timely_src \<times> action list" where
  "timely_retransmitPacket w s =
     (let (p, w, s) = source_newpkt (src_last_acked s + 1) MSS_BYTES w s;
          as = [Traffic PKT_CREATESEND p];
          p = set_ts (w_now w) p;
          s = (if src_last_acked s = src_highest_sent s
               then s\<lparr>src_highest_sent := src_highest_sent s + MSS64\<rparr> else s);
          s = s\<lparr>src_packets_sent := src_packets_sent s + MSS64\<rparr>;
          as = as @ [SendOn p]
      in (w, timely_arm w s, as))"

section \<open>Timer events\<close>

definition timely_timeout :: "u64 \<Rightarrow> timely_src \<Rightarrow> timely_src" where
  "timely_timeout now s =
     (let s = s\<lparr>tm_recover_seq := src_highest_sent s\<rparr>;
          s = s\<lparr>src_highest_sent := src_last_acked s + MSS64\<rparr>;
          s = s\<lparr>tm_dupacks := 0\<rparr>;
          s = s\<lparr>tm_state := NORMAL\<rparr>;
          s = s\<lparr>tm_rto := tm_rto s * 2\<rparr>
      in s\<lparr>tm_rto_timeout := now + tm_rto s\<rparr>)"

definition timely_start :: "u64 \<Rightarrow> timely_src \<Rightarrow> timely_src" where
  "timely_start now s = s\<lparr>src_highest_sent := 0, src_last_acked := 0,
     tm_bdp_estimate := word_of_int (8 * MSS_BYTES), tm_last_rtt_update := now, tm_state := NORMAL\<rparr>"

text \<open>The time to transmit a segment at the rate; at rate 0 it is not a number of picoseconds.\<close>

definition timely_nextTransmission :: "u64 \<Rightarrow> u64 option" where
  "timely_nextTransmission rate =
     (if rate = 0 then None
      else Some (timeFromSec (dbl (dbl (of_int MSS_BYTES * 8) / dbl (of_nat (unat rate))))))"

text \<open>What precedes the sending: the start of the flow or the retransmission after a timeout.\<close>

definition timely_before :: "world \<Rightarrow> timely_src \<Rightarrow> world \<times> timely_src \<times> action list" where
  "timely_before w s =
     (if tm_state s = IDLE then (w, timely_start (w_now w) s, [])
      else if tm_state s = FINISH then (w, s, [])
      else if tm_rto_timeout s \<noteq> 0 \<and> w_now w \<ge> tm_rto_timeout s
      then timely_retransmitPacket w (timely_timeout (w_now w) s)
      else (w, s, []))"

definition timely_doNextEvent :: "world \<Rightarrow> timely_src \<Rightarrow> (world \<times> timely_src \<times> action list) option" where
  "timely_doNextEvent w s =
     (if tm_state s = FINISH \<and> f_nPackets (src_flow s) = 0 then Some (w, s, [DeleteFlow])
      else let (w, s, as) = timely_before w s;
               (w, s, bs) = (if tm_state s \<noteq> FINISH then timely_sendPackets w s else (w, s, []))
           in do {
             t \<leftarrow> timely_nextTransmission (tm_rate s);
             Some (w, s, as @ bs @ [SchedRel t])
           })"

section \<open>Acknowledgements\<close>

definition timely_flow_done :: "u64 \<Rightarrow> u64 \<Rightarrow> timely_src \<Rightarrow> bool" where
  "timely_flow_done now ack s \<longleftrightarrow>
     (src_flowsize s > 0 \<and> ack \<ge> src_flowsize s) \<or>
     (src_duration s > 0 \<and> now > src_start_time s + src_duration s)"

definition timely_finish :: "timely_src \<Rightarrow> timely_src \<times> action list" where
  "timely_finish s = (s\<lparr>tm_state := FINISH\<rparr>, if src_flowgen s then [FinishFlow (src_id s)] else [])"

definition timely_updateRtt :: "u64 \<Rightarrow> timely_src \<Rightarrow> timely_src" where
  "timely_updateRtt new_rtt s =
     (let s = (if new_rtt < tm_min_rtt s then s\<lparr>tm_min_rtt := new_rtt\<rparr> else s)
      in if new_rtt \<noteq> 0
         then let s = (if tm_rtt s > 0
                       then let d = (if new_rtt > tm_rtt s then new_rtt - tm_rtt s else tm_rtt s - new_rtt);
                                s = s\<lparr>tm_mdev := 3 * tm_mdev s div 4 + d div 4\<rparr>
                            in s\<lparr>tm_rtt := 7 * tm_rtt s div 8 + new_rtt div 8\<rparr>
                       else s\<lparr>tm_rtt := new_rtt, tm_prev_rtt := new_rtt, tm_mdev := new_rtt div 2\<rparr>);
                  s = s\<lparr>tm_rto := tm_rtt s + 4 * tm_mdev s\<rparr>
              in if tm_rto s < timeFromUs (of_int MIN_RTO_US)
                 then s\<lparr>tm_rto := timeFromUs (of_int MIN_RTO_US)\<rparr> else s
         else s)"

text \<open>The moving average of the differences of round trip times, in \<open>long double\<close>.\<close>

definition timely_diff :: "rat \<Rightarrow> u64 \<Rightarrow> u64 \<Rightarrow> rat" where
  "timely_diff old prev new_rtt =
     (let kept = ldbl (old * ldbl (1 - TIMELY_ALPHA))
      in if new_rtt > prev then dbl (ldbl (kept + ldbl (ldbl (of_nat (unat (new_rtt - prev))) * TIMELY_ALPHA)))
         else dbl (ldbl (kept - ldbl (ldbl (of_nat (unat (prev - new_rtt))) * TIMELY_ALPHA))))"

definition timely_updateGradient :: "u64 \<Rightarrow> timely_src \<Rightarrow> timely_src option" where
  "timely_updateGradient new_rtt s =
     (let s = s\<lparr>tm_rtt_diff := timely_diff (tm_rtt_diff s) (tm_prev_rtt s) new_rtt\<rparr>;
          s = s\<lparr>tm_prev_rtt := new_rtt\<rparr>
      in if tm_min_rtt s = 0 then None
         else Some (s\<lparr>tm_rtt_gradient := dbl (tm_rtt_diff s / dbl (of_nat (unat (tm_min_rtt s))))\<rparr>))"

text \<open>The three branches of the rate update. \<open>T_HIGH / new_rtt\<close> divides integers.\<close>

definition timely_decrease :: "u64 \<Rightarrow> u64 \<Rightarrow> rat" where
  "timely_decrease rate new_rtt =
     dbl (ldbl (ldbl (of_nat (unat rate)) *
       ldbl (1 - ldbl (TIMELY_BETA * ldbl (of_nat (unat (1 - T_HIGH div new_rtt)))))))"

definition timely_weight :: "rat \<Rightarrow> rat" where
  "timely_weight gradient =
     (let weight = dbl (dbl (2 * gradient) + 1 / 2)
      in if weight < 0 then 0 else if weight > 1 then 1 else weight)"

definition timely_patched :: "u64 \<Rightarrow> rat \<Rightarrow> u64 \<Rightarrow> rat" where
  "timely_patched rate gradient new_rtt =
     (let weight = timely_weight gradient;
          error = dbl (ldbl (ldbl (of_nat (unat (new_rtt - T_LOW))) / ldbl (of_nat (unat T_LOW))));
          gain = ldbl (ldbl (ldbl (8 / 1000) * weight) * error)
      in dbl (ldbl (dbl (dbl (1 - weight) * of_int TIMELY_DELTA) +
                    ldbl (ldbl (of_nat (unat rate)) * ldbl (1 - gain)))))"

definition timely_newRate :: "u64 \<Rightarrow> rat \<Rightarrow> u64 \<Rightarrow> rat" where
  "timely_newRate rate gradient new_rtt =
     (if new_rtt < T_LOW then dbl (of_nat (unat (rate + word_of_int TIMELY_DELTA)))
      else if new_rtt > T_HIGH then timely_decrease rate new_rtt
      else timely_patched rate gradient new_rtt)"

text \<open>The rate stored for \<open>new_rate\<close>; the second test reads the rate that was stored just before.\<close>

definition timely_clampRate :: "rat \<Rightarrow> u64" where
  "timely_clampRate new_rate =
     (let rate = word_of_int (llround new_rate) :: u64;
          rate = (if new_rate > 10000000000 then 10000000000 else rate)
      in if new_rate < dbl (of_nat (unat (rate div 2))) then rate div 2 else rate)"

definition timely_updateRate :: "u64 \<Rightarrow> u64 \<Rightarrow> timely_src \<Rightarrow> timely_src option" where
  "timely_updateRate now new_rtt s =
     (let s = s\<lparr>tm_rate := timely_clampRate (timely_newRate (tm_rate s) (tm_rtt_gradient s) new_rtt)\<rparr>;
          s = s\<lparr>tm_bdp_estimate := word_of_int (llround (dbl (dbl (dbl (of_nat (unat (tm_rate s))) *
                   timeAsSec (tm_min_rtt s)) / 8)))\<rparr>;
          secs = timeAsSec (now - tm_last_rtt_update s)
      in if secs = 0 then None
         else let m = trunc_rat (dbl (dbl (of_nat (unat (src_last_acked s - tm_last_rtt_bytes s))) / secs))
              in if m \<ge> 2 ^ 64 then None
                 else Some (s\<lparr>tm_measured_rate := word_of_int m, tm_last_rtt_update := now,
                              tm_last_rtt_bytes := src_last_acked s\<rparr>))"

text \<open>The acknowledgement proper.\<close>

definition timely_newAck :: "world \<Rightarrow> u64 \<Rightarrow> timely_src \<Rightarrow> world \<times> timely_src \<times> action list" where
  "timely_newAck w ack s =
     (let bytes_acked = ack - src_last_acked s;
          s = s\<lparr>src_last_acked := ack\<rparr>;
          s = s\<lparr>tm_rto_timeout := w_now w + tm_rto s\<rparr>;
          s = (if ack = src_highest_sent s then s\<lparr>tm_rto_timeout := 0\<rparr> else s)
      in if tm_state s \<noteq> RECOVERY then (w, s\<lparr>tm_dupacks := 0\<rparr>, [])
         else if ack < tm_recover_seq s
         then timely_retransmitPacket w
                (s\<lparr>tm_dupacks := ucast (ucast (tm_dupacks s) - bytes_acked div MSS64 + 1)\<rparr>)
         else (w, s\<lparr>tm_dupacks := 0, tm_state := NORMAL\<rparr>, []))"

definition timely_dupAck :: "world \<Rightarrow> timely_src \<Rightarrow> world \<times> timely_src \<times> action list" where
  "timely_dupAck w s =
     (if tm_state s = RECOVERY then (w, s\<lparr>tm_dupacks := tm_dupacks s + 1\<rparr>, [])
      else let s = s\<lparr>tm_dupacks := tm_dupacks s + 1\<rparr>
           in if tm_dupacks s \<noteq> 3 \<or> src_last_acked s < tm_recover_seq s then (w, s, [])
              else let s = s\<lparr>tm_drops := tm_drops s + 1\<rparr>;
                       s = s\<lparr>tm_state := RECOVERY\<rparr>;
                       s = s\<lparr>tm_recover_seq := src_highest_sent s\<rparr>
                   in timely_retransmitPacket w s)"

definition timely_receivePacket ::
  "world \<Rightarrow> timely_src \<Rightarrow> packet \<Rightarrow> (world \<times> timely_src \<times> action list) option" where
  "timely_receivePacket w s pkt =
     (case p_class pkt of
        DataPacket _ _ \<Rightarrow> None
      | DataAck _ ack ts0 \<Rightarrow>
          let as = [Traffic PKT_RCVDESTROY pkt];
              (w, s) = source_free_ack pkt w s
          in if tm_state s = FINISH then Some (w, s, as)
             else if timely_flow_done (w_now w) ack s
             then let (s, bs) = timely_finish s in Some (w, s, as @ bs)
             else if ack < src_last_acked s then Some (w, s, as)
             else let new_rtt = w_now w - ts0
                  in do {
                    s \<leftarrow> timely_updateGradient new_rtt (timely_updateRtt new_rtt s);
                    s \<leftarrow> (if src_last_acked s > tm_last_rtt_bytes s + tm_bdp_estimate s
                          then timely_updateRate (w_now w) new_rtt s else Some s);
                    let (w, s, bs) = (if ack > src_last_acked s then timely_newAck w ack s
                                      else timely_dupAck w s);
                    Some (w, s, as @ bs)
                  })"

section \<open>The sink\<close>

definition timely_sink_receivePacket ::
  "world \<Rightarrow> packet_flow \<Rightarrow> tcp_sink \<Rightarrow> packet \<Rightarrow> (world \<times> packet_flow \<times> tcp_sink \<times> action list) option" where
  "timely_sink_receivePacket w flow d p =
     (case p_class p of
        DataAck _ _ _ \<Rightarrow> None
      | DataPacket sq ts0 \<Rightarrow>
          let d = processDataPacket d sq (p_size p);
              as = [Traffic PKT_RCVDESTROY p];
              (db, flow) = pkt_free (w_datadb w) flow p;
              w = w\<lparr>w_datadb := db\<rparr>;
              (ack, adb, flow) = newDataAck (w_fresh w) (w_ackdb w) flow (sk_route d) 1 (ds_cumulative_ack d);
              w = w\<lparr>w_ackdb := adb\<rparr>;
              as = as @ [Traffic PKT_CREATESEND ack];
              ack = set_ts ts0 ack
          in Some (w, flow, d, as @ [SendOn ack]))"

end
