(* ===== verification/PacketPair.thy ===== *)
theory PacketPair
  imports Tcp TcpSinkModel
begin

text \<open>
  \<open>packetpair.h\<close> and \<open>packetpair.cpp\<close>: \<open>PacketPairSrc\<close> sends pairs of segments back to back and
  paces them by the bottleneck rate that \<open>PacketPairSink\<close> reads from the distance at which the pairs
  arrive. A \<open>long double\<close> is rounded by \<^const>\<open>ldbl\<close>. A division by zero and a conversion of a \<open>double\<close>
  out of the range of the integer are \<open>None\<close>.
\<close>

section \<open>State\<close>

datatype pp_status = IDLE | STARTUP | NORMAL | RECOVERY | FINISH

record pp_src = data_source +
  pp_state :: pp_status
  pp_recover_seq :: u64
  pp_dupacks :: u16
  pp_bdp_estimate :: u64
  pp_rate_estimate :: u64
  pp_rtt_gradient :: rat
  pp_pktpair_ewma :: u64
  pp_drops :: u32
  pp_rtt :: u64
  pp_rto :: u64
  pp_mdev :: u64
  pp_min_rtt :: u64
  pp_prev_rtt :: u64
  pp_first_rto :: u64
  pp_rto_timeout :: u64
  pp_last_rtt_update :: u64
  pp_last_rtt_bytes :: u64
  pp_measured_rate :: u64
  pp_alpha :: rat
  pp_marked_pkts :: u32
  pp_total_pkts :: u32

definition PKTPAIR_GAIN :: rat where "PKTPAIR_GAIN = 1 / 2"
definition RTT_GAIN :: rat where "RTT_GAIN = 1 / 8"

definition mkPacketPairSrc :: "data_source \<Rightarrow> u64 \<Rightarrow> u64 \<Rightarrow> pp_src" where
  "mkPacketPairSrc base flowsize duration =
     data_source.extend (base\<lparr>src_flowsize := flowsize, src_duration := duration\<rparr>)
       \<lparr>pp_state = IDLE, pp_recover_seq = 0, pp_dupacks = 0, pp_bdp_estimate = 0,
        pp_rate_estimate = 0, pp_rtt_gradient = 0, pp_pktpair_ewma = 0, pp_drops = 0, pp_rtt = 0,
        pp_rto = timeFromUs (of_int INIT_RTO_US), pp_mdev = 0, pp_min_rtt = 0xffffffffffffffff,
        pp_prev_rtt = 0, pp_first_rto = 0, pp_rto_timeout = 0, pp_last_rtt_update = 0,
        pp_last_rtt_bytes = 0, pp_measured_rate = 0, pp_alpha = 0, pp_marked_pkts = 0,
        pp_total_pkts = 0\<rparr>"

section \<open>Sending\<close>

definition pp_flow_sent :: "pp_src \<Rightarrow> bool" where
  "pp_flow_sent s \<longleftrightarrow> src_flowsize s \<noteq> 0 \<and> src_highest_sent s \<ge> src_flowsize s"

definition pp_limited :: "pp_src \<Rightarrow> bool" where
  "pp_limited s \<longleftrightarrow>
     (let bdp_limit = pp_bdp_estimate s + pp_bdp_estimate s div 2 + ucast (pp_dupacks s) * MSS64
      in pp_bdp_estimate s \<noteq> 0 \<and> src_highest_sent s - src_last_acked s > bdp_limit)"

definition pp_arm :: "world \<Rightarrow> pp_src \<Rightarrow> pp_src" where
  "pp_arm w s = (if pp_rto_timeout s = 0 then s\<lparr>pp_rto_timeout := w_now w + pp_rto s\<rparr> else s)"

text \<open>One packet of the pair; the first one carries the flag \<open>PP_FIRST\<close>.\<close>

definition pp_sendOne :: "bool \<Rightarrow> world \<Rightarrow> pp_src \<Rightarrow> world \<times> pp_src \<times> action list" where
  "pp_sendOne fst_pkt w s =
     (let (p, w, s) = source_newpkt (src_highest_sent s + 1) MSS_BYTES w s;
          as = [Traffic PKT_CREATESEND p];
          p = set_ts (w_now w) p;
          p = (if fst_pkt then setFlag PP_FIRST p else p);
          as = as @ [SendOn p];
          s = s\<lparr>src_highest_sent := src_highest_sent s + MSS64\<rparr>;
          s = s\<lparr>src_packets_sent := src_packets_sent s + MSS64\<rparr>
      in (w, s, as))"

definition pp_transmitPacketPair :: "world \<Rightarrow> pp_src \<Rightarrow> world \<times> pp_src \<times> action list" where
  "pp_transmitPacketPair w s =
     (if pp_flow_sent s then (w, s, [])
      else if pp_limited s then (w, s, [])
      else let (w, s, as) = pp_sendOne True w s;
               s = pp_arm w s
           in if pp_flow_sent s then (w, s, as)
              else let (w, s, bs) = pp_sendOne False w s in (w, s, as @ bs))"

text \<open>The time to transmit a pair at the estimated rate; at rate 0 it is not a number of picoseconds.\<close>

definition pp_nextTransmission :: "u64 \<Rightarrow> u64 option" where
  "pp_nextTransmission rate =
     (if rate = 0 then None
      else Some (timeFromSec (dbl (dbl (dbl (2 * of_int MSS_BYTES) * 8) / dbl (of_nat (unat rate))))))"

definition pp_sendPackets :: "world \<Rightarrow> pp_src \<Rightarrow> (world \<times> pp_src \<times> action list) option" where
  "pp_sendPackets w s =
     (let (w, s, as) = pp_transmitPacketPair w s
      in do {
        t \<leftarrow> pp_nextTransmission (pp_rate_estimate s);
        Some (w, s, as @ [SchedRel t])
      })"

definition pp_retransmitPacket :: "world \<Rightarrow> pp_src \<Rightarrow> world \<times> pp_src \<times> action list" where
  "pp_retransmitPacket w s =
     (let (p, w, s) = source_newpkt (src_last_acked s + 1) MSS_BYTES w s;
          as = [Traffic PKT_CREATESEND p];
          p = set_ts (w_now w) p;
          s = (if src_last_acked s = src_highest_sent s
               then s\<lparr>src_highest_sent := src_highest_sent s + MSS64\<rparr> else s);
          s = s\<lparr>src_packets_sent := src_packets_sent s + MSS64\<rparr>;
          as = as @ [SendOn p]
      in (w, pp_arm w s, as))"

section \<open>Timer events\<close>

definition pp_timeout :: "u64 \<Rightarrow> pp_src \<Rightarrow> pp_src" where
  "pp_timeout now s =
     (let s = s\<lparr>pp_recover_seq := src_highest_sent s\<rparr>;
          s = s\<lparr>src_highest_sent := src_last_acked s + MSS64\<rparr>;
          s = s\<lparr>pp_dupacks := 0\<rparr>;
          s = s\<lparr>pp_state := NORMAL\<rparr>;
          s = s\<lparr>pp_rto := pp_rto s * 2\<rparr>
      in s\<lparr>pp_rto_timeout := now + pp_rto s\<rparr>)"

text \<open>The first transmission, repeated when the first timeout finds the source still starting.\<close>

definition pp_startup :: "world \<Rightarrow> pp_src \<Rightarrow> world \<times> pp_src \<times> action list" where
  "pp_startup w s =
     (let s = s\<lparr>src_highest_sent := 0, src_last_acked := 0,
                 pp_bdp_estimate := word_of_int (2 * MSS_BYTES)\<rparr>;
          (w, s, as) = pp_transmitPacketPair w s;
          s = s\<lparr>pp_first_rto := w_now w + pp_rto s\<rparr>;
          s = s\<lparr>pp_last_rtt_update := w_now w, pp_state := STARTUP\<rparr>
      in (w, s, as @ [SchedRel (pp_rto s)]))"

text \<open>The retransmission after a timeout.\<close>

definition pp_before :: "world \<Rightarrow> pp_src \<Rightarrow> world \<times> pp_src \<times> action list" where
  "pp_before w s =
     (if pp_state s \<noteq> FINISH \<and> pp_rto_timeout s \<noteq> 0 \<and> w_now w \<ge> pp_rto_timeout s
      then pp_retransmitPacket w (pp_timeout (w_now w) s)
      else (w, s, []))"

definition pp_doNextEvent :: "world \<Rightarrow> pp_src \<Rightarrow> (world \<times> pp_src \<times> action list) option" where
  "pp_doNextEvent w s =
     (if pp_state s = IDLE \<or> (pp_state s = STARTUP \<and> w_now w = pp_first_rto s)
      then Some (pp_startup w s)
      else if pp_state s = FINISH \<and> f_nPackets (src_flow s) = 0 \<and> w_now w > pp_first_rto s
      then Some (w, s, [DeleteFlow])
      else let (w, s, as) = pp_before w s
           in if w_now w = pp_first_rto s then Some (w, s, as)
              else if pp_state s \<noteq> FINISH
              then do { (w, s, bs) \<leftarrow> pp_sendPackets w s; Some (w, s, as @ bs) }
              else Some (w, s, as @ [SchedRel (pp_rtt s)]))"

section \<open>Acknowledgements\<close>

definition pp_flow_done :: "u64 \<Rightarrow> u64 \<Rightarrow> pp_src \<Rightarrow> bool" where
  "pp_flow_done now ack s \<longleftrightarrow>
     (src_flowsize s > 0 \<and> ack \<ge> src_flowsize s) \<or>
     (src_duration s > 0 \<and> now > src_start_time s + src_duration s)"

definition pp_finish :: "pp_src \<Rightarrow> pp_src \<times> action list" where
  "pp_finish s = (s\<lparr>pp_state := FINISH\<rparr>, if src_flowgen s then [FinishFlow (src_id s)] else [])"

text \<open>The measured transfer rate, once in a round trip time.\<close>

definition pp_measureRate :: "u64 \<Rightarrow> pp_src \<Rightarrow> pp_src option" where
  "pp_measureRate now s =
     (if pp_rtt s > 0 \<and> now > pp_last_rtt_update s + pp_rtt s
      then let secs = timeAsSec (now - pp_last_rtt_update s)
           in if secs = 0 then None
              else let m = trunc_rat (dbl (dbl (of_nat (unat
                             ((src_last_acked s - pp_last_rtt_bytes s) * 8))) / secs))
                   in if m \<ge> 2 ^ 64 then None
                      else Some (s\<lparr>pp_measured_rate := word_of_int m, pp_last_rtt_update := now,
                                   pp_last_rtt_bytes := src_last_acked s\<rparr>)
      else Some s)"

definition pp_updateRtt :: "u64 \<Rightarrow> pp_src \<Rightarrow> pp_src" where
  "pp_updateRtt new_rtt s =
     (let s = (if new_rtt < pp_min_rtt s then s\<lparr>pp_min_rtt := new_rtt\<rparr> else s)
      in if new_rtt \<noteq> 0
         then let s = (if pp_rtt s > 0
                       then let d = (if new_rtt > pp_rtt s then new_rtt - pp_rtt s else pp_rtt s - new_rtt);
                                s = s\<lparr>pp_mdev := 3 * pp_mdev s div 4 + d div 4\<rparr>
                            in s\<lparr>pp_rtt := 7 * pp_rtt s div 8 + new_rtt div 8\<rparr>
                       else s\<lparr>pp_rtt := new_rtt, pp_mdev := new_rtt div 2\<rparr>);
                  s = s\<lparr>pp_rto := pp_rtt s + 4 * pp_mdev s\<rparr>
              in if pp_rto s < timeFromUs (of_int MIN_RTO_US)
                 then s\<lparr>pp_rto := timeFromUs (of_int MIN_RTO_US)\<rparr> else s
         else s)"

text \<open>The fraction of marked packets over a window; its update is that of DCTCP.\<close>

definition pp_updateAlpha :: "bool \<Rightarrow> pp_src \<Rightarrow> pp_src" where
  "pp_updateAlpha marked s =
     (let s = (if marked then s\<lparr>pp_marked_pkts := pp_marked_pkts s + 1\<rparr> else s);
          s = s\<lparr>pp_total_pkts := pp_total_pkts s + 1\<rparr>
      in if ucast (pp_total_pkts s * MSS32) > pp_bdp_estimate s
         then let s = s\<lparr>pp_alpha := dctcp_alpha (pp_alpha s) (pp_marked_pkts s) (pp_total_pkts s)\<rparr>
              in s\<lparr>pp_marked_pkts := 0, pp_total_pkts := 0\<rparr>
         else s)"

text \<open>
  The rate of a segment in the given time, the window it fills in the least round trip time, at
  least a pair, and the moving average of the distances.
\<close>

definition pp_rate :: "u64 \<Rightarrow> u64 option" where
  "pp_rate gap = (if gap = 0 then None else Some ((word_of_int (MSS_BYTES * 8) * timeFromSec 1) div gap))"

definition pp_bdp :: "u64 \<Rightarrow> u64 \<Rightarrow> u64 option" where
  "pp_bdp rate min_rtt =
     (let b = trunc_rat (dbl (dbl (dbl (of_nat (unat rate)) * timeAsSec min_rtt) / 8))
      in if b \<ge> 2 ^ 64 then None
         else let bdp = word_of_int b :: u64
              in Some (if bdp < word_of_int (2 * MSS_BYTES) then word_of_int (2 * MSS_BYTES) else bdp))"

definition pp_ewma :: "u64 \<Rightarrow> u64 \<Rightarrow> u64" where
  "pp_ewma old pktpairdiff =
     word_of_int (llround (ldbl (ldbl (ldbl (of_nat (unat old)) * (1 - PKTPAIR_GAIN)) +
       ldbl (ldbl (of_nat (unat pktpairdiff)) * PKTPAIR_GAIN))))"

definition pp_estimate :: "u64 \<Rightarrow> pp_src \<Rightarrow> pp_src option" where
  "pp_estimate gap s =
     do {
       r \<leftarrow> pp_rate gap;
       let s = s\<lparr>pp_rate_estimate := r\<rparr>;
       b \<leftarrow> pp_bdp (pp_rate_estimate s) (pp_min_rtt s);
       Some (s\<lparr>pp_bdp_estimate := b\<rparr>)
     }"

text \<open>The second packet of a pair: the average, and the first estimate of a starting source.\<close>

definition pp_updatePair :: "u64 \<Rightarrow> pp_src \<Rightarrow> pp_src option" where
  "pp_updatePair pktpairdiff s =
     (let s = s\<lparr>pp_pktpair_ewma := pp_ewma (pp_pktpair_ewma s) pktpairdiff\<rparr>
      in if pp_pktpair_ewma s \<noteq> 0
         then do {
           s \<leftarrow> pp_estimate (pp_pktpair_ewma s) s;
           Some (s\<lparr>pp_rate_estimate := word_of_int (llround (dbl (dbl (of_nat (unat (pp_rate_estimate s))) *
                     dbl (1 - dbl (pp_alpha s / 2)))))\<rparr>)
         }
         else Some s)"

definition pp_firstPair :: "world \<Rightarrow> u64 \<Rightarrow> pp_src \<Rightarrow> (world \<times> pp_src \<times> action list) option" where
  "pp_firstPair w pktpairdiff s =
     (if pp_state s = STARTUP
      then let s = s\<lparr>pp_state := NORMAL\<rparr>;
               s = s\<lparr>pp_pktpair_ewma := pktpairdiff\<rparr>
           in do {
             s \<leftarrow> pp_estimate pktpairdiff s;
             pp_sendPackets w s
           }
      else Some (w, s, []))"

text \<open>Any other packet: the gradient of the round trip time.\<close>

definition pp_gradient :: "rat \<Rightarrow> u64 \<Rightarrow> u64 \<Rightarrow> rat" where
  "pp_gradient old prev new_rtt =
     (let kept = ldbl (old * ldbl (1 - RTT_GAIN))
      in if new_rtt > prev then dbl (ldbl (kept + ldbl (ldbl (of_nat (unat (new_rtt - prev))) * RTT_GAIN)))
         else dbl (ldbl (kept - ldbl (ldbl (of_nat (unat (prev - new_rtt))) * RTT_GAIN))))"

definition pp_measurePair ::
  "world \<Rightarrow> u64 \<Rightarrow> u64 \<Rightarrow> pp_src \<Rightarrow> (world \<times> pp_src \<times> action list) option" where
  "pp_measurePair w pktpairdiff new_rtt s =
     (if pktpairdiff \<noteq> 0
      then do { s \<leftarrow> pp_updatePair pktpairdiff s; pp_firstPair w pktpairdiff s }
      else let s = s\<lparr>pp_rtt_gradient := pp_gradient (pp_rtt_gradient s) (pp_prev_rtt s) new_rtt\<rparr>
           in Some (w, s\<lparr>pp_prev_rtt := new_rtt\<rparr>, []))"

definition pp_newAck :: "world \<Rightarrow> u64 \<Rightarrow> pp_src \<Rightarrow> world \<times> pp_src \<times> action list" where
  "pp_newAck w ack s =
     (let bytes_acked = ack - src_last_acked s;
          s = s\<lparr>src_last_acked := ack\<rparr>;
          s = s\<lparr>pp_rto_timeout := w_now w + pp_rto s\<rparr>;
          s = (if ack = src_highest_sent s then s\<lparr>pp_rto_timeout := 0\<rparr> else s)
      in if pp_state s \<noteq> RECOVERY then (w, s\<lparr>pp_dupacks := 0\<rparr>, [])
         else if ack < pp_recover_seq s
         then pp_retransmitPacket w
                (s\<lparr>pp_dupacks := ucast (ucast (pp_dupacks s) - bytes_acked div MSS64 + 1)\<rparr>)
         else (w, s\<lparr>pp_dupacks := 0, pp_state := NORMAL\<rparr>, []))"

definition pp_dupAck :: "world \<Rightarrow> pp_src \<Rightarrow> world \<times> pp_src \<times> action list" where
  "pp_dupAck w s =
     (if pp_state s = RECOVERY then (w, s\<lparr>pp_dupacks := pp_dupacks s + 1\<rparr>, [])
      else let s = s\<lparr>pp_dupacks := pp_dupacks s + 1\<rparr>
           in if pp_dupacks s \<noteq> 3 \<or> src_last_acked s < pp_recover_seq s then (w, s, [])
              else let s = s\<lparr>pp_drops := pp_drops s + 1\<rparr>;
                       s = s\<lparr>pp_state := RECOVERY\<rparr>;
                       s = s\<lparr>pp_recover_seq := src_highest_sent s\<rparr>
                   in pp_retransmitPacket w s)"

definition pp_receivePacket :: "world \<Rightarrow> pp_src \<Rightarrow> packet \<Rightarrow> (world \<times> pp_src \<times> action list) option" where
  "pp_receivePacket w s pkt =
     (case p_class pkt of
        DataPacket _ _ \<Rightarrow> None
      | DataAck pktpairdiff ack ts0 \<Rightarrow>
          let as = [Traffic PKT_RCVDESTROY pkt];
              (w, s) = source_free_ack pkt w s
          in if pp_state s = FINISH then Some (w, s, as)
             else if pp_flow_done (w_now w) ack s
             then let (s, bs) = pp_finish s in Some (w, s, as @ bs)
             else if ack < src_last_acked s then Some (w, s, as)
             else do {
               s \<leftarrow> pp_measureRate (w_now w) s;
               let new_rtt = w_now w - ts0;
               let s = pp_updateRtt new_rtt s;
               let s = pp_updateAlpha (getFlag ECN_REV pkt \<noteq> 0) s;
               (w, s, bs) \<leftarrow> pp_measurePair w pktpairdiff new_rtt s;
               let (w, s, cs) = (if ack > src_last_acked s then pp_newAck w ack s else pp_dupAck w s);
               Some (w, s, as @ bs @ cs)
             })"

section \<open>The sink\<close>

record pp_sink = tcp_sink +
  pk_pktpairdiff :: u64
  pk_first_pair_ts :: u64
  pk_first_pair_seqno :: u64

text \<open>The measurement of the distance of a pair.\<close>

definition pp_sink_measure :: "u64 \<Rightarrow> bool \<Rightarrow> u64 \<Rightarrow> pp_sink \<Rightarrow> pp_sink" where
  "pp_sink_measure now fst_pkt sq d =
     (if fst_pkt
      then d\<lparr>pk_pktpairdiff := 0, pk_first_pair_ts := now, pk_first_pair_seqno := sq\<rparr>
      else let d = (if pk_first_pair_seqno d = sq - MSS64
                    then d\<lparr>pk_pktpairdiff := now - pk_first_pair_ts d\<rparr>
                    else d\<lparr>pk_pktpairdiff := 0\<rparr>)
           in d\<lparr>pk_first_pair_ts := 0, pk_first_pair_seqno := 0\<rparr>)"

definition pp_sink_receivePacket ::
  "world \<Rightarrow> packet_flow \<Rightarrow> pp_sink \<Rightarrow> packet \<Rightarrow> (world \<times> packet_flow \<times> pp_sink \<times> action list) option" where
  "pp_sink_receivePacket w flow d p =
     (case p_class p of
        DataAck _ _ _ \<Rightarrow> None
      | DataPacket sq ts0 \<Rightarrow>
          let d = processDataPacket d sq (p_size p);
              as = [Traffic PKT_RCVDESTROY p];
              (db, flow) = pkt_free (w_datadb w) flow p;
              w = w\<lparr>w_datadb := db\<rparr>;
              d = pp_sink_measure (w_now w) (getFlag PP_FIRST p \<noteq> 0) sq d;
              (ack, adb, flow) = newDataAck (w_fresh w) (w_ackdb w) flow (sk_route d) (pk_pktpairdiff d)
                (ds_cumulative_ack d);
              w = w\<lparr>w_ackdb := adb\<rparr>;
              as = as @ [Traffic PKT_CREATESEND ack];
              ack = set_ts ts0 ack;
              ack = (if getFlag ECN_FWD p \<noteq> 0 then setFlag ECN_REV ack else ack)
          in Some (w, flow, d, as @ [SendOn ack]))"

end
