(* ===== verification/FlowGen.thy ===== *)
theory FlowGen
  imports Workloads Tcp Timely PacketPair FifoQueue
begin

text \<open>
  \<open>flow-generator.h\<close> and \<open>flow-generator.cpp\<close>: \<open>FlowGenerator\<close> creates the flows of a simulation,
  from a distribution or a trace, and replaces finished ones. The results of the random functions
  and of the route generation function of the experiment are arguments. What the code computes with
  an uninitialised pointer, an empty trace, a division by zero or an unrepresentable \<open>double\<close> is
  \<open>None\<close>. Names and the log of names are not modelled.
\<close>

section \<open>State\<close>

datatype end_host = EH_TCP | EH_DCTCP | EH_D_TCP | EH_D_DCTCP | EH_PKTPAIR | EH_TIMELY

datatype flow_source = SrcTcp tcp_src | SrcPktPair pp_src | SrcTimely timely_src

text \<open>
  A live flow is known by the id of its source. \<open>fg_endhostQ\<close> holds the rate and the buffer once they
  are set; \<open>fg_logfile\<close> is whether the pointer is non-null, \<open>None\<close> until \<open>setLogFile\<close> initialises it.
\<close>

record flow_gen =
  fg_ehproto :: end_host
  fg_flowRate :: u64
  fg_flowsGenerated :: u32
  fg_endTime :: u64
  fg_workload :: workloads
  fg_endhostQ :: "(u64 \<times> u64) option"
  fg_useTrace :: bool
  fg_replaceFlow :: bool
  fg_maxFlows :: u32
  fg_concurrentFlows :: u32
  fg_avgOffTime :: u64
  fg_flowTrace :: "(u64 \<times> u64) list"
  fg_liveFlows :: "u32 set"
  fg_avgFlowArrivalTime :: u64
  fg_pktlogger :: bool
  fg_tcplogger :: bool
  fg_logfile :: "bool option"
  fg_fctSum :: rat
  fg_nFlows :: u64

text \<open>The part of the simulation a generator uses: the time, the next object id, \<open>TcpSrc::_enable_dctcp\<close>.\<close>

record gen_world =
  gw_now :: u64
  gw_lastid :: u32
  gw_dctcp :: bool

text \<open>A route in the network: what the experiment generates, an end host queue and the end points.\<close>

datatype 'h hop = Hop 'h | EndhostQ u32 | Sink u32 | Source u32

text \<open>The result of the route generation function: the addresses and the contents of two new routes.\<close>

record 'h route_draw =
  rd_fwd_addr :: nat
  rd_rev_addr :: nat
  rd_fwd :: "'h list"
  rd_rev :: "'h list"
  rd_src_node :: u32
  rd_dst_node :: u32

text \<open>A created flow.\<close>

record 'h flow =
  fl_src :: flow_source
  fl_sink :: u32
  fl_sink_node :: u32
  fl_fwd :: "'h hop list"
  fl_rev :: "'h hop list"
  fl_queue :: "(u32 \<times> queue) option"
  fl_actions :: "action list"

section \<open>Configuration\<close>

text \<open>The constructor; the end time it leaves uninitialised is an argument.\<close>

definition double_to_u64 :: "rat \<Rightarrow> u64 option" where
  "double_to_u64 x =
     (if trunc_rat x < 0 \<or> trunc_rat x \<ge> 2 ^ 64 then None else Some (word_of_int (trunc_rat x)))"

definition mkFlowGenerator :: "end_host \<Rightarrow> u64 \<Rightarrow> u32 \<Rightarrow> flow_dist \<Rightarrow> u64 \<Rightarrow> flow_gen option" where
  "mkFlowGenerator ehproto flowRate avgFlowSize flowSizeDist endTime0 =
     (let wl = mkWorkloads avgFlowSize flowSizeDist;
          bits = dbl (of_nat (unat (wl_avgFlowSize wl)) * 8)
      in if bits = 0 then None
         else let flowsPerSec = dbl (dbl (of_nat (unat flowRate)) / bits)
              in if flowsPerSec = 0 then None
                 else do {
                   arrival \<leftarrow> double_to_u64 (dbl (dbl (of_nat (unat (timeFromSec 1))) / flowsPerSec));
                   Some \<lparr>fg_ehproto = ehproto, fg_flowRate = flowRate, fg_flowsGenerated = 0,
                     fg_endTime = endTime0, fg_workload = wl, fg_endhostQ = None, fg_useTrace = False,
                     fg_replaceFlow = False, fg_maxFlows = 0, fg_concurrentFlows = 0, fg_avgOffTime = 0,
                     fg_flowTrace = [], fg_liveFlows = {}, fg_avgFlowArrivalTime = arrival,
                     fg_pktlogger = False, fg_tcplogger = False, fg_logfile = None, fg_fctSum = 0,
                     fg_nFlows = 0\<rparr>
                 })"

text \<open>The calls to \<open>sourceIsPending\<close> are the actions of the generator.\<close>

definition fg_setTimeLimits :: "u64 \<Rightarrow> u64 \<Rightarrow> flow_gen \<Rightarrow> (flow_gen \<times> action list) option" where
  "fg_setTimeLimits startTime endTime g =
     (if fg_useTrace g \<and> fg_flowTrace g = [] then None
      else Some (g\<lparr>fg_endTime := endTime\<rparr>,
        [SchedAt (if fg_useTrace g then fst (hd (fg_flowTrace g)) else startTime), SchedAt endTime]))"

definition fg_setEndhostQueue :: "u64 \<Rightarrow> u64 \<Rightarrow> flow_gen \<Rightarrow> flow_gen" where
  "fg_setEndhostQueue qRate qBuffer g = g\<lparr>fg_endhostQ := Some (qRate, qBuffer)\<rparr>"

text \<open>\<open>_flowRate/_maxFlows\<close> divides integers.\<close>

definition fg_setReplaceFlow :: "u32 \<Rightarrow> rat \<Rightarrow> flow_gen \<Rightarrow> flow_gen option" where
  "fg_setReplaceFlow maxFlows offRatio g =
     (let g = g\<lparr>fg_replaceFlow := True, fg_maxFlows := maxFlows\<rparr>
      in if maxFlows = 0 \<or> fg_flowRate g div ucast maxFlows = 0 \<or> dbl (1 + offRatio) = 0 then None
         else let avgFCT = dbl (dbl (of_nat (unat (wl_avgFlowSize (fg_workload g))) * 8) /
                             dbl (of_nat (unat (fg_flowRate g div ucast maxFlows))));
                  g = g\<lparr>fg_avgFlowArrivalTime := timeFromSec avgFCT div ucast maxFlows\<rparr>
              in Some (g\<lparr>fg_avgOffTime := word_of_int (llround (dbl (dbl (dbl (of_nat (unat (timeFromSec avgFCT))) *
                         offRatio) / dbl (1 + offRatio))))\<rparr>))"

text \<open>The lines of the trace file as \<open>fscanf\<close> reads them: start in microseconds and size.\<close>

definition fg_setTrace :: "(u64 \<times> u32) list \<Rightarrow> flow_gen \<Rightarrow> flow_gen" where
  "fg_setTrace lines g = g\<lparr>fg_useTrace := True,
     fg_flowTrace := fg_flowTrace g @
       map (\<lambda>(fstart, fsize). (timeFromUs (dbl (of_nat (unat fstart))), ucast fsize)) lines\<rparr>"

definition fg_setTrafficLogger :: "bool \<Rightarrow> flow_gen \<Rightarrow> flow_gen" where
  "fg_setTrafficLogger pktlogger g = g\<lparr>fg_pktlogger := pktlogger\<rparr>"
definition fg_setTcpLogger :: "bool \<Rightarrow> flow_gen \<Rightarrow> flow_gen" where
  "fg_setTcpLogger tcplogger g = g\<lparr>fg_tcplogger := tcplogger\<rparr>"
definition fg_setLogFile :: "bool \<Rightarrow> flow_gen \<Rightarrow> flow_gen" where
  "fg_setLogFile logfile g = g\<lparr>fg_logfile := Some logfile\<rparr>"

definition fg_addFct :: "rat \<Rightarrow> flow_gen \<Rightarrow> flow_gen" where
  "fg_addFct fctUs g = g\<lparr>fg_fctSum := dbl (fg_fctSum g + fctUs), fg_nFlows := fg_nFlows g + 1\<rparr>"

section \<open>Creating a flow\<close>

text \<open>The part of \<open>createFlow\<close> that is the same for every protocol, on the new source.\<close>

definition fg_wire ::
  "u64 \<Rightarrow> u64 \<Rightarrow> 'h route_draw \<Rightarrow> u32 \<Rightarrow> 'a data_source_scheme \<Rightarrow> 'a data_source_scheme \<times> action list" where
  "fg_wire start_time deadline rd snk s =
     (let s = s\<lparr>src_node_id := rd_src_node rd\<rparr>;
          s = setDeadline (start_time + deadline) s;
          (s, as) = source_connect start_time (rd_fwd_addr rd) (rd_rev_addr rd) snk s
      in (setFlowGenerator True s, as))"

text \<open>The base object of a source with a new id; \<open>connect\<close> overwrites what is not initialised.\<close>

definition fg_base :: "u32 \<Rightarrow> bool \<Rightarrow> data_source" where
  "fg_base i logger = mkDataSource i logger 0 0 0 0 0 0"

definition fg_newSource :: "u32 \<Rightarrow> u64 \<Rightarrow> flow_gen \<Rightarrow> flow_source" where
  "fg_newSource i flowSize g =
     (case fg_ehproto g of
        EH_PKTPAIR \<Rightarrow> SrcPktPair (mkPacketPairSrc (fg_base i False) flowSize 0)
      | EH_TIMELY \<Rightarrow> SrcTimely (mkTimelySrc (fg_base i False) flowSize 0)
      | _ \<Rightarrow> let s = mkTcpSrc (fg_base i (fg_pktlogger g)) (fg_pktlogger g \<and> fg_tcplogger g) (ucast flowSize) 0
             in SrcTcp (if fg_ehproto g = EH_D_TCP \<or> fg_ehproto g = EH_D_DCTCP
                        then s\<lparr>src_enable_deadline := True\<rparr> else s))"

fun fg_wireSource ::
  "u64 \<Rightarrow> u64 \<Rightarrow> 'h route_draw \<Rightarrow> u32 \<Rightarrow> flow_source \<Rightarrow> flow_source \<times> action list" where
  "fg_wireSource t d rd snk (SrcTcp s) = (let (s, as) = fg_wire t d rd snk s in (SrcTcp s, as))"
| "fg_wireSource t d rd snk (SrcPktPair s) = (let (s, as) = fg_wire t d rd snk s in (SrcPktPair s, as))"
| "fg_wireSource t d rd snk (SrcTimely s) = (let (s, as) = fg_wire t d rd snk s in (SrcTimely s, as))"

definition fg_startTime :: "u64 \<Rightarrow> u64 \<Rightarrow> rat \<Rightarrow> u64" where
  "fg_startTime now startTime u =
     now + startTime + word_of_int (llround (dbl (u * dbl (of_nat (unat (timeFromUs 5))))))"

definition fg_deadline :: "u64 \<Rightarrow> u64" where
  "fg_deadline flowSize =
     timeFromSec (dbl (dbl (dbl (of_nat (unat flowSize)) * 8) / dbl (of_nat (unat (speedFromGbps (dbl (8 / 10)))))))"

text \<open>The end host queue, when one is configured, and the ids of the new objects in their order.\<close>

definition fg_newQueue :: "u32 \<Rightarrow> flow_gen \<Rightarrow> (u32 \<times> (u32 \<times> queue) option) option" where
  "fg_newQueue i g =
     (case fg_endhostQ g of
        None \<Rightarrow> Some (i, None)
      | Some (qRate, qBuffer) \<Rightarrow> do { q \<leftarrow> mkQueue qRate qBuffer False; Some (i + 1, Some (i, q)) })"

text \<open>
  \<open>createFlow\<close>: the source has the id \<open>i\<close>, the \<open>PacketFlow\<close> in it \<open>i + 1\<close>, and the sink \<open>i + 2\<close>.
\<close>

definition fg_createFlow ::
  "'h route_draw \<Rightarrow> rat \<Rightarrow> u64 \<Rightarrow> u64 \<Rightarrow> gen_world \<Rightarrow> flow_gen \<Rightarrow> (gen_world \<times> flow_gen \<times> 'h flow) option" where
  "fg_createFlow rd u flowSize startTime w g =
     (if fg_logfile g = None then None
      else do {
        (i, q) \<leftarrow> fg_newQueue (gw_lastid w) g;
        let start_time = fg_startTime (gw_now w) startTime u;
        let fwd = (case q of None \<Rightarrow> [] | Some (qi, _) \<Rightarrow> [EndhostQ qi]) @ map Hop (rd_fwd rd);
        let (src, as) = fg_wireSource start_time (fg_deadline flowSize) rd (i + 2) (fg_newSource i flowSize g);
        let w = w\<lparr>gw_lastid := i + 3\<rparr>;
        let w = (if fg_ehproto g = EH_DCTCP \<or> fg_ehproto g = EH_D_DCTCP then w\<lparr>gw_dctcp := True\<rparr> else w);
        Some (w, g\<lparr>fg_liveFlows := insert i (fg_liveFlows g), fg_flowsGenerated := fg_flowsGenerated g + 1\<rparr>,
          \<lparr>fl_src = src, fl_sink = i + 2, fl_sink_node = rd_dst_node rd,
           fl_fwd = fwd @ [Sink (i + 2)], fl_rev = map Hop (rd_rev rd) @ [Source i],
           fl_queue = q, fl_actions = as\<rparr>)
      })"

section \<open>Events\<close>

text \<open>The random results of one event: of the flow size, the route, the jitter and the next arrival.\<close>

record 'h gen_draw =
  gd_size :: rat
  gd_pareto :: int
  gd_route :: "'h route_draw"
  gd_jitter :: rat
  gd_next :: rat

definition fg_nextSize :: "'h gen_draw \<Rightarrow> flow_gen \<Rightarrow> (u64 \<times> flow_gen) option" where
  "fg_nextSize d g =
     (if fg_useTrace g
      then (case fg_flowTrace g of [] \<Rightarrow> None | (_, sz) # t \<Rightarrow> Some (sz, g\<lparr>fg_flowTrace := t\<rparr>))
      else do { sz \<leftarrow> wl_generateFlowSize (fg_workload g) (gd_size d) (gd_pareto d); Some (sz, g) })"

text \<open>The next arrival, or the end of the trace.\<close>

definition fg_nextArrival :: "'h gen_draw \<Rightarrow> u64 \<Rightarrow> flow_gen \<Rightarrow> u64 option option" where
  "fg_nextArrival d now g =
     (if fg_useTrace g
      then (case fg_flowTrace g of [] \<Rightarrow> Some None | (t, _) # _ \<Rightarrow> Some (Some (t - now)))
      else do { t \<leftarrow> double_to_u64 (gd_next d); Some (Some t) })"

definition fg_doNextEvent ::
  "'h gen_draw \<Rightarrow> gen_world \<Rightarrow> flow_gen \<Rightarrow> (gen_world \<times> flow_gen \<times> 'h flow list \<times> action list) option" where
  "fg_doNextEvent d w g =
     (if gw_now w = fg_endTime g then Some (w, g, [], [])
      else do {
        (flowSize, g) \<leftarrow> fg_nextSize d g;
        (w, g, fl) \<leftarrow> fg_createFlow (gd_route d) (gd_jitter d) flowSize 0 w g;
        let g = g\<lparr>fg_concurrentFlows := fg_concurrentFlows g + 1\<rparr>;
        arrival \<leftarrow> fg_nextArrival d (gw_now w) g;
        (case arrival of
           None \<Rightarrow> Some (w, g, [fl], [])
         | Some t \<Rightarrow> Some (w, g, [fl],
             if \<not> fg_replaceFlow g \<or> fg_concurrentFlows g < fg_maxFlows g then [SchedRel t] else []))
      })"

text \<open>\<open>gd_next\<close> is the value of the \<open>exponential\<close> that draws the sleep time.\<close>

definition fg_finishFlow ::
  "'h gen_draw \<Rightarrow> u32 \<Rightarrow> gen_world \<Rightarrow> flow_gen \<Rightarrow> (gen_world \<times> flow_gen \<times> 'h flow list) option" where
  "fg_finishFlow d flow_id w g =
     (if flow_id \<notin> fg_liveFlows g then Some (w, g, [])
      else let g = g\<lparr>fg_liveFlows := fg_liveFlows g - {flow_id}\<rparr>
           in if fg_replaceFlow g
              then do {
                flowSize \<leftarrow> wl_generateFlowSize (fg_workload g) (gd_size d) (gd_pareto d);
                let sleepTime = (if fg_avgOffTime g > 0 then word_of_int (llround (gd_next d)) else 0);
                (w, g, fl) \<leftarrow> fg_createFlow (gd_route d) (gd_jitter d) flowSize sleepTime w g;
                Some (w, g, [fl])
              }
              else Some (w, g, []))"

end
