(* ===== verification/FlowGenProps.thy ===== *)
theory FlowGenProps
  imports FlowGen
begin

text \<open>
  The properties of the operations of \<open>FlowGenerator\<close>: a created flow is wired to its routes, and
  the log file that is never set. The runs of a generator are in \<open>FlowGenRuns\<close>.
\<close>

section \<open>A created flow\<close>

fun fl_data :: "flow_source \<Rightarrow> data_source" where
  "fl_data (SrcTcp s) = data_source.truncate s"
| "fl_data (SrcPktPair s) = data_source.truncate s"
| "fl_data (SrcTimely s) = data_source.truncate s"

lemma truncate_fields [simp]:
  "src_id (data_source.truncate s) = src_id s" "src_flowsize (data_source.truncate s) = src_flowsize s"
  "src_start_time (data_source.truncate s) = src_start_time s" "src_deadline (data_source.truncate s) = src_deadline s"
  "src_flow (data_source.truncate s) = src_flow s" "src_flowgen (data_source.truncate s) = src_flowgen s"
  "src_route_fwd (data_source.truncate s) = src_route_fwd s" "src_route_rev (data_source.truncate s) = src_route_rev s"
  "src_sink (data_source.truncate s) = src_sink s" "src_highest_sent (data_source.truncate s) = src_highest_sent s"
  "src_last_acked (data_source.truncate s) = src_last_acked s"
  by (simp_all add: data_source.truncate_def)

text \<open>The size a source works with: \<open>TcpSrc\<close> takes 32 bits.\<close>

definition fg_size :: "end_host \<Rightarrow> u64 \<Rightarrow> u64" where
  "fg_size eh sz = (if eh = EH_PKTPAIR \<or> eh = EH_TIMELY then sz else ucast (ucast sz :: u32))"

lemma fg_newSource_data:
  "src_id (fl_data (fg_newSource i sz g)) = i" "src_flowsize (fl_data (fg_newSource i sz g)) = fg_size (fg_ehproto g) sz"
  "src_highest_sent (fl_data (fg_newSource i sz g)) = 0" "src_last_acked (fl_data (fg_newSource i sz g)) = 0"
  by (cases "fg_ehproto g"; simp add: fg_newSource_def fg_base_def fg_size_def mkTcpSrc_def mkPacketPairSrc_def
      mkTimelySrc_def mkDataSource_def data_source.defs Let_def)+

lemma fg_wireSource_data:
  assumes "fg_wireSource t d rd snk s = (s', as)"
  shows "as = [SinkConnect, SchedAt t]" "src_id (fl_data s') = src_id (fl_data s)"
    "src_flowsize (fl_data s') = src_flowsize (fl_data s)" "src_start_time (fl_data s') = t"
    "src_deadline (fl_data s') = t + d" "f_id (src_flow (fl_data s')) = src_id (fl_data s)"
    "src_route_fwd (fl_data s') = rd_fwd_addr rd" "src_route_rev (fl_data s') = rd_rev_addr rd"
    "src_sink (fl_data s') = snk" "src_flowgen (fl_data s')"
  using assms
  by (cases s; auto simp: fg_wire_def source_connect_def setFlowGenerator_def setDeadline_def Let_def
      data_source.truncate_def)+

text \<open>The jitter of the start is at most five microseconds.\<close>

lemma fg_jitter:
  assumes "0 \<le> u" "u \<le> 1"
  shows "\<exists>j. fg_startTime now later u = now + later + j \<and> unat j \<le> 5000000"
proof -
  have t: "unat (timeFromUs 5) = 5000000" using unat_timeFromUs_nat [of 5] by simp
  have d: "dbl 5000000 = 5000000" using dbl_of_int [of 5000000] by simp
  have "u * 5000000 \<le> of_int 5000000" using assms(2) by simp
  then have hi: "dbl (u * 5000000) \<le> of_int 5000000" by (rule dbl_le_int) simp
  have lo: "0 \<le> dbl (u * 5000000)" using assms(1) by (intro dbl_nonneg) simp
  define k where "k = llround (dbl (u * 5000000))"
  have k: "0 \<le> k" "k \<le> 5000000"
    using llround_near(3) [OF lo] llround_le_int [OF lo hi] by (simp_all add: k_def)
  then have "unat (word_of_int k :: u64) = nat k" by (intro unat_word_of_int_64) simp_all
  moreover have "fg_startTime now later u = now + later + word_of_int k"
    by (simp add: fg_startTime_def t d k_def)
  ultimately show ?thesis using k by (intro exI [of _ "word_of_int k"]) simp
qed

lemma fg_newQueue_cases:
  assumes "fg_newQueue i g = Some (j, q)"
  shows "(q = None \<and> j = i) \<or> (\<exists>qu. q = Some (i, qu) \<and> j = i + 1)"
  using assms
  by (cases "fg_endhostQ g") (auto simp: fg_newQueue_def bind_eq_Some_conv split: prod.splits)

lemma fg_createFlow_cases:
  assumes "fg_createFlow rd u sz later w g = Some (w', g', fw)"
  obtains i q src as where "fg_logfile g \<noteq> None" "fg_newQueue (gw_lastid w) g = Some (i, q)"
    "fg_wireSource (fg_startTime (gw_now w) later u) (fg_deadline sz) rd (i + 2) (fg_newSource i sz g) = (src, as)"
    "g' = g\<lparr>fg_liveFlows := insert i (fg_liveFlows g), fg_flowsGenerated := fg_flowsGenerated g + 1\<rparr>"
    "gw_lastid w' = i + 3" "gw_now w' = gw_now w"
    "fw = \<lparr>fl_src = src, fl_sink = i + 2, fl_sink_node = rd_dst_node rd,
       fl_fwd = (case q of None \<Rightarrow> [] | Some (qi, _) \<Rightarrow> [EndhostQ qi]) @ map Hop (rd_fwd rd) @ [Sink (i + 2)],
       fl_rev = map Hop (rd_rev rd) @ [Source i], fl_queue = q, fl_actions = as\<rparr>"
proof -
  have l: "fg_logfile g \<noteq> None" using assms by (intro notI) (simp add: fg_createFlow_def)
  obtain i q where q: "fg_newQueue (gw_lastid w) g = Some (i, q)"
    using assms l by (auto simp: fg_createFlow_def bind_eq_Some_conv)
  obtain src as where s: "fg_wireSource (fg_startTime (gw_now w) later u) (fg_deadline sz) rd (i + 2)
      (fg_newSource i sz g) = (src, as)"
    by (metis prod.exhaust)
  show thesis
    by (rule that [OF l q s]) (use assms l q s in \<open>auto simp: fg_createFlow_def Let_def\<close>)
qed

section \<open>A configuration\<close>

text \<open>A generator of TIMELY flows of 3000 bytes at 2.4 Gb/s, with an end host queue and one flow at a time.\<close>

definition ex_gen0 :: flow_gen where
  "ex_gen0 = the (mkFlowGenerator EH_TIMELY 2400000000 3000 UNIFORM 0)"

definition ex_gen1 :: flow_gen where
  "ex_gen1 = the (fg_setReplaceFlow 1 0 ex_gen0)"

definition ex_gen :: flow_gen where
  "ex_gen = fg_setLogFile False (fg_setEndhostQueue 10000000000 100000 ex_gen1)"

definition ex_gdraw :: "nat gen_draw" where
  "ex_gdraw = \<lparr>gd_size = 0, gd_pareto = 0,
     gd_route = \<lparr>rd_fwd_addr = 1, rd_rev_addr = 2, rd_fwd = [5, 6], rd_rev = [7, 8], rd_src_node = 3, rd_dst_node = 4\<rparr>,
     gd_jitter = 1 / 2, gd_next = 1000\<rparr>"

definition ex_gworld :: gen_world where
  "ex_gworld = \<lparr>gw_now = 0, gw_lastid = 10, gw_dctcp = False\<rparr>"

lemma ex_gen0: "mkFlowGenerator EH_TIMELY 2400000000 3000 UNIFORM 0 = Some ex_gen0"
proof -
  have d: "dbl 24000 = 24000" "dbl 2400000000 = 2400000000" "dbl 100000 = 100000" "dbl 1000000000000 = 1000000000000"
      "dbl 10000000 = 10000000"
    using dbl_of_int [of 24000] dbl_of_int [of 2400000000] dbl_of_int [of 100000] dbl_of_int [of 1000000000000]
      dbl_of_int [of 10000000] by simp_all
  moreover have "unat (timeFromSec 1) = 1000000000000"
    using llround_of_int [of 1000000000000] by (simp add: timeFromSec_def d(4))
  ultimately show ?thesis
    by (simp add: ex_gen0_def mkFlowGenerator_def mkWorkloads_def double_to_u64_def trunc_rat_def)
qed

lemma mkFlowGenerator_fields:
  assumes "mkFlowGenerator eh rate avg fdist t0 = Some g"
  shows "fg_ehproto g = eh" "fg_flowRate g = rate" "fg_logfile g = None" "\<not> fg_useTrace g" "fg_endhostQ g = None"
    "fg_concurrentFlows g = 0" "fg_liveFlows g = {}" "fg_workload g = mkWorkloads avg fdist" "fg_flowTrace g = []"
  using assms by (auto simp: mkFlowGenerator_def Let_def bind_eq_Some_conv split: if_splits)

lemma fg_setReplaceFlow_fields:
  assumes "fg_setReplaceFlow n r g = Some g'"
  shows "fg_ehproto g' = fg_ehproto g" "fg_logfile g' = fg_logfile g" "fg_useTrace g' = fg_useTrace g"
    "fg_endhostQ g' = fg_endhostQ g" "fg_concurrentFlows g' = fg_concurrentFlows g" "fg_replaceFlow g'"
    "fg_liveFlows g' = fg_liveFlows g" "fg_workload g' = fg_workload g" "fg_flowTrace g' = fg_flowTrace g"
    "fg_maxFlows g' = n"
  using assms by (auto simp: fg_setReplaceFlow_def Let_def split: if_splits)

lemma ex_gen1: "fg_setReplaceFlow 1 0 ex_gen0 = Some ex_gen1"
  using dbl_of_int [of 1] by (simp add: ex_gen1_def fg_setReplaceFlow_def mkFlowGenerator_fields [OF ex_gen0] Let_def)

lemmas ex_gen1_fields = mkFlowGenerator_fields [OF ex_gen0] fg_setReplaceFlow_fields [OF ex_gen1]

lemma ex_gen_fields:
  "fg_ehproto ex_gen = EH_TIMELY" "fg_endhostQ ex_gen = Some (10000000000, 100000)" "fg_logfile ex_gen = Some False"
  "fg_useTrace ex_gen = False" "fg_replaceFlow ex_gen" "fg_maxFlows ex_gen = 1" "fg_concurrentFlows ex_gen = 0"
  "fg_liveFlows ex_gen = {}" "fg_workload ex_gen = mkWorkloads 3000 UNIFORM" 
  by (simp_all add: ex_gen_def fg_setLogFile_def fg_setEndhostQueue_def ex_gen1_fields)

lemma ex_newQueue:
  "fg_endhostQ g = Some (10000000000, 100000) \<Longrightarrow> \<exists>q. fg_newQueue i g = Some (i + 1, Some (i, q))"
  by (simp add: fg_newQueue_def mkQueue_def)

lemma fg_createFlow_some:
  assumes "fg_logfile g \<noteq> None" "fg_newQueue (gw_lastid w) g = Some (i, q)"
  shows "\<exists>w' fw. gw_lastid w' = i + 3 \<and> gw_now w' = gw_now w \<and> fg_createFlow rd u sz later w g =
    Some (w', g\<lparr>fg_liveFlows := insert i (fg_liveFlows g), fg_flowsGenerated := fg_flowsGenerated g + 1\<rparr>, fw)"
  using assms by (auto simp: fg_createFlow_def Let_def split: prod.splits)

section \<open>Properties\<close>

text \<open>
  A created flow is wired. Its forward route is the end host queue, when one is configured, the
  generated route and the flow's sink; its reverse route ends in the source; the source belongs to
  the flow of its own id, the id after it was taken by its \<open>PacketFlow\<close> and the next is the sink's; it starts within five microseconds of the requested time and has its first
  event scheduled there. The size is the requested one, for \<open>TcpSrc\<close> cut to 32 bits.
\<close>

lemma fg_flow_wired:
  assumes "fg_createFlow rd u sz later w g = Some (w', g', fw)" "0 \<le> u" "u \<le> 1"
  shows "\<exists>i j. fg_liveFlows g' = insert i (fg_liveFlows g) \<and> src_id (fl_data (fl_src fw)) = i \<and>
    f_id (src_flow (fl_data (fl_src fw))) = i \<and> fl_sink fw = i + 2 \<and> gw_lastid w' = i + 3 \<and> src_flowgen (fl_data (fl_src fw)) \<and>
    fl_fwd fw = (if fg_endhostQ g = None then [] else [EndhostQ (i - 1)]) @ map Hop (rd_fwd rd) @ [Sink (fl_sink fw)] \<and>
    fl_rev fw = map Hop (rd_rev rd) @ [Source i] \<and> src_sink (fl_data (fl_src fw)) = fl_sink fw \<and>
    src_start_time (fl_data (fl_src fw)) = gw_now w + later + j \<and> unat j \<le> 5000000 \<and>
    fl_actions fw = [SinkConnect, SchedAt (src_start_time (fl_data (fl_src fw)))] \<and>
    src_flowsize (fl_data (fl_src fw)) = fg_size (fg_ehproto g) sz"
proof -
  obtain i q src as where c: "fg_newQueue (gw_lastid w) g = Some (i, q)"
    "fg_wireSource (fg_startTime (gw_now w) later u) (fg_deadline sz) rd (i + 2) (fg_newSource i sz g) = (src, as)"
    "g' = g\<lparr>fg_liveFlows := insert i (fg_liveFlows g), fg_flowsGenerated := fg_flowsGenerated g + 1\<rparr>"
    "gw_lastid w' = i + 3"
    "fw = \<lparr>fl_src = src, fl_sink = i + 2, fl_sink_node = rd_dst_node rd,
       fl_fwd = (case q of None \<Rightarrow> [] | Some (qi, _) \<Rightarrow> [EndhostQ qi]) @ map Hop (rd_fwd rd) @ [Sink (i + 2)],
       fl_rev = map Hop (rd_rev rd) @ [Source i], fl_queue = q, fl_actions = as\<rparr>"
    using fg_createFlow_cases [OF assms(1)] by metis
  obtain j where j: "fg_startTime (gw_now w) later u = gw_now w + later + j" "unat j \<le> 5000000"
    using fg_jitter [OF assms(2,3)] by blast
  note d = fg_wireSource_data [OF c(2)]
  have q: "(case q of None \<Rightarrow> [] | Some (qi, _) \<Rightarrow> [EndhostQ qi]) =
      (if fg_endhostQ g = None then [] else [EndhostQ (i - 1) :: 'a hop])"
    using c(1) by (cases "fg_endhostQ g") (auto simp: fg_newQueue_def bind_eq_Some_conv split: prod.splits)
  show ?thesis
    using c(3-5) d j fg_newSource_data(1,2) [of i sz g] q
    by (intro exI [of _ i] exI [of _ j]) simp
qed

lemma fg_flow_wired_witness:
  "\<exists>w' g' fw i. fg_createFlow (gd_route ex_gdraw) (1 / 2) 3000 0 ex_gworld ex_gen = Some (w', g', fw) \<and>
     fl_fwd fw = [EndhostQ (i - 1), Hop 5, Hop 6, Sink (fl_sink fw)] \<and> fl_rev fw = [Hop 7, Hop 8, Source i] \<and>
     src_flowsize (fl_data (fl_src fw)) = 3000"
proof -
  obtain q where "fg_newQueue (gw_lastid ex_gworld) ex_gen = Some (gw_lastid ex_gworld + 1, Some (gw_lastid ex_gworld, q))"
    using ex_newQueue ex_gen_fields(2) by blast
  then obtain w' g' fw where c: "fg_createFlow (gd_route ex_gdraw) (1 / 2) 3000 0 ex_gworld ex_gen = Some (w', g', fw)"
    using fg_createFlow_some [of ex_gen ex_gworld] ex_gen_fields(3) by fastforce
  show ?thesis using fg_flow_wired [OF c] c by (auto simp: ex_gen_fields ex_gdraw_def fg_size_def)
qed

text \<open>A generator without a log file fails when a flow arrives.\<close>

lemma fg_no_logfile:
  assumes "fg_logfile g = None" "gw_now w \<noteq> fg_endTime g"
  shows "fg_doNextEvent d w g = None"
proof -
  have "fg_logfile g' = None" if "fg_nextSize d g = Some (sz, g')" for sz g'
    using that assms(1)
    by (auto simp: fg_nextSize_def bind_eq_Some_conv split: if_splits list.splits)
  then show ?thesis
    using assms by (cases "fg_nextSize d g") (auto simp: fg_doNextEvent_def fg_createFlow_def)
qed

text \<open>
  The log file. The constructor leaves \<open>_logfile\<close> uninitialised, and no other configuration sets
  it: without \<open>setLogFile\<close> the first arrival reads the uninitialised pointer.
\<close>

lemma fg_logfile_uninitialised:
  assumes "mkFlowGenerator eh rate avg fdist t0 = Some g0"
    and "fg_setReplaceFlow n r g0 = Some g1" "g2 = fg_setEndhostQueue qr qb (fg_setTrace lns g1)"
    and "fg_setTimeLimits s e g2 = Some (g3, as)" "gw_now w \<noteq> e"
  shows "fg_doNextEvent d w g3 = None \<and> fg_doNextEvent d w (g0\<lparr>fg_endTime := e\<rparr>) = None"
proof -
  have 0: "fg_logfile g0 = None"
    using assms(1) by (auto simp: mkFlowGenerator_def Let_def bind_eq_Some_conv split: if_splits)
  then have "fg_logfile g1 = None" using assms(2) by (auto simp: fg_setReplaceFlow_def Let_def split: if_splits)
  then have 3: "fg_logfile g3 = None" "fg_endTime g3 = e"
    using assms(3,4) by (auto simp: fg_setTimeLimits_def fg_setEndhostQueue_def fg_setTrace_def split: if_splits)
  show ?thesis using 0 3 assms(5) by (simp add: fg_no_logfile)
qed

lemma fg_logfile_uninitialised_witness:
  "\<exists>g as. fg_setTimeLimits 0 1000000000000 (fg_setEndhostQueue 10000000000 100000 (fg_setTrace [(5, 1500)] ex_gen1)) =
     Some (g, as) \<and> fg_doNextEvent ex_gdraw ex_gworld g = None"
proof -
  obtain g as where s: "fg_setTimeLimits 0 1000000000000 (fg_setEndhostQueue 10000000000 100000
      (fg_setTrace [(5, 1500)] ex_gen1)) = Some (g, as)"
    by (simp add: fg_setTimeLimits_def fg_setEndhostQueue_def fg_setTrace_def)
  show ?thesis
    using fg_logfile_uninitialised [OF ex_gen0 ex_gen1 refl s, of ex_gworld ex_gdraw] s by (simp add: ex_gworld_def)
qed

end
