(* ===== verification/FlowGenRuns.thy ===== *)
theory FlowGenRuns
  imports FlowGenProps "HOL-Library.Multiset"
begin

text \<open>
  The runs of a \<open>FlowGenerator\<close>: its events, the ends of its flows, and the passing of time, as a
  reachability predicate with the event list as a multiset of times. The invariant bounds the live
  flows and the pending arrivals.
\<close>

section \<open>Runs of a generator\<close>

text \<open>The times of the generator's events in the event list.\<close>

fun fg_event_times :: "u64 \<Rightarrow> action list \<Rightarrow> u64 multiset" where
  "fg_event_times now [] = {#}"
| "fg_event_times now (SchedAt t # as) = add_mset t (fg_event_times now as)"
| "fg_event_times now (SchedRel t # as) = add_mset (now + t) (fg_event_times now as)"
| "fg_event_times now (_ # as) = fg_event_times now as"

text \<open>
  The runs of a configured generator, with the flows created and the number of those finished: its next event,
  the end of a flow, and the rest of the simulation, which passes time and uses object ids. The ids
  do not wrap.
\<close>

inductive fg_reach :: "gen_world \<Rightarrow> flow_gen \<Rightarrow> u64 multiset \<Rightarrow> 'h flow list \<Rightarrow> nat \<Rightarrow> bool" where
  start: "fg_setTimeLimits s e g0 = Some (g, as) \<Longrightarrow> fg_liveFlows g0 = {} \<Longrightarrow> fg_concurrentFlows g0 = 0 \<Longrightarrow>
    fg_reach w g (fg_event_times (gw_now w) as) [] 0"
| event: "fg_reach w g p c f \<Longrightarrow> gw_now w \<in># p \<Longrightarrow> unat (gw_lastid w) + 4 < 2 ^ 32 \<Longrightarrow>
    fg_doNextEvent d w g = Some (w', g', fs, as) \<Longrightarrow>
    fg_reach w' g' (p - {#gw_now w#} + fg_event_times (gw_now w) as) (c @ fs) f"
| finish: "fg_reach w g p c f \<Longrightarrow> unat (gw_lastid w) + 4 < 2 ^ 32 \<Longrightarrow>
    fg_finishFlow d i w g = Some (w', g', fs) \<Longrightarrow>
    fg_reach w' g' p (c @ fs) (if i \<in> fg_liveFlows g then f + 1 else f)"
| elapse: "fg_reach w g p c f \<Longrightarrow> gw_now w \<le> t \<Longrightarrow> \<forall>t' \<in># p. t \<le> t' \<Longrightarrow> gw_lastid w \<le> i \<Longrightarrow>
    fg_reach (w\<lparr>gw_now := t, gw_lastid := i\<rparr>) g p c f"

lemma fg_newQueue_ids:
  assumes "fg_newQueue i g = Some (j, q)" "unat i + 4 < 2 ^ 32"
  shows "i \<le> j" "j < j + 3" "unat (j + 3) \<le> unat i + 4"
proof -
  have j: "j = i \<or> j = i + 1" using fg_newQueue_cases [OF assms(1)] by blast
  have 1: "unat (i + 1) = unat i + 1" using assms(2) by (simp add: unat_word_ariths)
  have 2: "unat (i + 3) = unat i + 3" using assms(2) by (simp add: unat_word_ariths)
  have 3: "unat (i + 4) = unat i + 4" using assms(2) by (simp add: unat_word_ariths)
  have e: "i + 1 + 3 = i + (4::u32)" by (simp add: add.assoc)
  show "i \<le> j" "j < j + 3" "unat (j + 3) \<le> unat i + 4"
    using j 1 2 3 unfolding word_le_nat_alt word_less_nat_alt by (elim disjE; simp only: e; simp)+
qed

text \<open>What \<open>createFlow\<close> changes: one fresh id joins the live flows.\<close>

definition fg_adds :: "gen_world \<Rightarrow> flow_gen \<Rightarrow> gen_world \<Rightarrow> flow_gen \<Rightarrow> bool" where
  "fg_adds w g w' g' = (\<exists>i. gw_lastid w \<le> i \<and> i < gw_lastid w' \<and> gw_now w' = gw_now w \<and>
     fg_liveFlows g' = insert i (fg_liveFlows g) \<and> fg_concurrentFlows g' = fg_concurrentFlows g \<and>
     fg_replaceFlow g' = fg_replaceFlow g \<and> fg_maxFlows g' = fg_maxFlows g \<and> fg_endTime g' = fg_endTime g)"

lemma fg_createFlow_adds:
  assumes "fg_createFlow rd u sz later w g = Some (w', g', fw)" "unat (gw_lastid w) + 4 < 2 ^ 32"
  shows "fg_adds w g w' g'"
proof -
  obtain i q where c: "fg_newQueue (gw_lastid w) g = Some (i, q)"
    "g' = g\<lparr>fg_liveFlows := insert i (fg_liveFlows g), fg_flowsGenerated := fg_flowsGenerated g + 1\<rparr>"
    "gw_lastid w' = i + 3" "gw_now w' = gw_now w"
    using fg_createFlow_cases [OF assms(1)] by metis
  show ?thesis
    using c fg_newQueue_ids [OF c(1) assms(2)] by (auto simp: fg_adds_def)
qed

text \<open>An event does nothing at the end time, and otherwise adds one flow and at most one event.\<close>

lemma fg_doNextEvent_cases:
  assumes "fg_doNextEvent d w g = Some (w', g', fs, as)" "unat (gw_lastid w) + 4 < 2 ^ 32"
  shows "(gw_now w = fg_endTime g \<and> w' = w \<and> g' = g \<and> fs = [] \<and> as = []) \<or>
    (length fs = 1 \<and> fg_adds w (g\<lparr>fg_concurrentFlows := fg_concurrentFlows g + 1\<rparr>) w' g' \<and>
     (as = [] \<or> (\<exists>t. as = [SchedRel t] \<and> (fg_replaceFlow g' \<longrightarrow> fg_concurrentFlows g' < fg_maxFlows g'))))"
proof (cases "gw_now w = fg_endTime g")
  case True
  then show ?thesis using assms(1) by (auto simp: fg_doNextEvent_def)
next
  case False
  obtain sz g1 where 1: "fg_nextSize d g = Some (sz, g1)"
    using assms(1) False by (auto simp: fg_doNextEvent_def bind_eq_Some_conv)
  obtain w2 g2 fw where 2: "fg_createFlow (gd_route d) (gd_jitter d) sz 0 w g1 = Some (w2, g2, fw)"
    using assms(1) False 1 by (auto simp: fg_doNextEvent_def bind_eq_Some_conv)
  define g3 where "g3 = g2\<lparr>fg_concurrentFlows := fg_concurrentFlows g2 + 1\<rparr>"
  obtain a where 3: "fg_nextArrival d (gw_now w2) g3 = Some a"
    using assms(1) False 1 2 by (auto simp: fg_doNextEvent_def g3_def Let_def bind_eq_Some_conv)
  have s: "fg_liveFlows g1 = fg_liveFlows g" "fg_concurrentFlows g1 = fg_concurrentFlows g"
    "fg_replaceFlow g1 = fg_replaceFlow g" "fg_maxFlows g1 = fg_maxFlows g" "fg_endTime g1 = fg_endTime g"
    using 1 by (auto simp: fg_nextSize_def bind_eq_Some_conv split: if_splits list.splits)
  have r: "w' = w2 \<and> g' = g3 \<and> fs = [fw] \<and> (as = [] \<or> (\<exists>t. as = [SchedRel t] \<and>
      (\<not> fg_replaceFlow g3 \<or> fg_concurrentFlows g3 < fg_maxFlows g3)))"
    using assms(1) False 1 2 3
    by (cases a) (auto simp: fg_doNextEvent_def g3_def Let_def split: if_splits)
  have "fg_adds w (g\<lparr>fg_concurrentFlows := fg_concurrentFlows g + 1\<rparr>) w2 g3"
    using fg_createFlow_adds [OF 2 assms(2)] s by (auto simp: fg_adds_def g3_def)
  then show ?thesis using r by auto
qed

text \<open>The end of a live flow removes it, and in replacement mode adds another.\<close>

lemma fg_finishFlow_cases:
  assumes "fg_finishFlow d i w g = Some (w', g', fs)" "unat (gw_lastid w) + 4 < 2 ^ 32"
  shows "if i \<notin> fg_liveFlows g then w' = w \<and> g' = g \<and> fs = []
    else if fg_replaceFlow g then length fs = 1 \<and> fg_adds w (g\<lparr>fg_liveFlows := fg_liveFlows g - {i}\<rparr>) w' g'
    else w' = w \<and> g' = g\<lparr>fg_liveFlows := fg_liveFlows g - {i}\<rparr> \<and> fs = []"
proof (cases "i \<in> fg_liveFlows g \<and> fg_replaceFlow g")
  case True
  define g1 where "g1 = g\<lparr>fg_liveFlows := fg_liveFlows g - {i}\<rparr>"
  obtain sz later fw where "fg_createFlow (gd_route d) (gd_jitter d) sz later w g1 = Some (w', g', fw)" "fs = [fw]"
    using assms(1) True by (auto simp: fg_finishFlow_def g1_def Let_def bind_eq_Some_conv)
  then show ?thesis using True fg_createFlow_adds [OF _ assms(2)] by (simp add: g1_def)
next
  case False
  then show ?thesis using assms(1) by (auto simp: fg_finishFlow_def split: if_splits)
qed

text \<open>
  The invariant: the live flows have ids that were given out; they are those created and not
  finished; in replacement mode there are as many as \<open>_concurrentFlows\<close>, and besides the event at
  the end time at most one arrival is pending, only while there are fewer than \<open>_maxFlows\<close>.
\<close>

definition fg_inv :: "gen_world \<Rightarrow> flow_gen \<Rightarrow> u64 multiset \<Rightarrow> nat \<Rightarrow> nat \<Rightarrow> bool" where
  "fg_inv w g p c f = (finite (fg_liveFlows g) \<and> (\<forall>i \<in> fg_liveFlows g. i < gw_lastid w) \<and>
     card (fg_liveFlows g) + f = c \<and>
     (fg_replaceFlow g \<and> 0 < fg_maxFlows g \<longrightarrow> card (fg_liveFlows g) = unat (fg_concurrentFlows g) \<and>
        fg_concurrentFlows g \<le> fg_maxFlows g) \<and>
     (\<exists>arr ends. p = arr + ends \<and> set_mset ends \<subseteq> {fg_endTime g} \<and> size arr \<le> 1 \<and>
        (fg_replaceFlow g \<and> 0 < fg_maxFlows g \<and> arr \<noteq> {#} \<longrightarrow> fg_concurrentFlows g < fg_maxFlows g)))"


lemma fg_inv_start:
  assumes "fg_setTimeLimits s e g0 = Some (g, as)" "fg_liveFlows g0 = {}" "fg_concurrentFlows g0 = 0"
  shows "fg_inv w g (fg_event_times (gw_now w) as) 0 0"
proof -
  obtain t where t: "as = [SchedAt t, SchedAt e]" "g = g0\<lparr>fg_endTime := e\<rparr>"
    using assms(1) by (auto simp: fg_setTimeLimits_def split: if_splits)
  have "\<exists>arr ends. {#t, e#} = arr + ends \<and> set_mset ends \<subseteq> {e} \<and> size arr \<le> 1 \<and>
      (fg_replaceFlow g0 \<and> 0 < fg_maxFlows g0 \<and> arr \<noteq> {#} \<longrightarrow> 0 < fg_maxFlows g0)"
    by (intro exI [of _ "{#t#}"] exI [of _ "{#e#}"]) simp
  then show ?thesis using t assms(2,3) by (simp add: fg_inv_def)
qed

lemma fg_inv_adds:
  assumes "finite L" "\<forall>i \<in> L. i < gw_lastid w" "fg_adds w g w' g'" "fg_liveFlows g = L"
  shows "finite (fg_liveFlows g')" "\<forall>i \<in> fg_liveFlows g'. i < gw_lastid w'" "card (fg_liveFlows g') = card L + 1"
  using assms by (fastforce simp: fg_adds_def card_insert_if)+

lemma fg_inv_event:
  assumes i: "fg_inv w g p c f" and n: "gw_now w \<in># p"
    and e: "fg_doNextEvent d w g = Some (w', g', fs, as)" and l: "unat (gw_lastid w) + 4 < 2 ^ 32"
  shows "fg_inv w' g' (p - {#gw_now w#} + fg_event_times (gw_now w) as) (c + length fs) f"
proof -
  obtain arr ends where p: "p = arr + ends" "set_mset ends \<subseteq> {fg_endTime g}" "size arr \<le> 1"
    "fg_replaceFlow g \<and> 0 < fg_maxFlows g \<and> arr \<noteq> {#} \<longrightarrow> fg_concurrentFlows g < fg_maxFlows g"
    using i by (auto simp: fg_inv_def)
  show ?thesis
  proof (cases "gw_now w = fg_endTime g")
    case True
    then have r: "w' = w" "g' = g" "fs = []" "as = []" using fg_doNextEvent_cases [OF e l] 
      using e by (auto simp: fg_doNextEvent_def)
    have "\<exists>arr' ends'. p - {#gw_now w#} = arr' + ends' \<and> set_mset ends' \<subseteq> {fg_endTime g} \<and> size arr' \<le> 1 \<and>
      (arr' \<noteq> {#} \<longrightarrow> arr \<noteq> {#})"
    proof (cases "gw_now w \<in># arr")
      case True
      then have "size (arr - {#gw_now w#}) \<le> 1" using p(3) by (simp add: size_Diff_singleton)
      then show ?thesis using True p(1,2) 
        by (intro exI [of _ "arr - {#gw_now w#}"] exI [of _ ends]) auto
    next
      case False
      then have "gw_now w \<in># ends" using n p(1) by auto
      then show ?thesis using p(1,2,3) in_diffD [of _ ends]
        by (intro exI [of _ arr] exI [of _ "ends - {#gw_now w#}"]) fastforce
    qed
    then show ?thesis using i p(4) r unfolding fg_inv_def by (simp; metis)
  next
    case False
    then have a: "gw_now w \<in># arr" using n p(1,2) by auto
    then have arr: "arr = {#gw_now w#}" using p(3) by (metis insert_DiffM size_eq_0_iff_empty
      size_add_mset Suc_le_mono le_zero_eq One_nat_def add_mset_add_single empty_neutral(1))
    have c: "length fs = 1" "fg_adds w (g\<lparr>fg_concurrentFlows := fg_concurrentFlows g + 1\<rparr>) w' g'"
      "as = [] \<or> (\<exists>t. as = [SchedRel t] \<and> (fg_replaceFlow g' \<longrightarrow> fg_concurrentFlows g' < fg_maxFlows g'))"
      using fg_doNextEvent_cases [OF e l] False by blast+
    have g': "fg_concurrentFlows g' = fg_concurrentFlows g + 1" "fg_replaceFlow g' = fg_replaceFlow g"
      "fg_maxFlows g' = fg_maxFlows g" "fg_endTime g' = fg_endTime g"
      using c(2) by (auto simp: fg_adds_def)
    have live: "finite (fg_liveFlows g')" "\<forall>i \<in> fg_liveFlows g'. i < gw_lastid w'"
      "card (fg_liveFlows g') = card (fg_liveFlows g) + 1"
      using fg_inv_adds [OF _ _ c(2)] i by (simp_all add: fg_inv_def)
    have conc: "fg_replaceFlow g \<and> 0 < fg_maxFlows g \<longrightarrow> card (fg_liveFlows g') = unat (fg_concurrentFlows g') \<and>
        fg_concurrentFlows g' \<le> fg_maxFlows g"
    proof
      assume r: "fg_replaceFlow g \<and> 0 < fg_maxFlows g"
      then have lt: "fg_concurrentFlows g < fg_maxFlows g" using p(4) arr by auto
      then have "unat (fg_concurrentFlows g + 1) = unat (fg_concurrentFlows g) + 1"
        using unat_lt_2_32 [of "fg_maxFlows g"] by (simp add: word_less_nat_alt unat_word_ariths)
      moreover have "fg_concurrentFlows g + 1 \<le> fg_maxFlows g" using lt by (rule inc_le)
      ultimately show "card (fg_liveFlows g') = unat (fg_concurrentFlows g') \<and> fg_concurrentFlows g' \<le> fg_maxFlows g"
        using r i live(3) g'(1) by (simp add: fg_inv_def)
    qed
    have len: "card (fg_liveFlows g') + f = c + length fs" using i live(3) c(1) by (simp add: fg_inv_def)
    define new where "new = fg_event_times (gw_now w) as"
    have new: "size new \<le> 1" "new \<noteq> {#} \<longrightarrow> fg_replaceFlow g \<longrightarrow> fg_concurrentFlows g' < fg_maxFlows g"
      using c(3) g'(2,3) by (auto simp: new_def)
    have "\<exists>arr' ends'. p - {#gw_now w#} + new = arr' + ends' \<and> set_mset ends' \<subseteq> {fg_endTime g} \<and> size arr' \<le> 1 \<and>
        (fg_replaceFlow g \<and> 0 < fg_maxFlows g \<and> arr' \<noteq> {#} \<longrightarrow> fg_concurrentFlows g' < fg_maxFlows g)"
      using p(1,2) arr new by (intro exI [of _ new] exI [of _ ends]) simp
    then show ?thesis
      unfolding fg_inv_def g'(2,3,4) new_def using live(1,2) len conc by (intro conjI)
  qed
qed

lemma fg_inv_finish:
  assumes i: "fg_inv w g p c f" and e: "fg_finishFlow d k w g = Some (w', g', fs)"
    and l: "unat (gw_lastid w) + 4 < 2 ^ 32"
  shows "fg_inv w' g' p (c + length fs) (if k \<in> fg_liveFlows g then f + 1 else f)"
proof (cases "k \<in> fg_liveFlows g")
  case False
  then show ?thesis using i fg_finishFlow_cases [OF e l] by simp
next
  case k: True
  define L where "L = fg_liveFlows g - {k}"
  have fin: "finite L" "\<forall>i \<in> L. i < gw_lastid w" "card (fg_liveFlows g) = card L + 1"
    using i k card_Suc_Diff1 [of "fg_liveFlows g" k] by (simp_all add: fg_inv_def L_def del: card_Diff_insert)
  show ?thesis
  proof (cases "fg_replaceFlow g")
    case True
    have c: "length fs = 1" "fg_adds w (g\<lparr>fg_liveFlows := L\<rparr>) w' g'"
      using fg_finishFlow_cases [OF e l] k True by (simp_all add: L_def)
    have g': "fg_concurrentFlows g' = fg_concurrentFlows g" "fg_replaceFlow g' = fg_replaceFlow g"
      "fg_maxFlows g' = fg_maxFlows g" "fg_endTime g' = fg_endTime g"
      using c(2) by (auto simp: fg_adds_def)
    have live: "finite (fg_liveFlows g')" "\<forall>i \<in> fg_liveFlows g'. i < gw_lastid w'"
      "card (fg_liveFlows g') = card (fg_liveFlows g)"
      using fg_inv_adds [OF fin(1,2) c(2)] fin(3) by simp_all
    show ?thesis using i live g' c(1) k by (simp add: fg_inv_def)
  next
    case False
    then have "w' = w" "g' = g\<lparr>fg_liveFlows := L\<rparr>" "fs = []"
      using fg_finishFlow_cases [OF e l] k by (simp_all add: L_def)
    then show ?thesis using i fin k False by (simp add: fg_inv_def)
  qed
qed

lemma fg_reach_inv: "fg_reach w g p c f \<Longrightarrow> fg_inv w g p (length c) f"
proof (induction rule: fg_reach.induct)
  case (start s e g0 g as w)
  then show ?case using fg_inv_start by simp
next
  case (event w g p c f d w' g' fs as)
  then show ?case using fg_inv_event by simp
next
  case (finish w g p c f d i w' g' fs)
  then show ?case using fg_inv_finish [of w g p "length c" f d i w' g' fs] by simp
next
  case (elapse w g p c f t i)
  then show ?case by (auto simp: fg_inv_def)
qed

text \<open>
  C36: flow replacement. In every run of a generator the live flows are the created ones less the
  finished ones. With \<open>setReplaceFlow\<close> there are never more than \<open>_maxFlows\<close> of them and exactly
  \<open>_concurrentFlows\<close>, the end of a flow never changes their number, and once there are \<open>_maxFlows\<close>
  of them the only event of the generator left is the one at the end time.
\<close>

theorem fg_replacement:
  assumes "fg_reach w g p c f"
  shows "card (fg_liveFlows g) + f = length c \<and>
    (fg_replaceFlow g \<and> 0 < fg_maxFlows g \<longrightarrow>
      card (fg_liveFlows g) = unat (fg_concurrentFlows g) \<and> card (fg_liveFlows g) \<le> unat (fg_maxFlows g) \<and>
      (card (fg_liveFlows g) = unat (fg_maxFlows g) \<longrightarrow> set_mset p \<subseteq> {fg_endTime g}))"
proof -
  have i: "fg_inv w g p (length c) f" by (rule fg_reach_inv [OF assms])
  obtain arr ends where p: "p = arr + ends" "set_mset ends \<subseteq> {fg_endTime g}"
    "fg_replaceFlow g \<and> 0 < fg_maxFlows g \<and> arr \<noteq> {#} \<longrightarrow> fg_concurrentFlows g < fg_maxFlows g"
    using i by (auto simp: fg_inv_def)
  show ?thesis
  proof (intro conjI impI)
    show "card (fg_liveFlows g) + f = length c" using i by (simp add: fg_inv_def)
    assume r: "fg_replaceFlow g \<and> 0 < fg_maxFlows g"
    then show a: "card (fg_liveFlows g) = unat (fg_concurrentFlows g)"
      and "card (fg_liveFlows g) \<le> unat (fg_maxFlows g)"
      using i by (simp_all add: fg_inv_def word_le_nat_alt)
    assume "card (fg_liveFlows g) = unat (fg_maxFlows g)"
    then have "arr = {#}" using r a p(3) by (auto simp: word_less_nat_alt)
    then show "set_mset p \<subseteq> {fg_endTime g}" using p(1,2) by simp
  qed
qed

lemma fg_replacement_witness:
  "\<exists>w g fs. fg_reach w g {#1000000000000#} (fs :: nat flow list) 1 \<and> length fs = 2 \<and> card (fg_liveFlows g) = 1"
proof -
  let ?g = "ex_gen\<lparr>fg_endTime := 1000000000000\<rparr>"
  obtain as where l: "fg_setTimeLimits 0 1000000000000 ex_gen = Some (?g, as)" "as = [SchedAt 0, SchedAt 1000000000000]"
    by (simp add: fg_setTimeLimits_def ex_gen_fields)
  have 0: "fg_reach ex_gworld ?g (fg_event_times (gw_now ex_gworld) as) ([] :: nat flow list) 0"
    by (rule fg_reach.start [OF l(1)]) (simp_all add: ex_gen_fields)
  have p0: "fg_event_times (gw_now ex_gworld) as = {#0, 1000000000000#}" by (simp add: l(2))
  obtain q where q: "fg_newQueue (gw_lastid ex_gworld) ?g = Some (gw_lastid ex_gworld + 1, Some (gw_lastid ex_gworld, q))"
    using ex_newQueue ex_gen_fields(2) by fastforce
  let ?g1 = "?g\<lparr>fg_liveFlows := {11}, fg_flowsGenerated := fg_flowsGenerated ex_gen + 1\<rparr>"
  have s: "wl_generateFlowSize (mkWorkloads 3000 UNIFORM) a b = Some 3000" for a b
    by (simp add: wl_generateFlowSize_def mkWorkloads_def)
  have n: "fg_nextSize ex_gdraw ?g = Some (3000, ?g)" by (simp add: fg_nextSize_def ex_gen_fields s)
  obtain w1 fw where w1: "gw_lastid w1 = 14" "gw_now w1 = 0"
    "fg_createFlow (gd_route ex_gdraw) (gd_jitter ex_gdraw) 3000 0 ex_gworld ?g = Some (w1, ?g1, fw)"
    using fg_createFlow_some [of ?g ex_gworld _ _ "gd_route ex_gdraw" "gd_jitter ex_gdraw" 3000 0, OF _ q]
    by (auto simp: ex_gen_fields ex_gworld_def)
  let ?g2 = "?g1\<lparr>fg_concurrentFlows := 1\<rparr>"
  have "double_to_u64 1000 = Some 1000" by (simp add: double_to_u64_def trunc_rat_def)
  then have d: "fg_doNextEvent ex_gdraw ex_gworld ?g = Some (w1, ?g2, [fw], [])"
    using n w1 by (simp add: fg_doNextEvent_def fg_nextArrival_def ex_gen_fields ex_gdraw_def ex_gworld_def Let_def)
  have 1: "fg_reach w1 ?g2 {#1000000000000#} [fw] 0"
    using fg_reach.event [OF 0 _ _ d] p0 by (simp add: ex_gworld_def)
  have "\<exists>w' g' fw'. fg_finishFlow ex_gdraw 11 w1 ?g2 = Some (w', g', [fw'])"
  proof -
    let ?g3 = "?g2\<lparr>fg_liveFlows := {}\<rparr>"
    obtain i q where "fg_newQueue (gw_lastid w1) ?g3 = Some (i, q)"
      using ex_newQueue [of ?g3 "gw_lastid w1"] by (auto simp: ex_gen_fields)
    moreover define later where
      "later = (if 0 < fg_avgOffTime ex_gen then word_of_int (llround (gd_next ex_gdraw)) else 0 :: u64)"
    ultimately obtain w' g' fw' where
      "fg_createFlow (gd_route ex_gdraw) (gd_jitter ex_gdraw) 3000 later w1 ?g3 = Some (w', g', fw')"
      using fg_createFlow_some [of ?g3 w1 i q] by (fastforce simp: ex_gen_fields)
    then show ?thesis
      by (cases "0 < fg_avgOffTime ex_gen") (simp_all add: fg_finishFlow_def ex_gen_fields s later_def)
  qed
  then obtain w' g' fw' where "fg_finishFlow ex_gdraw 11 w1 ?g2 = Some (w', g', [fw'])" by blast
  then have 2: "fg_reach w' g' {#1000000000000#} [fw, fw'] 1"
    using fg_reach.finish [OF 1] w1(1) by fastforce
  then show ?thesis using fg_replacement [OF 2] by (intro exI [of _ w'] exI [of _ g'] exI [of _ "[fw, fw']"]) simp
qed

end
