(* ===== verification/Transport.thy ===== *)
theory Transport
  imports TcpSinkModel "HOL-Library.Multiset"
begin

text \<open>
  The transport protocols over a network. A source and a sink exchange packets over a network that
  may lose, delay and reorder them and change everything but their class and size, as the queues,
  pipes and switches of the simulator do. The locales \<open>transport_source\<close> and \<open>transport_sink\<close> are what
  the handlers of the three protocols have in common; from them follows, for every reachable state,
  that what a source takes for acknowledged has arrived.
\<close>

section \<open>Segments\<close>

text \<open>
  Data packets are the segments of \<open>MSS_BYTES\<close> bytes that start at a multiple of \<open>MSS_BYTES\<close>. The
  numbers of a source stay multiples of \<open>MSS_BYTES\<close>; \<open>n\<close> counts the operations since its counters
  were below $2^{62}$.
\<close>

definition data_segment :: "packet \<Rightarrow> bool" where
  "data_segment p \<longleftrightarrow> p_size p = MSS64 \<and> (\<exists>k t. k < 2 ^ 53 \<and> p_class p = DataPacket (cum_at 1500 k + 1) t)"

definition segment_no :: "packet \<Rightarrow> nat" where
  "segment_no p = unat (seqno (p_class p) - 1) div 1500"

definition seqs_ok :: "nat \<Rightarrow> 'a data_source_scheme \<Rightarrow> bool" where
  "seqs_ok n s \<longleftrightarrow> 1500 dvd unat (src_highest_sent s) \<and> 1500 dvd unat (src_last_acked s) \<and>
     unat (src_highest_sent s) < 2 ^ 62 + n * 2 ^ 33 \<and> unat (src_last_acked s) < 2 ^ 62 + n * 2 ^ 33"

text \<open>What an operation of a source sends and what it keeps.\<close>

definition emits :: "nat \<Rightarrow> 'a data_source_scheme \<Rightarrow> 'a data_source_scheme \<Rightarrow> action list \<Rightarrow> bool" where
  "emits n s s' as \<longleftrightarrow> seqs_ok n s' \<and> (\<forall>p \<in> set (sends as). data_segment p) \<and>
     src_flowsize s' = src_flowsize s \<and> src_duration s' = src_duration s"

lemma segment_of_seq:
  assumes "1500 dvd unat x" "unat x < 2 ^ 63"
  shows "\<exists>k < 2 ^ 53. x + 1 = cum_at 1500 k + 1"
proof -
  define k where "k = unat x div 1500"
  have e: "k * 1500 = unat x" using assms(1) by (simp add: k_def)
  then have "cum_at 1500 k = x" by (simp add: cum_at_def)
  moreover have "k < 2 ^ 53" using e assms(2) by simp
  ultimately show ?thesis by blast
qed

lemma segment_no_seq: "k < 2 ^ 53 \<Longrightarrow> p_class p = DataPacket (cum_at 1500 k + 1) t \<Longrightarrow> segment_no p = k"
  by (simp add: segment_no_def unat_cum_at)

lemma seg_ok_1500: "k < 2 ^ 53 \<Longrightarrow> seg_ok 1500 k"
  by (simp add: seg_ok_def)

lemma own_segments:
  assumes "\<forall>p \<in> set (sends as). own_segment w s p"
    and "\<forall>x \<in> set (sent_seqs as). \<exists>y. x = y + 1 \<and> 1500 dvd unat y \<and> unat y < 2 ^ 63"
  shows "\<forall>p \<in> set (sends as). data_segment p"
proof
  fix p
  assume p: "p \<in> set (sends as)"
  then have "seqno (p_class p) \<in> set (sent_seqs as)" by (simp add: sent_seqs_def)
  then obtain y where y: "seqno (p_class p) = y + 1" "1500 dvd unat y" "unat y < 2 ^ 63"
    using assms(2) by meson
  obtain k where k: "k < 2 ^ 53" "y + 1 = cum_at 1500 k + 1"
    using segment_of_seq [OF y(2,3)] by (elim exE conjE)
  have o: "p_size p = MSS64" "p_class p = DataPacket (seqno (p_class p)) (w_now w)"
    using bspec [OF assms(1) p] by (simp_all only: own_segment_def)
  have "p_class p = DataPacket (cum_at 1500 k + 1) (w_now w)"
    using o(2) unfolding y(1) k(2) .
  then show "data_segment p" unfolding data_segment_def using o(1) k(1) by (intro conjI exI)
qed

lemma seqs_ok_mono: "seqs_ok m s \<Longrightarrow> m \<le> n \<Longrightarrow> seqs_ok n s"
  by (auto simp: seqs_ok_def elim: less_le_trans)

lemma seqs_ok_cong:
  "src_highest_sent s' = src_highest_sent s \<Longrightarrow> src_last_acked s' = src_last_acked s \<Longrightarrow> seqs_ok n s' = seqs_ok n s"
  by (simp add: seqs_ok_def)

lemma seqs_ok_next:
  assumes "1500 dvd unat x" "unat x < 2 ^ 62 + n * 2 ^ 33" "n \<le> 8"
  shows "1500 dvd unat (x + MSS64)" "unat (x + MSS64) < 2 ^ 62 + Suc n * 2 ^ 33" "unat x < 2 ^ 63"
proof -
  have b: "n * 2 ^ 33 \<le> 8 * 2 ^ 33" using assms(3) by (intro mult_le_mono1)
  then have "unat (x + MSS64) = unat x + 1500" using assms(2) by (subst unat_add_64) simp_all
  then show "1500 dvd unat (x + MSS64)" "unat (x + MSS64) < 2 ^ 62 + Suc n * 2 ^ 33"
    using assms(1,2) by simp_all
  show "unat x < 2 ^ 63" using assms(2) b by simp
qed

lemma emits_trans:
  assumes "emits n s s' as" "emits n' s' s'' bs"
  shows "emits n' s s'' (as @ bs)"
  using assms by (auto simp: emits_def)

lemma emits_mono: "emits m s s' as \<Longrightarrow> m \<le> n \<Longrightarrow> emits n s s' as"
  by (auto simp: emits_def intro: seqs_ok_mono)

text \<open>A step that sends at most one segment, the next one or the first one not acknowledged.\<close>

lemma emits_single:
  assumes "seqs_ok n s" "n \<le> 7" "\<forall>p \<in> set (sends as). own_segment w s p"
    and "set (sent_seqs as) \<subseteq> {src_last_acked s + 1, src_highest_sent s + 1}"
    and "src_highest_sent s' \<in> {src_highest_sent s, src_highest_sent s + MSS64}"
    and "src_last_acked s' = src_last_acked s" "src_flowsize s' = src_flowsize s" "src_duration s' = src_duration s"
  shows "emits (Suc n) s s' as"
proof -
  have h: "1500 dvd unat (src_highest_sent s)" "unat (src_highest_sent s) < 2 ^ 62 + n * 2 ^ 33"
    "1500 dvd unat (src_last_acked s)" "unat (src_last_acked s) < 2 ^ 62 + n * 2 ^ 33" "n \<le> 8"
    using assms(1,2) by (simp_all add: seqs_ok_def)
  have "\<exists>y. x = y + 1 \<and> 1500 dvd unat y \<and> unat y < 2 ^ 63" if "x \<in> set (sent_seqs as)" for x
    using that assms(4) h seqs_ok_next(3) [OF h(1,2,5)] seqs_ok_next(3) [OF h(3,4,5)] by auto
  then have "\<forall>p \<in> set (sends as). data_segment p" using own_segments [OF assms(3)] by blast
  moreover have "seqs_ok (Suc n) s'"
    using assms(5,6) seqs_ok_next(1,2) [OF h(1,2,5)] h by (auto simp: seqs_ok_def)
  ultimately show ?thesis using assms(7,8) by (simp add: emits_def)
qed

text \<open>The fields of a source the transport is about.\<close>

definition same_flow :: "'a data_source_scheme \<Rightarrow> 'a data_source_scheme \<Rightarrow> bool" where
  "same_flow s s' \<longleftrightarrow> src_highest_sent s' = src_highest_sent s \<and> src_last_acked s' = src_last_acked s \<and>
     src_flowsize s' = src_flowsize s \<and> src_duration s' = src_duration s"

lemma emits_same_flow: "same_flow s0 s \<Longrightarrow> emits n s s' as \<Longrightarrow> emits n s0 s' as"
  by (simp add: same_flow_def emits_def)

lemma seqs_ok_same_flow: "same_flow s s' \<Longrightarrow> seqs_ok n s' = seqs_ok n s"
  by (simp add: same_flow_def seqs_ok_def)

section \<open>The set of received segments\<close>

lemma mex_less:
  assumes "k < mex R"
  shows "k \<in> R"
  using not_less_Least [of k "\<lambda>n. n \<notin> R"] assms by (simp add: mex_def)

lemma mex_notin: "finite R \<Longrightarrow> mex R \<notin> R" for R :: "nat set"
  unfolding mex_def by (rule LeastI_ex) (metis ex_new_if_finite infinite_UNIV_nat)

lemma mex_le: "\<forall>k \<in> R. k < N \<Longrightarrow> mex R \<le> N"
  unfolding mex_def by (rule Least_le) auto

lemma mex_insert:
  assumes "finite R"
  shows "mex R \<le> mex (insert k R)"
proof (rule ccontr)
  assume "\<not> mex R \<le> mex (insert k R)"
  then have "mex (insert k R) \<in> R" by (intro mex_less) simp
  then show False using mex_notin [of "insert k R"] assms by simp
qed

section \<open>The network\<close>

text \<open>
  A run of a source \<open>s\<close> and a sink \<open>d\<close> with the packets in flight in both directions and the numbers
  of the segments that have arrived. Every step may happen at any time and with any packet pools, so
  the world is arbitrary. The counters stay below $2^{62}$.
\<close>

definition net_room :: "'a data_source_scheme \<Rightarrow> 'b data_sink_scheme \<Rightarrow> bool" where
  "net_room s d \<longleftrightarrow> unat (src_highest_sent s) < 2 ^ 62 \<and> unat (src_last_acked s) < 2 ^ 62 \<and>
     unat (ds_cumulative_ack d) < 2 ^ 62"

inductive net_reach ::
  "(world \<Rightarrow> 'a data_source_scheme \<Rightarrow> (world \<times> 'a data_source_scheme \<times> action list) option) \<Rightarrow>
   (world \<Rightarrow> 'a data_source_scheme \<Rightarrow> packet \<Rightarrow> (world \<times> 'a data_source_scheme \<times> action list) option) \<Rightarrow>
   (world \<Rightarrow> packet_flow \<Rightarrow> 'b data_sink_scheme \<Rightarrow> packet \<Rightarrow>
      (world \<times> packet_flow \<times> 'b data_sink_scheme \<times> action list) option) \<Rightarrow>
   'a data_source_scheme \<Rightarrow> 'b data_sink_scheme \<Rightarrow>
   'a data_source_scheme \<Rightarrow> 'b data_sink_scheme \<Rightarrow> packet multiset \<Rightarrow> packet multiset \<Rightarrow> nat set \<Rightarrow> bool"
  for ev rc sk s0 d0 where
  start: "net_reach ev rc sk s0 d0 s0 d0 {#} {#} {}"
| event: "net_reach ev rc sk s0 d0 s d F B R \<Longrightarrow> net_room s d \<Longrightarrow> ev w s = Some (w', s', as) \<Longrightarrow>
    net_reach ev rc sk s0 d0 s' d (F + mset (sends as)) B R"
| ack: "net_reach ev rc sk s0 d0 s d F B R \<Longrightarrow> net_room s d \<Longrightarrow> a \<in># B \<Longrightarrow> rc w s a = Some (w', s', as) \<Longrightarrow>
    net_reach ev rc sk s0 d0 s' d (F + mset (sends as)) (B - {#a#}) R"
| data: "net_reach ev rc sk s0 d0 s d F B R \<Longrightarrow> p \<in># F \<Longrightarrow> sk w (src_flow s) d p = Some (w', f, d', as) \<Longrightarrow>
    net_reach ev rc sk s0 d0 (s\<lparr>src_flow := f\<rparr>) d' (F - {#p#}) (B + mset (sends as)) (insert (segment_no p) R)"
| lose_data: "net_reach ev rc sk s0 d0 s d F B R \<Longrightarrow> net_reach ev rc sk s0 d0 s d (F - {#p#}) B R"
| lose_ack: "net_reach ev rc sk s0 d0 s d F B R \<Longrightarrow> net_reach ev rc sk s0 d0 s d F (B - {#a#}) R"
| hop_data: "net_reach ev rc sk s0 d0 s d F B R \<Longrightarrow> p \<in># F \<Longrightarrow> p_class q = p_class p \<Longrightarrow> p_size q = p_size p \<Longrightarrow>
    net_reach ev rc sk s0 d0 s d (F - {#p#} + {#q#}) B R"
| hop_ack: "net_reach ev rc sk s0 d0 s d F B R \<Longrightarrow> a \<in># B \<Longrightarrow> p_class b = p_class a \<Longrightarrow> p_size b = p_size a \<Longrightarrow>
    net_reach ev rc sk s0 d0 s d F (B - {#a#} + {#b#}) R"

lemma net_reach_first:
  assumes "net_room s0 d0" "ev w s0 = Some (w1, s1, as)"
  shows "net_reach ev rc sk s0 d0 s1 d0 (mset (sends as)) {#} {}"
proof -
  have "net_reach ev rc sk s0 d0 s0 d0 {#} {#} {}" by (rule net_reach.start)
  from net_reach.event [OF this assms] show ?thesis by simp
qed

text \<open>The packets in flight have the classes the two ends cast them to.\<close>

definition well_classed ::
  "(world \<Rightarrow> packet_flow \<Rightarrow> 'b data_sink_scheme \<Rightarrow> packet \<Rightarrow>
     (world \<times> packet_flow \<times> 'b data_sink_scheme \<times> action list) option) \<Rightarrow>
   'b data_sink_scheme \<Rightarrow> packet multiset \<Rightarrow> packet multiset \<Rightarrow> bool" where
  "well_classed sk d F B \<longleftrightarrow>
     (\<forall>p \<in># F. p_size p = MSS64 \<and> (\<exists>sq t. p_class p = DataPacket sq t) \<and> (\<forall>w f. sk w f d p \<noteq> None)) \<and>
     (\<forall>a \<in># B. p_size a = 40 \<and> (\<exists>x c t. p_class a = DataAck x c t))"

section \<open>What the protocols have in common\<close>

text \<open>
  A source: its events and the handling of an acknowledgement emit segments; the acknowledged prefix
  changes to the acknowledgement or back to the start, and a flow without a time limit only finishes
  with an acknowledgement of all its bytes.
\<close>

locale transport_source =
  fixes ev :: "world \<Rightarrow> 'a data_source_scheme \<Rightarrow> (world \<times> 'a data_source_scheme \<times> action list) option"
    and rc :: "world \<Rightarrow> 'a data_source_scheme \<Rightarrow> packet \<Rightarrow> (world \<times> 'a data_source_scheme \<times> action list) option"
    and finished :: "'a data_source_scheme \<Rightarrow> bool"
  assumes ev_step: "ev w s = Some (w', s', as) \<Longrightarrow> seqs_ok 0 s \<Longrightarrow>
      emits 4 s s' as \<and> src_last_acked s' \<in> {src_last_acked s, 0} \<and> (finished s' \<longrightarrow> finished s)"
    and rc_step: "rc w s p = Some (w', s', as) \<Longrightarrow> seqs_ok 0 s \<Longrightarrow> p_class p = DataAck x a t \<Longrightarrow>
      1500 dvd unat a \<Longrightarrow> unat a < 2 ^ 62 \<Longrightarrow>
      emits 4 s s' as \<and> src_last_acked s' \<in> {src_last_acked s, a} \<and>
      (finished s' \<longrightarrow> finished s \<or> src_duration s \<noteq> 0 \<or> src_flowsize s \<le> a)"
    and flow_finished: "finished (s\<lparr>src_flow := f\<rparr>) = finished s"

text \<open>A sink: it accepts every data packet, reassembles it and answers with its acknowledgement.\<close>

locale transport_sink =
  fixes sk :: "world \<Rightarrow> packet_flow \<Rightarrow> 'b data_sink_scheme \<Rightarrow> packet \<Rightarrow>
      (world \<times> packet_flow \<times> 'b data_sink_scheme \<times> action list) option"
  assumes sk_total: "p_class p = DataPacket sq t \<Longrightarrow> sk w f d p \<noteq> None"
    and sk_process: "sk w f d p = Some (w', f', d', as) \<Longrightarrow> p_class p = DataPacket sq t \<Longrightarrow>
      ds_cumulative_ack d' = ds_cumulative_ack (processDataPacket d sq (p_size p)) \<and>
      ds_received d' = ds_received (processDataPacket d sq (p_size p))"
    and sk_answer: "sk w f d p = Some (w', f', d', as) \<Longrightarrow> p_class p = DataPacket sq t \<Longrightarrow>
      \<exists>a x. sends as = [a] \<and> p_class a = DataAck x (ds_cumulative_ack d') t \<and> p_size a = 40"

text \<open>The invariant of a run.\<close>

definition arrived_ack :: "nat set \<Rightarrow> packet \<Rightarrow> bool" where
  "arrived_ack R a \<longleftrightarrow> p_size a = 40 \<and> (\<exists>x c t. p_class a = DataAck x (cum_at 1500 c) t \<and> c \<le> mex R)"

definition net_inv ::
  "('a data_source_scheme \<Rightarrow> bool) \<Rightarrow> 'a data_source_scheme \<Rightarrow> 'a data_source_scheme \<Rightarrow>
     'b data_sink_scheme \<Rightarrow> packet multiset \<Rightarrow> packet multiset \<Rightarrow> nat set \<Rightarrow> bool" where
  "net_inv finished s0 s d F B R \<longleftrightarrow> (\<exists>n. seqs_ok n s) \<and> sink_rep 1500 R d \<and> (\<forall>k \<in> R. k < 2 ^ 53) \<and>
     (\<forall>p \<in># F. data_segment p) \<and> (\<forall>a \<in># B. arrived_ack R a) \<and>
     unat (src_last_acked s) \<le> 1500 * mex R \<and>
     (finished s \<and> src_duration s = 0 \<longrightarrow> unat (src_flowsize s) \<le> 1500 * mex R) \<and>
     src_flowsize s = src_flowsize s0 \<and> src_duration s = src_duration s0"

lemma arrived_mono: "arrived_ack R a \<Longrightarrow> mex R \<le> mex S \<Longrightarrow> arrived_ack S a"
  unfolding arrived_ack_def by (meson order.trans)

lemma seqs_ok_room:
  "seqs_ok n s \<Longrightarrow> net_room s d \<Longrightarrow> seqs_ok 0 s"
  by (simp add: seqs_ok_def net_room_def)

lemma finite_below: "\<forall>k \<in> R. k < (N :: nat) \<Longrightarrow> finite R"
  by (rule finite_subset [of R "{..<N}"]) auto

lemma unat_cum_mex:
  assumes "\<forall>k \<in> R. k < 2 ^ 53" "c \<le> mex R"
  shows "unat (cum_at 1500 c) = 1500 * c"
proof -
  have "mex R \<le> 2 ^ 53" using assms(1) by (rule mex_le)
  then have "c * 1500 \<le> 2 ^ 53 * 1500" using assms(2) by (intro mult_le_mono1) simp
  then show ?thesis by (subst unat_cum_at) simp_all
qed

locale transport = transport_source ev rc finished + transport_sink sk
  for ev :: "world \<Rightarrow> 'a data_source_scheme \<Rightarrow> (world \<times> 'a data_source_scheme \<times> action list) option"
    and rc finished
    and sk :: "world \<Rightarrow> packet_flow \<Rightarrow> 'b data_sink_scheme \<Rightarrow> packet \<Rightarrow>
      (world \<times> packet_flow \<times> 'b data_sink_scheme \<times> action list) option"
begin

lemma inv_event:
  assumes i: "net_inv finished s0 s d F B R" and r: "net_room s d" and e: "ev w s = Some (w', s', as)"
  shows "net_inv finished s0 s' d (F + mset (sends as)) B R"
proof -
  obtain n where "seqs_ok n s" using i by (auto simp: net_inv_def)
  then have st: "emits 4 s s' as" "src_last_acked s' \<in> {src_last_acked s, 0}" "finished s' \<longrightarrow> finished s"
    using ev_step [OF e] seqs_ok_room r by blast+
  then have m: "seqs_ok 4 s'" "\<forall>p \<in> set (sends as). data_segment p" "src_flowsize s' = src_flowsize s"
      "src_duration s' = src_duration s"
    by (simp_all add: emits_def)
  have "unat (src_last_acked s') \<le> 1500 * mex R"
    using i st(2) by (auto simp: net_inv_def)
  then show ?thesis using i m st(3) by (auto simp: net_inv_def)
qed

lemma inv_ack:
  assumes i: "net_inv finished s0 s d F B R" and r: "net_room s d" and b: "a \<in># B"
    and e: "rc w s a = Some (w', s', as)"
  shows "net_inv finished s0 s' d (F + mset (sends as)) (B - {#a#}) R"
proof -
  have R: "\<forall>k \<in> R. k < 2 ^ 53" "sink_rep 1500 R d" using i by (simp_all add: net_inv_def)
  obtain x c t where a: "p_class a = DataAck x (cum_at 1500 c) t" "c \<le> mex R"
  proof -
    have "arrived_ack R a" using i b by (simp add: net_inv_def)
    then show thesis using that by (auto simp: arrived_ack_def)
  qed
  have u: "unat (cum_at 1500 c) = 1500 * c" by (rule unat_cum_mex [OF R(1) a(2)])
  have "ds_cumulative_ack d = cum_at 1500 (mex R)"
    using sink_rep_cumulative [OF R(2)] by (simp add: cum_at_def mult.commute)
  then have "1500 * mex R < 2 ^ 62" using r unat_cum_mex [OF R(1), of "mex R"] by (simp add: net_room_def)
  then have small: "1500 dvd unat (cum_at 1500 c)" "unat (cum_at 1500 c) < 2 ^ 62" "unat (cum_at 1500 c) \<le> 1500 * mex R"
    using u a(2) by simp_all
  obtain n where "seqs_ok n s" using i by (auto simp: net_inv_def)
  then have st: "emits 4 s s' as" "src_last_acked s' \<in> {src_last_acked s, cum_at 1500 c}"
      "finished s' \<longrightarrow> finished s \<or> src_duration s \<noteq> 0 \<or> src_flowsize s \<le> cum_at 1500 c"
    using rc_step [OF e _ a(1)] seqs_ok_room r small by blast+
  then have m: "seqs_ok 4 s'" "\<forall>p \<in> set (sends as). data_segment p" "src_flowsize s' = src_flowsize s"
      "src_duration s' = src_duration s"
    by (simp_all add: emits_def)
  have l: "unat (src_last_acked s') \<le> 1500 * mex R"
    using i st(2) small(3) by (auto simp: net_inv_def)
  have f: "unat (src_flowsize s') \<le> 1500 * mex R" if "finished s'" "src_duration s' = 0"
    using i st(3) that m small(3) by (auto simp: net_inv_def word_le_nat_alt)
  show ?thesis using i m l f by (auto simp: net_inv_def dest: in_diffD)
qed

lemma inv_data:
  assumes i: "net_inv finished s0 s d F B R" and p: "p \<in># F"
    and e: "sk w (src_flow s) d p = Some (w', f, d', as)"
  shows "net_inv finished s0 (s\<lparr>src_flow := f\<rparr>) d' (F - {#p#}) (B + mset (sends as)) (insert (segment_no p) R)"
proof -
  have R: "\<forall>k \<in> R. k < 2 ^ 53" "sink_rep 1500 R d" using i by (simp_all add: net_inv_def)
  obtain k t where k: "k < 2 ^ 53" "p_class p = DataPacket (cum_at 1500 k + 1) t" "p_size p = MSS64"
  proof -
    have "data_segment p" using i p by (simp add: net_inv_def)
    then show thesis using that by (auto simp: data_segment_def)
  qed
  have n: "segment_no p = k" by (rule segment_no_seq [OF k(1,2)])
  let ?d = "processDataPacket d (cum_at 1500 k + 1) (p_size p)"
  have "(of_nat 1500 :: u64) = MSS64" by (simp add: MSS_BYTES_def)
  then have "sink_rep 1500 (insert k R) ?d"
    using processDataPacket_refines [OF R(2) _ seg_ok_1500 [OF k(1)]] R(1) seg_ok_1500 k(3) by (auto simp: seg_def)
  then have rep: "sink_rep 1500 (insert k R) d'"
    using sk_process [OF e k(2)] by (simp add: sink_rep_def)
  have fin: "finite R" using R(1) by (rule finite_below)
  have le: "mex R \<le> mex (insert k R)" by (rule mex_insert [OF fin])
  obtain a x where a: "sends as = [a]" "p_class a = DataAck x (ds_cumulative_ack d') t" "p_size a = 40"
    using sk_answer [OF e k(2)] by blast
  have "ds_cumulative_ack d' = cum_at 1500 (mex (insert k R))"
    using sink_rep_cumulative [OF rep] by (simp add: cum_at_def mult.commute)
  then have "arrived_ack (insert k R) a" using a by (auto simp: arrived_ack_def)
  moreover have "\<forall>b \<in># B. arrived_ack (insert k R) b" using i arrived_mono [OF _ le] by (auto simp: net_inv_def)
  ultimately have B: "\<forall>b \<in># B + mset (sends as). arrived_ack (insert k R) b" using a(1) by auto
  have "\<exists>n. seqs_ok n (s\<lparr>src_flow := f\<rparr>)" using i by (auto simp: net_inv_def seqs_ok_def)
  then show ?thesis
    using i rep B k(1) le flow_finished unfolding n by (auto simp: net_inv_def dest: in_diffD)
qed

lemma net_reach_inv:
  assumes "net_reach ev rc sk s0 d0 s d F B R" "src_highest_sent s0 = 0" "src_last_acked s0 = 0" "\<not> finished s0"
    and "ds_cumulative_ack d0 = 0" "ds_received d0 = []"
  shows "net_inv finished s0 s d F B R"
  using assms
proof (induction rule: net_reach.induct)
  case start
  have "sink_rep 1500 {} d0"
    unfolding sink_rep_def using start by (intro exI [of _ 0] exI [of _ "[]"]) (simp add: cum_at_def)
  moreover have "seqs_ok 0 s0" using start by (simp add: seqs_ok_def)
  ultimately show ?case using start by (auto simp: net_inv_def)
next
  case event
  then show ?case using inv_event by blast
next
  case ack
  then show ?case using inv_ack by blast
next
  case data
  then show ?case using inv_data by blast
next
  case lose_data
  then show ?case by (auto simp: net_inv_def dest: in_diffD)
next
  case lose_ack
  then show ?case by (auto simp: net_inv_def dest: in_diffD)
next
  case (hop_data s d F B R p q)
  then have "data_segment q" by (auto simp: net_inv_def data_segment_def)
  then show ?case using hop_data by (auto simp: net_inv_def dest: in_diffD)
next
  case (hop_ack s d F B R a b)
  then have "arrived_ack R b" by (auto simp: net_inv_def arrived_ack_def)
  then show ?case using hop_ack by (auto simp: net_inv_def dest: in_diffD)
qed

text \<open>Delivering one packet of the network, for building runs.\<close>

lemma deliver:
  assumes "net_reach ev rc sk s0 d0 s d F B R" "p \<in># F" "p_class p = DataPacket sq t"
  shows "\<exists>f d' a x. net_reach ev rc sk s0 d0 (s\<lparr>src_flow := f\<rparr>) d' (F - {#p#}) (B + {#a#}) (insert (segment_no p) R) \<and>
    ds_cumulative_ack d' = ds_cumulative_ack (processDataPacket d sq (p_size p)) \<and>
    ds_received d' = ds_received (processDataPacket d sq (p_size p)) \<and>
    p_class a = DataAck x (ds_cumulative_ack d') t"
proof -
  obtain w :: world where True by simp
  obtain w' f d' as where k: "sk w (src_flow s) d p = Some (w', f, d', as)"
    using sk_total [OF assms(3), of w "src_flow s" d] by (cases "sk w (src_flow s) d p") auto
  obtain a x where a: "sends as = [a]" "p_class a = DataAck x (ds_cumulative_ack d') t"
    using sk_answer [OF k assms(3)] by blast
  have "net_reach ev rc sk s0 d0 (s\<lparr>src_flow := f\<rparr>) d' (F - {#p#}) (B + {#a#}) (insert (segment_no p) R)"
    using net_reach.data [OF assms(1,2) k] a(1) by simp
  then show ?thesis using sk_process [OF k assms(3)] a(2) by blast
qed

lemma deliver_first:
  assumes r: "net_room s0 d0" and e: "ev w s0 = Some (w1, s1, as)" "sent_seqs as = [1]"
    and s: "seqs_ok 0 s0" and d: "ds_cumulative_ack d0 = 0" "ds_received d0 = []"
  shows "\<exists>f d a x t. net_reach ev rc sk s0 d0 (s1\<lparr>src_flow := f\<rparr>) d {#} {#a#} {0} \<and>
    p_class a = DataAck x 1500 t \<and> ds_cumulative_ack d = 1500"
proof -
  obtain p where p: "sends as = [p]" "seqno (p_class p) = 1"
    using e(2) unfolding sent_seqs_def by (auto simp: map_eq_Cons_conv)
  have "data_segment p" using ev_step [OF e(1) s] p(1) by (simp add: emits_def)
  then obtain t where c: "p_class p = DataPacket 1 t" "p_size p = 1500"
    using p(2) by (auto simp: data_segment_def MSS_BYTES_def)
  have r1: "net_reach ev rc sk s0 d0 s1 d0 {#p#} {#} {}" using net_reach_first [of s0 d0 ev, OF r e(1)] p(1) by simp
  have "segment_no p = 0" using c(1) by (simp add: segment_no_def)
  then show ?thesis
    using deliver [OF r1 _ c(1)] c(2) d by (fastforce simp: processDataPacket_def)
qed

text \<open>What is acknowledged has arrived, and a finished flow has arrived completely.\<close>

lemma reliable:
  assumes "net_reach ev rc sk s0 d0 s d F B R" "src_highest_sent s0 = 0" "src_last_acked s0 = 0" "\<not> finished s0"
    and "ds_cumulative_ack d0 = 0" "ds_received d0 = []"
  shows "(\<forall>k. k * 1500 < unat (src_last_acked s) \<longrightarrow> k \<in> R) \<and>
    src_last_acked s \<le> ds_cumulative_ack d \<and>
    (finished s \<and> src_duration s0 = 0 \<longrightarrow> (\<forall>k. k * 1500 < unat (src_flowsize s0) \<longrightarrow> k \<in> R))"
proof -
  have i: "net_inv finished s0 s d F B R" by (rule net_reach_inv [OF assms])
  then have R: "\<forall>k \<in> R. k < 2 ^ 53" "sink_rep 1500 R d" "unat (src_last_acked s) \<le> 1500 * mex R"
    by (simp_all add: net_inv_def)
  have c: "unat (ds_cumulative_ack d) = 1500 * mex R"
    using sink_rep_cumulative [OF R(2)] unat_cum_mex [OF R(1), of "mex R"] by (simp add: cum_at_def mult.commute)
  have k: "k \<in> R" if "k * 1500 < n" "n \<le> 1500 * mex R" for k n
    using that by (intro mex_less) simp
  show ?thesis
    using k R(3) c i by (auto simp: net_inv_def word_le_nat_alt)
qed

text \<open>Only data packets travel to the sink and only acknowledgements to the source.\<close>

lemma classes:
  assumes "net_reach ev rc sk s0 d0 s d F B R" "src_highest_sent s0 = 0" "src_last_acked s0 = 0" "\<not> finished s0"
    and "ds_cumulative_ack d0 = 0" "ds_received d0 = []"
  shows "well_classed sk d F B"
proof -
  have i: "net_inv finished s0 s d F B R" by (rule net_reach_inv [OF assms])
  have "p_size p = MSS64 \<and> (\<exists>sq t. p_class p = DataPacket sq t) \<and> (\<forall>w f. sk w f d p \<noteq> None)" if "p \<in># F" for p
  proof -
    obtain sq t where "p_class p = DataPacket sq t" "p_size p = MSS64"
      using i \<open>p \<in># F\<close> by (auto simp: net_inv_def data_segment_def)
    then show ?thesis using sk_total by auto
  qed
  then show ?thesis using i by (auto simp: net_inv_def arrived_ack_def well_classed_def)
qed

end

end
