(* ===== verification/TransportTcp.thy ===== *)
theory TransportTcp
  imports Transport TcpProps
begin

text \<open>
  \<open>TcpSrc\<close> and \<open>TcpSink\<close> as instances of the transport interfaces: the laws of the handlers without
  any assumption on windows and timers, and the reliability of TCP that follows.
\<close>

section \<open>What the operations send\<close>

lemma tcp_send_emits:
  assumes "tcp_sendPackets w s = Some (w', s', as)" "seqs_ok n s" "n \<le> 8"
  shows "emits (Suc n) s s' as \<and> src_last_acked s' = src_last_acked s \<and> t_state s' = t_state s"
proof -
  have b: "n * 2 ^ 33 \<le> 8 * 2 ^ 33" using assms(3) by (intro mult_le_mono1)
  have q: "1500 dvd unat (src_highest_sent s)" "unat (src_highest_sent s) < 2 ^ 62 + n * 2 ^ 33"
    "1500 dvd unat (src_last_acked s)" "unat (src_last_acked s) < 2 ^ 62 + n * 2 ^ 33"
    using assms(2) by (simp_all add: seqs_ok_def)
  have "seq_room s" using q b by (simp add: seq_room_def)
  then obtain k where k: "sends_segments w s k w' s' as"
    using tcp_sendPackets_spec [of s w] assms(1) by auto
  then have e: "s' = tcp_advance (w_now w) k s" "unat (src_highest_sent s') = unat (src_highest_sent s) + k * 1500"
    "\<forall>p \<in> set (sends as). own_segment w s p"
    "sent_seqs as = map (\<lambda>i. src_highest_sent s + of_nat i * MSS64 + 1) [0..<k]"
    unfolding sends_segments_def by blast+
  have le: "unat (src_highest_sent s) + k * 1500 < 2 ^ 62 + Suc n * 2 ^ 33"
  proof (cases "k = 0")
    case False
    then have "unat (src_highest_sent s) + k * 1500 \<le> unat (src_last_acked s) + unat (t_cwnd s)"
      using k by (simp add: sends_segments_def)
    then show ?thesis using q(4) unat_lt_2_32 [of "t_cwnd s"] by simp
  qed (use q(2) in simp)
  have "\<exists>y. x = y + 1 \<and> 1500 dvd unat y \<and> unat y < 2 ^ 63" if "x \<in> set (sent_seqs as)" for x
  proof -
    obtain i where i: "i < k" "x = src_highest_sent s + of_nat i * MSS64 + 1" using \<open>x \<in> _\<close> e(4) by auto
    have "i * 1500 \<le> k * 1500" using i(1) by simp
    then have l: "unat (src_highest_sent s) + i * 1500 < 2 ^ 63" using le b by simp
    have "src_highest_sent s + of_nat i * MSS64 = of_nat (unat (src_highest_sent s) + i * 1500)"
      by (simp add: MSS_BYTES_def)
    then have "unat (src_highest_sent s + of_nat i * MSS64) = unat (src_highest_sent s) + i * 1500"
      using l unat_of_nat_64 [of "unat (src_highest_sent s) + i * 1500"] by simp
    then show ?thesis using i(2) l q(1) by (intro exI [of _ "src_highest_sent s + of_nat i * MSS64"]) simp
  qed
  then have "\<forall>p \<in> set (sends as). data_segment p" using own_segments [OF e(3)] by blast
  then show ?thesis
    using e(1,2) q le by (simp add: emits_def seqs_ok_def) (simp add: tcp_advance_def)
qed

lemma tcp_rexmit_emits:
  assumes "tcp_retransmitPacket w s = (w', s', as)" "seqs_ok n s" "n \<le> 8"
  shows "emits n s s' as \<and> src_last_acked s' = src_last_acked s \<and> t_state s' = t_state s"
proof -
  note r = tcp_retransmitPacket_spec [OF assms(1)]
  have "1500 dvd unat (src_last_acked s)" "unat (src_last_acked s) < 2 ^ 63"
    using assms(2) seqs_ok_next(3) [OF _ _ assms(3)] by (auto simp: seqs_ok_def)
  then have "\<forall>p \<in> set (sends as). data_segment p" using own_segments [OF r(4)] r(3) by auto
  then show ?thesis
    using assms(2) by (simp add: emits_def r(1) seqs_ok_def) (simp add: tcp_rexmit_def)
qed

lemma tcp_inflate_fields:
  assumes "tcp_inflateWindow s = Some s'"
  shows "\<exists>c. s' = s\<lparr>t_cwnd := c\<rparr>"
proof -
  have "s' = s\<lparr>t_cwnd := t_cwnd s'\<rparr>"
    using assms by (auto simp: tcp_inflateWindow_def Let_def split: if_splits)
  then show ?thesis by blast
qed

section \<open>Events\<close>

lemma tcp_resched_sends [simp]: "sends (tcp_resched s) = []"
  by (simp add: tcp_resched_def)

lemma tcp_timeout_fields [simp]:
  "src_last_acked (tcp_timeout now s) = src_last_acked s"
  "src_highest_sent (tcp_timeout now s) = src_last_acked s + MSS64"
  "t_state (tcp_timeout now s) = SLOW_START" "src_flowsize (tcp_timeout now s) = src_flowsize s"
  "src_duration (tcp_timeout now s) = src_duration s"
  by (simp_all add: tcp_timeout_def Let_def)

lemma tcp_event_step:
  assumes "tcp_doNextEvent w s = Some (w', s', as)" "seqs_ok 0 s"
  shows "emits 4 s s' as \<and> src_last_acked s' = src_last_acked s \<and> (t_state s' = FINISH \<longrightarrow> t_state s = FINISH)"
proof -
  have idle: "emits 4 s s (tcp_resched s)" "emits 4 s s [DeleteFlow]"
    using seqs_ok_mono [OF assms(2), of 4] by (simp_all add: emits_def)
  obtain w2 s2 bs where x: "tcp_retransmitPacket w (tcp_timeout (w_now w) s) = (w2, s2, bs)"
    by (metis prod_cases3)
  consider "t_state s = IDLE" | "t_state s = FINISH" | "t_state s \<noteq> IDLE" "t_state s \<noteq> FINISH" by blast
  then show ?thesis
  proof cases
    case 1
    let ?s = "s\<lparr>t_state := SLOW_START, t_cwnd := word_of_int (2 * MSS_BYTES),
      t_dctcp_cwnd := ucast (word_of_int (2 * MSS_BYTES) :: u32)\<rparr>"
    obtain bs where b: "tcp_sendPackets w ?s = Some (w', s', bs)" "as = bs @ tcp_resched s'"
      using assms(1) 1 by (auto simp: tcp_doNextEvent_def Let_def bind_eq_Some_conv)
    have "seqs_ok 0 ?s" using assms(2) by (simp add: seqs_ok_def)
    note e = tcp_send_emits [OF b(1) this]
    then have "emits 4 ?s s' bs" using emits_mono [of 1 ?s s' bs 4] by simp
    then show ?thesis using b(2) e by (simp add: emits_def)
  next
    case 2
    then show ?thesis using assms(1) idle by (auto simp: tcp_doNextEvent_def split: if_splits)
  next
    case 3
    show ?thesis
    proof (cases "t_RTO_timeout s \<noteq> 0 \<and> w_now w \<ge> t_RTO_timeout s")
      case True
      then have "Some (w2, s2, tcp_log TCP_TIMEOUT s @ bs @ tcp_resched s2) = Some (w', s', as)"
        using assms(1) 3 x by (auto simp: tcp_doNextEvent_def)
      then have r: "s' = s2" "as = tcp_log TCP_TIMEOUT s @ bs @ tcp_resched s2" by blast+
      have "seqs_ok 1 (tcp_timeout (w_now w) s)"
        using assms(2) seqs_ok_next(1,2) [of "src_last_acked s" 0] by (simp add: seqs_ok_def)
      note e = tcp_rexmit_emits [OF x this]
      then have "emits 4 (tcp_timeout (w_now w) s) s2 bs"
        using emits_mono [of 1 "tcp_timeout (w_now w) s" s2 bs 4] by simp
      then show ?thesis using r e by (simp add: emits_def)
    next
      case False
      then have "s' = s \<and> as = tcp_resched s" using assms(1) 3 by (auto simp: tcp_doNextEvent_def)
      then show ?thesis using idle(1) by simp
    qed
  qed
qed

section \<open>Acknowledgements\<close>

lemma tcp_updates_same_flow:
  "same_flow s (tcp_updateRtt now ts0 s)" "same_flow s (tcp_updateDctcp m s)"
  "t_state (tcp_updateDctcp m s) = FINISH \<longleftrightarrow> t_state s = FINISH"
  by (simp_all add: same_flow_def tcp_updateRtt_def tcp_updateDctcp_def tcp_updateAlpha_def tcp_countMark_def Let_def)

lemma tcp_newAck_emits:
  assumes "tcp_newAck w ack s = Some (w', s', as)" "seqs_ok 0 (s\<lparr>src_last_acked := ack\<rparr>)"
  shows "emits 4 s s' as \<and> src_last_acked s' = ack \<and> (t_state s' = FINISH \<longrightarrow> t_state s = FINISH)"
proof -
  let ?s = "tcp_rearm (w_now w) ack s"
  have d: "src_duration ?s = src_duration s" by (simp add: tcp_rearm_def Let_def)
  have send: "emits 4 s s' bs \<and> src_last_acked s' = ack \<and> t_state s' = t_state u"
    if b: "tcp_sendPackets v u = Some (w', s', bs)" "seqs_ok 0 u" "src_last_acked u = ack"
      "src_flowsize u = src_flowsize s" "src_duration u = src_duration s" for v u bs
    using tcp_send_emits [OF b(1,2)] emits_mono [of 1 u s' bs 4] b(3-5) by (simp add: emits_def)
  show ?thesis
  proof (cases "t_state s = FAST_RECOV")
    case False
    obtain u bs where u: "tcp_inflateWindow (?s\<lparr>src_last_acked := ack, t_dupacks := 0\<rparr>) = Some u"
        "tcp_sendPackets w u = Some (w', s', bs)" "as = tcp_log TCP_RCV u @ bs"
      using assms(1) False by (auto simp: tcp_newAck_def Let_def bind_eq_Some_conv)
    obtain c where "u = ?s\<lparr>src_last_acked := ack, t_dupacks := 0, t_cwnd := c\<rparr>"
      using tcp_inflate_fields [OF u(1)] by auto
    then have "emits 4 s s' bs \<and> src_last_acked s' = ack \<and> t_state s' = t_state s"
      using send [OF u(2)] assms(2) d by (simp add: seqs_ok_def)
    then show ?thesis using u(3) by (simp add: emits_def)
  next
    case True
    show ?thesis
    proof (cases "ack \<ge> t_recover_seq s")
      case rec: True
      let ?u = "tcp_leaveRecovery ack ?s"
      obtain bs where u: "tcp_sendPackets w ?u = Some (w', s', bs)" "as = tcp_log TCP_RCV_FR_END ?u @ bs"
        using assms(1) True rec by (auto simp: tcp_newAck_def Let_def bind_eq_Some_conv)
      have "emits 4 s s' bs \<and> src_last_acked s' = ack \<and> t_state s' = CONG_AVOID"
        using send [OF u(1)] assms(2) d by (simp add: seqs_ok_def tcp_leaveRecovery_def Let_def)
      then show ?thesis using u(2) by (simp add: emits_def)
    next
      case False
      let ?u = "tcp_partialAck ack ?s"
      obtain w1 s1 bs where x: "tcp_retransmitPacket w ?u = (w1, s1, bs)" by (metis prod_cases3)
      obtain cs where u: "tcp_sendPackets w1 s1 = Some (w', s', cs)" "as = tcp_log TCP_RCV_FR ?u @ bs @ cs"
        using assms(1) True False x by (auto simp: tcp_newAck_def Let_def bind_eq_Some_conv)
      have p: "seqs_ok 0 ?u" "src_last_acked ?u = ack" "src_flowsize ?u = src_flowsize s"
        "src_duration ?u = src_duration s" "t_state ?u = t_state s"
        using assms(2) d by (simp_all add: seqs_ok_def tcp_partialAck_def Let_def)
      note m = tcp_rexmit_emits [OF x p(1)]
      have "emits 4 s s' cs \<and> src_last_acked s' = ack \<and> t_state s' = t_state s1"
        using send [OF u(1)] m p by (simp add: emits_def)
      then show ?thesis using u(2) m True p(5) by (auto simp: emits_def)
    qed
  qed
qed

lemma tcp_dupAck_emits:
  assumes "tcp_dupAck w s = Some (w', s', as)" "seqs_ok 0 s"
  shows "emits 4 s s' as \<and> src_last_acked s' = src_last_acked s \<and> (t_state s' = FINISH \<longrightarrow> t_state s = FINISH)"
proof -
  have send: "emits 4 s s' bs \<and> src_last_acked s' = src_last_acked s \<and> t_state s' = t_state u"
    if b: "tcp_sendPackets w u = Some (w', s', bs)" "same_flow s u" for u bs
  proof -
    have "seqs_ok 0 u" using assms(2) seqs_ok_same_flow [OF b(2)] by simp
    then have "emits 4 u s' bs \<and> src_last_acked s' = src_last_acked u \<and> t_state s' = t_state u"
      using tcp_send_emits [OF b(1)] emits_mono [of 1 u s' bs 4] by simp
    then show ?thesis using emits_same_flow [OF b(2)] b(2) by (simp add: same_flow_def)
  qed
  have same: "same_flow s (s\<lparr>t_cwnd := c\<rparr>)" "same_flow s (s\<lparr>t_dupacks := n\<rparr>)"
    "same_flow s (tcp_enterRecovery (s\<lparr>t_dupacks := n\<rparr>))" for c n
    by (simp_all add: same_flow_def tcp_enterRecovery_def Let_def)
  let ?d = "s\<lparr>t_dupacks := t_dupacks s + 1\<rparr>"
  consider "t_state s = FAST_RECOV" | "t_state s \<noteq> FAST_RECOV" "t_dupacks s + 1 \<noteq> 3"
    | "t_state s \<noteq> FAST_RECOV" "t_dupacks s + 1 = 3" "src_last_acked s < t_recover_seq s"
    | "t_state s \<noteq> FAST_RECOV" "t_dupacks s + 1 = 3" "\<not> src_last_acked s < t_recover_seq s" by blast
  then show ?thesis
  proof cases
    case 1
    let ?u = "s\<lparr>t_cwnd := t_cwnd s + MSS32\<rparr>"
    obtain bs where u: "tcp_sendPackets w ?u = Some (w', s', bs)" "as = tcp_log TCP_RCV_DUP_FR ?u @ bs"
      using assms(1) 1 by (auto simp: tcp_dupAck_def Let_def bind_eq_Some_conv)
    show ?thesis using send [OF u(1) same(1)] u(2) by (simp add: emits_def)
  next
    case 2
    obtain bs where u: "tcp_sendPackets w ?d = Some (w', s', bs)" "as = tcp_log TCP_RCV_DUP ?d @ bs"
      using assms(1) 2 by (auto simp: tcp_dupAck_def Let_def bind_eq_Some_conv)
    show ?thesis using send [OF u(1) same(2)] u(2) by (simp add: emits_def)
  next
    case 3
    then have "s' = ?d" "as = tcp_log TCP_RCV_3DUPNOFR ?d" using assms(1) by (auto simp: tcp_dupAck_def Let_def)
    then show ?thesis using seqs_ok_mono [OF assms(2), of 4] by (simp add: emits_def seqs_ok_def)
  next
    case 4
    let ?u = "tcp_enterRecovery ?d"
    obtain w1 s1 bs where x: "tcp_retransmitPacket w ?u = (w1, s1, bs)" by (metis prod_cases3)
    then have e: "w1 = w'" "s1 = s'" "as = bs @ tcp_log TCP_RCV_DUP_FASTXMIT s1"
      using assms(1) 4 by (auto simp: tcp_dupAck_def)
    have "seqs_ok 0 ?u" using assms(2) seqs_ok_same_flow [OF same(3)] by simp
    then have r: "emits 0 ?u s1 bs" "src_last_acked s1 = src_last_acked ?u" "t_state s1 = t_state ?u"
      using tcp_rexmit_emits [OF x] by simp_all
    have "emits 4 s s1 bs" by (rule emits_mono [OF emits_same_flow [OF same(3) r(1)]]) simp
    moreover have "src_last_acked ?u = src_last_acked s" "t_state ?u = FAST_RECOV"
      by (simp_all add: tcp_enterRecovery_def Let_def)
    ultimately show ?thesis
      using r(2,3) e(2,3) 4(1) by (simp add: emits_def)
  qed
qed

lemma tcp_receive_step:
  assumes "tcp_receivePacket w s p = Some (w', s', as)" "seqs_ok 0 s" "p_class p = DataAck x ack t"
    and "1500 dvd unat ack" "unat ack < 2 ^ 62"
  shows "emits 4 s s' as \<and> src_last_acked s' \<in> {src_last_acked s, ack} \<and>
    (t_state s' = FINISH \<longrightarrow> t_state s = FINISH \<or> src_duration s \<noteq> 0 \<or> src_flowsize s \<le> ack)"
proof -
  obtain w0 s0 where f: "source_free_ack p w s = (w0, s0)" by fastforce
  then have s0: "same_flow s s0" "t_state s0 = t_state s" by (auto simp: source_free_ack_eq same_flow_def)
  have keep: "emits 4 s s' [Traffic PKT_RCVDESTROY p] \<and> src_last_acked s' = src_last_acked s"
    if "same_flow s s'"
    using that seqs_ok_mono [OF assms(2), of 4] seqs_ok_same_flow [OF that] by (simp add: emits_def same_flow_def)
  have d: "tcp_receiveAck w s p ack t = Some (w', s', as)" using assms(1,3) by (simp add: tcp_receivePacket_def)
  consider (fin) "t_state s = FINISH" | (don) "t_state s \<noteq> FINISH" "tcp_flow_done (w_now w0) ack s0"
    | (old) "t_state s \<noteq> FINISH" "\<not> tcp_flow_done (w_now w0) ack s0" "ack < src_last_acked s0"
    | (act) "t_state s \<noteq> FINISH" "\<not> tcp_flow_done (w_now w0) ack s0" "\<not> ack < src_last_acked s0" by blast
  then show ?thesis
  proof cases
    case fin
    then have "s' = s0" "as = [Traffic PKT_RCVDESTROY p]" using d f s0(2) by (auto simp: tcp_receiveAck_def)
    then show ?thesis using keep s0 fin by auto
  next
    case don
    obtain bs where b: "tcp_finish (w_now w0) s0 = Some (s', bs)" "as = Traffic PKT_RCVDESTROY p # bs"
      using d f s0(2) don by (auto simp: tcp_receiveAck_def bind_eq_Some_conv)
    then have "s' = s0\<lparr>t_state := FINISH\<rparr>" "sends as = []" by (auto simp: tcp_finish_def Let_def split: if_splits)
    moreover have "src_duration s \<noteq> 0 \<or> src_flowsize s \<le> ack"
      using don(2) s0(1) by (auto simp: tcp_flow_done_def same_flow_def)
    ultimately show ?thesis using keep s0 by (auto simp: same_flow_def emits_def)
  next
    case old
    then have "s' = s0" "as = [Traffic PKT_RCVDESTROY p]" using d f s0(2) by (auto simp: tcp_receiveAck_def)
    then show ?thesis using keep s0 old(1) by auto
  next
    case act
    define s1 where "s1 = tcp_updateRtt (w_now w0) t s0"
    define s2 where "s2 = (if w_dctcp w0 then tcp_updateDctcp (getFlag ECN_REV p \<noteq> 0) s1 else s1)"
    have s2: "same_flow s s2" "t_state s2 \<noteq> FINISH"
      using s0 act(1) tcp_updates_same_flow
      by (auto simp: s1_def s2_def same_flow_def)
    have "do { (w, s, bs) \<leftarrow> (if ack > src_last_acked s2 then tcp_newAck w0 ack s2 else tcp_dupAck w0 s2);
        Some (w, s, Traffic PKT_RCVDESTROY p # bs) } = Some (w', s', as)"
      using d f s0(2) act unfolding tcp_receiveAck_def s2_def s1_def by (simp add: Let_def)
    then obtain bs where b: "(if ack > src_last_acked s2 then tcp_newAck w0 ack s2 else tcp_dupAck w0 s2) = Some (w', s', bs)"
        "as = Traffic PKT_RCVDESTROY p # bs"
      by (auto simp: bind_eq_Some_conv)
    have q: "seqs_ok 0 s2" "seqs_ok 0 (s2\<lparr>src_last_acked := ack\<rparr>)"
      using assms(2,4,5) s2(1) by (simp_all add: seqs_ok_def same_flow_def)
    have "emits 4 s2 s' bs \<and> src_last_acked s' \<in> {src_last_acked s, ack} \<and> t_state s' \<noteq> FINISH"
      using b(1) tcp_newAck_emits [OF _ q(2), of w0 w' s' bs] tcp_dupAck_emits [OF _ q(1), of w0 w' s' bs] s2
      by (auto simp: same_flow_def split: if_splits)
    then show ?thesis using emits_same_flow [OF s2(1), of 4 s' bs] b(2) by (simp add: emits_def)
  qed
qed

section \<open>The sink\<close>

lemma tcp_sink_step:
  assumes "p_class p = DataPacket sq t"
  shows "\<exists>w' f' as a. tcp_sink_receivePacket w f d p =
      Some (w', f', processDataPacket d sq (p_size p), as) \<and>
    sends as = [a] \<and> p_class a = DataAck 1 (ds_cumulative_ack (processDataPacket d sq (p_size p))) t \<and> p_size a = 40"
  using tcp_sink_acknowledges [OF assms, of w f d] by blast

section \<open>TCP over a network\<close>

interpretation tcp_net: transport tcp_doNextEvent tcp_receivePacket "\<lambda>s. t_state s = FINISH" tcp_sink_receivePacket
proof (unfold_locales, goal_cases)
  case (1 w s w' s' as)
  then show ?case using tcp_event_step by blast
next
  case (2 w s p w' s' as x a t)
  then show ?case using tcp_receive_step by blast
next
  case 3
  show ?case by simp
next
  case (4 p sq t w f d)
  then show ?case using tcp_sink_step [OF 4, of w f d] by auto
next
  case (5 w f d p w' f' d' as sq t)
  then show ?case using tcp_sink_step [OF 5(2), of w f d] by auto
next
  case (6 w f d p w' f' d' as sq t)
  then show ?case using tcp_sink_step [OF 6(2), of w f d] by auto
qed

text \<open>
  C3: TCP is reliable. In every state that a source and a sink reach over a network that loses, delays
  and reorders packets, all segments below the acknowledged byte have arrived, the source has not
  overtaken the sink's acknowledgement, and a flow without a time limit that is finished has arrived
  completely.
\<close>

theorem tcp_reliable:
  assumes "net_reach tcp_doNextEvent tcp_receivePacket tcp_sink_receivePacket s0 d0 s d F B R"
    and "src_highest_sent s0 = 0" "src_last_acked s0 = 0" "t_state s0 \<noteq> FINISH"
    and "ds_cumulative_ack d0 = 0" "ds_received d0 = []"
  shows "(\<forall>k. k * 1500 < unat (src_last_acked s) \<longrightarrow> k \<in> R) \<and> src_last_acked s \<le> ds_cumulative_ack d \<and>
    (t_state s = FINISH \<and> src_duration s0 = 0 \<longrightarrow> (\<forall>k. k * 1500 < unat (src_flowsize s0) \<longrightarrow> k \<in> R))"
  using tcp_net.reliable [OF assms] .

text \<open>A flow of 2000 bytes whose two segments arrive in the wrong order.\<close>

definition ex_short :: tcp_src where
  "ex_short = (mkTcpSrc (mkDataSource 7 False 0 0 0 0 0 0) False 2000 0)\<lparr>src_flowgen := True\<rparr>"

lemma ex_short_fields:
  "t_state ex_short = IDLE" "src_highest_sent ex_short = 0" "src_last_acked ex_short = 0"
  "src_flowsize ex_short = 2000" "src_duration ex_short = 0" "src_flowgen ex_short"
  "t_RTO_timeout ex_short = 0"
  by (simp_all add: ex_short_def mkTcpSrc_def mkDataSource_def data_source.defs)

lemma tcp_reliable_witness:
  "\<exists>s d F B R. net_reach tcp_doNextEvent tcp_receivePacket tcp_sink_receivePacket ex_short ex_sink s d F B R \<and>
     t_state s = FINISH \<and> 0 \<in> R \<and> 1 \<in> R"
proof -
  let ?reach = "net_reach tcp_doNextEvent tcp_receivePacket tcp_sink_receivePacket ex_short ex_sink"
  have z: "net_room ex_short ex_sink" by (simp add: net_room_def ex_short_fields ex_sink_def)
  obtain w1 s1 as where e: "tcp_doNextEvent ex_world ex_short = Some (w1, s1, as)" "sent_seqs as = [1, 1501]"
      "t_state s1 = SLOW_START" "src_highest_sent s1 = 3000" "src_flowgen s1"
    using tcp_flow_start [of ex_short ex_world] ex_short_fields by auto
  obtain p q where pq: "sends as = [p, q]" "seqno (p_class p) = 1" "seqno (p_class q) = 1501"
    using e(2) unfolding sent_seqs_def by (auto simp: map_eq_Cons_conv)
  have "seqs_ok 0 ex_short" by (simp add: seqs_ok_def ex_short_fields)
  then have em: "emits 4 ex_short s1 as" "src_last_acked s1 = 0"
    using tcp_event_step [OF e(1)] ex_short_fields by simp_all
  then have fs: "src_flowsize s1 = 2000" "data_segment p" "data_segment q"
    using pq(1) ex_short_fields by (simp_all add: emits_def)
  obtain t u where pc: "p_class p = DataPacket 1 t" "p_size p = 1500" and qc: "p_class q = DataPacket 1501 u" "p_size q = 1500"
    using fs(2,3) pq(2,3) by (auto simp: data_segment_def MSS_BYTES_def)
  have r1: "?reach s1 ex_sink {#p, q#} {#} {}"
    using net_reach_first [of _ _ tcp_doNextEvent, OF z e(1)] pq(1) by simp
  obtain f d2 a x where r2: "?reach (s1\<lparr>src_flow := f\<rparr>) d2 {#p#} {#a#} {segment_no q}"
      "ds_cumulative_ack d2 = 0" "ds_received d2 = [(1501, 1500)]"
    using tcp_net.deliver [OF r1 _ qc(1)] qc(2) by (auto simp: processDataPacket_def ex_sink_def)
  obtain g d3 b y where r3: "?reach (s1\<lparr>src_flow := g\<rparr>) d3 {#} {#b, a#} {segment_no p, segment_no q}"
      "ds_cumulative_ack d3 = 3000" "p_class b = DataAck y 3000 t"
    using tcp_net.deliver [OF r2(1) _ pc(1)] pc(2) r2(2,3)
    by (auto simp: processDataPacket_def)
  let ?s = "s1\<lparr>src_flow := g\<rparr>"
  obtain w2 s2 bs where fin: "tcp_receivePacket ex_world ?s b = Some (w2, s2, bs)" "t_state s2 = FINISH"
    using r3(3) e(3,5) fs(1)
    by (auto simp: tcp_receivePacket_def tcp_receiveAck_def source_free_ack_eq tcp_flow_done_def tcp_finish_def
        word_le_nat_alt word_less_nat_alt)
  have "net_room ?s d3" using e(4) em(2) r3(2) by (simp add: net_room_def)
  then obtain F B where run: "?reach s2 d3 F B {segment_no p, segment_no q}"
    using net_reach.ack [OF r3(1) _ _ fin(1)] by auto
  have "unat (src_flowsize ex_short) = 2000" by (simp add: ex_short_fields)
  then have "k \<in> {segment_no p, segment_no q}" if "k * 1500 < 2000" for k
    using tcp_reliable [OF run] fin(2) that by (simp add: ex_short_fields ex_sink_def)
  from this [of 0] this [of 1] have "0 \<in> {segment_no p, segment_no q}" "1 \<in> {segment_no p, segment_no q}"
    by simp_all
  then show ?thesis using run fin(2) by blast
qed

end
