(* ===== verification/TimelyRate.thy ===== *)
theory TimelyRate
  imports Timely
begin

text \<open>
  The arithmetic of the rate update of \<open>timely.cpp\<close>: exact rational bounds on the rounded
  \<open>double\<close> and \<open>long double\<close> computations of the three branches.
\<close>

section \<open>The thresholds\<close>

lemma unat_T_LOW: "unat T_LOW = 20000000"
  unfolding T_LOW_def using unat_timeFromUs_nat [of 20] by simp

lemma unat_T_HIGH: "unat T_HIGH = 100000000"
  unfolding T_HIGH_def using unat_timeFromUs_nat [of 100] by simp

text \<open>Above \<open>T_HIGH\<close> the quotient of integers \<open>T_HIGH / new_rtt\<close> is zero.\<close>

lemma T_HIGH_div: "T_HIGH < new_rtt \<Longrightarrow> T_HIGH div new_rtt = 0"
  by (simp add: word_arith_nat_div word_less_nat_alt)

section \<open>The clamp\<close>

text \<open>The test against half the rate reads the rate just stored, so it never holds.\<close>

lemma timely_clampRate_eq:
  assumes "0 \<le> x" "x \<le> 1000000000000000"
  shows "unat (timely_clampRate x) = nat (min 10000000000 (llround x))"
proof -
  note n = llround_near [OF assms(1)]
  have le: "llround x \<le> 1000000000000000"
    using assms by (intro llround_le_int) simp_all
  define r :: u64 where "r = (if x > 10000000000 then 10000000000 else word_of_int (llround x))"
  have ur: "unat r = nat (min 10000000000 (llround x))"
  proof (cases "x > 10000000000")
    case True
    have "10000000000 \<le> llround x" using True assms(1) by (intro llround_ge_int) simp_all
    then show ?thesis using True by (simp add: r_def)
  next
    case False
    then have "llround x \<le> 10000000000" using assms(1) by (intro llround_le_int) simp_all
    then show ?thesis using False n(3) by (simp add: r_def unat_word_of_int_64)
  qed
  have "int (unat r) \<le> llround x" using ur n(3) by simp
  then have "of_int (int (unat r)) \<le> x + 1 / 2" using n(1) by linarith
  then have h: "of_nat (unat r) \<le> x + 1 / 2" by simp
  have half: "(of_nat (unat (r div 2)) :: rat) \<le> x"
  proof (cases "unat r div 2 = 0")
    case True
    then show ?thesis using assms(1) by (simp add: unat_div)
  next
    case False
    have "(of_nat (2 * (unat r div 2)) :: rat) \<le> of_nat (unat r)" unfolding of_nat_le_iff by simp
    moreover have "(of_nat 1 :: rat) \<le> of_nat (unat r div 2)"
      using False unfolding of_nat_le_iff by simp
    ultimately show ?thesis using h by (simp add: unat_div)
  qed
  have "unat (r div 2) < 2 ^ 53" using ur le by (simp add: unat_div)
  then have "dbl (of_nat (unat (r div 2))) = of_nat (unat (r div 2))" by (rule dbl_of_nat)
  then have "timely_clampRate x = r"
    using half by (simp add: timely_clampRate_def Let_def flip: r_def)
  then show ?thesis using ur by simp
qed

section \<open>The decrease\<close>

lemma timely_beta_bounds:
  "14757395258967641292 / 18446744073709551616 \<le> TIMELY_BETA"
  "TIMELY_BETA \<le> 14757395258967641293 / 18446744073709551616"
  using ldbl_ge_dyadic [of 14757395258967641292 64 "8 / 10"] ldbl_le_dyadic [of "8 / 10" 14757395258967641293 64]
  by (simp_all add: TIMELY_BETA_def)

definition timely_cut :: rat where
  "timely_cut = ldbl (1 - ldbl TIMELY_BETA)"

lemma timely_cut_bounds:
  "3689348814741910323 / 18446744073709551616 \<le> timely_cut"
  "timely_cut \<le> 3689348814741910324 / 18446744073709551616"
proof -
  have "14757395258967641292 / 18446744073709551616 \<le> ldbl TIMELY_BETA"
    "ldbl TIMELY_BETA \<le> 14757395258967641293 / 18446744073709551616"
    using timely_beta_bounds ldbl_ge_dyadic [of 14757395258967641292 64 TIMELY_BETA]
      ldbl_le_dyadic [of TIMELY_BETA 14757395258967641293 64] by simp_all
  then have "3689348814741910323 / 18446744073709551616 \<le> 1 - ldbl TIMELY_BETA"
    "1 - ldbl TIMELY_BETA \<le> 3689348814741910324 / 18446744073709551616" by linarith+
  then show "3689348814741910323 / 18446744073709551616 \<le> timely_cut"
    "timely_cut \<le> 3689348814741910324 / 18446744073709551616"
    using ldbl_ge_dyadic [of 3689348814741910323 64 "1 - ldbl TIMELY_BETA"]
      ldbl_le_dyadic [of "1 - ldbl TIMELY_BETA" 3689348814741910324 64]
    by (simp_all add: timely_cut_def)
qed

lemma timely_decrease_eq:
  assumes "T_HIGH < new_rtt" "unat rate \<le> 10000000000"
  shows "timely_decrease rate new_rtt = dbl (ldbl (of_nat (unat rate) * timely_cut))"
  using assms ldbl_of_nat [of "unat rate"] ldbl_of_nat [of 1]
  by (simp add: timely_decrease_def T_HIGH_div timely_cut_def)

lemma timely_decrease_round:
  assumes "n \<le> 10000000000"
  shows "llround (dbl (ldbl (of_nat n * timely_cut))) = (int n + 2) div 5"
    and "0 \<le> dbl (ldbl (of_nat n * timely_cut))"
    and "dbl (ldbl (of_nat n * timely_cut)) \<le> 1000000000000000"
proof -
  let ?y = "of_nat n * timely_cut" and ?x = "dbl (ldbl (of_nat n * timely_cut))"
  define q where "q = (1048576 * int n) div 5"
  have q: "5 * q \<le> 1048576 * int n" "1048576 * int n \<le> 5 * q + 4" by (simp_all add: q_def)
  have qr: "5 * (of_int q :: rat) \<le> 1048576 * of_nat n" "1048576 * of_nat n \<le> 5 * (of_int q :: rat) + 4"
  proof -
    have "(of_int (5 * q) :: rat) \<le> of_int (1048576 * int n)"
      "(of_int (1048576 * int n) :: rat) \<le> of_int (5 * q + 4)"
      unfolding of_int_le_iff by (rule q)+
    then show "5 * (of_int q :: rat) \<le> 1048576 * of_nat n" "1048576 * of_nat n \<le> 5 * (of_int q :: rat) + 4"
      by simp_all
  qed
  have nb: "(of_nat n :: rat) \<le> 10000000000" using assms by (metis of_nat_le_iff of_nat_numeral)
  have c: "1 / 5 - 1 / 18446744073709551616 \<le> timely_cut" "timely_cut \<le> 1 / 5 + 1 / 18446744073709551616"
    using timely_cut_bounds by linarith+
  have "of_nat n * (1 / 5 - 1 / 18446744073709551616) \<le> ?y"
    "?y \<le> of_nat n * (1 / 5 + 1 / 18446744073709551616)"
    using c by (intro mult_left_mono; simp)+
  then have y: "of_int (q - 1) / 2 ^ 20 \<le> ?y" "?y \<le> of_int (q + 1) / 2 ^ 20"
    using qr nb by (simp_all add: algebra_simps)
  have ab: "\<bar>q - 1\<bar> < 2 ^ 53" "\<bar>q + 1\<bar> < 2 ^ 53" using q assms by simp_all
  then have "of_int (q - 1) / 2 ^ 20 \<le> ldbl ?y" "ldbl ?y \<le> of_int (q + 1) / 2 ^ 20"
    using y by (intro ldbl_ge_dyadic ldbl_le_dyadic; simp)+
  then have x: "of_int (q - 1) / 2 ^ 20 \<le> ?x" "?x \<le> of_int (q + 1) / 2 ^ 20"
    using ab by (intro dbl_ge_dyadic dbl_le_dyadic; simp)+
  have "0 \<le> timely_cut" using c by linarith
  then show nn: "0 \<le> ?x" by (intro dbl_nonneg ldbl_nonneg) simp
  have "of_int (q + 1) / 2 ^ 20 \<le> (1000000000000000 :: rat)" using qr nb by simp
  then show "?x \<le> 1000000000000000" using x(2) by (rule order.trans [rotated])
  note l = llround_near [OF nn]
  have "(of_int (llround ?x) :: rat) * 5 < of_nat n + 3" "of_nat n - 3 < (of_int (llround ?x) :: rat) * 5"
    using l x qr by simp_all
  then have "(of_int (llround ?x * 5) :: rat) < of_int (int n + 3)" "(of_int (int n - 3) :: rat) < of_int (llround ?x * 5)"
    by simp_all
  then have "llround ?x * 5 < int n + 3" "int n - 3 < llround ?x * 5"
    unfolding of_int_less_iff by simp_all
  then show "llround ?x = (int n + 2) div 5" by presburger
qed

section \<open>The patched update between the thresholds\<close>

lemma timely_weight_range: "0 \<le> timely_weight g \<and> timely_weight g \<le> 1"
  by (simp add: timely_weight_def Let_def)

lemma timely_gain_range:
  assumes "0 \<le> w" "w \<le> 1" "0 \<le> e" "e \<le> 4"
  shows "0 \<le> ldbl (ldbl (ldbl (8 / 1000) * w) * e)" "ldbl (ldbl (ldbl (8 / 1000) * w) * e) \<le> 33 / 1024"
proof -
  have a: "0 \<le> ldbl (8 / 1000)" "ldbl (8 / 1000) \<le> 33 / 4096"
    using ldbl_le_dyadic [of "8 / 1000" 33 12] by (simp_all add: ldbl_nonneg)
  have "ldbl (8 / 1000) * w \<le> 33 / 4096 * 1" using a assms by (intro mult_mono) simp_all
  then have b: "0 \<le> ldbl (ldbl (8 / 1000) * w)" "ldbl (ldbl (8 / 1000) * w) \<le> 33 / 4096"
    using a(1) assms(1) ldbl_le_dyadic [of "ldbl (8 / 1000) * w" 33 12] by (simp_all add: ldbl_nonneg)
  have "ldbl (ldbl (8 / 1000) * w) * e \<le> 33 / 4096 * 4" using b assms by (intro mult_mono) simp_all
  then show "0 \<le> ldbl (ldbl (ldbl (8 / 1000) * w) * e)" "ldbl (ldbl (ldbl (8 / 1000) * w) * e) \<le> 33 / 1024"
    using b(1) assms(3) ldbl_le_dyadic [of "ldbl (ldbl (8 / 1000) * w) * e" 33 10]
    by (simp_all add: ldbl_nonneg)
qed

lemma timely_error_range:
  assumes "T_LOW \<le> new_rtt" "new_rtt \<le> T_HIGH"
  shows "0 \<le> dbl (ldbl (ldbl (of_nat (unat (new_rtt - T_LOW))) / ldbl (of_nat (unat T_LOW))))"
    "dbl (ldbl (ldbl (of_nat (unat (new_rtt - T_LOW))) / ldbl (of_nat (unat T_LOW)))) \<le> 4"
proof -
  define n where "n = unat (new_rtt - T_LOW)"
  have n: "n \<le> 80000000"
    using assms unat_T_LOW unat_T_HIGH unat_sub_nowrap [of T_LOW new_rtt]
    by (simp add: n_def word_le_nat_alt)
  have l: "ldbl (of_nat n) = of_nat n" "ldbl (of_nat (unat T_LOW)) = 20000000"
    using n ldbl_of_nat [of n] ldbl_of_nat [of 20000000] by (simp_all add: unat_T_LOW)
  have "(of_nat n :: rat) \<le> of_nat 80000000" unfolding of_nat_le_iff by (rule n)
  then have "of_nat n / 20000000 \<le> (of_int 4 :: rat)" by simp
  then have "ldbl (of_nat n / 20000000) \<le> of_int 4" by (rule ldbl_le_int) simp
  then have "dbl (ldbl (of_nat n / 20000000)) \<le> of_int 4" by (rule dbl_le_int) simp
  then show "0 \<le> dbl (ldbl (ldbl (of_nat (unat (new_rtt - T_LOW))) / ldbl (of_nat (unat T_LOW))))"
    "dbl (ldbl (ldbl (of_nat (unat (new_rtt - T_LOW))) / ldbl (of_nat (unat T_LOW)))) \<le> 4"
    unfolding n_def [symmetric] l by (simp_all add: dbl_nonneg ldbl_nonneg)
qed

lemma timely_patched_range:
  assumes "T_LOW \<le> new_rtt" "new_rtt \<le> T_HIGH" "unat rate \<le> 10000000000"
  shows "timely_patched rate g new_rtt \<le> of_int (int (unat rate) + 10000000)"
    "of_int (991 * int (unat rate)) / 2 ^ 10 \<le> timely_patched rate g new_rtt"
proof -
  define n where "n = unat rate"
  define w where "w = timely_weight g"
  define e where "e = dbl (ldbl (ldbl (of_nat (unat (new_rtt - T_LOW))) / ldbl (of_nat (unat T_LOW))))"
  define k where "k = ldbl (1 - ldbl (ldbl (ldbl (8 / 1000) * w) * e))"
  have n: "n \<le> 10000000000" using assms(3) by (simp add: n_def)
  have w: "0 \<le> w" "w \<le> 1" using timely_weight_range [of g] by (simp_all add: w_def)
  have e: "0 \<le> e" "e \<le> 4" using timely_error_range [OF assms(1,2)] by (simp_all add: e_def)
  note gain = timely_gain_range [OF w e]
  have k: "k \<le> 1" "991 / 1024 \<le> k"
    using gain ldbl_le_int [of "1 - ldbl (ldbl (ldbl (8 / 1000) * w) * e)" 1]
      ldbl_ge_dyadic [of 991 10 "1 - ldbl (ldbl (ldbl (8 / 1000) * w) * e)"] by (simp_all add: k_def)
  have a: "0 \<le> dbl (1 - w)" "dbl (1 - w) \<le> 1"
    using w dbl_le_int [of "1 - w" 1] by (simp_all add: dbl_nonneg)
  have b: "0 \<le> dbl (dbl (1 - w) * 10000000)" "dbl (dbl (1 - w) * 10000000) \<le> 10000000"
    using a dbl_le_int [of "dbl (1 - w) * 10000000" 10000000] by (simp_all add: dbl_nonneg)
  have "(of_nat n :: rat) * k \<le> of_nat n * 1" "of_nat n * (991 / 1024) \<le> of_nat n * k"
    using k by (intro mult_left_mono; simp)+
  then have "of_nat n * k \<le> of_int (int n)" "of_int (991 * int n) / 2 ^ 10 \<le> of_nat n * k" by simp_all
  then have c: "ldbl (of_nat n * k) \<le> of_int (int n)" "of_int (991 * int n) / 2 ^ 10 \<le> ldbl (of_nat n * k)"
    using n by (intro ldbl_le_int ldbl_ge_dyadic; simp)+
  have l: "ldbl (of_nat n) = of_nat n" using n by (intro ldbl_of_nat) simp
  have p: "timely_patched rate g new_rtt = dbl (ldbl (dbl (dbl (1 - w) * 10000000) + ldbl (of_nat n * k)))"
    unfolding timely_patched_def Let_def w_def [symmetric] e_def [symmetric] k_def [symmetric] n_def [symmetric] l
    by (simp add: TIMELY_DELTA_def)
  have s: "dbl (dbl (1 - w) * 10000000) + ldbl (of_nat n * k) \<le> of_int (int n + 10000000)"
    "of_int (991 * int n) / 2 ^ 10 \<le> dbl (dbl (1 - w) * 10000000) + ldbl (of_nat n * k)"
    using b c by simp_all
  have "ldbl (dbl (dbl (1 - w) * 10000000) + ldbl (of_nat n * k)) \<le> of_int (int n + 10000000)"
    using s(1) n by (intro ldbl_le_int) simp_all
  then have "timely_patched rate g new_rtt \<le> of_int (int n + 10000000)"
    unfolding p using n by (intro dbl_le_int) simp_all
  then show "timely_patched rate g new_rtt \<le> of_int (int (unat rate) + 10000000)" by (simp add: n_def)
  have "of_int (991 * int n) / 2 ^ 10 \<le> ldbl (dbl (dbl (1 - w) * 10000000) + ldbl (of_nat n * k))"
    using s(2) n by (intro ldbl_ge_dyadic) simp_all
  then have "of_int (991 * int n) / 2 ^ 10 \<le> timely_patched rate g new_rtt"
    unfolding p using n by (intro dbl_ge_dyadic) simp_all
  then show "of_int (991 * int (unat rate)) / 2 ^ 10 \<le> timely_patched rate g new_rtt" by (simp add: n_def)
qed

section \<open>The rate update\<close>

lemma timely_rate_low:
  assumes "new_rtt < T_LOW" "unat rate \<le> 10000000000"
  shows "unat (timely_clampRate (timely_newRate rate g new_rtt)) = min 10000000000 (unat rate + 10000000)"
proof -
  have d: "unat (rate + word_of_int TIMELY_DELTA) = unat rate + 10000000"
    using assms(2) unat_add_64 [of rate 10000000] by (simp add: TIMELY_DELTA_def)
  have r: "timely_newRate rate g new_rtt = of_nat (unat rate + 10000000)"
    unfolding timely_newRate_def d using assms by (simp add: dbl_of_nat del: of_nat_add)
  define m where "m = unat rate + 10000000"
  have "(of_nat m :: rat) \<le> of_nat 1000000000000000"
    unfolding of_nat_le_iff m_def using assms(2) by simp
  then have "unat (timely_clampRate (of_nat m)) = nat (min 10000000000 (int m))"
    using timely_clampRate_eq [of "of_nat m"] llround_of_int [of "int m"] by simp
  then show ?thesis unfolding r m_def [symmetric] by linarith
qed

lemma timely_rate_high:
  assumes "T_HIGH < new_rtt" "unat rate \<le> 10000000000"
  shows "unat (timely_clampRate (timely_newRate rate g new_rtt)) = (unat rate + 2) div 5"
proof -
  note d = timely_decrease_round [OF assms(2)]
  have "timely_newRate rate g new_rtt = dbl (ldbl (of_nat (unat rate) * timely_cut))"
    using assms(1) timely_decrease_eq [OF assms] unat_T_LOW unat_T_HIGH
    by (simp add: timely_newRate_def word_less_nat_alt)
  then have "unat (timely_clampRate (timely_newRate rate g new_rtt)) =
      nat (min 10000000000 ((int (unat rate) + 2) div 5))"
    using timely_clampRate_eq [OF d(2,3)] d(1) by simp
  also have "\<dots> = (unat rate + 2) div 5" using assms(2) by linarith
  finally show ?thesis .
qed

lemma timely_rate_between:
  assumes "T_LOW \<le> new_rtt" "new_rtt \<le> T_HIGH" "unat rate \<le> 10000000000"
  shows "unat (timely_clampRate (timely_newRate rate g new_rtt)) \<le> min 10000000000 (unat rate + 10000000)"
    "991 * unat rate \<le> 1024 * unat (timely_clampRate (timely_newRate rate g new_rtt)) + 512"
proof -
  define x where "x = timely_patched rate g new_rtt"
  note p = timely_patched_range [OF assms, of g, folded x_def]
  have r: "timely_newRate rate g new_rtt = x"
    unfolding timely_newRate_def x_def using assms(1,2) by (simp only: not_less [symmetric] if_False)
  have "(0 :: rat) \<le> of_int (991 * int (unat rate))" unfolding of_int_0_le_iff by simp
  then have "(0 :: rat) \<le> of_int (991 * int (unat rate)) / 2 ^ 10" by (rule divide_nonneg_pos) simp
  then have nn: "0 \<le> x" using p(2) by (rule order.trans)
  have "(of_int (int (unat rate) + 10000000) :: rat) \<le> of_int 1000000000000000"
    unfolding of_int_le_iff using assms(3) by linarith
  then have le: "x \<le> 1000000000000000" using p(1) by simp
  note c = timely_clampRate_eq [OF nn le]
  have up: "llround x \<le> int (unat rate) + 10000000" by (rule llround_le_int [OF nn p(1)])
  show "unat (timely_clampRate (timely_newRate rate g new_rtt)) \<le> min 10000000000 (unat rate + 10000000)"
    unfolding r c using up by linarith
  have "(of_int (991 * int (unat rate)) :: rat) < of_int (1024 * llround x + 512)"
    using p(2) llround_near(2) [OF nn] by simp
  then have "991 * int (unat rate) < 1024 * llround x + 512" unfolding of_int_less_iff .
  then show "991 * unat rate \<le> 1024 * unat (timely_clampRate (timely_newRate rate g new_rtt)) + 512"
    unfolding r c using assms(3) by linarith
qed

end
