(* ===== verification/TimelySteps.thy ===== *)
theory TimelySteps
  imports TimelyRate
begin

text \<open>
  What the operations of \<open>TimelySrc\<close> send, schedule and change: one lemma per operation, and the
  interval between two events of the source.
\<close>

section \<open>Sending\<close>

lemma timely_arm_fields [simp]:
  "src_last_acked (timely_arm w s) = src_last_acked s" "src_highest_sent (timely_arm w s) = src_highest_sent s"
  "tm_state (timely_arm w s) = tm_state s" "tm_rate (timely_arm w s) = tm_rate s"
  "tm_min_rtt (timely_arm w s) = tm_min_rtt s" "tm_rto (timely_arm w s) = tm_rto s"
  "tm_bdp_estimate (timely_arm w s) = tm_bdp_estimate s" "tm_dupacks (timely_arm w s) = tm_dupacks s"
  "src_flow (timely_arm w s) = src_flow s" "src_flowsize (timely_arm w s) = src_flowsize s"
  "tm_recover_seq (timely_arm w s) = tm_recover_seq s" "src_duration (timely_arm w s) = src_duration s"
  by (simp_all add: timely_arm_def)

lemma timely_retransmit_spec:
  assumes "timely_retransmitPacket w s = (w', s', as)"
  shows "w_now w' = w_now w" "sent_seqs as = [src_last_acked s + 1]" "scheds as = []"
    "\<forall>p \<in> set (sends as). own_segment w s p"
    "src_last_acked s' = src_last_acked s" "tm_state s' = tm_state s" "tm_rate s' = tm_rate s"
    "tm_min_rtt s' = tm_min_rtt s" "tm_rto s' = tm_rto s" "tm_bdp_estimate s' = tm_bdp_estimate s"
    "tm_dupacks s' = tm_dupacks s" "src_flowsize s' = src_flowsize s"
    "src_highest_sent s' = (if src_last_acked s = src_highest_sent s
      then src_highest_sent s + MSS64 else src_highest_sent s)"
    "tm_recover_seq s' = tm_recover_seq s" "src_duration s' = src_duration s"
proof -
  obtain p w1 s1 where n: "source_newpkt (src_last_acked s + 1) MSS_BYTES w s = (p, w1, s1)"
    by (cases "source_newpkt (src_last_acked s + 1) MSS_BYTES w s") auto
  note f = fresh_segment [OF n]
  show "w_now w' = w_now w" "sent_seqs as = [src_last_acked s + 1]" "scheds as = []"
    "\<forall>p \<in> set (sends as). own_segment w s p"
    "src_last_acked s' = src_last_acked s" "tm_state s' = tm_state s" "tm_rate s' = tm_rate s"
    "tm_min_rtt s' = tm_min_rtt s" "tm_rto s' = tm_rto s" "tm_bdp_estimate s' = tm_bdp_estimate s"
    "tm_dupacks s' = tm_dupacks s" "src_flowsize s' = src_flowsize s"
    "src_highest_sent s' = (if src_last_acked s = src_highest_sent s
      then src_highest_sent s + MSS64 else src_highest_sent s)"
    "tm_recover_seq s' = tm_recover_seq s" "src_duration s' = src_duration s"
    using assms n f by (auto simp: timely_retransmitPacket_def Let_def sent_seqs_def)
qed

lemma timely_sendPackets_spec:
  assumes "timely_sendPackets w s = (w', s', as)"
  shows "w_now w' = w_now w" "scheds as = []" "tm_rate s' = tm_rate s" "tm_state s' = tm_state s"
    "src_last_acked s' = src_last_acked s"
    "sent_seqs as = (if timely_flow_sent s \<or> timely_limited s then [] else [src_highest_sent s + 1])"
    "\<forall>p \<in> set (sends as). own_segment w s p"
    "src_highest_sent s' = src_highest_sent s + of_nat (length (sends as)) * MSS64"
    "src_flowsize s' = src_flowsize s" "src_duration s' = src_duration s"
proof -
  obtain p w1 s1 where n: "source_newpkt (src_highest_sent s + 1) MSS_BYTES w s = (p, w1, s1)"
    by (cases "source_newpkt (src_highest_sent s + 1) MSS_BYTES w s") auto
  note f = fresh_segment [OF n]
  show "w_now w' = w_now w" "scheds as = []" "tm_rate s' = tm_rate s" "tm_state s' = tm_state s"
    "src_last_acked s' = src_last_acked s"
    "sent_seqs as = (if timely_flow_sent s \<or> timely_limited s then [] else [src_highest_sent s + 1])"
    "\<forall>p \<in> set (sends as). own_segment w s p"
    "src_highest_sent s' = src_highest_sent s + of_nat (length (sends as)) * MSS64"
    "src_flowsize s' = src_flowsize s" "src_duration s' = src_duration s"
    using assms n f by (auto simp: timely_sendPackets_def Let_def sent_seqs_def split: if_splits)
qed

section \<open>Before the sending\<close>

lemma timely_timeout_fields [simp]:
  "src_last_acked (timely_timeout now s) = src_last_acked s"
  "src_highest_sent (timely_timeout now s) = src_last_acked s + MSS64"
  "tm_state (timely_timeout now s) = NORMAL" "tm_rate (timely_timeout now s) = tm_rate s"
  by (simp_all add: timely_timeout_def Let_def)

lemma timely_before_spec:
  assumes "timely_before w s = (w', s', as)"
  shows "tm_rate s' = tm_rate s" "scheds as = []"
    "tm_state s = IDLE \<Longrightarrow> s' = timely_start (w_now w) s \<and> as = []"
    "tm_state s = FINISH \<Longrightarrow> s' = s \<and> as = []"
    "tm_state s \<noteq> IDLE \<Longrightarrow> tm_state s \<noteq> FINISH \<Longrightarrow>
      tm_rto_timeout s = 0 \<or> w_now w < tm_rto_timeout s \<Longrightarrow> s' = s \<and> as = []"
    "tm_state s \<noteq> IDLE \<Longrightarrow> tm_state s \<noteq> FINISH \<Longrightarrow>
      \<not> (tm_rto_timeout s = 0 \<or> w_now w < tm_rto_timeout s) \<Longrightarrow>
      tm_state s' = NORMAL \<and> sent_seqs as = [src_last_acked s + 1] \<and>
      src_highest_sent s' = src_last_acked s + MSS64"
proof -
  note d = assms [unfolded timely_before_def]
  show "tm_state s = IDLE \<Longrightarrow> s' = timely_start (w_now w) s \<and> as = []"
    "tm_state s = FINISH \<Longrightarrow> s' = s \<and> as = []"
    using d by auto
  show "tm_state s \<noteq> IDLE \<Longrightarrow> tm_state s \<noteq> FINISH \<Longrightarrow>
      tm_rto_timeout s = 0 \<or> w_now w < tm_rto_timeout s \<Longrightarrow> s' = s \<and> as = []"
    using d by (auto split: if_splits)
  have t: "timely_retransmitPacket w (timely_timeout (w_now w) s) = (w', s', as)"
    if "tm_state s \<noteq> IDLE" "tm_state s \<noteq> FINISH" "\<not> (tm_rto_timeout s = 0 \<or> w_now w < tm_rto_timeout s)"
    using d that by (simp add: not_less)
  have m: "x \<noteq> x + MSS64" for x :: u64 by (simp add: MSS_BYTES_def)
  show "tm_state s \<noteq> IDLE \<Longrightarrow> tm_state s \<noteq> FINISH \<Longrightarrow>
      \<not> (tm_rto_timeout s = 0 \<or> w_now w < tm_rto_timeout s) \<Longrightarrow>
      tm_state s' = NORMAL \<and> sent_seqs as = [src_last_acked s + 1] \<and>
      src_highest_sent s' = src_last_acked s + MSS64"
    using timely_retransmit_spec [OF t] m [of "src_last_acked s"] by simp
  have "tm_rate s' = tm_rate s \<and> scheds as = []"
  proof (cases "tm_state s = IDLE \<or> tm_state s = FINISH \<or> tm_rto_timeout s = 0 \<or> w_now w < tm_rto_timeout s")
    case True
    then show ?thesis using d by (auto simp: timely_start_def split: if_splits)
  next
    case False
    then show ?thesis using timely_retransmit_spec [OF t] by simp
  qed
  then show "tm_rate s' = tm_rate s" "scheds as = []" by simp_all
qed

section \<open>The interval between events\<close>

lemma timely_interval:
  assumes "rate \<noteq> 0" "unat rate \<le> 10000000000"
  shows "\<exists>t. timely_nextTransmission rate = Some t \<and> 1200000 \<le> unat t"
proof -
  define n where "n = unat rate"
  have n: "1 \<le> n" "n \<le> 10000000000" using assms by (simp_all add: n_def unat_gt_0 Suc_leI)
  have nr: "(of_nat 1 :: rat) \<le> of_nat n" "(of_nat n :: rat) \<le> of_nat 10000000000"
    unfolding of_nat_le_iff by (rule n)+
  have d: "dbl (of_nat n) = of_nat n" "dbl 12000 = 12000"
    using n dbl_of_nat [of n] dbl_of_nat [of 12000] by simp_all
  define q where "q = dbl (12000 / of_nat n)"
  have lo: "of_int 1383505805528 / 2 ^ 60 \<le> (12000 :: rat) / of_nat n"
    using nr by (simp add: field_simps)
  have hi: "12000 / of_nat n \<le> (of_int 12000 :: rat)" using nr by (simp add: field_simps)
  have q: "of_int 1383505805528 / 2 ^ 60 \<le> q" "q \<le> 12000"
    using dbl_ge_dyadic [OF lo] dbl_le_int [OF hi] by (simp_all add: q_def)
  have "of_int 4799999 / 2 ^ 2 \<le> q * 1000000000000" using q(1) by simp
  then have s: "of_int 4799999 / 2 ^ 2 \<le> dbl (q * 1000000000000)" by (rule dbl_ge_dyadic) simp_all
  have "q * 1000000000000 \<le> 12000000000000000" using q(2) by simp
  then have u: "dbl (q * 1000000000000) \<le> 12000000000000000" by (rule dbl_le_12e15)
  have nn: "0 \<le> dbl (q * 1000000000000)" using s by simp
  have "(of_int 1199999 :: rat) < of_int (llround (dbl (q * 1000000000000)))"
    using llround_near(2) [OF nn] s by simp
  then have ge: "1200000 \<le> llround (dbl (q * 1000000000000))" unfolding of_int_less_iff by simp
  have le: "llround (dbl (q * 1000000000000)) \<le> 12000000000000000"
    using u nn by (intro llround_le_int) simp_all
  have "timely_nextTransmission rate = Some (timeFromSec q)"
    using assms(1) d by (simp add: timely_nextTransmission_def q_def MSS_BYTES_def n_def)
  moreover have "unat (timeFromSec q) = nat (llround (dbl (q * 1000000000000)))"
    unfolding timeFromSec_def using ge le by (intro unat_word_of_int_64) simp_all
  ultimately show ?thesis using ge by simp
qed

section \<open>Acknowledgements\<close>

lemma timely_updateRtt_fields [simp]:
  "src_last_acked (timely_updateRtt r s) = src_last_acked s"
  "src_highest_sent (timely_updateRtt r s) = src_highest_sent s"
  "tm_state (timely_updateRtt r s) = tm_state s" "tm_rate (timely_updateRtt r s) = tm_rate s"
  "tm_bdp_estimate (timely_updateRtt r s) = tm_bdp_estimate s"
  "tm_dupacks (timely_updateRtt r s) = tm_dupacks s" "src_flowsize (timely_updateRtt r s) = src_flowsize s"
  "tm_recover_seq (timely_updateRtt r s) = tm_recover_seq s"
  "tm_last_rtt_bytes (timely_updateRtt r s) = tm_last_rtt_bytes s"
  "tm_last_rtt_update (timely_updateRtt r s) = tm_last_rtt_update s"
  "tm_min_rtt (timely_updateRtt r s) = (if r < tm_min_rtt s then r else tm_min_rtt s)"
  by (auto simp: timely_updateRtt_def Let_def)

lemma timely_updateRtt_rto:
  "r \<noteq> 0 \<Longrightarrow> timeFromUs (of_int MIN_RTO_US) \<le> tm_rto (timely_updateRtt r s)"
  by (auto simp: timely_updateRtt_def Let_def)

lemma timely_updateGradient_some:
  assumes "tm_min_rtt s \<noteq> 0"
  shows "\<exists>d g. timely_updateGradient r s = Some (s\<lparr>tm_rtt_diff := d, tm_prev_rtt := r, tm_rtt_gradient := g\<rparr>)"
  unfolding timely_updateGradient_def Let_def using assms by (auto intro!: exI)

lemma timely_updateRate_some:
  assumes "tm_last_rtt_update s \<noteq> now" "unat (src_last_acked s - tm_last_rtt_bytes s) < 16777216"
  shows "\<exists>b m. timely_updateRate now r s = Some (s\<lparr>
    tm_rate := timely_clampRate (timely_newRate (tm_rate s) (tm_rtt_gradient s) r),
    tm_bdp_estimate := b, tm_measured_rate := m, tm_last_rtt_update := now,
    tm_last_rtt_bytes := src_last_acked s\<rparr>)"
proof -
  have "now - tm_last_rtt_update s \<noteq> 0" using assms(1) by simp
  note m = measured_rate_bound [OF this assms(2)]
  show ?thesis using m by (auto simp: timely_updateRate_def Let_def not_le)
qed

lemma timely_updateRate_rate:
  assumes "timely_updateRate now r s = Some s'"
  shows "tm_rate s' = timely_clampRate (timely_newRate (tm_rate s) (tm_rtt_gradient s) r)"
  using assms by (auto simp: timely_updateRate_def Let_def split: if_splits)

text \<open>The rate never exceeds the 10 Gbps it starts from.\<close>

lemma timely_rate_bound:
  assumes "unat rate \<le> 10000000000"
  shows "unat (timely_clampRate (timely_newRate rate g r)) \<le> 10000000000"
proof -
  consider "r < T_LOW" | "T_HIGH < r" | "T_LOW \<le> r" "r \<le> T_HIGH" by fastforce
  then show ?thesis
  proof cases
    case 1
    then show ?thesis using timely_rate_low [OF _ assms] by simp
  next
    case 2
    have "(unat rate + 2) div 5 \<le> 10000000000" using assms by linarith
    then show ?thesis using timely_rate_high [OF 2 assms] by simp
  next
    case 3
    then show ?thesis using timely_rate_between(1) [OF 3 assms, of g] by simp
  qed
qed

text \<open>Measuring the round trip time and updating the rate leave the transfer itself alone.\<close>

definition timely_same :: "timely_src \<Rightarrow> timely_src \<Rightarrow> bool" where
  "timely_same s s' \<longleftrightarrow> src_last_acked s' = src_last_acked s \<and> src_highest_sent s' = src_highest_sent s \<and>
     tm_state s' = tm_state s \<and> tm_dupacks s' = tm_dupacks s \<and> tm_recover_seq s' = tm_recover_seq s"

lemma timely_measure_spec:
  assumes "tm_min_rtt s \<noteq> 0" "r \<noteq> 0" "unat (tm_rate s) \<le> 10000000000"
    and "tm_last_rtt_update s \<noteq> now" "unat (src_last_acked s - tm_last_rtt_bytes s) < 16777216"
  shows "\<exists>s1 s2. timely_updateGradient r (timely_updateRtt r s) = Some s1 \<and>
    (if src_last_acked s1 > tm_last_rtt_bytes s1 + tm_bdp_estimate s1
     then timely_updateRate now r s1 else Some s1) = Some s2 \<and>
    timely_same s s2 \<and> tm_min_rtt s2 \<noteq> 0 \<and> unat (tm_rate s2) \<le> 10000000000"
proof -
  let ?u = "timely_updateRtt r s"
  have m: "tm_min_rtt ?u \<noteq> 0" using assms(1,2) by simp
  obtain d g where g: "timely_updateGradient r ?u =
      Some (?u\<lparr>tm_rtt_diff := d, tm_prev_rtt := r, tm_rtt_gradient := g\<rparr>)" (is "_ = Some ?s1")
    using timely_updateGradient_some [OF m] by blast
  show ?thesis
  proof (cases "src_last_acked ?s1 > tm_last_rtt_bytes ?s1 + tm_bdp_estimate ?s1")
    case True
    obtain b k where u: "timely_updateRate now r ?s1 = Some (?s1\<lparr>
        tm_rate := timely_clampRate (timely_newRate (tm_rate ?s1) (tm_rtt_gradient ?s1) r),
        tm_bdp_estimate := b, tm_measured_rate := k, tm_last_rtt_update := now,
        tm_last_rtt_bytes := src_last_acked ?s1\<rparr>)"
      using timely_updateRate_some [of ?s1 now r] assms(4,5) by auto
    show ?thesis
      using True u g m timely_rate_bound [of "tm_rate s" g r] assms(3) by (simp add: timely_same_def)
  next
    case False
    then show ?thesis using g m assms(3) by (simp add: timely_same_def)
  qed
qed

text \<open>When an acknowledgement makes the source send again what is missing.\<close>

definition timely_resends :: "u64 \<Rightarrow> timely_src \<Rightarrow> bool" where
  "timely_resends ack s \<longleftrightarrow>
     (if src_last_acked s < ack then tm_state s = RECOVERY \<and> ack < tm_recover_seq s
      else tm_state s \<noteq> RECOVERY \<and> tm_dupacks s = 2 \<and> tm_recover_seq s \<le> src_last_acked s)"

lemma timely_newAck_spec:
  assumes "timely_newAck w ack s = (w', s', as)" "src_last_acked s < ack"
  shows "src_last_acked s' = ack" "tm_min_rtt s' = tm_min_rtt s" "tm_rate s' = tm_rate s" "scheds as = []"
    "sent_seqs as = (if timely_resends ack s then [ack + 1] else [])"
    "tm_state s' = (if tm_state s = RECOVERY \<and> \<not> timely_resends ack s then NORMAL else tm_state s)"
proof -
  define a where "a = s\<lparr>src_last_acked := ack, tm_rto_timeout := (if ack = src_highest_sent s then 0 else w_now w + tm_rto s)\<rparr>"
  have a: "tm_state a = tm_state s" "src_last_acked a = ack" "tm_min_rtt a = tm_min_rtt s"
    "tm_rate a = tm_rate s" "tm_recover_seq a = tm_recover_seq s"
    by (simp_all add: a_def)
  define d :: u16 where "d = ucast (ucast (tm_dupacks s) - (ack - src_last_acked s) div MSS64 + 1)"
  have e: "timely_newAck w ack s =
      (if tm_state s \<noteq> RECOVERY then (w, a\<lparr>tm_dupacks := 0\<rparr>, [])
       else if ack < tm_recover_seq s then timely_retransmitPacket w (a\<lparr>tm_dupacks := d\<rparr>)
       else (w, a\<lparr>tm_dupacks := 0, tm_state := NORMAL\<rparr>, []))"
    by (simp add: timely_newAck_def Let_def a_def d_def)
  have "src_last_acked s' = ack \<and> tm_min_rtt s' = tm_min_rtt s \<and> tm_rate s' = tm_rate s \<and> scheds as = [] \<and>
    sent_seqs as = (if timely_resends ack s then [ack + 1] else []) \<and>
    tm_state s' = (if tm_state s = RECOVERY \<and> \<not> timely_resends ack s then NORMAL else tm_state s)"
  proof (cases "tm_state s = RECOVERY \<and> ack < tm_recover_seq s")
    case True
    then have x: "timely_retransmitPacket w (a\<lparr>tm_dupacks := d\<rparr>) = (w', s', as)" using e assms(1) by simp
    show ?thesis using timely_retransmit_spec(2,3,5-8) [OF x] True a assms(2)
      by (simp add: timely_resends_def)
  next
    case False
    then show ?thesis using e assms a by (auto simp: timely_resends_def split: if_splits)
  qed
  then show "src_last_acked s' = ack" "tm_min_rtt s' = tm_min_rtt s" "tm_rate s' = tm_rate s" "scheds as = []"
    "sent_seqs as = (if timely_resends ack s then [ack + 1] else [])"
    "tm_state s' = (if tm_state s = RECOVERY \<and> \<not> timely_resends ack s then NORMAL else tm_state s)"
    by blast+
qed

lemma timely_dupAck_spec:
  assumes "timely_dupAck w s = (w', s', as)"
  shows "src_last_acked s' = src_last_acked s" "tm_min_rtt s' = tm_min_rtt s" "tm_rate s' = tm_rate s"
    "scheds as = []"
    "sent_seqs as = (if timely_resends (src_last_acked s) s then [src_last_acked s + 1] else [])"
    "tm_state s' = (if timely_resends (src_last_acked s) s then RECOVERY else tm_state s)"
proof -
  have c: "tm_dupacks s + 1 = 3 \<longleftrightarrow> tm_dupacks s = 2" by (metis add_right_cancel one_plus_numeral add.commute semiring_norm(3))
  let ?r = "s\<lparr>tm_dupacks := tm_dupacks s + 1, tm_drops := tm_drops s + 1, tm_state := RECOVERY,
    tm_recover_seq := src_highest_sent s\<rparr>"
  have "src_last_acked s' = src_last_acked s \<and> tm_min_rtt s' = tm_min_rtt s \<and> tm_rate s' = tm_rate s \<and>
    scheds as = [] \<and>
    sent_seqs as = (if timely_resends (src_last_acked s) s then [src_last_acked s + 1] else []) \<and>
    tm_state s' = (if timely_resends (src_last_acked s) s then RECOVERY else tm_state s)"
  proof (cases "timely_resends (src_last_acked s) s")
    case True
    then have x: "timely_retransmitPacket w ?r = (w', s', as)"
      using assms c by (simp add: timely_dupAck_def Let_def timely_resends_def leD)
    show ?thesis using timely_retransmit_spec(2,3,5-8) [OF x] True by simp
  next
    case False
    then show ?thesis
      using assms c by (auto simp: timely_dupAck_def Let_def timely_resends_def not_le split: if_splits)
  qed
  then show "src_last_acked s' = src_last_acked s" "tm_min_rtt s' = tm_min_rtt s" "tm_rate s' = tm_rate s"
    "scheds as = []"
    "sent_seqs as = (if timely_resends (src_last_acked s) s then [src_last_acked s + 1] else [])"
    "tm_state s' = (if timely_resends (src_last_acked s) s then RECOVERY else tm_state s)"
    by blast+
qed

end
