(* ===== verification/TimelyProps.thy ===== *)
theory TimelyProps
  imports TimelySteps
begin

text \<open>
  The properties of \<open>TimelySrc\<close>: the rate update and its collapse, the paced event, the handler
  of acknowledgements and the window that a timeout followed by an acknowledgement closes.
\<close>

section \<open>Example states\<close>

definition ex_timely :: timely_src where
  "ex_timely = (mkTimelySrc (mkDataSource 7 False 0 0 0 0 0 0) 150000 0)
     \<lparr>src_flowgen := True, tm_state := NORMAL, src_highest_sent := 30000, src_last_acked := 15000,
      tm_bdp_estimate := 12000, tm_rtt := 30000000, tm_min_rtt := 20000000\<rparr>"

lemma ex_timely_fields:
  "tm_state ex_timely = NORMAL" "src_highest_sent ex_timely = 30000" "src_last_acked ex_timely = 15000"
  "tm_bdp_estimate ex_timely = 12000" "tm_min_rtt ex_timely = 20000000" "tm_rate ex_timely = 10000000000"
  "src_flowsize ex_timely = 150000" "src_duration ex_timely = 0" "tm_last_rtt_update ex_timely = 0"
  "tm_last_rtt_bytes ex_timely = 0" "tm_rto_timeout ex_timely = 0" "tm_dupacks ex_timely = 0"
  "w_now ex_world = 1000000000" "tm_rtt ex_timely = 30000000" "tm_recover_seq ex_timely = 0"
  "f_nPackets (src_flow ex_timely) = 0"
  by (simp_all add: ex_timely_def mkTimelySrc_def mkDataSource_def data_source.defs ex_world_def)

section \<open>The rate\<close>

text \<open>
  C32: the rate update. Below \<open>T_LOW\<close> the rate grows by 10 Mbps, up to 10 Gbps. Above \<open>T_HIGH\<close> it
  is cut to a fifth, rounded, however little the round trip time exceeds the threshold, because
  \<open>T_HIGH / new_rtt\<close> divides integers. Between the thresholds it grows by at most 10 Mbps and loses
  at most 33 parts in 1024.
\<close>

theorem timely_rate_update:
  assumes "timely_updateRate now new_rtt s = Some s'" "unat (tm_rate s) \<le> 10000000000"
  shows "(new_rtt < T_LOW \<longrightarrow> unat (tm_rate s') = min 10000000000 (unat (tm_rate s) + 10000000)) \<and>
    (T_HIGH < new_rtt \<longrightarrow> unat (tm_rate s') = (unat (tm_rate s) + 2) div 5) \<and>
    (T_LOW \<le> new_rtt \<and> new_rtt \<le> T_HIGH \<longrightarrow>
       unat (tm_rate s') \<le> min 10000000000 (unat (tm_rate s) + 10000000) \<and>
       991 * unat (tm_rate s) \<le> 1024 * unat (tm_rate s') + 512)"
  using timely_updateRate_rate [OF assms(1)] timely_rate_low [OF _ assms(2)]
    timely_rate_high [OF _ assms(2)] timely_rate_between [OF _ _ assms(2)]
  by simp

lemma timely_rate_update_witness:
  "\<exists>s'. timely_updateRate 1000000000 100000001 ex_timely = Some s' \<and> unat (tm_rate s') = 2000000000"
proof -
  have h: "T_HIGH < 100000001" by (simp add: word_less_nat_alt unat_T_HIGH)
  obtain s' where s': "timely_updateRate 1000000000 100000001 ex_timely = Some s'"
    using timely_updateRate_some [of ex_timely 1000000000 100000001] by (auto simp: ex_timely_fields)
  show ?thesis using timely_rate_update [OF s'] h s' by (simp add: ex_timely_fields)
qed

text \<open>The rates of a source whose round trip time stays above \<open>T_HIGH\<close>.\<close>

definition timely_fifth :: "nat \<Rightarrow> nat" where
  "timely_fifth n = (n + 2) div 5"

lemma timely_fifth_mono: "a \<le> b \<Longrightarrow> (timely_fifth ^^ k) a \<le> (timely_fifth ^^ k) b"
  by (induction k) (simp_all add: timely_fifth_def div_le_mono)

lemma timely_fifth_le: "(timely_fifth ^^ k) n \<le> n"
  by (induction k) (auto simp: timely_fifth_def)

lemma timely_fifth_15: "(timely_fifth ^^ 15) 10000000000 = 0"
proof -
  have f: "15 = Suc (Suc (Suc (Suc (Suc (Suc (Suc (Suc (Suc (Suc (Suc (Suc (Suc (Suc (Suc 0))))))))))))))"
    by simp
  show ?thesis by (subst f) (simp add: timely_fifth_def)
qed

text \<open>
  C33: the rate collapses. After fifteen updates with round trip times above \<open>T_HIGH\<close>, whatever the
  source does between them, the rate is zero, and the next event divides by it: the model has no
  interval for it.
\<close>

theorem timely_rate_collapse:
  assumes "\<And>i. i < 15 \<Longrightarrow> timely_updateRate (now i) (rtt i) (s i) = Some (s' i)"
    and "\<And>i. i < 15 \<Longrightarrow> T_HIGH < rtt i" "\<And>i. i < 15 \<Longrightarrow> tm_rate (s (Suc i)) = tm_rate (s' i)"
    and "unat (tm_rate (s 0)) \<le> 10000000000" "tm_state (s 15) \<noteq> FINISH"
  shows "tm_rate (s 15) = 0 \<and> timely_doNextEvent w (s 15) = None"
proof -
  have r: "unat (tm_rate (s i)) = (timely_fifth ^^ i) (unat (tm_rate (s 0)))" if i: "i \<le> 15" for i
    using i
  proof (induction i)
    case (Suc i)
    have i: "i < 15" using Suc.prems by simp
    have le: "unat (tm_rate (s i)) \<le> 10000000000"
      using Suc timely_fifth_le [of i "unat (tm_rate (s 0))"] assms(4) by simp
    show ?case
      using timely_updateRate_rate [OF assms(1) [OF i]] timely_rate_high [OF assms(2) [OF i] le]
        assms(3) [OF i] Suc by (simp add: timely_fifth_def)
  qed simp
  have "(timely_fifth ^^ 15) (unat (tm_rate (s 0))) \<le> 0"
    using timely_fifth_mono [OF assms(4), of 15] unfolding timely_fifth_15 .
  then have z: "tm_rate (s 15) = 0" using r [of 15] by (simp add: unat_eq_0)
  obtain w1 s1 as1 where a: "timely_before w (s 15) = (w1, s1, as1)" by (metis prod_cases3)
  have "tm_rate s1 = 0" using timely_before_spec(1) [OF a] z by simp
  moreover obtain w2 s2 as2 where b: "(if tm_state s1 \<noteq> FINISH then timely_sendPackets w1 s1 else (w1, s1, [])) =
      (w2, s2, as2)"
    by (metis prod_cases3)
  ultimately have "tm_rate s2 = 0"
    using timely_sendPackets_spec(3) [of w1 s1 w2 s2 as2] by (auto split: if_splits)
  then show ?thesis
    using z assms(5) a b by (simp add: timely_doNextEvent_def timely_nextTransmission_def)
qed

definition ex_slow :: "nat \<Rightarrow> timely_src" where
  "ex_slow i = ex_timely\<lparr>tm_rate := of_nat ((timely_fifth ^^ i) 10000000000)\<rparr>"

lemma timely_rate_collapse_witness:
  "tm_rate (ex_slow 15) = 0 \<and> timely_doNextEvent ex_world (ex_slow 15) = None"
proof (rule timely_rate_collapse)
  let ?s' = "\<lambda>i. the (timely_updateRate 1000000000 200000000 (ex_slow i))"
  have h: "T_HIGH < 200000000" by (simp add: word_less_nat_alt unat_T_HIGH)
  then show "T_HIGH < 200000000" .
  have r: "unat (tm_rate (ex_slow i)) = (timely_fifth ^^ i) 10000000000"
    "(timely_fifth ^^ i) 10000000000 \<le> 10000000000" for i
    using timely_fifth_le [of i 10000000000] by (simp_all add: ex_slow_def unat_of_nat_64)
  show u: "timely_updateRate 1000000000 200000000 (ex_slow i) = Some (?s' i)" for i
    using timely_updateRate_some [of "ex_slow i" 1000000000 200000000]
    by (auto simp: ex_slow_def ex_timely_fields)
  show "tm_rate (ex_slow (Suc i)) = tm_rate (?s' i)" for i
  proof -
    have "unat (tm_rate (?s' i)) = timely_fifth ((timely_fifth ^^ i) 10000000000)"
      using timely_updateRate_rate [OF u [of i]] timely_rate_high [OF h, of "tm_rate (ex_slow i)"] r [of i]
      by (simp add: timely_fifth_def)
    then show ?thesis using r(1) [of "Suc i"] by (simp add: word_unat_eq_iff)
  qed
qed (simp_all add: ex_slow_def ex_timely_fields)

section \<open>The paced event\<close>

lemma timely_start_sends: "\<not> timely_flow_sent (timely_start now s)" "\<not> timely_limited (timely_start now s)"
proof -
  have d: "unat (tm_dupacks s) < 65536" using unsigned_less [of "tm_dupacks s"] by simp
  have u: "unat (ucast (tm_dupacks s) :: u64) = unat (tm_dupacks s)"
    using d by (simp add: unsigned_ucast_eq take_bit_nat_eq_self)
  have m: "unat (ucast (tm_dupacks s) * 1500 :: u64) = unat (tm_dupacks s) * 1500"
    using unat_mult_64 [of "ucast (tm_dupacks s)" 1500] d unfolding u by simp
  have "unat (18000 + ucast (tm_dupacks s) * 1500 :: u64) = 18000 + unat (tm_dupacks s) * 1500"
    using unat_add_64 [of 18000 "ucast (tm_dupacks s) * 1500"] d unfolding m by simp
  then have "18000 + ucast (tm_dupacks s) * 1500 \<noteq> (0 :: u64)" by (metis unat_0 add_is_0 zero_neq_numeral)
  then show "\<not> timely_limited (timely_start now s)"
    by (simp add: timely_limited_def timely_start_def MSS_BYTES_def)
  show "\<not> timely_flow_sent (timely_start now s)"
    by (simp add: timely_flow_sent_def timely_start_def)
qed

text \<open>The two parts of an event: what precedes the sending, then the sending of an unfinished flow.\<close>

lemma timely_active_send:
  assumes "(if tm_state s1 \<noteq> FINISH then timely_sendPackets w1 s1 else (w1, s1, [])) = (w2, s2, as2)"
  shows "tm_rate s2 = tm_rate s1" "scheds as2 = []" "tm_state s2 = tm_state s1"
    "sent_seqs as2 = (if tm_state s1 = FINISH \<or> timely_flow_sent s1 \<or> timely_limited s1 then []
      else [src_highest_sent s1 + 1])"
proof -
  have "tm_rate s2 = tm_rate s1 \<and> scheds as2 = [] \<and> tm_state s2 = tm_state s1 \<and>
    sent_seqs as2 = (if tm_state s1 = FINISH \<or> timely_flow_sent s1 \<or> timely_limited s1 then []
      else [src_highest_sent s1 + 1])"
  proof (cases "tm_state s1 = FINISH")
    case True
    then show ?thesis using assms by auto
  next
    case False
    then have p: "timely_sendPackets w1 s1 = (w2, s2, as2)" using assms by simp
    show ?thesis using timely_sendPackets_spec(2-4,6) [OF p] False by simp
  qed
  then show "tm_rate s2 = tm_rate s1" "scheds as2 = []" "tm_state s2 = tm_state s1"
    "sent_seqs as2 = (if tm_state s1 = FINISH \<or> timely_flow_sent s1 \<or> timely_limited s1 then []
      else [src_highest_sent s1 + 1])"
    by blast+
qed

lemma timely_event_sends:
  assumes "timely_before w s = (w1, s1, as1)"
    and "(if tm_state s1 \<noteq> FINISH then timely_sendPackets w1 s1 else (w1, s1, [])) = (w2, s2, as2)"
  shows "case tm_state s of FINISH \<Rightarrow> sends (as1 @ as2) = []
     | IDLE \<Rightarrow> sent_seqs (as1 @ as2) = [1] \<and> tm_state s2 = NORMAL
     | _ \<Rightarrow> if tm_rto_timeout s \<noteq> 0 \<and> tm_rto_timeout s \<le> w_now w
         then tm_state s2 = NORMAL \<and> (sent_seqs (as1 @ as2) = [src_last_acked s + 1] \<or>
           sent_seqs (as1 @ as2) = [src_last_acked s + 1, src_last_acked s + MSS64 + 1])
         else tm_state s2 = tm_state s \<and> sent_seqs (as1 @ as2) =
           (if timely_flow_sent s \<or> timely_limited s then [] else [src_highest_sent s + 1])"
proof -
  note one = timely_before_spec [OF assms(1)]
  note two = timely_active_send [OF assms(2)]
  have m: "x + MSS64 + 1 = x + (MSS64 + 1)" for x :: u64 by simp
  show ?thesis
  proof (cases "tm_state s = IDLE \<or> tm_state s = FINISH")
    case True
    then show ?thesis
    proof
      assume i: "tm_state s = IDLE"
      show ?thesis using one(3) [OF i] two(3,4) timely_start_sends [of "w_now w" s] i
        by (simp add: timely_start_def)
    next
      assume f: "tm_state s = FINISH"
      show ?thesis using one(4) [OF f] two(4) f by (simp add: sent_seqs_def)
    qed
  next
    case act: False
    show ?thesis
    proof (cases "tm_rto_timeout s = 0 \<or> w_now w < tm_rto_timeout s")
      case True
      then show ?thesis using one(5) act two(3,4)
        by (auto simp: not_le split: timely_status.split)
    next
      case late: False
      then have "tm_state s1 = NORMAL" "sent_seqs as1 = [src_last_acked s + 1]"
          "src_highest_sent s1 = src_last_acked s + MSS64"
        using one(6) act by blast+
      then show ?thesis using late act two(3,4)
        by (cases "tm_state s") (simp_all add: not_less)
    qed
  qed
qed

text \<open>
  The event of a source that has a rate. It returns; it deletes the flow exactly when the flow
  is finished and no packet of it is left, and otherwise schedules one further event, at least the
  1.2 microseconds of a segment at 10 Gbps later. The first event sends one segment, an event
  without timeout sends the next segment when the flow and the window allow it, and a timeout first
  sends the segment that is not acknowledged.
\<close>

lemma timely_event:
  assumes "tm_rate s \<noteq> 0" "unat (tm_rate s) \<le> 10000000000"
  shows "\<exists>w' s' as. timely_doNextEvent w s = Some (w', s', as) \<and>
    (if tm_state s = FINISH \<and> f_nPackets (src_flow s) = 0 then as = [DeleteFlow]
     else \<exists>t. scheds as = [SchedRel t] \<and> 1200000 \<le> unat t) \<and>
    (case tm_state s of
       FINISH \<Rightarrow> sends as = []
     | IDLE \<Rightarrow> sent_seqs as = [1] \<and> tm_state s' = NORMAL
     | _ \<Rightarrow> if tm_rto_timeout s \<noteq> 0 \<and> tm_rto_timeout s \<le> w_now w
            then tm_state s' = NORMAL \<and> (sent_seqs as = [src_last_acked s + 1] \<or>
              sent_seqs as = [src_last_acked s + 1, src_last_acked s + MSS64 + 1])
            else tm_state s' = tm_state s \<and> sent_seqs as =
              (if timely_flow_sent s \<or> timely_limited s then [] else [src_highest_sent s + 1]))"
proof -
  obtain w1 s1 as1 where a: "timely_before w s = (w1, s1, as1)" by (metis prod_cases3)
  note one = timely_before_spec [OF a]
  obtain w2 s2 as2 where b: "(if tm_state s1 \<noteq> FINISH then timely_sendPackets w1 s1 else (w1, s1, [])) =
      (w2, s2, as2)"
    by (metis prod_cases3)
  note two = timely_active_send [OF b]
  obtain t where t: "timely_nextTransmission (tm_rate s) = Some t" "1200000 \<le> unat t"
    using timely_interval [OF assms] by blast
  show ?thesis
  proof (cases "tm_state s = FINISH \<and> f_nPackets (src_flow s) = 0")
    case True
    then show ?thesis by (simp add: timely_doNextEvent_def)
  next
    case False
    have r: "timely_doNextEvent w s = Some (w2, s2, as1 @ as2 @ [SchedRel t])"
      using False a b t(1) one(1) two(1) by (auto simp: timely_doNextEvent_def)
    have sc: "scheds (as1 @ as2 @ [SchedRel t]) = [SchedRel t]" using one(2) two(2) by simp
    have e: "sent_seqs (as1 @ as2 @ [SchedRel t]) = sent_seqs (as1 @ as2)"
      "sends (as1 @ as2 @ [SchedRel t]) = sends (as1 @ as2)" by simp_all
    have "if tm_state s = FINISH \<and> f_nPackets (src_flow s) = 0 then as1 @ as2 @ [SchedRel t] = [DeleteFlow]
      else \<exists>ta. scheds (as1 @ as2 @ [SchedRel t]) = [SchedRel ta] \<and> 1200000 \<le> unat ta"
      using False sc t(2) by simp
    then show ?thesis using timely_event_sends [OF a b, folded e]
      by (intro exI [of _ w2] exI [of _ s2] exI [of _ "as1 @ as2 @ [SchedRel t]"] conjI r)
  qed
qed

lemma timely_event_witness:
  "\<exists>w' s' as. timely_doNextEvent ex_world ex_timely = Some (w', s', as) \<and> sent_seqs as = [30001]"
proof -
  have "\<not> timely_flow_sent ex_timely" "\<not> timely_limited ex_timely"
    by (simp_all add: timely_flow_sent_def timely_limited_def ex_timely_fields word_le_nat_alt)
  then show ?thesis using timely_event [of ex_timely ex_world] by (auto simp: ex_timely_fields)
qed

section \<open>Acknowledgements\<close>

definition timely_inv :: "timely_src \<Rightarrow> bool" where
  "timely_inv s \<longleftrightarrow> unat (tm_rate s) \<le> 10000000000 \<and> tm_min_rtt s \<noteq> 0 \<and> tm_state s \<noteq> IDLE"

lemma timely_receive_active:
  assumes "timely_inv s" "p_class pkt = DataAck sq ack ts0" "ts0 < w_now w"
    and "tm_last_rtt_update s < w_now w" "unat (src_last_acked s - tm_last_rtt_bytes s) < 2 ^ 24"
    and act: "tm_state s \<noteq> FINISH" "\<not> timely_flow_done (w_now w) ack s" "src_last_acked s \<le> ack"
  shows "\<exists>w' s' as. timely_receivePacket w s pkt = Some (w', s', as) \<and> timely_inv s' \<and>
    src_last_acked s' = ack \<and> scheds as = [] \<and>
    sent_seqs as = (if timely_resends ack s then [src_last_acked s' + 1] else [])"
proof -
  define s0 where "s0 = s\<lparr>src_flow := (src_flow s)\<lparr>f_nPackets := f_nPackets (src_flow s) - 1\<rparr>\<rparr>"
  define w0 where "w0 = w\<lparr>w_ackdb := w_ackdb w @ [pkt]\<rparr>"
  have free: "source_free_ack pkt w s = (w0, s0)" by (simp add: source_free_ack_eq s0_def w0_def)
  have f: "tm_state s0 = tm_state s" "src_last_acked s0 = src_last_acked s" "w_now w0 = w_now w"
    "timely_flow_done now ack s0 = timely_flow_done now ack s" "tm_min_rtt s0 \<noteq> 0"
    "unat (tm_rate s0) \<le> 10000000000" for now
    using assms(1) by (simp_all add: s0_def w0_def timely_flow_done_def timely_inv_def)
  have rtt: "w_now w - ts0 \<noteq> 0" using assms(3) by auto
  have upd: "tm_last_rtt_update s0 \<noteq> w_now w"
    "unat (src_last_acked s0 - tm_last_rtt_bytes s0) < 16777216"
    using assms(4,5) by (auto simp: s0_def)
  obtain s1 s2 where m: "timely_updateGradient (w_now w - ts0) (timely_updateRtt (w_now w - ts0) s0) = Some s1"
    "(if src_last_acked s1 > tm_last_rtt_bytes s1 + tm_bdp_estimate s1
      then timely_updateRate (w_now w) (w_now w - ts0) s1 else Some s1) = Some s2"
    "timely_same s0 s2" "tm_min_rtt s2 \<noteq> 0" "unat (tm_rate s2) \<le> 10000000000"
    using timely_measure_spec [OF f(5) rtt f(6) upd] by blast
  have same: "src_last_acked s2 = src_last_acked s" "timely_resends ack s2 = timely_resends ack s"
    "tm_state s2 = tm_state s"
    using m(3) by (simp_all add: timely_same_def timely_resends_def s0_def)
  obtain w3 s3 as3 where k: "(if ack > src_last_acked s2 then timely_newAck w0 ack s2 else timely_dupAck w0 s2) =
      (w3, s3, as3)"
    by (metis prod_cases3)
  have m2: "(if src_last_acked s1 > tm_last_rtt_bytes s1 + tm_bdp_estimate s1
      then timely_updateRate (w_now w0) (w_now w - ts0) s1 else Some s1) = Some s2"
    using m(2) unfolding f(3) .
  have r: "timely_receivePacket w s pkt = Some (w3, s3, Traffic PKT_RCVDESTROY pkt # as3)"
    using assms(2) act f free m(1)
    by (simp add: timely_receivePacket_def Let_def leD m2 k split del: if_split)
  have s3: "src_last_acked s3 = ack \<and> tm_min_rtt s3 = tm_min_rtt s2 \<and> tm_rate s3 = tm_rate s2 \<and>
      scheds as3 = [] \<and> sent_seqs as3 = (if timely_resends ack s2 then [ack + 1] else []) \<and>
      (tm_state s3 = IDLE \<longrightarrow> tm_state s2 = IDLE)"
  proof (cases "src_last_acked s2 < ack")
    case True
    then show ?thesis using k timely_newAck_spec [of w0 ack s2 w3 s3 as3] by simp
  next
    case False
    then have "ack = src_last_acked s2" using act(3) same(1) by simp
    then show ?thesis using k timely_dupAck_spec [of w0 s2 w3 s3 as3] by simp
  qed
  show ?thesis
    using s3 r m(4,5) same assms(1) by (simp add: timely_inv_def)
qed

text \<open>
  The handler of acknowledgements. When time has passed since the packet and the last update
  of the rate, it returns and keeps the invariant: the rate is at most 10 Gbps, the least round trip
  time is not zero and the flow stays started. It never moves the acknowledged prefix backwards,
  schedules nothing, and sends at most the first missing segment, on a partial acknowledgement in
  recovery and on the third duplicate acknowledgement outside it.
\<close>

lemma timely_receivePacket_safe:
  assumes "timely_inv s" "p_class pkt = DataAck sq ack ts0" "ts0 < w_now w"
    and "tm_last_rtt_update s < w_now w" "unat (src_last_acked s - tm_last_rtt_bytes s) < 2 ^ 24"
  shows "\<exists>w' s' as. timely_receivePacket w s pkt = Some (w', s', as) \<and> timely_inv s' \<and>
    src_last_acked s \<le> src_last_acked s' \<and> scheds as = [] \<and>
    sent_seqs as = (if tm_state s \<noteq> FINISH \<and> \<not> timely_flow_done (w_now w) ack s \<and>
      src_last_acked s \<le> ack \<and> timely_resends ack s then [src_last_acked s' + 1] else [])"
proof -
  define s0 where "s0 = s\<lparr>src_flow := (src_flow s)\<lparr>f_nPackets := f_nPackets (src_flow s) - 1\<rparr>\<rparr>"
  define w0 where "w0 = w\<lparr>w_ackdb := w_ackdb w @ [pkt]\<rparr>"
  have free: "source_free_ack pkt w s = (w0, s0)" by (simp add: source_free_ack_eq s0_def w0_def)
  have f: "tm_state s0 = tm_state s" "src_last_acked s0 = src_last_acked s" "w_now w0 = w_now w"
    "timely_flow_done now ack s0 = timely_flow_done now ack s" "timely_inv s0" for now
    using assms(1) by (simp_all add: s0_def w0_def timely_flow_done_def timely_inv_def)
  consider (fin) "tm_state s = FINISH" | (don) "tm_state s \<noteq> FINISH" "timely_flow_done (w_now w) ack s"
    | (old) "tm_state s \<noteq> FINISH" "\<not> timely_flow_done (w_now w) ack s" "ack < src_last_acked s"
    | (act) "tm_state s \<noteq> FINISH" "\<not> timely_flow_done (w_now w) ack s" "src_last_acked s \<le> ack"
    by fastforce
  then show ?thesis
  proof cases
    case fin
    then show ?thesis using assms(2) f free by (simp add: timely_receivePacket_def)
  next
    case don
    then show ?thesis using assms(1,2) f free
      by (simp add: timely_receivePacket_def timely_finish_def timely_inv_def sent_seqs_def)
  next
    case old
    then have "\<not> src_last_acked s \<le> ack" by simp
    then show ?thesis using old assms(2) f free by (simp add: timely_receivePacket_def)
  next
    case act
    show ?thesis using timely_receive_active [OF assms act] act by (force split: if_splits)
  qed
qed

lemma timely_receivePacket_safe_witness:
  "\<exists>w' s' as. timely_receivePacket ex_world ex_timely (pkt0\<lparr>p_class := DataAck 1 16500 900000000\<rparr>) =
     Some (w', s', as) \<and> timely_inv s' \<and> sent_seqs as = []"
  using timely_receivePacket_safe [of ex_timely "pkt0\<lparr>p_class := DataAck 1 16500 900000000\<rparr>" 1 16500 900000000 ex_world]
  by (force simp: timely_inv_def timely_resends_def ex_timely_fields)

section \<open>The window closed by an acknowledgement\<close>

text \<open>
  After a timeout has set the highest byte sent back, an acknowledgement for the original
  packets can pass it. The source then has nothing in flight, but the unsigned difference of the
  two counters exceeds the window: no event sends, until the timeout, armed again, expires.
\<close>

lemma timely_stalled:
  assumes "timely_newAck w ack s = (w', s', as)" "tm_state s = NORMAL" "src_highest_sent s < ack"
    and "unat ack < 2 ^ 62" "tm_bdp_estimate s \<noteq> 0" "unat (tm_bdp_estimate s) < 2 ^ 62"
  shows "as = [] \<and> tm_rto_timeout s' = w_now w + tm_rto s \<and> timely_sendPackets v s' = (v, s', [])"
proof -
  define b where "b = tm_bdp_estimate s"
  define h where "h = src_highest_sent s"
  have "ack \<noteq> src_highest_sent s" using assms(3) by auto
  then have s': "s' = s\<lparr>src_last_acked := ack, tm_rto_timeout := w_now w + tm_rto s, tm_dupacks := 0\<rparr>" "as = []"
    using assms(1,2) by (auto simp: timely_newAck_def Let_def)
  have "unat b + unat b div 2 < 18446744073709551616" using assms(6) by (simp add: b_def)
  then have lim: "unat (b + b div 2) = unat b + unat b div 2"
    using unat_add_64 [of b "b div 2"] by (simp add: unat_div)
  have lt: "unat h < unat ack" using assms(3) by (simp add: h_def word_less_nat_alt)
  have "unat (h - ack) = unat h + 18446744073709551616 - unat ack"
    using lt unat_sub_if' [of h ack] by (simp add: word_le_nat_alt)
  then have "unat (b + b div 2) \<le> unat (h - ack)"
    unfolding lim using assms(4,6) by (simp add: b_def)
  then have "timely_limited s'"
    using assms(5) by (simp add: s' timely_limited_def word_le_nat_alt b_def h_def)
  then show ?thesis using s' by (simp add: timely_sendPackets_def)
qed

lemma timely_stalled_witness:
  "\<exists>s'. timely_newAck ex_world 45000 ex_timely = (ex_world, s', []) \<and>
     timely_sendPackets ex_world s' = (ex_world, s', [])"
proof -
  obtain w' s' as where n: "timely_newAck ex_world 45000 ex_timely = (w', s', as)" by (metis prod_cases3)
  have "w' = ex_world" using n by (simp add: timely_newAck_def Let_def ex_timely_fields)
  then show ?thesis using timely_stalled [OF n, of ex_world] n by (simp add: ex_timely_fields word_less_nat_alt)
qed

end
