(* ===== verification/TransportTimely.thy ===== *)
theory TransportTimely
  imports Transport TimelyProps
begin

text \<open>
  \<open>TimelySrc\<close> and \<open>TimelySink\<close> as instances of the transport interfaces, and the reliability of Timely
  that follows.
\<close>

section \<open>Sending and events\<close>

lemma timely_rexmit_emits:
  assumes "timely_retransmitPacket w s = (w', s', as)" "seqs_ok n s" "n \<le> 7"
  shows "emits (Suc n) s s' as \<and> src_last_acked s' = src_last_acked s \<and> tm_state s' = tm_state s"
  using timely_retransmit_spec [OF assms(1)] emits_single [OF assms(2,3), of as w s'] by simp

lemma timely_send_emits:
  assumes "timely_sendPackets w s = (w', s', as)" "seqs_ok n s" "n \<le> 7"
  shows "emits (Suc n) s s' as \<and> src_last_acked s' = src_last_acked s \<and> tm_state s' = tm_state s"
proof -
  note t = timely_sendPackets_spec [OF assms(1)]
  have "length (sends as) = length (sent_seqs as)" by (simp add: sent_seqs_def)
  then have "length (sends as) = 0 \<or> length (sends as) = 1" using t(6) by simp
  then have "src_highest_sent s' \<in> {src_highest_sent s, src_highest_sent s + MSS64}" using t(8) by auto
  then show ?thesis using t emits_single [OF assms(2,3), of as w s'] by simp
qed

lemma timely_event_step:
  assumes "timely_doNextEvent w s = Some (w', s', as)" "seqs_ok 0 s"
  shows "emits 4 s s' as \<and> src_last_acked s' \<in> {src_last_acked s, 0} \<and> (tm_state s' = FINISH \<longrightarrow> tm_state s = FINISH)"
proof (cases "tm_state s = FINISH \<and> f_nPackets (src_flow s) = 0")
  case True
  then show ?thesis using assms seqs_ok_mono [OF assms(2), of 4] by (auto simp: timely_doNextEvent_def emits_def)
next
  case False
  obtain w1 s1 bs where b: "timely_before w s = (w1, s1, bs)" by (metis prod_cases3)
  obtain w2 s2 cs where c: "timely_sendPackets w1 s1 = (w2, s2, cs)" by (metis prod_cases3)
  obtain t where t: "w' = (if tm_state s1 \<noteq> FINISH then w2 else w1)" "s' = (if tm_state s1 \<noteq> FINISH then s2 else s1)"
      "as = bs @ (if tm_state s1 \<noteq> FINISH then cs else []) @ [SchedRel t]"
    using assms(1) False b c by (auto simp: timely_doNextEvent_def bind_eq_Some_conv split: if_splits)
  have z: "seqs_ok 0 (timely_start now s)" for now using assms(2) by (simp add: seqs_ok_def timely_start_def)
  have r: "emits 2 s s1 bs \<and> src_last_acked s1 = src_last_acked s \<and> tm_state s1 = NORMAL"
    if x: "timely_retransmitPacket w (timely_timeout (w_now w) s) = (w1, s1, bs)"
  proof -
    have "seqs_ok 1 (timely_timeout (w_now w) s)"
      using assms(2) seqs_ok_next(1,2) [of "src_last_acked s" 0] by (simp add: seqs_ok_def)
    note e = timely_rexmit_emits [OF x this]
    have "src_flowsize (timely_timeout (w_now w) s) = src_flowsize s"
      "src_duration (timely_timeout (w_now w) s) = src_duration s"
      by (simp_all add: timely_timeout_def Let_def)
    then show ?thesis using e by (simp add: emits_def numeral_2_eq_2)
  qed
  have before: "emits 2 s s1 bs \<and> src_last_acked s1 \<in> {src_last_acked s, 0} \<and> (tm_state s1 = FINISH \<longrightarrow> tm_state s = FINISH)"
    using b r z [of "w_now w"] seqs_ok_mono [OF assms(2), of 2]
    by (auto simp: timely_before_def emits_def seqs_ok_def timely_start_def split: if_splits)
  then have q: "seqs_ok 2 s1" by (simp add: emits_def)
  note s = timely_send_emits [OF c q]
  have "emits 3 s s2 (bs @ cs)" using emits_trans [of 2 s s1 bs 3 s2 cs] before s by (simp add: numeral_3_eq_3)
  then have "emits 4 s s' as"
    using t before emits_mono [of 2 s s1 bs 4] emits_mono [of 3 s s2 "bs @ cs" 4] by (auto simp: emits_def)
  then show ?thesis using t s before by auto
qed

section \<open>Acknowledgements\<close>

lemma timely_updates_same_flow:
  "same_flow s (timely_updateRtt r s)"
  "timely_updateGradient r s = Some s' \<Longrightarrow> same_flow s s' \<and> tm_state s' = tm_state s"
  "timely_updateRate now r s = Some s' \<Longrightarrow> same_flow s s' \<and> tm_state s' = tm_state s"
  by (auto simp: same_flow_def timely_updateRtt_def timely_updateGradient_def timely_updateRate_def Let_def
      split: if_splits)

lemma timely_newAck_emits:
  assumes "timely_newAck w ack s = (w', s', as)" "seqs_ok 0 (s\<lparr>src_last_acked := ack\<rparr>)"
  shows "emits 4 s s' as \<and> src_last_acked s' = ack \<and> (tm_state s' = FINISH \<longrightarrow> tm_state s = FINISH)"
proof -
  define a where "a = s\<lparr>src_last_acked := ack, tm_rto_timeout := (if ack = src_highest_sent s then 0 else w_now w + tm_rto s)\<rparr>"
  define d :: u16 where "d = ucast (ucast (tm_dupacks s) - (ack - src_last_acked s) div MSS64 + 1)"
  have e: "timely_newAck w ack s =
      (if tm_state s \<noteq> RECOVERY then (w, a\<lparr>tm_dupacks := 0\<rparr>, [])
       else if ack < tm_recover_seq s then timely_retransmitPacket w (a\<lparr>tm_dupacks := d\<rparr>)
       else (w, a\<lparr>tm_dupacks := 0, tm_state := NORMAL\<rparr>, []))"
    by (simp add: timely_newAck_def Let_def a_def d_def)
  have q: "seqs_ok 0 (a\<lparr>tm_dupacks := d\<rparr>)" using assms(2) by (simp add: a_def seqs_ok_def)
  show ?thesis
  proof (cases "tm_state s = RECOVERY \<and> ack < tm_recover_seq s")
    case True
    then have x: "timely_retransmitPacket w (a\<lparr>tm_dupacks := d\<rparr>) = (w', s', as)" using assms(1) e by simp
    note r = timely_rexmit_emits [OF x q]
    then have "emits 4 (a\<lparr>tm_dupacks := d\<rparr>) s' as" using emits_mono [of 1 _ s' as 4] by simp
    then show ?thesis using r by (simp add: emits_def a_def)
  next
    case False
    then show ?thesis
      using assms(1) e seqs_ok_mono [OF assms(2), of 4] by (auto simp: emits_def a_def seqs_ok_def split: if_splits)
  qed
qed

lemma timely_dupAck_emits:
  assumes "timely_dupAck w s = (w', s', as)" "seqs_ok 0 s"
  shows "emits 4 s s' as \<and> src_last_acked s' = src_last_acked s \<and> (tm_state s' = FINISH \<longrightarrow> tm_state s = FINISH)"
proof -
  let ?r = "s\<lparr>tm_dupacks := tm_dupacks s + 1, tm_drops := tm_drops s + 1, tm_state := RECOVERY,
    tm_recover_seq := src_highest_sent s\<rparr>"
  have q: "seqs_ok 0 ?r" "seqs_ok 4 s" using assms(2) seqs_ok_mono [OF assms(2), of 4] by (simp_all add: seqs_ok_def)
  consider "timely_retransmitPacket w ?r = (w', s', as)" | "s' = s\<lparr>tm_dupacks := tm_dupacks s + 1\<rparr>" "as = []"
    using assms(1) by (auto simp: timely_dupAck_def Let_def split: if_splits)
  then show ?thesis
  proof cases
    case 1
    note r = timely_rexmit_emits [OF 1 q(1)]
    then have "emits 4 ?r s' as" using emits_mono [of 1 ?r s' as 4] by simp
    then show ?thesis using r by (simp add: emits_def)
  qed (use q(2) in \<open>simp add: emits_def seqs_ok_def\<close>)
qed

lemma timely_receive_step:
  assumes "timely_receivePacket w s p = Some (w', s', as)" "seqs_ok 0 s" "p_class p = DataAck x ack t"
    and "1500 dvd unat ack" "unat ack < 2 ^ 62"
  shows "emits 4 s s' as \<and> src_last_acked s' \<in> {src_last_acked s, ack} \<and>
    (tm_state s' = FINISH \<longrightarrow> tm_state s = FINISH \<or> src_duration s \<noteq> 0 \<or> src_flowsize s \<le> ack)"
proof -
  obtain w0 s0 where f: "source_free_ack p w s = (w0, s0)" by fastforce
  then have s0: "same_flow s s0" "tm_state s0 = tm_state s" by (auto simp: source_free_ack_eq same_flow_def)
  have keep: "emits 4 s s' (Traffic PKT_RCVDESTROY p # bs) \<and> src_last_acked s' = src_last_acked s"
    if "same_flow s s'" "sends bs = []" for bs
    using that seqs_ok_mono [OF assms(2), of 4] seqs_ok_same_flow [OF that(1)] by (simp add: emits_def same_flow_def)
  note d = assms(1) [unfolded timely_receivePacket_def assms(3) pkt_class.case f prod.case Let_def]
  consider (fin) "tm_state s = FINISH" | (don) "tm_state s \<noteq> FINISH" "timely_flow_done (w_now w0) ack s0"
    | (old) "tm_state s \<noteq> FINISH" "\<not> timely_flow_done (w_now w0) ack s0" "ack < src_last_acked s0"
    | (act) "tm_state s \<noteq> FINISH" "\<not> timely_flow_done (w_now w0) ack s0" "\<not> ack < src_last_acked s0" by blast
  then show ?thesis
  proof cases
    case fin
    then have "s' = s0" "as = [Traffic PKT_RCVDESTROY p]" using d s0(2) by auto
    then show ?thesis using keep [of "[]"] s0 fin by auto
  next
    case don
    then have "s' = s0\<lparr>tm_state := FINISH\<rparr>"
        "as = Traffic PKT_RCVDESTROY p # (if src_flowgen s0 then [FinishFlow (src_id s0)] else [])"
      using d s0(2) by (auto simp: timely_finish_def)
    moreover have "src_duration s \<noteq> 0 \<or> src_flowsize s \<le> ack"
      using don(2) s0(1) by (auto simp: timely_flow_done_def same_flow_def)
    ultimately show ?thesis using keep s0 by (auto simp: same_flow_def)
  next
    case old
    then have "s' = s0" "as = [Traffic PKT_RCVDESTROY p]" using d s0(2) by auto
    then show ?thesis using keep [of "[]"] s0 old(1) by auto
  next
    case act
    define r where "r = w_now w0 - t"
    obtain s1 where g: "timely_updateGradient r (timely_updateRtt r s0) = Some s1"
      using d s0(2) act unfolding r_def by (auto simp: bind_eq_Some_conv)
    obtain s2 where u: "(if src_last_acked s1 > tm_last_rtt_bytes s1 + tm_bdp_estimate s1
        then timely_updateRate (w_now w0) r s1 else Some s1) = Some s2"
      using d s0(2) act g unfolding r_def by (auto simp: bind_eq_Some_conv)
    obtain bs where b: "(if ack > src_last_acked s2 then timely_newAck w0 ack s2 else timely_dupAck w0 s2) = (w', s', bs)"
        "as = Traffic PKT_RCVDESTROY p # bs"
      using d s0(2) act g u unfolding r_def by (auto simp: bind_eq_Some_conv split: prod.splits)
    have "same_flow s0 s1 \<and> tm_state s1 = tm_state s0"
      using timely_updates_same_flow(1) [of s0 r] timely_updates_same_flow(2) [OF g] by (simp add: same_flow_def)
    moreover have "same_flow s1 s2 \<and> tm_state s2 = tm_state s1"
      using u timely_updates_same_flow(3) [of "w_now w0" r s1 s2] by (auto simp: same_flow_def split: if_splits)
    ultimately have s2: "same_flow s s2" "tm_state s2 \<noteq> FINISH"
      using s0 act(1) by (auto simp: same_flow_def)
    have q: "seqs_ok 0 s2" "seqs_ok 0 (s2\<lparr>src_last_acked := ack\<rparr>)"
      using assms(2,4,5) s2(1) by (simp_all add: seqs_ok_def same_flow_def)
    have "emits 4 s2 s' bs \<and> src_last_acked s' \<in> {src_last_acked s, ack} \<and> tm_state s' \<noteq> FINISH"
      using b(1) timely_newAck_emits [OF _ q(2), of w0 w' s' bs] timely_dupAck_emits [OF _ q(1), of w0 w' s' bs] s2
      by (auto simp: same_flow_def split: if_splits)
    then show ?thesis using emits_same_flow [OF s2(1), of 4 s' bs] b(2) by (simp add: emits_def)
  qed
qed

section \<open>Timely over a network\<close>

lemma timely_sink_step:
  assumes "p_class p = DataPacket sq t"
  shows "\<exists>w' f' as a. timely_sink_receivePacket w f d p =
      Some (w', f', processDataPacket d sq (p_size p), as) \<and>
    sends as = [a] \<and> p_class a = DataAck 1 (ds_cumulative_ack (processDataPacket d sq (p_size p))) t \<and> p_size a = 40"
proof -
  let ?d = "processDataPacket d sq (p_size p)" and ?f = "f\<lparr>f_nPackets := f_nPackets f - 1\<rparr>"
  obtain a adb g where n: "newDataAck (w_fresh w) (w_ackdb w) ?f (sk_route ?d) 1 (ds_cumulative_ack ?d) = (a, adb, g)"
    by (metis prod_cases3)
  note k = newDataAck_fields [OF n]
  have "p_class (set_ts t a) = DataAck 1 (ds_cumulative_ack ?d) t" "p_size (set_ts t a) = 40"
    using k by (cases "p_class a"; simp add: set_ts_def)+
  then show ?thesis using assms n by (simp add: timely_sink_receivePacket_def pkt_free_def Let_def)
qed

interpretation timely_net: transport timely_doNextEvent timely_receivePacket "\<lambda>s. tm_state s = FINISH"
  timely_sink_receivePacket
proof (unfold_locales, goal_cases)
  case (1 w s w' s' as)
  then show ?case using timely_event_step by blast
next
  case (2 w s p w' s' as x a t)
  then show ?case using timely_receive_step by blast
next
  case 3
  show ?case by simp
next
  case (4 p sq t w f d)
  then show ?case using timely_sink_step [OF 4, of w f d] by auto
next
  case (5 w f d p w' f' d' as sq t)
  then show ?case using timely_sink_step [OF 5(2), of w f d] by auto
next
  case (6 w f d p w' f' d' as sq t)
  then show ?case using timely_sink_step [OF 6(2), of w f d] by auto
qed

text \<open>
  C29: Timely is reliable. In every state that a source and a sink reach over a network that loses,
  delays and reorders packets, all segments below the acknowledged byte have arrived, the source has not
  overtaken the sink's acknowledgement, and a flow without a time limit that is finished has arrived
  completely.
\<close>

theorem timely_reliable:
  assumes "net_reach timely_doNextEvent timely_receivePacket timely_sink_receivePacket s0 d0 s d F B R"
    and "src_highest_sent s0 = 0" "src_last_acked s0 = 0" "tm_state s0 \<noteq> FINISH"
    and "ds_cumulative_ack d0 = 0" "ds_received d0 = []"
  shows "(\<forall>k. k * 1500 < unat (src_last_acked s) \<longrightarrow> k \<in> R) \<and> src_last_acked s \<le> ds_cumulative_ack d \<and>
    (tm_state s = FINISH \<and> src_duration s0 = 0 \<longrightarrow> (\<forall>k. k * 1500 < unat (src_flowsize s0) \<longrightarrow> k \<in> R))"
  using timely_net.reliable [OF assms] .

definition ex_timely_short :: timely_src where
  "ex_timely_short = mkTimelySrc (mkDataSource 7 False 0 0 0 0 0 0) 1000 0"

lemma ex_timely_short_fields:
  "tm_state ex_timely_short = IDLE" "src_highest_sent ex_timely_short = 0" "src_last_acked ex_timely_short = 0"
  "src_flowsize ex_timely_short = 1000" "src_duration ex_timely_short = 0" "tm_dupacks ex_timely_short = 0"
  "tm_rate ex_timely_short = 10000000000"
  by (simp_all add: ex_timely_short_def mkTimelySrc_def mkDataSource_def data_source.defs)

lemma timely_short_start:
  "\<exists>w1 s1 as. timely_doNextEvent ex_world ex_timely_short = Some (w1, s1, as) \<and> sent_seqs as = [1] \<and>
    tm_state s1 = NORMAL \<and> src_flowsize s1 = 1000 \<and> src_last_acked s1 = 0 \<and> src_highest_sent s1 = 1500"
proof -
  let ?s = "timely_start (w_now ex_world) ex_timely_short"
  obtain w1 s1 as where x: "timely_sendPackets ex_world ?s = (w1, s1, as)" by (metis prod_cases3)
  have l: "\<not> timely_flow_sent ?s" "\<not> timely_limited ?s"
    by (simp_all add: timely_flow_sent_def timely_limited_def timely_start_def ex_timely_short_fields MSS_BYTES_def
        word_le_nat_alt)
  note m = timely_sendPackets_spec [OF x]
  have "sent_seqs as = [1]" using m(6) l by (simp add: timely_start_def)
  moreover from this have "length (sends as) = 1" by (simp add: sent_seqs_def map_eq_Cons_conv) auto
  ultimately show ?thesis
    using x m by (auto simp: timely_doNextEvent_def timely_before_def ex_timely_short_fields timely_start_def
        timely_nextTransmission_def MSS_BYTES_def sent_seqs_def)
qed

lemma timely_reliable_witness:
  "\<exists>s d F B R. net_reach timely_doNextEvent timely_receivePacket timely_sink_receivePacket ex_timely_short ex_sink s d F B R \<and>
     tm_state s = FINISH \<and> 0 \<in> R"
proof -
  let ?reach = "net_reach timely_doNextEvent timely_receivePacket timely_sink_receivePacket ex_timely_short ex_sink"
  have z: "net_room ex_timely_short ex_sink" "seqs_ok 0 ex_timely_short"
    by (simp_all add: net_room_def seqs_ok_def ex_timely_short_fields ex_sink_def)
  obtain w1 s1 as where e: "timely_doNextEvent ex_world ex_timely_short = Some (w1, s1, as)" "sent_seqs as = [1]"
      "tm_state s1 = NORMAL" "src_flowsize s1 = 1000" "src_last_acked s1 = 0" "src_highest_sent s1 = 1500"
    using timely_short_start by blast
  obtain f d a x t where r: "?reach (s1\<lparr>src_flow := f\<rparr>) d {#} {#a#} {0}"
      "p_class a = DataAck x 1500 t" "ds_cumulative_ack d = 1500"
    using timely_net.deliver_first [OF z(1) e(1,2) z(2)] by (auto simp: ex_sink_def)
  let ?s = "s1\<lparr>src_flow := f\<rparr>"
  obtain w2 s2 bs where fin: "timely_receivePacket ex_world ?s a = Some (w2, s2, bs)" "tm_state s2 = FINISH"
    using r(2) e(3,4)
    by (auto simp: timely_receivePacket_def source_free_ack_eq timely_flow_done_def timely_finish_def
        word_le_nat_alt word_less_nat_alt)
  have "net_room ?s d" using e(5,6) r(3) by (simp add: net_room_def)
  then obtain F B R where run: "?reach s2 d F B R"
    using net_reach.ack [OF r(1) _ _ fin(1)] by auto
  have "unat (src_flowsize ex_timely_short) = 1000" by (simp add: ex_timely_short_fields)
  then have "0 \<in> R"
    using timely_reliable [OF run] fin(2) by (simp add: ex_timely_short_fields ex_sink_def)
  then show ?thesis using run fin(2) by blast
qed

end
