(* ===== verification/PacketPairSend.thy ===== *)
theory PacketPairSend
  imports PacketPair
begin

text \<open>
  What \<open>PacketPairSrc\<close> sends and what \<open>PacketPairSink\<close> answers: one lemma per operation.
\<close>

section \<open>Sending\<close>

lemma pp_arm_fields [simp]:
  "src_last_acked (pp_arm w s) = src_last_acked s" "src_highest_sent (pp_arm w s) = src_highest_sent s"
  "pp_state (pp_arm w s) = pp_state s" "pp_rate_estimate (pp_arm w s) = pp_rate_estimate s"
  "pp_first_rto (pp_arm w s) = pp_first_rto s" "pp_rto (pp_arm w s) = pp_rto s"
  "src_flowsize (pp_arm w s) = src_flowsize s" "src_flow (pp_arm w s) = src_flow s"
  "src_route_fwd (pp_arm w s) = src_route_fwd s" "src_duration (pp_arm w s) = src_duration s"
  "src_start_time (pp_arm w s) = src_start_time s" "pp_dupacks (pp_arm w s) = pp_dupacks s"
  "pp_bdp_estimate (pp_arm w s) = pp_bdp_estimate s"
  by (simp_all add: pp_arm_def)

text \<open>The sender after one more segment.\<close>

definition pp_sent :: "pp_src \<Rightarrow> pp_src" where
  "pp_sent s = s\<lparr>src_highest_sent := src_highest_sent s + MSS64,
     src_packets_sent := src_packets_sent s + MSS64,
     src_flow := (src_flow s)\<lparr>f_nPackets := f_nPackets (src_flow s) + 1\<rparr>\<rparr>"

lemma pp_sent_fields [simp]:
  "src_highest_sent (pp_sent s) = src_highest_sent s + MSS64"
  "src_last_acked (pp_sent s) = src_last_acked s" "pp_state (pp_sent s) = pp_state s"
  "pp_rate_estimate (pp_sent s) = pp_rate_estimate s" "pp_first_rto (pp_sent s) = pp_first_rto s"
  "pp_rto (pp_sent s) = pp_rto s" "src_flowsize (pp_sent s) = src_flowsize s"
  "src_duration (pp_sent s) = src_duration s" "src_start_time (pp_sent s) = src_start_time s"
  by (simp_all add: pp_sent_def)

lemma pp_sendOne_spec:
  assumes "pp_sendOne f w s = (w', s', as)"
  shows "\<exists>p q. as = [Traffic PKT_CREATESEND q, SendOn p] \<and> s' = pp_sent s \<and> w_now w' = w_now w \<and>
    p_class p = DataPacket (src_highest_sent s + 1) (w_now w) \<and> own_segment w s p \<and>
    (getFlag PP_FIRST p \<noteq> 0 \<longleftrightarrow> f)"
proof -
  obtain q w1 s1 where n: "source_newpkt (src_highest_sent s + 1) MSS_BYTES w s = (q, w1, s1)"
    by (cases "source_newpkt (src_highest_sent s + 1) MSS_BYTES w s") auto
  note f = fresh_segment [OF n]
  define p where "p = (if f then setFlag PP_FIRST (set_ts (w_now w) q) else set_ts (w_now w) q)"
  have fl: "p_flags q = 0"
    using n by (auto simp: source_newpkt_def newDataPacket_def packet_set_def unsetFlag_def Let_def
        split: prod.splits)
  then have g: "getFlag PP_FIRST p \<noteq> 0 \<longleftrightarrow> f"
    by (auto simp: p_def getFlag_setFlag) (simp add: getFlag_def set_ts_def)
  have "p_class p = DataPacket (src_highest_sent s + 1) (w_now w)" "own_segment w s p"
    using f(2,3) by (simp_all add: p_def own_segment_def)
  moreover have "as = [Traffic PKT_CREATESEND q, SendOn p]" "s' = pp_sent s" "w_now w' = w_now w"
    using assms n f(1,4) by (auto simp: pp_sendOne_def Let_def p_def pp_sent_def)
  ultimately show ?thesis using g by blast
qed

text \<open>The sequence numbers of a pair and the sender after it.\<close>

definition pp_pair_seqs :: "pp_src \<Rightarrow> u64 list" where
  "pp_pair_seqs s =
     (if pp_flow_sent s \<or> pp_limited s then []
      else if pp_flow_sent (pp_sent s) then [src_highest_sent s + 1]
      else [src_highest_sent s + 1, src_highest_sent s + MSS64 + 1])"

lemma pp_flow_sent_cong:
  "src_highest_sent s' = src_highest_sent s \<Longrightarrow> src_flowsize s' = src_flowsize s \<Longrightarrow>
     pp_flow_sent s' = pp_flow_sent s"
  by (simp add: pp_flow_sent_def)

lemma pp_transmit_spec:
  assumes "pp_transmitPacketPair w s = (w', s', as)"
  shows "sent_seqs as = pp_pair_seqs s" "scheds as = []" "w_now w' = w_now w"
    "pp_state s' = pp_state s" "pp_rate_estimate s' = pp_rate_estimate s" "pp_first_rto s' = pp_first_rto s"
    "src_last_acked s' = src_last_acked s" "pp_rto s' = pp_rto s" "src_flowsize s' = src_flowsize s"
    "src_duration s' = src_duration s" "src_start_time s' = src_start_time s"
    "\<forall>p \<in> set (sends as). p_size p = MSS64 \<and> p_flow p = f_id (src_flow s)"
    "map (\<lambda>p. getFlag PP_FIRST p \<noteq> 0) (sends as) = take (length (sends as)) [True, False]"
    "src_highest_sent s' = src_highest_sent s + of_nat (length (sends as)) * MSS64"
proof -
  obtain w1 s1 as1 where a: "pp_sendOne True w s = (w1, s1, as1)" by (metis prod_cases3)
  obtain p1 q1 where one: "as1 = [Traffic PKT_CREATESEND q1, SendOn p1]" "s1 = pp_sent s" "w_now w1 = w_now w"
    "p_class p1 = DataPacket (src_highest_sent s + 1) (w_now w)" "own_segment w s p1" "getFlag PP_FIRST p1 \<noteq> 0"
    using pp_sendOne_spec [OF a] by auto
  let ?s = "pp_arm w1 s1"
  obtain w2 s2 as2 where b: "pp_sendOne False w1 ?s = (w2, s2, as2)" by (metis prod_cases3)
  obtain p2 q2 where two: "as2 = [Traffic PKT_CREATESEND q2, SendOn p2]" "s2 = pp_sent ?s" "w_now w2 = w_now w1"
    "p_class p2 = DataPacket (src_highest_sent ?s + 1) (w_now w1)" "own_segment w1 ?s p2" "getFlag PP_FIRST p2 = 0"
    using pp_sendOne_spec [OF b] by auto
  have fs: "pp_flow_sent ?s = pp_flow_sent (pp_sent s)"
    unfolding one(2) by (rule pp_flow_sent_cong) simp_all
  have e: "(w', s', as) = (if pp_flow_sent s \<or> pp_limited s then (w, s, [])
      else if pp_flow_sent (pp_sent s) then (w1, ?s, as1) else (w2, s2, as1 @ as2))"
    unfolding assms [symmetric] pp_transmitPacketPair_def using a b fs by simp
  have sg: "p_size p1 = MSS64" "p_flow p1 = f_id (src_flow s)" "p_size p2 = MSS64" "p_flow p2 = f_id (src_flow s)"
    using one(2,5) two(5) by (simp_all add: own_segment_def pp_sent_def)
  consider "pp_flow_sent s \<or> pp_limited s" | "\<not> (pp_flow_sent s \<or> pp_limited s)" "pp_flow_sent (pp_sent s)"
    | "\<not> (pp_flow_sent s \<or> pp_limited s)" "\<not> pp_flow_sent (pp_sent s)" by blast
  then have "sent_seqs as = pp_pair_seqs s \<and> scheds as = [] \<and> w_now w' = w_now w \<and>
    pp_state s' = pp_state s \<and> pp_rate_estimate s' = pp_rate_estimate s \<and> pp_first_rto s' = pp_first_rto s \<and>
    src_last_acked s' = src_last_acked s \<and> pp_rto s' = pp_rto s \<and> src_flowsize s' = src_flowsize s \<and>
    src_duration s' = src_duration s \<and> src_start_time s' = src_start_time s \<and>
    (\<forall>p \<in> set (sends as). p_size p = MSS64 \<and> p_flow p = f_id (src_flow s)) \<and>
    map (\<lambda>p. getFlag PP_FIRST p \<noteq> 0) (sends as) = take (length (sends as)) [True, False] \<and>
    src_highest_sent s' = src_highest_sent s + of_nat (length (sends as)) * MSS64"
  proof cases
    case 1
    then show ?thesis using e by (auto simp: pp_pair_seqs_def)
  next
    case 2
    then have "w' = w1 \<and> s' = ?s \<and> as = as1" using e by auto
    then show ?thesis using 2 one sg by (auto simp: pp_pair_seqs_def)
  next
    case 3
    then have "w' = w2 \<and> s' = s2 \<and> as = as1 @ as2" using e by auto
    then show ?thesis using 3 one two sg by (auto simp: pp_pair_seqs_def)
  qed
  then show "sent_seqs as = pp_pair_seqs s" "scheds as = []" "w_now w' = w_now w"
    "pp_state s' = pp_state s" "pp_rate_estimate s' = pp_rate_estimate s" "pp_first_rto s' = pp_first_rto s"
    "src_last_acked s' = src_last_acked s" "pp_rto s' = pp_rto s" "src_flowsize s' = src_flowsize s"
    "src_duration s' = src_duration s" "src_start_time s' = src_start_time s"
    "\<forall>p \<in> set (sends as). p_size p = MSS64 \<and> p_flow p = f_id (src_flow s)"
    "map (\<lambda>p. getFlag PP_FIRST p \<noteq> 0) (sends as) = take (length (sends as)) [True, False]"
    "src_highest_sent s' = src_highest_sent s + of_nat (length (sends as)) * MSS64"
    by blast+
qed

lemma pp_sendOne_class:
  "pp_sendOne f w s = (w', s', as) \<Longrightarrow> p \<in> set (sends as) \<Longrightarrow> \<exists>a b. p_class p = DataPacket a b"
  using pp_sendOne_spec [of f w s w' s' as] by auto

lemma pp_transmit_class:
  assumes "pp_transmitPacketPair w s = (w', s', as)" "p \<in> set (sends as)"
  shows "\<exists>a. p_class p = DataPacket (seqno (p_class p)) a"
proof -
  obtain w1 s1 as1 where a: "pp_sendOne True w s = (w1, s1, as1)" by (metis prod_cases3)
  obtain w2 s2 as2 where b: "pp_sendOne False w1 (pp_arm w1 s1) = (w2, s2, as2)" by (metis prod_cases3)
  have "set (sends as) \<subseteq> set (sends as1) \<union> set (sends as2)"
    using assms(1) a b by (auto simp: pp_transmitPacketPair_def Let_def split: if_splits)
  then show ?thesis using assms(2) pp_sendOne_class [OF a] pp_sendOne_class [OF b] by fastforce
qed

lemma pp_retransmit_spec:
  assumes "pp_retransmitPacket w s = (w', s', as)"
  shows "w_now w' = w_now w" "sent_seqs as = [src_last_acked s + 1]" "scheds as = []"
    "pp_state s' = pp_state s" "pp_rate_estimate s' = pp_rate_estimate s" "pp_first_rto s' = pp_first_rto s"
    "src_last_acked s' = src_last_acked s" "\<forall>p \<in> set (sends as). own_segment w s p"
    "src_flowsize s' = src_flowsize s" "src_duration s' = src_duration s"
    "src_highest_sent s' = (if src_last_acked s = src_highest_sent s
      then src_highest_sent s + MSS64 else src_highest_sent s)"
proof -
  obtain p w1 s1 where n: "source_newpkt (src_last_acked s + 1) MSS_BYTES w s = (p, w1, s1)"
    by (cases "source_newpkt (src_last_acked s + 1) MSS_BYTES w s") auto
  note f = fresh_segment [OF n]
  show "w_now w' = w_now w" "sent_seqs as = [src_last_acked s + 1]" "scheds as = []"
    "pp_state s' = pp_state s" "pp_rate_estimate s' = pp_rate_estimate s" "pp_first_rto s' = pp_first_rto s"
    "src_last_acked s' = src_last_acked s" "\<forall>p \<in> set (sends as). own_segment w s p"
    "src_flowsize s' = src_flowsize s" "src_duration s' = src_duration s"
    "src_highest_sent s' = (if src_last_acked s = src_highest_sent s
      then src_highest_sent s + MSS64 else src_highest_sent s)"
    using assms n f by (auto simp: pp_retransmitPacket_def Let_def)
qed

section \<open>The sink\<close>

lemma processDataPacket_pair:
  "pk_pktpairdiff (processDataPacket d sq sz) = pk_pktpairdiff d"
  "pk_first_pair_ts (processDataPacket d sq sz) = pk_first_pair_ts d"
  "pk_first_pair_seqno (processDataPacket d sq sz) = pk_first_pair_seqno d"
  by (simp_all add: processDataPacket_def Let_def split: prod.split)

lemma pp_sink_spec:
  assumes "pp_sink_receivePacket v f d q = Some (u, f', d', as)" "p_class q = DataPacket sq t"
  shows "d' = pp_sink_measure (w_now v) (getFlag PP_FIRST q \<noteq> 0) sq (processDataPacket d sq (p_size q))"
    "sent_seqs as = [pk_pktpairdiff d']"
proof -
  let ?d = "pp_sink_measure (w_now v) (getFlag PP_FIRST q \<noteq> 0) sq (processDataPacket d sq (p_size q))"
  obtain a adb fl where n: "newDataAck (w_fresh v) (w_ackdb v) (f\<lparr>f_nPackets := f_nPackets f - 1\<rparr>) (sk_route ?d)
      (pk_pktpairdiff ?d) (ds_cumulative_ack ?d) = (a, adb, fl)"
    by (metis prod_cases3)
  have c: "p_class a = DataAck (pk_pktpairdiff ?d) (ds_cumulative_ack ?d) (ts (p_class a))"
    using n by (auto simp: newDataAck_def Let_def split: prod.splits)
  then have s: "seqno (p_class (set_ts t a)) = pk_pktpairdiff ?d"
    by (cases "p_class a") (auto simp: set_ts_def)
  show d: "d' = ?d" and "sent_seqs as = [pk_pktpairdiff d']"
    using assms n s by (auto simp: pp_sink_receivePacket_def pkt_free_def Let_def)
qed

lemma pp_sink_total:
  assumes "p_class q = DataPacket sq t"
  shows "\<exists>u f' d' as. pp_sink_receivePacket v f d q = Some (u, f', d', as)"
proof -
  let ?d = "pp_sink_measure (w_now v) (getFlag PP_FIRST q \<noteq> 0) sq (processDataPacket d sq (p_size q))"
  obtain a adb fl where "newDataAck (w_fresh v) (w_ackdb v) (f\<lparr>f_nPackets := f_nPackets f - 1\<rparr>) (sk_route ?d)
      (pk_pktpairdiff ?d) (ds_cumulative_ack ?d) = (a, adb, fl)"
    by (metis prod_cases3)
  then show ?thesis using assms by (simp add: pp_sink_receivePacket_def pkt_free_def Let_def)
qed

end
