(* ===== verification/PacketPairSteps.thy ===== *)
theory PacketPairSteps
  imports PacketPairSend TcpInv
begin

text \<open>
  The arithmetic of the estimates of \<open>PacketPairSrc\<close>, the invariant they keep and what each part
  of the handler of acknowledgements changes.
\<close>

section \<open>The estimates\<close>

text \<open>The moving average of the distances is the rounded mean.\<close>

lemma pp_ewma_eq:
  assumes "unat old \<le> 1000000000000000" "unat gap \<le> 1000000000000000"
  shows "unat (pp_ewma old gap) = (unat old + unat gap + 1) div 2"
proof -
  define a where "a = unat old"
  define b where "b = unat gap"
  have ab: "a \<le> 1000000000000000" "b \<le> 1000000000000000" using assms by (simp_all add: a_def b_def)
  have n: "ldbl (of_nat a) = of_nat a" "ldbl (of_nat b) = of_nat b"
    using ab by (intro ldbl_of_nat; simp)+
  have h: "ldbl (of_nat k / 2) = of_nat k / 2" if "k \<le> 2000000000000000" for k
    using ldbl_dyadic [of "int k" 1] that by simp
  have s: "ldbl (of_nat a / 2 + of_nat b / 2) = of_nat (a + b) / 2"
    using h [of "a + b"] ab by (simp add: add_divide_distrib)
  define q where "q = (a + b + 1) div 2"
  have q: "2 * q \<le> a + b + 1" "a + b \<le> 2 * q" by (simp_all add: q_def)
  have "(of_nat (2 * q) :: rat) \<le> of_nat (a + b + 1)" "(of_nat (a + b) :: rat) \<le> of_nat (2 * q)"
    unfolding of_nat_le_iff by (rule q)+
  then have "(of_int (int q) :: rat) \<le> of_nat (a + b) / 2 + 1 / 2" "(of_nat (a + b) :: rat) / 2 + 1 / 2 < of_int (int q) + 1"
    by (simp_all add: field_simps)
  then have "\<lfloor>(of_nat (a + b) :: rat) / 2 + 1 / 2\<rfloor> = int q" by (intro floor_unique) simp_all
  then have r: "llround (of_nat (a + b) / 2) = int q" by (simp add: llround_def)
  have "pp_ewma old gap = word_of_int (llround (ldbl (of_nat a / 2 + of_nat b / 2)))"
    unfolding pp_ewma_def PKTPAIR_GAIN_def a_def [symmetric] b_def [symmetric] n
    using ab by (simp add: h del: of_nat_add)
  then have "pp_ewma old gap = word_of_int (int q)" unfolding s r .
  then show ?thesis using ab unat_word_of_int_64 [of "int q"] by (simp add: q_def flip: a_def b_def)
qed

lemma timeFromSec_1: "timeFromSec 1 = 1000000000000"
  using dbl_of_int [of 1000000000000] llround_of_int [of 1000000000000] by (simp add: timeFromSec_def)

lemma pp_rate_some:
  assumes "gap \<noteq> 0" "unat gap \<le> 1000000000000000"
  shows "\<exists>r. pp_rate gap = Some r \<and> 12 \<le> unat r \<and> unat r \<le> 12000000000000000"
proof -
  have g: "1 \<le> unat gap" using assms(1) by (simp add: unat_gt_0 Suc_leI)
  have u: "unat (12000000000000000 div gap) = 12000000000000000 div unat gap" by (simp add: unat_div)
  have "12 * unat gap \<le> 12000000000000000" using assms(2) by simp
  then have "12 \<le> 12000000000000000 div unat gap"
    using div_le_mono [of "12 * unat gap" 12000000000000000 "unat gap"] g by simp
  moreover have "12000000000000000 div unat gap \<le> 12000000000000000" by simp
  moreover have "pp_rate gap = Some (12000000000000000 div gap)"
    using assms(1) by (simp add: pp_rate_def timeFromSec_1 MSS_BYTES_def)
  ultimately show ?thesis using u by simp
qed

lemma timeAsSec_le_1000:
  assumes "unat t \<le> 1000000000000000"
  shows "0 \<le> timeAsSec t" "timeAsSec t \<le> 1000"
proof -
  have "(of_nat (unat t) :: rat) \<le> of_nat 1000000000000000" unfolding of_nat_le_iff by (rule assms)
  then have "of_nat (unat t) / 1000000000000 \<le> (of_int 1000 :: rat)" by simp
  then have "ldbl (of_nat (unat t) / 1000000000000) \<le> of_int 1000" by (rule ldbl_le_int) simp
  then have "timeAsSec t \<le> of_int 1000" unfolding timeAsSec_def by (rule dbl_le_int) simp
  then show "timeAsSec t \<le> 1000" by simp
  have "(0 :: rat) \<le> of_nat (unat t) / 1000000000000" by (intro divide_nonneg_pos of_nat_0_le_iff) simp
  then show "0 \<le> timeAsSec t" unfolding timeAsSec_def by (intro dbl_nonneg ldbl_nonneg)
qed

lemma pp_bdp_some:
  assumes "unat r \<le> 12000000000000000" "unat t \<le> 1000000000000000"
  shows "\<exists>b. pp_bdp r t = Some b \<and> 3000 \<le> unat b"
proof -
  note t = timeAsSec_le_1000 [OF assms(2)]
  have "(of_nat (unat r) :: rat) \<le> of_nat 12000000000000000" unfolding of_nat_le_iff by (rule assms)
  then have "dbl (of_nat (unat r)) \<le> 12000000000000000" by (intro dbl_le_12e15) simp
  moreover have d0: "0 \<le> dbl (of_nat (unat r))" by (intro dbl_nonneg of_nat_0_le_iff)
  ultimately have "dbl (of_nat (unat r)) * timeAsSec t \<le> 12000000000000000 * 1000"
    using t by (intro mult_mono) simp_all
  then have "dbl (dbl (of_nat (unat r)) * timeAsSec t) \<le> 2 ^ 64" by (intro dbl_le_power) simp
  then have x: "dbl (dbl (dbl (of_nat (unat r)) * timeAsSec t) / 8) \<le> 2 ^ 61" by (intro dbl_le_power) simp
  have nn: "0 \<le> dbl (dbl (dbl (of_nat (unat r)) * timeAsSec t) / 8)"
    using t(1) d0 by (simp add: dbl_nonneg)
  have "trunc_rat (dbl (dbl (dbl (of_nat (unat r)) * timeAsSec t) / 8)) \<le> 2 ^ 61"
    by (rule trunc_le [OF nn]) (use x in simp)
  then show ?thesis by (auto simp: pp_bdp_def Let_def MSS_BYTES_def word_less_nat_alt not_less)
qed

lemma pp_cut_range:
  assumes "12 \<le> unat r" "unat r \<le> 12000000000000000" "0 \<le> al" "al \<le> 1"
  shows "word_of_int (llround (dbl (dbl (of_nat (unat r)) * dbl (1 - dbl (al / 2))))) \<noteq> (0 :: u64)"
proof -
  have "(of_nat 12 :: rat) \<le> of_nat (unat r)" "(of_nat (unat r) :: rat) \<le> of_nat 12000000000000000"
    unfolding of_nat_le_iff by (rule assms)+
  then have r: "12 \<le> dbl (of_nat (unat r))" "dbl (of_nat (unat r)) \<le> 12000000000000000"
    using dbl_ge_int [of 12 "of_nat (unat r)"] dbl_le_12e15 by simp_all
  have h: "0 \<le> dbl (al / 2)" "dbl (al / 2) \<le> 1 / 2"
    using assms(3,4) dbl_le_dyadic [of "al / 2" 1 1] by (simp_all add: dbl_nonneg)
  have f: "1 / 2 \<le> dbl (1 - dbl (al / 2))" "dbl (1 - dbl (al / 2)) \<le> 1"
    using h dbl_ge_dyadic [of 1 1 "1 - dbl (al / 2)"] dbl_le_int [of "1 - dbl (al / 2)" 1] by simp_all
  have "12 * (1 / 2) \<le> dbl (of_nat (unat r)) * dbl (1 - dbl (al / 2))"
    using r f by (intro mult_mono) simp_all
  then have lo: "6 \<le> dbl (dbl (of_nat (unat r)) * dbl (1 - dbl (al / 2)))"
    using dbl_ge_int [of 6 "dbl (of_nat (unat r)) * dbl (1 - dbl (al / 2))"] by simp
  have "dbl (of_nat (unat r)) * dbl (1 - dbl (al / 2)) \<le> 12000000000000000 * 1"
    using r f by (intro mult_mono) simp_all
  then have hi: "dbl (dbl (of_nat (unat r)) * dbl (1 - dbl (al / 2))) \<le> 12000000000000000"
    by (intro dbl_le_12e15) simp
  define k where "k = llround (dbl (dbl (of_nat (unat r)) * dbl (1 - dbl (al / 2))))"
  have k: "6 \<le> k" "k \<le> 12000000000000000"
    unfolding k_def using lo hi by (intro llround_ge_int llround_le_int; simp)+
  then have "unat (word_of_int k :: u64) = nat k" by (intro unat_word_of_int_64) simp_all
  then have "unat (word_of_int k :: u64) \<noteq> 0" using k by simp
  then show ?thesis unfolding k_def by (metis unat_0)
qed

lemma pp_nextTransmission_some: "rate \<noteq> 0 \<Longrightarrow> \<exists>t. pp_nextTransmission rate = Some t"
  by (simp add: pp_nextTransmission_def)

lemma pp_sendPackets_spec:
  assumes "pp_rate_estimate s \<noteq> 0"
  shows "\<exists>w' s' as t. pp_sendPackets w s = Some (w', s', as @ [SchedRel t]) \<and>
    pp_transmitPacketPair w s = (w', s', as)"
proof -
  obtain w' s' as where t: "pp_transmitPacketPair w s = (w', s', as)" by (metis prod_cases3)
  then show ?thesis
    using pp_nextTransmission_some [OF assms] pp_transmit_spec(5) [OF t] by (auto simp: pp_sendPackets_def)
qed

lemma pp_before_spec:
  assumes "pp_before w s = (w', s', as)"
  shows "pp_first_rto s' = pp_first_rto s \<and> w_now w' = w_now w \<and> scheds as = [] \<and>
    pp_rate_estimate s' = pp_rate_estimate s \<and> (pp_state s' = FINISH \<longleftrightarrow> pp_state s = FINISH) \<and>
    (pp_rto_timeout s = 0 \<or> w_now w < pp_rto_timeout s \<longrightarrow> s' = s \<and> as = [])"
proof (cases "pp_state s \<noteq> FINISH \<and> pp_rto_timeout s \<noteq> 0 \<and> w_now w \<ge> pp_rto_timeout s")
  case True
  then have r: "pp_retransmitPacket w (pp_timeout (w_now w) s) = (w', s', as)"
    using assms by (simp add: pp_before_def)
  show ?thesis using pp_retransmit_spec [OF r] True by (auto simp: pp_timeout_def Let_def)
next
  case False
  then have "(w, s, []) = (w', s', as)" using assms unfolding pp_before_def by (simp only: if_False)
  then show ?thesis by auto
qed

section \<open>The invariant\<close>

text \<open>What the estimates rely on: the fraction of marks, the distance and, once known, the rate.\<close>

definition pp_inv :: "pp_src \<Rightarrow> bool" where
  "pp_inv s \<longleftrightarrow> 0 \<le> pp_alpha s \<and> pp_alpha s \<le> 1 \<and> pp_marked_pkts s \<le> pp_total_pkts s \<and>
     unat (pp_pktpair_ewma s) \<le> 1000000000000000"

text \<open>The part of the state the invariant and the estimates are about.\<close>

definition pp_same_estimates :: "pp_src \<Rightarrow> pp_src \<Rightarrow> bool" where
  "pp_same_estimates s s' \<longleftrightarrow> pp_alpha s' = pp_alpha s \<and> pp_marked_pkts s' = pp_marked_pkts s \<and>
     pp_total_pkts s' = pp_total_pkts s \<and> pp_pktpair_ewma s' = pp_pktpair_ewma s \<and>
     pp_rate_estimate s' = pp_rate_estimate s \<and> pp_bdp_estimate s' = pp_bdp_estimate s"

lemma pp_same_estimates_inv: "pp_same_estimates s s' \<Longrightarrow> pp_inv s \<Longrightarrow> pp_inv s'"
  by (simp add: pp_same_estimates_def pp_inv_def)

lemma pp_same_estimates_trans:
  "pp_same_estimates s t \<Longrightarrow> pp_same_estimates t u \<Longrightarrow> pp_same_estimates s u"
  by (simp add: pp_same_estimates_def)

lemma pp_same_estimates_send:
  "pp_same_estimates s (pp_arm w s)" "pp_same_estimates s (pp_sent s)"
  by (simp_all add: pp_same_estimates_def pp_arm_def pp_sent_def)

lemma pp_transmit_same:
  assumes "pp_transmitPacketPair w s = (w', s', as)"
  shows "pp_same_estimates s s'"
proof -
  obtain w1 s1 as1 where a: "pp_sendOne True w s = (w1, s1, as1)" by (metis prod_cases3)
  obtain w2 s2 as2 where b: "pp_sendOne False w1 (pp_arm w1 s1) = (w2, s2, as2)" by (metis prod_cases3)
  have s: "s1 = pp_sent s" "s2 = pp_sent (pp_arm w1 s1)"
    using pp_sendOne_spec [OF a] pp_sendOne_spec [OF b] by auto
  have "s' = s \<or> s' = pp_arm w1 s1 \<or> s' = s2"
    using assms a b by (auto simp: pp_transmitPacketPair_def Let_def split: if_splits)
  moreover have "pp_same_estimates s s" by (simp add: pp_same_estimates_def)
  moreover have "pp_same_estimates s (pp_arm w1 s1)" "pp_same_estimates s s2"
    unfolding s by (meson pp_same_estimates_send pp_same_estimates_trans)+
  ultimately show ?thesis by auto
qed

lemma pp_retransmit_same:
  assumes "pp_retransmitPacket w s = (w', s', as)"
  shows "pp_same_estimates s s'"
proof -
  obtain p w1 s1 where n: "source_newpkt (src_last_acked s + 1) MSS_BYTES w s = (p, w1, s1)"
    by (cases "source_newpkt (src_last_acked s + 1) MSS_BYTES w s") auto
  show ?thesis
    using assms n fresh_segment(4) [OF n]
    by (auto simp: pp_retransmitPacket_def Let_def pp_same_estimates_def pp_arm_def)
qed

section \<open>Acknowledgements\<close>

lemma pp_updateRtt_fields [simp]:
  "src_last_acked (pp_updateRtt r s) = src_last_acked s" "pp_state (pp_updateRtt r s) = pp_state s"
  "pp_same_estimates s (pp_updateRtt r s)" "pp_rate_estimate (pp_updateRtt r s) = pp_rate_estimate s"
  "pp_total_pkts (pp_updateRtt r s) = pp_total_pkts s"
  "pp_min_rtt (pp_updateRtt r s) = (if r < pp_min_rtt s then r else pp_min_rtt s)"
  by (auto simp: pp_updateRtt_def Let_def pp_same_estimates_def)

lemma pp_updateAlpha_spec:
  assumes "pp_inv s" "unat (pp_total_pkts s) < 2 ^ 31"
  shows "pp_inv (pp_updateAlpha m s)" "src_last_acked (pp_updateAlpha m s) = src_last_acked s"
    "pp_state (pp_updateAlpha m s) = pp_state s" "pp_min_rtt (pp_updateAlpha m s) = pp_min_rtt s"
    "pp_rate_estimate (pp_updateAlpha m s) = pp_rate_estimate s"
proof -
  define k where "k = (if m then pp_marked_pkts s + 1 else pp_marked_pkts s)"
  have t: "unat (pp_total_pkts s + 1) = unat (pp_total_pkts s) + 1"
    using assms(2) unat_add_32 [of "pp_total_pkts s" 1] by simp
  have ms: "unat (pp_marked_pkts s) \<le> unat (pp_total_pkts s)"
    using assms(1) by (simp add: pp_inv_def word_le_nat_alt)
  then have "unat (pp_marked_pkts s + 1) = unat (pp_marked_pkts s) + 1"
    using assms(2) unat_add_32 [of "pp_marked_pkts s" 1] by simp
  then have k: "k \<le> pp_total_pkts s + 1" using ms t by (simp add: k_def word_le_nat_alt)
  have e: "pp_updateAlpha m s =
      (if ucast ((pp_total_pkts s + 1) * MSS32) > pp_bdp_estimate s
       then s\<lparr>pp_marked_pkts := 0, pp_total_pkts := 0, pp_alpha := dctcp_alpha (pp_alpha s) k (pp_total_pkts s + 1)\<rparr>
       else s\<lparr>pp_marked_pkts := k, pp_total_pkts := pp_total_pkts s + 1\<rparr>)"
    by (simp add: pp_updateAlpha_def Let_def k_def)
  show "pp_inv (pp_updateAlpha m s)"
    unfolding e using assms(1) k dctcp_alpha_range [OF _ _ k, of "pp_alpha s"] by (simp add: pp_inv_def)
  show "src_last_acked (pp_updateAlpha m s) = src_last_acked s"
    "pp_state (pp_updateAlpha m s) = pp_state s" "pp_min_rtt (pp_updateAlpha m s) = pp_min_rtt s"
    "pp_rate_estimate (pp_updateAlpha m s) = pp_rate_estimate s"
    unfolding e by simp_all
qed

lemma pp_estimate_some:
  assumes "gap \<noteq> 0" "unat gap \<le> 1000000000000000" "unat (pp_min_rtt s) \<le> 1000000000000000"
  shows "\<exists>r b. pp_estimate gap s = Some (s\<lparr>pp_rate_estimate := r, pp_bdp_estimate := b\<rparr>) \<and>
    12 \<le> unat r \<and> unat r \<le> 12000000000000000 \<and> 3000 \<le> unat b"
proof -
  obtain r where r: "pp_rate gap = Some r" "12 \<le> unat r" "unat r \<le> 12000000000000000"
    using pp_rate_some [OF assms(1,2)] by blast
  obtain b where b: "pp_bdp r (pp_min_rtt s) = Some b" "3000 \<le> unat b"
    using pp_bdp_some [OF r(3) assms(3)] by blast
  show ?thesis using r b by (intro exI [of _ r] exI [of _ b]) (simp add: pp_estimate_def)
qed

lemma pp_updatePair_some:
  assumes "pp_inv s" "gap \<noteq> 0" "unat gap \<le> 1000000000000000" "unat (pp_min_rtt s) \<le> 1000000000000000"
  shows "\<exists>e r b. pp_updatePair gap s =
      Some (s\<lparr>pp_pktpair_ewma := e, pp_rate_estimate := r, pp_bdp_estimate := b\<rparr>) \<and>
    unat e \<le> 1000000000000000 \<and> r \<noteq> 0 \<and> 3000 \<le> unat b"
proof -
  define e where "e = pp_ewma (pp_pktpair_ewma s) gap"
  have u: "unat e = (unat (pp_pktpair_ewma s) + unat gap + 1) div 2"
    using pp_ewma_eq [OF _ assms(3)] assms(1) by (simp add: e_def pp_inv_def)
  have g: "1 \<le> unat gap" using assms(2) by (simp add: unat_gt_0 Suc_leI)
  have "unat (pp_pktpair_ewma s) \<le> 1000000000000000" using assms(1) by (simp add: pp_inv_def)
  then have el: "unat e \<le> 1000000000000000" unfolding u using assms(3) by linarith
  have "unat e \<noteq> 0" using g by (simp add: u)
  then have e0: "e \<noteq> 0" by auto
  obtain r b where r: "pp_estimate e (s\<lparr>pp_pktpair_ewma := e\<rparr>) =
      Some (s\<lparr>pp_pktpair_ewma := e, pp_rate_estimate := r, pp_bdp_estimate := b\<rparr>)"
      "12 \<le> unat r" "unat r \<le> 12000000000000000" "3000 \<le> unat b"
    using pp_estimate_some [OF e0 el, of "s\<lparr>pp_pktpair_ewma := e\<rparr>"] assms(4) by auto
  have c: "word_of_int (llround (dbl (dbl (of_nat (unat r)) * dbl (1 - dbl (pp_alpha s / 2))))) \<noteq> (0 :: u64)"
    using pp_cut_range [OF r(2,3)] assms(1) by (simp add: pp_inv_def)
  show ?thesis
    using e0 el r(1,4) c
    by (intro exI [of _ e] exI [of _ "word_of_int (llround (dbl (dbl (of_nat (unat r)) * dbl (1 - dbl (pp_alpha s / 2)))))"]
        exI [of _ b]) (simp add: pp_updatePair_def flip: e_def)
qed

text \<open>The whole measurement of a packet; a source that is starting sends the next pair.\<close>

lemma pp_measurePair_some:
  assumes "pp_inv s" "unat gap \<le> 1000000000000000" "unat (pp_min_rtt s) \<le> 1000000000000000"
  shows "\<exists>w' s' as. pp_measurePair w gap r s = Some (w', s', as) \<and> pp_inv s' \<and>
    src_last_acked s' = src_last_acked s \<and>
    length (scheds as) = (if gap \<noteq> 0 \<and> pp_state s = STARTUP then 1 else 0) \<and>
    pp_state s' = (if gap \<noteq> 0 \<and> pp_state s = STARTUP then NORMAL else pp_state s) \<and>
    (gap \<noteq> 0 \<longrightarrow> pp_rate_estimate s' \<noteq> 0 \<and> 3000 \<le> unat (pp_bdp_estimate s'))"
proof (cases "gap = 0")
  case True
  then show ?thesis using assms(1) by (simp add: pp_measurePair_def pp_inv_def)
next
  case gap: False
  obtain e r1 b1 where u: "pp_updatePair gap s =
      Some (s\<lparr>pp_pktpair_ewma := e, pp_rate_estimate := r1, pp_bdp_estimate := b1\<rparr>)" (is "_ = Some ?s1")
      "unat e \<le> 1000000000000000" "r1 \<noteq> 0" "3000 \<le> unat b1"
    using pp_updatePair_some [OF assms(1) gap assms(2,3)] by blast
  show ?thesis
  proof (cases "pp_state s = STARTUP")
    case False
    then show ?thesis using gap u assms(1) by (simp add: pp_measurePair_def pp_firstPair_def pp_inv_def)
  next
    case True
    let ?s2 = "?s1\<lparr>pp_state := NORMAL, pp_pktpair_ewma := gap\<rparr>"
    obtain r2 b2 where p: "pp_estimate gap ?s2 = Some (?s2\<lparr>pp_rate_estimate := r2, pp_bdp_estimate := b2\<rparr>)"
        (is "_ = Some ?s3") "12 \<le> unat r2" "3000 \<le> unat b2"
      using pp_estimate_some [OF gap assms(2), of ?s2] assms(3) by auto
    have "pp_rate_estimate ?s3 \<noteq> 0" using p(2) by auto
    then obtain w' s' as t where k: "pp_sendPackets w ?s3 = Some (w', s', as @ [SchedRel t])"
        "pp_transmitPacketPair w ?s3 = (w', s', as)"
      using pp_sendPackets_spec by blast
    have m: "pp_measurePair w gap r s = Some (w', s', as @ [SchedRel t])"
      using gap True u(1) p(1) k(1) by (simp add: pp_measurePair_def pp_firstPair_def Let_def)
    have "pp_inv ?s3" using assms(1,2) by (simp add: pp_inv_def)
    then have "pp_inv s'" using pp_transmit_same [OF k(2)] by (rule pp_same_estimates_inv [rotated])
    moreover have "pp_rate_estimate s' = r2" "pp_bdp_estimate s' = b2"
      using pp_transmit_same [OF k(2)] by (simp_all add: pp_same_estimates_def)
    ultimately show ?thesis
      using m gap True p(2,3) pp_transmit_spec(2,4,7) [OF k(2)] by auto
  qed
qed

lemma pp_newAck_spec:
  assumes "pp_newAck w ack s = (w', s', as)"
  shows "src_last_acked s' = ack \<and> scheds as = [] \<and> pp_same_estimates s s'"
proof -
  define a where "a = s\<lparr>src_last_acked := ack, pp_rto_timeout := (if ack = src_highest_sent s then 0 else w_now w + pp_rto s)\<rparr>"
  define d :: u16 where "d = ucast (ucast (pp_dupacks s) - (ack - src_last_acked s) div MSS64 + 1)"
  have e: "pp_newAck w ack s =
      (if pp_state a \<noteq> RECOVERY then (w, a\<lparr>pp_dupacks := 0\<rparr>, [])
       else if ack < pp_recover_seq a then pp_retransmitPacket w (a\<lparr>pp_dupacks := d\<rparr>)
       else (w, a\<lparr>pp_dupacks := 0, pp_state := NORMAL\<rparr>, []))"
    by (simp add: pp_newAck_def Let_def a_def d_def)
  have a: "src_last_acked a = ack" "pp_same_estimates s (a\<lparr>pp_dupacks := n\<rparr>)"
    "pp_same_estimates s (a\<lparr>pp_dupacks := n, pp_state := z\<rparr>)" for n z
    by (simp_all add: a_def pp_same_estimates_def)
  consider "pp_state a \<noteq> RECOVERY" | "pp_state a = RECOVERY" "\<not> ack < pp_recover_seq a"
    | "pp_state a = RECOVERY" "ack < pp_recover_seq a" by blast
  then show ?thesis
  proof cases
    case 1
    then have "s' = a\<lparr>pp_dupacks := 0\<rparr>" "as = []" using assms unfolding e by simp_all
    then show ?thesis using a by simp
  next
    case 2
    then have "s' = a\<lparr>pp_dupacks := 0, pp_state := NORMAL\<rparr>" "as = []" using assms unfolding e by simp_all
    then show ?thesis using a by simp
  next
    case 3
    then have r: "pp_retransmitPacket w (a\<lparr>pp_dupacks := d\<rparr>) = (w', s', as)" using assms unfolding e by simp
    show ?thesis
      using pp_retransmit_spec(3,7) [OF r] pp_same_estimates_trans [OF a(2) pp_retransmit_same [OF r]] a(1) by simp
  qed
qed

lemma pp_dupAck_spec:
  assumes "pp_dupAck w s = (w', s', as)"
  shows "src_last_acked s' = src_last_acked s \<and> scheds as = [] \<and> pp_same_estimates s s'"
proof -
  let ?r = "s\<lparr>pp_dupacks := pp_dupacks s + 1, pp_drops := pp_drops s + 1, pp_state := RECOVERY,
    pp_recover_seq := src_highest_sent s\<rparr>"
  have e: "pp_dupAck w s =
      (if pp_state s = RECOVERY \<or> pp_dupacks s + 1 \<noteq> 3 \<or> src_last_acked s < pp_recover_seq s
       then (w, s\<lparr>pp_dupacks := pp_dupacks s + 1\<rparr>, []) else pp_retransmitPacket w ?r)"
    by (simp add: pp_dupAck_def Let_def)
  show ?thesis
  proof (cases "pp_state s = RECOVERY \<or> pp_dupacks s + 1 \<noteq> 3 \<or> src_last_acked s < pp_recover_seq s")
    case True
    then have "s' = s\<lparr>pp_dupacks := pp_dupacks s + 1\<rparr>" "as = []" using assms unfolding e by simp_all
    then show ?thesis by (simp add: pp_same_estimates_def)
  next
    case False
    then have r: "pp_retransmitPacket w ?r = (w', s', as)" using assms unfolding e by simp
    have "pp_same_estimates s ?r" by (simp add: pp_same_estimates_def)
    then show ?thesis
      using pp_retransmit_spec(3,7) [OF r] pp_same_estimates_trans [OF _ pp_retransmit_same [OF r]] by simp
  qed
qed

lemma pp_measureRate_some:
  assumes "unat (pp_last_rtt_update s) + unat (pp_rtt s) < 2 ^ 64"
    and "unat ((src_last_acked s - pp_last_rtt_bytes s) * 8) < 2 ^ 24"
  shows "\<exists>m t b. pp_measureRate now s =
    Some (s\<lparr>pp_measured_rate := m, pp_last_rtt_update := t, pp_last_rtt_bytes := b\<rparr>)"
proof (cases "pp_rtt s > 0 \<and> now > pp_last_rtt_update s + pp_rtt s")
  case True
  have "unat (pp_last_rtt_update s + pp_rtt s) = unat (pp_last_rtt_update s) + unat (pp_rtt s)"
    using assms(1) by (intro unat_add_64) simp
  then have "unat (pp_last_rtt_update s) < unat now" using True by (simp add: word_less_nat_alt)
  then have "now - pp_last_rtt_update s \<noteq> 0" by auto
  note b = measured_rate_bound [OF this, of "unat ((src_last_acked s - pp_last_rtt_bytes s) * 8)"]
  have "pp_measureRate now s = Some (s\<lparr>pp_measured_rate := word_of_int (trunc_rat (dbl (dbl (of_nat (unat
      ((src_last_acked s - pp_last_rtt_bytes s) * 8))) / timeAsSec (now - pp_last_rtt_update s)))),
      pp_last_rtt_update := now, pp_last_rtt_bytes := src_last_acked s\<rparr>)"
    using True b assms(2) by (simp add: pp_measureRate_def Let_def not_le)
  then show ?thesis by blast
next
  case False
  then have "pp_measureRate now s = Some (s\<lparr>pp_measured_rate := pp_measured_rate s,
      pp_last_rtt_update := pp_last_rtt_update s, pp_last_rtt_bytes := pp_last_rtt_bytes s\<rparr>)"
    unfolding pp_measureRate_def by (simp only: if_False) simp
  then show ?thesis by blast
qed

end
