(* ===== verification/PacketPairProps.thy ===== *)
theory PacketPairProps
  imports PacketPairSteps
begin

text \<open>
  The properties of \<open>PacketPairSrc\<close> and \<open>PacketPairSink\<close>: the pair that is sent and the distance
  that is measured, the events that are scheduled, and the flow that is never deleted.
\<close>

section \<open>Properties\<close>

definition ex_pp :: pp_src where
  "ex_pp = (mkPacketPairSrc (mkDataSource 7 False 0 0 0 0 0 0) 15000 0)\<lparr>src_flowgen := True\<rparr>"

definition ex_pp_sink :: pp_sink where
  "ex_pp_sink = \<lparr>ds_cumulative_ack = 0, ds_received = [], sk_src = 7, sk_route = 1,
     pk_pktpairdiff = 0, pk_first_pair_ts = 0, pk_first_pair_seqno = 0\<rparr>"

lemma ex_pp_fields:
  "pp_state ex_pp = IDLE" "src_flowsize ex_pp = 15000" "src_highest_sent ex_pp = 0" "src_last_acked ex_pp = 0"
  "pp_bdp_estimate ex_pp = 0" "pp_rto ex_pp = 2500000000" "src_duration ex_pp = 0" "pp_rto_timeout ex_pp = 0"
  using timeFromUs_INIT_RTO
  by (simp_all add: ex_pp_def mkPacketPairSrc_def mkDataSource_def data_source.defs)

text \<open>
  The packet pair. When the source sends a pair and the sink receives the two packets one after
  the other, whatever the network did to their other fields, the first acknowledgement carries no
  distance and the second one carries the time between the two arrivals; when any other packet
  arrives between them, the second one carries none.
\<close>

lemma pp_pair_distance:
  assumes "pp_transmitPacketPair w s = (w', s', as)" "sends as = [p1, p2]" "src_highest_sent s + 1 \<noteq> 0"
    and "p_class q1 = p_class p1" "getFlag PP_FIRST q1 = getFlag PP_FIRST p1"
    and "p_class q2 = p_class p2" "getFlag PP_FIRST q2 = getFlag PP_FIRST p2"
    and "pp_sink_receivePacket v1 f d q1 = Some (u1, f1, d1, as1)"
    and "pp_sink_receivePacket v2 g d1 q2 = Some (u2, g2, d2, as2)"
    and "getFlag PP_FIRST r = 0" "pp_sink_receivePacket v3 h d1 r = Some (u3, h3, d3, as3)"
    and "pp_sink_receivePacket v4 k d3 q2 = Some (u4, k4, d4, as4)"
  shows "sent_seqs as = [src_highest_sent s + 1, src_highest_sent s + MSS64 + 1] \<and>
    sent_seqs as1 = [0] \<and> sent_seqs as2 = [w_now v2 - w_now v1] \<and> sent_seqs as4 = [0]"
proof -
  note t = pp_transmit_spec [OF assms(1)]
  have fl: "getFlag PP_FIRST p1 \<noteq> 0" "getFlag PP_FIRST p2 = 0"
    using t(13) assms(2) by simp_all
  have sq: "sent_seqs as = [src_highest_sent s + 1, src_highest_sent s + MSS64 + 1]"
    using t(1) assms(2) by (auto simp: pp_pair_seqs_def sent_seqs_def split: if_splits)
  have "\<exists>a b. p_class q1 = DataPacket (src_highest_sent s + 1) a \<and>
      p_class q2 = DataPacket (src_highest_sent s + MSS64 + 1) b"
  proof -
    have "\<exists>a. p_class q1 = DataPacket (seqno (p_class q1)) a" "\<exists>a. p_class q2 = DataPacket (seqno (p_class q2)) a"
      using assms(8,9) by (auto simp: pp_sink_receivePacket_def split: pkt_class.splits)
    then show ?thesis using sq assms(2,4,6) by (auto simp: sent_seqs_def)
  qed
  then obtain a b where c: "p_class q1 = DataPacket (src_highest_sent s + 1) a"
    "p_class q2 = DataPacket (src_highest_sent s + MSS64 + 1) b" by blast
  obtain x y where r: "p_class r = DataPacket x y"
    using assms(11) by (auto simp: pp_sink_receivePacket_def split: pkt_class.splits)
  note k1 = pp_sink_spec [OF assms(8) c(1)] and k2 = pp_sink_spec [OF assms(9) c(2)]
    and k3 = pp_sink_spec [OF assms(11) r] and k4 = pp_sink_spec [OF assms(12) c(2)]
  have m: "src_highest_sent s + MSS64 + 1 - MSS64 = src_highest_sent s + 1" by simp
  have d1: "pk_pktpairdiff d1 = 0" "pk_first_pair_ts d1 = w_now v1" "pk_first_pair_seqno d1 = src_highest_sent s + 1"
    using k1(1) fl(1) assms(5) by (simp_all add: pp_sink_measure_def)
  have "pk_pktpairdiff d2 = w_now v2 - w_now v1"
    using k2(1) fl(2) assms(7) d1 unfolding pp_sink_measure_def m by (simp add: Let_def processDataPacket_pair)
  moreover have "pk_first_pair_seqno d3 = 0"
    using k3(1) assms(10) by (simp add: pp_sink_measure_def Let_def)
  then have "pk_pktpairdiff d4 = 0"
    using k4(1) fl(2) assms(3,7) unfolding pp_sink_measure_def m by (simp add: Let_def processDataPacket_pair)
  ultimately show ?thesis using sq k1(2) k2(2) k4(2) d1(1) by simp
qed

lemma pp_pair_distance_witness:
  "\<exists>p1 p2 as d1 as1 as2. sends as = [p1, p2] \<and> sent_seqs as = [1, 1501] \<and>
     (\<exists>u f. pp_sink_receivePacket ex_world (src_flow ex_pp) ex_pp_sink p1 = Some (u, f, d1, as1)) \<and>
     (\<exists>u f d. pp_sink_receivePacket (ex_world\<lparr>w_now := 1001200000\<rparr>) (src_flow ex_pp) d1 p2 = Some (u, f, d, as2)) \<and>
     sent_seqs as1 = [0] \<and> sent_seqs as2 = [1200000]"
proof -
  obtain w' s' as where t: "pp_transmitPacketPair ex_world ex_pp = (w', s', as)" by (metis prod_cases3)
  have ps: "pp_pair_seqs ex_pp = [1, 1501]"
    by (simp add: pp_pair_seqs_def pp_flow_sent_def pp_limited_def ex_pp_fields MSS_BYTES_def)
  have sq: "map (\<lambda>p. seqno (p_class p)) (sends as) = [1, 1501]"
    using pp_transmit_spec(1) [OF t] ps by (simp add: sent_seqs_def)
  then obtain p1 p2 where p: "sends as = [p1, p2]" by auto
  have cl: "\<exists>a. p_class p1 = DataPacket 1 a" "\<exists>a. p_class p2 = DataPacket 1501 a"
    using p sq pp_transmit_class [OF t, of p1] pp_transmit_class [OF t, of p2] by simp_all
  let ?v = "ex_world\<lparr>w_now := 1001200000\<rparr>" and ?f = "src_flow ex_pp" and ?r = "pkt0"
  have r: "p_class ?r = DataPacket 0 0" "getFlag PP_FIRST ?r = 0" by (simp_all add: pkt0_def getFlag_def)
  obtain u1 f1 d1 as1 where a: "pp_sink_receivePacket ex_world ?f ex_pp_sink p1 = Some (u1, f1, d1, as1)"
    using pp_sink_total cl(1) by blast
  obtain u2 f2 d2 as2 where b: "pp_sink_receivePacket ?v ?f d1 p2 = Some (u2, f2, d2, as2)"
    using pp_sink_total cl(2) by blast
  obtain u3 f3 d3 as3 where c: "pp_sink_receivePacket ?v ?f d1 ?r = Some (u3, f3, d3, as3)"
    using pp_sink_total r(1) by blast
  obtain u4 f4 d4 as4 where d: "pp_sink_receivePacket ?v ?f d3 p2 = Some (u4, f4, d4, as4)"
    using pp_sink_total cl(2) by blast
  have "sent_seqs as = [1, 1501]" using sq by (simp add: sent_seqs_def)
  moreover have "sent_seqs as1 = [0]" "sent_seqs as2 = [w_now ?v - w_now ex_world]"
    using pp_pair_distance [OF t p _ refl refl refl refl a b r(2) c d] by (simp_all add: ex_pp_fields)
  moreover have "w_now ?v - w_now ex_world = 1200000" by (simp add: ex_world_def)
  ultimately show ?thesis using p a b by metis
qed

text \<open>
  A flow of at most one segment is never deleted. Its first event sends the segment and
  schedules one event, at the first timeout; the acknowledgement finishes the flow and schedules
  nothing; and the event at the first timeout returns without deleting the flow and without
  scheduling another one.
\<close>

lemma pp_single_segment_leak:
  assumes "pp_state s = IDLE" "0 < src_flowsize s" "src_flowsize s \<le> MSS64"
    and "pp_doNextEvent w s = Some (w1, s1, as1)"
    and "p_class pkt = DataAck gap ack ts0" "src_flowsize s \<le> ack"
    and "pp_receivePacket w2 s1 pkt = Some (w3, s3, as3)" "w_now w4 = w_now w + pp_rto s"
  shows "sent_seqs as1 = [1] \<and> scheds as1 = [SchedRel (pp_rto s)] \<and> pp_state s3 = FINISH \<and>
    scheds as3 = [] \<and> pp_doNextEvent w4 s3 = Some (w4, s3, [])"
proof -
  let ?s = "s\<lparr>src_highest_sent := 0, src_last_acked := 0, pp_bdp_estimate := word_of_int (2 * MSS_BYTES)\<rparr>"
  obtain w' s' as where t: "pp_transmitPacketPair w ?s = (w', s', as)" by (metis prod_cases3)
  note f = pp_transmit_spec [OF t]
  have one: "pp_pair_seqs ?s = [1]"
    using assms(2,3) by (simp add: pp_pair_seqs_def pp_flow_sent_def pp_limited_def word_gt_0 word_le_nat_alt unat_gt_0)
  have r: "s1 = s'\<lparr>pp_first_rto := w_now w + pp_rto s, pp_last_rtt_update := w_now w, pp_state := STARTUP\<rparr>"
    "as1 = as @ [SchedRel (pp_rto s)]"
    using assms(1,4) t f by (auto simp: pp_doNextEvent_def pp_startup_def Let_def)
  have d: "pp_flow_done (w_now w2) ack s1"
    using assms(2,6) r(1) f(9) by (simp add: pp_flow_done_def)
  have "s3 = s1\<lparr>src_flow := (src_flow s1)\<lparr>f_nPackets := f_nPackets (src_flow s1) - 1\<rparr>, pp_state := FINISH\<rparr> \<and>
      scheds as3 = []"
    using assms(5,7) d r(1)
    by (auto simp: pp_receivePacket_def source_free_ack_eq pp_finish_def Let_def pp_flow_done_def split: if_splits)
  then show ?thesis
    using r f(1,2) one assms(8) by (auto simp: pp_doNextEvent_def pp_before_def)
qed

definition ex_pp_small :: pp_src where
  "ex_pp_small = ex_pp\<lparr>src_flowsize := 1000\<rparr>"

lemma pp_single_segment_leak_witness:
  "\<exists>w1 s1 as1 w3 s3 as3. pp_doNextEvent ex_world ex_pp_small = Some (w1, s1, as1) \<and>
     pp_receivePacket (ex_world\<lparr>w_now := 1100000000\<rparr>) s1 (pkt0\<lparr>p_class := DataAck 0 1500 1000000000\<rparr>) =
       Some (w3, s3, as3) \<and> sent_seqs as1 = [1] \<and>
     pp_doNextEvent (ex_world\<lparr>w_now := 3500000000\<rparr>) s3 = Some (ex_world\<lparr>w_now := 3500000000\<rparr>, s3, [])"
proof -
  let ?v = "ex_world\<lparr>w_now := 1100000000\<rparr>" and ?u = "ex_world\<lparr>w_now := 3500000000\<rparr>"
    and ?p = "pkt0\<lparr>p_class := DataAck 0 1500 1000000000\<rparr>"
  have i: "pp_state ex_pp_small = IDLE" "src_flowsize ex_pp_small = 1000" "pp_rto ex_pp_small = 2500000000"
    by (simp_all add: ex_pp_small_def ex_pp_fields)
  obtain w1 s1 as1 where a: "pp_doNextEvent ex_world ex_pp_small = Some (w1, s1, as1)"
    using i(1) by (cases "pp_startup ex_world ex_pp_small") (simp add: pp_doNextEvent_def)
  have "pp_state s1 = STARTUP" "src_flowsize s1 = 1000"
    using a i pp_transmit_spec(9) by (auto simp: pp_doNextEvent_def pp_startup_def Let_def split: prod.splits)
  then obtain w3 s3 as3 where b: "pp_receivePacket ?v s1 ?p = Some (w3, s3, as3)"
    by (simp add: pp_receivePacket_def source_free_ack_eq pp_finish_def pp_flow_done_def word_le_nat_alt)
  show ?thesis
    using pp_single_segment_leak [OF i(1) _ _ a _ _ b, of 0 1500 1000000000 ?u] a b i
    by (simp add: word_le_nat_alt word_less_nat_alt ex_world_def)
qed

text \<open>
  C34: the handler of acknowledgements. While times stay below 1000 seconds and no counter is near
  its limit it returns: it never divides by zero nor overflows an estimate. It keeps the invariant,
  never moves the acknowledged prefix backwards, and schedules an event exactly when the distance of
  the first pair starts the transmission; a distance leaves a rate that is not zero and a window of
  at least a pair.
\<close>

theorem pp_receivePacket_safe:
  assumes "pp_inv s" "p_class pkt = DataAck gap ack ts0" "ts0 \<le> w_now w"
    and "unat (w_now w) \<le> 10 ^ 15" "unat gap \<le> 10 ^ 15" "unat (pp_total_pkts s) < 2 ^ 31"
    and "unat (pp_last_rtt_update s) + unat (pp_rtt s) < 2 ^ 64"
    and "unat ((src_last_acked s - pp_last_rtt_bytes s) * 8) < 2 ^ 24"
    and active: "pp_state s \<noteq> FINISH" "\<not> pp_flow_done (w_now w) ack s" "src_last_acked s \<le> ack"
  shows "\<exists>w' s' as. pp_receivePacket w s pkt = Some (w', s', as) \<and> pp_inv s' \<and> src_last_acked s' = ack \<and>
    length (scheds as) = (if gap \<noteq> 0 \<and> pp_state s = STARTUP then 1 else 0) \<and>
    (gap \<noteq> 0 \<longrightarrow> pp_rate_estimate s' \<noteq> 0 \<and> 3000 \<le> unat (pp_bdp_estimate s'))"
proof -
  define s0 where "s0 = s\<lparr>src_flow := (src_flow s)\<lparr>f_nPackets := f_nPackets (src_flow s) - 1\<rparr>\<rparr>"
  define w0 where "w0 = w\<lparr>w_ackdb := w_ackdb w @ [pkt]\<rparr>"
  have free: "source_free_ack pkt w s = (w0, s0)" by (simp add: source_free_ack_eq s0_def w0_def)
  have f: "pp_state s0 = pp_state s" "src_last_acked s0 = src_last_acked s" "w_now w0 = w_now w"
    "pp_flow_done now ack s0 = pp_flow_done now ack s" for now
    by (simp_all add: s0_def w0_def pp_flow_done_def)
  obtain m t b where r: "pp_measureRate (w_now w) s0 =
      Some (s0\<lparr>pp_measured_rate := m, pp_last_rtt_update := t, pp_last_rtt_bytes := b\<rparr>)" (is "_ = Some ?s1")
    using pp_measureRate_some [of s0 "w_now w"] assms(7,8) by (auto simp: s0_def)
  define s2 where "s2 = pp_updateRtt (w_now w - ts0) ?s1"
  have i1: "pp_inv ?s1" using assms(1) by (simp add: pp_inv_def s0_def)
  have i2: "pp_inv s2" "unat (pp_total_pkts s2) < 2 ^ 31"
    using pp_same_estimates_inv [OF pp_updateRtt_fields(3) i1] assms(6) by (simp_all add: s2_def s0_def)
  have "unat (w_now w - ts0) \<le> unat (w_now w)"
    using assms(3) unat_sub_nowrap [of ts0 "w_now w"] by (simp add: word_le_nat_alt)
  then have mr: "unat (pp_min_rtt s2) \<le> 1000000000000000"
    using assms(4) by (auto simp: s2_def not_less word_le_nat_alt)
  let ?mk = "getFlag ECN_REV pkt \<noteq> 0"
  define s3 where "s3 = pp_updateAlpha ?mk s2"
  note al = pp_updateAlpha_spec [OF i2, of ?mk, folded s3_def]
  have s2: "src_last_acked s2 = src_last_acked s" "pp_state s2 = pp_state s"
    by (simp_all add: s2_def s0_def)
  obtain w4 s4 bs where p: "pp_measurePair w0 gap (w_now w - ts0) s3 = Some (w4, s4, bs)" "pp_inv s4"
      "src_last_acked s4 = src_last_acked s"
      "length (scheds bs) = (if gap \<noteq> 0 \<and> pp_state s = STARTUP then 1 else 0)"
      "gap \<noteq> 0 \<longrightarrow> pp_rate_estimate s4 \<noteq> 0 \<and> 3000 \<le> unat (pp_bdp_estimate s4)"
    using pp_measurePair_some [OF al(1), of gap w0 "w_now w - ts0"] al(2,3,4) mr assms(5) s2 by auto
  obtain w5 s5 cs where k: "(if ack > src_last_acked s4 then pp_newAck w4 ack s4 else pp_dupAck w4 s4) =
      (w5, s5, cs)"
    by (metis prod_cases3)
  have e: "pp_receivePacket w s pkt = Some (w5, s5, Traffic PKT_RCVDESTROY pkt # bs @ cs)"
    using assms(2) active f free r p(1)
    by (simp add: pp_receivePacket_def Let_def leD k split del: if_split flip: s2_def s3_def)
  have "src_last_acked s5 = ack \<and> scheds cs = [] \<and> pp_same_estimates s4 s5"
    using k pp_newAck_spec [of w4 ack s4 w5 s5 cs] pp_dupAck_spec [of w4 s4 w5 s5 cs] active(3) p(3)
    by (auto split: if_splits)
  then show ?thesis
    using e p(2,4,5) pp_same_estimates_inv [of s4 s5] by (auto simp: pp_same_estimates_def)
qed

definition ex_pp_start :: pp_src where
  "ex_pp_start = ex_pp\<lparr>pp_state := STARTUP, src_highest_sent := 3000, pp_bdp_estimate := 3000,
     pp_first_rto := 3400000000, pp_last_rtt_update := 900000000\<rparr>"

lemma pp_receivePacket_safe_witness:
  "\<exists>w' s' as. pp_receivePacket ex_world ex_pp_start (pkt0\<lparr>p_class := DataAck 1200000 3000 900000000\<rparr>) =
     Some (w', s', as) \<and> pp_rate_estimate s' \<noteq> 0 \<and> length (scheds as) = 1"
proof -
  have "pp_inv ex_pp_start"
    by (simp add: pp_inv_def ex_pp_start_def ex_pp_def mkPacketPairSrc_def data_source.defs)
  moreover have "pp_state ex_pp_start = STARTUP" "src_last_acked ex_pp_start = 0" "src_flowsize ex_pp_start = 15000"
    "src_duration ex_pp_start = 0" "pp_last_rtt_update ex_pp_start = 900000000" "pp_rtt ex_pp_start = 0"
    "pp_last_rtt_bytes ex_pp_start = 0" "pp_total_pkts ex_pp_start = 0" "w_now ex_world = 1000000000"
    by (simp_all add: ex_pp_start_def ex_pp_fields ex_world_def)
      (simp_all add: ex_pp_def mkPacketPairSrc_def data_source.defs)
  ultimately show ?thesis
    using pp_receivePacket_safe [of ex_pp_start "pkt0\<lparr>p_class := DataAck 1200000 3000 900000000\<rparr>"
        1200000 3000 900000000 ex_world]
    by (force simp: pp_flow_done_def word_le_nat_alt)
qed

section \<open>The event\<close>

definition pp_quiet :: "u64 \<Rightarrow> pp_src \<Rightarrow> bool" where
  "pp_quiet now s \<longleftrightarrow> pp_state s \<noteq> IDLE \<and> pp_state s \<noteq> STARTUP \<and> now = pp_first_rto s"

text \<open>
  The event of a source that has a rate. It returns; it deletes a finished flow without
  packets after the first timeout, schedules nothing at the first timeout of a flow that is
  transmitting, because the transmission schedules its own events, and otherwise schedules exactly
  one further event. A transmitting source without timeout sends the next pair, as far as the flow
  and the window allow.
\<close>

lemma pp_event:
  assumes "pp_rate_estimate s \<noteq> 0"
  shows "\<exists>w' s' as. pp_doNextEvent w s = Some (w', s', as) \<and>
    (if pp_state s = FINISH \<and> f_nPackets (src_flow s) = 0 \<and> pp_first_rto s < w_now w then as = [DeleteFlow]
     else if pp_quiet (w_now w) s then scheds as = [] else \<exists>t. scheds as = [SchedRel t]) \<and>
    (pp_state s \<in> {NORMAL, RECOVERY} \<and> \<not> pp_quiet (w_now w) s \<and>
       (pp_rto_timeout s = 0 \<or> w_now w < pp_rto_timeout s) \<longrightarrow> sent_seqs as = pp_pair_seqs s)"
proof -
  consider (start) "pp_state s = IDLE \<or> (pp_state s = STARTUP \<and> w_now w = pp_first_rto s)"
    | (del) "pp_state s = FINISH" "f_nPackets (src_flow s) = 0" "pp_first_rto s < w_now w"
    | (run) "pp_state s \<noteq> IDLE" "\<not> (pp_state s = STARTUP \<and> w_now w = pp_first_rto s)"
        "\<not> (pp_state s = FINISH \<and> f_nPackets (src_flow s) = 0 \<and> pp_first_rto s < w_now w)" by blast
  then show ?thesis
  proof cases
    case start
    let ?s = "s\<lparr>src_highest_sent := 0, src_last_acked := 0, pp_bdp_estimate := word_of_int (2 * MSS_BYTES)\<rparr>"
    obtain w' s' as where t: "pp_transmitPacketPair w ?s = (w', s', as)" by (metis prod_cases3)
    have e: "pp_doNextEvent w s = Some (w', s'\<lparr>pp_first_rto := w_now w' + pp_rto s',
        pp_last_rtt_update := w_now w', pp_state := STARTUP\<rparr>, as @ [SchedRel (pp_rto s')])"
      using start t by (simp add: pp_doNextEvent_def pp_startup_def Let_def)
    then show ?thesis using start pp_transmit_spec(2) [OF t] by (auto simp: pp_quiet_def)
  next
    case del
    then show ?thesis by (simp add: pp_doNextEvent_def)
  next
    case run
    obtain w1 s1 as1 where a: "pp_before w s = (w1, s1, as1)" by (metis prod_cases3)
    note b = pp_before_spec [OF a]
    have n: "\<not> (pp_state s = IDLE \<or> (pp_state s = STARTUP \<and> w_now w = pp_first_rto s))" using run(1,2) by blast
    have e: "pp_doNextEvent w s =
        (if w_now w1 = pp_first_rto s1 then Some (w1, s1, as1)
         else if pp_state s1 \<noteq> FINISH
         then do { (w, s, bs) \<leftarrow> pp_sendPackets w1 s1; Some (w, s, as1 @ bs) }
         else Some (w1, s1, as1 @ [SchedRel (pp_rtt s1)]))"
      unfolding pp_doNextEvent_def if_not_P [OF n] if_not_P [OF run(3)] a by simp
    show ?thesis
    proof (cases "w_now w = pp_first_rto s")
      case True
      then show ?thesis using e b run by (auto simp: pp_quiet_def)
    next
      case away: False
      show ?thesis
      proof (cases "pp_state s = FINISH")
        case True
        then show ?thesis using e b run away by (auto simp: pp_quiet_def)
      next
        case False
        obtain w' s' as t where k: "pp_sendPackets w1 s1 = Some (w', s', as @ [SchedRel t])"
            "pp_transmitPacketPair w1 s1 = (w', s', as)"
          using pp_sendPackets_spec [of s1 w1] b assms by auto
        have "pp_doNextEvent w s = Some (w', s', as1 @ as @ [SchedRel t])" using e b away False k(1) by simp
        then show ?thesis
          using b away False pp_transmit_spec(1,2) [OF k(2)] by (auto simp: pp_quiet_def not_le)
      qed
    qed
  qed
qed

lemma pp_event_witness:
  "\<exists>w' s' as t. pp_doNextEvent ex_world (ex_pp\<lparr>pp_state := NORMAL, pp_rate_estimate := 10000000000\<rparr>) =
     Some (w', s', as) \<and> scheds as = [SchedRel t] \<and> sent_seqs as = [1, 1501]"
proof -
  let ?s = "ex_pp\<lparr>pp_state := NORMAL, pp_rate_estimate := 10000000000\<rparr>"
  have "pp_first_rto ex_pp = 0" by (simp add: ex_pp_def mkPacketPairSrc_def data_source.defs)
  then have q: "\<not> pp_quiet (w_now ex_world) ?s" by (simp add: pp_quiet_def ex_world_def)
  have "pp_pair_seqs ?s = [1, 1501]"
    by (simp add: pp_pair_seqs_def pp_flow_sent_def pp_limited_def ex_pp_fields MSS_BYTES_def)
  then show ?thesis using pp_event [of ?s ex_world] q by (auto simp: ex_pp_fields)
qed

end
