(* ===== verification/TransportPair.thy ===== *)
theory TransportPair
  imports Transport PacketPairProps
begin

text \<open>
  \<open>PacketPairSrc\<close> and \<open>PacketPairSink\<close> as instances of the transport interfaces, and the reliability
  of the packet pair protocol that follows.
\<close>

section \<open>Sending and events\<close>

lemma pp_rexmit_emits:
  assumes "pp_retransmitPacket w s = (w', s', as)" "seqs_ok n s" "n \<le> 7"
  shows "emits (Suc n) s s' as \<and> src_last_acked s' = src_last_acked s \<and> pp_state s' = pp_state s"
  using pp_retransmit_spec [OF assms(1)] emits_single [OF assms(2,3), of as w s'] by simp

lemma pp_sendOne_emits:
  assumes "pp_sendOne f w s = (w', s', as)" "seqs_ok n s" "n \<le> 7"
  shows "emits (Suc n) s s' as \<and> src_last_acked s' = src_last_acked s \<and> pp_state s' = pp_state s"
proof -
  obtain p q where p: "as = [Traffic PKT_CREATESEND q, SendOn p]" "s' = pp_sent s"
      "p_class p = DataPacket (src_highest_sent s + 1) (w_now w)" "own_segment w s p"
    using pp_sendOne_spec [OF assms(1)] by auto
  then show ?thesis using emits_single [OF assms(2,3), of as w s'] by simp
qed

lemma pp_transmit_emits:
  assumes "pp_transmitPacketPair w s = (w', s', as)" "seqs_ok n s" "n \<le> 6"
  shows "emits (Suc (Suc n)) s s' as \<and> src_last_acked s' = src_last_acked s \<and> pp_state s' = pp_state s"
proof -
  obtain w1 s1 as1 where a: "pp_sendOne True w s = (w1, s1, as1)" by (metis prod_cases3)
  let ?s = "pp_arm w1 s1"
  obtain w2 s2 as2 where b: "pp_sendOne False w1 ?s = (w2, s2, as2)" by (metis prod_cases3)
  have one: "emits (Suc n) s ?s as1" "src_last_acked ?s = src_last_acked s" "pp_state ?s = pp_state s"
    using pp_sendOne_emits [OF a assms(2)] assms(3) by (auto simp: emits_def seqs_ok_def)
  then have q: "seqs_ok (Suc n) ?s" by (simp add: emits_def)
  note two = pp_sendOne_emits [OF b q]
  have e: "(w', s', as) = (if pp_flow_sent s \<or> pp_limited s then (w, s, [])
      else if pp_flow_sent ?s then (w1, ?s, as1) else (w2, s2, as1 @ as2))"
    unfolding assms(1) [symmetric] pp_transmitPacketPair_def using a b by simp
  have z: "emits (Suc (Suc n)) s s []" using seqs_ok_mono [OF assms(2), of "Suc (Suc n)"] by (simp add: emits_def)
  show ?thesis
    using e z one two assms(3) emits_mono [OF one(1), of "Suc (Suc n)"] emits_trans [OF one(1), of "Suc (Suc n)" s2 as2]
    by (auto split: if_splits)
qed

lemma pp_send_emits:
  assumes "pp_sendPackets w s = Some (w', s', as)" "seqs_ok n s" "n \<le> 6"
  shows "emits (Suc (Suc n)) s s' as \<and> src_last_acked s' = src_last_acked s \<and> pp_state s' = pp_state s"
proof -
  obtain bs t where b: "pp_transmitPacketPair w s = (w', s', bs)" "as = bs @ [SchedRel t]"
    using assms(1) by (auto simp: pp_sendPackets_def bind_eq_Some_conv split: prod.splits)
  then show ?thesis using pp_transmit_emits [OF b(1) assms(2,3)] by (simp add: emits_def)
qed

lemma pp_startup_emits:
  assumes "pp_startup w s = (w', s', as)"
  shows "emits 2 s s' as \<and> src_last_acked s' = 0 \<and> pp_state s' = STARTUP"
proof -
  let ?s = "s\<lparr>src_highest_sent := 0, src_last_acked := 0, pp_bdp_estimate := word_of_int (2 * MSS_BYTES)\<rparr>"
  obtain w1 s1 bs where b: "pp_transmitPacketPair w ?s = (w1, s1, bs)" by (metis prod_cases3)
  have "seqs_ok 0 ?s" by (simp add: seqs_ok_def)
  note e = pp_transmit_emits [OF b this]
  then show ?thesis using assms b by (auto simp: pp_startup_def emits_def seqs_ok_def numeral_2_eq_2)
qed

lemma pp_before_emits:
  assumes "pp_before w s = (w', s', as)" "seqs_ok 0 s"
  shows "emits 2 s s' as \<and> src_last_acked s' = src_last_acked s \<and> (pp_state s' = FINISH \<longrightarrow> pp_state s = FINISH)"
proof -
  have z: "emits 2 s s []" using seqs_ok_mono [OF assms(2), of 2] by (simp add: emits_def)
  have t: "seqs_ok 1 (pp_timeout now s)" "src_last_acked (pp_timeout now s) = src_last_acked s"
    "src_flowsize (pp_timeout now s) = src_flowsize s" "src_duration (pp_timeout now s) = src_duration s"
    "pp_state (pp_timeout now s) = NORMAL" for now
    using assms(2) seqs_ok_next(1,2) [of "src_last_acked s" 0] by (simp_all add: seqs_ok_def pp_timeout_def Let_def)
  show ?thesis
    using assms(1) z pp_rexmit_emits [of w "pp_timeout (w_now w) s" w' s' as 1] t
    by (auto simp: pp_before_def emits_def numeral_2_eq_2 split: if_splits)
qed

lemma pp_event_step:
  assumes "pp_doNextEvent w s = Some (w', s', as)" "seqs_ok 0 s"
  shows "emits 4 s s' as \<and> src_last_acked s' \<in> {src_last_acked s, 0} \<and> (pp_state s' = FINISH \<longrightarrow> pp_state s = FINISH)"
proof -
  obtain w1 s1 bs where b: "pp_before w s = (w1, s1, bs)" by (metis prod_cases3)
  note e = pp_before_emits [OF b assms(2)]
  have z: "seqs_ok 4 s" "seqs_ok 2 s1" using seqs_ok_mono [OF assms(2), of 4] e by (simp_all add: emits_def)
  have m: "emits 4 s s1 bs" "emits 4 s s1 (bs @ [SchedRel t])" for t
    using e emits_mono [of 2 s s1 bs 4] by (simp_all add: emits_def)
  consider (up) "pp_startup w s = (w', s', as)" | (del) "s' = s" "as = [DeleteFlow]"
    | (first) "s' = s1" "as = bs" | (fin) t where "s' = s1" "as = bs @ [SchedRel t]"
    | (snd) cs where "pp_state s1 \<noteq> FINISH" "pp_sendPackets w1 s1 = Some (w', s', cs)" "as = bs @ cs"
    using assms(1) b by (auto simp: pp_doNextEvent_def bind_eq_Some_conv split: if_splits)
  then show ?thesis
  proof cases
    case up
    then show ?thesis using pp_startup_emits [OF up] emits_mono [of 2 s s' as 4] by simp
  next
    case snd
    note c = pp_send_emits [OF snd(2) z(2)]
    then have "emits 4 s s' (bs @ cs)" using emits_trans [of 2 s s1 bs 4 s' cs] e by simp
    then show ?thesis using snd c e by simp
  qed (use z(1) m e in \<open>auto simp: emits_def\<close>)
qed

section \<open>Acknowledgements\<close>

lemma pp_updates_same_flow:
  "same_flow s (pp_updateRtt r s) \<and> pp_state (pp_updateRtt r s) = pp_state s"
  "same_flow s (pp_updateAlpha m s) \<and> pp_state (pp_updateAlpha m s) = pp_state s"
  "pp_measureRate now s = Some s' \<Longrightarrow> same_flow s s' \<and> pp_state s' = pp_state s"
  "pp_estimate gap s = Some s' \<Longrightarrow> same_flow s s' \<and> pp_state s' = pp_state s"
  by (auto simp: same_flow_def pp_updateRtt_def pp_updateAlpha_def pp_measureRate_def pp_estimate_def Let_def
      bind_eq_Some_conv split: if_splits)

lemma pp_updatePair_same_flow:
  assumes "pp_updatePair gap s = Some s'"
  shows "same_flow s s' \<and> pp_state s' = pp_state s"
  using assms pp_updates_same_flow(4) [of _ "s\<lparr>pp_pktpair_ewma := pp_ewma (pp_pktpair_ewma s) gap\<rparr>"]
  by (fastforce simp: pp_updatePair_def Let_def bind_eq_Some_conv same_flow_def split: if_splits)

lemma pp_measurePair_emits:
  assumes "pp_measurePair w gap r s = Some (w', s', as)" "seqs_ok 0 s"
  shows "emits 2 s s' as \<and> src_last_acked s' = src_last_acked s \<and> (pp_state s' = FINISH \<longrightarrow> pp_state s = FINISH)"
proof -
  have z: "emits 2 s s' [] \<and> src_last_acked s' = src_last_acked s" if "same_flow s s'"
    using that seqs_ok_mono [OF assms(2), of 2] seqs_ok_same_flow [OF that] by (simp add: emits_def same_flow_def)
  show ?thesis
  proof (cases "gap = 0")
    case True
    then have "same_flow s s' \<and> pp_state s' = pp_state s \<and> as = []"
      using assms(1) by (auto simp: pp_measurePair_def same_flow_def)
    then show ?thesis using z by auto
  next
    case False
    obtain s1 where u: "pp_updatePair gap s = Some s1" "pp_firstPair w gap s1 = Some (w', s', as)"
      using assms(1) False by (auto simp: pp_measurePair_def bind_eq_Some_conv)
    note m = pp_updatePair_same_flow [OF u(1)]
    show ?thesis
    proof (cases "pp_state s1 = STARTUP")
      case True
      let ?a = "s1\<lparr>pp_state := NORMAL, pp_pktpair_ewma := gap\<rparr>"
      obtain s2 where e: "pp_estimate gap ?a = Some s2" "pp_sendPackets w s2 = Some (w', s', as)"
        using u(2) True by (auto simp: pp_firstPair_def bind_eq_Some_conv)
      have f: "same_flow s s2" "pp_state s2 = NORMAL"
        using pp_updates_same_flow(4) [OF e(1)] m by (simp_all add: same_flow_def)
      then have "seqs_ok 0 s2" using assms(2) seqs_ok_same_flow by blast
      note k = pp_send_emits [OF e(2) this]
      have "emits 2 s s' as" using emits_same_flow [OF f(1)] k by (simp add: numeral_2_eq_2)
      then show ?thesis using k f by (simp add: same_flow_def)
    next
      case False
      then have "s' = s1 \<and> as = []" using u(2) by (simp add: pp_firstPair_def)
      then show ?thesis using z m by auto
    qed
  qed
qed

lemma pp_newAck_emits:
  assumes "pp_newAck w ack s = (w', s', as)" "seqs_ok 2 (s\<lparr>src_last_acked := ack\<rparr>)"
  shows "emits 4 s s' as \<and> src_last_acked s' = ack \<and> (pp_state s' = FINISH \<longrightarrow> pp_state s = FINISH)"
proof -
  define a where "a = s\<lparr>src_last_acked := ack, pp_rto_timeout := (if ack = src_highest_sent s then 0 else w_now w + pp_rto s)\<rparr>"
  define d :: u16 where "d = ucast (ucast (pp_dupacks s) - (ack - src_last_acked s) div MSS64 + 1)"
  have e: "pp_newAck w ack s =
      (if pp_state s \<noteq> RECOVERY then (w, a\<lparr>pp_dupacks := 0\<rparr>, [])
       else if ack < pp_recover_seq s then pp_retransmitPacket w (a\<lparr>pp_dupacks := d\<rparr>)
       else (w, a\<lparr>pp_dupacks := 0, pp_state := NORMAL\<rparr>, []))"
    by (simp add: pp_newAck_def Let_def a_def d_def)
  have q: "seqs_ok 2 (a\<lparr>pp_dupacks := d\<rparr>)" using assms(2) by (simp add: a_def seqs_ok_def)
  show ?thesis
  proof (cases "pp_state s = RECOVERY \<and> ack < pp_recover_seq s")
    case True
    then have x: "pp_retransmitPacket w (a\<lparr>pp_dupacks := d\<rparr>) = (w', s', as)" using assms(1) e by simp
    note r = pp_rexmit_emits [OF x q]
    then have "emits 4 (a\<lparr>pp_dupacks := d\<rparr>) s' as" using emits_mono [of 3 _ s' as 4] by simp
    then show ?thesis using r by (simp add: emits_def a_def)
  next
    case False
    then show ?thesis
      using assms(1) e seqs_ok_mono [OF assms(2), of 4] by (auto simp: emits_def a_def seqs_ok_def split: if_splits)
  qed
qed

lemma pp_dupAck_emits:
  assumes "pp_dupAck w s = (w', s', as)" "seqs_ok 2 s"
  shows "emits 4 s s' as \<and> src_last_acked s' = src_last_acked s \<and> (pp_state s' = FINISH \<longrightarrow> pp_state s = FINISH)"
proof -
  let ?r = "s\<lparr>pp_dupacks := pp_dupacks s + 1, pp_drops := pp_drops s + 1, pp_state := RECOVERY,
    pp_recover_seq := src_highest_sent s\<rparr>"
  have q: "seqs_ok 2 ?r" "seqs_ok 4 s" using assms(2) seqs_ok_mono [OF assms(2), of 4] by (simp_all add: seqs_ok_def)
  consider "pp_retransmitPacket w ?r = (w', s', as)" | "s' = s\<lparr>pp_dupacks := pp_dupacks s + 1\<rparr>" "as = []"
    using assms(1) by (auto simp: pp_dupAck_def Let_def split: if_splits)
  then show ?thesis
  proof cases
    case 1
    note r = pp_rexmit_emits [OF 1 q(1)]
    then have "emits 4 ?r s' as" using emits_mono [of 3 ?r s' as 4] by simp
    then show ?thesis using r by (simp add: emits_def)
  qed (use q(2) in \<open>simp add: emits_def seqs_ok_def\<close>)
qed

lemma pp_receive_step:
  assumes "pp_receivePacket w s p = Some (w', s', as)" "seqs_ok 0 s" "p_class p = DataAck x ack t"
    and "1500 dvd unat ack" "unat ack < 2 ^ 62"
  shows "emits 4 s s' as \<and> src_last_acked s' \<in> {src_last_acked s, ack} \<and>
    (pp_state s' = FINISH \<longrightarrow> pp_state s = FINISH \<or> src_duration s \<noteq> 0 \<or> src_flowsize s \<le> ack)"
proof -
  obtain w0 s0 where f: "source_free_ack p w s = (w0, s0)" by fastforce
  then have s0: "same_flow s s0" "pp_state s0 = pp_state s" by (auto simp: source_free_ack_eq same_flow_def)
  have keep: "emits 4 s s' (Traffic PKT_RCVDESTROY p # bs) \<and> src_last_acked s' = src_last_acked s"
    if "same_flow s s'" "sends bs = []" for bs
    using that seqs_ok_mono [OF assms(2), of 4] seqs_ok_same_flow [OF that(1)] by (simp add: emits_def same_flow_def)
  note d = assms(1) [unfolded pp_receivePacket_def assms(3) pkt_class.case f prod.case Let_def]
  consider (fin) "pp_state s = FINISH" | (don) "pp_state s \<noteq> FINISH" "pp_flow_done (w_now w0) ack s0"
    | (old) "pp_state s \<noteq> FINISH" "\<not> pp_flow_done (w_now w0) ack s0" "ack < src_last_acked s0"
    | (act) "pp_state s \<noteq> FINISH" "\<not> pp_flow_done (w_now w0) ack s0" "\<not> ack < src_last_acked s0" by blast
  then show ?thesis
  proof cases
    case fin
    then have "s' = s0" "as = [Traffic PKT_RCVDESTROY p]" using d s0(2) by auto
    then show ?thesis using keep [of "[]"] s0 fin by auto
  next
    case don
    then have "s' = s0\<lparr>pp_state := FINISH\<rparr>"
        "as = Traffic PKT_RCVDESTROY p # (if src_flowgen s0 then [FinishFlow (src_id s0)] else [])"
      using d s0(2) by (auto simp: pp_finish_def)
    moreover have "src_duration s \<noteq> 0 \<or> src_flowsize s \<le> ack"
      using don(2) s0(1) by (auto simp: pp_flow_done_def same_flow_def)
    ultimately show ?thesis using keep s0 by (auto simp: same_flow_def)
  next
    case old
    then have "s' = s0" "as = [Traffic PKT_RCVDESTROY p]" using d s0(2) by auto
    then show ?thesis using keep [of "[]"] s0 old(1) by auto
  next
    case act
    define r where "r = w_now w0 - t"
    obtain s1 where g: "pp_measureRate (w_now w0) s0 = Some s1"
      using d s0(2) act by (auto simp: bind_eq_Some_conv)
    define s2 where "s2 = pp_updateAlpha (getFlag ECN_REV p \<noteq> 0) (pp_updateRtt r s1)"
    obtain w3 s3 bs where u: "pp_measurePair w0 x r s2 = Some (w3, s3, bs)"
      using d s0(2) act g unfolding r_def s2_def by (auto simp: bind_eq_Some_conv)
    obtain cs where b: "(if ack > src_last_acked s3 then pp_newAck w3 ack s3 else pp_dupAck w3 s3) = (w', s', cs)"
        "as = Traffic PKT_RCVDESTROY p # bs @ cs"
      using d s0(2) act g u unfolding r_def s2_def by (auto simp: bind_eq_Some_conv split: prod.splits)
    have s2: "same_flow s s2" "pp_state s2 \<noteq> FINISH"
      using pp_updates_same_flow(3) [OF g] pp_updates_same_flow(1) [of s1 r]
        pp_updates_same_flow(2) [of "pp_updateRtt r s1" "getFlag ECN_REV p \<noteq> 0"] s0 act(1)
      by (simp_all add: same_flow_def s2_def)
    have q2: "seqs_ok 0 s2" using assms(2) seqs_ok_same_flow [OF s2(1)] by simp
    have m: "emits 2 s s3 bs" "src_last_acked s3 = src_last_acked s" "pp_state s3 \<noteq> FINISH"
      using pp_measurePair_emits [OF u q2] s2 emits_same_flow [OF s2(1)] by (auto simp: same_flow_def)
    then have q: "seqs_ok 2 s3" by (simp add: emits_def)
    then have qa: "seqs_ok 2 (s3\<lparr>src_last_acked := ack\<rparr>)" using assms(4,5) by (simp add: seqs_ok_def)
    have "emits 4 s3 s' cs \<and> src_last_acked s' \<in> {src_last_acked s, ack} \<and> pp_state s' \<noteq> FINISH"
      using b(1) pp_newAck_emits [OF _ qa, of w3 w' s' cs] pp_dupAck_emits [OF _ q, of w3 w' s' cs] m
      by (auto split: if_splits)
    then show ?thesis using emits_trans [OF m(1), of 4 s' cs] b(2) by (simp add: emits_def)
  qed
qed

section \<open>Packet pair over a network\<close>

lemma pp_sink_step:
  assumes "pp_sink_receivePacket w f d p = Some (w', f', d', as)" "p_class p = DataPacket sq t"
  shows "ds_cumulative_ack d' = ds_cumulative_ack (processDataPacket d sq (p_size p)) \<and>
    ds_received d' = ds_received (processDataPacket d sq (p_size p)) \<and>
    (\<exists>a x. sends as = [a] \<and> p_class a = DataAck x (ds_cumulative_ack d') t \<and> p_size a = 40)"
proof -
  let ?d = "pp_sink_measure (w_now w) (getFlag PP_FIRST p \<noteq> 0) sq (processDataPacket d sq (p_size p))"
  have k: "ds_cumulative_ack (pp_sink_measure n f q e) = ds_cumulative_ack e"
    "ds_received (pp_sink_measure n f q e) = ds_received e" for n f q e
    by (simp_all add: pp_sink_measure_def Let_def)
  obtain a adb g where n: "newDataAck (w_fresh w) (w_ackdb w) (f\<lparr>f_nPackets := f_nPackets f - 1\<rparr>) (sk_route ?d)
      (pk_pktpairdiff ?d) (ds_cumulative_ack ?d) = (a, adb, g)"
    by (metis prod_cases3)
  note m = newDataAck_fields [OF n]
  define b where "b = (if getFlag ECN_FWD p \<noteq> 0 then setFlag ECN_REV (set_ts t a) else set_ts t a)"
  have "p_class b = DataAck (pk_pktpairdiff ?d) (ds_cumulative_ack ?d) t" "p_size b = 40"
    using m(1,2) by (cases "p_class a"; simp add: b_def set_ts_def)+
  moreover have "d' = ?d" "sends as = [b]"
    using assms n by (auto simp: pp_sink_receivePacket_def pkt_free_def Let_def b_def)
  ultimately show ?thesis using k by blast
qed

interpretation pp_net: transport pp_doNextEvent pp_receivePacket "\<lambda>s. pp_state s = FINISH" pp_sink_receivePacket
proof (unfold_locales, goal_cases)
  case (1 w s w' s' as)
  then show ?case using pp_event_step by blast
next
  case (2 w s p w' s' as x a t)
  then show ?case using pp_receive_step by blast
next
  case 3
  show ?case by simp
next
  case (4 p sq t w f d)
  then show ?case using pp_sink_total [OF 4, of w f d] by auto
next
  case (5 w f d p w' f' d' as sq t)
  then show ?case using pp_sink_step [OF 5] by simp
next
  case (6 w f d p w' f' d' as sq t)
  then show ?case using pp_sink_step [OF 6] by blast
qed

text \<open>
  C30: The packet pair protocol is reliable. In every state that a source and a sink reach over a network
  that loses, delays and reorders packets, all segments below the acknowledged byte have arrived, the
  source has not overtaken the sink's acknowledgement, and a flow without a time limit that is finished
  has arrived completely.
\<close>

theorem pp_reliable:
  assumes "net_reach pp_doNextEvent pp_receivePacket pp_sink_receivePacket s0 d0 s d F B R"
    and "src_highest_sent s0 = 0" "src_last_acked s0 = 0" "pp_state s0 \<noteq> FINISH"
    and "ds_cumulative_ack d0 = 0" "ds_received d0 = []"
  shows "(\<forall>k. k * 1500 < unat (src_last_acked s) \<longrightarrow> k \<in> R) \<and> src_last_acked s \<le> ds_cumulative_ack d \<and>
    (pp_state s = FINISH \<and> src_duration s0 = 0 \<longrightarrow> (\<forall>k. k * 1500 < unat (src_flowsize s0) \<longrightarrow> k \<in> R))"
  using pp_net.reliable [OF assms] .

lemma pp_small_start:
  "\<exists>w1 s1 as. pp_doNextEvent ex_world ex_pp_small = Some (w1, s1, as) \<and> sent_seqs as = [1] \<and>
    pp_state s1 = STARTUP \<and> src_flowsize s1 = 1000 \<and> src_last_acked s1 = 0 \<and> src_highest_sent s1 = 1500"
proof -
  let ?s = "ex_pp_small\<lparr>src_highest_sent := 0, src_last_acked := 0, pp_bdp_estimate := word_of_int (2 * MSS_BYTES)\<rparr>"
  obtain w1 s1 as where x: "pp_transmitPacketPair ex_world ?s = (w1, s1, as)" by (metis prod_cases3)
  have i: "pp_state ex_pp_small = IDLE" "src_flowsize ex_pp_small = 1000"
    by (simp_all add: ex_pp_small_def ex_pp_fields)
  have "pp_pair_seqs ?s = [1]"
    using i(2) by (simp add: pp_pair_seqs_def pp_flow_sent_def pp_limited_def Let_def MSS_BYTES_def word_le_nat_alt)
  then have q: "sent_seqs as = [1]" "src_flowsize s1 = 1000" "src_last_acked s1 = 0"
    using pp_transmit_spec(1,7,9) [OF x] i(2) by simp_all
  then have "length (sends as) = 1" by (auto simp: sent_seqs_def map_eq_Cons_conv)
  then have "src_highest_sent s1 = 1500" using pp_transmit_spec(14) [OF x] by (simp add: MSS_BYTES_def)
  then show ?thesis
    using i x q by (auto simp: pp_doNextEvent_def pp_startup_def Let_def)
qed

lemma pp_reliable_witness:
  "\<exists>s d F B R. net_reach pp_doNextEvent pp_receivePacket pp_sink_receivePacket ex_pp_small ex_pp_sink s d F B R \<and>
     pp_state s = FINISH \<and> 0 \<in> R"
proof -
  let ?reach = "net_reach pp_doNextEvent pp_receivePacket pp_sink_receivePacket ex_pp_small ex_pp_sink"
  have i: "src_highest_sent ex_pp_small = 0" "src_last_acked ex_pp_small = 0" "pp_state ex_pp_small = IDLE"
    "src_flowsize ex_pp_small = 1000" "src_duration ex_pp_small = 0"
    by (simp_all add: ex_pp_small_def ex_pp_fields)
  have z: "net_room ex_pp_small ex_pp_sink" "seqs_ok 0 ex_pp_small"
    by (simp_all add: net_room_def seqs_ok_def i ex_pp_sink_def)
  obtain w1 s1 as where e: "pp_doNextEvent ex_world ex_pp_small = Some (w1, s1, as)" "sent_seqs as = [1]"
      "pp_state s1 = STARTUP" "src_flowsize s1 = 1000" "src_last_acked s1 = 0" "src_highest_sent s1 = 1500"
    using pp_small_start by blast
  obtain f d a x t where r: "?reach (s1\<lparr>src_flow := f\<rparr>) d {#} {#a#} {0}"
      "p_class a = DataAck x 1500 t" "ds_cumulative_ack d = 1500"
    using pp_net.deliver_first [OF z(1) e(1,2) z(2)] by (auto simp: ex_pp_sink_def)
  let ?s = "s1\<lparr>src_flow := f\<rparr>"
  obtain w2 s2 bs where fin: "pp_receivePacket ex_world ?s a = Some (w2, s2, bs)" "pp_state s2 = FINISH"
    using r(2) e(3,4)
    by (auto simp: pp_receivePacket_def source_free_ack_eq pp_flow_done_def pp_finish_def
        word_le_nat_alt word_less_nat_alt)
  have "net_room ?s d" using e(5,6) r(3) by (simp add: net_room_def)
  then obtain F B R where run: "?reach s2 d F B R"
    using net_reach.ack [OF r(1) _ _ fin(1)] by auto
  have "unat (src_flowsize ex_pp_small) = 1000" by (simp add: i)
  then have "0 \<in> R"
    using pp_reliable [OF run] fin(2) by (simp add: i ex_pp_sink_def)
  then show ?thesis using run fin(2) by blast
qed

end
