(* ===== verification/TransportProps.thy ===== *)
theory TransportProps
  imports TransportTcp TransportTimely TransportPair
begin

text \<open>
  What holds for every transport protocol of the simulator: the packets that the sources and the
  sinks exchange have the classes to which the handlers cast them.
\<close>

text \<open>A flow before its first event.\<close>

definition fresh_ends :: "'a data_source_scheme \<Rightarrow> 'b data_sink_scheme \<Rightarrow> bool" where
  "fresh_ends s d \<longleftrightarrow> src_highest_sent s = 0 \<and> src_last_acked s = 0 \<and>
     ds_cumulative_ack d = 0 \<and> ds_received d = []"

text \<open>
  C31: the casts are right. Over any network, a TCP, Timely or packet pair source only sends full
  segments of class \<open>DataPacket\<close>, which its sink accepts, and a sink only answers with
  acknowledgements of 40 bytes of class \<open>DataAck\<close>.
\<close>

theorem transport_classes:
  "(fresh_ends s1 d1 \<and> t_state s1 = Tcp.flow_status.IDLE \<and>
     net_reach tcp_doNextEvent tcp_receivePacket tcp_sink_receivePacket s1 d1 s2 d2 F1 B1 R1
     \<longrightarrow> well_classed tcp_sink_receivePacket d2 F1 B1) \<and>
   (fresh_ends s3 d3 \<and> tm_state s3 = Timely.timely_status.IDLE \<and>
     net_reach timely_doNextEvent timely_receivePacket timely_sink_receivePacket s3 d3 s4 d4 F2 B2 R2
     \<longrightarrow> well_classed timely_sink_receivePacket d4 F2 B2) \<and>
   (fresh_ends s5 d5 \<and> pp_state s5 = PacketPair.pp_status.IDLE \<and>
     net_reach pp_doNextEvent pp_receivePacket pp_sink_receivePacket s5 d5 s6 d6 F3 B3 R3
     \<longrightarrow> well_classed pp_sink_receivePacket d6 F3 B3)"
  using tcp_net.classes [of s1 d1 s2 d2 F1 B1 R1] timely_net.classes [of s3 d3 s4 d4 F2 B2 R2]
    pp_net.classes [of s5 d5 s6 d6 F3 B3 R3]
  by (auto simp: fresh_ends_def)

lemma transport_classes_witness:
  "\<exists>u1 u2 u3 as1 as2 as3. sent_seqs as1 = [1, 1501] \<and> sent_seqs as2 = [1] \<and> sent_seqs as3 = [1] \<and>
     (\<exists>w. tcp_doNextEvent ex_world ex_short = Some (w, u1, as1)) \<and>
     (\<exists>w. timely_doNextEvent ex_world ex_timely_short = Some (w, u2, as2)) \<and>
     (\<exists>w. pp_doNextEvent ex_world ex_pp_small = Some (w, u3, as3)) \<and>
     well_classed tcp_sink_receivePacket ex_sink (mset (sends as1)) {#} \<and>
     well_classed timely_sink_receivePacket ex_sink (mset (sends as2)) {#} \<and>
     well_classed pp_sink_receivePacket ex_pp_sink (mset (sends as3)) {#}"
proof -
  have i: "src_highest_sent ex_pp_small = 0" "src_last_acked ex_pp_small = 0"
      "pp_state ex_pp_small = PacketPair.pp_status.IDLE"
    by (simp_all add: ex_pp_small_def ex_pp_fields)
  have z: "net_room ex_short ex_sink" "net_room ex_timely_short ex_sink" "net_room ex_pp_small ex_pp_sink"
    "fresh_ends ex_short ex_sink" "fresh_ends ex_timely_short ex_sink" "fresh_ends ex_pp_small ex_pp_sink"
    by (simp_all add: net_room_def fresh_ends_def ex_short_fields ex_timely_short_fields i ex_sink_def ex_pp_sink_def)
  obtain w1 u1 as1 where a: "tcp_doNextEvent ex_world ex_short = Some (w1, u1, as1)" "sent_seqs as1 = [1, 1501]"
    using tcp_flow_start [of ex_short ex_world] ex_short_fields by auto
  obtain w2 u2 as2 where b: "timely_doNextEvent ex_world ex_timely_short = Some (w2, u2, as2)" "sent_seqs as2 = [1]"
    using timely_short_start by blast
  obtain w3 u3 as3 where c: "pp_doNextEvent ex_world ex_pp_small = Some (w3, u3, as3)" "sent_seqs as3 = [1]"
    using pp_small_start by blast
  note r = net_reach_first [of _ _ tcp_doNextEvent, OF z(1) a(1), of tcp_receivePacket tcp_sink_receivePacket]
    net_reach_first [of _ _ timely_doNextEvent, OF z(2) b(1), of timely_receivePacket timely_sink_receivePacket]
    net_reach_first [of _ _ pp_doNextEvent, OF z(3) c(1), of pp_receivePacket pp_sink_receivePacket]
  have "well_classed tcp_sink_receivePacket ex_sink (mset (sends as1)) {#}"
    "well_classed timely_sink_receivePacket ex_sink (mset (sends as2)) {#}"
    "well_classed pp_sink_receivePacket ex_pp_sink (mset (sends as3)) {#}"
    using transport_classes [of ex_short ex_sink u1 ex_sink "mset (sends as1)" "{#}" "{}"
        ex_timely_short ex_sink u2 ex_sink "mset (sends as2)" "{#}" "{}"
        ex_pp_small ex_pp_sink u3 ex_pp_sink "mset (sends as3)" "{#}" "{}"] r z
    by (simp_all add: ex_short_fields ex_timely_short_fields i)
  then show ?thesis using a b c by blast
qed

end
