(* ===== verification/LoggersProps.thy ===== *)
theory LoggersProps
  imports Loggers
begin

text \<open>
  The queue sampler on a FIFO queue: its assertions hold in every run, and the records it writes are
  consistent.
\<close>

section \<open>A queue and its sampler\<close>

text \<open>The calls of \<open>logQueue\<close> among the actions of a queue; \<open>QLog\<close> holds the size the logger reads.\<close>

fun qs_feed :: "u64 \<Rightarrow> u32 \<Rightarrow> queue \<Rightarrow> action list \<Rightarrow> queue_sampler \<Rightarrow> queue_sampler option" where
  "qs_feed now qid q [] s = Some s"
| "qs_feed now qid q (QLog ev p sz # as) s = do {
     s \<leftarrow> qs_logQueue now qid (q\<lparr>q_queuesize := sz\<rparr>) ev p s;
     qs_feed now qid q as s
   }"
| "qs_feed now qid q (_ # as) s = qs_feed now qid q as s"

text \<open>Packets that fit twice into the buffer, so that a queue that drops one holds as much.\<close>

definition half_fits :: "queue \<Rightarrow> packet \<Rightarrow> bool" where
  "half_fits q p \<longleftrightarrow> fits q p \<and> 2 * unat (p_size p) \<le> unat (q_maxsize q)"

text \<open>A run: the queue, its sampler and the records the sampler has written.\<close>

inductive sampled :: "u32 \<Rightarrow> queue \<Rightarrow> queue_sampler \<Rightarrow> queue \<Rightarrow> queue_sampler \<Rightarrow> log_call list \<Rightarrow> bool"
  for qid q0 s0 where
  start: "sampled qid q0 s0 q0 s0 []"
| arrive: "sampled qid q0 s0 q s cs \<Longrightarrow> half_fits q p \<Longrightarrow> fifo_receivePacket q p = Some (q', as) \<Longrightarrow>
    qs_feed now qid q as s = Some s' \<Longrightarrow> sampled qid q0 s0 q' s' cs"
| serve: "sampled qid q0 s0 q s cs \<Longrightarrow> fifo_doNextEvent q = Some (q', as) \<Longrightarrow>
    qs_feed now qid q as s = Some s' \<Longrightarrow> sampled qid q0 s0 q' s' cs"
| period: "sampled qid q0 s0 q s cs \<Longrightarrow> qs_doNextEvent now q s = Some (s', cs', as) \<Longrightarrow>
    sampled qid q0 s0 q s' (cs @ cs')"

section \<open>Invariant\<close>

definition sampler_inv :: "u32 \<Rightarrow> queue \<Rightarrow> queue_sampler \<Rightarrow> bool" where
  "sampler_inv qid q s \<longleftrightarrow> q_logger q \<and>
     (qs_queue s \<noteq> None \<longrightarrow> qs_queue s = Some qid \<and> qs_lastq s = q_queuesize q) \<and>
     (qs_seenQueueInD s \<longrightarrow> qs_minQueueInD s \<le> qs_lastq s \<and> qs_lastq s \<le> qs_maxQueueInD s \<and>
        qs_maxQueueInD s \<le> q_maxsize q) \<and>
     qs_period s \<noteq> 0 \<and> dbl (qs_cumarr s) = qs_cumarr s \<and> 0 \<le> qs_cumdrop s \<and> qs_cumdrop s \<le> qs_cumarr s \<and>
     0 \<le> qs_cumidle s"

text \<open>
  A record of the range holds the size between the bounds and within the buffer, a cumulative record
  holds no more dropped than arrived work.
\<close>

fun record_ok :: "u64 \<Rightarrow> log_call \<Rightarrow> bool" where
  "record_ok limit (WriteRecord ty i ev v1 v2 v3) \<longleftrightarrow>
     (ty = 5 \<and> ev = 0 \<longrightarrow> v2 \<le> v1 \<and> v1 \<le> v3 \<and> v3 \<le> as_double limit) \<and>
     (ty = 4 \<longrightarrow> 0 \<le> v3 \<and> v3 \<le> v1 \<and> 0 \<le> v2)"
| "record_ok limit _ \<longleftrightarrow> True"

lemma as_double_mono: "x \<le> y \<Longrightarrow> as_double x \<le> as_double y"
  unfolding as_double_def by (rule dbl_mono) (simp only: of_nat_le_iff word_le_nat_alt)

lemma timeAsSec_nonneg: "0 \<le> timeAsSec t"
  unfolding timeAsSec_def by (intro dbl_nonneg ldbl_nonneg divide_nonneg_nonneg of_nat_0_le_iff) simp

lemma timeAsSec_nonzero: "t \<noteq> 0 \<Longrightarrow> timeAsSec t \<noteq> 0"
  using measured_rate_bound(1) [of t 0] by simp

lemma dbl_add_ge: "dbl x = x \<Longrightarrow> 0 \<le> d \<Longrightarrow> x \<le> dbl (x + d)"
  using dbl_mono [of x "x + d"] by simp

lemma qs_look_fields [simp]:
  "qs_queue (qs_look n s) = qs_queue s" "qs_lastq (qs_look n s) = n" "qs_seenQueueInD (qs_look n s)"
  "qs_minQueueInD (qs_look n s) \<le> n" "n \<le> qs_maxQueueInD (qs_look n s)"
  "qs_period (qs_look n s) = qs_period s" "qs_cumarr (qs_look n s) = qs_cumarr s"
  "qs_cumdrop (qs_look n s) = qs_cumdrop s" "qs_cumidle (qs_look n s) = qs_cumidle s"
  "qs_lastlook (qs_look n s) = qs_lastlook s"
  by (simp_all add: qs_look_def Let_def)

lemma qs_look_max:
  assumes "qs_seenQueueInD s \<longrightarrow> qs_maxQueueInD s \<le> m" "n \<le> m"
  shows "qs_maxQueueInD (qs_look n s) \<le> m"
  using assms by (simp add: qs_look_def Let_def)

lemma qs_logQueue_inv:
  assumes i: "sampler_inv qid q s" and n: "q_queuesize q' \<le> q_maxsize q'" "q_maxsize q' = q_maxsize q" "q_logger q' = q_logger q"
    and d: "ev = Q_DROP \<Longrightarrow> p_size p \<le> q_queuesize q'"
  shows "\<exists>s'. qs_logQueue now qid q' ev p s = Some s' \<and> sampler_inv qid q' s'"
proof -
  define a where "a = (s\<lparr>qs_queue := Some qid\<rparr>)"
  define b where "b = (qs_look (q_queuesize q') a)\<lparr>qs_lastlook := now\<rparr>"
  have g: "(case qs_queue s of None \<Rightarrow> Some (s\<lparr>qs_queue := Some qid\<rparr>)
      | Some qid' \<Rightarrow> if qid = qid' then Some s else None) = Some a"
    using i by (auto simp: sampler_inv_def a_def split: option.split)
  have "qs_maxQueueInD (qs_look (q_queuesize q') a) \<le> q_maxsize q'"
    using i n by (intro qs_look_max) (simp_all add: sampler_inv_def a_def)
  then have b: "sampler_inv qid q' b" using i n(3) by (simp add: sampler_inv_def a_def b_def)
  have e: "qs_logQueue now qid q' ev p s = (case ev of
        Q_SERVICE \<Rightarrow> Some (b\<lparr>qs_bytesInD := qs_bytesInD b + ucast (p_size p)\<rparr>)
      | Q_ENQUEUE \<Rightarrow> Some (qs_enqueued (now - qs_lastlook s) q' p b)
      | Q_DROP \<Rightarrow> qs_dropped q' p b)"
    unfolding qs_logQueue_def g by (cases ev) (simp_all add: Let_def b_def a_def)
  have w: "qs_cumarr b \<le> dbl (qs_cumarr b + timeAsSec t)" for t
    using b timeAsSec_nonneg [of t] by (intro dbl_add_ge) (simp_all add: sampler_inv_def)
  show ?thesis
  proof (cases ev)
    case Q_ENQUEUE
    have "0 \<le> dbl (qs_cumidle b + timeAsSec t)" for t
      using b timeAsSec_nonneg [of t] by (intro dbl_nonneg) (simp add: sampler_inv_def)
    then have "sampler_inv qid q' (qs_enqueued (now - qs_lastlook s) q' p b)"
      using b w [of "drainTime q' p"] by (auto simp: sampler_inv_def qs_enqueued_def Let_def)
    then show ?thesis using e Q_ENQUEUE by simp
  next
    case Q_DROP
    let ?t = "timeAsSec (drainTime q' p)"
    have "qs_cumdrop b + ?t \<le> qs_cumarr b + ?t" using b by (simp add: sampler_inv_def)
    then have "dbl (qs_cumdrop b + ?t) \<le> dbl (qs_cumarr b + ?t)" by (rule dbl_mono)
    moreover have "0 \<le> dbl (qs_cumdrop b + ?t)"
      using b timeAsSec_nonneg [of "drainTime q' p"] by (intro dbl_nonneg) (simp add: sampler_inv_def)
    ultimately show ?thesis
      using e Q_DROP d b by (auto simp: sampler_inv_def qs_dropped_def Let_def)
  next
    case Q_SERVICE
    then show ?thesis using e b by (simp add: sampler_inv_def)
  qed
qed

section \<open>The steps of a run\<close>

lemma qs_receive_step:
  assumes i: "fifo_inv q" "half_fits q p" "sampler_inv qid q s"
  shows "\<exists>q' as s'. fifo_receivePacket q p = Some (q', as) \<and> qs_feed now qid q as s = Some s' \<and>
    fifo_inv q' \<and> sampler_inv qid q' s' \<and> q_maxsize q' = q_maxsize q"
proof (cases "q_queuesize q + p_size p > q_maxsize q")
  case True
  have "unat (q_queuesize q) \<le> unat (q_maxsize q)" using i(1) by (simp add: fifo_inv_def word_le_nat_alt)
  then have "unat (q_queuesize q + p_size p) = unat (q_queuesize q) + unat (p_size p)"
    using i(2) by (intro unat_add_64) (simp add: half_fits_def fits_def)
  then have "p_size p \<le> q_queuesize q"
    using True i(2) by (simp add: word_less_nat_alt word_le_nat_alt half_fits_def)
  then show ?thesis
    using qs_logQueue_inv [OF i(3), of q Q_DROP p now] fifo_receive_drop [OF True] i(1,3)
    by (auto simp: qlog_def fifo_inv_def sampler_inv_def)
next
  case False
  let ?q = "q\<lparr>q_enqueued := p # q_enqueued q, q_queuesize := q_queuesize q + p_size p\<rparr>"
  let ?r = "q\<lparr>q_queuesize := q_queuesize q + p_size p\<rparr>"
  define bs where "bs = (if q_enqueued q = [] then [SchedRel (drainTime ?q p)] else [])"
  have r: "fifo_receivePacket q p = Some (?q, Traffic PKT_ARRIVE p # qlog ?q Q_ENQUEUE p @ bs)"
      "\<And>s. qs_feed now qid q bs s = Some s"
    using False by (simp_all add: fifo_receivePacket_def fifo_beginService_def Let_def bs_def)
  have inv: "fifo_inv ?q" using fifo_recv_inv [OF i(1) _ r(1)] i(2) by (simp add: half_fits_def)
  then obtain s' where "qs_logQueue now qid ?r Q_ENQUEUE p s = Some s'" "sampler_inv qid ?r s'"
    using qs_logQueue_inv [OF i(3), of ?r Q_ENQUEUE p now] by (auto simp: fifo_inv_def)
  then show ?thesis
    using r inv i(3) by (auto simp: qlog_def sampler_inv_def)
qed

lemma qs_serve_step:
  assumes i: "fifo_inv q" "sampler_inv qid q s" and ne: "q_enqueued q \<noteq> []"
  shows "\<exists>q' as s'. fifo_doNextEvent q = Some (q', as) \<and> qs_feed now qid q as s = Some s' \<and>
    fifo_inv q' \<and> sampler_inv qid q' s' \<and> q_maxsize q' = q_maxsize q"
proof -
  let ?p = "last (q_enqueued q)"
  let ?r = "q\<lparr>q_queuesize := q_queuesize q - p_size ?p\<rparr>"
  let ?q = "q\<lparr>q_enqueued := butlast (q_enqueued q), q_queuesize := q_queuesize q - p_size ?p\<rparr>"
  define bs where "bs = SendOn (applyEcnMark ?q ?p) #
    (if butlast (q_enqueued q) = [] then [] else [SchedRel (drainTime ?q (last (butlast (q_enqueued q))))])"
  have r: "fifo_doNextEvent q = Some (?q, Traffic PKT_DEPART ?p # qlog ?q Q_SERVICE ?p @ bs)"
      "\<And>s. qs_feed now qid q bs s = Some s"
    using ne by (simp_all add: fifo_doNextEvent_def fifo_completeService_def fifo_beginService_def Let_def bs_def)
  have inv: "fifo_inv ?q" using fifo_serve_inv [OF i(1) ne r(1)] .
  then obtain s' where "qs_logQueue now qid ?r Q_SERVICE ?p s = Some s'" "sampler_inv qid ?r s'"
    using qs_logQueue_inv [OF i(2), of ?r Q_SERVICE ?p now] by (auto simp: fifo_inv_def)
  then show ?thesis
    using r inv i(2) by (auto simp: qlog_def sampler_inv_def)
qed

lemma qs_period_step:
  assumes i: "fifo_inv q" "sampler_inv qid q s"
  shows "\<exists>s' cs as. qs_doNextEvent now q s = Some (s', cs, as) \<and> sampler_inv qid q s' \<and>
    (\<forall>c \<in> set cs. record_ok (q_maxsize q) c)"
proof (cases "qs_queue s")
  case None
  then show ?thesis using i(2) by (simp add: qs_doNextEvent_def)
next
  case (Some k)
  then have k: "k = qid" "qs_lastq s = q_queuesize q" using i(2) by (auto simp: sampler_inv_def)
  have nz: "timeAsSec (qs_period s) \<noteq> 0" using i(2) timeAsSec_nonzero by (simp add: sampler_inv_def)
  then obtain a b c where ov: "qs_overflow qid s = Some (WriteRecord 5 qid 1 a b c)"
    by (cases "qs_seenQueueInD s") (simp_all add: qs_overflow_def Let_def)
  define u where "u = s\<lparr>qs_seenQueueInD := False, qs_lastlook := now, qs_bytesInD := 0, qs_printed := False\<rparr>"
  define v where "v = (if q_queuesize q = 0 then u\<lparr>qs_cumidle := dbl (qs_cumidle u + timeAsSec (now - qs_lastlook s))\<rparr> else u)"
  have e: "qs_doNextEvent now q s = Some (v, [qs_range qid s, WriteRecord 5 qid 1 a b c,
      WriteRecord 4 qid 0 (qs_cumarr v) (qs_cumidle v) (qs_cumdrop v)], [SchedRel (qs_period s)])"
    using Some k ov by (simp add: qs_doNextEvent_def Let_def v_def u_def)
  have "0 \<le> dbl (qs_cumidle s + timeAsSec t)" for t
    using i(2) timeAsSec_nonneg [of t] by (intro dbl_nonneg) (simp add: sampler_inv_def)
  then have v: "sampler_inv qid q v" using i(2) by (simp add: sampler_inv_def v_def u_def)
  have "qs_lastq s \<le> q_maxsize q" using i(1) k(2) by (simp add: fifo_inv_def)
  then have "record_ok (q_maxsize q) (qs_range qid s)"
    using i(2) as_double_mono by (auto simp: qs_range_def sampler_inv_def)
  then show ?thesis using e v by (simp add: sampler_inv_def)
qed

lemma sampled_inv:
  assumes "sampled qid q0 s0 q s cs" "fifo_inv q0" "sampler_inv qid q0 s0"
  shows "fifo_inv q \<and> sampler_inv qid q s \<and> q_maxsize q = q_maxsize q0 \<and>
    (\<forall>c \<in> set cs. record_ok (q_maxsize q0) c)"
  using assms
proof (induction rule: sampled.induct)
  case start
  then show ?case by simp
next
  case (arrive q s cs p q' as now s')
  then have "fifo_inv q" "sampler_inv qid q s" by simp_all
  then show ?case
    using qs_receive_step [OF _ arrive.hyps(2), of qid s now] arrive by auto
next
  case (serve q s cs q' as now s')
  then have "fifo_inv q" "sampler_inv qid q s" by simp_all
  moreover have "q_enqueued q \<noteq> []"
    using serve.hyps(2) by (auto simp: fifo_doNextEvent_def fifo_completeService_def)
  ultimately show ?case using qs_serve_step [of q qid s now] serve by auto
next
  case (period q s cs now s' cs' as)
  then show ?case using qs_period_step [of q qid s now] by auto
qed

section \<open>Properties\<close>

text \<open>
  C39: the sampling logger on a FIFO queue, with a period that is not 0. As long as every packet fits twice into
  the buffer, no assertion of \<open>logQueue\<close> fails and no division by zero happens, whatever arrives and whenever the
  queue is served and sampled; every record of the range has the size between the bounds and within the
  buffer, and the cumulative record never shows more dropped than arrived work.
\<close>

theorem sampler_on_fifo:
  assumes "mkQueue bitrate maxsize True = Some q0" "period \<noteq> 0"
    and "s0 = fst (mkQueueLoggerSampling period m0 x0 d0 i0 a0 b0)"
    and "sampled qid q0 s0 q s cs"
  shows "(\<forall>c \<in> set cs. record_ok maxsize c) \<and>
    (half_fits q p \<longrightarrow>
      (\<exists>q' as s'. fifo_receivePacket q p = Some (q', as) \<and> qs_feed now qid q as s = Some s')) \<and>
    (q_enqueued q \<noteq> [] \<longrightarrow>
      (\<exists>q' as s'. fifo_doNextEvent q = Some (q', as) \<and> qs_feed now qid q as s = Some s')) \<and>
    (\<exists>s' cs' as. qs_doNextEvent now q s = Some (s', cs', as))"
proof -
  have q0: "fifo_inv q0" "q_maxsize q0 = maxsize" "q_logger q0"
    using assms(1) mkQueue_inv by (auto simp: mkQueue_def split: if_splits)
  have "sampler_inv qid q0 s0" using assms(2,3) q0(3) by (simp add: sampler_inv_def mkQueueLoggerSampling_def)
  then have r: "fifo_inv q" "sampler_inv qid q s" "\<forall>c \<in> set cs. record_ok maxsize c"
    using sampled_inv [OF assms(4) q0(1)] q0(2) by auto
  then show ?thesis
    using qs_receive_step [OF r(1) _ r(2)] qs_serve_step [OF r(1,2)] qs_period_step [OF r(1,2)] by blast
qed

lemma sampler_on_fifo_witness:
  "\<exists>q0 s0 q' as s'. mkQueue 10000000000 100000 True = Some q0 \<and>
     s0 = fst (mkQueueLoggerSampling 10000000 0 0 0 0 0 0) \<and>
     fifo_receivePacket q0 ex_full = Some (q', as) \<and> qs_feed 5 3 q0 as s0 = Some s'"
proof -
  define q0 where "q0 = the (mkQueue 10000000000 100000 True)"
  have m: "mkQueue 10000000000 100000 True = Some q0" by (simp add: q0_def mkQueue_def)
  have "half_fits q0 ex_full" by (simp add: q0_def mkQueue_def half_fits_def fits_def ex_full_def)
  then show ?thesis
    using sampler_on_fifo [OF m _ refl sampled.start, of 10000000 ex_full 5 3] m by auto
qed

end
