(* ===== verification/Experiment.thy ===== *)
theory Experiment
  imports LoggersProps RandomQ FairQ PrioQueue AprxFairQ StocFairQ Conga PipeModel FlowGen
begin

text \<open>
  What the experiments share: \<open>main.cpp\<close> and \<open>test.h\<close>, the arguments of the program and the choice of
  the experiment, and the objects an experiment creates, with their ids (\<open>logged.h\<close>), names and entries in
  the log file. An uncaught exception and undefined behaviour are \<open>None\<close>.
\<close>

section \<open>Numbers in arguments\<close>

text \<open>\<open>stoul\<close> and \<open>stoull\<close> of the standard library, on 64 bits; \<open>stod\<close> on decimal numbers.\<close>

definition code_of :: "char \<Rightarrow> nat" where "code_of c = of_char c"

definition is_digit :: "char \<Rightarrow> bool" where "is_digit c \<longleftrightarrow> 48 \<le> code_of c \<and> code_of c \<le> 57"

definition skip_spaces :: "string \<Rightarrow> string" where
  "skip_spaces s = dropWhile (\<lambda>c. code_of c = 32 \<or> (9 \<le> code_of c \<and> code_of c \<le> 13)) s"

definition read_sign :: "string \<Rightarrow> bool \<times> string" where
  "read_sign s = (case s of
      c # t \<Rightarrow> if c = CHR ''-'' then (True, t) else if c = CHR ''+'' then (False, t) else (False, s)
    | [] \<Rightarrow> (False, []))"

definition digits_value :: "string \<Rightarrow> nat" where
  "digits_value ds = foldl (\<lambda>n c. n * 10 + (code_of c - 48)) 0 ds"

definition stoull :: "string \<Rightarrow> u64 option" where
  "stoull s =
     (let (neg, t) = read_sign (skip_spaces s);
          ds = takeWhile is_digit t
      in if ds = [] \<or> digits_value ds \<ge> 2 ^ 64 then None
         else Some (if neg then - of_nat (digits_value ds) else of_nat (digits_value ds)))"

definition stod :: "string \<Rightarrow> rat option" where
  "stod s =
     (let (neg, t) = read_sign (skip_spaces s);
          ip = takeWhile is_digit t; t = dropWhile is_digit t;
          fp = (case t of c # u \<Rightarrow> if c = CHR ''.'' then takeWhile is_digit u else [] | [] \<Rightarrow> []);
          t = (case t of c # u \<Rightarrow> if c = CHR ''.'' then dropWhile is_digit u else t | [] \<Rightarrow> []);
          ex = (case t of
              c # u \<Rightarrow> if c = CHR ''e'' \<or> c = CHR ''E''
                then let (eneg, v) = read_sign u; e = int (digits_value (takeWhile is_digit v))
                     in if eneg then - e else e
                else 0
            | [] \<Rightarrow> 0);
          x = dbl (of_nat (digits_value (ip @ fp)) * 10 powi (ex - int (length fp)))
      in if ip = [] \<and> fp = [] \<or> x \<ge> 2 ^ 1024 then None else Some (if neg then - x else x))"

section \<open>Arguments\<close>

type_synonym arg_list = "string \<rightharpoonup> string"

text \<open>The functions return the value the argument has afterwards, \<open>val\<close> being the default.\<close>

definition parseInt :: "arg_list \<Rightarrow> string \<Rightarrow> u32 \<Rightarrow> u32 option" where
  "parseInt args str val =
     (case args str of Some x \<Rightarrow> map_option (\<lambda>v. ucast v) (stoull x) | None \<Rightarrow> Some val)"

definition parseLongInt :: "arg_list \<Rightarrow> string \<Rightarrow> u64 \<Rightarrow> u64 option" where
  "parseLongInt args str val = (case args str of Some x \<Rightarrow> stoull x | None \<Rightarrow> Some val)"

definition parseDouble :: "arg_list \<Rightarrow> string \<Rightarrow> rat \<Rightarrow> rat option" where
  "parseDouble args str val = (case args str of Some x \<Rightarrow> stod x | None \<Rightarrow> Some val)"

definition parseString :: "arg_list \<Rightarrow> string \<Rightarrow> string \<Rightarrow> string" where
  "parseString args str val = (case args str of Some x \<Rightarrow> x | None \<Rightarrow> val)"

text \<open>
  The arguments after the program's name. An argument without \<open>=\<close> makes \<open>strchr\<close> return a null pointer,
  with which the code computes.
\<close>

fun parseArgs :: "string list \<Rightarrow> arg_list \<Rightarrow> arg_list option" where
  "parseArgs [] args = Some args"
| "parseArgs (a # as) args =
     (if take 2 a \<noteq> ''--'' then parseArgs as args
      else if CHR ''='' \<notin> set a then None
      else let arg = takeWhile (\<lambda>c. c \<noteq> CHR ''='') (drop 2 a);
               val = tl (dropWhile (\<lambda>c. c \<noteq> CHR ''='') (drop 2 a))
           in parseArgs as (args(arg \<mapsto> val)))"

datatype experiment_kind = SINGLE_LINK | CONGA_TESTBED | FAT_TREE_TESTBED | SIMP_SINGLE_LINK

definition run_experiment :: "u32 \<Rightarrow> experiment_kind option" where
  "run_experiment expt =
     (if expt = 1 then Some SINGLE_LINK
      else if expt = 2 then Some CONGA_TESTBED
      else if expt = 3 then Some FAT_TREE_TESTBED
      else if expt = 4 then Some SIMP_SINGLE_LINK
      else None)"

text \<open>
  The part of \<open>main\<close> before the experiment: the path of the log, the seed and the number of the
  experiment, 0 for the usage text.
\<close>

definition main_options :: "string list \<Rightarrow> (string \<times> u32 \<times> u32) option" where
  "main_options argv = do {
     args \<leftarrow> parseArgs (tl argv) Map.empty;
     let logpath = parseString args ''logfile'' ''data/htsim-log'';
     rngSeed \<leftarrow> parseInt args ''rngseed'' 1729;
     expt \<leftarrow> parseInt args ''expt'' 0;
     Some (logpath, rngSeed, expt)
   }"

end
