(* ===== verification/ExperimentProps.thy ===== *)
theory ExperimentProps
  imports Experiment
begin

text \<open>Numbers given on the command line reach the experiment.\<close>

section \<open>Numbers\<close>

lemma code_of_digit: "d < 10 \<Longrightarrow> code_of (char_of (48 + d)) = 48 + d"
  by (simp add: code_of_def)

lemma digits_value_snoc: "digits_value (ds @ [c]) = digits_value ds * 10 + (code_of c - 48)"
  by (simp add: digits_value_def)

lemma to_string_digits:
  "(\<forall>c \<in> set (to_string n). is_digit c) \<and> digits_value (to_string n) = n \<and> to_string n \<noteq> []"
proof (induction n rule: to_string.induct)
  case (1 n)
  show ?case
  proof (cases "n < 10")
    case True
    then show ?thesis by (simp add: to_string.simps [of n] is_digit_def digits_value_def code_of_digit)
  next
    case False
    have "is_digit (char_of (48 + n mod 10))" by (simp add: is_digit_def code_of_digit)
    then show ?thesis
      using 1 False by (simp add: to_string.simps [of n] digits_value_snoc code_of_digit)
  qed
qed

lemma digit_not_special:
  assumes "is_digit c"
  shows "c \<noteq> CHR ''-''" "c \<noteq> CHR ''+''" "c \<noteq> CHR ''=''" "code_of c \<noteq> 32" "\<not> (9 \<le> code_of c \<and> code_of c \<le> 13)"
  using assms by (auto simp: is_digit_def code_of_def)

lemma stoull_to_string:
  assumes "n < 2 ^ 64"
  shows "stoull (to_string n) = Some (of_nat n)"
proof -
  note d = to_string_digits [of n]
  obtain c s where cs: "to_string n = c # s" using d by (cases "to_string n") auto
  then have c: "is_digit c" using d by simp
  have "skip_spaces (to_string n) = to_string n"
    using digit_not_special(4,5) [OF c] by (auto simp: skip_spaces_def cs)
  moreover have "read_sign (to_string n) = (False, to_string n)"
    using digit_not_special(1,2) [OF c] by (simp add: read_sign_def cs)
  moreover have tw: "takeWhile is_digit (to_string n) = to_string n" using d by (simp add: takeWhile_eq_all_conv)
  ultimately show ?thesis using d assms by (simp add: stoull_def Let_def tw)
qed

section \<open>Arguments\<close>

definition arg_of :: "string \<times> nat \<Rightarrow> string" where
  "arg_of = (\<lambda>(name, n). ''--'' @ name @ ''='' @ to_string n)"

lemma parseArgs_arg_of:
  assumes "CHR ''='' \<notin> set name"
  shows "parseArgs (arg_of (name, n) # as) args = parseArgs as (args(name \<mapsto> to_string n))"
proof -
  have "takeWhile (\<lambda>c. c \<noteq> CHR ''='') (name @ ''='' @ to_string n) = name"
    "dropWhile (\<lambda>c. c \<noteq> CHR ''='') (name @ ''='' @ to_string n) = ''='' @ to_string n"
    using assms by (induction name) auto
  then show ?thesis by (simp add: arg_of_def)
qed

lemma parseArgs_args_of:
  assumes "\<forall>(name, n) \<in> set opts. CHR ''='' \<notin> set name"
  shows "parseArgs (map arg_of opts) args = Some (args ++ map_of (rev (map (\<lambda>(name, n). (name, to_string n)) opts)))"
  using assms
proof (induction opts arbitrary: args)
  case (Cons a opts)
  obtain name n where a: "a = (name, n)" by fastforce
  then have "CHR ''='' \<notin> set name" "\<forall>(name, n) \<in> set opts. CHR ''='' \<notin> set name" using Cons.prems by auto
  note Cons.IH [OF this(2), of "args(name \<mapsto> to_string n)"] parseArgs_arg_of [OF this(1), of n "map arg_of opts" args]
  then have "parseArgs (map arg_of (a # opts)) args =
      Some (args(name \<mapsto> to_string n) ++ map_of (rev (map (\<lambda>(name, n). (name, to_string n)) opts)))"
    unfolding a list.map by (simp only:)
  then show ?case by (simp add: a del: parseArgs.simps)
qed simp

text \<open>
  C40: the arguments of the program. Options \<open>--name=n\<close>, of whatever names without \<open>=\<close>, are read back:
  \<open>parseLongInt\<close> returns the number for each name, the last one where a name is repeated, \<open>parseInt\<close>
  its lower 32 bits, and both return the default for a name that was not given.
\<close>

theorem args_roundtrip:
  assumes "\<forall>(name, n) \<in> set opts. CHR ''='' \<notin> set name \<and> n < 2 ^ 64"
  shows "\<exists>args. parseArgs (map arg_of opts) Map.empty = Some args \<and>
    (\<forall>name. case map_of (rev opts) name of
       Some n \<Rightarrow> parseLongInt args name d = Some (of_nat n) \<and> parseInt args name e = Some (of_nat n)
     | None \<Rightarrow> parseLongInt args name d = Some d \<and> parseInt args name e = Some e)"
proof -
  define args where "args = map_of (rev (map (\<lambda>(name, n). (name, to_string n)) opts))"
  have p: "parseArgs (map arg_of opts) Map.empty = Some args"
    using parseArgs_args_of [of opts Map.empty] assms by (auto simp: args_def)
  have m: "args name = map_option to_string (map_of (rev opts) name)" for name
    unfolding args_def rev_map map_of_map by simp
  have lim: "n < 2 ^ 64" if "map_of (rev opts) name = Some n" for name n
    using map_of_SomeD [OF that] assms by auto
  have "case map_of (rev opts) name of
       Some n \<Rightarrow> parseLongInt args name d = Some (of_nat n) \<and> parseInt args name e = Some (of_nat n)
     | None \<Rightarrow> parseLongInt args name d = Some d \<and> parseInt args name e = Some e" for name
  proof (cases "map_of (rev opts) name")
    case None
    then show ?thesis by (simp add: parseLongInt_def parseInt_def m)
  next
    case (Some n)
    have "unat (of_nat n :: u64) = n" using lim [OF Some] by (simp only: unat_of_nat) simp
    then have "unat (ucast (of_nat n :: u64) :: u32) = unat (of_nat n :: u32)"
      by (simp only: unsigned_ucast_eq unat_of_nat) (simp add: take_bit_eq_mod)
    then have "(ucast (of_nat n :: u64) :: u32) = of_nat n" by (rule unsigned_word_eqI)
    then show ?thesis
      using Some stoull_to_string [OF lim [OF Some]] by (simp add: parseLongInt_def parseInt_def m)
  qed
  then show ?thesis using p by blast
qed

lemma args_roundtrip_witness:
  "\<exists>args. parseArgs (map arg_of [(''expt'', 3), (''linkspeed'', 10000000000)]) Map.empty = Some args \<and>
     parseInt args ''expt'' 0 = Some 3 \<and> parseLongInt args ''linkspeed'' 0 = Some 10000000000 \<and>
     parseInt args ''linkspeed'' 0 = Some 1410065408"
proof -
  obtain args where a: "parseArgs (map arg_of [(''expt'', 3), (''linkspeed'', 10000000000)]) Map.empty = Some args"
    "\<forall>name. case map_of (rev [(''expt'', 3), (''linkspeed'', 10000000000)]) name of
       Some n \<Rightarrow> parseLongInt args name 0 = Some (of_nat n) \<and> parseInt args name 0 = Some (of_nat n)
     | None \<Rightarrow> parseLongInt args name 0 = Some 0 \<and> parseInt args name 0 = Some 0"
    using args_roundtrip [of "[(''expt'', 3), (''linkspeed'', 10000000000)]" 0 0] by auto
  show ?thesis using a(1) a(2) [rule_format, of "''expt''"] a(2) [rule_format, of "''linkspeed''"] by simp
qed

end
