(* ===== verification/Lab.thy ===== *)
theory Lab
  imports Experiment
begin

text \<open>
  The objects of an experiment: queues with their samplers, pipes and the log file with the names. An
  object is named by a value of a type \<open>'e\<close> that has one constructor for each array or variable of the
  experiment. The ids come from the counter of \<open>Logged\<close>, in the order of construction.
\<close>

section \<open>State\<close>

datatype any_queue =
    Droptail queue | Fair fair_queue | Aprx afq | Prio prio_queue | Stoc sfq | Core core_queue

record 'e lab =
  lb_lastid :: u32
  lb_ids :: "'e \<rightharpoonup> u32"
  lb_names :: "'e \<rightharpoonup> string"
  lb_queues :: "'e \<rightharpoonup> any_queue"
  lb_pipes :: "'e \<rightharpoonup> pipe"
  lb_samplers :: "'e \<rightharpoonup> u32 \<times> queue_sampler"
  lb_events :: "(u32 \<times> u64) list"
  lb_log :: logfile

text \<open>What memory holds where a constructor leaves members uninitialised.\<close>

record junk =
  jk_words :: "nat \<Rightarrow> u64"
  jk_packet :: "packet option"

section \<open>Operations\<close>

text \<open>A queue or a pipe as a new object; \<open>setName\<close> and \<open>logfile.writeName(x->id, x->str())\<close>.\<close>

definition lab_addQueue :: "'e \<Rightarrow> any_queue \<Rightarrow> 'e lab \<Rightarrow> 'e lab" where
  "lab_addQueue e q l = l\<lparr>lb_ids := (lb_ids l)(e \<mapsto> lb_lastid l), lb_lastid := lb_lastid l + 1,
     lb_queues := (lb_queues l)(e \<mapsto> q)\<rparr>"

definition lab_addPipe :: "'e \<Rightarrow> u64 \<Rightarrow> 'e lab \<Rightarrow> 'e lab" where
  "lab_addPipe e delay l = l\<lparr>lb_ids := (lb_ids l)(e \<mapsto> lb_lastid l), lb_lastid := lb_lastid l + 1,
     lb_pipes := (lb_pipes l)(e \<mapsto> mkPipe delay)\<rparr>"

text \<open>A sampler for the queue \<open>e\<close>, which is created before the queue and schedules its first event.\<close>

definition lab_addSampler :: "junk \<Rightarrow> 'e \<Rightarrow> u64 \<Rightarrow> 'e lab \<Rightarrow> 'e lab" where
  "lab_addSampler j e period l =
     (let (s, as) = mkQueueLoggerSampling period (jk_words j 0) (jk_words j 1) (jk_words j 2) (jk_words j 3)
            (sint (ucast (jk_words j 4) :: u32)) (sint (ucast (jk_words j 5) :: u32))
      in l\<lparr>lb_samplers := (lb_samplers l)(e \<mapsto> (lb_lastid l, s)), lb_lastid := lb_lastid l + 1,
           lb_events := lb_events l @ concat (map (\<lambda>a. case a of SchedRel t \<Rightarrow> [(lb_lastid l, t)] | _ \<Rightarrow> []) as)\<rparr>)"

definition lab_setName :: "'e \<Rightarrow> string \<Rightarrow> 'e lab \<Rightarrow> 'e lab" where
  "lab_setName e name l = l\<lparr>lb_names := (lb_names l)(e \<mapsto> name)\<rparr>"

text \<open>Both arguments of \<open>writeName\<close> come from objects; an object that does not exist is a null pointer.\<close>

definition lab_writeName :: "'e \<Rightarrow> 'e \<Rightarrow> 'e lab \<Rightarrow> 'e lab option" where
  "lab_writeName e e' l = do {
     i \<leftarrow> lb_ids l e;
     name \<leftarrow> lb_names l e';
     Some (l\<lparr>lb_log := writeName i name (lb_log l)\<rparr>)
   }"

definition lab_named :: "'e \<Rightarrow> string \<Rightarrow> 'e lab \<Rightarrow> 'e lab option" where
  "lab_named e name l = lab_writeName e e (lab_setName e name l)"

text \<open>A counting loop whose body may fail.\<close>

fun for_upto :: "nat list \<Rightarrow> (nat \<Rightarrow> 's \<Rightarrow> 's option) \<Rightarrow> 's \<Rightarrow> 's option" where
  "for_upto [] body s = Some s"
| "for_upto (i # is) body s = do { s \<leftarrow> body i s; for_upto is body s }"

section \<open>What has been built\<close>

text \<open>
  \<open>built\<close>: the objects of \<open>E\<close> exist with their own ids, all below the counter, and are the queues and
  pipes that \<open>qspec\<close> and \<open>pspec\<close> ask for; \<open>named\<close>: the log file maps the ids of \<open>E\<close> to their names.
\<close>

definition built :: "('e \<Rightarrow> any_queue option) \<Rightarrow> ('e \<Rightarrow> pipe option) \<Rightarrow> 'e set \<Rightarrow> 'e lab \<Rightarrow> bool" where
  "built qspec pspec E l \<longleftrightarrow>
     (\<forall>e \<in> E. (\<exists>i. lb_ids l e = Some i \<and> i < lb_lastid l) \<and> lb_queues l e = qspec e \<and> lb_pipes l e = pspec e) \<and>
     inj_on (lb_ids l) E \<and> dom (lb_ids l) = E \<and> dom (lb_queues l) \<subseteq> E \<and> dom (lb_pipes l) \<subseteq> E"

definition named :: "('e \<Rightarrow> string) \<Rightarrow> 'e set \<Rightarrow> 'e lab \<Rightarrow> bool" where
  "named nm E l \<longleftrightarrow> (\<forall>e \<in> E. \<exists>i. lb_ids l e = Some i \<and> lf_idNameMap (lb_log l) i = Some (nm e))"

lemma built_id:
  assumes "built qspec pspec E l" "e \<in> E"
  obtains i where "lb_ids l e = Some i" "i < lb_lastid l"
  using assms by (force simp: built_def)

lemma built_id_unique:
  assumes "built qspec pspec E l" "x \<in> E" "y \<in> E" "lb_ids l x = Some i" "lb_ids l y = Some i"
  shows "x = y"
proof -
  have "inj_on (lb_ids l) E" using assms(1) by (simp add: built_def)
  then show ?thesis using assms(2-5) by (simp add: inj_on_def)
qed

lemma lastid_Suc:
  assumes "unat (lb_lastid l) + 1 < 2 ^ 32"
  shows "unat (lb_lastid l + 1) = unat (lb_lastid l) + 1" "lb_lastid l < lb_lastid l + 1"
  using assms by (simp_all add: unat_word_ariths word_less_nat_alt)

text \<open>A new object with the next id.\<close>

lemma built_new:
  assumes b: "built qspec pspec E l" and e: "e \<notin> E" and r: "unat (lb_lastid l) + 1 < 2 ^ 32"
    and l': "lb_ids l' = (lb_ids l)(e \<mapsto> lb_lastid l)" "lb_lastid l' = lb_lastid l + 1"
      "lb_queues l' = (lb_queues l)(e := qspec e)" "lb_pipes l' = (lb_pipes l)(e := pspec e)"
  shows "built qspec pspec (insert e E) l'"
proof -
  note s = lastid_Suc [OF r]
  have old: "\<exists>i. lb_ids l' x = Some i \<and> i < lb_lastid l'" if "x \<in> E" for x
  proof -
    obtain i where i: "lb_ids l x = Some i" "i < lb_lastid l" using built_id [OF b \<open>x \<in> E\<close>] .
    moreover have "x \<noteq> e" using that e by blast
    ultimately show ?thesis using s(2) l'(1,2) by (auto intro: less_trans)
  qed
  have new: "lb_ids l x \<noteq> Some (lb_lastid l)" if "x \<in> E" for x
    by (rule built_id [OF b that]) auto
  have B: "\<forall>x \<in> E. lb_queues l x = qspec x \<and> lb_pipes l x = pspec x" "inj_on (lb_ids l) E" "dom (lb_ids l) = E"
    "dom (lb_queues l) \<subseteq> E" "dom (lb_pipes l) \<subseteq> E"
    using b unfolding built_def by blast+
  have "lb_ids l' x = lb_ids l x" if "x \<in> E" for x using that e l'(1) by auto
  then have "inj_on (lb_ids l') E" using B(2) by (simp cong: inj_on_cong)
  moreover have "lb_ids l' e \<notin> lb_ids l' ` (E - {e})"
  proof
    assume "lb_ids l' e \<in> lb_ids l' ` (E - {e})"
    then obtain x where "x \<in> E" "x \<noteq> e" "lb_ids l' e = lb_ids l' x" by blast
    then show False using new [of x] l'(1) by simp
  qed
  ultimately have inj: "inj_on (lb_ids l') (insert e E)" by simp
  have ex: "\<exists>i. lb_ids l' x = Some i \<and> i < lb_lastid l'" if "x \<in> insert e E" for x
  proof (cases "x = e")
    case True
    then show ?thesis using s(2) l'(1,2) by simp
  next
    case False
    then show ?thesis using old [of x] that by simp
  qed
  have sp: "lb_queues l' x = qspec x \<and> lb_pipes l' x = pspec x" if "x \<in> insert e E" for x
    using that B(1) l'(3,4) by (cases "x = e") auto
  have "dom (lb_ids l') = insert e E" "dom (lb_queues l') \<subseteq> insert e E" "dom (lb_pipes l') \<subseteq> insert e E"
    using B(3-5) l' by (auto split: if_splits)
  then show ?thesis using ex sp inj unfolding built_def by simp
qed

lemma built_cong:
  assumes "built qspec pspec E l" "lb_ids l' = lb_ids l" "lb_lastid l \<le> lb_lastid l'"
    and "lb_queues l' = lb_queues l" "lb_pipes l' = lb_pipes l"
  shows "built qspec pspec E l'"
proof -
  have "\<exists>i. lb_ids l' e = Some i \<and> i < lb_lastid l'" if "e \<in> E" for e
    by (rule built_id [OF assms(1) that]) (use assms(2,3) in \<open>auto intro: less_le_trans\<close>)
  then show ?thesis using assms unfolding built_def by simp
qed

lemma named_new:
  assumes "named nm F l" "e \<notin> F" "lb_ids l' = (lb_ids l)(e \<mapsto> i)" "lb_log l' = lb_log l"
  shows "named nm F l'"
  using assms by (auto simp: named_def)

lemma lab_named_some:
  assumes b: "built qspec pspec E l" and f: "named nm F l" "F \<subseteq> E" and e: "e \<in> E" "nm e = name"
  shows "\<exists>l'. lab_named e name l = Some l' \<and> built qspec pspec E l' \<and> named nm (insert e F) l' \<and>
    lb_lastid l' = lb_lastid l"
proof -
  obtain i where i: "lb_ids l e = Some i" using b e by (auto simp: built_def)
  define l' where "l' = (lab_setName e name l)\<lparr>lb_log := writeName i name (lb_log l)\<rparr>"
  have s: "lab_named e name l = Some l'"
    using i by (simp add: lab_named_def lab_writeName_def lab_setName_def l'_def)
  have "built qspec pspec E l'"
    by (rule built_cong [OF b]) (simp_all add: l'_def lab_setName_def)
  moreover have "named nm (insert e F) l'"
    unfolding named_def
  proof
    fix x
    assume x: "x \<in> insert e F"
    then obtain k where k: "lb_ids l x = Some k" using b f(2) e(1) by (auto simp: built_def)
    have "k = i \<longrightarrow> x = e"
      using built_id_unique [OF b, of x e] k i x f(2) e(1) by auto
    moreover have "x \<noteq> e \<longrightarrow> lf_idNameMap (lb_log l) k = Some (nm x)"
      using f(1) k x by (auto simp: named_def)
    ultimately show "\<exists>i. lb_ids l' x = Some i \<and> lf_idNameMap (lb_log l') i = Some (nm x)"
      using k i e(2) by (auto simp: l'_def lab_setName_def writeName_def write_id_def)
  qed
  moreover have "lb_lastid l' = lb_lastid l" by (simp add: l'_def lab_setName_def)
  ultimately show ?thesis using s by blast
qed

section \<open>Programs that build\<close>

text \<open>\<open>f\<close> creates and names exactly the objects of \<open>L\<close> and takes \<open>c\<close> ids.\<close>

definition adds ::
  "('e \<Rightarrow> any_queue option) \<Rightarrow> ('e \<Rightarrow> pipe option) \<Rightarrow> ('e \<Rightarrow> string) \<Rightarrow> 'e set \<Rightarrow> nat \<Rightarrow>
     ('e lab \<Rightarrow> 'e lab option) \<Rightarrow> bool" where
  "adds qspec pspec nm L c f \<longleftrightarrow>
     (\<forall>E l. built qspec pspec E l \<and> named nm E l \<and> E \<inter> L = {} \<and> unat (lb_lastid l) + c < 2 ^ 32 \<longrightarrow>
        (\<exists>l'. f l = Some l' \<and> built qspec pspec (E \<union> L) l' \<and> named nm (E \<union> L) l' \<and>
           unat (lb_lastid l') = unat (lb_lastid l) + c))"

lemma adds_seq:
  assumes f: "adds qspec pspec nm L c f" and g: "adds qspec pspec nm M d g" and "L \<inter> M = {}"
  shows "adds qspec pspec nm (L \<union> M) (c + d) (\<lambda>l. Option.bind (f l) g)"
  unfolding adds_def
proof (intro allI impI, elim conjE)
  fix E l
  assume a: "built qspec pspec E l" "named nm E l" "E \<inter> (L \<union> M) = {}" "unat (lb_lastid l) + (c + d) < 2 ^ 32"
  then have "E \<inter> L = {}" "unat (lb_lastid l) + c < 2 ^ 32" by auto
  then obtain l1 where l1: "f l = Some l1" "built qspec pspec (E \<union> L) l1" "named nm (E \<union> L) l1"
      "unat (lb_lastid l1) = unat (lb_lastid l) + c"
    using f a(1,2) unfolding adds_def by blast
  have "(E \<union> L) \<inter> M = {}" "unat (lb_lastid l1) + d < 2 ^ 32" using a(3,4) assms(3) l1(4) by auto
  then obtain l2 where "g l1 = Some l2" "built qspec pspec (E \<union> L \<union> M) l2" "named nm (E \<union> L \<union> M) l2"
      "unat (lb_lastid l2) = unat (lb_lastid l1) + d"
    using g l1(2,3) unfolding adds_def by blast
  then show "\<exists>l'. Option.bind (f l) g = Some l' \<and> built qspec pspec (E \<union> (L \<union> M)) l' \<and>
      named nm (E \<union> (L \<union> M)) l' \<and> unat (lb_lastid l') = unat (lb_lastid l) + (c + d)"
    using l1(1,4) by (simp add: Un_assoc)
qed

lemma adds_none: "adds qspec pspec nm {} 0 Some"
  by (simp add: adds_def)

lemma for_upto_Nil: "for_upto [] body = Some"
  by (rule ext) simp

lemma for_upto_append: "for_upto (is @ js) body s = Option.bind (for_upto is body s) (for_upto js body)"
proof (induction "is" arbitrary: s)
  case (Cons i "is")
  then show ?case by (cases "body i s") simp_all
qed simp

lemma for_upto_single: "for_upto [i] body = body i"
proof
  fix s
  show "for_upto [i] body s = body i s" by (cases "body i s") simp_all
qed

lemma adds_for:
  assumes "\<And>i. i < n \<Longrightarrow> adds qspec pspec nm (L i) c (body i)"
    and "\<And>i j. i < j \<Longrightarrow> j < n \<Longrightarrow> L i \<inter> L j = {}"
  shows "adds qspec pspec nm (\<Union>i<n. L i) (n * c) (for_upto [0..<n] body)"
  using assms
proof (induction n)
  case 0
  then show ?case using adds_none by (simp add: for_upto_Nil)
next
  case (Suc n)
  have "(\<Union>i<n. L i) \<inter> L n = {}" using Suc.prems(2) by fastforce
  moreover have "adds qspec pspec nm (\<Union>i<n. L i) (n * c) (for_upto [0..<n] body)"
    by (rule Suc.IH) (use Suc.prems in auto)
  ultimately have "adds qspec pspec nm ((\<Union>i<n. L i) \<union> L n) (n * c + c)
      (\<lambda>l. Option.bind (for_upto [0..<n] body l) (body n))"
    using Suc.prems(1) [of n] by (intro adds_seq) simp_all
  moreover have "(\<lambda>l. Option.bind (for_upto [0..<n] body l) (body n)) = for_upto [0..<Suc n] body"
    by (rule ext) (simp add: for_upto_append for_upto_single)
  moreover have "(\<Union>i<n. L i) \<union> L n = (\<Union>i<Suc n. L i)" by (auto simp: less_Suc_eq)
  ultimately show ?case by (simp add: add.commute)
qed

lemma adds_for_2:
  assumes "\<And>i j. i < n \<Longrightarrow> j < m \<Longrightarrow> adds qspec pspec nm (L i j) c (body i j)"
    and "\<And>i j i' j'. (i, j) \<noteq> (i', j') \<Longrightarrow> L i j \<inter> L i' j' = {}"
  shows "adds qspec pspec nm (\<Union>i<n. \<Union>j<m. L i j) (n * (m * c))
    (for_upto [0..<n] (\<lambda>i. for_upto [0..<m] (body i)))"
proof (intro adds_for assms(1))
  show "(\<Union>j<m. L i j) \<inter> (\<Union>j<m. L i' j) = {}" if "i < i'" "i' < n" for i i'
    using that assms(2) [of i _ i'] by blast
  show "L i j \<inter> L i j' = {}" if "j < j'" "j' < m" for i j j'
    using that assms(2) [of i j i j'] by simp
qed

text \<open>A queue or a pipe with its name, a sampler, and the same before more of the program.\<close>

lemma built_addQueue:
  assumes "built qspec pspec E l" "e \<notin> E" "unat (lb_lastid l) + 1 < 2 ^ 32" "qspec e = Some q" "pspec e = None"
  shows "built qspec pspec (insert e E) (lab_addQueue e q l)"
proof (rule built_new [OF assms(1-3)])
  have "lb_pipes l e = None" using assms(1,2) by (auto simp: built_def)
  then show "lb_pipes (lab_addQueue e q l) = (lb_pipes l)(e := pspec e)"
    using assms(5) by (simp add: lab_addQueue_def fun_upd_idem)
qed (simp_all add: lab_addQueue_def assms(4))

lemma built_addPipe:
  assumes "built qspec pspec E l" "e \<notin> E" "unat (lb_lastid l) + 1 < 2 ^ 32" "qspec e = None"
    and "pspec e = Some (mkPipe d)"
  shows "built qspec pspec (insert e E) (lab_addPipe e d l)"
proof (rule built_new [OF assms(1-3)])
  have "lb_queues l e = None" using assms(1,2) by (auto simp: built_def)
  then show "lb_queues (lab_addPipe e d l) = (lb_queues l)(e := qspec e)"
    using assms(4) by (simp add: lab_addPipe_def fun_upd_idem)
qed (simp_all add: lab_addPipe_def assms(5))

lemma adds_new:
  assumes b: "\<And>E l. built qspec pspec E l \<Longrightarrow> e \<notin> E \<Longrightarrow> unat (lb_lastid l) + 1 < 2 ^ 32 \<Longrightarrow>
      built qspec pspec (insert e E) (new l)"
    and "\<And>l. lb_ids (new l) = (lb_ids l)(e \<mapsto> lb_lastid l)" "\<And>l. lb_log (new l) = lb_log l"
    and "\<And>l. lb_lastid (new l) = lb_lastid l + 1"
  shows "adds qspec pspec nm {e} 1 (\<lambda>l. lab_named e (nm e) (new l))"
  unfolding adds_def
proof (intro allI impI, elim conjE)
  fix E l
  assume a: "built qspec pspec E l" "named nm E l" "E \<inter> {e} = {}" "unat (lb_lastid l) + 1 < 2 ^ 32"
  have e: "e \<notin> E" using a(3) by blast
  have n: "named nm E (new l)" by (rule named_new [OF a(2) e assms(2,3)])
  have "E \<subseteq> insert e E" "e \<in> insert e E" by auto
  from lab_named_some [OF b [OF a(1) e a(4)] n this refl]
  obtain l' where "lab_named e (nm e) (new l) = Some l'" "built qspec pspec (insert e E) l'"
      "named nm (insert e E) l'" "lb_lastid l' = lb_lastid (new l)" by blast
  then show "\<exists>l'. lab_named e (nm e) (new l) = Some l' \<and> built qspec pspec (E \<union> {e}) l' \<and>
      named nm (E \<union> {e}) l' \<and> unat (lb_lastid l') = unat (lb_lastid l) + 1"
    using lastid_Suc(1) [OF a(4)] assms(4) by simp
qed

lemma adds_queue:
  assumes "qspec e = Some q" "pspec e = None"
  shows "adds qspec pspec nm {e} 1 (\<lambda>l. lab_named e (nm e) (lab_addQueue e q l))"
proof (rule adds_new)
  show "built qspec pspec (insert e E) (lab_addQueue e q l)"
    if "built qspec pspec E l" "e \<notin> E" "unat (lb_lastid l) + 1 < 2 ^ 32" for E l
    by (rule built_addQueue [OF that assms])
qed (simp_all add: lab_addQueue_def)

lemma adds_pipe:
  assumes "qspec e = None" "pspec e = Some (mkPipe d)"
  shows "adds qspec pspec nm {e} 1 (\<lambda>l. lab_named e (nm e) (lab_addPipe e d l))"
proof (rule adds_new)
  show "built qspec pspec (insert e E) (lab_addPipe e d l)"
    if "built qspec pspec E l" "e \<notin> E" "unat (lb_lastid l) + 1 < 2 ^ 32" for E l
    by (rule built_addPipe [OF that assms])
qed (simp_all add: lab_addPipe_def)

lemma adds_ids:
  assumes "\<And>l. \<exists>l'. f l = Some l' \<and> lb_ids l' = lb_ids l \<and> lb_queues l' = lb_queues l \<and>
    lb_pipes l' = lb_pipes l \<and> lb_log l' = lb_log l \<and> lb_lastid l' = lb_lastid l + 1"
  shows "adds qspec pspec nm {} 1 f"
  unfolding adds_def
proof (intro allI impI, elim conjE)
  fix E l
  assume a: "built qspec pspec E l" "named nm E l" "unat (lb_lastid l) + 1 < 2 ^ 32"
  obtain l' where l': "f l = Some l'" "lb_ids l' = lb_ids l" "lb_queues l' = lb_queues l" "lb_pipes l' = lb_pipes l"
    "lb_log l' = lb_log l" "lb_lastid l' = lb_lastid l + 1" using assms by blast
  note s = lastid_Suc [OF a(3)]
  have "built qspec pspec E l'" by (rule built_cong [OF a(1)]) (use l' s(2) in simp_all)
  moreover have "named nm E l'" using a(2) l'(2,5) by (simp add: named_def)
  ultimately show "\<exists>l'. f l = Some l' \<and> built qspec pspec (E \<union> {}) l' \<and> named nm (E \<union> {}) l' \<and>
      unat (lb_lastid l') = unat (lb_lastid l) + 1"
    using l'(1,6) s(1) by simp
qed

lemma adds_sampler: "adds qspec pspec nm {} 1 (\<lambda>l. Some (lab_addSampler j e p l))"
  by (rule adds_ids) (simp add: lab_addSampler_def split: prod.split)

text \<open>Objects that are named after all of them have been created.\<close>

fun lab_all_named :: "('e \<Rightarrow> string) \<Rightarrow> 'e list \<Rightarrow> 'e lab \<Rightarrow> 'e lab option" where
  "lab_all_named nm [] l = Some l"
| "lab_all_named nm (e # es) l = Option.bind (lab_named e (nm e) l) (lab_all_named nm es)"

lemma lab_all_named_eqs:
  "lab_all_named nm [] = Some" "lab_all_named nm (e # es) = (\<lambda>l. Option.bind (lab_named e (nm e) l) (lab_all_named nm es))"
  by (rule ext; simp)+

lemma lab_all_named_some:
  assumes "built qspec pspec E l" "named nm F l" "F \<subseteq> E" "set es \<subseteq> E"
  shows "\<exists>l'. lab_all_named nm es l = Some l' \<and> built qspec pspec E l' \<and> named nm (F \<union> set es) l' \<and>
    lb_lastid l' = lb_lastid l"
  using assms
proof (induction es arbitrary: F l)
  case (Cons e es)
  have e: "e \<in> E" using Cons.prems(4) by simp
  from lab_named_some [OF Cons.prems(1-3) e refl]
  obtain l1 where l1: "lab_named e (nm e) l = Some l1" "built qspec pspec E l1" "named nm (insert e F) l1"
      "lb_lastid l1 = lb_lastid l" by blast
  have "insert e F \<subseteq> E" "set es \<subseteq> E" using Cons.prems(3,4) by auto
  from Cons.IH [OF l1(2,3) this] show ?case using l1(1,4) by simp
qed simp

text \<open>A queue and a pipe in each direction.\<close>

lemma adds_link:
  assumes d: "distinct [q1, q2, p1, p2]"
    and q: "qspec q1 = Some a" "qspec q2 = Some b" "pspec q1 = None" "pspec q2 = None"
    and p: "pspec p1 = Some (mkPipe delay)" "pspec p2 = Some (mkPipe delay)" "qspec p1 = None" "qspec p2 = None"
  shows "adds qspec pspec nm {q1, q2, p1, p2} 4 (\<lambda>l. lab_all_named nm [q1, q2, p1, p2]
    (lab_addPipe p2 delay (lab_addPipe p1 delay (lab_addQueue q2 b (lab_addQueue q1 a l)))))"
  unfolding adds_def
proof (intro allI impI, elim conjE)
  fix E l
  assume l: "built qspec pspec E l" "named nm E l" "E \<inter> {q1, q2, p1, p2} = {}" "unat (lb_lastid l) + 4 < 2 ^ 32"
  define l1 where "l1 = lab_addQueue q1 a l"
  define l2 where "l2 = lab_addQueue q2 b l1"
  define l3 where "l3 = lab_addPipe p1 delay l2"
  define l4 where "l4 = lab_addPipe p2 delay l3"
  have i: "unat (lb_lastid l1) = unat (lb_lastid l) + 1" "unat (lb_lastid l2) = unat (lb_lastid l) + 2"
    "unat (lb_lastid l3) = unat (lb_lastid l) + 3" "unat (lb_lastid l4) = unat (lb_lastid l) + 4"
    using lastid_Suc(1) [of l] lastid_Suc(1) [of l1] lastid_Suc(1) [of l2] lastid_Suc(1) [of l3] l(4)
    by (simp_all add: l1_def l2_def l3_def l4_def lab_addQueue_def lab_addPipe_def)
  have b1: "built qspec pspec (insert q1 E) l1"
    unfolding l1_def by (rule built_addQueue [OF l(1) _ _ q(1,3)]) (use l(3,4) in auto)
  have b2: "built qspec pspec (insert q2 (insert q1 E)) l2"
    unfolding l2_def by (rule built_addQueue [OF b1 _ _ q(2,4)]) (use l(3,4) d i in auto)
  have b3: "built qspec pspec (insert p1 (insert q2 (insert q1 E))) l3"
    unfolding l3_def by (rule built_addPipe [OF b2 _ _ p(3,1)]) (use l(3,4) d i in auto)
  have b4: "built qspec pspec (insert p2 (insert p1 (insert q2 (insert q1 E)))) l4"
    unfolding l4_def by (rule built_addPipe [OF b3 _ _ p(4,2)]) (use l(3,4) d i in auto)
  have "lb_ids l4 e = lb_ids l e" if "e \<in> E" for e
    using that l(3) by (auto simp: l1_def l2_def l3_def l4_def lab_addQueue_def lab_addPipe_def)
  moreover have "lb_log l4 = lb_log l" by (simp add: l1_def l2_def l3_def l4_def lab_addQueue_def lab_addPipe_def)
  ultimately have n: "named nm E l4" using l(2) by (simp add: named_def)
  have sub: "E \<subseteq> insert p2 (insert p1 (insert q2 (insert q1 E)))"
    "set [q1, q2, p1, p2] \<subseteq> insert p2 (insert p1 (insert q2 (insert q1 E)))" by auto
  have eq: "insert p2 (insert p1 (insert q2 (insert q1 E))) = E \<union> {q1, q2, p1, p2}" by blast
  from lab_all_named_some [OF b4 n sub] obtain l' where l': "lab_all_named nm [q1, q2, p1, p2] l4 = Some l'"
      "built qspec pspec (E \<union> {q1, q2, p1, p2}) l'" "named nm (E \<union> {q1, q2, p1, p2}) l'" "lb_lastid l' = lb_lastid l4"
    unfolding eq by auto
  then show "\<exists>l'. lab_all_named nm [q1, q2, p1, p2]
        (lab_addPipe p2 delay (lab_addPipe p1 delay (lab_addQueue q2 b (lab_addQueue q1 a l)))) = Some l' \<and>
      built qspec pspec (E \<union> {q1, q2, p1, p2}) l' \<and> named nm (E \<union> {q1, q2, p1, p2}) l' \<and>
      unat (lb_lastid l') = unat (lb_lastid l) + 4"
    using i(4) unfolding l4_def l3_def l2_def l1_def by metis
qed

text \<open>An object that is neither a queue nor a pipe.\<close>

lemma adds_other:
  assumes "qspec e = None" "pspec e = None"
  shows "adds qspec pspec nm {e} 1
    (\<lambda>l. lab_named e (nm e) (l\<lparr>lb_ids := (lb_ids l)(e \<mapsto> lb_lastid l), lb_lastid := lb_lastid l + 1\<rparr>))"
proof (rule adds_new)
  show "built qspec pspec (insert e E) (l\<lparr>lb_ids := (lb_ids l)(e \<mapsto> lb_lastid l), lb_lastid := lb_lastid l + 1\<rparr>)"
    if b: "built qspec pspec E l" "e \<notin> E" "unat (lb_lastid l) + 1 < 2 ^ 32" for E l
  proof (rule built_new [OF b])
    have "lb_queues l e = None" "lb_pipes l e = None" using b(1,2) by (auto simp: built_def)
    then show "lb_queues (l\<lparr>lb_ids := (lb_ids l)(e \<mapsto> lb_lastid l), lb_lastid := lb_lastid l + 1\<rparr>) =
        (lb_queues l)(e := qspec e)"
      "lb_pipes (l\<lparr>lb_ids := (lb_ids l)(e \<mapsto> lb_lastid l), lb_lastid := lb_lastid l + 1\<rparr>) = (lb_pipes l)(e := pspec e)"
      using assms by (simp_all add: fun_upd_idem)
  qed simp_all
qed simp_all

text \<open>A laboratory with nothing in it: some ids have been taken, and the log file is open.\<close>

definition lab_empty :: "u32 \<Rightarrow> logfile \<Rightarrow> 'e lab" where
  "lab_empty i lf = \<lparr>lb_lastid = i, lb_ids = Map.empty, lb_names = Map.empty, lb_queues = Map.empty,
     lb_pipes = Map.empty, lb_samplers = Map.empty, lb_events = [], lb_log = lf\<rparr>"

lemma built_empty: "built qspec pspec {} (lab_empty i lf)" "named nm {} (lab_empty i lf)"
  by (simp_all add: built_def named_def lab_empty_def)

lemma adds_empty:
  assumes "adds qspec pspec nm L c f" "unat i + c < 2 ^ 32"
  shows "\<exists>l. f (lab_empty i lf) = Some l \<and> built qspec pspec L l \<and> named nm L l \<and> unat (lb_lastid l) = unat i + c"
proof -
  have "lb_lastid (lab_empty i lf) = i" by (simp add: lab_empty_def)
  moreover have "{} \<inter> L = {}" "{} \<union> L = L" by simp_all
  ultimately show ?thesis using assms built_empty unfolding adds_def by metis
qed

end
