(* ===== verification/FatTree.thy ===== *)
theory FatTree
  imports Lab FlowGenProps
begin

text \<open>
  \<open>test_fat-tree_testbed.cpp\<close>: a fat tree of four subtrees, each with two aggregation and two top-of-rack
  switches, 32 servers to a rack and two uplinks from each aggregation switch. The set-up creates the links
  and the flow generator, and \<open>generateRandomRoute\<close> draws the routes of a flow.
\<close>

section \<open>Topology\<close>

definition N_SUBTREE :: nat where "N_SUBTREE = 4"
definition ft_N_TOR :: nat where "ft_N_TOR = 2"
definition N_AGG :: nat where "N_AGG = 2"
definition N_UPLINK :: nat where "N_UPLINK = 2"
definition ft_N_SERVER :: nat where "ft_N_SERVER = 32"
definition N_NODES :: nat where "N_NODES = N_SUBTREE * ft_N_TOR * ft_N_SERVER"
definition N_NODES_SUBTREE :: nat where "N_NODES_SUBTREE = ft_N_TOR * ft_N_SERVER"

definition ENDH_BUFFER :: u64 where "ENDH_BUFFER = 8192000"
definition TOR_SERVER_BUFFER :: u64 where "TOR_SERVER_BUFFER = 512000"
definition TOR_AGG_BUFFER :: u64 where "TOR_AGG_BUFFER = 1024000"
definition AGG_TOR_BUFFER :: u64 where "AGG_TOR_BUFFER = 1024000"
definition AGG_CORE_BUFFER :: u64 where "AGG_CORE_BUFFER = 1024000"
definition CORE_AGG_BUFFER :: u64 where "CORE_AGG_BUFFER = 1024000"
definition SERVER_TOR_SPEED :: u64 where "SERVER_TOR_SPEED = 10000000000"
definition TOR_AGG_SPEED :: u64 where "TOR_AGG_SPEED = 40000000000"
definition AGG_CORE_SPEED :: u64 where "AGG_CORE_SPEED = 40000000000"
definition LINK_DELAY :: rat where "LINK_DELAY = dbl (1 / 10)"

text \<open>The arrays, with their indices.\<close>

datatype ft_elem =
    PCoreAgg nat nat nat | QCoreAgg nat nat nat | PAggCore nat nat nat | QAggCore nat nat nat
  | PAggTor nat nat nat | QAggTor nat nat nat | PTorAgg nat nat nat | QTorAgg nat nat nat
  | PTorServer nat nat nat | QTorServer nat nat nat | PServerTor nat nat nat | QServerTor nat nat nat

section \<open>Routes\<close>

record ft_routes =
  fr_fwd :: "ft_elem list"
  fr_rev :: "ft_elem list"
  fr_src :: u32
  fr_dst :: u32

text \<open>
  \<open>src\<close> and \<open>dst\<close> are the values the caller passes, 0 for a random host; \<open>r1 .. r4\<close> are the results of
  \<open>rand()\<close> for the destination, the source, the uplink and the aggregation switch.
\<close>

definition ft_hosts :: "u32 \<Rightarrow> u32 \<Rightarrow> nat \<Rightarrow> nat \<Rightarrow> u32 \<times> u32" where
  "ft_hosts src dst r1 r2 =
     (let dst = (if dst \<noteq> 0 then dst mod of_nat N_NODES else of_nat (r1 mod N_NODES));
          src = (if src \<noteq> 0 then src mod of_nat (N_NODES - 1) else of_nat (r2 mod (N_NODES - 1)));
          src = (if src \<ge> dst then src + 1 else src)
      in (src, dst))"

definition generateRandomRoute :: "u32 \<Rightarrow> u32 \<Rightarrow> nat \<Rightarrow> nat \<Rightarrow> nat \<Rightarrow> nat \<Rightarrow> ft_routes" where
  "generateRandomRoute src dst r1 r2 r3 r4 =
     (let (src, dst) = ft_hosts src dst r1 r2;
          src_tree = unat src div N_NODES_SUBTREE;
          dst_tree = unat dst div N_NODES_SUBTREE;
          uplink = r3 mod N_UPLINK;
          src_agg = r4 mod N_AGG;
          dst_agg = src_agg;
          src_tor = (unat src div ft_N_SERVER) mod ft_N_TOR;
          dst_tor = (unat dst div ft_N_SERVER) mod ft_N_TOR;
          src_svr = unat src mod ft_N_SERVER;
          dst_svr = unat dst mod ft_N_SERVER;
          fwd = [QServerTor src_tree src_tor src_svr, PServerTor src_tree src_tor src_svr];
          rev = [QServerTor dst_tree dst_tor dst_svr, PServerTor dst_tree dst_tor dst_svr];
          (fwd, rev) =
            (if src_tree \<noteq> dst_tree \<or> src_tor \<noteq> dst_tor
             then let fwd = fwd @ [QTorAgg src_tree src_agg src_tor, PTorAgg src_tree src_agg src_tor];
                      rev = rev @ [QTorAgg dst_tree dst_agg dst_tor, PTorAgg dst_tree dst_agg dst_tor];
                      (fwd, rev) =
                        (if src_tree \<noteq> dst_tree
                         then let fwd = fwd @ [QAggCore src_tree src_agg uplink, PAggCore src_tree src_agg uplink];
                                  rev = rev @ [QAggCore dst_tree dst_agg uplink, PAggCore dst_tree dst_agg uplink];
                                  fwd = fwd @ [QCoreAgg dst_tree dst_agg uplink, PCoreAgg dst_tree dst_agg uplink];
                                  rev = rev @ [QCoreAgg src_tree src_agg uplink, PCoreAgg src_tree src_agg uplink]
                              in (fwd, rev)
                         else (fwd, rev));
                      fwd = fwd @ [QAggTor dst_tree dst_agg dst_tor, PAggTor dst_tree dst_agg dst_tor];
                      rev = rev @ [QAggTor src_tree src_agg src_tor, PAggTor src_tree src_agg src_tor]
                  in (fwd, rev)
             else (fwd, rev));
          fwd = fwd @ [QTorServer dst_tree dst_tor dst_svr, PTorServer dst_tree dst_tor dst_svr];
          rev = rev @ [QTorServer src_tree src_tor src_svr, PTorServer src_tree src_tor src_svr]
      in \<lparr>fr_fwd = fwd, fr_rev = rev, fr_src = src, fr_dst = dst\<rparr>)"

section \<open>Set-up\<close>

text \<open>\<open>createQueue\<close>, with the sampling period of a build with \<open>MING_PROF\<close>, which \<open>prof.h\<close> defines.\<close>

definition ft_newQueue :: "junk \<Rightarrow> string \<Rightarrow> u64 \<Rightarrow> u64 \<Rightarrow> any_queue option" where
  "ft_newQueue j qType speed buffer =
     (if qType = ''fq'' then map_option Fair (mkFairQueue (jk_packet j) speed buffer True)
      else if qType = ''afq'' then map_option Aprx (mkAprxFairQueue speed buffer True defaultAFQcfg)
      else if qType = ''pq'' then map_option Prio (mkPriorityQueue (jk_packet j) speed buffer True)
      else if qType = ''sfq'' then map_option Stoc (mkStocFairQueue speed buffer True 32 (word_of_int MSS_BYTES))
      else map_option Droptail (mkQueue speed buffer True))"

definition createQueue ::
  "junk \<Rightarrow> string \<Rightarrow> ft_elem \<Rightarrow> u64 \<Rightarrow> u64 \<Rightarrow> ft_elem lab \<Rightarrow> ft_elem lab option" where
  "createQueue j qType e speed buffer l = do {
     let l = lab_addSampler j e (timeFromUs 100) l;
     q \<leftarrow> ft_newQueue j qType speed buffer;
     Some (lab_addQueue e q l)
   }"

definition dashed :: "nat \<Rightarrow> nat \<Rightarrow> nat \<Rightarrow> string" where
  "dashed i j k = to_string i @ ''-'' @ to_string j @ ''-'' @ to_string k"

text \<open>The bodies of the three loops; \<open>mem e\<close> is what memory holds where the queue \<open>e\<close> is allocated.\<close>

definition ft_core_links :: "(ft_elem \<Rightarrow> junk) \<Rightarrow> string \<Rightarrow> nat \<Rightarrow> nat \<Rightarrow> nat \<Rightarrow> ft_elem lab \<Rightarrow> ft_elem lab option" where
  "ft_core_links mem QueueType i j k l = do {
     l \<leftarrow> createQueue (mem (QAggCore i j k)) QueueType (QAggCore i j k) AGG_CORE_SPEED AGG_CORE_BUFFER l;
     l \<leftarrow> lab_named (QAggCore i j k) (''q-agg-core-'' @ dashed i j k) l;
     l \<leftarrow> lab_named (PAggCore i j k) (''p-agg-core-'' @ dashed i j k)
            (lab_addPipe (PAggCore i j k) (timeFromUs LINK_DELAY) l);
     l \<leftarrow> createQueue (mem (QCoreAgg i j k)) QueueType (QCoreAgg i j k) AGG_CORE_SPEED CORE_AGG_BUFFER l;
     l \<leftarrow> lab_named (QCoreAgg i j k) (''q-core-agg-'' @ dashed i j k) l;
     lab_named (PCoreAgg i j k) (''p-core-agg-'' @ dashed i j k)
       (lab_addPipe (PCoreAgg i j k) (timeFromUs LINK_DELAY) l)
   }"

definition ft_agg_links :: "(ft_elem \<Rightarrow> junk) \<Rightarrow> string \<Rightarrow> nat \<Rightarrow> nat \<Rightarrow> nat \<Rightarrow> ft_elem lab \<Rightarrow> ft_elem lab option" where
  "ft_agg_links mem QueueType i j k l = do {
     l \<leftarrow> createQueue (mem (QTorAgg i j k)) QueueType (QTorAgg i j k) TOR_AGG_SPEED TOR_AGG_BUFFER l;
     l \<leftarrow> lab_named (QTorAgg i j k) (''q-tor-agg-'' @ dashed i j k) l;
     l \<leftarrow> lab_named (PTorAgg i j k) (''p-tor-agg-'' @ dashed i j k)
            (lab_addPipe (PTorAgg i j k) (timeFromUs LINK_DELAY) l);
     l \<leftarrow> createQueue (mem (QAggTor i j k)) QueueType (QAggTor i j k) TOR_AGG_SPEED AGG_TOR_BUFFER l;
     l \<leftarrow> lab_named (QAggTor i j k) (''q-agg-tor-'' @ dashed i j k) l;
     lab_named (PAggTor i j k) (''p-agg-tor-'' @ dashed i j k)
       (lab_addPipe (PAggTor i j k) (timeFromUs LINK_DELAY) l)
   }"

definition ft_server_links :: "(ft_elem \<Rightarrow> junk) \<Rightarrow> string \<Rightarrow> nat \<Rightarrow> nat \<Rightarrow> nat \<Rightarrow> ft_elem lab \<Rightarrow> ft_elem lab option" where
  "ft_server_links mem QueueType i j k l = do {
     l \<leftarrow> createQueue (mem (QServerTor i j k)) ''fq'' (QServerTor i j k) SERVER_TOR_SPEED ENDH_BUFFER l;
     l \<leftarrow> lab_named (QServerTor i j k) (''q-server-tor-'' @ dashed i j k) l;
     l \<leftarrow> lab_named (PServerTor i j k) (''p-server-tor-'' @ dashed i j k)
            (lab_addPipe (PServerTor i j k) (timeFromUs LINK_DELAY) l);
     l \<leftarrow> createQueue (mem (QTorServer i j k)) QueueType (QTorServer i j k) SERVER_TOR_SPEED TOR_SERVER_BUFFER l;
     l \<leftarrow> lab_named (QTorServer i j k) (''q-tor-server-'' @ dashed i j k) l;
     lab_named (PTorServer i j k) (''p-tor-server-'' @ dashed i j k)
       (lab_addPipe (PTorServer i j k) (timeFromUs LINK_DELAY) l)
   }"

definition for3 :: "nat \<Rightarrow> nat \<Rightarrow> nat \<Rightarrow> (nat \<Rightarrow> nat \<Rightarrow> nat \<Rightarrow> 's \<Rightarrow> 's option) \<Rightarrow> 's \<Rightarrow> 's option" where
  "for3 n m p body = for_upto [0..<n] (\<lambda>i. for_upto [0..<m] (\<lambda>j. for_upto [0..<p] (\<lambda>k. body i j k)))"

definition ft_links :: "(ft_elem \<Rightarrow> junk) \<Rightarrow> string \<Rightarrow> ft_elem lab \<Rightarrow> ft_elem lab option" where
  "ft_links mem QueueType l = do {
     l \<leftarrow> for3 N_SUBTREE N_AGG N_UPLINK (ft_core_links mem QueueType) l;
     l \<leftarrow> for3 N_SUBTREE N_AGG ft_N_TOR (ft_agg_links mem QueueType) l;
     for3 N_SUBTREE ft_N_TOR ft_N_SERVER (ft_server_links mem QueueType) l
   }"

text \<open>The protocol, the distribution of the sizes and the flow generator.\<close>

definition ft_endhost :: "string \<Rightarrow> end_host" where
  "ft_endhost EndHost =
     (if EndHost = ''pp'' then EH_PKTPAIR
      else if EndHost = ''timely'' then EH_TIMELY
      else if EndHost = ''dctcp'' then EH_DCTCP
      else if EndHost = ''dtcp'' then EH_D_TCP
      else if EndHost = ''ddctcp'' then EH_D_DCTCP
      else EH_TCP)"

definition flowdist_of :: "string \<Rightarrow> flow_dist" where
  "flowdist_of FlowDist =
     (if FlowDist = ''pareto'' then PARETO
      else if FlowDist = ''enterprise'' then ENTERPRISE
      else if FlowDist = ''datamining'' then DATAMINING
      else UNIFORM)"

definition ft_flow_rate :: "rat \<Rightarrow> rat" where
  "ft_flow_rate Utilization =
     (let uplinks = TOR_AGG_SPEED * of_nat N_SUBTREE * of_nat N_AGG * of_nat N_UPLINK;
          bg = dbl (Utilization * as_double uplinks)
      in dbl (dbl (bg * of_nat (N_SUBTREE * ft_N_TOR)) / of_nat (N_SUBTREE * ft_N_TOR - 1)))"

text \<open>The result: the objects, the generator, the events it schedules and the end time.\<close>

definition fat_tree_testbed ::
  "(ft_elem \<Rightarrow> junk) \<Rightarrow> u64 \<Rightarrow> arg_list \<Rightarrow> ft_elem lab \<Rightarrow> (ft_elem lab \<times> flow_gen \<times> action list \<times> u64) option" where
  "fat_tree_testbed mem endTime0 args l = do {
     Duration \<leftarrow> parseInt args ''duration'' 5;
     AvgFlowSize \<leftarrow> parseInt args ''flowsize'' 100000;
     Lstf \<leftarrow> parseInt args ''lstf'' 0;
     Utilization \<leftarrow> parseDouble args ''utilization'' (dbl (9 / 10));
     let QueueType = parseString args ''queue'' ''droptail'';
     let EndHost = parseString args ''endhost'' ''dctcp'';
     let FlowDist = parseString args ''flowdist'' ''uniform'';
     l \<leftarrow> ft_links mem QueueType l;
     rate \<leftarrow> double_to_u64 (ft_flow_rate Utilization);
     g \<leftarrow> mkFlowGenerator (ft_endhost EndHost) rate AvgFlowSize (flowdist_of FlowDist) endTime0;
     (g, as) \<leftarrow> fg_setTimeLimits (timeFromUs 1) (timeFromSec (as_double Duration) - 1) g;
     Some (l\<lparr>lb_lastid := lb_lastid l + 1\<rparr>, g, as, timeFromSec (as_double Duration))
   }"

end
