(* ===== verification/FatTreeProps.thy ===== *)
theory FatTreeProps
  imports FatTree
begin

text \<open>
  The routes of the fat tree against its topology, and the set-up, which creates every link a route can
  name.
\<close>

section \<open>The topology\<close>

text \<open>The switches and servers, and the two nodes that a queue with its pipe joins.\<close>

datatype ft_node = Server nat nat nat | TorSwitch nat nat | AggSwitch nat nat | CoreSwitch nat nat

fun ft_ends :: "ft_elem \<Rightarrow> ft_node \<times> ft_node" where
  "ft_ends (QServerTor i j k) = (Server i j k, TorSwitch i j)"
| "ft_ends (QTorServer i j k) = (TorSwitch i j, Server i j k)"
| "ft_ends (QTorAgg i j k) = (TorSwitch i k, AggSwitch i j)"
| "ft_ends (QAggTor i j k) = (AggSwitch i j, TorSwitch i k)"
| "ft_ends (QAggCore i j k) = (AggSwitch i j, CoreSwitch j k)"
| "ft_ends (QCoreAgg i j k) = (CoreSwitch j k, AggSwitch i j)"
| "ft_ends (PServerTor i j k) = (Server i j k, TorSwitch i j)"
| "ft_ends (PTorServer i j k) = (TorSwitch i j, Server i j k)"
| "ft_ends (PTorAgg i j k) = (TorSwitch i k, AggSwitch i j)"
| "ft_ends (PAggTor i j k) = (AggSwitch i j, TorSwitch i k)"
| "ft_ends (PAggCore i j k) = (AggSwitch i j, CoreSwitch j k)"
| "ft_ends (PCoreAgg i j k) = (CoreSwitch j k, AggSwitch i j)"

text \<open>The pipe behind a queue.\<close>

fun ft_pipe_of :: "ft_elem \<Rightarrow> ft_elem option" where
  "ft_pipe_of (QServerTor i j k) = Some (PServerTor i j k)"
| "ft_pipe_of (QTorServer i j k) = Some (PTorServer i j k)"
| "ft_pipe_of (QTorAgg i j k) = Some (PTorAgg i j k)"
| "ft_pipe_of (QAggTor i j k) = Some (PAggTor i j k)"
| "ft_pipe_of (QAggCore i j k) = Some (PAggCore i j k)"
| "ft_pipe_of (QCoreAgg i j k) = Some (PCoreAgg i j k)"
| "ft_pipe_of _ = None"

text \<open>The indices that lie in the arrays.\<close>

fun ft_exists :: "ft_elem \<Rightarrow> bool" where
  "ft_exists (QServerTor i j k) \<longleftrightarrow> i < 4 \<and> j < 2 \<and> k < 32"
| "ft_exists (QTorServer i j k) \<longleftrightarrow> i < 4 \<and> j < 2 \<and> k < 32"
| "ft_exists (PServerTor i j k) \<longleftrightarrow> i < 4 \<and> j < 2 \<and> k < 32"
| "ft_exists (PTorServer i j k) \<longleftrightarrow> i < 4 \<and> j < 2 \<and> k < 32"
| "ft_exists (QTorAgg i j k) \<longleftrightarrow> i < 4 \<and> j < 2 \<and> k < 2"
| "ft_exists (QAggTor i j k) \<longleftrightarrow> i < 4 \<and> j < 2 \<and> k < 2"
| "ft_exists (PTorAgg i j k) \<longleftrightarrow> i < 4 \<and> j < 2 \<and> k < 2"
| "ft_exists (PAggTor i j k) \<longleftrightarrow> i < 4 \<and> j < 2 \<and> k < 2"
| "ft_exists (QAggCore i j k) \<longleftrightarrow> i < 4 \<and> j < 2 \<and> k < 2"
| "ft_exists (QCoreAgg i j k) \<longleftrightarrow> i < 4 \<and> j < 2 \<and> k < 2"
| "ft_exists (PAggCore i j k) \<longleftrightarrow> i < 4 \<and> j < 2 \<and> k < 2"
| "ft_exists (PCoreAgg i j k) \<longleftrightarrow> i < 4 \<and> j < 2 \<and> k < 2"

text \<open>A route is a walk from node to node, by a queue and its pipe each time; the nodes it visits.\<close>

fun ft_walk :: "ft_node \<Rightarrow> ft_elem list \<Rightarrow> ft_node \<Rightarrow> bool" where
  "ft_walk a (q # p # es) b \<longleftrightarrow> ft_pipe_of q = Some p \<and> fst (ft_ends q) = a \<and> ft_walk (snd (ft_ends q)) es b"
| "ft_walk a [] b \<longleftrightarrow> a = b"
| "ft_walk a [e] b \<longleftrightarrow> False"

fun ft_visits :: "ft_node \<Rightarrow> ft_elem list \<Rightarrow> ft_node list" where
  "ft_visits a (q # p # es) = a # ft_visits (snd (ft_ends q)) es"
| "ft_visits a es = [a]"

definition ft_host :: "u32 \<Rightarrow> ft_node" where
  "ft_host h = Server (unat h div 64) (unat h div 32 mod 2) (unat h mod 32)"

section \<open>Routes\<close>

lemmas ft_sizes = N_NODES_def N_NODES_SUBTREE_def N_SUBTREE_def ft_N_TOR_def ft_N_SERVER_def N_AGG_def N_UPLINK_def

lemma ft_host_inj:
  assumes "ft_host s = ft_host d"
  shows "s = d"
proof -
  have "n div 32 = 2 * (n div 64) + n div 32 mod 2" for n :: nat
    using div_mult2_eq [of n 32 2] by simp
  then have "unat s div 32 = unat d div 32" using assms unfolding ft_host_def
    by (metis ft_node.inject(1))
  moreover have "unat s mod 32 = unat d mod 32" using assms by (simp add: ft_host_def)
  ultimately have "unat s = unat d" by (metis div_mult_mod_eq)
  then show ?thesis by (rule unsigned_word_eqI)
qed

lemma ft_hosts_spec:
  assumes "ft_hosts src dst r1 r2 = (s, d)"
  shows "unat s < 256" "unat d < 256" "s \<noteq> d" "dst \<noteq> 0 \<Longrightarrow> d = dst mod 256"
    "src \<noteq> 0 \<Longrightarrow> s = src mod 255 \<or> s = src mod 255 + 1"
proof -
  define x where "x = (if src \<noteq> 0 then src mod 255 else of_nat (r2 mod 255))"
  have dst: "d = (if dst \<noteq> 0 then dst mod 256 else of_nat (r1 mod 256))"
    and src: "s = (if x \<ge> d then x + 1 else x)"
    using assms by (auto simp: ft_hosts_def Let_def N_NODES_def N_SUBTREE_def ft_N_TOR_def ft_N_SERVER_def x_def)
  have nat: "unat (of_nat (n mod m) :: u32) = n mod m" if "0 < m" "m \<le> 256" for n m :: nat
  proof -
    have "n mod m < m" using that(1) by simp
    then have "n mod m < 4294967296" using that(2) by linarith
    then show ?thesis by (simp only: unat_of_nat) simp
  qed
  show d: "unat d < 256" using dst nat [of 256 r1] by (simp add: unat_mod)
  have x: "unat x < 255" using nat [of 255 r2] by (simp add: x_def unat_mod)
  then have x1: "unat (x + 1) = unat x + 1" by (simp add: unat_word_ariths)
  then show "unat s < 256" using src x by simp
  show "s \<noteq> d"
  proof (cases "x \<ge> d")
    case True
    then have "unat d < unat s" using src x1 by (simp add: word_le_nat_alt)
    then show ?thesis by blast
  next
    case False
    then show ?thesis using src by auto
  qed
  show "dst \<noteq> 0 \<Longrightarrow> d = dst mod 256" using dst by simp
  show "src \<noteq> 0 \<Longrightarrow> s = src mod 255 \<or> s = src mod 255 + 1" using src by (simp add: x_def)
qed

text \<open>The three shapes of a route, by the nodes of its ends.\<close>

definition ft_path ::
  "nat \<Rightarrow> nat \<Rightarrow> nat \<Rightarrow> nat \<Rightarrow> nat \<Rightarrow> nat \<Rightarrow> nat \<Rightarrow> nat \<Rightarrow> u32 \<Rightarrow> u32 \<Rightarrow> ft_routes \<Rightarrow> bool" where
  "ft_path str sk sv dtr dk dv g u s d r \<longleftrightarrow> fr_src r = s \<and> fr_dst r = d \<and>
     (if str \<noteq> dtr then
        fr_fwd r = [QServerTor str sk sv, PServerTor str sk sv, QTorAgg str g sk, PTorAgg str g sk,
          QAggCore str g u, PAggCore str g u, QCoreAgg dtr g u, PCoreAgg dtr g u,
          QAggTor dtr g dk, PAggTor dtr g dk, QTorServer dtr dk dv, PTorServer dtr dk dv] \<and>
        fr_rev r = [QServerTor dtr dk dv, PServerTor dtr dk dv, QTorAgg dtr g dk, PTorAgg dtr g dk,
          QAggCore dtr g u, PAggCore dtr g u, QCoreAgg str g u, PCoreAgg str g u,
          QAggTor str g sk, PAggTor str g sk, QTorServer str sk sv, PTorServer str sk sv]
      else if sk \<noteq> dk then
        fr_fwd r = [QServerTor str sk sv, PServerTor str sk sv, QTorAgg str g sk, PTorAgg str g sk,
          QAggTor dtr g dk, PAggTor dtr g dk, QTorServer dtr dk dv, PTorServer dtr dk dv] \<and>
        fr_rev r = [QServerTor dtr dk dv, PServerTor dtr dk dv, QTorAgg dtr g dk, PTorAgg dtr g dk,
          QAggTor str g sk, PAggTor str g sk, QTorServer str sk sv, PTorServer str sk sv]
      else
        fr_fwd r = [QServerTor str sk sv, PServerTor str sk sv, QTorServer dtr dk dv, PTorServer dtr dk dv] \<and>
        fr_rev r = [QServerTor dtr dk dv, PServerTor dtr dk dv, QTorServer str sk sv, PTorServer str sk sv])"

lemma ft_route_path:
  assumes "ft_hosts src dst r1 r2 = (s, d)"
  shows "ft_path (unat s div 64) (unat s div 32 mod 2) (unat s mod 32) (unat d div 64) (unat d div 32 mod 2)
    (unat d mod 32) (r4 mod 2) (r3 mod 2) s d (generateRandomRoute src dst r1 r2 r3 r4)"
proof -
  have sz: "N_NODES_SUBTREE = 64" "N_UPLINK = 2" "N_AGG = 2" "ft_N_SERVER = 32" "ft_N_TOR = 2"
    by (simp_all add: ft_sizes)
  show ?thesis
  proof (cases "unat s div 64 = unat d div 64")
    case True
    show ?thesis
      by (cases "unat s div 32 mod 2 = unat d div 32 mod 2")
        (simp_all only: generateRandomRoute_def ft_path_def assms Let_def prod.case sz True simp_thms if_True
          if_False ft_routes.simps append.simps)
  next
    case False
    then show ?thesis
      by (simp only: generateRandomRoute_def ft_path_def assms Let_def prod.case sz simp_thms if_True
          if_False ft_routes.simps append.simps)
  qed
qed

definition route_ok :: "ft_node \<Rightarrow> ft_node \<Rightarrow> u32 \<Rightarrow> u32 \<Rightarrow> ft_routes \<Rightarrow> bool" where
  "route_ok a b s d r \<longleftrightarrow> fr_src r = s \<and> fr_dst r = d \<and> ft_walk a (fr_fwd r) b \<and> ft_walk b (fr_rev r) a \<and>
     ft_visits b (fr_rev r) = rev (ft_visits a (fr_fwd r)) \<and> distinct (ft_visits a (fr_fwd r)) \<and>
     length (ft_visits a (fr_fwd r)) \<le> 7 \<and> (\<forall>e \<in> set (fr_fwd r) \<union> set (fr_rev r). ft_exists e)"

lemma ft_path_ok:
  assumes "str < 4" "dtr < 4" "sk < 2" "dk < 2" "sv < 32" "dv < 32" "g < 2" "u < 2"
    and p: "ft_path str sk sv dtr dk dv g u s d r" and ne: "Server str sk sv \<noteq> Server dtr dk dv"
  shows "route_ok (Server str sk sv) (Server dtr dk dv) s d r"
  using assms by (cases "str = dtr"; cases "sk = dk") (simp_all add: ft_path_def route_ok_def)

text \<open>
  C14: the random routes of the fat tree. Whatever \<open>rand()\<close> returns and the caller asks for, the source
  and the destination are different servers, the destination the requested one if any; the forward route is
  a walk in the topology from the one to the other that visits no node twice, through at most one core
  switch, and the reverse route visits the same nodes in the opposite order; all indices lie in the arrays.
\<close>

theorem fat_tree_routes:
  "let r = generateRandomRoute src dst r1 r2 r3 r4; a = ft_host (fr_src r); b = ft_host (fr_dst r)
   in unat (fr_src r) < 256 \<and> unat (fr_dst r) < 256 \<and> a \<noteq> b \<and>
     fr_dst r = (if dst = 0 then of_nat (r1 mod 256) else dst mod 256) \<and>
     ft_walk a (fr_fwd r) b \<and> ft_walk b (fr_rev r) a \<and>
     ft_visits b (fr_rev r) = rev (ft_visits a (fr_fwd r)) \<and> distinct (ft_visits a (fr_fwd r)) \<and>
     length (ft_visits a (fr_fwd r)) \<le> 7 \<and>
     (\<forall>e \<in> set (fr_fwd r) \<union> set (fr_rev r). ft_exists e)"
proof -
  obtain s d where h: "ft_hosts src dst r1 r2 = (s, d)" by fastforce
  note sd = ft_hosts_spec [OF h]
  have dd: "d = (if dst = 0 then of_nat (r1 mod 256) else dst mod 256)"
    using h by (auto simp: ft_hosts_def Let_def N_NODES_def N_SUBTREE_def ft_N_TOR_def ft_N_SERVER_def)
  have ne: "ft_host s \<noteq> ft_host d" using ft_host_inj sd(3) by blast
  have b: "unat s div 64 < 4" "unat d div 64 < 4" using sd(1,2) by simp_all
  define str dtr sk dk sv dv where v: "str = unat s div 64" "dtr = unat d div 64" "sk = unat s div 32 mod 2"
    "dk = unat d div 32 mod 2" "sv = unat s mod 32" "dv = unat d mod 32"
  have "ft_path str sk sv dtr dk dv (r4 mod 2) (r3 mod 2) s d (generateRandomRoute src dst r1 r2 r3 r4)"
    unfolding v by (rule ft_route_path [OF h])
  moreover have "ft_host s = Server str sk sv" "ft_host d = Server dtr dk dv" by (simp_all add: ft_host_def v)
  moreover have "str < 4" "dtr < 4" "sk < 2" "dk < 2" "sv < 32" "dv < 32" using b by (simp_all add: v)
  ultimately have "route_ok (ft_host s) (ft_host d) s d (generateRandomRoute src dst r1 r2 r3 r4)"
    using ft_path_ok [of str dtr sk dk sv dv "r4 mod 2" "r3 mod 2" s d] ne by simp
  then show ?thesis using sd(1,2) ne dd by (simp add: Let_def route_ok_def)
qed

lemma fat_tree_routes_witness:
  "\<exists>r. r = generateRandomRoute 0 70 5 6 7 8 \<and> ft_walk (ft_host (fr_src r)) (fr_fwd r) (ft_host 70) \<and>
     length (ft_visits (ft_host (fr_src r)) (fr_fwd r)) \<le> 7 \<and> (\<forall>e \<in> set (fr_fwd r). ft_exists e)"
proof -
  define r where "r = generateRandomRoute 0 70 5 6 7 8"
  show ?thesis using fat_tree_routes [of 0 70 5 6 7 8] unfolding r_def [symmetric] by (auto simp: Let_def)
qed

section \<open>Set-up\<close>

text \<open>What each element is after the set-up: its speed and buffer, its discipline and its name.\<close>

fun ft_rate :: "ft_elem \<Rightarrow> (u64 \<times> u64) option" where
  "ft_rate (QAggCore i j k) = Some (40000000000, 1024000)"
| "ft_rate (QCoreAgg i j k) = Some (40000000000, 1024000)"
| "ft_rate (QTorAgg i j k) = Some (40000000000, 1024000)"
| "ft_rate (QAggTor i j k) = Some (40000000000, 1024000)"
| "ft_rate (QServerTor i j k) = Some (10000000000, 8192000)"
| "ft_rate (QTorServer i j k) = Some (10000000000, 512000)"
| "ft_rate _ = None"

fun ft_discipline :: "string \<Rightarrow> ft_elem \<Rightarrow> string" where
  "ft_discipline QueueType (QServerTor i j k) = ''fq''"
| "ft_discipline QueueType e = QueueType"

definition ft_queue :: "(ft_elem \<Rightarrow> junk) \<Rightarrow> string \<Rightarrow> ft_elem \<Rightarrow> any_queue option" where
  "ft_queue mem QueueType e = Option.bind (ft_rate e) (\<lambda>(speed, buffer).
     ft_newQueue (mem e) (ft_discipline QueueType e) speed buffer)"

definition ft_pipe :: "ft_elem \<Rightarrow> pipe option" where
  "ft_pipe e = (if ft_rate e = None then Some (mkPipe 100000) else None)"

fun ft_name :: "ft_elem \<Rightarrow> string" where
  "ft_name (QAggCore i j k) = ''q-agg-core-'' @ dashed i j k"
| "ft_name (PAggCore i j k) = ''p-agg-core-'' @ dashed i j k"
| "ft_name (QCoreAgg i j k) = ''q-core-agg-'' @ dashed i j k"
| "ft_name (PCoreAgg i j k) = ''p-core-agg-'' @ dashed i j k"
| "ft_name (QTorAgg i j k) = ''q-tor-agg-'' @ dashed i j k"
| "ft_name (PTorAgg i j k) = ''p-tor-agg-'' @ dashed i j k"
| "ft_name (QAggTor i j k) = ''q-agg-tor-'' @ dashed i j k"
| "ft_name (PAggTor i j k) = ''p-agg-tor-'' @ dashed i j k"
| "ft_name (QServerTor i j k) = ''q-server-tor-'' @ dashed i j k"
| "ft_name (PServerTor i j k) = ''p-server-tor-'' @ dashed i j k"
| "ft_name (QTorServer i j k) = ''q-tor-server-'' @ dashed i j k"
| "ft_name (PTorServer i j k) = ''p-tor-server-'' @ dashed i j k"

lemma ft_newQueue_some:
  assumes "speed \<noteq> 0"
  shows "\<exists>q. ft_newQueue j qType speed buffer = Some q"
  using assms by (simp add: ft_newQueue_def mkFairQueue_def mkAprxFairQueue_def mkPriorityQueue_def
    mkStocFairQueue_def mkQueue_def)

lemma link_delay: "timeFromUs LINK_DELAY = 100000"
  by code_simp

text \<open>A queue of the topology in front of the rest of a loop body, and a pipe.\<close>

lemma adds_ft_queue:
  assumes "ft_rate e = Some (speed, buffer)" "speed \<noteq> 0" "ft_discipline QueueType e = qType"
    and "adds (ft_queue mem QueueType) ft_pipe ft_name M d g" "e \<notin> M"
  shows "adds (ft_queue mem QueueType) ft_pipe ft_name (insert e M) (Suc (Suc d))
    (\<lambda>l. Option.bind (createQueue (mem e) qType e speed buffer l) (\<lambda>l. Option.bind (lab_named e (ft_name e) l) g))"
proof -
  obtain q where q: "ft_newQueue (mem e) qType speed buffer = Some q" using ft_newQueue_some [OF assms(2)] by blast
  have a: "adds (ft_queue mem QueueType) ft_pipe ft_name {e} 1
      (\<lambda>l. lab_named e (ft_name e) (lab_addQueue e q l))"
    by (rule adds_queue) (use assms(1,3) q in \<open>simp_all add: ft_queue_def ft_pipe_def\<close>)
  have "({} \<union> {e}) \<inter> M = {}" using assms(5) by simp
  from adds_seq [OF adds_seq [OF adds_sampler [of _ _ _ "mem e" e "timeFromUs 100"] a] assms(4) this]
  show ?thesis by (simp add: createQueue_def q)
qed

lemma adds_ft_pipe:
  assumes "ft_rate e = None"
  shows "adds (ft_queue mem QueueType) ft_pipe ft_name {e} 1
    (\<lambda>l. lab_named e (ft_name e) (lab_addPipe e (timeFromUs LINK_DELAY) l))"
  by (rule adds_pipe) (simp_all add: ft_queue_def ft_pipe_def assms link_delay)

lemma adds_ft_pipe_then:
  assumes "ft_rate e = None" "adds (ft_queue mem QueueType) ft_pipe ft_name M d g" "e \<notin> M"
  shows "adds (ft_queue mem QueueType) ft_pipe ft_name (insert e M) (Suc d)
    (\<lambda>l. Option.bind (lab_named e (ft_name e) (lab_addPipe e (timeFromUs LINK_DELAY) l)) g)"
  using adds_seq [OF adds_ft_pipe [OF assms(1), of mem QueueType] assms(2)] assms(3) by simp

lemmas ft_constants = AGG_CORE_SPEED_def AGG_CORE_BUFFER_def CORE_AGG_BUFFER_def TOR_AGG_SPEED_def TOR_AGG_BUFFER_def
  AGG_TOR_BUFFER_def SERVER_TOR_SPEED_def TOR_SERVER_BUFFER_def ENDH_BUFFER_def

text \<open>The elements of one turn of each loop, and of the whole tree.\<close>

definition ft_core_set :: "nat \<Rightarrow> nat \<Rightarrow> nat \<Rightarrow> ft_elem set" where
  "ft_core_set i j k = {QAggCore i j k, PAggCore i j k, QCoreAgg i j k, PCoreAgg i j k}"

definition ft_agg_set :: "nat \<Rightarrow> nat \<Rightarrow> nat \<Rightarrow> ft_elem set" where
  "ft_agg_set i j k = {QTorAgg i j k, PTorAgg i j k, QAggTor i j k, PAggTor i j k}"

definition ft_server_set :: "nat \<Rightarrow> nat \<Rightarrow> nat \<Rightarrow> ft_elem set" where
  "ft_server_set i j k = {QServerTor i j k, PServerTor i j k, QTorServer i j k, PTorServer i j k}"

abbreviation ft_adds where "ft_adds mem QueueType \<equiv> adds (ft_queue mem QueueType) ft_pipe ft_name"

lemma adds_ft_link:
  assumes "ft_rate q1 = Some (s1, b1)" "ft_rate q2 = Some (s2, b2)" "s1 \<noteq> 0" "s2 \<noteq> 0" "ft_rate p1 = None"
    "ft_rate p2 = None" "distinct [q1, p1, q2, p2]"
  shows "ft_adds mem QueueType {q1, p1, q2, p2} 6
    (\<lambda>l. do {
       l \<leftarrow> createQueue (mem q1) (ft_discipline QueueType q1) q1 s1 b1 l;
       l \<leftarrow> lab_named q1 (ft_name q1) l;
       l \<leftarrow> lab_named p1 (ft_name p1) (lab_addPipe p1 (timeFromUs LINK_DELAY) l);
       l \<leftarrow> createQueue (mem q2) (ft_discipline QueueType q2) q2 s2 b2 l;
       l \<leftarrow> lab_named q2 (ft_name q2) l;
       lab_named p2 (ft_name p2) (lab_addPipe p2 (timeFromUs LINK_DELAY) l)
     })"
proof -
  have "ft_adds mem QueueType {q1, p1, q2, p2} (Suc (Suc (Suc (Suc (Suc 1))))) (\<lambda>l. do {
       l \<leftarrow> createQueue (mem q1) (ft_discipline QueueType q1) q1 s1 b1 l;
       l \<leftarrow> lab_named q1 (ft_name q1) l;
       l \<leftarrow> lab_named p1 (ft_name p1) (lab_addPipe p1 (timeFromUs LINK_DELAY) l);
       l \<leftarrow> createQueue (mem q2) (ft_discipline QueueType q2) q2 s2 b2 l;
       l \<leftarrow> lab_named q2 (ft_name q2) l;
       lab_named p2 (ft_name p2) (lab_addPipe p2 (timeFromUs LINK_DELAY) l)
     })"
    using assms by (intro adds_ft_queue adds_ft_pipe_then adds_ft_pipe) auto
  moreover have "Suc (Suc (Suc (Suc (Suc 1)))) = 6" by simp
  ultimately show ?thesis by argo
qed

lemma adds_core_links: "ft_adds mem QueueType (ft_core_set i j k) 6 (ft_core_links mem QueueType i j k)"
  using adds_ft_link [of "QAggCore i j k" 40000000000 1024000 "QCoreAgg i j k" 40000000000 1024000
      "PAggCore i j k" "PCoreAgg i j k" mem QueueType]
  by (simp add: ft_core_links_def [abs_def] ft_core_set_def ft_constants)

lemma adds_agg_links: "ft_adds mem QueueType (ft_agg_set i j k) 6 (ft_agg_links mem QueueType i j k)"
  using adds_ft_link [of "QTorAgg i j k" 40000000000 1024000 "QAggTor i j k" 40000000000 1024000
      "PTorAgg i j k" "PAggTor i j k" mem QueueType]
  by (simp add: ft_agg_links_def [abs_def] ft_agg_set_def ft_constants)

lemma adds_server_links: "ft_adds mem QueueType (ft_server_set i j k) 6 (ft_server_links mem QueueType i j k)"
  using adds_ft_link [of "QServerTor i j k" 10000000000 8192000 "QTorServer i j k" 10000000000 512000
      "PServerTor i j k" "PTorServer i j k" mem QueueType]
  by (simp add: ft_server_links_def [abs_def] ft_server_set_def ft_constants)

lemma adds_for_3:
  assumes "\<And>i j k. i < n \<Longrightarrow> j < m \<Longrightarrow> k < p \<Longrightarrow> adds qspec pspec nm (L i j k) c (body i j k)"
    and "\<And>i j k i' j' k'. (i, j, k) \<noteq> (i', j', k') \<Longrightarrow> L i j k \<inter> L i' j' k' = {}"
  shows "adds qspec pspec nm (\<Union>i<n. \<Union>j<m. \<Union>k<p. L i j k) (n * (m * (p * c))) (for3 n m p body)"
  unfolding for3_def
proof (rule adds_for)
  show "adds qspec pspec nm (\<Union>j<m. \<Union>k<p. L i j k) (m * (p * c))
      (for_upto [0..<m] (\<lambda>j. for_upto [0..<p] (body i j)))" if "i < n" for i
    by (rule adds_for_2) (use that assms in auto)
  show "(\<Union>j<m. \<Union>k<p. L i j k) \<inter> (\<Union>j<m. \<Union>k<p. L i' j k) = {}" if "i < i'" "i' < n" for i i'
    using that assms(2) [of i _ _ i'] by fastforce
qed

lemma ft_exists_sets:
  "{e. ft_exists e} = (\<Union>i<4. \<Union>j<2. \<Union>k<2. ft_core_set i j k) \<union> (\<Union>i<4. \<Union>j<2. \<Union>k<2. ft_agg_set i j k) \<union>
     (\<Union>i<4. \<Union>j<2. \<Union>k<32. ft_server_set i j k)" (is "_ = ?R")
proof (rule set_eqI)
  fix e
  show "e \<in> {e. ft_exists e} \<longleftrightarrow> e \<in> ?R"
    by (cases e) (simp_all add: ft_core_set_def ft_agg_set_def ft_server_set_def)
qed

lemma adds_ft_links:
  "ft_adds mem QueueType {e. ft_exists e} 1728 (ft_links mem QueueType)"
proof -
  let ?C = "\<Union>i<4. \<Union>j<2. \<Union>k<2. ft_core_set i j k" and ?A = "\<Union>i<4. \<Union>j<2. \<Union>k<2. ft_agg_set i j k"
    and ?S = "\<Union>i<4. \<Union>j<2. \<Union>k<32. ft_server_set i j k"
  have c: "ft_adds mem QueueType ?C (4 * (2 * (2 * 6))) (for3 4 2 2 (ft_core_links mem QueueType))"
    by (rule adds_for_3 [OF adds_core_links]) (auto simp: ft_core_set_def)
  have a: "ft_adds mem QueueType ?A (4 * (2 * (2 * 6))) (for3 4 2 2 (ft_agg_links mem QueueType))"
    by (rule adds_for_3 [OF adds_agg_links]) (auto simp: ft_agg_set_def)
  have s: "ft_adds mem QueueType ?S (4 * (2 * (32 * 6))) (for3 4 2 32 (ft_server_links mem QueueType))"
    by (rule adds_for_3 [OF adds_server_links]) (auto simp: ft_server_set_def)
  have d: "?A \<inter> ?S = {}" "?C \<inter> (?A \<union> ?S) = {}"
    by (auto simp: ft_core_set_def ft_agg_set_def ft_server_set_def)
  have "ft_adds mem QueueType (?C \<union> (?A \<union> ?S)) (4 * (2 * (2 * 6)) + (4 * (2 * (2 * 6)) + 4 * (2 * (32 * 6))))
      (ft_links mem QueueType)"
    using adds_seq [OF c adds_seq [OF a s d(1)] d(2)] by (simp add: ft_links_def [abs_def] ft_sizes)
  moreover have "(4 * (2 * (2 * 6)) + (4 * (2 * (2 * 6)) + 4 * (2 * (32 * 6))) :: nat) = 1728" by simp
  ultimately show ?thesis unfolding ft_exists_sets Un_assoc by argo
qed

text \<open>
  The set-up of the fat tree. Whatever the queue type asked for and whatever memory holds before the
  constructors run, the three loops succeed; they create exactly the elements with indices in the arrays,
  each queue of its discipline with its speed and buffer, each pipe with a delay of 0.1 us; no two elements
  share an id, and the log file maps the id of each to its own name. The loops take 1728 ids.
\<close>

lemma fat_tree_setup:
  assumes "unat i + 1728 < 2 ^ 32"
  shows "\<exists>l. ft_links mem QueueType (lab_empty i lf) = Some l \<and>
    built (ft_queue mem QueueType) ft_pipe {e. ft_exists e} l \<and> named ft_name {e. ft_exists e} l \<and>
    unat (lb_lastid l) = unat i + 1728"
  by (rule adds_empty [OF adds_ft_links assms])

lemma fat_tree_setup_witness:
  "\<exists>l. ft_links (\<lambda>_. \<lparr>jk_words = (\<lambda>_. 0), jk_packet = None\<rparr>) ''afq'' (lab_empty 1 (mkLogfile 0 100 [])) = Some l \<and>
     unat (lb_lastid l) = 1729"
  using fat_tree_setup [of 1 "\<lambda>_. \<lparr>jk_words = (\<lambda>_. 0), jk_packet = None\<rparr>" "''afq''" "mkLogfile 0 100 []"] by auto

section \<open>The experiment\<close>

text \<open>The rate of the generator and its mean interarrival time, for the default arguments.\<close>

lemma ft_rate_default: "double_to_u64 (ft_flow_rate (dbl (9 / 10))) = Some 658285714285"
proof -
  have n: "dbl 640000000000 = 640000000000" using dbl_of_int [of 640000000000] by simp
  have bg: "dbl (dbl (9 / 10) * 640000000000) = 576000000000" by code_simp
  have "trunc_rat (dbl (dbl (576000000000 * 8) / 7)) = 658285714285" by code_simp
  then show ?thesis
    by (simp add: double_to_u64_def ft_flow_rate_def Let_def as_double_def ft_sizes ft_constants n bg)
qed

lemma ft_arrival:
  "trunc_rat (dbl (dbl 1000000000000 / dbl (dbl 658285714285 / dbl 800000))) = 1215277"
  "trunc_rat (dbl (dbl 1000000000000 / dbl (dbl 658285714285 / dbl 1720000))) = 2612847"
  "trunc_rat (dbl (dbl 1000000000000 / dbl (dbl 658285714285 / dbl 100000000))) = 151909722"
  "dbl (dbl 658285714285 / dbl 800000) \<noteq> 0" "dbl 800000 \<noteq> 0"
  "dbl (dbl 658285714285 / dbl 1720000) \<noteq> 0" "dbl 1720000 \<noteq> 0"
  "dbl (dbl 658285714285 / dbl 100000000) \<noteq> 0" "dbl 100000000 \<noteq> 0"
  by code_simp+

lemma ft_generator_default: "\<exists>g. mkFlowGenerator eh 658285714285 100000 fdist t0 = Some g"
proof -
  have s: "unat (timeFromSec 1) = 1000000000000"
    using llround_of_int [of 1000000000000] dbl_of_int [of 1000000000000] by (simp add: timeFromSec_def)
  show ?thesis
    by (cases fdist) (simp_all add: mkFlowGenerator_def mkWorkloads_def double_to_u64_def s ft_arrival)
qed

text \<open>
  C37: the fat tree with its default load. For every queue type, end host and distribution of the sizes the
  set-up of the experiment returns, with all links built and named and flows arriving from 1 us to the end
  after 5 s; but it never gives the generator the log file, so that the first arrival, whatever it draws,
  reads an uninitialised pointer.
\<close>

theorem fat_tree_first_arrival:
  assumes "args ''duration'' = None" "args ''flowsize'' = None" "args ''lstf'' = None" "args ''utilization'' = None"
    and "unat i + 1729 < 2 ^ 32"
  shows "\<exists>l g. fat_tree_testbed mem t0 args (lab_empty i lf) =
      Some (l, g, [SchedAt 1000000, SchedAt 4999999999999], 5000000000000) \<and>
    built (ft_queue mem (parseString args ''queue'' ''droptail'')) ft_pipe {e. ft_exists e} l \<and>
    named ft_name {e. ft_exists e} l \<and>
    (\<forall>d w. gw_now w \<noteq> 4999999999999 \<longrightarrow> fg_doNextEvent d w g = None)"
proof -
  define qt where "qt = parseString args ''queue'' ''droptail''"
  obtain l where l: "ft_links mem qt (lab_empty i lf) = Some l"
      "built (ft_queue mem qt) ft_pipe {e. ft_exists e} l" "named ft_name {e. ft_exists e} l"
    "unat (lb_lastid l) = unat i + 1728"
    using adds_empty [OF adds_ft_links [of mem qt], of i lf] assms(5) by auto
  obtain g0 where g0: "mkFlowGenerator (ft_endhost (parseString args ''endhost'' ''dctcp'')) 658285714285 100000
      (flowdist_of (parseString args ''flowdist'' ''uniform'')) t0 = Some g0"
    using ft_generator_default by blast
  note f = mkFlowGenerator_fields [OF g0]
  have t: "timeFromUs 1 = 1000000" "timeFromSec (as_double (5 :: u32)) = 5000000000000"
    using timeFromUs_nat [of 1] llround_of_int [of 5000000000000] dbl_of_int [of 5] dbl_of_int [of 5000000000000]
    by (simp_all add: as_double_def timeFromSec_def)
  define l' where "l' = l\<lparr>lb_lastid := lb_lastid l + 1\<rparr>"
  have le: "lb_lastid l \<le> lb_lastid l + 1" using lastid_Suc(2) [of l] l(4) assms(5) by (simp add: less_imp_le)
  have "fat_tree_testbed mem t0 args (lab_empty i lf) =
      Some (l', g0\<lparr>fg_endTime := 4999999999999\<rparr>, [SchedAt 1000000, SchedAt 4999999999999], 5000000000000)"
    using f(4) by (simp add: fat_tree_testbed_def parseInt_def parseDouble_def assms(1-4) l(1) [unfolded qt_def]
      ft_rate_default g0 fg_setTimeLimits_def t l'_def)
  moreover have "built (ft_queue mem qt) ft_pipe {e. ft_exists e} l'"
    by (rule built_cong [OF l(2)]) (use le in \<open>simp_all add: l'_def\<close>)
  moreover have "named ft_name {e. ft_exists e} l'" using l(3) by (simp add: named_def l'_def)
  moreover have "fg_doNextEvent d w (g0\<lparr>fg_endTime := 4999999999999\<rparr>) = None" if "gw_now w \<noteq> 4999999999999" for d w
    by (rule fg_no_logfile) (simp_all add: f(3) that)
  ultimately show ?thesis unfolding qt_def by blast
qed

lemma fat_tree_first_arrival_witness:
  "\<exists>l g. fat_tree_testbed (\<lambda>_. \<lparr>jk_words = (\<lambda>_. 0), jk_packet = None\<rparr>) 0 [''endhost'' \<mapsto> ''timely'']
       (lab_empty 1 (mkLogfile 0 100 [])) = Some (l, g, [SchedAt 1000000, SchedAt 4999999999999], 5000000000000) \<and>
     (\<forall>d w. gw_now w \<noteq> 4999999999999 \<longrightarrow> fg_doNextEvent d w g = None)"
  using fat_tree_first_arrival [of "[''endhost'' \<mapsto> ''timely'']" 1 "\<lambda>_. \<lparr>jk_words = (\<lambda>_. 0), jk_packet = None\<rparr>" 0
      "mkLogfile 0 100 []"] by (simp, blast)

end
