(* ===== verification/CongaLab.thy ===== *)
theory CongaLab
  imports Lab CongaNet FlowGenProps
begin

text \<open>
  The set-up of \<open>test_conga_testbed.cpp\<close>: the links between leaves and cores, the links between servers
  and leaves, the leaf switches and the flow generator. The arrays' elements are the sinks of the routes.
\<close>

section \<open>Set-up\<close>

definition LEAF_BUFFER :: u64 where "LEAF_BUFFER = 512000"
definition CORE_BUFFER :: u64 where "CORE_BUFFER = 1024000"
definition cg_ENDH_BUFFER :: u64 where "cg_ENDH_BUFFER = 8192000"
definition LEAF_SPEED :: u64 where "LEAF_SPEED = 10000000000"
definition CORE_SPEED :: u64 where "CORE_SPEED = 40000000000"
definition cg_LINK_DELAY :: rat where "cg_LINK_DELAY = dbl (1 / 10)"

definition indexed :: "string \<Rightarrow> nat \<Rightarrow> nat \<Rightarrow> string" where
  "indexed name i j = name @ to_string i @ '','' @ to_string j"

text \<open>The bodies of the loops; \<open>doLog\<close> is whether the queues have a logger.\<close>

definition cg_core_links :: "bool \<Rightarrow> bool \<Rightarrow> nat \<Rightarrow> nat \<Rightarrow> sink lab \<Rightarrow> sink lab option" where
  "cg_core_links ecmp doLog i j l = do {
     q \<leftarrow> mkQueue CORE_SPEED CORE_BUFFER doLog;
     let l = lab_addQueue (QToRCore i j) (Droptail q) l;
     q \<leftarrow> (if ecmp then map_option Droptail (mkQueue CORE_SPEED CORE_BUFFER doLog)
           else map_option Core (mkCoreQueue (of_nat i) (of_nat j) CORE_SPEED CORE_BUFFER doLog));
     let l = lab_addQueue (QCoreToR i j) q l;
     let l = lab_addPipe (PToRCore i j) (timeFromUs cg_LINK_DELAY) l;
     let l = lab_addPipe (PCoreToR i j) (timeFromUs cg_LINK_DELAY) l;
     l \<leftarrow> lab_named (QToRCore i j) (indexed ''qToRCore'' i j) l;
     l \<leftarrow> lab_named (QCoreToR i j) (indexed ''qCoreToR'' i j) l;
     l \<leftarrow> lab_named (PToRCore i j) (indexed ''pToRCore'' i j) l;
     lab_named (PCoreToR i j) (indexed ''pCoreToR'' i j) l
   }"

definition cg_server_links :: "bool \<Rightarrow> nat \<Rightarrow> nat \<Rightarrow> sink lab \<Rightarrow> sink lab option" where
  "cg_server_links doLog i j l = do {
     q \<leftarrow> mkQueue LEAF_SPEED LEAF_BUFFER doLog;
     let l = lab_addQueue (QServerToR i j) (Droptail q) l;
     q \<leftarrow> mkQueue LEAF_SPEED LEAF_BUFFER doLog;
     let l = lab_addQueue (QToRServer i j) (Droptail q) l;
     let l = lab_addPipe (PServerToR i j) (timeFromUs cg_LINK_DELAY) l;
     let l = lab_addPipe (PToRServer i j) (timeFromUs cg_LINK_DELAY) l;
     l \<leftarrow> lab_named (QServerToR i j) (indexed ''qServerToR'' i j) l;
     l \<leftarrow> lab_named (QToRServer i j) (indexed ''qToRServer'' i j) l;
     l \<leftarrow> lab_named (PServerToR i j) (indexed ''pServerToR'' i j) l;
     lab_named (PToRServer i j) (indexed ''pToRServer'' i j) l
   }"

text \<open>A leaf switch takes an id and a name; the switches themselves are \<open>mkToR\<close>, with the results of \<open>rand()\<close>.\<close>

definition cg_tor :: "nat \<Rightarrow> sink lab \<Rightarrow> sink lab option" where
  "cg_tor i l = lab_named (SToR (of_nat i)) (''ToR'' @ to_string i)
     (l\<lparr>lb_ids := (lb_ids l)(SToR (of_nat i) \<mapsto> lb_lastid l), lb_lastid := lb_lastid l + 1\<rparr>)"

definition cg_tors :: "(nat \<Rightarrow> nat \<Rightarrow> nat) \<Rightarrow> tor list" where
  "cg_tors rnd = map (\<lambda>i. mkToR (of_nat i) (map (rnd i) [0..<N_TOR])) [0..<N_TOR]"

definition cg_links :: "bool \<Rightarrow> bool \<Rightarrow> sink lab \<Rightarrow> sink lab option" where
  "cg_links ecmp doLog l = do {
     l \<leftarrow> for_upto [0..<N_CORE] (\<lambda>i. for_upto [0..<N_TOR] (cg_core_links ecmp doLog i)) l;
     l \<leftarrow> for_upto [0..<N_TOR] (\<lambda>i. for_upto [0..<N_SERVER] (cg_server_links doLog i)) l;
     for_upto [0..<N_TOR] cg_tor l
   }"

text \<open>The rate; the second factor divides integers.\<close>

definition cg_flowRate :: "rat \<Rightarrow> u64 option" where
  "cg_flowRate load = do {
     let x = dbl (dbl (load / 100) * as_double CORE_SPEED);
     r \<leftarrow> double_to_u64 (dbl (dbl (x * of_nat N_CORE) * of_nat N_TOR));
     Some (r * of_nat (N_CORE * N_TOR div (N_CORE * N_TOR - 1)))
   }"

definition cg_flowdist :: "u32 \<Rightarrow> flow_dist option" where
  "cg_flowdist wl =
     (if wl < 4 then Some ([UNIFORM, PARETO, ENTERPRISE, DATAMINING] ! unat wl) else None)"

definition cg_generator :: "u64 \<Rightarrow> arg_list \<Rightarrow> bool \<Rightarrow> (flow_gen \<times> action list \<times> u64) option" where
  "cg_generator endTime0 args doLog = do {
     load \<leftarrow> parseDouble args ''load'' 10;
     tms \<leftarrow> parseDouble args ''tms'' 10;
     fsKb \<leftarrow> parseInt args ''fs'' 15;
     wl \<leftarrow> parseInt args ''wl'' 0;
     maxflow \<leftarrow> parseInt args ''mf'' (- 1);
     offRt \<leftarrow> parseDouble args ''of'' 0;
     flowRate \<leftarrow> cg_flowRate load;
     flowSizeDist \<leftarrow> cg_flowdist wl;
     g \<leftarrow> mkFlowGenerator EH_TCP flowRate (fsKb * 1000) flowSizeDist endTime0;
     let g = fg_setEndhostQueue LEAF_SPEED cg_ENDH_BUFFER g;
     g \<leftarrow> (if maxflow > 0 then fg_setReplaceFlow maxflow offRt g else Some g);
     let g = fg_setLogFile True (fg_setTrafficLogger doLog g);
     (g, as) \<leftarrow> fg_setTimeLimits 0 (timeFromMs tms - 1) g;
     Some (g, as, timeFromMs tms)
   }"

definition conga_testbed ::
  "(nat \<Rightarrow> nat \<Rightarrow> nat) \<Rightarrow> u64 \<Rightarrow> arg_list \<Rightarrow> sink lab \<Rightarrow>
     (bool \<times> sink lab \<times> tor list \<times> flow_gen \<times> action list \<times> u64) option" where
  "conga_testbed rnd endTime0 args l = do {
     ecmp \<leftarrow> parseInt args ''ecmp'' 0;
     doLog \<leftarrow> parseInt args ''log'' 0;
     l \<leftarrow> cg_links (ecmp \<noteq> 0) (doLog \<noteq> 0) l;
     (g, as, T) \<leftarrow> cg_generator endTime0 args (doLog \<noteq> 0);
     Some (ecmp \<noteq> 0, l\<lparr>lb_lastid := lb_lastid l + 1\<rparr>, cg_tors rnd, g, as, T)
   }"

end
