(* ===== verification/CongaLabProps.thy ===== *)
theory CongaLabProps
  imports CongaLab
begin

text \<open>The set-up of the CONGA testbed creates every element that a route can name.\<close>

section \<open>The topology\<close>

fun cg_exists :: "sink \<Rightarrow> bool" where
  "cg_exists (QToRCore c t) \<longleftrightarrow> c < 2 \<and> t < 8"
| "cg_exists (PToRCore c t) \<longleftrightarrow> c < 2 \<and> t < 8"
| "cg_exists (QCoreToR c t) \<longleftrightarrow> c < 2 \<and> t < 8"
| "cg_exists (PCoreToR c t) \<longleftrightarrow> c < 2 \<and> t < 8"
| "cg_exists (QServerToR t s) \<longleftrightarrow> t < 8 \<and> s < 8"
| "cg_exists (PServerToR t s) \<longleftrightarrow> t < 8 \<and> s < 8"
| "cg_exists (QToRServer t s) \<longleftrightarrow> t < 8 \<and> s < 8"
| "cg_exists (PToRServer t s) \<longleftrightarrow> t < 8 \<and> s < 8"
| "cg_exists (SToR t) \<longleftrightarrow> t < 8"
| "cg_exists _ \<longleftrightarrow> False"

fun cg_queue :: "bool \<Rightarrow> bool \<Rightarrow> sink \<Rightarrow> any_queue option" where
  "cg_queue ecmp doLog (QToRCore c t) = map_option Droptail (mkQueue CORE_SPEED CORE_BUFFER doLog)"
| "cg_queue ecmp doLog (QCoreToR c t) =
     (if ecmp then map_option Droptail (mkQueue CORE_SPEED CORE_BUFFER doLog)
      else map_option Core (mkCoreQueue (of_nat c) (of_nat t) CORE_SPEED CORE_BUFFER doLog))"
| "cg_queue ecmp doLog (QServerToR t s) = map_option Droptail (mkQueue LEAF_SPEED LEAF_BUFFER doLog)"
| "cg_queue ecmp doLog (QToRServer t s) = map_option Droptail (mkQueue LEAF_SPEED LEAF_BUFFER doLog)"
| "cg_queue ecmp doLog _ = None"

fun cg_pipe :: "sink \<Rightarrow> pipe option" where
  "cg_pipe (PToRCore c t) = Some (mkPipe 100000)"
| "cg_pipe (PCoreToR c t) = Some (mkPipe 100000)"
| "cg_pipe (PServerToR t s) = Some (mkPipe 100000)"
| "cg_pipe (PToRServer t s) = Some (mkPipe 100000)"
| "cg_pipe _ = None"

fun cg_name :: "sink \<Rightarrow> string" where
  "cg_name (QToRCore c t) = indexed ''qToRCore'' c t"
| "cg_name (PToRCore c t) = indexed ''pToRCore'' c t"
| "cg_name (QCoreToR c t) = indexed ''qCoreToR'' c t"
| "cg_name (PCoreToR c t) = indexed ''pCoreToR'' c t"
| "cg_name (QServerToR t s) = indexed ''qServerToR'' t s"
| "cg_name (PServerToR t s) = indexed ''pServerToR'' t s"
| "cg_name (QToRServer t s) = indexed ''qToRServer'' t s"
| "cg_name (PToRServer t s) = indexed ''pToRServer'' t s"
| "cg_name (SToR t) = ''ToR'' @ to_string (unat t)"
| "cg_name _ = []"

abbreviation cg_adds where "cg_adds ecmp doLog \<equiv> adds (cg_queue ecmp doLog) cg_pipe cg_name"

section \<open>The loops\<close>

lemma cg_link_delay: "timeFromUs cg_LINK_DELAY = 100000"
  by code_simp

lemmas cg_speeds = CORE_SPEED_def LEAF_SPEED_def

lemma adds_cg_core_links:
  "cg_adds ecmp doLog {QToRCore i j, QCoreToR i j, PToRCore i j, PCoreToR i j} 4 (cg_core_links ecmp doLog i j)"
proof -
  obtain a where a: "mkQueue CORE_SPEED CORE_BUFFER doLog = Some a" by (simp add: mkQueue_def cg_speeds)
  obtain b where b: "(if ecmp then map_option Droptail (mkQueue CORE_SPEED CORE_BUFFER doLog)
      else map_option Core (mkCoreQueue (of_nat i) (of_nat j) CORE_SPEED CORE_BUFFER doLog)) = Some b"
    by (cases ecmp) (simp_all add: mkQueue_def mkCoreQueue_def cg_speeds)
  have "cg_adds ecmp doLog {QToRCore i j, QCoreToR i j, PToRCore i j, PCoreToR i j} 4
      (\<lambda>l. lab_all_named cg_name [QToRCore i j, QCoreToR i j, PToRCore i j, PCoreToR i j]
        (lab_addPipe (PCoreToR i j) 100000 (lab_addPipe (PToRCore i j) 100000
          (lab_addQueue (QCoreToR i j) b (lab_addQueue (QToRCore i j) (Droptail a) l)))))"
    by (rule adds_link) (use a b in simp_all)
  then show ?thesis
    unfolding cg_core_links_def [abs_def] b cg_link_delay unfolding a by (simp add: lab_all_named_eqs)
qed

lemma adds_cg_server_links:
  "cg_adds ecmp doLog {QServerToR i j, QToRServer i j, PServerToR i j, PToRServer i j} 4 (cg_server_links doLog i j)"
proof -
  obtain a where a: "mkQueue LEAF_SPEED LEAF_BUFFER doLog = Some a" by (simp add: mkQueue_def cg_speeds)
  have "cg_adds ecmp doLog {QServerToR i j, QToRServer i j, PServerToR i j, PToRServer i j} 4
      (\<lambda>l. lab_all_named cg_name [QServerToR i j, QToRServer i j, PServerToR i j, PToRServer i j]
        (lab_addPipe (PToRServer i j) 100000 (lab_addPipe (PServerToR i j) 100000
          (lab_addQueue (QToRServer i j) (Droptail a) (lab_addQueue (QServerToR i j) (Droptail a) l)))))"
    by (rule adds_link) (use a in simp_all)
  then show ?thesis
    unfolding cg_server_links_def [abs_def] a cg_link_delay by (simp add: lab_all_named_eqs)
qed

lemma unat_leaf: "i < 8 \<Longrightarrow> unat (of_nat i :: u8) = i"
  by (simp add: unat_of_nat)

lemma adds_cg_tor:
  assumes "i < 8"
  shows "cg_adds ecmp doLog {SToR (of_nat i)} 1 (cg_tor i)"
  using adds_other [of "cg_queue ecmp doLog" "SToR (of_nat i)" cg_pipe cg_name]
  by (simp add: cg_tor_def [abs_def] unat_leaf [OF assms])

definition cg_core_set :: "nat \<Rightarrow> nat \<Rightarrow> sink set" where
  "cg_core_set i j = {QToRCore i j, QCoreToR i j, PToRCore i j, PCoreToR i j}"

definition cg_server_set :: "nat \<Rightarrow> nat \<Rightarrow> sink set" where
  "cg_server_set i j = {QServerToR i j, QToRServer i j, PServerToR i j, PToRServer i j}"

lemma cg_exists_sets:
  "{e. cg_exists e} = (\<Union>i<2. \<Union>j<8. cg_core_set i j) \<union> ((\<Union>i<8. \<Union>j<8. cg_server_set i j) \<union> (\<Union>i<8. {SToR (of_nat i)}))"
  (is "_ = ?R")
proof (rule set_eqI)
  fix e
  have "t \<in> of_nat ` {..<8} \<longleftrightarrow> t < 8" for t :: u8
  proof
    assume "t < 8"
    then have "t = of_nat (unat t)" "unat t < 8" by (simp_all add: word_less_nat_alt)
    then show "t \<in> of_nat ` {..<8}" by blast
  qed (auto simp: word_less_nat_alt unat_leaf)
  then show "e \<in> {e. cg_exists e} \<longleftrightarrow> e \<in> ?R"
    by (cases e) (auto simp: cg_core_set_def cg_server_set_def)
qed

lemma adds_cg_links: "cg_adds ecmp doLog {e. cg_exists e} 328 (cg_links ecmp doLog)"
proof -
  let ?C = "\<Union>i<2. \<Union>j<8. cg_core_set i j" and ?S = "\<Union>i<8. \<Union>j<8. cg_server_set i j"
    and ?T = "\<Union>i<8. {SToR (of_nat i)}"
  have c: "cg_adds ecmp doLog ?C (2 * (8 * 4)) (for_upto [0..<2] (\<lambda>i. for_upto [0..<8] (cg_core_links ecmp doLog i)))"
    by (rule adds_for_2) (use adds_cg_core_links in \<open>auto simp: cg_core_set_def\<close>)
  have s: "cg_adds ecmp doLog ?S (8 * (8 * 4)) (for_upto [0..<8] (\<lambda>i. for_upto [0..<8] (cg_server_links doLog i)))"
    by (rule adds_for_2) (use adds_cg_server_links in \<open>auto simp: cg_server_set_def\<close>)
  have t: "cg_adds ecmp doLog ?T (8 * 1) (for_upto [0..<8] cg_tor)"
  proof (rule adds_for)
    show "{SToR (of_nat i)} \<inter> {SToR (of_nat j)} = {}" if "i < j" "j < 8" for i j
      using that unat_leaf [of i] unat_leaf [of j] by auto
  qed (rule adds_cg_tor)
  have d: "?S \<inter> ?T = {}" "?C \<inter> (?S \<union> ?T) = {}" by (auto simp: cg_core_set_def cg_server_set_def)
  have "cg_adds ecmp doLog (?C \<union> (?S \<union> ?T)) (2 * (8 * 4) + (8 * (8 * 4) + 8 * 1)) (cg_links ecmp doLog)"
    using adds_seq [OF c adds_seq [OF s t d(1)] d(2)]
    by (simp add: cg_links_def [abs_def] N_CORE_def N_TOR_def N_SERVER_def)
  moreover have "(2 * (8 * 4) + (8 * (8 * 4) + 8 * 1) :: nat) = 328" by simp
  ultimately show ?thesis unfolding cg_exists_sets by argo
qed

section \<open>Properties\<close>

lemma conga_generated:
  "\<exists>a b i j core. a < 8 \<and> b < 8 \<and> a \<noteq> b \<and> i < 8 \<and> j < 8 \<and> core < 2 \<and>
     cr_fwd (conga_routeGenerate ecmp r1 r2 r3 r4 r5) = conga_route ecmp core a i b j \<and>
     cr_rev (conga_routeGenerate ecmp r1 r2 r3 r4 r5) = conga_route ecmp core b j a i"
proof -
  define a where "a = r1 mod 8"
  define b where "b = ((a + 1 + r2 mod 7) mod 256) mod 8"
  define core where "core = unat (simpleHash (of_nat (a * 8 + r3 mod 8)) (of_nat r5)) mod 2"
  have "a \<noteq> b" using conga_leaves_differ [of r1 r2] by (simp add: a_def b_def)
  moreover have "a < 8" "b < 8" "core < 2" by (simp_all add: a_def b_def core_def)
  moreover have "r3 mod 8 < 8" "r4 mod 8 < 8" by simp_all
  moreover have "cr_fwd (conga_routeGenerate ecmp r1 r2 r3 r4 r5) = conga_route ecmp core a (r3 mod 8) b (r4 mod 8) \<and>
      cr_rev (conga_routeGenerate ecmp r1 r2 r3 r4 r5) = conga_route ecmp core b (r4 mod 8) a (r3 mod 8)"
    by (simp add: conga_routeGenerate_def Let_def N_TOR_def N_SERVER_def N_CORE_def a_def b_def core_def)
  ultimately show ?thesis by blast
qed

lemma conga_route_exists:
  assumes "a < 8" "b < 8" "i < 8" "j < 8" "core < 2"
  shows "set (conga_route ecmp core a i b j) \<subseteq> {e. cg_exists e}"
  using assms by (auto simp: conga_route_def word_less_nat_alt unat_leaf)

text \<open>
  C38: the CONGA testbed. Whenever the numbers in the arguments can be read and the generator can be
  created, the set-up returns: every element of the topology, and no other, exists with an id of its own,
  its name in the log file and the queue or pipe it should have (core queues on the way down unless ECMP
  is asked for); the generator has a log file; and the random routes, whatever \<open>rand()\<close> returns,
  join servers of different leaves over existing elements in both directions. The set-up takes 329 ids.
\<close>

theorem conga_setup:
  assumes "parseInt args ''ecmp'' 0 = Some ec" "parseInt args ''log'' 0 = Some lg"
    and "cg_generator t0 args (lg \<noteq> 0) = Some (g, as, T)" "unat i + 329 < 2 ^ 32"
  shows "\<exists>l. conga_testbed rnd t0 args (lab_empty i lf) = Some (ec \<noteq> 0, l, cg_tors rnd, g, as, T) \<and>
    built (cg_queue (ec \<noteq> 0) (lg \<noteq> 0)) cg_pipe {e. cg_exists e} l \<and> named cg_name {e. cg_exists e} l \<and>
    unat (lb_lastid l) = unat i + 329 \<and> fg_logfile g = Some True \<and>
    (\<exists>a b. a < 8 \<and> b < 8 \<and> a \<noteq> b \<and>
       (let r = conga_routeGenerate (ec \<noteq> 0) r1 r2 r3 r4 r5
        in route_leaves (cr_fwd r) = Some (a, b) \<and> route_leaves (cr_rev r) = Some (b, a) \<and>
          set (cr_fwd r) \<union> set (cr_rev r) \<subseteq> dom (lb_ids l)))"
proof -
  obtain l where l: "cg_links (ec \<noteq> 0) (lg \<noteq> 0) (lab_empty i lf) = Some l"
      "built (cg_queue (ec \<noteq> 0) (lg \<noteq> 0)) cg_pipe {e. cg_exists e} l" "named cg_name {e. cg_exists e} l"
      "unat (lb_lastid l) = unat i + 328"
    using adds_empty [OF adds_cg_links [of "ec \<noteq> 0" "lg \<noteq> 0"], of i lf] assms(4) by auto
  note s = lastid_Suc [of l]
  define l' where "l' = l\<lparr>lb_lastid := lb_lastid l + 1\<rparr>"
  have "lb_lastid l \<le> lb_lastid l + 1" using s(2) l(4) assms(4) by (simp add: less_imp_le)
  then have b: "built (cg_queue (ec \<noteq> 0) (lg \<noteq> 0)) cg_pipe {e. cg_exists e} l'"
    by (intro built_cong [OF l(2)]) (simp_all add: l'_def)
  have "conga_testbed rnd t0 args (lab_empty i lf) = Some (ec \<noteq> 0, l', cg_tors rnd, g, as, T)"
    by (simp add: conga_testbed_def assms(1-3) l(1) l'_def)
  moreover have "named cg_name {e. cg_exists e} l'" using l(3) by (simp add: named_def l'_def)
  moreover have "unat (lb_lastid l') = unat i + 329" using s(1) l(4) assms(4) by (simp add: l'_def)
  moreover have "fg_logfile g = Some True"
    using assms(3) by (auto simp: cg_generator_def bind_eq_Some_conv Let_def fg_setTimeLimits_def fg_setLogFile_def
      split: if_splits)
  moreover have "\<exists>a b. a < 8 \<and> b < 8 \<and> a \<noteq> b \<and>
       (let r = conga_routeGenerate (ec \<noteq> 0) r1 r2 r3 r4 r5
        in route_leaves (cr_fwd r) = Some (a, b) \<and> route_leaves (cr_rev r) = Some (b, a) \<and>
          set (cr_fwd r) \<union> set (cr_rev r) \<subseteq> dom (lb_ids l'))"
  proof -
    obtain a b' x y core where r: "a < 8" "b' < 8" "a \<noteq> b'" "x < 8" "y < 8" "core < 2"
      "cr_fwd (conga_routeGenerate (ec \<noteq> 0) r1 r2 r3 r4 r5) = conga_route (ec \<noteq> 0) core a x b' y"
      "cr_rev (conga_routeGenerate (ec \<noteq> 0) r1 r2 r3 r4 r5) = conga_route (ec \<noteq> 0) core b' y a x"
      using conga_generated by metis
    have "dom (lb_ids l') = {e. cg_exists e}" using b by (simp add: built_def)
    moreover have "route_leaves (conga_route (ec \<noteq> 0) core c x d y) = Some (c, d)" for c d x y
      by (simp add: route_leaves_def conga_route_def)
    ultimately show ?thesis
      using r conga_route_exists [of a b' x y core "ec \<noteq> 0"] conga_route_exists [of b' a y x core "ec \<noteq> 0"]
      by (metis Let_def Un_least)
  qed
  ultimately show ?thesis using b by blast
qed

text \<open>The default arguments.\<close>

lemma cg_generator_default: "\<exists>g as. cg_generator 0 Map.empty False = Some (g, as, 10000000000)"
proof -
  have s: "unat (timeFromSec 1) = 1000000000000" "timeFromMs 10 = 10000000000"
    "as_double (40000000000 :: u64) = 40000000000"
    using llround_of_int [of 1000000000000] dbl_of_int [of 1000000000000] llround_of_int [of 10000000000]
      dbl_of_int [of 10000000000] dbl_of_int [of 40000000000]
    by (simp_all add: timeFromSec_def timeFromMs_def as_double_def)
  have r: "trunc_rat (dbl (dbl (dbl (dbl (1 / 10) * 40000000000) * 2) * 8)) = 64000000000"
    "trunc_rat (dbl (dbl 1000000000000 / dbl (dbl 64000000000 / dbl 120000))) = 1874999"
    "dbl (dbl 64000000000 / dbl 120000) \<noteq> 0" "dbl 120000 \<noteq> 0" "dbl 1 \<noteq> 0"
    by code_simp+
  have "cg_flowRate 10 = Some 64000000000"
    using r(1) by (simp add: cg_flowRate_def CORE_SPEED_def s N_CORE_def N_TOR_def double_to_u64_def)
  moreover have "(64000000000 :: u64) div ucast (- 1 :: u32) \<noteq> 0" by code_simp
  ultimately show ?thesis
    by (simp add: cg_generator_def parseDouble_def parseInt_def s r mkFlowGenerator_def cg_flowdist_def
      mkWorkloads_def double_to_u64_def fg_setTimeLimits_def fg_setEndhostQueue_def fg_setLogFile_def
      fg_setTrafficLogger_def fg_setReplaceFlow_def Let_def)
qed

lemma conga_setup_witness:
  "\<exists>l g as. conga_testbed (\<lambda>_ k. k) 0 Map.empty (lab_empty 1 (mkLogfile 0 100 [])) =
       Some (False, l, cg_tors (\<lambda>_ k. k), g, as, 10000000000) \<and> unat (lb_lastid l) = 330 \<and>
     named cg_name {e. cg_exists e} l"
proof -
  obtain g as where g: "cg_generator 0 Map.empty False = Some (g, as, 10000000000)" using cg_generator_default by blast
  show ?thesis
    using conga_setup [of Map.empty 0 0 0 g as 10000000000 1 "\<lambda>_ k. k" "mkLogfile 0 100 []" 0 0 0 0 0] g
    by (simp add: parseInt_def) blast
qed

end
