(* ===== verification/SingleLink.thy ===== *)
theory SingleLink
  imports Lab FlowGenProps
begin

text \<open>
  \<open>test_single_link.cpp\<close> and \<open>test_simp_single_link.cpp\<close>: one link in each direction, with the queue
  discipline and the end hosts the arguments ask for, and the small variant with fixed parameters.
\<close>

section \<open>The single link\<close>

datatype link_elem = PipeFwd | PipeRev | QueueFwd | QueueRev

definition sl_newQueue :: "junk \<Rightarrow> string \<Rightarrow> u64 \<Rightarrow> u64 \<Rightarrow> AFQcfg \<Rightarrow> any_queue option" where
  "sl_newQueue j QueueType speed buffer afqcfg =
     (if QueueType = ''fq'' then map_option Fair (mkFairQueue (jk_packet j) speed buffer True)
      else if QueueType = ''afq'' then map_option Aprx (mkAprxFairQueue speed buffer True afqcfg)
      else if QueueType = ''sfq'' then map_option Stoc (mkStocFairQueue speed buffer True 32 (word_of_int MSS_BYTES))
      else map_option Droptail (mkQueue speed buffer True))"

definition sl_afqcfg :: "arg_list \<Rightarrow> AFQcfg option" where
  "sl_afqcfg args = do {
     h \<leftarrow> parseInt args ''afqH'' (nHash defaultAFQcfg);
     b \<leftarrow> parseInt args ''afqB'' (nBucket defaultAFQcfg);
     q \<leftarrow> parseInt args ''afqQ'' (nQueue defaultAFQcfg);
     r \<leftarrow> parseInt args ''afqBpR'' (bytesPerRound defaultAFQcfg);
     a \<leftarrow> parseInt args ''afqAlpha'' (cfg_alpha defaultAFQcfg);
     Some \<lparr>nHash = h, nBucket = b, nQueue = q, bytesPerRound = r, cfg_alpha = a\<rparr>
   }"

text \<open>The pipes, the queues and their entries in the log file; the routes are global variables.\<close>

definition sl_links ::
  "(link_elem \<Rightarrow> junk) \<Rightarrow> string \<Rightarrow> AFQcfg \<Rightarrow> u64 \<Rightarrow> u64 \<Rightarrow> u64 \<Rightarrow> link_elem lab \<Rightarrow> link_elem lab option" where
  "sl_links mem QueueType afqcfg LinkSpeed LinkDelay LinkBuffer l = do {
     let l = lab_addSampler (mem QueueFwd) QueueFwd (timeFromUs 10) l;
     l \<leftarrow> lab_named PipeFwd ''pipeFwd'' (lab_addPipe PipeFwd (timeFromUs (as_double (LinkDelay div 2))) l);
     l \<leftarrow> lab_named PipeRev ''pipeRev'' (lab_addPipe PipeRev (timeFromUs (as_double (LinkDelay div 2))) l);
     q \<leftarrow> sl_newQueue (mem QueueFwd) QueueType LinkSpeed LinkBuffer afqcfg;
     l \<leftarrow> lab_named QueueFwd ''queueFwd'' (lab_addQueue QueueFwd q l);
     q \<leftarrow> mkQueue LinkSpeed LinkBuffer False;
     lab_named QueueRev ''queueRev'' (lab_addQueue QueueRev (Droptail q) l)
   }"

record linksim_routes =
  lr_fwd :: "link_elem list"
  lr_rev :: "link_elem list"
  lr_src :: u32
  lr_dst :: u32

definition linksim_generateRoute :: linksim_routes where
  "linksim_generateRoute = \<lparr>lr_fwd = [QueueFwd, PipeFwd], lr_rev = [QueueRev, PipeRev], lr_src = 0, lr_dst = 1\<rparr>"

definition sl_endhost :: "string \<Rightarrow> end_host" where
  "sl_endhost EndHost =
     (if EndHost = ''pp'' then EH_PKTPAIR
      else if EndHost = ''timely'' then EH_TIMELY
      else if EndHost = ''dctcp'' then EH_DCTCP
      else EH_TCP)"

definition sl_flowdist :: "string \<Rightarrow> flow_dist" where
  "sl_flowdist FlowDist =
     (if FlowDist = ''pareto'' then PARETO
      else if FlowDist = ''enterprise'' then ENTERPRISE
      else if FlowDist = ''datamining'' then DATAMINING
      else UNIFORM)"

text \<open>
  The generator; \<open>files\<close> are the lines of the trace files that can be opened, the program exits at
  another name.
\<close>

definition sl_generator ::
  "(string \<Rightarrow> (u64 \<times> u32) list option) \<Rightarrow> u64 \<Rightarrow> arg_list \<Rightarrow> u64 \<Rightarrow> u32 \<Rightarrow> (flow_gen \<times> action list) option" where
  "sl_generator files endTime0 args LinkSpeed Duration = do {
     Utilization \<leftarrow> parseDouble args ''utilization'' (dbl (3 / 4));
     OnOffRatio \<leftarrow> parseDouble args ''onoff'' 0;
     MaxFlows \<leftarrow> parseInt args ''maxflows'' 0;
     AvgFlowSize \<leftarrow> parseInt args ''flowsize'' 100000;
     let flowRate = word_of_int (llround (dbl (as_double LinkSpeed * Utilization)));
     let flowRate = (if MaxFlows \<noteq> 0 then LinkSpeed else flowRate);
     g \<leftarrow> mkFlowGenerator (sl_endhost (parseString args ''endhost'' ''tcp'')) flowRate AvgFlowSize
            (sl_flowdist (parseString args ''flowdist'' ''uniform'')) endTime0;
     g \<leftarrow> (if MaxFlows \<noteq> 0 then fg_setReplaceFlow MaxFlows OnOffRatio g else Some g);
     let Trace = parseString args ''trace'' [];
     g \<leftarrow> (if Trace \<noteq> [] then map_option (\<lambda>lines. fg_setTrace lines g) (files Trace) else Some g);
     fg_setTimeLimits 0 (timeFromSec (as_double Duration) - 1) (fg_setEndhostQueue LinkSpeed 8192000 g)
   }"

definition single_link_simulation ::
  "(link_elem \<Rightarrow> junk) \<Rightarrow> (string \<Rightarrow> (u64 \<times> u32) list option) \<Rightarrow> u64 \<Rightarrow> arg_list \<Rightarrow> link_elem lab \<Rightarrow>
     (link_elem lab \<times> flow_gen \<times> action list \<times> u64) option" where
  "single_link_simulation mem files endTime0 args l = do {
     Duration \<leftarrow> parseInt args ''duration'' 10;
     LinkSpeed \<leftarrow> parseLongInt args ''linkspeed'' 10000000000;
     LinkDelay \<leftarrow> parseLongInt args ''linkdelay'' 25;
     LinkBuffer \<leftarrow> parseLongInt args ''linkbuffer'' 512000;
     afqcfg \<leftarrow> sl_afqcfg args;
     l \<leftarrow> sl_links mem (parseString args ''queue'' ''droptail'') afqcfg LinkSpeed LinkDelay LinkBuffer l;
     (g, as) \<leftarrow> sl_generator files endTime0 args LinkSpeed Duration;
     Some (l\<lparr>lb_lastid := lb_lastid l + 1\<rparr>, g, as, timeFromSec (as_double Duration))
   }"

section \<open>The small single link\<close>

datatype simp_elem = SPipefwd | SPipebck | SQfwd | SQbck

definition simp_links :: "simp_elem lab \<Rightarrow> simp_elem lab option" where
  "simp_links l = do {
     let l = lab_setName SPipefwd ''pipefwd'' (lab_addPipe SPipefwd (timeFromUs 10) l);
     let l = lab_setName SPipebck ''pipebck'' (lab_addPipe SPipebck (timeFromUs 8) l);
     l \<leftarrow> lab_writeName SPipefwd SPipefwd l;
     l \<leftarrow> lab_writeName SPipebck SPipebck l;
     q \<leftarrow> mkQueue 1000000000 10000 True;
     let l = lab_setName SQfwd ''linkQfwd'' (lab_addQueue SQfwd (Droptail q) l);
     q \<leftarrow> mkQueue 1000000000 4000 True;
     let l = lab_setName SQbck ''linkQbck'' (lab_addQueue SQbck (Droptail q) l);
     l \<leftarrow> lab_writeName SQfwd SQfwd l;
     lab_writeName SQbck SQfwd l
   }"

record simp_routes =
  sr_fwd :: "simp_elem list"
  sr_rev :: "simp_elem list"
  sr_src :: u32
  sr_dst :: u32

definition simp_routeAssign :: simp_routes where
  "simp_routeAssign = \<lparr>sr_fwd = [SQfwd, SPipefwd], sr_rev = [SQbck, SPipebck], sr_src = 0, sr_dst = 1\<rparr>"

definition simp_generator :: "u64 \<Rightarrow> (flow_gen \<times> action list) option" where
  "simp_generator endTime0 = do {
     g \<leftarrow> mkFlowGenerator EH_TCP 1000000000 (word_of_int (MSS_BYTES * 5)) UNIFORM endTime0;
     let g = fg_setEndhostQueue 2000000000 1000000 g;
     let g = fg_setLogFile True (fg_setTcpLogger True (fg_setTrafficLogger True g));
     fg_setTimeLimits 0 (timeFromUs 200 - 1) g
   }"

definition simp_single_link ::
  "u64 \<Rightarrow> simp_elem lab \<Rightarrow> (simp_elem lab \<times> flow_gen \<times> action list \<times> u64) option" where
  "simp_single_link endTime0 l = do {
     l \<leftarrow> simp_links l;
     (g, as) \<leftarrow> simp_generator endTime0;
     Some (l\<lparr>lb_lastid := lb_lastid l + 1\<rparr>, g, as, timeFromUs 200)
   }"

section \<open>What is built\<close>

fun sl_name :: "link_elem \<Rightarrow> string" where
  "sl_name PipeFwd = ''pipeFwd''"
| "sl_name PipeRev = ''pipeRev''"
| "sl_name QueueFwd = ''queueFwd''"
| "sl_name QueueRev = ''queueRev''"

fun sl_queue :: "(link_elem \<Rightarrow> junk) \<Rightarrow> string \<Rightarrow> AFQcfg \<Rightarrow> u64 \<Rightarrow> u64 \<Rightarrow> link_elem \<Rightarrow> any_queue option" where
  "sl_queue mem qt cfg speed buffer QueueFwd = sl_newQueue (mem QueueFwd) qt speed buffer cfg"
| "sl_queue mem qt cfg speed buffer QueueRev = map_option Droptail (mkQueue speed buffer False)"
| "sl_queue mem qt cfg speed buffer _ = None"

fun sl_pipe :: "u64 \<Rightarrow> link_elem \<Rightarrow> pipe option" where
  "sl_pipe d PipeFwd = Some (mkPipe d)"
| "sl_pipe d PipeRev = Some (mkPipe d)"
| "sl_pipe d _ = None"

lemma sl_newQueue_some:
  assumes "speed \<noteq> 0"
  shows "\<exists>q. sl_newQueue j qt speed buffer cfg = Some q"
  using assms by (simp add: sl_newQueue_def mkFairQueue_def mkAprxFairQueue_def mkStocFairQueue_def mkQueue_def)

lemma adds_sl_links:
  assumes "speed \<noteq> 0"
  shows "adds (sl_queue mem qt cfg speed buffer) (sl_pipe (timeFromUs (as_double (d div 2)))) sl_name UNIV 5
    (sl_links mem qt cfg speed d buffer)"
proof -
  define D where "D = timeFromUs (as_double (d div 2))"
  obtain q where q: "sl_newQueue (mem QueueFwd) qt speed buffer cfg = Some q" using sl_newQueue_some [OF assms] by blast
  obtain q' where q': "mkQueue speed buffer False = Some q'" using assms by (simp add: mkQueue_def)
  let ?A = "adds (sl_queue mem qt cfg speed buffer) (sl_pipe D) sl_name"
  have s: "?A {} 1 (\<lambda>l. Some (lab_addSampler (mem QueueFwd) QueueFwd (timeFromUs 10) l))" by (rule adds_sampler)
  have a: "?A {PipeFwd} 1 (\<lambda>l. lab_named PipeFwd (sl_name PipeFwd) (lab_addPipe PipeFwd D l))"
    "?A {PipeRev} 1 (\<lambda>l. lab_named PipeRev (sl_name PipeRev) (lab_addPipe PipeRev D l))"
    "?A {QueueFwd} 1 (\<lambda>l. lab_named QueueFwd (sl_name QueueFwd) (lab_addQueue QueueFwd q l))"
    "?A {QueueRev} 1 (\<lambda>l. lab_named QueueRev (sl_name QueueRev) (lab_addQueue QueueRev (Droptail q') l))"
    by (simp_all only: adds_pipe adds_queue sl_queue.simps sl_pipe.simps q q' option.map)
  have "?A ({} \<union> ({PipeFwd} \<union> ({PipeRev} \<union> ({QueueFwd} \<union> {QueueRev})))) (1 + (1 + (1 + (1 + 1))))
      (sl_links mem qt cfg speed d buffer)"
    using adds_seq [OF s adds_seq [OF a(1) adds_seq [OF a(2) adds_seq [OF a(3,4)]]]]
    by (simp add: sl_links_def [abs_def] q q' D_def)
  moreover have "{} \<union> ({PipeFwd} \<union> ({PipeRev} \<union> ({QueueFwd} \<union> {QueueRev}))) = UNIV"
    by (auto intro: link_elem.exhaust)
  moreover have "(1 + (1 + (1 + (1 + 1))) :: nat) = 5" by simp
  ultimately show ?thesis unfolding D_def by argo
qed

lemma sl_generator_no_logfile:
  assumes "sl_generator files t0 args speed T = Some (g, as)"
  shows "fg_logfile g = None"
proof -
  obtain e r n u g0 m x g1 tr g2 where g: "mkFlowGenerator e r n u t0 = Some g0"
      "(if m \<noteq> 0 then fg_setReplaceFlow m x g0 else Some g0) = Some g1"
      "(if tr \<noteq> [] then map_option (\<lambda>lines. fg_setTrace lines g1) (files tr) else Some g1) = Some g2"
      "fg_setTimeLimits 0 (timeFromSec (as_double T) - 1) (fg_setEndhostQueue speed 8192000 g2) = Some (g, as)"
    using assms unfolding sl_generator_def Let_def bind_eq_Some_conv by blast
  have "fg_logfile g1 = None"
    using g(2) mkFlowGenerator_fields(3) [OF g(1)] fg_setReplaceFlow_fields(2) by (auto split: if_splits)
  then have "fg_logfile g2 = None" using g(3) by (auto simp: fg_setTrace_def split: if_splits)
  then show ?thesis using g(4) by (auto simp: fg_setTimeLimits_def fg_setEndhostQueue_def split: if_splits)
qed

section \<open>Properties\<close>

text \<open>
  The single link. For a link of some speed the set-up of the experiment returns whenever the
  numbers in the arguments can be read and the generator can be created: the two queues and the two
  pipes exist with ids of their own and their names in the log file, both pipes with the delay that
  is left of the half of the argument, the forward queue of the discipline asked for; the routes go over
  them. But the generator has no log file, so that the first arrival reads an uninitialised pointer.
\<close>

lemma single_link_setup:
  assumes "parseInt args ''duration'' 10 = Some T" "parseLongInt args ''linkspeed'' 10000000000 = Some speed"
    and "parseLongInt args ''linkdelay'' 25 = Some d" "parseLongInt args ''linkbuffer'' 512000 = Some buffer"
    and "sl_afqcfg args = Some cfg" "sl_generator files t0 args speed T = Some (g, as)"
    and "speed \<noteq> 0" "unat i + 6 < 2 ^ 32" "qt = parseString args ''queue'' ''droptail''"
  shows "\<exists>l. single_link_simulation mem files t0 args (lab_empty i lf) = Some (l, g, as, timeFromSec (as_double T)) \<and>
    built (sl_queue mem qt cfg speed buffer) (sl_pipe (timeFromUs (as_double (d div 2)))) UNIV l \<and>
    named sl_name UNIV l \<and>
    (\<forall>dr w. gw_now w \<noteq> fg_endTime g \<longrightarrow> fg_doNextEvent dr w g = None)"
proof -
  obtain l where l: "sl_links mem qt cfg speed d buffer (lab_empty i lf) = Some l"
      "built (sl_queue mem qt cfg speed buffer) (sl_pipe (timeFromUs (as_double (d div 2)))) UNIV l"
      "named sl_name UNIV l" "unat (lb_lastid l) = unat i + 5"
    using adds_empty [OF adds_sl_links [OF assms(7), of mem qt cfg buffer d], of i lf] assms(8) by auto
  have le: "lb_lastid l \<le> lb_lastid l + 1" using lastid_Suc(2) [of l] l(4) assms(8) by (simp add: less_imp_le)
  define l' where "l' = l\<lparr>lb_lastid := lb_lastid l + 1\<rparr>"
  have "single_link_simulation mem files t0 args (lab_empty i lf) = Some (l', g, as, timeFromSec (as_double T))"
    using l(1) assms(9) by (simp add: single_link_simulation_def assms(1-6) l'_def)
  moreover have "built (sl_queue mem qt cfg speed buffer) (sl_pipe (timeFromUs (as_double (d div 2)))) UNIV l'"
    by (rule built_cong [OF l(2)]) (use le in \<open>simp_all add: l'_def\<close>)
  moreover have "named sl_name UNIV l'" using l(3) by (simp add: named_def l'_def)
  moreover have "fg_doNextEvent dr w g = None" if "gw_now w \<noteq> fg_endTime g" for dr w
    by (rule fg_no_logfile [OF sl_generator_no_logfile [OF assms(6)] that])
  ultimately show ?thesis by blast
qed

lemma sl_generator_default:
  "\<exists>g as. sl_generator files 0 Map.empty 10000000000 10 = Some (g, as)"
proof -
  have s: "unat (timeFromSec 1) = 1000000000000" "as_double (10000000000 :: u64) = 10000000000"
    using llround_of_int [of 1000000000000] dbl_of_int [of 1000000000000] dbl_of_int [of 10000000000]
    by (simp_all add: timeFromSec_def as_double_def)
  have r: "llround (dbl (10000000000 * dbl (3 / 4))) = 7500000000"
    "trunc_rat (dbl (dbl 1000000000000 / dbl (dbl 7500000000 / dbl 800000))) = 106666666"
    "dbl (dbl 7500000000 / dbl 800000) \<noteq> 0" "dbl 800000 \<noteq> 0"
    by code_simp+
  show ?thesis
    by (simp add: sl_generator_def parseDouble_def parseInt_def parseString_def s r mkFlowGenerator_def sl_flowdist_def
      mkWorkloads_def double_to_u64_def fg_setTimeLimits_def fg_setEndhostQueue_def)
qed

lemma single_link_setup_witness:
  "\<exists>l g as. single_link_simulation (\<lambda>_. \<lparr>jk_words = (\<lambda>_. 0), jk_packet = None\<rparr>) (\<lambda>_. None) 0 Map.empty
       (lab_empty 1 (mkLogfile 0 100 [])) = Some (l, g, as, timeFromSec (as_double (10 :: u32))) \<and>
     named sl_name UNIV l \<and> (\<forall>dr w. gw_now w \<noteq> fg_endTime g \<longrightarrow> fg_doNextEvent dr w g = None)"
proof -
  obtain g as where g: "sl_generator (\<lambda>_. None) 0 Map.empty 10000000000 10 = Some (g, as)"
    using sl_generator_default by blast
  show ?thesis
    using single_link_setup [OF _ _ _ _ _ g, of 25 512000 defaultAFQcfg 1 _ "\<lambda>_. \<lparr>jk_words = (\<lambda>_. 0), jk_packet = None\<rparr>"
        "mkLogfile 0 100 []"]
    by (simp add: parseInt_def parseLongInt_def sl_afqcfg_def) blast
qed

text \<open>
  The small single link. Its set-up returns with two pipes of 10 and 8 us and two queues of 1 Gb/s, and
  its generator has a log file; but the log file names both queues \<open>linkQfwd\<close>, although the second one is
  called \<open>linkQbck\<close>.
\<close>

lemma simp_link_names:
  "\<exists>l. simp_links (lab_empty i lf) = Some l \<and>
    map (lb_ids l) [SPipefwd, SPipebck, SQfwd, SQbck] = map Some [i, i + 1, i + 2, i + 3] \<and>
    map (lb_names l) [SPipefwd, SPipebck, SQfwd, SQbck] = map Some [''pipefwd'', ''pipebck'', ''linkQfwd'', ''linkQbck''] \<and>
    map (lf_idNameMap (lb_log l)) [i, i + 1, i + 2, i + 3] =
      map Some [''pipefwd'', ''pipebck'', ''linkQfwd'', ''linkQfwd''] \<and>
    (\<exists>g as. simp_generator t0 = Some (g, as) \<and> fg_logfile g = Some True)"
proof -
  have q: "mkQueue 1000000000 b True \<noteq> None" for b by (simp add: mkQueue_def)
  have d: "i \<noteq> i + 1" "i \<noteq> i + 2" "i \<noteq> i + 3" "i + 1 \<noteq> i + 2" "i + 1 \<noteq> i + 3" "i + 2 \<noteq> i + 3" by simp_all
  have r: "trunc_rat (dbl (dbl 1000000000000 / dbl (dbl 1000000000 / dbl 60000))) = 59999999"
    "dbl (dbl 1000000000 / dbl 60000) \<noteq> 0" "dbl 60000 \<noteq> 0" by code_simp+
  have s: "unat (timeFromSec 1) = 1000000000000"
    using llround_of_int [of 1000000000000] dbl_of_int [of 1000000000000] by (simp add: timeFromSec_def)
  have "\<exists>g as. simp_generator t0 = Some (g, as) \<and> fg_logfile g = Some True"
    by (simp add: simp_generator_def mkFlowGenerator_def mkWorkloads_def MSS_BYTES_def s r double_to_u64_def
      fg_setTimeLimits_def fg_setEndhostQueue_def fg_setLogFile_def fg_setTcpLogger_def fg_setTrafficLogger_def)
  then show ?thesis using d
    by (simp add: simp_links_def lab_empty_def lab_addPipe_def lab_addQueue_def lab_setName_def lab_writeName_def
      mkQueue_def writeName_def write_id_def add.assoc)
qed

end
