(* ===== verification/ClockModel.thy ===== *)
theory ClockModel
  imports FlowGen
begin

text \<open>
  \<open>clock.h\<close> and \<open>clock.cpp\<close>: the clock that shows the progress of a simulation. It estimates how far the
  simulation moves in a second of real time and schedules itself so far ahead. The readings of the real-time
  clock are arguments; what it prints is not modelled.
\<close>

section \<open>State and operations\<close>

record timespec =
  tv_sec :: int
  tv_nsec :: int

record clock =
  ck_estimate :: u64
  ck_elapsedRT :: rat
  ck_simTime :: u64
  ck_nEvents :: u64
  ck_realTime :: rat
  ck_lastTick :: timespec
  ck_ticks :: nat

definition INIT_ESTIMATE :: u64 where "INIT_ESTIMATE = timeFromUs 1"

definition mkClock :: "u64 \<Rightarrow> timespec \<Rightarrow> clock \<times> action list" where
  "mkClock estimate tm =
     (\<lparr>ck_estimate = estimate, ck_elapsedRT = 0, ck_simTime = 0, ck_nEvents = 0, ck_realTime = 0,
       ck_lastTick = tm, ck_ticks = 0\<rparr>, [SchedRel estimate])"

definition tick_elapsed :: "timespec \<Rightarrow> timespec \<Rightarrow> rat" where
  "tick_elapsed tm prev =
     dbl (dbl (of_int (tv_sec tm - tv_sec prev)) + dbl (dbl (of_int (tv_nsec tm - tv_nsec prev)) / 1000000000))"

text \<open>Dividing by an elapsed time of 0 gives a value that has no conversion to an integer.\<close>

definition clock_estimate :: "u64 \<Rightarrow> rat \<Rightarrow> u64 option" where
  "clock_estimate estimate elapsed =
     (if elapsed = 0 then None else double_to_u64 (dbl (dbl (of_nat (unat estimate)) / elapsed)))"

definition events_per_sec :: "u64 \<Rightarrow> rat \<Rightarrow> u64 option" where
  "events_per_sec n secs =
     (if secs = 0 then None else double_to_u64 (dbl (dbl (dbl (of_nat (unat n)) / secs) / 1000)))"

definition clock_doNextEvent ::
  "timespec \<Rightarrow> u64 \<Rightarrow> u64 \<Rightarrow> clock \<Rightarrow> (clock \<times> action list) option" where
  "clock_doNextEvent tm now nEventsProcessed c = do {
     let c = c\<lparr>ck_ticks := ck_ticks c + 1\<rparr>;
     let elapsed = tick_elapsed tm (ck_lastTick c);
     let c = c\<lparr>ck_lastTick := tm, ck_elapsedRT := dbl (ck_elapsedRT c + elapsed)\<rparr>;
     e \<leftarrow> clock_estimate (ck_estimate c) elapsed;
     let c = c\<lparr>ck_estimate := e\<rparr>;
     c \<leftarrow> (if ck_ticks c = 10
           then do {
             _ \<leftarrow> events_per_sec (nEventsProcessed - ck_nEvents c) (dbl (ck_elapsedRT c - ck_realTime c));
             Some (c\<lparr>ck_ticks := 0, ck_nEvents := nEventsProcessed, ck_realTime := ck_elapsedRT c,
               ck_simTime := now\<rparr>)
           }
           else Some c);
     Some (c, [SchedRel (ck_estimate c)])
   }"

section \<open>Lemmas\<close>

lemma clock_event:
  assumes "clock_doNextEvent tm now n c = Some (c', as)" "ck_ticks c < 10"
  shows "as = [SchedRel (ck_estimate c')] \<and> ck_ticks c' < 10 \<and> ck_lastTick c' = tm \<and>
    ck_elapsedRT c' = dbl (ck_elapsedRT c + tick_elapsed tm (ck_lastTick c)) \<and>
    clock_estimate (ck_estimate c) (tick_elapsed tm (ck_lastTick c)) = Some (ck_estimate c')"
  using assms by (cases "ck_ticks c = 9") (auto simp: clock_doNextEvent_def bind_eq_Some_conv Let_def)

text \<open>
  Readings that are the same stop the simulator, and an estimate of 0 remains: from then on the clock
  schedules itself at the current time, and the simulation does not go on.
\<close>

lemma clock_stalls:
  assumes "clock_doNextEvent tm now n c = Some (c', as)" "ck_estimate c = 0"
  shows "ck_estimate c' = 0 \<and> as = [SchedRel 0]"
proof -
  have "clock_estimate 0 e = Some x \<longleftrightarrow> e \<noteq> 0 \<and> x = 0" for e x
    by (auto simp: clock_estimate_def double_to_u64_def trunc_rat_def)
  then show ?thesis
    using assms by (auto simp: clock_doNextEvent_def bind_eq_Some_conv Let_def split: if_splits)
qed

lemma clock_same_reading: "clock_doNextEvent (ck_lastTick c) now n c = None"
  by (simp add: clock_doNextEvent_def tick_elapsed_def clock_estimate_def)

end
