(* ===== verification/SwPacket.thy ===== *)
theory SwPacket
  imports Prelude
begin

text \<open>
  The packets of the sliding window programs \<open>TCP-SW-DPDK/Client/lab1-client.c\<close> and
  \<open>TCP-SW-DPDK/Server/lab1-server.c\<close>: the checksum of the IPv4 header, the construction of data packets and
  acknowledgements and their parsing. A packet buffer is the record of the header fields the programs
  write, named as in the DPDK structures. What the programs use of DPDK is the record \<open>dpdk\<close>: the conversions
  of the byte order, two constants and the address of the port. Fields hold the values as the processor
  reads them from memory.
\<close>

section \<open>The DPDK functions\<close>

record dpdk =
  cpu_to_be_16 :: "u16 \<Rightarrow> u16"
  be_to_cpu_16 :: "u16 \<Rightarrow> u16"
  cpu_to_be_32 :: "u32 \<Rightarrow> u32"
  c_ntohs :: "u16 \<Rightarrow> u16"
  c_htons :: "u16 \<Rightarrow> u16"
  ETHER_TYPE_IPV4 :: u16
  IPPROTO_TCP :: u8
  my_eth :: "48 word"

text \<open>
  The documented behaviour of the conversions: nothing on a big-endian processor, the exchange of the bytes
  on a little-endian one.
\<close>

definition bswap16 :: "u16 \<Rightarrow> u16" where
  "bswap16 x = push_bit 8 x OR drop_bit 8 x"

definition bswap32 :: "u32 \<Rightarrow> u32" where
  "bswap32 x = push_bit 24 x OR (push_bit 8 x AND 0xFF0000) OR (drop_bit 8 x AND 0xFF00) OR drop_bit 24 x"

definition little_endian :: "dpdk \<Rightarrow> bool" where
  "little_endian d \<longleftrightarrow> cpu_to_be_16 d = bswap16 \<and> be_to_cpu_16 d = bswap16 \<and> cpu_to_be_32 d = bswap32 \<and>
     c_ntohs d = bswap16 \<and> c_htons d = bswap16"

definition big_endian :: "dpdk \<Rightarrow> bool" where
  "big_endian d \<longleftrightarrow> cpu_to_be_16 d = id \<and> be_to_cpu_16 d = id \<and> cpu_to_be_32 d = id \<and>
     c_ntohs d = id \<and> c_htons d = id"

definition byte_order :: "dpdk \<Rightarrow> bool" where
  "byte_order d \<longleftrightarrow> little_endian d \<or> big_endian d"

section \<open>Checksum\<close>

text \<open>\<open>ntohs\<close> of two bytes in memory is the number with the first byte on top, on every processor.\<close>

definition wrap_add :: "u32 \<Rightarrow> u32 \<Rightarrow> u32" where
  "wrap_add csum x = (let csum = csum + x in if csum > 0xFFFF then csum - 0xFFFF else csum)"

fun checksum_loop :: "u8 list \<Rightarrow> u32 \<Rightarrow> u32" where
  "checksum_loop (a # b # bs) csum = checksum_loop bs (wrap_add csum (push_bit 8 (ucast a) + ucast b))"
| "checksum_loop [a] csum = wrap_add csum (push_bit 8 (ucast a))"
| "checksum_loop [] csum = csum"

definition checksum :: "u8 list \<Rightarrow> nat \<Rightarrow> u32 \<Rightarrow> u32 option" where
  "checksum buf nbytes csum =
     (if nbytes \<le> length buf then Some (checksum_loop (take nbytes buf) csum) else None)"

definition wrapsum :: "dpdk \<Rightarrow> u32 \<Rightarrow> u32" where
  "wrapsum d csum = (let csum = NOT csum AND 0xFFFF in ucast (c_htons d (ucast csum)))"

section \<open>Packets\<close>

record mbuf =
  eth_dst_addr :: "48 word"
  eth_src_addr :: "48 word"
  ether_type :: u16
  version_ihl :: u8
  type_of_service :: u8
  total_length :: u16
  packet_id :: u16
  fragment_offset :: u16
  time_to_live :: u8
  next_proto_id :: u8
  hdr_checksum :: u16
  ip_src_addr :: u32
  ip_dst_addr :: u32
  src_port :: u16
  dst_port :: u16
  sent_seq :: u32
  recv_ack :: u32
  data_off :: u8
  tcp_flags :: u8
  rx_win :: u16
  tcp_cksum :: u16
  tcp_urp :: u16
  mb_payload :: "u8 list"
  l2_len :: nat
  l3_len :: nat
  mb_data_len :: nat
  mb_pkt_len :: nat
  nb_segs :: nat

text \<open>The twenty bytes of the IPv4 header in memory.\<close>

definition bytes16 :: "dpdk \<Rightarrow> u16 \<Rightarrow> u8 list" where
  "bytes16 d x = (let y = c_ntohs d x in [ucast (drop_bit 8 y), ucast y])"

definition bytes32 :: "dpdk \<Rightarrow> u32 \<Rightarrow> u8 list" where
  "bytes32 d x = (let y = cpu_to_be_32 d x
     in [ucast (drop_bit 24 y), ucast (drop_bit 16 y), ucast (drop_bit 8 y), ucast y])"

definition ipv4_bytes :: "dpdk \<Rightarrow> mbuf \<Rightarrow> u8 list" where
  "ipv4_bytes d p = [version_ihl p, type_of_service p] @ bytes16 d (total_length p) @ bytes16 d (packet_id p) @
     bytes16 d (fragment_offset p) @ [time_to_live p, next_proto_id p] @ bytes16 d (hdr_checksum p) @
     bytes32 d (ip_src_addr p) @ bytes32 d (ip_dst_addr p)"

definition payload_len :: nat where "payload_len = 64"
definition ack_len :: nat where "ack_len = 10"
definition STOP_FLOW_ID :: nat where "STOP_FLOW_ID = 100"

definition ether_hdr_size :: nat where "ether_hdr_size = 14"
definition ipv4_hdr_size :: nat where "ipv4_hdr_size = 20"
definition tcp_hdr_size :: nat where "tcp_hdr_size = 20"

text \<open>
  The client's packet in a buffer \<open>pkt\<close> that holds arbitrary contents; \<open>src\<close> and \<open>dst\<close> are the numbers
  that result from converting the addresses of the string literals \<open>"127.0.0.1"\<close>.
\<close>

definition server_mac :: "48 word" where "server_mac = 0x1458d0589f53"

definition construct_pkt :: "dpdk \<Rightarrow> u32 \<Rightarrow> u32 \<Rightarrow> mbuf \<Rightarrow> nat \<Rightarrow> u32 \<Rightarrow> mbuf option" where
  "construct_pkt d src dst pkt fid seq = do {
     let pkt = pkt\<lparr>eth_src_addr := my_eth d, eth_dst_addr := server_mac,
       ether_type := be_to_cpu_16 d (ETHER_TYPE_IPV4 d)\<rparr>;
     let header_size = ether_hdr_size;
     let pkt = pkt\<lparr>version_ihl := 0x45, type_of_service := 0,
       total_length := cpu_to_be_16 d (of_nat (ipv4_hdr_size + tcp_hdr_size + payload_len)),
       packet_id := cpu_to_be_16 d 1, fragment_offset := 0, time_to_live := 64,
       next_proto_id := IPPROTO_TCP d, ip_src_addr := cpu_to_be_32 d src, ip_dst_addr := cpu_to_be_32 d dst\<rparr>;
     csum \<leftarrow> checksum (ipv4_bytes d pkt) ipv4_hdr_size 0;
     let pkt = pkt\<lparr>hdr_checksum := ucast (cpu_to_be_32 d (wrapsum d csum))\<rparr>;
     let header_size = header_size + ipv4_hdr_size;
     let pkt = pkt\<lparr>src_port := cpu_to_be_16 d (of_nat (5001 + fid)), dst_port := cpu_to_be_16 d (of_nat (5001 + fid)),
       sent_seq := seq, recv_ack := 0, data_off := 0, tcp_flags := 0, rx_win := 0, tcp_cksum := 0, tcp_urp := 0\<rparr>;
     let header_size = header_size + tcp_hdr_size;
     Some (pkt\<lparr>mb_payload := replicate payload_len 97, l2_len := ether_hdr_size, l3_len := ipv4_hdr_size,
       mb_data_len := header_size + payload_len, mb_pkt_len := header_size + payload_len, nb_segs := 1\<rparr>)
   }"

text \<open>The packet that stops the server.\<close>

definition cl_stop :: "dpdk \<Rightarrow> u32 \<Rightarrow> u32 \<Rightarrow> mbuf \<Rightarrow> mbuf option" where
  "cl_stop d src dst pkt = construct_pkt d src dst pkt STOP_FLOW_ID 0"

text \<open>
  The server's acknowledgement for a packet \<open>pkt\<close> that has been freed. The pool may give the same buffer
  again, \<open>alias\<close>: then the headers of \<open>pkt\<close> are read after they have been overwritten. Otherwise the new
  buffer holds arbitrary contents \<open>ack\<close>.
\<close>

definition ack_ether :: "dpdk \<Rightarrow> bool \<Rightarrow> mbuf \<Rightarrow> mbuf \<Rightarrow> mbuf" where
  "ack_ether d alias pkt ack =
     (let ack = ack\<lparr>eth_src_addr := my_eth d\<rparr>
      in ack\<lparr>eth_dst_addr := eth_src_addr (if alias then ack else pkt), ether_type := be_to_cpu_16 d (ETHER_TYPE_IPV4 d)\<rparr>)"

definition ack_ipv4 :: "dpdk \<Rightarrow> bool \<Rightarrow> mbuf \<Rightarrow> mbuf \<Rightarrow> mbuf option" where
  "ack_ipv4 d alias pkt ack = do {
     let ack = ack\<lparr>version_ihl := 0x45, type_of_service := 0,
       total_length := cpu_to_be_16 d (of_nat (ipv4_hdr_size + tcp_hdr_size + ack_len)),
       packet_id := cpu_to_be_16 d 1, fragment_offset := 0, time_to_live := 64, next_proto_id := IPPROTO_TCP d\<rparr>;
     let ack = ack\<lparr>ip_src_addr := ip_dst_addr (if alias then ack else pkt)\<rparr>;
     let ack = ack\<lparr>ip_dst_addr := ip_src_addr (if alias then ack else pkt)\<rparr>;
     csum \<leftarrow> checksum (ipv4_bytes d ack) ipv4_hdr_size 0;
     Some (ack\<lparr>hdr_checksum := ucast (cpu_to_be_32 d (wrapsum d csum))\<rparr>)
   }"

definition construct_ack :: "dpdk \<Rightarrow> bool \<Rightarrow> mbuf \<Rightarrow> mbuf \<Rightarrow> nat \<Rightarrow> u32 \<Rightarrow> u32 \<Rightarrow> mbuf option" where
  "construct_ack d alias pkt ack fid ack_num wnd = do {
     let ack = ack_ether d alias pkt (if alias then pkt else ack);
     ack \<leftarrow> ack_ipv4 d alias pkt ack;
     let ack = ack\<lparr>src_port := cpu_to_be_16 d (of_nat (5001 + fid)), dst_port := cpu_to_be_16 d (of_nat (5001 + fid)),
       sent_seq := 0, recv_ack := ack_num, data_off := 0, tcp_flags := 0, rx_win := ucast wnd, tcp_cksum := 0,
       tcp_urp := 0\<rparr>;
     let header_size = ether_hdr_size + ipv4_hdr_size + tcp_hdr_size;
     Some (ack\<lparr>mb_payload := replicate ack_len 97, l2_len := ether_hdr_size, l3_len := ipv4_hdr_size,
       mb_data_len := header_size + ack_len, mb_pkt_len := header_size + ack_len, nb_segs := 1\<rparr>)
   }"

section \<open>Parsing\<close>

text \<open>The flow of a port, 0 for none: the sequence of tests of both programs.\<close>

fun port_flow :: "dpdk \<Rightarrow> u16 \<Rightarrow> nat list \<Rightarrow> nat \<Rightarrow> nat" where
  "port_flow d port [] ret = ret"
| "port_flow d port (f # fs) ret =
     port_flow d port fs (if port = cpu_to_be_16 d (of_nat (5000 + f)) then f else ret)"

definition is_tcp_for_me :: "dpdk \<Rightarrow> mbuf \<Rightarrow> bool" where
  "is_tcp_for_me d pkt \<longleftrightarrow> my_eth d = eth_dst_addr pkt \<and> c_ntohs d (ether_type pkt) = ETHER_TYPE_IPV4 d \<and>
     next_proto_id pkt = IPPROTO_TCP d"

text \<open>
  The client: the result with the acknowledgement and the window, which stay what they were for others. The
  code stores the acknowledgement through a pointer to 64 bits in a variable of 32; that is the number
  on a little-endian processor, and the four bytes behind the variable are not modelled.
\<close>

definition parse_packet :: "dpdk \<Rightarrow> mbuf \<Rightarrow> u32 \<Rightarrow> u32 \<Rightarrow> nat \<times> u32 \<times> u32" where
  "parse_packet d pkt ack0 wnd0 =
     (if is_tcp_for_me d pkt then (port_flow d (dst_port pkt) [1..<9] 0, recv_ack pkt, ucast (rx_win pkt))
      else (0, ack0, wnd0))"

definition verify_pkt :: "dpdk \<Rightarrow> mbuf \<Rightarrow> nat" where
  "verify_pkt d pkt =
     (if is_tcp_for_me d pkt then port_flow d (dst_port pkt) ([1..<9] @ [STOP_FLOW_ID + 1]) 0 else 0)"

definition get_seq :: "mbuf option \<Rightarrow> u32" where
  "get_seq pkt = (case pkt of None \<Rightarrow> 0 | Some p \<Rightarrow> sent_seq p)"

section \<open>Ports\<close>

text \<open>\<open>port_init\<close>, with the results of the functions of DPDK it calls.\<close>

record port_calls =
  is_valid_port :: bool
  ret_info_get :: int
  ret_configure :: int
  ret_adjust :: int
  ret_rx_setup :: int
  ret_tx_setup :: int
  ret_start :: int
  ret_macaddr :: int
  ret_promiscuous :: int

definition port_init :: "port_calls \<Rightarrow> int" where
  "port_init r =
     (if \<not> is_valid_port r then - 1
      else if ret_info_get r \<noteq> 0 then ret_info_get r
      else if ret_configure r \<noteq> 0 then ret_configure r
      else if ret_adjust r \<noteq> 0 then ret_adjust r
      else if ret_rx_setup r < 0 then ret_rx_setup r
      else if ret_tx_setup r < 0 then ret_tx_setup r
      else if ret_start r < 0 then ret_start r
      else if ret_macaddr r \<noteq> 0 then ret_macaddr r
      else if ret_promiscuous r \<noteq> 0 then ret_promiscuous r
      else 0)"

end
