(* ===== verification/SwClient.thy ===== *)
theory SwClient
  imports SwPacket Floating
begin

text \<open>
  The sender of \<open>TCP-SW-DPDK/Client/lab1-client.c\<close>: for each flow a window of at most \<open>BUF_SIZE\<close> packets,
  retransmission of what has not been acknowledged for 50 us, and cumulative acknowledgements. The arrays
  indexed by the flow are a list of records. The readings of the clock and what the port receives are
  arguments; a write behind an array and a loop that does not end are \<open>None\<close>. The array \<open>buf\<close> only ever
  holds null pointers and is left out, and a buffer for a packet can always be allocated.
\<close>

section \<open>State\<close>

definition BUF_SIZE :: nat where "BUF_SIZE = 128"
definition MAX_FLOW_NUM :: nat where "MAX_FLOW_NUM = 8"
definition TIMEOUT_US :: u64 where "TIMEOUT_US = 50"

record sw_send =
  last_pkt_acked :: u32
  last_pkt_sent :: u32
  last_pkt_written :: u32
  last_recv_ack :: u32
  n_empty_buf :: u32
  time_sent :: "u64 list"
  rcv_wnd :: u32
  lat_cum_us :: u64

definition mkSwSend :: sw_send where
  "mkSwSend = \<lparr>last_pkt_acked = 0, last_pkt_sent = 0, last_pkt_written = 0, last_recv_ack = 0,
     n_empty_buf = of_nat BUF_SIZE, time_sent = replicate BUF_SIZE (2 ^ 63), rcv_wnd = of_nat BUF_SIZE, lat_cum_us = 0\<rparr>"

text \<open>The clock in nanoseconds, computed in floating point from what \<open>clock_gettime\<close> returns.\<close>

definition raw_time_ns :: "int \<Rightarrow> int \<Rightarrow> u64" where
  "raw_time_ns tv_sec tv_nsec = word_of_int (trunc_rat (dbl (dbl (of_int tv_sec * 10 ^ 9) + of_int tv_nsec)))"

definition time_now_ns :: "int \<Rightarrow> int \<Rightarrow> u64 \<Rightarrow> u64" where
  "time_now_ns tv_sec tv_nsec offset = raw_time_ns tv_sec tv_nsec - offset"

text \<open>\<open>NUM_PING\<close> packets make a flow; \<open>flow_size\<close> is a signed integer.\<close>

definition numPing :: "int \<Rightarrow> u32" where
  "numPing flow_size = word_of_int (sgn flow_size * (\<bar>flow_size\<bar> div int payload_len))"

text \<open>The place of the packet \<open>i\<close>, and a loop \<open>for (uint32_t i = ..; i <= b; i++)\<close>.\<close>

definition slot :: "u32 \<Rightarrow> nat" where
  "slot i = unat (i - 1) mod BUF_SIZE"

partial_function (option) for_u32 :: "u32 \<Rightarrow> u32 \<Rightarrow> (u32 \<Rightarrow> 's \<Rightarrow> 's option) \<Rightarrow> 's \<Rightarrow> 's option" where
  "for_u32 i b body s =
     (if i \<le> b then Option.bind (body i s) (\<lambda>s. for_u32 (i + 1) b body s) else Some s)"

section \<open>Sending\<close>

text \<open>Retransmission of the packets whose time is over.\<close>

definition sw_retransmit :: "(u32 \<Rightarrow> u64) \<Rightarrow> (u32 \<Rightarrow> u64) \<Rightarrow> sw_send \<Rightarrow> (sw_send \<times> u32 list) option" where
  "sw_retransmit now sent_at s = do {
     retr \<leftarrow> for_u32 (last_pkt_acked s + 1) (min (last_pkt_sent s) (last_pkt_written s))
       (\<lambda>i retr. if now i - time_sent s ! slot i > TIMEOUT_US * 1000
                 then if length retr < BUF_SIZE then Some (retr @ [i]) else None
                 else Some retr) [];
     Some (s\<lparr>time_sent := fold (\<lambda>i tms. tms[slot i := sent_at i]) retr (time_sent s)\<rparr>, retr)
   }"

definition sw_fill :: "u32 \<Rightarrow> sw_send \<Rightarrow> sw_send" where
  "sw_fill num_ping s = s\<lparr>last_pkt_written :=
     (if num_ping < last_pkt_acked s + of_nat BUF_SIZE then num_ping else last_pkt_acked s + of_nat BUF_SIZE)\<rparr>"

partial_function (option) sw_send_loop :: "sw_send \<Rightarrow> u32 list \<Rightarrow> (sw_send \<times> u32 list) option" where
  "sw_send_loop s pkts =
     (if last_pkt_sent s - last_pkt_acked s < rcv_wnd s \<and> last_pkt_sent s < last_pkt_written s
      then if length pkts < BUF_SIZE
           then sw_send_loop (s\<lparr>last_pkt_sent := last_pkt_sent s + 1\<rparr>) (pkts @ [last_pkt_sent s + 1])
           else None
      else Some (s, pkts))"

definition sw_transmit :: "(u32 \<Rightarrow> u64) \<Rightarrow> sw_send \<Rightarrow> (sw_send \<times> u32 list) option" where
  "sw_transmit sent_at s = do {
     let prev_sent = last_pkt_sent s;
     (s, pkts) \<leftarrow> sw_send_loop s [];
     if pkts = [] then Some (s, [])
     else do {
       tms \<leftarrow> for_u32 (prev_sent + 1) (last_pkt_sent s) (\<lambda>i tms. Some (tms[slot i := sent_at i])) (time_sent s);
       Some (s\<lparr>time_sent := tms\<rparr>, pkts)
     }
   }"

text \<open>The loops over the flows; the result has the flow and the number of each packet that is sent.\<close>

fun each_flow ::
  "nat list \<Rightarrow> (nat \<Rightarrow> sw_send \<Rightarrow> (sw_send \<times> u32 list) option) \<Rightarrow> sw_send list \<Rightarrow>
     (sw_send list \<times> (nat \<times> u32) list) option" where
  "each_flow [] f fs = Some (fs, [])"
| "each_flow (k # ks) f fs =
     (if k < length fs
      then do {
        (s, pkts) \<leftarrow> f k (fs ! k);
        (fs, rest) \<leftarrow> each_flow ks f (fs[k := s]);
        Some (fs, map (Pair k) pkts @ rest)
      }
      else None)"

record sw_clock =
  at_check :: "nat \<Rightarrow> u32 \<Rightarrow> u64"
  at_retransmit :: "nat \<Rightarrow> u32 \<Rightarrow> u64"
  at_send :: "nat \<Rightarrow> u32 \<Rightarrow> u64"

definition cl_output ::
  "sw_clock \<Rightarrow> nat \<Rightarrow> u32 \<Rightarrow> sw_send list \<Rightarrow> (sw_send list \<times> (nat \<times> u32) list) option" where
  "cl_output clk flow_num num_ping fs = do {
     (fs, again) \<leftarrow> each_flow [0..<flow_num] (\<lambda>k. sw_retransmit (at_check clk k) (at_retransmit clk k)) fs;
     (fs, _) \<leftarrow> each_flow [0..<flow_num] (\<lambda>k s. Some (sw_fill num_ping s, [])) fs;
     (fs, new) \<leftarrow> each_flow [0..<flow_num] (\<lambda>k. sw_transmit (at_send clk k)) fs;
     Some (fs, again @ new)
   }"

section \<open>Receiving\<close>

text \<open>The microseconds of a latency \<open>lat_ns\<close> for \<open>n\<close> packets.\<close>

definition latency_us :: "u64 \<Rightarrow> u32 \<Rightarrow> u64" where
  "latency_us lat_ns n = word_of_int (trunc_rat (dbl (dbl (of_nat (unat (lat_ns * ucast n))) / 1000)))"

definition sw_acked :: "u64 \<Rightarrow> u32 \<Rightarrow> u32 \<Rightarrow> sw_send \<Rightarrow> sw_send option" where
  "sw_acked time_recvd ack wnd s =
     (let s = s\<lparr>last_recv_ack := ack, rcv_wnd := wnd\<rparr>
      in if last_recv_ack s > last_pkt_acked s
         then do {
           let n_acked = last_recv_ack s - last_pkt_acked s;
           let s = s\<lparr>n_empty_buf := n_empty_buf s + n_acked\<rparr>;
           _ \<leftarrow> for_u32 (last_pkt_acked s + 1) (last_recv_ack s) (\<lambda>i u. Some u) ();
           let lat_ns = time_recvd - time_sent s ! slot (last_recv_ack s);
           let s = s\<lparr>lat_cum_us := lat_cum_us s + latency_us lat_ns (last_recv_ack s - last_pkt_acked s)\<rparr>;
           let s = s\<lparr>last_pkt_acked := last_recv_ack s\<rparr>;
           Some (if last_pkt_acked s > last_pkt_sent s then s\<lparr>last_pkt_sent := last_pkt_acked s\<rparr> else s)
         }
         else Some s)"

text \<open>A burst with the time it was received at; \<open>a\<close> and \<open>w\<close> are the variables \<open>recv_ack_p\<close> and \<open>rcv_wnd_p\<close>.\<close>

fun cl_packets ::
  "dpdk \<Rightarrow> u64 \<Rightarrow> mbuf list \<Rightarrow> u32 \<Rightarrow> u32 \<Rightarrow> sw_send list \<Rightarrow> (sw_send list \<times> u32 \<times> u32) option" where
  "cl_packets d tm [] a w fs = Some (fs, a, w)"
| "cl_packets d tm (pkt # pkts) a w fs =
     (let (p, a, w) = parse_packet d pkt a w
      in if p \<noteq> 0
         then if p - 1 < length fs
              then do {
                s \<leftarrow> sw_acked tm a w (fs ! (p - 1));
                cl_packets d tm pkts a w (fs[p - 1 := s])
              }
              else None
         else cl_packets d tm pkts a w fs)"

fun cl_bursts ::
  "dpdk \<Rightarrow> (u64 \<times> mbuf list) list \<Rightarrow> u32 \<Rightarrow> u32 \<Rightarrow> sw_send list \<Rightarrow> sw_send list option" where
  "cl_bursts d [] a w fs = Some fs"
| "cl_bursts d ((tm, pkts) # bursts) a w fs =
     (if pkts = [] then Some fs
      else do { (fs, a, w) \<leftarrow> cl_packets d tm pkts a w fs; cl_bursts d bursts a w fs })"

section \<open>The main loop\<close>

definition cl_running :: "nat \<Rightarrow> u32 \<Rightarrow> sw_send list \<Rightarrow> bool" where
  "cl_running flow_num num_ping fs \<longleftrightarrow> (\<exists>s \<in> set (take flow_num fs). last_pkt_acked s < num_ping)"

definition cl_iteration ::
  "dpdk \<Rightarrow> sw_clock \<Rightarrow> (u64 \<times> mbuf list) list \<Rightarrow> u32 \<Rightarrow> u32 \<Rightarrow> nat \<Rightarrow> u32 \<Rightarrow> sw_send list \<Rightarrow>
     (bool \<times> sw_send list \<times> (nat \<times> u32) list) option" where
  "cl_iteration d clk bursts a w flow_num num_ping fs =
     (if \<not> cl_running flow_num num_ping fs then Some (False, fs, [])
      else do {
        (fs, pkts) \<leftarrow> cl_output clk flow_num num_ping fs;
        fs \<leftarrow> cl_bursts d bursts a w fs;
        Some (True, fs, pkts)
      })"

text \<open>
  The results it prints: the mean latency in microseconds and the mean bandwidth; \<open>header_size\<close> is
  never set.
\<close>

definition cl_latency :: "sw_send list \<Rightarrow> rat option" where
  "cl_latency fs =
     (if fs = [] \<or> (\<exists>s \<in> set fs. last_pkt_acked s = 0) then None
      else Some (dbl (foldl (\<lambda>x s. dbl (x + dbl (dbl (of_nat (unat (lat_cum_us s))) / of_nat (unat (last_pkt_acked s)))))
        0 fs / of_nat (length fs))))"

definition cl_bandwidth :: "u64 \<Rightarrow> u64 \<Rightarrow> sw_send list \<Rightarrow> rat option" where
  "cl_bandwidth header_size elapsed fs =
     (if fs = [] \<or> elapsed = 0 then None
      else Some (dbl (foldl (\<lambda>x s. dbl (x + dbl (dbl (dbl (of_nat (unat (last_pkt_acked s)) *
          dbl (of_nat (unat (header_size + of_nat payload_len)))) * 8) / dbl (of_nat (unat elapsed)))))
        0 fs / of_nat (length fs))))"

end
