(* ===== verification/SwServer.thy ===== *)
theory SwServer
  imports SwClient
begin

text \<open>
  The receiver of \<open>TCP-SW-DPDK/Server/lab1-server.c\<close>: the numbers of packets that arrive out of order are
  kept in \<open>seqbuf\<close>, and every burst is answered with a cumulative acknowledgement for each of its flows. A flow
  whose acknowledgement has stayed the same ten times gives up the packet it waits for.
\<close>

section \<open>State\<close>

record sw_recv =
  last_pkt_read :: u32
  nxt_pkt_expcd :: u32
  last_pkt_recvd :: u32
  seqbuf :: "u32 list"
  same_ack :: u8

definition mkSwRecv :: sw_recv where
  "mkSwRecv = \<lparr>last_pkt_read = 0, nxt_pkt_expcd = 1, last_pkt_recvd = 0, seqbuf = replicate BUF_SIZE 0, same_ack = 0\<rparr>"

section \<open>A burst\<close>

definition sv_read :: "sw_recv \<Rightarrow> sw_recv" where
  "sv_read s = s\<lparr>last_pkt_read := nxt_pkt_expcd s - 1\<rparr>"

definition sv_store :: "u32 \<Rightarrow> sw_recv \<Rightarrow> sw_recv" where
  "sv_store seq s =
     (let s = (if seq \<ge> nxt_pkt_expcd s then s\<lparr>seqbuf := (seqbuf s)[slot seq := seq]\<rparr> else s)
      in if seq > last_pkt_recvd s then s\<lparr>last_pkt_recvd := seq\<rparr> else s)"

text \<open>
  The packets up to one that stops the server; \<open>rfid\<close> is the variable that the code leaves uninitialised.
\<close>

fun sv_packets ::
  "dpdk \<Rightarrow> mbuf list \<Rightarrow> sw_recv list \<Rightarrow> bool list \<Rightarrow> nat \<Rightarrow> (sw_recv list \<times> bool list \<times> nat) option" where
  "sv_packets d [] fs rcvd rfid = Some (fs, rcvd, rfid)"
| "sv_packets d (pkt # pkts) fs rcvd rfid =
     (let resp = verify_pkt d pkt
      in if resp = 0 then sv_packets d pkts fs rcvd rfid
         else if resp - 1 = STOP_FLOW_ID then Some (fs, rcvd, resp - 1)
         else if resp - 1 < length fs
         then sv_packets d pkts (fs[resp - 1 := sv_store (get_seq (Some pkt)) (fs ! (resp - 1))])
                (rcvd[resp - 1 := True]) (resp - 1)
         else None)"

section \<open>The acknowledgements\<close>

partial_function (option) sv_advance :: "u32 list \<Rightarrow> u32 \<Rightarrow> u32 option" where
  "sv_advance buf nxt = (if buf ! slot nxt = nxt then sv_advance buf (nxt + 1) else Some nxt)"

definition sv_progress :: "sw_recv \<Rightarrow> sw_recv option" where
  "sv_progress s = do {
     let last_npe = nxt_pkt_expcd s;
     nxt \<leftarrow> sv_advance (seqbuf s) (nxt_pkt_expcd s);
     let s = s\<lparr>nxt_pkt_expcd := nxt\<rparr>;
     let s = (if nxt_pkt_expcd s = last_npe then s\<lparr>same_ack := same_ack s + 1\<rparr> else s);
     Some (if same_ack s \<ge> 10
           then let s = s\<lparr>nxt_pkt_expcd := nxt_pkt_expcd s + 1, same_ack := 0\<rparr>
                in if nxt_pkt_expcd s - 1 > last_pkt_recvd s then s\<lparr>last_pkt_recvd := nxt_pkt_expcd s - 1\<rparr> else s
           else s)
   }"

text \<open>
  What the server cannot control when it builds an acknowledgement: whether the pool gives it the buffer
  that has been freed, what that buffer holds by then, and what a new one holds.
\<close>

record sw_memory =
  mem_alias :: "nat \<Rightarrow> bool"
  mem_freed :: "nat \<Rightarrow> mbuf"
  mem_new :: "nat \<Rightarrow> mbuf"

fun sv_replies ::
  "dpdk \<Rightarrow> sw_memory \<Rightarrow> u32 \<Rightarrow> bool list \<Rightarrow> nat list \<Rightarrow> sw_recv list \<Rightarrow> (sw_recv list \<times> mbuf list) option" where
  "sv_replies d m wnd rcvd [] fs = Some (fs, [])"
| "sv_replies d m wnd rcvd (k # ks) fs =
     (if \<not> rcvd ! k then sv_replies d m wnd rcvd ks fs
      else do {
        s \<leftarrow> sv_progress (fs ! k);
        ack \<leftarrow> construct_ack d (mem_alias m k) (mem_freed m k) (mem_new m k) k (nxt_pkt_expcd s - 1) wnd;
        (fs, acks) \<leftarrow> sv_replies d m wnd rcvd ks (fs[k := s]);
        Some (fs, ack # acks)
      })"

text \<open>
  An iteration of the main loop: whether the server stops, and what it sends. The window is computed from the
  difference of two arrays' addresses, \<open>diff\<close>, instead of their elements.
\<close>

definition sv_iteration ::
  "dpdk \<Rightarrow> sw_memory \<Rightarrow> u32 \<Rightarrow> nat \<Rightarrow> mbuf list \<Rightarrow> sw_recv list \<Rightarrow> (bool \<times> sw_recv list \<times> mbuf list) option" where
  "sv_iteration d m diff rfid0 pkts fs = do {
     let fs = map sv_read fs;
     if pkts = [] then Some (False, fs, [])
     else do {
       (fs, rcvd, rfid) \<leftarrow> sv_packets d pkts fs (replicate MAX_FLOW_NUM False) rfid0;
       if rfid = STOP_FLOW_ID then Some (True, fs, [])
       else do {
         (fs, acks) \<leftarrow> sv_replies d m (of_nat BUF_SIZE - diff) rcvd [0..<MAX_FLOW_NUM] fs;
         Some (False, fs, acks)
       }
     }
   }"

end
