(* ===== verification/SwClientProps.thy ===== *)
theory SwClientProps
  imports SwClient
begin

text \<open>
  The client's loops end, write inside their arrays and keep the window: the invariant \<open>cl_ok\<close> of a flow, and
  what each part of an iteration sends.
\<close>

section \<open>Words\<close>

lemma unat_plus1: "unat (x :: u32) < 2 ^ 32 - 1 \<Longrightarrow> unat (x + 1) = unat x + 1"
  by (subst unat_add_32) simp_all

lemma unat_plus_BUF: "unat (x :: u32) \<le> 2 ^ 31 \<Longrightarrow> unat (x + of_nat BUF_SIZE) = unat x + 128"
  by (subst unat_add_32) (simp_all add: BUF_SIZE_def)

lemma unat_minus1: "0 < unat (x :: u32) \<Longrightarrow> unat (x - 1) = unat x - 1"
  by (subst unat_sub) (simp_all add: word_le_nat_alt)

lemma slot_less: "slot i < 128"
  by (simp add: slot_def BUF_SIZE_def)

section \<open>Places\<close>

lemma slot_unat: "0 < unat i \<Longrightarrow> slot i = (unat i - 1) mod 128"
  by (simp add: slot_def BUF_SIZE_def unat_minus1)

lemma mod_window:
  fixes a b n :: nat
  assumes "a mod 128 = b mod 128" "n \<le> a" "a < n + 128" "n \<le> b" "b < n + 128"
  shows "a = b"
proof -
  have le: "a = b" if "a \<le> b" "a mod 128 = b mod 128" "b < a + 128" for a b :: nat
  proof -
    have "128 dvd b - a" using that(1,2) mod_eq_dvd_iff_nat [of a b 128] by simp
    then have "b - a = 0" using that(3) nat_dvd_not_less [of "b - a" 128] by linarith
    then show ?thesis using that(1) by simp
  qed
  show ?thesis using le [of a b] le [of b a] assms by linarith
qed

lemma slot_inj:
  assumes "slot i = slot j" "n \<le> unat i" "unat i < n + 128" "n \<le> unat j" "unat j < n + 128" "0 < n"
  shows "i = j"
proof -
  have e: "(unat i - 1) mod 128 = (unat j - 1) mod 128" using assms slot_unat [of i] slot_unat [of j] by linarith
  have "unat i - 1 = unat j - 1" by (rule mod_window [OF e, of "n - 1"]) (use assms in linarith)+
  then have "unat i = unat j" using assms by linarith
  then show ?thesis by (rule unsigned_word_eqI)
qed

section \<open>The counted loop\<close>

lemma for_u32_rule:
  assumes "unat b < 2 ^ 32 - 1" "Q i s" "unat i \<le> unat b + 1"
    "\<And>j s. \<lbrakk>unat i \<le> unat j; unat j \<le> unat b; Q j s\<rbrakk> \<Longrightarrow> \<exists>s'. body j s = Some s' \<and> Q (j + 1) s'"
  shows "\<exists>s'. for_u32 i b body s = Some s' \<and> Q (b + 1) s'"
  using assms
proof (induction "unat b + 1 - unat i" arbitrary: i s)
  case 0
  then have e: "unat i = unat b + 1" by simp
  have "unat i = unat (b + 1)" using unat_plus1 [OF 0(2)] e by simp
  then have ib: "i = b + 1" by (rule unsigned_word_eqI)
  have "\<not> i \<le> b" using e by (simp add: word_le_nat_alt)
  then have "for_u32 i b body s = Some s" by (subst for_u32.simps) (simp only: if_False)
  then show ?case using 0(3) ib by simp
next
  case (Suc n)
  then have le: "unat i \<le> unat b" by simp
  obtain s' where s': "body i s = Some s'" "Q (i + 1) s'" using Suc(6) [OF _ le Suc(4)] by auto
  have u: "unat (i + 1) = unat i + 1" using le Suc(3) by (intro unat_plus1) simp
  have "\<exists>s''. for_u32 (i + 1) b body s' = Some s'' \<and> Q (b + 1) s''"
    using Suc u le by (intro Suc(1) [OF _ _ s'(2)]) auto
  moreover have "for_u32 i b body s = for_u32 (i + 1) b body s'"
    using le s'(1) by (subst for_u32.simps) (simp add: word_le_nat_alt)
  ultimately show ?case by simp
qed

section \<open>The window of a flow\<close>

definition cl_ok :: "sw_send \<Rightarrow> bool" where
  "cl_ok s \<longleftrightarrow> unat (last_pkt_acked s) \<le> unat (last_pkt_sent s) \<and>
     unat (last_pkt_sent s) \<le> unat (last_pkt_acked s) + 128 \<and>
     unat (last_pkt_written s) \<le> unat (last_pkt_acked s) + 128 \<and> unat (last_pkt_acked s) \<le> 2 ^ 31 \<and>
     length (time_sent s) = 128"

lemma cl_ok_init: "cl_ok mkSwSend"
  by (simp add: cl_ok_def mkSwSend_def BUF_SIZE_def)

lemma length_fold_update [simp]: "length (fold (\<lambda>i xs. xs[f i := g i]) is xs) = length xs"
  by (induction "is" arbitrary: xs) simp_all

text \<open>
  The packets whose time is over: exactly those, in the order of their numbers. Their new times are in their
  places, the other times stay.
\<close>

definition timed_out :: "(u32 \<Rightarrow> u64) \<Rightarrow> sw_send \<Rightarrow> nat \<Rightarrow> u32 list" where
  "timed_out now s n = filter (\<lambda>i. now i - time_sent s ! slot i > TIMEOUT_US * 1000)
     (map of_nat [unat (last_pkt_acked s) + 1..<n])"

lemma unat_of_nat_32: "n < 2 ^ 32 \<Longrightarrow> unat (of_nat n :: u32) = n"
  by (simp add: unat_of_nat take_bit_nat_eq_self)

lemma timed_out_set:
  assumes "n \<le> 2 ^ 32"
  shows "i \<in> set (timed_out now s n) \<Longrightarrow> unat (last_pkt_acked s) < unat i \<and> unat i < n"
  using assms by (auto simp: timed_out_def unat_of_nat_32)

lemma timed_out_in:
  assumes "unat (last_pkt_acked s) < unat i" "unat i < n" "now i - time_sent s ! slot i > TIMEOUT_US * 1000"
  shows "i \<in> set (timed_out now s n)"
proof -
  have "i = of_nat (unat i)" by simp
  then have "i \<in> of_nat ` {unat (last_pkt_acked s) + 1..<n}" using assms(1,2) by (intro image_eqI [of _ _ "unat i"]) simp_all
  then show ?thesis using assms(3) by (simp add: timed_out_def)
qed


lemma length_timed_out: "length (timed_out now s n) \<le> n - (unat (last_pkt_acked s) + 1)"
  unfolding timed_out_def by (rule order_trans [OF length_filter_le]) simp

lemma timed_out_Suc:
  assumes "unat (last_pkt_acked s) + 1 \<le> unat j"
  shows "timed_out now s (unat j + 1) =
    (if now j - time_sent s ! slot j > TIMEOUT_US * 1000 then timed_out now s (unat j) @ [j] else timed_out now s (unat j))"
  using assms by (simp add: timed_out_def)


lemma sw_retransmit_exact:
  assumes "cl_ok s"
  defines "n \<equiv> min (unat (last_pkt_sent s)) (unat (last_pkt_written s))"
  shows "sw_retransmit now sent_at s = Some (s\<lparr>time_sent :=
    fold (\<lambda>i tms. tms[slot i := sent_at i]) (timed_out now s (n + 1)) (time_sent s)\<rparr>, timed_out now s (n + 1))"
proof -
  define b where "b = min (last_pkt_sent s) (last_pkt_written s)"
  define A where "A = last_pkt_acked s"
  have ub: "unat b = n" by (simp add: b_def n_def min_def word_le_nat_alt)
  have b: "unat b \<le> unat A + 128" "unat A \<le> 2 ^ 31" using assms(1) ub by (auto simp: cl_ok_def A_def n_def)
  have u: "unat (A + 1) = unat A + 1" using b by (intro unat_plus1) simp
  let ?body = "\<lambda>i retr. if now i - time_sent s ! slot i > TIMEOUT_US * 1000
                 then if length retr < BUF_SIZE then Some (retr @ [i]) else None else Some retr"
  have "for_u32 (A + 1) b ?body [] = Some (timed_out now s (n + 1))"
  proof (cases "unat (A + 1) \<le> unat b")
    case True
    let ?Q = "\<lambda>j retr. retr = timed_out now s (unat j)"
    have step: "\<exists>r'. ?body j r = Some r' \<and> ?Q (j + 1) r'"
      if "unat (A + 1) \<le> unat j" "unat j \<le> unat b" "?Q j r" for j r
    proof -
      have j: "unat (j + 1) = unat j + 1" using that b by (intro unat_plus1) simp
      have "length r < BUF_SIZE"
        using that b u length_timed_out [of now s "unat j"] by (simp add: BUF_SIZE_def A_def)
      then show ?thesis using that(1,3) u j timed_out_Suc [of s j now] by (simp add: A_def)
    qed
    have "timed_out now s (unat (A + 1)) = []" using u by (simp add: timed_out_def A_def)
    then have "\<exists>retr. for_u32 (A + 1) b ?body [] = Some retr \<and> ?Q (b + 1) retr"
      by (intro for_u32_rule [where Q = ?Q]) (use b True step in \<open>simp_all\<close>)
    moreover have "unat (b + 1) = n + 1" using b ub unat_plus1 [of b] by simp
    ultimately show ?thesis by simp
  next
    case False
    then have "timed_out now s (n + 1) = []" using u ub by (simp add: timed_out_def A_def)
    then show ?thesis using False by (subst for_u32.simps) (simp add: word_le_nat_alt)
  qed
  then show ?thesis by (simp add: sw_retransmit_def A_def [symmetric] b_def [symmetric])
qed

lemma sw_retransmit_ok:
  assumes "cl_ok s"
  obtains tms retr where "sw_retransmit now sent_at s = Some (s\<lparr>time_sent := tms\<rparr>, retr)" "length tms = 128"
    "\<forall>i \<in> set retr. unat (last_pkt_acked s) < unat i \<and> unat i \<le> unat (last_pkt_sent s)"
    "\<forall>i. unat (last_pkt_acked s) < unat i \<and> unat i \<le> min (unat (last_pkt_sent s)) (unat (last_pkt_written s)) \<and>
       now i - time_sent s ! slot i > TIMEOUT_US * 1000 \<longrightarrow> i \<in> set retr"
proof (rule that)
  let ?n = "min (unat (last_pkt_sent s)) (unat (last_pkt_written s))"
  show "sw_retransmit now sent_at s = Some (s\<lparr>time_sent :=
    fold (\<lambda>i tms. tms[slot i := sent_at i]) (timed_out now s (?n + 1)) (time_sent s)\<rparr>, timed_out now s (?n + 1))"
    by (rule sw_retransmit_exact [OF assms])
  show "\<forall>i \<in> set (timed_out now s (?n + 1)). unat (last_pkt_acked s) < unat i \<and> unat i \<le> unat (last_pkt_sent s)"
    using timed_out_set [of "?n + 1" _ now s] assms by (fastforce simp: cl_ok_def)
  show "\<forall>i. unat (last_pkt_acked s) < unat i \<and> unat i \<le> ?n \<and>
       now i - time_sent s ! slot i > TIMEOUT_US * 1000 \<longrightarrow> i \<in> set (timed_out now s (?n + 1))"
    using timed_out_in [of s _ "?n + 1" now] by (simp add: less_Suc_eq_le)
qed (use assms in \<open>simp add: cl_ok_def\<close>)

lemma sw_fill_ok:
  assumes "cl_ok s"
  shows "cl_ok (sw_fill np s)" "last_pkt_sent (sw_fill np s) = last_pkt_sent s"
    "last_pkt_acked (sw_fill np s) = last_pkt_acked s"
    "unat (last_pkt_written (sw_fill np s)) = min (unat np) (unat (last_pkt_acked s) + 128)"
  using assms unat_plus_BUF [of "last_pkt_acked s"] by (auto simp: cl_ok_def sw_fill_def word_less_nat_alt)

text \<open>The loop sends consecutive packets, at most up to the last one written.\<close>

lemma sw_send_loop_ok:
  assumes "cl_ok s" "unat (last_pkt_acked s) + length pkts \<le> unat (last_pkt_sent s)"
  shows "\<exists>x new. sw_send_loop s pkts = Some (s\<lparr>last_pkt_sent := x\<rparr>, pkts @ new) \<and> cl_ok (s\<lparr>last_pkt_sent := x\<rparr>) \<and>
    map unat new = [unat (last_pkt_sent s) + 1..<unat x + 1] \<and> unat (last_pkt_sent s) \<le> unat x \<and>
    (unat (last_pkt_sent s) < unat x \<longrightarrow> unat x \<le> unat (last_pkt_written s)) \<and> length (pkts @ new) \<le> 128 \<and>
    \<not> (x - last_pkt_acked s < rcv_wnd s \<and> x < last_pkt_written s)"
  using assms
proof (induction "unat (last_pkt_written s) - unat (last_pkt_sent s)" arbitrary: s pkts)
  case 0
  then have "\<not> last_pkt_sent s < last_pkt_written s" by (simp add: word_less_nat_alt)
  then have "sw_send_loop s pkts = Some (s\<lparr>last_pkt_sent := last_pkt_sent s\<rparr>, pkts @ [])"
    by (subst sw_send_loop.simps) simp
  moreover have "length pkts \<le> 128" using 0 by (auto simp: cl_ok_def)
  ultimately show ?case using 0(1,2) by (intro exI [of _ "last_pkt_sent s"] exI [of _ "[]"]) (simp add: word_less_nat_alt)
next
  case (Suc n)
  let ?s = "s\<lparr>last_pkt_sent := last_pkt_sent s + 1\<rparr>"
  show ?case
  proof (cases "last_pkt_sent s - last_pkt_acked s < rcv_wnd s")
    case False
    then have "sw_send_loop s pkts = Some (s\<lparr>last_pkt_sent := last_pkt_sent s\<rparr>, pkts @ [])"
      by (subst sw_send_loop.simps) simp
    moreover have "length pkts \<le> 128" using Suc by (auto simp: cl_ok_def)
    ultimately show ?thesis using Suc(3) False by (intro exI [of _ "last_pkt_sent s"] exI [of _ "[]"]) simp
  next
    case True
    have lt: "unat (last_pkt_sent s) < unat (last_pkt_written s)" using Suc(2) by simp
    have u: "unat (last_pkt_sent s + 1) = unat (last_pkt_sent s) + 1"
      using Suc(3) by (intro unat_plus1) (auto simp: cl_ok_def)
    have ok: "cl_ok ?s" using Suc(3) lt u by (auto simp: cl_ok_def)
    have "length pkts < BUF_SIZE" using Suc(3,4) lt by (auto simp: cl_ok_def BUF_SIZE_def)
    then have e: "sw_send_loop s pkts = sw_send_loop ?s (pkts @ [last_pkt_sent s + 1])"
      using lt True by (subst sw_send_loop.simps) (simp add: word_less_nat_alt)
    have "n = unat (last_pkt_written ?s) - unat (last_pkt_sent ?s)" using Suc(2) u by simp
    moreover have "unat (last_pkt_acked ?s) + length (pkts @ [last_pkt_sent s + 1]) \<le> unat (last_pkt_sent ?s)"
      using Suc(4) u by simp
    ultimately obtain x new where x:
      "sw_send_loop ?s (pkts @ [last_pkt_sent s + 1]) = Some (?s\<lparr>last_pkt_sent := x\<rparr>, (pkts @ [last_pkt_sent s + 1]) @ new)"
      "cl_ok (?s\<lparr>last_pkt_sent := x\<rparr>)" "map unat new = [unat (last_pkt_sent ?s) + 1..<unat x + 1]"
      "unat (last_pkt_sent ?s) \<le> unat x" "unat (last_pkt_sent ?s) < unat x \<longrightarrow> unat x \<le> unat (last_pkt_written ?s)"
      "length ((pkts @ [last_pkt_sent s + 1]) @ new) \<le> 128"
      "\<not> (x - last_pkt_acked ?s < rcv_wnd ?s \<and> x < last_pkt_written ?s)"
      using Suc(1) [OF _ ok] by blast
    have "map unat ((last_pkt_sent s + 1) # new) = [unat (last_pkt_sent s) + 1..<unat x + 1]"
      using x(3,4) u upt_conv_Cons [of "unat (last_pkt_sent s) + 1" "unat x + 1"] by (simp del: upt_Suc)
    then show ?thesis using e x u lt
      by (intro exI [of _ x] exI [of _ "(last_pkt_sent s + 1) # new"]) auto
  qed
qed

lemma sw_transmit_ok:
  assumes "cl_ok s"
  obtains s' new where "sw_transmit sent_at s = Some (s', new)" "cl_ok s'"
    "s' = s\<lparr>last_pkt_sent := last_pkt_sent s', time_sent := time_sent s'\<rparr>"
    "map unat new = [unat (last_pkt_sent s) + 1..<unat (last_pkt_sent s') + 1]"
    "unat (last_pkt_sent s) \<le> unat (last_pkt_sent s')"
    "\<not> (last_pkt_sent s' - last_pkt_acked s < rcv_wnd s \<and> last_pkt_sent s' < last_pkt_written s)"
    "\<forall>i \<in> set new. time_sent s' ! slot i = sent_at i"
    "\<forall>j. j \<notin> slot ` set new \<longrightarrow> time_sent s' ! j = time_sent s ! j"
    "unat (last_pkt_sent s') \<le> max (unat (last_pkt_sent s)) (unat (last_pkt_written s))"
    "rcv_wnd s = 0 \<longrightarrow> last_pkt_sent s' = last_pkt_sent s"
proof -
  obtain x new where x: "sw_send_loop s [] = Some (s\<lparr>last_pkt_sent := x\<rparr>, new)" "cl_ok (s\<lparr>last_pkt_sent := x\<rparr>)"
    "map unat new = [unat (last_pkt_sent s) + 1..<unat x + 1]" "unat (last_pkt_sent s) \<le> unat x"
    "\<not> (x - last_pkt_acked s < rcv_wnd s \<and> x < last_pkt_written s)"
    "unat (last_pkt_sent s) < unat x \<longrightarrow> unat x \<le> unat (last_pkt_written s)"
    using sw_send_loop_ok [OF assms, of "[]"] assms by (auto simp: cl_ok_def)
  have upto: "unat x \<le> max (unat (last_pkt_sent s)) (unat (last_pkt_written s))" using x(4,6) by linarith
  have closed: "x = last_pkt_sent s" if "rcv_wnd s = 0"
  proof -
    have "sw_send_loop s [] = Some (s, [])" using that by (subst sw_send_loop.simps) simp
    then show ?thesis using arg_cong [where f = "\<lambda>r. last_pkt_sent (fst (the r))", OF x(1)] by simp
  qed
  show ?thesis
  proof (cases "new = []")
    case True
    then show ?thesis using x upto closed
      by (intro that [of "s\<lparr>last_pkt_sent := x\<rparr>" "[]"]) (simp_all add: sw_transmit_def)
  next
    case False
    let ?a = "unat (last_pkt_acked s)" and ?l = "unat (last_pkt_sent s)"
    have b: "unat x < 2 ^ 32 - 1" "unat x \<le> ?a + 128" "?a \<le> ?l" using x(2) assms by (auto simp: cl_ok_def)
    have u: "unat (last_pkt_sent s + 1) = ?l + 1" using b(1) x(4) by (intro unat_plus1) simp
    let ?Q = "\<lambda>j tms. length tms = 128 \<and> (\<forall>i. ?l < unat i \<and> unat i < unat j \<longrightarrow> tms ! slot i = sent_at i) \<and>
      (\<forall>n. n \<notin> slot ` {i. ?l < unat i \<and> unat i < unat j} \<longrightarrow> tms ! n = time_sent s ! n)"
    have step: "\<exists>r'. Some (tms[slot j := sent_at j]) = Some r' \<and> ?Q (j + 1) r'"
      if j: "unat (last_pkt_sent s + 1) \<le> unat j" "unat j \<le> unat x" and q: "?Q j tms" for j tms
    proof -
      have "unat (j + 1) = unat j + 1" using j b(1) by (intro unat_plus1) simp
      moreover have "tms[slot j := sent_at j] ! slot i = sent_at i" if i: "?l < unat i" "unat i \<le> unat j" for i
      proof (cases "slot i = slot j")
        case True
        have "i = j" by (rule slot_inj [OF True, where n = "?a + 1"]) (use i j b u in auto)
        then show ?thesis using q slot_less [of j] by simp
      next
        case False
        then have "unat i \<noteq> unat j" by (auto dest: unsigned_word_eqI)
        then show ?thesis using q i False by simp
      qed
      moreover have "tms[slot j := sent_at j] ! n = time_sent s ! n"
        if n: "n \<notin> slot ` {i. ?l < unat i \<and> unat i < unat j + 1}" for n
      proof -
        have "n \<noteq> slot j" using n j(1) u by fastforce
        moreover have "n \<notin> slot ` {i. ?l < unat i \<and> unat i < unat j}" using n by fastforce
        ultimately show ?thesis using q by simp
      qed
      ultimately show ?thesis using q by auto
    qed
    have "\<exists>tms. for_u32 (last_pkt_sent s + 1) x (\<lambda>i tms. Some (tms[slot i := sent_at i])) (time_sent s) = Some tms \<and>
        ?Q (x + 1) tms"
      by (rule for_u32_rule [where Q = ?Q]) (use step u x(4) b assms in \<open>auto simp: cl_ok_def\<close>)
    moreover have "unat (x + 1) = unat x + 1" using b(1) by (rule unat_plus1)
    ultimately obtain tms where
      t: "for_u32 (last_pkt_sent s + 1) x (\<lambda>i tms. Some (tms[slot i := sent_at i])) (time_sent s) = Some tms"
      "length tms = 128" "\<And>i. \<lbrakk>?l < unat i; unat i \<le> unat x\<rbrakk> \<Longrightarrow> tms ! slot i = sent_at i"
      "\<And>n. n \<notin> slot ` {i. ?l < unat i \<and> unat i \<le> unat x} \<Longrightarrow> tms ! n = time_sent s ! n"
      by (auto simp: less_Suc_eq_le)
    have new: "{i. ?l < unat i \<and> unat i \<le> unat x} = set new"
    proof -
      have "i \<in> set new \<longleftrightarrow> unat i \<in> set (map unat new)" for i by (auto dest: unsigned_word_eqI)
      then show ?thesis unfolding x(3) by auto
    qed
    show ?thesis
    proof (rule that [of "s\<lparr>last_pkt_sent := x, time_sent := tms\<rparr>" new])
      show "\<forall>i \<in> set new. time_sent (s\<lparr>last_pkt_sent := x, time_sent := tms\<rparr>) ! slot i = sent_at i"
        unfolding new [symmetric] using t(3) by simp
      show "\<forall>j. j \<notin> slot ` set new \<longrightarrow> time_sent (s\<lparr>last_pkt_sent := x, time_sent := tms\<rparr>) ! j = time_sent s ! j"
        using t(4) unfolding new by simp
    qed (use x t(1,2) False upto closed in \<open>auto simp: sw_transmit_def Let_def cl_ok_def\<close>)
  qed
qed

section \<open>Acknowledgements\<close>

lemma sw_acked_ok:
  assumes "cl_ok s" "unat a \<le> 2 ^ 31"
  obtains s' where "sw_acked tm a w s = Some s'" "cl_ok s'"
    "unat (last_pkt_acked s') = max (unat (last_pkt_acked s)) (unat a)"
    "unat (last_pkt_sent s') = max (unat (last_pkt_sent s)) (unat a)" "rcv_wnd s' = w"
    "last_pkt_written s' = last_pkt_written s"
proof (cases "a > last_pkt_acked s")
  case True
  have gt: "unat (last_pkt_acked s) < unat a" using True by (simp add: word_less_nat_alt)
  have b: "unat a < 2 ^ 32 - 1" using assms(2) by simp
  have u: "unat (last_pkt_acked s + 1) = unat (last_pkt_acked s) + 1" using gt b by (intro unat_plus1) simp
  have "\<exists>r. for_u32 (last_pkt_acked s + 1) a (\<lambda>i u. Some u) () = Some r"
    using for_u32_rule [OF b, where Q = "\<lambda>_ _. True" and i = "last_pkt_acked s + 1" and s = "()"
        and body = "\<lambda>i u. Some u"] u gt by auto
  then show ?thesis
    using assms True gt that unfolding sw_acked_def Let_def cl_ok_def
    by (cases "last_pkt_sent s < a") (auto simp: word_less_nat_alt not_less max_def)
next
  case False
  then have "unat a \<le> unat (last_pkt_acked s)" by (simp add: word_less_nat_alt)
  then show ?thesis using assms False that
    by (auto simp: sw_acked_def Let_def cl_ok_def max_def not_less word_less_nat_alt)
qed

section \<open>The loops over the flows\<close>

lemma each_flow_ex:
  assumes "distinct ks" "set ks \<subseteq> {..<length fs}"
    "\<And>k. k \<in> set ks \<Longrightarrow> \<exists>s' pkts. f k (fs ! k) = Some (s', pkts) \<and> P k s' pkts"
  shows "\<exists>fs' out. each_flow ks f fs = Some (fs', out) \<and> length fs' = length fs \<and>
    (\<forall>k \<in> set ks. \<exists>pkts. f k (fs ! k) = Some (fs' ! k, pkts) \<and> P k (fs' ! k) pkts \<and> Pair k ` set pkts \<subseteq> set out) \<and>
    (\<forall>k. k \<notin> set ks \<longrightarrow> fs' ! k = fs ! k) \<and>
    (\<forall>(k, i) \<in> set out. k \<in> set ks \<and> (\<exists>pkts. P k (fs' ! k) pkts \<and> i \<in> set pkts))"
  using assms
proof (induction ks arbitrary: fs)
  case (Cons k ks)
  obtain s' pkts where s': "f k (fs ! k) = Some (s', pkts)" "P k s' pkts" using Cons.prems(3) [of k] by auto
  let ?fs = "fs[k := s']"
  have n: "?fs ! j = fs ! j" if "j \<in> set ks" for j
    using that Cons.prems(1) by (intro nth_list_update_neq) auto
  have "\<exists>fs' out. each_flow ks f ?fs = Some (fs', out) \<and> length fs' = length ?fs \<and>
    (\<forall>k \<in> set ks. \<exists>pkts. f k (?fs ! k) = Some (fs' ! k, pkts) \<and> P k (fs' ! k) pkts \<and> Pair k ` set pkts \<subseteq> set out) \<and>
    (\<forall>k. k \<notin> set ks \<longrightarrow> fs' ! k = ?fs ! k) \<and>
    (\<forall>(k, i) \<in> set out. k \<in> set ks \<and> (\<exists>pkts. P k (fs' ! k) pkts \<and> i \<in> set pkts))"
    using Cons.prems n by (intro Cons.IH) auto
  then obtain fs' out where o: "each_flow ks f ?fs = Some (fs', out)" "length fs' = length ?fs"
    "\<forall>k \<in> set ks. \<exists>pkts. f k (?fs ! k) = Some (fs' ! k, pkts) \<and> P k (fs' ! k) pkts \<and> Pair k ` set pkts \<subseteq> set out"
    "\<forall>k. k \<notin> set ks \<longrightarrow> fs' ! k = ?fs ! k"
    "\<forall>(k, i) \<in> set out. k \<in> set ks \<and> (\<exists>pkts. P k (fs' ! k) pkts \<and> i \<in> set pkts)" by blast
  have k: "k < length fs" "k \<notin> set ks" using Cons.prems(1,2) by auto
  then have fk: "fs' ! k = s'" using o(4) by simp
  have "each_flow (k # ks) f fs = Some (fs', map (Pair k) pkts @ out)" using k s'(1) o(1) by simp
  moreover have "\<forall>j \<in> set (k # ks). \<exists>ps. f j (fs ! j) = Some (fs' ! j, ps) \<and> P j (fs' ! j) ps \<and>
      Pair j ` set ps \<subseteq> set (map (Pair k) pkts @ out)"
    using o(3) s' fk n by (auto 0 4)
  moreover have "\<forall>j. j \<notin> set (k # ks) \<longrightarrow> fs' ! j = fs ! j" using o(4) by simp
  moreover have "\<forall>(j, i) \<in> set (map (Pair k) pkts @ out). j \<in> set (k # ks) \<and> (\<exists>pkts. P j (fs' ! j) pkts \<and> i \<in> set pkts)"
    using o(5) s'(2) fk by auto
  ultimately show ?case using o(2) by auto
qed simp

lemma each_flow_rule:
  assumes "distinct ks" "set ks \<subseteq> {..<length fs}"
    "\<And>k. k \<in> set ks \<Longrightarrow> \<exists>s' pkts. f k (fs ! k) = Some (s', pkts) \<and> P k s' pkts"
  obtains fs' out where "each_flow ks f fs = Some (fs', out)" "length fs' = length fs"
    "\<forall>k \<in> set ks. \<exists>pkts. P k (fs' ! k) pkts \<and> Pair k ` set pkts \<subseteq> set out" "\<forall>k. k \<notin> set ks \<longrightarrow> fs' ! k = fs ! k"
    "\<forall>k i. (k, i) \<in> set out \<longrightarrow> k \<in> set ks \<and> (\<exists>pkts. P k (fs' ! k) pkts \<and> i \<in> set pkts)"
proof -
  obtain fs' out where "each_flow ks f fs = Some (fs', out) \<and> length fs' = length fs \<and>
    (\<forall>k \<in> set ks. \<exists>pkts. f k (fs ! k) = Some (fs' ! k, pkts) \<and> P k (fs' ! k) pkts \<and> Pair k ` set pkts \<subseteq> set out) \<and>
    (\<forall>k. k \<notin> set ks \<longrightarrow> fs' ! k = fs ! k) \<and>
    (\<forall>(k, i) \<in> set out. k \<in> set ks \<and> (\<exists>pkts. P k (fs' ! k) pkts \<and> i \<in> set pkts))"
    using each_flow_ex [where P = P and f = f and fs = fs, OF assms] by blast
  then show ?thesis by (intro that [of fs' out]) auto
qed

section \<open>An iteration\<close>

text \<open>
  What a flow sends in the three loops: only numbers that it has sent by then, all of the outstanding ones
  whose time is over, and all of the new ones.
\<close>

lemma cl_output_ok:
  assumes "flow_num \<le> length fs" "\<forall>k < length fs. cl_ok (fs ! k)"
  obtains fs' pkts where "cl_output clk flow_num np fs = Some (fs', pkts)" "length fs' = length fs"
    "\<forall>k < length fs. cl_ok (fs' ! k) \<and> last_pkt_acked (fs' ! k) = last_pkt_acked (fs ! k) \<and>
       unat (last_pkt_sent (fs ! k)) \<le> unat (last_pkt_sent (fs' ! k)) \<and> rcv_wnd (fs' ! k) = rcv_wnd (fs ! k)"
    "\<forall>k i. (k, i) \<in> set pkts \<longrightarrow> k < flow_num \<and> 1 \<le> unat i \<and> unat (last_pkt_acked (fs ! k)) < unat i \<and>
       unat i \<le> unat (last_pkt_sent (fs' ! k))"
    "\<forall>k < flow_num.
       (\<forall>i. unat (last_pkt_sent (fs ! k)) < unat i \<and> unat i \<le> unat (last_pkt_sent (fs' ! k)) \<longrightarrow> (k, i) \<in> set pkts) \<and>
       \<not> (last_pkt_sent (fs' ! k) - last_pkt_acked (fs ! k) < rcv_wnd (fs ! k) \<and>
         unat (last_pkt_sent (fs' ! k)) < min (unat np) (unat (last_pkt_acked (fs ! k)) + 128))"
    "\<forall>k < flow_num. \<forall>i. unat (last_pkt_acked (fs ! k)) < unat i \<and>
       unat i \<le> min (unat (last_pkt_sent (fs ! k))) (unat (last_pkt_written (fs ! k))) \<and>
       at_check clk k i - time_sent (fs ! k) ! slot i > TIMEOUT_US * 1000 \<longrightarrow> (k, i) \<in> set pkts"
    "\<forall>k < flow_num. unat (last_pkt_written (fs' ! k)) = min (unat np) (unat (last_pkt_acked (fs ! k)) + 128) \<and>
       unat (last_pkt_sent (fs' ! k)) \<le> max (unat (last_pkt_sent (fs ! k))) (unat (last_pkt_written (fs' ! k))) \<and>
       (rcv_wnd (fs ! k) = 0 \<longrightarrow> last_pkt_sent (fs' ! k) = last_pkt_sent (fs ! k))"
proof -
  let ?ks = "[0..<flow_num]"
  have ks: "distinct ?ks" "set ?ks \<subseteq> {..<length fs}" using assms(1) by auto
  let ?P1 = "\<lambda>k s' (pkts :: u32 list). cl_ok s' \<and> last_pkt_acked s' = last_pkt_acked (fs ! k) \<and> last_pkt_sent s' = last_pkt_sent (fs ! k) \<and>
    rcv_wnd s' = rcv_wnd (fs ! k) \<and>
    (\<forall>i \<in> set pkts. unat (last_pkt_acked (fs ! k)) < unat i \<and> unat i \<le> unat (last_pkt_sent (fs ! k))) \<and>
    (\<forall>i. unat (last_pkt_acked (fs ! k)) < unat i \<and>
       unat i \<le> min (unat (last_pkt_sent (fs ! k))) (unat (last_pkt_written (fs ! k))) \<and>
       at_check clk k i - time_sent (fs ! k) ! slot i > TIMEOUT_US * 1000 \<longrightarrow> i \<in> set pkts)"
  have "\<exists>s' pkts. sw_retransmit (at_check clk k) (at_retransmit clk k) (fs ! k) = Some (s', pkts) \<and> ?P1 k s' pkts"
    if "k \<in> set ?ks" for k
  proof -
    have ok: "cl_ok (fs ! k)" using that assms by simp
    obtain tms retr where r: "sw_retransmit (at_check clk k) (at_retransmit clk k) (fs ! k) = Some ((fs ! k)\<lparr>time_sent := tms\<rparr>, retr)"
      "length tms = 128" "\<forall>i \<in> set retr. unat (last_pkt_acked (fs ! k)) < unat i \<and> unat i \<le> unat (last_pkt_sent (fs ! k))"
      "\<forall>i. unat (last_pkt_acked (fs ! k)) < unat i \<and>
        unat i \<le> min (unat (last_pkt_sent (fs ! k))) (unat (last_pkt_written (fs ! k))) \<and>
        at_check clk k i - time_sent (fs ! k) ! slot i > TIMEOUT_US * 1000 \<longrightarrow> i \<in> set retr"
      by (rule sw_retransmit_ok [OF ok, of "at_check clk k" "at_retransmit clk k"])
    have ok': "cl_ok ((fs ! k)\<lparr>time_sent := tms\<rparr>)" using r(2) ok by (simp add: cl_ok_def)
    show ?thesis
      by (rule exI, rule exI, rule conjI, rule r(1), intro conjI) (rule ok' r(3) r(4) | simp)+
  qed
  then obtain fs1 again where
    f1: "each_flow ?ks (\<lambda>k. sw_retransmit (at_check clk k) (at_retransmit clk k)) fs = Some (fs1, again)" "length fs1 = length fs"
    "\<forall>k \<in> set ?ks. \<exists>pkts. ?P1 k (fs1 ! k) pkts \<and> Pair k ` set pkts \<subseteq> set again" "\<forall>k. k \<notin> set ?ks \<longrightarrow> fs1 ! k = fs ! k"
    "\<forall>k i. (k, i) \<in> set again \<longrightarrow> k \<in> set ?ks \<and> (\<exists>pkts. ?P1 k (fs1 ! k) pkts \<and> i \<in> set pkts)"
    by (rule each_flow_rule [where P = ?P1 and f = "\<lambda>k. sw_retransmit (at_check clk k) (at_retransmit clk k)", OF ks])
  let ?P2 = "\<lambda>k s' (pkts :: u32 list). cl_ok s' \<and> last_pkt_acked s' = last_pkt_acked (fs ! k) \<and> last_pkt_sent s' = last_pkt_sent (fs ! k) \<and>
    rcv_wnd s' = rcv_wnd (fs ! k) \<and> unat (last_pkt_written s') = min (unat np) (unat (last_pkt_acked (fs ! k)) + 128)"
  have "\<exists>s' pkts. Some (sw_fill np (fs1 ! k), [] :: u32 list) = Some (s', pkts) \<and> ?P2 k s' pkts" if "k \<in> set ?ks" for k
    using bspec [OF f1(3) that] sw_fill_ok [of "fs1 ! k" np] by (auto simp: sw_fill_def)
  note st1 = this
  have ks1: "set ?ks \<subseteq> {..<length fs1}" using ks(2) f1(2) by simp
  from st1 obtain fs2 out2 where
    f2: "each_flow ?ks (\<lambda>k s. Some (sw_fill np s, [])) fs1 = Some (fs2, out2)" "length fs2 = length fs1"
    "\<forall>k \<in> set ?ks. \<exists>pkts :: u32 list. ?P2 k (fs2 ! k) pkts \<and> Pair k ` set pkts \<subseteq> set out2" "\<forall>k. k \<notin> set ?ks \<longrightarrow> fs2 ! k = fs1 ! k"
    "\<forall>k i. (k, i) \<in> set out2 \<longrightarrow> k \<in> set ?ks \<and> (\<exists>pkts. ?P2 k (fs2 ! k) pkts \<and> i \<in> set pkts)"
    by (rule each_flow_rule [where P = ?P2 and f = "\<lambda>k s. Some (sw_fill np s, [])", OF ks(1) ks1])
  let ?P3 = "\<lambda>k s' (pkts :: u32 list). cl_ok s' \<and> last_pkt_acked s' = last_pkt_acked (fs ! k) \<and>
    unat (last_pkt_sent (fs ! k)) \<le> unat (last_pkt_sent s') \<and> rcv_wnd s' = rcv_wnd (fs ! k) \<and>
    (unat (last_pkt_written s') = min (unat np) (unat (last_pkt_acked (fs ! k)) + 128) \<and>
     unat (last_pkt_sent s') \<le> max (unat (last_pkt_sent (fs ! k))) (unat (last_pkt_written s')) \<and>
     (rcv_wnd (fs ! k) = 0 \<longrightarrow> last_pkt_sent s' = last_pkt_sent (fs ! k))) \<and>
    map unat pkts = [unat (last_pkt_sent (fs ! k)) + 1..<unat (last_pkt_sent s') + 1] \<and>
    \<not> (last_pkt_sent s' - last_pkt_acked (fs ! k) < rcv_wnd (fs ! k) \<and>
      unat (last_pkt_sent s') < min (unat np) (unat (last_pkt_acked (fs ! k)) + 128))"
  have "\<exists>s' pkts. sw_transmit (at_send clk k) (fs2 ! k) = Some (s', pkts) \<and> ?P3 k s' pkts" if "k \<in> set ?ks" for k
  proof -
    have k: "cl_ok (fs2 ! k)" "last_pkt_acked (fs2 ! k) = last_pkt_acked (fs ! k)" "last_pkt_sent (fs2 ! k) = last_pkt_sent (fs ! k)"
      "rcv_wnd (fs2 ! k) = rcv_wnd (fs ! k)"
      "unat (last_pkt_written (fs2 ! k)) = min (unat np) (unat (last_pkt_acked (fs ! k)) + 128)"
      using bspec [OF f2(3) that] by auto
    obtain s' new where t: "sw_transmit (at_send clk k) (fs2 ! k) = Some (s', new)" "cl_ok s'"
      "s' = (fs2 ! k)\<lparr>last_pkt_sent := last_pkt_sent s', time_sent := time_sent s'\<rparr>"
      "map unat new = [unat (last_pkt_sent (fs2 ! k)) + 1..<unat (last_pkt_sent s') + 1]"
      "unat (last_pkt_sent (fs2 ! k)) \<le> unat (last_pkt_sent s')"
      "\<not> (last_pkt_sent s' - last_pkt_acked (fs2 ! k) < rcv_wnd (fs2 ! k) \<and> last_pkt_sent s' < last_pkt_written (fs2 ! k))"
      "unat (last_pkt_sent s') \<le> max (unat (last_pkt_sent (fs2 ! k))) (unat (last_pkt_written (fs2 ! k)))"
      "rcv_wnd (fs2 ! k) = 0 \<longrightarrow> last_pkt_sent s' = last_pkt_sent (fs2 ! k)"
      by (rule sw_transmit_ok [OF k(1), of "at_send clk k"])
    have same: "last_pkt_acked s' = last_pkt_acked (fs2 ! k)" "rcv_wnd s' = rcv_wnd (fs2 ! k)"
      "last_pkt_written s' = last_pkt_written (fs2 ! k)"
      using arg_cong [OF t(3), of last_pkt_acked] arg_cong [OF t(3), of rcv_wnd] arg_cong [OF t(3), of last_pkt_written]
      by simp_all
    moreover have "unat (last_pkt_written s') = min (unat np) (unat (last_pkt_acked (fs ! k)) + 128) \<and>
     unat (last_pkt_sent s') \<le> max (unat (last_pkt_sent (fs ! k))) (unat (last_pkt_written s')) \<and>
     (rcv_wnd (fs ! k) = 0 \<longrightarrow> last_pkt_sent s' = last_pkt_sent (fs ! k))"
      using t(7,8) k same by simp
    moreover have "\<not> (last_pkt_sent s' - last_pkt_acked (fs ! k) < rcv_wnd (fs ! k) \<and>
      unat (last_pkt_sent s') < min (unat np) (unat (last_pkt_acked (fs ! k)) + 128))"
      using t(6) k by (simp add: word_less_nat_alt)
    ultimately show ?thesis using t(1,2,4,5) k by (intro exI [of _ s'] exI [of _ new]) simp
  qed
  note st2 = this
  have ks2: "set ?ks \<subseteq> {..<length fs2}" using ks1 f2(2) by simp
  from st2 obtain fs3 new where
    f3: "each_flow ?ks (\<lambda>k. sw_transmit (at_send clk k)) fs2 = Some (fs3, new)" "length fs3 = length fs2"
    "\<forall>k \<in> set ?ks. \<exists>pkts. ?P3 k (fs3 ! k) pkts \<and> Pair k ` set pkts \<subseteq> set new" "\<forall>k. k \<notin> set ?ks \<longrightarrow> fs3 ! k = fs2 ! k"
    "\<forall>k i. (k, i) \<in> set new \<longrightarrow> k \<in> set ?ks \<and> (\<exists>pkts. ?P3 k (fs3 ! k) pkts \<and> i \<in> set pkts)"
    by (rule each_flow_rule [where P = ?P3 and f = "\<lambda>k. sw_transmit (at_send clk k)", OF ks(1) ks2])
  have new: "unat (last_pkt_sent (fs ! k)) < unat i \<and> unat i \<le> unat (last_pkt_sent (fs3 ! k))" if "(k, i) \<in> set new" for k i
  proof -
    have "\<exists>pkts. ?P3 k (fs3 ! k) pkts \<and> i \<in> set pkts"
      by (rule conjunct2 [OF mp [OF spec [OF spec [OF f3(5), of k], of i] that]])
    then obtain pkts where "?P3 k (fs3 ! k) pkts \<and> i \<in> set pkts" ..
    then have p: "map unat pkts = [unat (last_pkt_sent (fs ! k)) + 1..<unat (last_pkt_sent (fs3 ! k)) + 1]" "i \<in> set pkts"
      by simp_all
    then have "unat i \<in> set [unat (last_pkt_sent (fs ! k)) + 1..<unat (last_pkt_sent (fs3 ! k)) + 1]"
      by (metis image_eqI set_map)
    then show ?thesis by auto
  qed
  have l: "cl_ok (fs3 ! k) \<and> last_pkt_acked (fs3 ! k) = last_pkt_acked (fs ! k) \<and>
     unat (last_pkt_sent (fs ! k)) \<le> unat (last_pkt_sent (fs3 ! k))" if "k < length fs" for k
    using f3(3) spec [OF f3(4), of k] spec [OF f2(4), of k] spec [OF f1(4), of k] assms(2) that by (cases "k \<in> set ?ks") auto
  have l2: "k < flow_num \<and> 1 \<le> unat i \<and> unat (last_pkt_acked (fs ! k)) < unat i \<and> unat i \<le> unat (last_pkt_sent (fs3 ! k))"
    if "(k, i) \<in> set (again @ new)" for k i
  proof (cases "(k, i) \<in> set again")
    case True
    then have "k \<in> set ?ks \<and> (\<exists>pkts. ?P1 k (fs1 ! k) pkts \<and> i \<in> set pkts)" using f1(5) by blast
    then have k: "k < flow_num" "unat (last_pkt_acked (fs ! k)) < unat i \<and> unat i \<le> unat (last_pkt_sent (fs ! k))" by auto
    then show ?thesis using l [of k] assms(1) by auto
  next
    case False
    then have i: "(k, i) \<in> set new" using that by simp
    then have k: "k < flow_num" using f3(5) by auto
    then have "unat (last_pkt_acked (fs ! k)) \<le> unat (last_pkt_sent (fs ! k))" using assms by (simp add: cl_ok_def)
    then show ?thesis using k new [OF i] by simp
  qed
  have l3: "rcv_wnd (fs3 ! k) = rcv_wnd (fs ! k)" if "k < length fs" for k
    using f3(3) spec [OF f3(4), of k] spec [OF f2(4), of k] spec [OF f1(4), of k] that by (cases "k \<in> set ?ks") auto
  have l4: "(\<forall>i. unat (last_pkt_sent (fs ! k)) < unat i \<and> unat i \<le> unat (last_pkt_sent (fs3 ! k)) \<longrightarrow> (k, i) \<in> set (again @ new)) \<and>
     \<not> (last_pkt_sent (fs3 ! k) - last_pkt_acked (fs ! k) < rcv_wnd (fs ! k) \<and>
       unat (last_pkt_sent (fs3 ! k)) < min (unat np) (unat (last_pkt_acked (fs ! k)) + 128))" if k: "k < flow_num" for k
  proof -
    have "k \<in> set ?ks" using k by simp
    then obtain pkts where p: "?P3 k (fs3 ! k) pkts" "Pair k ` set pkts \<subseteq> set new" using f3(3) by blast
    have "(k, i) \<in> set new" if "unat (last_pkt_sent (fs ! k)) < unat i" "unat i \<le> unat (last_pkt_sent (fs3 ! k))" for i
    proof -
      have "unat i \<in> set (map unat pkts)" using that p(1) by auto
      then have "i \<in> set pkts" by (auto dest: unsigned_word_eqI)
      then show ?thesis using p(2) by blast
    qed
    then show ?thesis using p(1) by simp
  qed
  have l5: "(k, i) \<in> set (again @ new)" if k: "k < flow_num" and i: "unat (last_pkt_acked (fs ! k)) < unat i \<and>
       unat i \<le> min (unat (last_pkt_sent (fs ! k))) (unat (last_pkt_written (fs ! k))) \<and>
       at_check clk k i - time_sent (fs ! k) ! slot i > TIMEOUT_US * 1000" for k i
  proof -
    have "k \<in> set ?ks" using k by simp
    then obtain pkts where p: "?P1 k (fs1 ! k) pkts" "Pair k ` set pkts \<subseteq> set again" using f1(3) by blast
    then have "i \<in> set pkts" using i by blast
    then show ?thesis using p(2) by auto
  qed
  have l6: "unat (last_pkt_written (fs3 ! k)) = min (unat np) (unat (last_pkt_acked (fs ! k)) + 128) \<and>
       unat (last_pkt_sent (fs3 ! k)) \<le> max (unat (last_pkt_sent (fs ! k))) (unat (last_pkt_written (fs3 ! k))) \<and>
       (rcv_wnd (fs ! k) = 0 \<longrightarrow> last_pkt_sent (fs3 ! k) = last_pkt_sent (fs ! k))" if k: "k < flow_num" for k
  proof -
    have "k \<in> set ?ks" using k by simp
    then obtain pkts where "?P3 k (fs3 ! k) pkts" using f3(3) by blast
    then show ?thesis by (elim conjE) (intro conjI)
  qed
  show ?thesis
  proof (rule that [of fs3 "again @ new"])
    show "cl_output clk flow_num np fs = Some (fs3, again @ new)" using f1(1) f2(1) f3(1) by (simp add: cl_output_def)
    show "length fs3 = length fs" by (simp add: f1(2) f2(2) f3(2))
  qed (use l l3 in blast, use l2 in blast, use l4 in blast, use l5 in blast, use l6 in blast)
qed

text \<open>\<open>N\<close> bounds the numbers that packets acknowledge.\<close>

definition ack_bound :: "dpdk \<Rightarrow> (nat \<Rightarrow> nat) \<Rightarrow> nat \<Rightarrow> mbuf \<Rightarrow> bool" where
  "ack_bound d N n q \<longleftrightarrow> (\<forall>a w p a' w'. parse_packet d q a w = (p, a', w') \<longrightarrow> p \<noteq> 0 \<longrightarrow> p - 1 < n \<and> unat a' \<le> N (p - 1))"

lemma ack_boundD:
  "\<lbrakk>ack_bound d N n q; parse_packet d q a w = (p, a', w'); p \<noteq> 0\<rbrakk> \<Longrightarrow> p - 1 < n \<and> unat a' \<le> N (p - 1)"
  unfolding ack_bound_def by blast

definition cl_step_ok :: "nat \<Rightarrow> sw_send \<Rightarrow> sw_send \<Rightarrow> bool" where
  "cl_step_ok b s s' \<longleftrightarrow> cl_ok s' \<and> unat (last_pkt_acked s) \<le> unat (last_pkt_acked s') \<and>
     unat (last_pkt_acked s') \<le> max (unat (last_pkt_acked s)) b \<and>
     unat (last_pkt_sent s') = max (unat (last_pkt_sent s)) (unat (last_pkt_acked s')) \<and>
     last_pkt_written s' = last_pkt_written s"

lemma cl_step_ok_refl: "cl_ok s \<Longrightarrow> cl_step_ok b s s"
  by (auto simp: cl_step_ok_def cl_ok_def max_def)

lemma cl_step_ok_trans: "\<lbrakk>cl_step_ok b s s'; cl_step_ok b s' s''\<rbrakk> \<Longrightarrow> cl_step_ok b s s''"
  by (auto simp: cl_step_ok_def max_def split: if_splits)

lemma cl_packets_ok:
  assumes "\<forall>k < length fs. cl_ok (fs ! k) \<and> N k \<le> 2 ^ 31" "\<forall>q \<in> set qs. ack_bound d N (length fs) q"
  shows "\<exists>fs' a' w'. cl_packets d tm qs a w fs = Some (fs', a', w') \<and> length fs' = length fs \<and>
    (\<forall>k < length fs. cl_step_ok (N k) (fs ! k) (fs' ! k))"
  using assms
proof (induction qs arbitrary: a w fs)
  case (Cons q qs)
  obtain p a' w' where p: "parse_packet d q a w = (p, a', w')" by (cases "parse_packet d q a w")
  show ?case
  proof (cases "p = 0")
    case True
    then show ?thesis using Cons.IH [of fs a' w'] Cons.prems p by simp
  next
    case False
    then have b: "p - 1 < length fs" "unat a' \<le> N (p - 1)" using ack_boundD [OF _ p False] Cons.prems(2) by auto
    have ok: "cl_ok (fs ! (p - 1))" "unat a' \<le> 2 ^ 31" using Cons.prems(1) b by (auto intro: order_trans)
    obtain s' where s': "sw_acked tm a' w' (fs ! (p - 1)) = Some s'" "cl_ok s'"
      "unat (last_pkt_acked s') = max (unat (last_pkt_acked (fs ! (p - 1)))) (unat a')"
      "unat (last_pkt_sent s') = max (unat (last_pkt_sent (fs ! (p - 1)))) (unat a')" "rcv_wnd s' = w'"
      "last_pkt_written s' = last_pkt_written (fs ! (p - 1))"
      by (rule sw_acked_ok [OF ok])
    let ?fs = "fs[p - 1 := s']"
    have st: "cl_step_ok (N k) (fs ! k) (?fs ! k)" if "k < length fs" for k
      using that s' b Cons.prems(1) by (cases "k = p - 1") (auto simp: cl_step_ok_def cl_ok_def le_max_iff_disj max_def)
    have "\<forall>k < length ?fs. cl_ok (?fs ! k) \<and> N k \<le> 2 ^ 31" using st Cons.prems(1) by (auto simp: cl_step_ok_def)
    then obtain fs' a'' w'' where o: "cl_packets d tm qs a' w' ?fs = Some (fs', a'', w'')" "length fs' = length fs"
      "\<forall>k < length fs. cl_step_ok (N k) (?fs ! k) (fs' ! k)"
      using Cons.IH [of ?fs a' w'] Cons.prems(2) by auto
    have "cl_packets d tm (q # qs) a w fs = Some (fs', a'', w'')" using p False b s'(1) o(1) by simp
    then show ?thesis using o(2,3) st cl_step_ok_trans by blast
  qed
qed (simp add: cl_step_ok_refl)

lemma cl_bursts_ok:
  assumes "\<forall>k < length fs. cl_ok (fs ! k) \<and> N k \<le> 2 ^ 31"
    "\<forall>(tm, qs) \<in> set bursts. \<forall>q \<in> set qs. ack_bound d N (length fs) q"
  shows "\<exists>fs'. cl_bursts d bursts a w fs = Some fs' \<and> length fs' = length fs \<and>
    (\<forall>k < length fs. cl_step_ok (N k) (fs ! k) (fs' ! k))"
  using assms
proof (induction bursts arbitrary: a w fs)
  case (Cons b bursts)
  obtain tm qs where b: "b = (tm, qs)" by (cases b)
  show ?case
  proof (cases "qs = []")
    case True
    then show ?thesis using Cons.prems(1) b by (simp add: cl_step_ok_refl)
  next
    case False
    have "\<forall>q \<in> set qs. ack_bound d N (length fs) q" using Cons.prems(2) b by simp
    then obtain fs1 a' w' where p: "cl_packets d tm qs a w fs = Some (fs1, a', w')" "length fs1 = length fs"
      "\<forall>k < length fs. cl_step_ok (N k) (fs ! k) (fs1 ! k)"
      using cl_packets_ok [OF Cons.prems(1)] by blast
    have "\<forall>k < length fs1. cl_ok (fs1 ! k) \<and> N k \<le> 2 ^ 31" using p Cons.prems(1) by (auto simp: cl_step_ok_def)
    then obtain fs' where o: "cl_bursts d bursts a' w' fs1 = Some fs'" "length fs' = length fs"
      "\<forall>k < length fs. cl_step_ok (N k) (fs1 ! k) (fs' ! k)"
      using Cons.IH [of fs1 a' w'] Cons.prems(2) p(2) by auto
    have "cl_bursts d (b # bursts) a w fs = Some fs'" using False p(1) o(1) b by simp
    then show ?thesis using o(2,3) p(3) cl_step_ok_trans by blast
  qed
qed (simp add: cl_step_ok_refl)

text \<open>A flow that no packet acknowledges stays as it is.\<close>

lemma cl_packets_other:
  assumes "cl_packets d tm qs a w fs = Some (fs', a', w')" "\<forall>q \<in> set qs. \<forall>a w. fst (parse_packet d q a w) \<noteq> k + 1"
  shows "fs' ! k = fs ! k"
  using assms
proof (induction qs arbitrary: a w fs)
  case (Cons q qs)
  obtain p b v where p: "parse_packet d q a w = (p, b, v)" by (cases "parse_packet d q a w")
  have ne: "p \<noteq> k + 1" using Cons.prems(2) p by (metis fst_conv list.set_intros(1))
  show ?case
  proof (cases "p = 0")
    case True
    then show ?thesis using Cons p by simp
  next
    case False
    then obtain s' where "cl_packets d tm qs b v (fs[p - 1 := s']) = Some (fs', a', w')"
      using Cons.prems(1) p by (auto simp: bind_eq_Some_conv split: if_splits)
    then have "fs' ! k = fs[p - 1 := s'] ! k" using Cons.IH Cons.prems(2) by simp
    then show ?thesis using ne False by simp
  qed
qed simp

lemma cl_bursts_other:
  assumes "cl_bursts d bursts a w fs = Some fs'"
    "\<forall>(tm, qs) \<in> set bursts. \<forall>q \<in> set qs. \<forall>a w. fst (parse_packet d q a w) \<noteq> k + 1"
  shows "fs' ! k = fs ! k"
  using assms
proof (induction bursts arbitrary: a w fs)
  case (Cons b bursts)
  obtain tm qs where b: "b = (tm, qs)" by (cases b)
  show ?case
  proof (cases "qs = []")
    case False
    then obtain fs1 a1 w1 where "cl_packets d tm qs a w fs = Some (fs1, a1, w1)" "cl_bursts d bursts a1 w1 fs1 = Some fs'"
      using Cons.prems(1) b by (auto simp: bind_eq_Some_conv)
    then show ?thesis using Cons.IH [of a1 w1 fs1] Cons.prems(2) cl_packets_other [of d tm qs a w fs fs1 a1 w1 k] b by simp
  qed (use Cons.prems b in simp)
qed simp

section \<open>What a flow sends\<close>



end
