(* ===== verification/SwPacketProps.thy ===== *)
theory SwPacketProps
  imports SwPacket
begin

text \<open>
  The checksum against its definition as a sum in one's complement, and what one program reads of a packet
  that the other one has built.
\<close>

section \<open>Byte order\<close>

lemma bswap16_bswap16 [simp]: "bswap16 (bswap16 x) = x"
  by (rule bit_word_eqI) (auto simp: bswap16_def bit_simps)

lemma byte_order_swap:
  assumes "byte_order d"
  shows "c_ntohs d (c_htons d x) = x" "c_ntohs d (be_to_cpu_16 d x) = x" "cpu_to_be_16 d x = cpu_to_be_16 d y \<longleftrightarrow> x = y"
  using assms by (auto simp: byte_order_def little_endian_def big_endian_def dest: arg_cong [of _ _ bswap16])

lemma little_endian_order: "little_endian d \<Longrightarrow> byte_order d"
  by (simp add: byte_order_def)

lemma bswap32_low: "(ucast (bswap32 (ucast (y :: u16))) :: u16) = 0"
proof (rule bit_word_eqI)
  fix n
  assume n: "n < LENGTH(16)"
  have m: "(0xFF0000 :: u32) = push_bit 16 (mask 8)" "(0xFF00 :: u32) = push_bit 8 (mask 8)"
    by (simp_all add: mask_eq_exp_minus_1 push_bit_eq_mult)
  have y: "bit y k \<Longrightarrow> k < 16" for k using bit_imp_le_length [of y k] by simp
  show "bit (ucast (bswap32 (ucast y)) :: u16) n = bit (0 :: u16) n"
    using n unfolding bswap32_def m by (auto simp: bit_simps dest: y)
qed

section \<open>Checksum\<close>

text \<open>The words of a byte sequence, most significant byte first, an odd byte padded with 0.\<close>

fun be_words :: "u8 list \<Rightarrow> nat list" where
  "be_words (a # b # bs) = (unat a * 256 + unat b) # be_words bs"
| "be_words [a] = [unat a * 256]"
| "be_words [] = []"

text \<open>The number from 0 to 65535 that stands for \<open>n\<close> in one's complement, 0 only for 0.\<close>

definition ones_sum :: "nat \<Rightarrow> nat" where
  "ones_sum n = (if n = 0 then 0 else (n - 1) mod 65535 + 1)"

lemma ones_sum_le: "ones_sum n \<le> 65535"
proof -
  have "(n - 1) mod 65535 < 65535" by simp
  then show ?thesis by (cases "n = 0") (auto simp: ones_sum_def simp del: mod_less_divisor)
qed

lemma ones_sum_small: "n \<le> 65535 \<Longrightarrow> ones_sum n = n"
  by (auto simp: ones_sum_def)

lemma ones_sum_mod: "ones_sum n mod 65535 = n mod 65535"
proof (cases n)
  case (Suc m)
  have "(m mod 65535 + 1) mod 65535 = (m + 1) mod 65535" by (rule mod_add_left_eq)
  then show ?thesis using Suc by (simp add: ones_sum_def)
qed (simp add: ones_sum_def)

lemma ones_sum_eq_0: "ones_sum n = 0 \<longleftrightarrow> n = 0"
  by (simp add: ones_sum_def)

lemma ones_sum_eqI:
  assumes "m mod 65535 = n mod 65535" "m = 0 \<longleftrightarrow> n = 0"
  shows "ones_sum m = ones_sum n"
proof (cases "m = 0")
  case True
  then show ?thesis using assms(2) by simp
next
  case False
  have "ones_sum k = (if k mod 65535 = 0 then 65535 else k mod 65535)" if "k \<noteq> 0" for k
  proof -
    have "ones_sum k mod 65535 = k mod 65535" "ones_sum k \<le> 65535" "0 < ones_sum k"
      using ones_sum_mod ones_sum_le ones_sum_eq_0 [of k] that by simp_all
    then show ?thesis by (cases "ones_sum k = 65535") auto
  qed
  then show ?thesis using False assms by simp
qed

lemma ones_sum_add: "ones_sum (ones_sum a + b) = ones_sum (a + b)"
  by (rule ones_sum_eqI) (simp_all add: mod_add_left_eq [of "ones_sum a", symmetric] ones_sum_mod mod_add_left_eq ones_sum_eq_0)

lemma unat_wrap_add:
  assumes "unat s \<le> 65535" "unat x \<le> 65535"
  shows "unat (wrap_add s x) = ones_sum (unat s + unat x)"
proof -
  have a: "unat (s + x) = unat s + unat x" using assms by (intro unat_add_32) simp
  show ?thesis
  proof (cases "unat s + unat x \<le> 65535")
    case True
    then show ?thesis using a by (simp add: wrap_add_def Let_def word_less_nat_alt ones_sum_small)
  next
    case False
    then have "(65535 :: u32) \<le> s + x" "\<not> s + x \<le> 65535" using a by (simp_all add: word_le_nat_alt)
    then have "unat (wrap_add s x) = unat s + unat x - 65535"
      using a by (simp add: wrap_add_def Let_def not_le unat_sub)
    also have "\<dots> = ones_sum (unat s + unat x - 65535)" using assms by (intro ones_sum_small [symmetric]) simp
    also have "\<dots> = ones_sum (unat s + unat x)"
    proof (rule ones_sum_eqI)
      show "(unat s + unat x - 65535) mod 65535 = (unat s + unat x) mod 65535" using False by (simp add: le_mod_geq)
      show "unat s + unat x - 65535 = 0 \<longleftrightarrow> unat s + unat x = 0" using False by linarith
    qed
    finally show ?thesis .
  qed
qed

lemma unat_pair:
  fixes a b :: u8
  shows "unat (push_bit 8 (ucast a) + ucast b :: u32) = unat a * 256 + unat b"
    "unat (push_bit 8 (ucast a) :: u32) = unat a * 256" "unat a * 256 + unat b \<le> 65535"
proof -
  have s: "unat a < 256" "unat b < 256" using unsigned_less [of a] unsigned_less [of b] by simp_all
  have u: "unat (ucast c :: u32) = unat c" if "unat c < 256" for c :: u8
    using that by (simp add: unsigned_ucast_eq take_bit_nat_eq_self)
  show p: "unat (push_bit 8 (ucast a) :: u32) = unat a * 256"
    using s(1) u [OF s(1)] by (simp only: unsigned_push_bit_eq) (simp add: push_bit_eq_mult take_bit_nat_eq_self)
  show "unat (push_bit 8 (ucast a) + ucast b :: u32) = unat a * 256 + unat b"
    using p u [OF s(2)] s by (subst unat_add_32) simp_all
  show "unat a * 256 + unat b \<le> 65535" using s by simp
qed

lemma unat_checksum_loop:
  "unat s \<le> 65535 \<Longrightarrow> unat (checksum_loop bs s) = ones_sum (unat s + sum_list (be_words bs))"
proof (induction bs s rule: checksum_loop.induct)
  case (1 a b bs s)
  have w: "unat (wrap_add s (push_bit 8 (ucast a) + ucast b)) = ones_sum (unat s + (unat a * 256 + unat b))"
    using unat_wrap_add [OF 1(2)] unat_pair by simp
  then show ?case
    using 1(1) ones_sum_le ones_sum_add [of "unat s + (unat a * 256 + unat b)" "sum_list (be_words bs)"]
    by (simp add: add.assoc)
next
  case (2 a s)
  have "unat a * 256 \<le> 65535" using unat_pair(3) [of a 0] by simp
  then show ?case using unat_wrap_add [OF 2] unat_pair(2) by simp
qed (simp add: ones_sum_small)

lemma be_words_append: "even (length xs) \<Longrightarrow> be_words (xs @ ys) = be_words xs @ be_words ys"
  by (induction xs rule: be_words.induct) simp_all

lemma be_words_bytes16:
  fixes y :: u16
  shows "sum_list (be_words [ucast (drop_bit 8 y), ucast y]) = unat y"
proof -
  have "unat (ucast (drop_bit 8 y) :: u8) = unat y div 256"
  proof -
    have "unat y < 65536" using unsigned_less [of y, where 'a = nat] by simp
    then have "unat y div 256 < 256" by simp
    then show ?thesis by (simp only: unsigned_ucast_eq unsigned_drop_bit_eq) (simp add: drop_bit_eq_div take_bit_nat_eq_self)
  qed
  moreover have "unat (ucast y :: u8) = unat y mod 256" by (simp add: unsigned_ucast_eq take_bit_eq_mod)
  ultimately show ?thesis using div_mult_mod_eq [of "unat y" 256] by simp
qed

lemma ucast_16_32_16 [simp]: "(ucast (ucast (y :: u16) :: u32) :: u16) = y"
  by (rule bit_word_eqI) (auto simp: bit_simps)

lemma unat_not_low:
  assumes "unat r \<le> 65535"
  shows "unat (ucast (NOT r AND 0xFFFF :: u32) :: u16) = 65535 - unat r"
proof -
  define x :: u16 where "x = ucast r"
  have x: "unat x = unat r" using assms by (simp add: x_def unsigned_ucast_eq take_bit_nat_eq_self)
  have "(ucast (NOT r AND 0xFFFF :: u32) :: u16) = NOT x"
  proof (rule bit_word_eqI)
    fix n
    assume n: "n < LENGTH(16)"
    have m: "(0xFFFF :: u32) = mask 16" by (simp add: mask_eq_exp_minus_1)
    show "bit (ucast (NOT r AND 0xFFFF :: u32) :: u16) n = bit (NOT x) n"
      using n unfolding m by (simp add: x_def bit_simps)
  qed
  also have "NOT x = 65535 - x" by (simp add: not_eq_complement)
  finally show ?thesis using x assms by (simp add: unat_sub word_le_nat_alt)
qed

text \<open>
  C23: the checksum. For every buffer \<open>checksum\<close> is the sum in one's complement of its big-endian words, an
  odd byte padded with 0; and the number that \<open>wrapsum\<close> makes of it is right: with its bytes in the place of
  a zero field the whole checks to 0xFFFF. But the programs convert this 16-bit number as one of 32 bits, so
  that on a little-endian processor the header of every packet they build has the checksum 0.
\<close>

theorem ip_checksum:
  assumes "byte_order d" "unat s \<le> 65535"
  shows "(n \<le> length buf \<longrightarrow> (\<exists>r. checksum buf n s = Some r \<and>
      unat r = ones_sum (unat s + sum_list (be_words (take n buf))))) \<and>
    (even (length xs) \<longrightarrow> (\<exists>r. checksum (xs @ [0, 0] @ ys) (length (xs @ [0, 0] @ ys)) 0 = Some r \<and>
      checksum (xs @ bytes16 d (ucast (wrapsum d r)) @ ys) (length (xs @ [0, 0] @ ys)) 0 = Some 0xFFFF)) \<and>
    (little_endian d \<longrightarrow>
      (\<forall>p q. construct_pkt d src dst m fid seq = Some p \<and> construct_ack d al m m' fid a w = Some q \<longrightarrow>
        hdr_checksum p = 0 \<and> hdr_checksum q = 0))"
proof (intro conjI impI allI)
  show "\<exists>r. checksum buf n s = Some r \<and> unat r = ones_sum (unat s + sum_list (be_words (take n buf)))"
    if "n \<le> length buf"
    using that unat_checksum_loop [OF assms(2)] by (simp add: checksum_def)
next
  assume e: "even (length xs)"
  define r where "r = checksum_loop (xs @ [0, 0] @ ys) 0"
  define t where "t = sum_list (be_words xs) + sum_list (be_words ys)"
  have r: "unat r = ones_sum t"
    using unat_checksum_loop [of 0 "xs @ [0, 0] @ ys"] e by (simp add: r_def t_def be_words_append)
  define y where "y = (ucast (NOT r AND 0xFFFF :: u32) :: u16)"
  have y: "unat y = 65535 - ones_sum t" using unat_not_low [of r] r ones_sum_le [of t] by (simp add: y_def)
  have "(ucast (wrapsum d r) :: u16) = c_htons d y"
    by (simp add: wrapsum_def Let_def y_def)
  then have b: "bytes16 d (ucast (wrapsum d r)) = [ucast (drop_bit 8 y), ucast y]"
    using byte_order_swap(1) [OF assms(1)] by (simp add: bytes16_def Let_def)
  have "sum_list (be_words (xs @ bytes16 d (ucast (wrapsum d r)) @ ys)) = t + unat y"
    using be_words_bytes16 [of y] e unfolding b by (simp add: be_words_append t_def)
  then have "unat (checksum_loop (xs @ bytes16 d (ucast (wrapsum d r)) @ ys) 0) = ones_sum (t + unat y)"
    using unat_checksum_loop [of 0 "xs @ bytes16 d (ucast (wrapsum d r)) @ ys"] by simp
  also have "\<dots> = ones_sum (ones_sum t + unat y)" by (rule ones_sum_add [symmetric])
  also have "\<dots> = 65535" using y ones_sum_le [of t] by (simp add: ones_sum_small)
  finally have "checksum_loop (xs @ bytes16 d (ucast (wrapsum d r)) @ ys) 0 = 0xFFFF"
    by (intro unsigned_word_eqI) simp
  then show "\<exists>r. checksum (xs @ [0, 0] @ ys) (length (xs @ [0, 0] @ ys)) 0 = Some r \<and>
      checksum (xs @ bytes16 d (ucast (wrapsum d r)) @ ys) (length (xs @ [0, 0] @ ys)) 0 = Some 0xFFFF"
    by (intro exI [of _ r]) (simp add: checksum_def r_def bytes16_def Let_def)
next
  fix p q
  assume le: "little_endian d" and
    c: "construct_pkt d src dst m fid seq = Some p \<and> construct_ack d al m m' fid a w = Some q"
  have z: "(ucast (cpu_to_be_32 d (wrapsum d x)) :: u16) = 0" for x
    using le bswap32_low by (simp add: little_endian_def wrapsum_def Let_def)
  show "hdr_checksum p = 0" using c by (auto simp: construct_pkt_def Let_def z bind_eq_Some_conv)
  show "hdr_checksum q = 0"
    using c by (auto simp: construct_ack_def ack_ipv4_def ack_ether_def Let_def z bind_eq_Some_conv)
qed

text \<open>A little-endian processor at the server's address, and a buffer.\<close>

definition ex_dpdk :: "48 word \<Rightarrow> dpdk" where
  "ex_dpdk mac = \<lparr>cpu_to_be_16 = bswap16, be_to_cpu_16 = bswap16, cpu_to_be_32 = bswap32, c_ntohs = bswap16,
     c_htons = bswap16, ETHER_TYPE_IPV4 = 0x800, IPPROTO_TCP = 6, my_eth = mac\<rparr>"

definition ex_mbuf :: mbuf where
  "ex_mbuf = \<lparr>eth_dst_addr = 0, eth_src_addr = 1, ether_type = 0, version_ihl = 0, type_of_service = 0,
     total_length = 0, packet_id = 0, fragment_offset = 0, time_to_live = 0, next_proto_id = 0, hdr_checksum = 0,
     ip_src_addr = 0, ip_dst_addr = 0, src_port = 0, dst_port = 0, sent_seq = 0, recv_ack = 0, data_off = 0,
     tcp_flags = 0, rx_win = 0, tcp_cksum = 0, tcp_urp = 0, mb_payload = [], l2_len = 0, l3_len = 0,
     mb_data_len = 0, mb_pkt_len = 0, nb_segs = 0\<rparr>"

lemma ex_dpdk_order: "little_endian (ex_dpdk mac)" "byte_order (ex_dpdk mac)"
  by (simp_all add: byte_order_def little_endian_def ex_dpdk_def)

lemma ip_checksum_witness:
  "\<exists>p r. construct_pkt (ex_dpdk 7) 1 2 ex_mbuf 0 1 = Some p \<and> hdr_checksum p = 0 \<and>
     checksum [0x45, 0, 0, 104] 4 0 = Some r \<and> unat r = ones_sum (0x4500 + 104)"
proof -
  obtain p where p: "construct_pkt (ex_dpdk 7) 1 2 ex_mbuf 0 1 = Some p"
    by (simp add: construct_pkt_def checksum_def ipv4_bytes_def bytes16_def bytes32_def ipv4_hdr_size_def Let_def)
  obtain q where q: "construct_ack (ex_dpdk 7) False ex_mbuf ex_mbuf 0 0 0 = Some q"
    by (simp add: construct_ack_def ack_ipv4_def checksum_def ipv4_bytes_def bytes16_def bytes32_def
      ipv4_hdr_size_def Let_def)
  have "\<exists>r. checksum [0x45, 0, 0, 104] 4 0 = Some r \<and> unat r = ones_sum (0x4500 + 104)"
    using ip_checksum [OF ex_dpdk_order(2) [of 7], of 0 4 "[0x45, 0, 0, 104]" "[]" "[]" 1 2 ex_mbuf 0 1 False ex_mbuf 0 0]
    by simp
  moreover have "hdr_checksum p = 0"
    using ip_checksum [OF ex_dpdk_order(2) [of 7], of 0 0 "[]" "[]" "[]" 1 2 ex_mbuf 0 1 False ex_mbuf 0 0]
      p q ex_dpdk_order(1) by auto
  ultimately show ?thesis using p by blast
qed

section \<open>Round trips\<close>

lemma construct_pkt_fields:
  obtains p where "construct_pkt d src dst m fid seq = Some p" "eth_dst_addr p = server_mac" "eth_src_addr p = my_eth d"
    "ether_type p = be_to_cpu_16 d (ETHER_TYPE_IPV4 d)" "next_proto_id p = IPPROTO_TCP d"
    "dst_port p = cpu_to_be_16 d (of_nat (5001 + fid))" "sent_seq p = seq" "mb_pkt_len p = 118"
  by (simp add: construct_pkt_def checksum_def ipv4_bytes_def bytes16_def bytes32_def ipv4_hdr_size_def
    ether_hdr_size_def tcp_hdr_size_def payload_len_def Let_def)

lemma construct_ack_fields:
  obtains q where "construct_ack d al pkt m fid a w = Some q"
    "eth_dst_addr q = (if al then my_eth d else eth_src_addr pkt)"
    "ether_type q = be_to_cpu_16 d (ETHER_TYPE_IPV4 d)" "next_proto_id q = IPPROTO_TCP d"
    "dst_port q = cpu_to_be_16 d (of_nat (5001 + fid))" "recv_ack q = a" "rx_win q = ucast w" "mb_pkt_len q = 64"
  by (simp add: construct_ack_def ack_ipv4_def ack_ether_def checksum_def ipv4_bytes_def bytes16_def bytes32_def
    ipv4_hdr_size_def ether_hdr_size_def tcp_hdr_size_def ack_len_def Let_def)

lemma construct_ack_port:
  assumes "construct_ack d al pkt m fid a w = Some q"
  shows "dst_port q = cpu_to_be_16 d (of_nat (5001 + fid))" "recv_ack q = a"
proof -
  obtain q' where "construct_ack d al pkt m fid a w = Some q'"
    "eth_dst_addr q' = (if al then my_eth d else eth_src_addr pkt)"
    "ether_type q' = be_to_cpu_16 d (ETHER_TYPE_IPV4 d)" "next_proto_id q' = IPPROTO_TCP d"
    "dst_port q' = cpu_to_be_16 d (of_nat (5001 + fid))" "recv_ack q' = a" by (rule construct_ack_fields)
  then show "dst_port q = cpu_to_be_16 d (of_nat (5001 + fid))" "recv_ack q = a" using assms by simp_all
qed

lemma port_flow_of:
  assumes "byte_order d" "fid < 8"
  shows "port_flow d (cpu_to_be_16 d (of_nat (5001 + fid))) [1..<9] 0 = fid + 1"
    "port_flow d (cpu_to_be_16 d (of_nat (5001 + fid))) ([1..<9] @ [101]) 0 = fid + 1"
proof -
  have u: "[1..<9] = [1, 2, 3, 4, 5, 6, 7, 8 :: nat]" by (simp add: upt_rec)
  have "fid \<in> {0, 1, 2, 3, 4, 5, 6, 7}" using assms(2) by auto
  then show "port_flow d (cpu_to_be_16 d (of_nat (5001 + fid))) [1..<9] 0 = fid + 1"
    "port_flow d (cpu_to_be_16 d (of_nat (5001 + fid))) ([1..<9] @ [101]) 0 = fid + 1"
    unfolding u by (auto simp: byte_order_swap(3) [OF assms(1)])
qed

lemma byte_order_my_eth [simp]: "byte_order (d\<lparr>my_eth := m\<rparr>) = byte_order d"
  by (simp add: byte_order_def little_endian_def big_endian_def)

lemma port_flow_8:
  assumes "byte_order d" "fid < 8" "is_tcp_for_me d p" "dst_port p = cpu_to_be_16 d (of_nat (5001 + fid))"
  shows "verify_pkt d p = fid + 1" "parse_packet d p a w = (fid + 1, recv_ack p, ucast (rx_win p))"
  using assms port_flow_of [OF assms(1,2)] by (simp_all add: verify_pkt_def parse_packet_def STOP_FLOW_ID_def)

lemma construct_pkt_verified:
  assumes "byte_order d" "fid < 8" "construct_pkt d src dst m fid seq = Some p"
  shows "verify_pkt (d\<lparr>my_eth := server_mac\<rparr>) p = fid + 1" "sent_seq p = seq" "eth_src_addr p = my_eth d"
proof -
  obtain p' where p: "construct_pkt d src dst m fid seq = Some p'" "eth_dst_addr p' = server_mac" "eth_src_addr p' = my_eth d"
    "ether_type p' = be_to_cpu_16 d (ETHER_TYPE_IPV4 d)" "next_proto_id p' = IPPROTO_TCP d"
    "dst_port p' = cpu_to_be_16 d (of_nat (5001 + fid))" "sent_seq p' = seq" by (rule construct_pkt_fields)
  have "p' = p" using p(1) assms(3) by simp
  then show "sent_seq p = seq" "eth_src_addr p = my_eth d" using p by simp_all
  show "verify_pkt (d\<lparr>my_eth := server_mac\<rparr>) p = fid + 1"
    using p byte_order_swap(2) [OF assms(1)] \<open>p' = p\<close> assms(1,2)
    by (intro port_flow_8(1)) (simp_all add: is_tcp_for_me_def)
qed

lemma construct_ack_parsed:
  assumes "byte_order d" "fid < 8" "eth_src_addr p = my_eth d"
  obtains q where "construct_ack (d\<lparr>my_eth := server_mac\<rparr>) False p m fid a w = Some q"
    "\<forall>a0 w0. parse_packet d q a0 w0 = (fid + 1, a, ucast (ucast w :: u16))"
proof -
  obtain q where q: "construct_ack (d\<lparr>my_eth := server_mac\<rparr>) False p m fid a w = Some q"
    "eth_dst_addr q = (if False then my_eth (d\<lparr>my_eth := server_mac\<rparr>) else eth_src_addr p)"
    "ether_type q = be_to_cpu_16 (d\<lparr>my_eth := server_mac\<rparr>) (ETHER_TYPE_IPV4 (d\<lparr>my_eth := server_mac\<rparr>))"
    "next_proto_id q = IPPROTO_TCP (d\<lparr>my_eth := server_mac\<rparr>)"
    "dst_port q = cpu_to_be_16 (d\<lparr>my_eth := server_mac\<rparr>) (of_nat (5001 + fid))" "recv_ack q = a" "rx_win q = ucast w"
    by (rule construct_ack_fields)
  have "parse_packet d q a0 w0 = (fid + 1, recv_ack q, ucast (rx_win q))" for a0 w0
    using q byte_order_swap(2) [OF assms(1)] assms by (intro port_flow_8(2)) (simp_all add: is_tcp_for_me_def)
  then show ?thesis using that [OF q(1)] q(6,7) by simp
qed

text \<open>
  C24: the packets. Between two little-endian machines that differ only in their addresses the server reads the flow
  and the number of every data packet the client builds, whatever the buffer held before; the client reads
  the flow, the acknowledged number and the lower 16 bits of the window from the server's reply to one of its
  packets. But when the pool gives the server the buffer it has just freed, the reply is addressed to the
  server itself, and the client ignores it.
\<close>

theorem packets_roundtrip:
  assumes "little_endian d" "fid < 8" "my_eth d \<noteq> server_mac"
  shows "\<exists>p q q'. construct_pkt d src dst m fid seq = Some p \<and>
    verify_pkt (d\<lparr>my_eth := server_mac\<rparr>) p = fid + 1 \<and> get_seq (Some p) = seq \<and>
    construct_ack (d\<lparr>my_eth := server_mac\<rparr>) False p m' fid a w = Some q \<and>
    parse_packet d q a0 w0 = (fid + 1, a, ucast (ucast w :: u16)) \<and>
    construct_ack (d\<lparr>my_eth := server_mac\<rparr>) True p m' fid a w = Some q' \<and> parse_packet d q' a0 w0 = (0, a0, w0)"
proof -
  note o = little_endian_order [OF assms(1)]
  obtain p where p: "construct_pkt d src dst m fid seq = Some p" by (rule construct_pkt_fields)
  note v = construct_pkt_verified [OF o assms(2) p]
  obtain q where q: "construct_ack (d\<lparr>my_eth := server_mac\<rparr>) False p m' fid a w = Some q"
    "\<forall>a0 w0. parse_packet d q a0 w0 = (fid + 1, a, ucast (ucast w :: u16))"
    by (rule construct_ack_parsed [OF o assms(2) v(3), of m' a w])
  obtain q' where q': "construct_ack (d\<lparr>my_eth := server_mac\<rparr>) True p m' fid a w = Some q'"
    "eth_dst_addr q' = (if True then my_eth (d\<lparr>my_eth := server_mac\<rparr>) else eth_src_addr p)"
    by (rule construct_ack_fields)
  have "parse_packet d q' a0 w0 = (0, a0, w0)"
    using q'(2) assms(3) by (simp add: parse_packet_def is_tcp_for_me_def)
  then show ?thesis using p v q q' by (auto simp: get_seq_def)
qed

lemma packets_roundtrip_witness:
  "\<exists>p. construct_pkt (ex_dpdk 7) 1 2 ex_mbuf 3 42 = Some p \<and>
     verify_pkt (ex_dpdk 7\<lparr>my_eth := server_mac\<rparr>) p = 4 \<and> get_seq (Some p) = 42"
  using packets_roundtrip [OF ex_dpdk_order(1) [of 7], of 3 1 2 ex_mbuf 42 ex_mbuf 0 0 0 0]
  by (auto simp: ex_dpdk_def server_mac_def)

lemma port_flow_snoc:
  "port_flow d port (fs @ [f]) ret = (if port = cpu_to_be_16 d (of_nat (5000 + f)) then f else port_flow d port fs ret)"
  by (induction fs arbitrary: ret) simp_all

lemma stop_pkt_verified:
  assumes "byte_order d"
  shows "\<exists>p. cl_stop d src dst m = Some p \<and>
    verify_pkt (d\<lparr>my_eth := server_mac\<rparr>) p = STOP_FLOW_ID + 1"
proof -
  obtain p where p: "construct_pkt d src dst m STOP_FLOW_ID 0 = Some p" "eth_dst_addr p = server_mac"
    "ether_type p = be_to_cpu_16 d (ETHER_TYPE_IPV4 d)" "next_proto_id p = IPPROTO_TCP d"
    "dst_port p = cpu_to_be_16 d (of_nat (5001 + STOP_FLOW_ID))" by (rule construct_pkt_fields)
  then show ?thesis
    using byte_order_swap(2) [OF assms] by (simp add: cl_stop_def verify_pkt_def is_tcp_for_me_def STOP_FLOW_ID_def port_flow_snoc)
qed

lemma port_init_ok:
  "port_init r = 0 \<longleftrightarrow> is_valid_port r \<and> ret_info_get r = 0 \<and> ret_configure r = 0 \<and> ret_adjust r = 0 \<and>
     0 \<le> ret_rx_setup r \<and> 0 \<le> ret_tx_setup r \<and> 0 \<le> ret_start r \<and> ret_macaddr r = 0 \<and> ret_promiscuous r = 0"
  by (simp add: port_init_def)

end
