(* ===== verification/SwServerProps.thy ===== *)
theory SwServerProps
  imports SwServer SwClientProps SwPacketProps
begin

text \<open>
  A flow of the server: the search for the next packet ends, the invariant \<open>sv_ok\<close> ties the buffer to the set
  of numbers that have arrived, and \<open>sv_progress\<close> either moves past what has arrived or counts the repetition.
\<close>

section \<open>The search for the next packet\<close>

lemma slot_add_128: "slot (i + 128) = slot i"
proof -
  define k where "k = i - 1"
  have "unat (k + 128) = (unat k + 128) mod 2 ^ 32" by (simp only: unat_word_ariths) simp
  then have "unat (k + 128) mod 128 = (unat k + 128) mod 128" by (simp add: mod_mod_cancel)
  moreover have "i + 128 - 1 = k + 128" by (simp add: k_def)
  ultimately show ?thesis by (simp add: slot_def BUF_SIZE_def k_def)
qed

lemma sv_advance_steps:
  "\<lbrakk>\<forall>j < n. buf ! slot (x + of_nat j) = x + of_nat j; buf ! slot (x + of_nat n) \<noteq> x + of_nat n\<rbrakk> \<Longrightarrow>
     sv_advance buf x = Some (x + of_nat n)"
proof (induction n arbitrary: x)
  case 0
  then show ?case by (subst sv_advance.simps) simp
next
  case (Suc n)
  have "buf ! slot (x + 1 + of_nat j) = x + 1 + of_nat j" if "j < n" for j
    using Suc.prems(1) that by (auto simp: add.assoc dest: spec [of _ "Suc j"])
  moreover have "buf ! slot (x + 1 + of_nat n) \<noteq> x + 1 + of_nat n" using Suc.prems(2) by (simp add: add.assoc)
  ultimately have "sv_advance buf (x + 1) = Some (x + 1 + of_nat n)" by (intro Suc.IH) auto
  moreover have "buf ! slot x = x" using Suc.prems(1) by (auto dest: spec [of _ 0])
  ultimately show ?case by (subst sv_advance.simps) (simp add: add.assoc)
qed

text \<open>
  The search for the next packet. Whatever the buffer holds, the loop of the server ends after at most
  128 steps, also where the numbers wrap; the packets it passes are in their places and the one it stops at
  is not.
\<close>

lemma sv_advance_ends:
  "\<exists>n. n \<le> 128 \<and> sv_advance buf x = Some (x + of_nat n) \<and> buf ! slot (x + of_nat n) \<noteq> x + of_nat n \<and>
     (\<nexists>j. j < n \<and> buf ! slot (x + of_nat j) \<noteq> x + of_nat j)"
proof -
  let ?Q = "\<lambda>n. buf ! slot (x + of_nat n) \<noteq> x + of_nat n"
  have "\<exists>n \<le> 128. ?Q n"
  proof (cases "?Q 0")
    case False
    have "slot (x + of_nat 128) = slot x" by (simp add: slot_add_128)
    moreover have "x + 128 \<noteq> x" by simp
    ultimately have "?Q 128" using False by auto
    then show ?thesis by blast
  qed blast
  then obtain m where m: "m \<le> 128" "?Q m" by blast
  define n where "n = (LEAST n. ?Q n)"
  have n: "\<not> ?Q j" if "j < n" for j
    by (rule not_less_Least [where P = ?Q]) (use that in \<open>simp only: n_def\<close>)
  have q: "?Q n" "n \<le> m" unfolding n_def by (rule LeastI [of ?Q, OF m(2)], rule Least_le [of ?Q, OF m(2)])
  have "sv_advance buf x = Some (x + of_nat n)" using n q by (intro sv_advance_steps) auto
  then show ?thesis using q m n by (intro exI [of _ n]) auto
qed

section \<open>The invariant of a flow\<close>

text \<open>\<open>A\<close> are the numbers of the packets that have arrived.\<close>

definition sv_ok :: "nat set \<Rightarrow> sw_recv \<Rightarrow> bool" where
  "sv_ok A s \<longleftrightarrow> 1 \<le> unat (nxt_pkt_expcd s) \<and> length (seqbuf s) = 128 \<and> unat (same_ack s) < 10 \<and>
     (\<forall>n \<in> A. 1 \<le> n \<and> n < unat (nxt_pkt_expcd s) + 128) \<and>
     (\<forall>j < 128. seqbuf s ! j = 0 \<or> unat (seqbuf s ! j) \<in> A) \<and>
     (\<forall>i. unat i \<in> A \<longrightarrow> nxt_pkt_expcd s \<le> i \<longrightarrow> seqbuf s ! slot i = i)"

lemma sv_ok_init: "sv_ok {} mkSwRecv"
  by (simp add: sv_ok_def mkSwRecv_def BUF_SIZE_def)

lemma sv_read_ok [simp]:
  "sv_ok A (sv_read s) = sv_ok A s" "nxt_pkt_expcd (sv_read s) = nxt_pkt_expcd s" "same_ack (sv_read s) = same_ack s"
  by (simp_all add: sv_ok_def sv_read_def)

lemma sv_store_fields [simp]:
  "nxt_pkt_expcd (sv_store i s) = nxt_pkt_expcd s" "same_ack (sv_store i s) = same_ack s"
  by (simp_all add: sv_store_def Let_def)

lemma sv_store_ok:
  assumes "sv_ok A s" "1 \<le> unat i" "unat i < unat (nxt_pkt_expcd s) + 128"
  shows "sv_ok (insert (unat i) A) (sv_store i s)"
proof (cases "i \<ge> nxt_pkt_expcd s")
  case False
  then show ?thesis using assms by (auto simp: sv_ok_def sv_store_def Let_def word_le_nat_alt)
next
  case True
  have s: "(seqbuf s)[slot i := i] ! slot j = j" if "j = i \<or> unat j \<in> A" "nxt_pkt_expcd s \<le> j" for j
  proof (cases "slot j = slot i")
    case True
    have "j = i"
      by (rule slot_inj [OF True, where n = "unat (nxt_pkt_expcd s)"])
        (use assms that \<open>i \<ge> nxt_pkt_expcd s\<close> in \<open>auto simp: sv_ok_def word_le_nat_alt\<close>)
    then show ?thesis using assms(1) slot_less [of i] by (simp add: sv_ok_def)
  next
    case False
    then have "j \<noteq> i" by blast
    then show ?thesis using assms(1) that False by (auto simp: sv_ok_def)
  qed
  have "seqbuf (sv_store i s) ! slot j = j" if "unat j \<in> insert (unat i) A" "nxt_pkt_expcd s \<le> j" for j
  proof -
    have "j = i \<or> unat j \<in> A" using that(1) by (auto dest: unsigned_word_eqI)
    then show ?thesis using s that(2) True by (simp add: sv_store_def Let_def)
  qed
  moreover have "seqbuf (sv_store i s) = (seqbuf s)[slot i := i]" using True by (simp add: sv_store_def Let_def)
  moreover have "(seqbuf s)[slot i := i] ! j = 0 \<or> unat ((seqbuf s)[slot i := i] ! j) \<in> insert (unat i) A" if "j < 128" for j
    using assms(1) that by (cases "j = slot i") (auto simp: sv_ok_def)
  ultimately show ?thesis using assms by (simp add: sv_ok_def)
qed

lemma fold_sv_store_ok:
  assumes "sv_ok A s" "\<forall>i \<in> set is. 1 \<le> unat i \<and> unat i < unat (nxt_pkt_expcd s) + 128"
  shows "sv_ok (A \<union> unat ` set is) (fold sv_store is s) \<and> nxt_pkt_expcd (fold sv_store is s) = nxt_pkt_expcd s \<and>
    same_ack (fold sv_store is s) = same_ack s"
  using assms
proof (induction "is" arbitrary: A s)
  case (Cons i "is")
  have "sv_ok (insert (unat i) A) (sv_store i s)" using Cons.prems by (intro sv_store_ok) auto
  then show ?case using Cons.IH [of "insert (unat i) A" "sv_store i s"] Cons.prems by simp
qed simp

section \<open>Progress\<close>

text \<open>What the server expects next, as a function of what has arrived and the count of repetitions.\<close>

definition sv_next :: "nat set \<Rightarrow> nat \<Rightarrow> nat \<Rightarrow> nat \<Rightarrow> nat \<Rightarrow> bool" where
  "sv_next A n c n' c' \<longleftrightarrow>
     (if n \<in> A then n < n' \<and> {n..<n'} \<subseteq> A \<and> n' \<notin> A \<and> c' = c
      else if c = 9 then n' = n + 1 \<and> c' = 0
      else n' = n \<and> c' = c + 1)"

lemma sv_progress_ok:
  assumes "sv_ok A s" "unat (nxt_pkt_expcd s) < 2 ^ 31"
  obtains s' where "sv_progress s = Some s'" "sv_ok A s'"
    "sv_next A (unat (nxt_pkt_expcd s)) (unat (same_ack s)) (unat (nxt_pkt_expcd s')) (unat (same_ack s'))"
proof -
  define x where "x = nxt_pkt_expcd s"
  obtain n where n: "n \<le> 128" "sv_advance (seqbuf s) x = Some (x + of_nat n)"
    "seqbuf s ! slot (x + of_nat n) \<noteq> x + of_nat n"
    "\<And>j. j < n \<Longrightarrow> seqbuf s ! slot (x + of_nat j) = x + of_nat j"
    using sv_advance_ends [of "seqbuf s" x] by blast
  have u: "unat (x + of_nat j) = unat x + j" if "j \<le> 128" for j
  proof -
    have "unat (of_nat j :: u32) = j" using that by (simp add: unat_of_nat take_bit_nat_eq_self)
    then show ?thesis using that assms(2) by (subst unat_add_32) (simp_all add: x_def)
  qed
  have ok: "1 \<le> unat x" "length (seqbuf s) = 128" "unat (same_ack s) < 10" "\<forall>m \<in> A. 1 \<le> m \<and> m < unat x + 128"
    "\<And>j. j < 128 \<Longrightarrow> seqbuf s ! j = 0 \<or> unat (seqbuf s ! j) \<in> A"
    "\<And>i. \<lbrakk>unat i \<in> A; unat x \<le> unat i\<rbrakk> \<Longrightarrow> seqbuf s ! slot i = i"
    using assms(1) by (auto simp: sv_ok_def x_def word_le_nat_alt)
  have inA: "unat x + j \<in> A" if "j < n" for j
  proof -
    have p: "0 < unat (x + of_nat j)" using u [of j] that n(1) ok(1) by simp
    then have "x + of_nat j \<noteq> 0" by (metis unat_eq_zero less_irrefl)
    then have "unat (x + of_nat j) \<in> A" using ok(5) [OF slot_less, of "x + of_nat j"] n(4) [OF that] by auto
    then show ?thesis using u [of j] that n(1) by simp
  qed
  have notA: "unat x + n \<notin> A" using ok(6) [of "x + of_nat n"] n(1,3) u [of n] by auto
  have set: "{unat x..<unat x + n} \<subseteq> A"
  proof
    fix m
    assume "m \<in> {unat x..<unat x + n}"
    then have "unat x + (m - unat x) = m" "m - unat x < n" by auto
    then show "m \<in> A" using inA [of "m - unat x"] by simp
  qed
  have moved: "sv_ok A t"
    if "nxt_pkt_expcd t = y" "unat x \<le> unat y" "seqbuf t = seqbuf s" "unat (same_ack t) < 10" for t y
    using that ok by (auto simp: sv_ok_def word_le_nat_alt)
  show ?thesis
  proof (cases "n = 0")
    case False
    let ?t = "s\<lparr>nxt_pkt_expcd := x + of_nat n\<rparr>"
    have ne: "x + of_nat n \<noteq> x" using u [OF n(1)] False by (metis add_cancel_right_right)
    have le9: "\<not> 10 \<le> same_ack s" using ok(3) by (simp add: word_le_nat_alt)
    have "sv_progress s = Some ?t" using n(2) ne le9 by (simp add: sv_progress_def Let_def x_def [symmetric])
    moreover have "sv_ok A ?t" using u [OF n(1)] ok(3) by (intro moved [of ?t "x + of_nat n"]) auto
    moreover have "sv_next A (unat x) (unat (same_ack s)) (unat x + n) (unat (same_ack s))"
      using False inA [of 0] set notA by (simp add: sv_next_def)
    ultimately show ?thesis using that [of ?t] u [OF n(1)] by (simp add: x_def)
  next
    case True
    have sa: "unat (same_ack s + 1) = unat (same_ack s) + 1" using ok(3) by (simp add: unat_word_ariths)
    have u1: "unat (x + 1) = unat x + 1" using u [of 1] by simp
    show ?thesis
    proof (cases "unat (same_ack s) = 9")
      case False
      let ?t = "s\<lparr>same_ack := same_ack s + 1\<rparr>"
      have "\<not> 10 \<le> same_ack s + 1" using ok(3) sa False by (simp add: word_le_nat_alt)
      then have "sv_progress s = Some ?t" using n(2) True by (simp add: sv_progress_def Let_def x_def)
      moreover have "sv_ok A ?t" using ok(3) sa False by (intro moved [of ?t x]) (auto simp: x_def)
      moreover have "sv_next A (unat x) (unat (same_ack s)) (unat x) (unat (same_ack s) + 1)"
        using False True notA by (simp add: sv_next_def)
      ultimately show ?thesis using that [of ?t] sa by (simp add: x_def)
    next
      case nine: True
      let ?t = "s\<lparr>same_ack := 0, nxt_pkt_expcd := x + 1, last_pkt_recvd := max (last_pkt_recvd s) x\<rparr>"
      have "10 \<le> same_ack s + 1" using sa nine by (simp add: word_le_nat_alt)
      then have "sv_progress s = Some ?t" using n(2) True
        by (simp add: sv_progress_def Let_def x_def [symmetric] max_def not_less)
      moreover have "sv_ok A ?t" using u1 by (intro moved [of ?t "x + 1"]) auto
      moreover have "sv_next A (unat x) (unat (same_ack s)) (unat x + 1) 0"
        using nine True notA by (simp add: sv_next_def)
      ultimately show ?thesis using that [of ?t] u1 by (simp add: x_def)
    qed
  qed
qed

section \<open>An iteration\<close>

text \<open>The numbers of the packets of a flow in a burst.\<close>

definition flow_nums :: "dpdk \<Rightarrow> nat \<Rightarrow> mbuf list \<Rightarrow> u32 list" where
  "flow_nums d k pkts = map (\<lambda>p. get_seq (Some p)) (filter (\<lambda>p. verify_pkt d p = k + 1) pkts)"

lemma flow_nums_simps [simp]:
  "flow_nums d k [] = []"
  "flow_nums d k (p # pkts) = (if verify_pkt d p = k + 1 then get_seq (Some p) # flow_nums d k pkts else flow_nums d k pkts)"
  by (simp_all add: flow_nums_def)

lemma sv_packets_ok:
  assumes "length fs = MAX_FLOW_NUM" "length rcvd = MAX_FLOW_NUM" "\<forall>p \<in> set pkts. verify_pkt d p \<le> MAX_FLOW_NUM"
  shows "\<exists>fs' rcvd' r. sv_packets d pkts fs rcvd rfid = Some (fs', rcvd', r) \<and> length fs' = MAX_FLOW_NUM \<and>
    (\<forall>k < MAX_FLOW_NUM. fs' ! k = fold sv_store (flow_nums d k pkts) (fs ! k) \<and>
      rcvd' ! k = (rcvd ! k \<or> flow_nums d k pkts \<noteq> [])) \<and>
    (r = rfid \<or> r < MAX_FLOW_NUM) \<and>
    ((\<exists>p \<in> set pkts. verify_pkt d p \<noteq> 0) \<longrightarrow> r < MAX_FLOW_NUM)"
  using assms
proof (induction pkts arbitrary: fs rcvd rfid)
  case (Cons p pkts)
  let ?v = "verify_pkt d p"
  show ?case
  proof (cases "?v = 0")
    case True
    then show ?thesis using Cons.IH [of fs rcvd rfid] Cons.prems by simp
  next
    case False
    then have v: "?v - 1 < MAX_FLOW_NUM" "?v - 1 \<noteq> STOP_FLOW_ID"
      using Cons.prems(3) by (auto simp: MAX_FLOW_NUM_def STOP_FLOW_ID_def)
    let ?fs = "fs[?v - 1 := sv_store (get_seq (Some p)) (fs ! (?v - 1))]" and ?rcvd = "rcvd[?v - 1 := True]"
    obtain fs' rcvd' r where r: "sv_packets d pkts ?fs ?rcvd (?v - 1) = Some (fs', rcvd', r)"
      "length fs' = MAX_FLOW_NUM"
      "\<And>k. k < MAX_FLOW_NUM \<Longrightarrow> fs' ! k = fold sv_store (flow_nums d k pkts) (?fs ! k)"
      "\<And>k. k < MAX_FLOW_NUM \<Longrightarrow> rcvd' ! k = (?rcvd ! k \<or> flow_nums d k pkts \<noteq> [])" "r < MAX_FLOW_NUM"
      using Cons.IH [of ?fs ?rcvd "?v - 1"] Cons.prems v(1) by auto
    have e: "sv_packets d (p # pkts) fs rcvd rfid = Some (fs', rcvd', r)"
      using r(1) False v Cons.prems(1) by (simp add: Let_def)
    have i: "(?v = k + 1) = (k = ?v - 1)" for k using False by auto
    have "fs' ! k = fold sv_store (flow_nums d k (p # pkts)) (fs ! k) \<and>
      rcvd' ! k = (rcvd ! k \<or> flow_nums d k (p # pkts) \<noteq> [])" if "k < MAX_FLOW_NUM" for k
      using r(3,4) [OF that] that v(1) Cons.prems(1,2) unfolding flow_nums_simps i by (cases "k = ?v - 1") simp_all
    then show ?thesis using e r(2,5) False by auto
  qed
qed simp

text \<open>The loop over the flows that have received something.\<close>

lemma sv_replies_ok:
  assumes "distinct ks" "set ks \<subseteq> {..<length fs}"
    "\<And>k. \<lbrakk>k \<in> set ks; rcvd ! k\<rbrakk> \<Longrightarrow> \<exists>s'. sv_progress (fs ! k) = Some s' \<and> P k s'"
  shows "\<exists>fs' acks. sv_replies d m w rcvd ks fs = Some (fs', acks) \<and> length fs' = length fs \<and>
    (\<forall>k \<in> set ks. rcvd ! k \<longrightarrow> P k (fs' ! k) \<and> (\<exists>q \<in> set acks.
      construct_ack d (mem_alias m k) (mem_freed m k) (mem_new m k) k (nxt_pkt_expcd (fs' ! k) - 1) w = Some q)) \<and>
    (\<forall>k. k \<in> set ks \<and> rcvd ! k \<or> fs' ! k = fs ! k) \<and>
    (\<forall>q \<in> set acks. \<exists>k \<in> set ks. rcvd ! k \<and>
      construct_ack d (mem_alias m k) (mem_freed m k) (mem_new m k) k (nxt_pkt_expcd (fs' ! k) - 1) w = Some q)"
  using assms
proof (induction ks arbitrary: fs)
  case (Cons k ks)
  show ?case
  proof (cases "rcvd ! k")
    case False
    have "set ks \<subseteq> {..<length fs}" "distinct ks" using Cons.prems by auto
    then obtain fs' acks where "sv_replies d m w rcvd ks fs = Some (fs', acks)" "length fs' = length fs"
      "\<forall>k \<in> set ks. rcvd ! k \<longrightarrow> P k (fs' ! k) \<and> (\<exists>q \<in> set acks.
        construct_ack d (mem_alias m k) (mem_freed m k) (mem_new m k) k (nxt_pkt_expcd (fs' ! k) - 1) w = Some q)"
      "\<forall>k. k \<in> set ks \<and> rcvd ! k \<or> fs' ! k = fs ! k"
      "\<forall>q \<in> set acks. \<exists>k \<in> set ks. rcvd ! k \<and>
        construct_ack d (mem_alias m k) (mem_freed m k) (mem_new m k) k (nxt_pkt_expcd (fs' ! k) - 1) w = Some q"
      using Cons.IH [of fs] Cons.prems(3) by auto
    then show ?thesis using False by auto
  next
    case True
    obtain s' where s': "sv_progress (fs ! k) = Some s'" "P k s'" using Cons.prems(3) [of k] True by auto
    let ?fs = "fs[k := s']"
    have n: "?fs ! j = fs ! j" if "j \<in> set ks" for j
      using that Cons.prems(1) by (intro nth_list_update_neq) auto
    have "set ks \<subseteq> {..<length ?fs}" "distinct ks" using Cons.prems by auto
    then obtain fs' acks where o: "sv_replies d m w rcvd ks ?fs = Some (fs', acks)" "length fs' = length fs"
      "\<forall>k \<in> set ks. rcvd ! k \<longrightarrow> P k (fs' ! k) \<and> (\<exists>q \<in> set acks.
        construct_ack d (mem_alias m k) (mem_freed m k) (mem_new m k) k (nxt_pkt_expcd (fs' ! k) - 1) w = Some q)"
      "\<forall>k. k \<in> set ks \<and> rcvd ! k \<or> fs' ! k = ?fs ! k"
      "\<forall>q \<in> set acks. \<exists>k \<in> set ks. rcvd ! k \<and>
        construct_ack d (mem_alias m k) (mem_freed m k) (mem_new m k) k (nxt_pkt_expcd (fs' ! k) - 1) w = Some q"
      using Cons.IH [of ?fs] Cons.prems(3) n by auto
    have k: "k < length fs" "k \<notin> set ks" using Cons.prems(1,2) by auto
    then have fk: "fs' ! k = s'" using o(4) by auto
    obtain q where q: "construct_ack d (mem_alias m k) (mem_freed m k) (mem_new m k) k (nxt_pkt_expcd s' - 1) w = Some q"
      by (rule construct_ack_fields)
    have "sv_replies d m w rcvd (k # ks) fs = Some (fs', q # acks)" using True s'(1) q o(1) by simp
    moreover have "\<forall>j. j \<in> set (k # ks) \<and> rcvd ! j \<or> fs' ! j = fs ! j"
    proof
      fix j
      show "j \<in> set (k # ks) \<and> rcvd ! j \<or> fs' ! j = fs ! j" using spec [OF o(4), of j] True by (cases "j = k") auto
    qed
    ultimately show ?thesis using o(2,3,5) s'(2) q fk True by auto
  qed
qed simp

lemma sv_iteration_ok:
  assumes "length fs = MAX_FLOW_NUM"
    "\<forall>k < MAX_FLOW_NUM. sv_ok (A k) (fs ! k) \<and> unat (nxt_pkt_expcd (fs ! k)) < 2 ^ 31"
    "\<forall>p \<in> set pkts. verify_pkt d p \<le> MAX_FLOW_NUM \<and>
      (verify_pkt d p \<noteq> 0 \<longrightarrow> 1 \<le> unat (sent_seq p) \<and>
        unat (sent_seq p) < unat (nxt_pkt_expcd (fs ! (verify_pkt d p - 1))) + 128)"
  obtains stop fs' acks where "sv_iteration d m diff rfid0 pkts fs = Some (stop, fs', acks)" "length fs' = MAX_FLOW_NUM"
    "stop \<longrightarrow> rfid0 = STOP_FLOW_ID \<and> (\<forall>p \<in> set pkts. verify_pkt d p = 0)"
    "\<forall>k < MAX_FLOW_NUM. \<not> stop \<longrightarrow> sv_ok (A k \<union> unat ` set (flow_nums d k pkts)) (fs' ! k) \<and>
       (if flow_nums d k pkts = []
        then nxt_pkt_expcd (fs' ! k) = nxt_pkt_expcd (fs ! k) \<and> same_ack (fs' ! k) = same_ack (fs ! k)
        else sv_next (A k \<union> unat ` set (flow_nums d k pkts)) (unat (nxt_pkt_expcd (fs ! k))) (unat (same_ack (fs ! k)))
            (unat (nxt_pkt_expcd (fs' ! k))) (unat (same_ack (fs' ! k))) \<and>
          (\<exists>q \<in> set acks. construct_ack d (mem_alias m k) (mem_freed m k) (mem_new m k) k
            (nxt_pkt_expcd (fs' ! k) - 1) (of_nat BUF_SIZE - diff) = Some q))"
    "\<forall>q \<in> set acks. \<exists>k < MAX_FLOW_NUM. flow_nums d k pkts \<noteq> [] \<and> construct_ack d (mem_alias m k) (mem_freed m k) (mem_new m k) k
       (nxt_pkt_expcd (fs' ! k) - 1) (of_nat BUF_SIZE - diff) = Some q"
proof (cases "pkts = []")
  case True
  show ?thesis by (rule that [of False "map sv_read fs" "[]"]) (use True assms in \<open>simp_all add: sv_iteration_def Let_def\<close>)
next
  case False
  obtain fs1 rcvd r where r: "sv_packets d pkts (map sv_read fs) (replicate MAX_FLOW_NUM False) rfid0 = Some (fs1, rcvd, r)"
    "length fs1 = MAX_FLOW_NUM"
    "\<And>k. k < MAX_FLOW_NUM \<Longrightarrow> fs1 ! k = fold sv_store (flow_nums d k pkts) (sv_read (fs ! k))"
    "\<And>k. k < MAX_FLOW_NUM \<Longrightarrow> rcvd ! k = (flow_nums d k pkts \<noteq> [])"
    "r = rfid0 \<or> r < MAX_FLOW_NUM" "(\<exists>p \<in> set pkts. verify_pkt d p \<noteq> 0) \<Longrightarrow> r < MAX_FLOW_NUM"
    using sv_packets_ok [of "map sv_read fs" "replicate MAX_FLOW_NUM False" pkts d rfid0] assms(1,3) by auto
  show ?thesis
  proof (cases "r = STOP_FLOW_ID")
    case True
    then have ge: "\<not> r < MAX_FLOW_NUM" by (simp add: STOP_FLOW_ID_def MAX_FLOW_NUM_def)
    then have "\<forall>p \<in> set pkts. verify_pkt d p = 0" using r(6) by blast
    then show ?thesis
      by (intro that [of True fs1 "[]"])
        (use True False ge r(1,2,5) in \<open>auto simp: sv_iteration_def Let_def\<close>)
  next
    case nostop: False
    define B where "B k = A k \<union> unat ` set (flow_nums d k pkts)" for k
    have st: "sv_ok (B k) (fs1 ! k) \<and> nxt_pkt_expcd (fs1 ! k) = nxt_pkt_expcd (fs ! k) \<and> same_ack (fs1 ! k) = same_ack (fs ! k)"
      if k: "k < MAX_FLOW_NUM" for k
    proof -
      have "\<forall>i \<in> set (flow_nums d k pkts). 1 \<le> unat i \<and> unat i < unat (nxt_pkt_expcd (sv_read (fs ! k))) + 128"
        using assms(3) by (auto simp: flow_nums_def get_seq_def)
      moreover have "sv_ok (A k) (sv_read (fs ! k))" using assms(2) k by simp
      ultimately show ?thesis
        using fold_sv_store_ok [of "A k" "sv_read (fs ! k)" "flow_nums d k pkts"] r(3) [OF k] unfolding B_def by simp
    qed
    let ?P = "\<lambda>k s'. sv_ok (B k) s' \<and> sv_next (B k) (unat (nxt_pkt_expcd (fs ! k))) (unat (same_ack (fs ! k)))
          (unat (nxt_pkt_expcd s')) (unat (same_ack s'))"
    have pr: "\<exists>s'. sv_progress (fs1 ! k) = Some s' \<and> ?P k s'" if k: "k < MAX_FLOW_NUM" for k
    proof -
      obtain s' where "sv_progress (fs1 ! k) = Some s'" "sv_ok (B k) s'"
        "sv_next (B k) (unat (nxt_pkt_expcd (fs1 ! k))) (unat (same_ack (fs1 ! k))) (unat (nxt_pkt_expcd s')) (unat (same_ack s'))"
        by (rule sv_progress_ok [of "B k" "fs1 ! k"]) (use st [OF k] assms(2) k in auto)
      then show ?thesis using st [OF k] by auto
    qed
    have sub: "set [0..<MAX_FLOW_NUM] \<subseteq> {..<length fs1}" using r(2) by auto
    obtain fs' acks where o: "sv_replies d m (of_nat BUF_SIZE - diff) rcvd [0..<MAX_FLOW_NUM] fs1 = Some (fs', acks)"
      "length fs' = MAX_FLOW_NUM"
      "\<forall>k \<in> set [0..<MAX_FLOW_NUM]. rcvd ! k \<longrightarrow> ?P k (fs' ! k) \<and> (\<exists>q \<in> set acks.
        construct_ack d (mem_alias m k) (mem_freed m k) (mem_new m k) k (nxt_pkt_expcd (fs' ! k) - 1) (of_nat BUF_SIZE - diff) = Some q)"
      "\<forall>k. k \<in> set [0..<MAX_FLOW_NUM] \<and> rcvd ! k \<or> fs' ! k = fs1 ! k"
      "\<forall>q \<in> set acks. \<exists>k \<in> set [0..<MAX_FLOW_NUM]. rcvd ! k \<and>
        construct_ack d (mem_alias m k) (mem_freed m k) (mem_new m k) k (nxt_pkt_expcd (fs' ! k) - 1) (of_nat BUF_SIZE - diff) = Some q"
      using sv_replies_ok [OF distinct_upt sub, of rcvd ?P d m "of_nat BUF_SIZE - diff"] pr r(2) by auto
    have ok: "sv_ok (B k) (fs' ! k)" if k: "k < MAX_FLOW_NUM" for k
      using o(3) spec [OF o(4), of k] st [OF k] k by (cases "rcvd ! k") auto
    show ?thesis
    proof (rule that [of False fs' acks])
      show "sv_iteration d m diff rfid0 pkts fs = Some (False, fs', acks)"
        using False nostop r(1) o(1) by (simp add: sv_iteration_def Let_def)
      show "\<forall>k < MAX_FLOW_NUM. \<not> False \<longrightarrow> sv_ok (A k \<union> unat ` set (flow_nums d k pkts)) (fs' ! k) \<and>
       (if flow_nums d k pkts = []
        then nxt_pkt_expcd (fs' ! k) = nxt_pkt_expcd (fs ! k) \<and> same_ack (fs' ! k) = same_ack (fs ! k)
        else sv_next (A k \<union> unat ` set (flow_nums d k pkts)) (unat (nxt_pkt_expcd (fs ! k))) (unat (same_ack (fs ! k)))
            (unat (nxt_pkt_expcd (fs' ! k))) (unat (same_ack (fs' ! k))) \<and>
          (\<exists>q \<in> set acks. construct_ack d (mem_alias m k) (mem_freed m k) (mem_new m k) k
            (nxt_pkt_expcd (fs' ! k) - 1) (of_nat BUF_SIZE - diff) = Some q))"
        unfolding B_def [symmetric]
      proof (intro allI impI conjI)
        fix k
        assume k: "k < MAX_FLOW_NUM"
        show "sv_ok (B k) (fs' ! k)" by (rule ok [OF k])
        show "if flow_nums d k pkts = []
          then nxt_pkt_expcd (fs' ! k) = nxt_pkt_expcd (fs ! k) \<and> same_ack (fs' ! k) = same_ack (fs ! k)
          else sv_next (B k) (unat (nxt_pkt_expcd (fs ! k))) (unat (same_ack (fs ! k)))
              (unat (nxt_pkt_expcd (fs' ! k))) (unat (same_ack (fs' ! k))) \<and>
            (\<exists>q \<in> set acks. construct_ack d (mem_alias m k) (mem_freed m k) (mem_new m k) k
              (nxt_pkt_expcd (fs' ! k) - 1) (of_nat BUF_SIZE - diff) = Some q)"
        proof (cases "rcvd ! k")
          case True
          then show ?thesis using o(3) r(4) [OF k] k by simp
        next
          case False
          then have "fs' ! k = fs1 ! k" using o(4) by blast
          then show ?thesis using False r(4) [OF k] st [OF k] by simp
        qed
      qed
      show "\<forall>q \<in> set acks. \<exists>k < MAX_FLOW_NUM. flow_nums d k pkts \<noteq> [] \<and> construct_ack d (mem_alias m k) (mem_freed m k) (mem_new m k) k
         (nxt_pkt_expcd (fs' ! k) - 1) (of_nat BUF_SIZE - diff) = Some q"
        using o(5) r(4) unfolding set_upt by (meson atLeastLessThan_iff)
    qed (simp_all add: o(2))
  qed
qed

end
