(* ===== verification/SwSystem.thy ===== *)
theory SwSystem
  imports SwServerProps
begin

text \<open>
  The two sliding window programs and the network between them. The network loses, duplicates and reorders:
  it is the set of the packets it can still deliver, from which each burst takes what it wants, as often as it
  wants, and in a step of its own it loses any of them for good. Packets of
  others may arrive too, as long as the receiver rejects them. Beside the states of the programs the system
  has, for each flow, the numbers that have \<open>arrived\<close> and the number of \<open>stalls\<close>: bursts with packets of the
  flow after which the packet the server waits for has still not arrived.
\<close>

section \<open>The system\<close>

record sw_sys =
  cl_flows :: "sw_send list"
  sv_flows :: "sw_recv list"
  data_net :: "mbuf set"
  ack_net :: "mbuf set"
  arrived :: "nat \<Rightarrow> nat set"
  stalls :: "nat \<Rightarrow> nat"

definition sw_init :: sw_sys where
  "sw_init = \<lparr>cl_flows = replicate MAX_FLOW_NUM mkSwSend, sv_flows = replicate MAX_FLOW_NUM mkSwRecv,
     data_net = {}, ack_net = {}, arrived = (\<lambda>k. {}), stalls = (\<lambda>k. 0)\<rparr>"

abbreviation sw_server :: "dpdk \<Rightarrow> dpdk" where
  "sw_server d \<equiv> d\<lparr>my_eth := server_mac\<rparr>"

text \<open>The packets a program can receive.\<close>

definition for_client :: "dpdk \<Rightarrow> sw_sys \<Rightarrow> mbuf \<Rightarrow> bool" where
  "for_client d y q \<longleftrightarrow> q \<in> ack_net y \<or> (\<forall>a w. fst (parse_packet d q a w) = 0)"

definition for_server :: "dpdk \<Rightarrow> sw_sys \<Rightarrow> mbuf \<Rightarrow> bool" where
  "for_server d y p \<longleftrightarrow> p \<in> data_net y \<or> verify_pkt (sw_server d) p = 0"

definition new_arrived :: "dpdk \<Rightarrow> mbuf list \<Rightarrow> sw_sys \<Rightarrow> nat \<Rightarrow> nat set" where
  "new_arrived d pkts y k = arrived y k \<union> unat ` set (flow_nums (sw_server d) k pkts)"

definition new_stalls :: "dpdk \<Rightarrow> mbuf list \<Rightarrow> sw_sys \<Rightarrow> nat \<Rightarrow> nat" where
  "new_stalls d pkts y k = stalls y k +
     (if flow_nums (sw_server d) k pkts \<noteq> [] \<and> unat (nxt_pkt_expcd (sv_flows y ! k)) \<notin> new_arrived d pkts y k
      then 1 else 0)"

text \<open>
  The steps: the client sends, it receives bursts, the server does an iteration, the network keeps only a
  part \<open>D\<close> of the data and a part \<open>Q\<close> of the acknowledgements. The numbers stay below
  \<open>2\<^sup>3\<^sup>0\<close>, far more than the \<open>2\<^sup>2\<^sup>5\<close> packets that the largest flow has.
\<close>

definition small_nums :: "sw_recv list \<Rightarrow> bool" where
  "small_nums fs \<longleftrightarrow> (\<forall>s \<in> set fs. unat (nxt_pkt_expcd s) < 2 ^ 30)"

inductive sw_step :: "dpdk \<Rightarrow> nat \<Rightarrow> u32 \<Rightarrow> sw_sys \<Rightarrow> sw_sys \<Rightarrow> bool"
  for d :: dpdk and flow_num :: nat and num_ping :: u32 where
  out: "\<lbrakk>cl_running flow_num num_ping (cl_flows y); cl_output clk flow_num num_ping (cl_flows y) = Some (fs, pkts);
     list_all2 (\<lambda>(k, i) p. \<exists>src dst m. construct_pkt d src dst m k i = Some p) pkts ps\<rbrakk> \<Longrightarrow>
     sw_step d flow_num num_ping y (y\<lparr>cl_flows := fs, data_net := data_net y \<union> set ps\<rparr>)"
| inp: "\<lbrakk>\<forall>(tm, qs) \<in> set bursts. \<forall>q \<in> set qs. for_client d y q; cl_bursts d bursts a w (cl_flows y) = Some fs\<rbrakk> \<Longrightarrow>
     sw_step d flow_num num_ping y (y\<lparr>cl_flows := fs\<rparr>)"
| srv: "\<lbrakk>small_nums (sv_flows y); \<forall>p \<in> set pkts. for_server d y p;
     sv_iteration (sw_server d) m diff rfid0 pkts (sv_flows y) = Some (False, fs, acks)\<rbrakk> \<Longrightarrow>
     sw_step d flow_num num_ping y (y\<lparr>sv_flows := fs, ack_net := ack_net y \<union> set acks,
       arrived := new_arrived d pkts y, stalls := new_stalls d pkts y\<rparr>)"
| lose: "\<lbrakk>D \<subseteq> data_net y; Q \<subseteq> ack_net y\<rbrakk> \<Longrightarrow> sw_step d flow_num num_ping y (y\<lparr>data_net := D, ack_net := Q\<rparr>)"

inductive sw_reach :: "dpdk \<Rightarrow> nat \<Rightarrow> u32 \<Rightarrow> sw_sys \<Rightarrow> bool"
  for d :: dpdk and flow_num :: nat and num_ping :: u32 where
  init: "sw_reach d flow_num num_ping sw_init"
| step: "\<lbrakk>sw_reach d flow_num num_ping y; sw_step d flow_num num_ping y y'\<rbrakk> \<Longrightarrow> sw_reach d flow_num num_ping y'"

lemma sw_steps_reach: "\<lbrakk>(sw_step d flow_num np)\<^sup>*\<^sup>* y y'; sw_reach d flow_num np y\<rbrakk> \<Longrightarrow> sw_reach d flow_num np y'"
  by (induction rule: rtranclp_induct) (auto intro: sw_reach.step)

section \<open>The invariant\<close>

text \<open>Of the numbers below \<open>n\<close> those that have not arrived.\<close>

definition missing :: "nat set \<Rightarrow> nat \<Rightarrow> nat" where
  "missing A n = card ({1..<n} - A)"

definition flow_ok :: "sw_send \<Rightarrow> sw_recv \<Rightarrow> nat set \<Rightarrow> nat \<Rightarrow> bool" where
  "flow_ok c s A n \<longleftrightarrow> cl_ok c \<and> sv_ok A s \<and> unat (last_pkt_acked c) < unat (nxt_pkt_expcd s) \<and>
     unat (nxt_pkt_expcd s) \<le> 2 ^ 31 \<and> (\<forall>i \<in> A. i \<le> unat (last_pkt_sent c)) \<and>
     missing A (unat (nxt_pkt_expcd s)) * 10 + unat (same_ack s) \<le> n \<and> (n < 10 \<longrightarrow> unat (nxt_pkt_expcd s) \<notin> A)"

definition sw_inv :: "dpdk \<Rightarrow> nat \<Rightarrow> sw_sys \<Rightarrow> bool" where
  "sw_inv d flow_num y \<longleftrightarrow> length (cl_flows y) = MAX_FLOW_NUM \<and> length (sv_flows y) = MAX_FLOW_NUM \<and>
     (\<forall>k < MAX_FLOW_NUM. flow_ok (cl_flows y ! k) (sv_flows y ! k) (arrived y k) (stalls y k)) \<and>
     (\<forall>p \<in> data_net y. \<exists>k < flow_num. \<exists>i src dst m. construct_pkt d src dst m k i = Some p \<and>
        1 \<le> unat i \<and> unat i \<le> unat (last_pkt_sent (cl_flows y ! k))) \<and>
     (\<forall>q \<in> ack_net y. \<exists>k < MAX_FLOW_NUM. dst_port q = cpu_to_be_16 d (of_nat (5001 + k)) \<and>
        unat (recv_ack q) < unat (nxt_pkt_expcd (sv_flows y ! k)))"

lemma missing_mono: "A \<subseteq> B \<Longrightarrow> missing B n \<le> missing A n"
  by (auto simp: missing_def intro: card_mono)

lemma missing_next:
  assumes "sv_next A n c n' c'" "1 \<le> n"
  shows "missing A n' * 10 + c' \<le> missing A n * 10 + c + (if n \<in> A then 0 else 1)" "n \<le> n'"
    "n \<in> A \<Longrightarrow> n' \<notin> A" "n \<notin> A \<Longrightarrow> c' \<noteq> 0 \<Longrightarrow> n' = n"
proof -
  have "missing A n' \<le> missing A n" if "n \<in> A"
  proof -
    have "n \<le> n'" "{n..<n'} \<subseteq> A" using assms that by (auto simp: sv_next_def)
    then have "{1..<n'} - A \<subseteq> {1..<n} - A" using assms(2) by (auto simp: not_less subset_iff)
    then show ?thesis by (auto simp: missing_def intro: card_mono)
  qed
  moreover have "missing A (n + 1) \<le> missing A n + 1"
  proof -
    have "{1..<n + 1} - A \<subseteq> insert n ({1..<n} - A)" by auto
    then have "card ({1..<n + 1} - A) \<le> card (insert n ({1..<n} - A))" by (intro card_mono) auto
    also have "\<dots> \<le> card ({1..<n} - A) + 1" by (simp add: card_insert_if)
    finally show ?thesis by (simp add: missing_def)
  qed
  ultimately show "missing A n' * 10 + c' \<le> missing A n * 10 + c + (if n \<in> A then 0 else 1)"
    using assms(1) by (auto simp: sv_next_def split: if_splits)
  show "n \<le> n'" "n \<in> A \<Longrightarrow> n' \<notin> A" "n \<notin> A \<Longrightarrow> c' \<noteq> 0 \<Longrightarrow> n' = n"
    using assms(1) by (auto simp: sv_next_def split: if_splits)
qed

lemma sw_init_inv: "sw_inv d flow_num sw_init"
  using cl_ok_init sv_ok_init by (simp add: sw_inv_def sw_init_def flow_ok_def missing_def mkSwSend_def mkSwRecv_def)

lemma sw_invD:
  assumes "sw_inv d flow_num y"
  shows "length (cl_flows y) = MAX_FLOW_NUM" "length (sv_flows y) = MAX_FLOW_NUM"
    "k < MAX_FLOW_NUM \<Longrightarrow> flow_ok (cl_flows y ! k) (sv_flows y ! k) (arrived y k) (stalls y k)"
  using assms by (auto simp: sw_inv_def)

text \<open>What the programs read of the packets in the network.\<close>

lemma for_client_bound:
  assumes "byte_order d" "sw_inv d flow_num y" "for_client d y q"
  shows "ack_bound d (\<lambda>k. unat (nxt_pkt_expcd (sv_flows y ! k)) - 1) MAX_FLOW_NUM q"
proof (cases "q \<in> ack_net y \<and> is_tcp_for_me d q")
  case True
  obtain k where k: "k < MAX_FLOW_NUM" "dst_port q = cpu_to_be_16 d (of_nat (5001 + k))"
    "unat (recv_ack q) < unat (nxt_pkt_expcd (sv_flows y ! k))"
    using True assms(2) unfolding sw_inv_def by blast
  have "parse_packet d q a w = (k + 1, recv_ack q, ucast (rx_win q))" for a w
    using k True assms(1) by (intro port_flow_8(2)) (simp_all add: MAX_FLOW_NUM_def)
  then show ?thesis using k(1,3) by (auto simp: ack_bound_def)
next
  case False
  then have "fst (parse_packet d q a w) = 0" for a w
    using assms(3) by (auto simp: for_client_def parse_packet_def)
  then show ?thesis unfolding ack_bound_def by (metis fst_conv)
qed

lemma for_server_ok:
  assumes "byte_order d" "sw_inv d flow_num y" "flow_num \<le> MAX_FLOW_NUM" "for_server d y p"
  shows "verify_pkt (sw_server d) p = 0 \<or> (\<exists>k < flow_num. verify_pkt (sw_server d) p = k + 1 \<and> 1 \<le> unat (sent_seq p) \<and>
    unat (sent_seq p) \<le> unat (last_pkt_sent (cl_flows y ! k)) \<and>
    unat (sent_seq p) < unat (nxt_pkt_expcd (sv_flows y ! k)) + 128)"
proof (cases "p \<in> data_net y")
  case True
  then obtain k i src dst m where k: "k < flow_num" "construct_pkt d src dst m k i = Some p" "1 \<le> unat i"
    "unat i \<le> unat (last_pkt_sent (cl_flows y ! k))" using assms(2) unfolding sw_inv_def by blast
  have k8: "k < 8" using k(1) assms(3) by (simp add: MAX_FLOW_NUM_def)
  have "flow_ok (cl_flows y ! k) (sv_flows y ! k) (arrived y k) (stalls y k)"
    using sw_invD(3) [OF assms(2)] k(1) assms(3) by simp
  then have "unat i < unat (nxt_pkt_expcd (sv_flows y ! k)) + 128" using k(4) by (auto simp: flow_ok_def cl_ok_def)
  then show ?thesis using construct_pkt_verified [OF assms(1) k8 k(2)] k by auto
next
  case False
  then show ?thesis using assms(4) by (simp add: for_server_def)
qed

end
