(* ===== verification/SwSystemProps.thy ===== *)
theory SwSystemProps
  imports SwSystem
begin

text \<open>
  The sliding window programs together: every reachable state keeps the invariant, no step fails, and how far
  an acknowledgement can be trusted.
\<close>

section \<open>The steps\<close>

lemma out_ok:
  assumes "sw_inv d flow_num y" "flow_num \<le> MAX_FLOW_NUM"
  obtains fs pkts where "cl_output clk flow_num np (cl_flows y) = Some (fs, pkts)" "length fs = MAX_FLOW_NUM"
    "\<forall>k < MAX_FLOW_NUM. cl_ok (fs ! k) \<and> last_pkt_acked (fs ! k) = last_pkt_acked (cl_flows y ! k) \<and>
       unat (last_pkt_sent (cl_flows y ! k)) \<le> unat (last_pkt_sent (fs ! k))"
    "\<forall>k i. (k, i) \<in> set pkts \<longrightarrow> k < flow_num \<and> 1 \<le> unat i \<and> unat i \<le> unat (last_pkt_sent (fs ! k))"
proof -
  note found = that
  have a: "flow_num \<le> length (cl_flows y)" "\<forall>k < length (cl_flows y). cl_ok (cl_flows y ! k)"
    using assms sw_invD [OF assms(1)] by (auto simp: flow_ok_def)
  show ?thesis
  proof (rule cl_output_ok [OF a, of clk np], goal_cases)
    case (1 fs pkts)
    show ?thesis
      by (rule found [OF 1(1)]) (use 1(2) sw_invD(1) [OF assms(1)] in simp, use 1(3) sw_invD(1) [OF assms(1)] in simp, use 1(4) in blast)
  qed
qed

lemma inp_ok:
  assumes "byte_order d" "sw_inv d flow_num y" "\<forall>(tm, qs) \<in> set bursts. \<forall>q \<in> set qs. for_client d y q"
  obtains fs where "cl_bursts d bursts a w (cl_flows y) = Some fs" "length fs = MAX_FLOW_NUM"
    "\<forall>k < MAX_FLOW_NUM. cl_step_ok (unat (nxt_pkt_expcd (sv_flows y ! k)) - 1) (cl_flows y ! k) (fs ! k)"
proof -
  let ?N = "\<lambda>k. unat (nxt_pkt_expcd (sv_flows y ! k)) - 1"
  have l: "length (cl_flows y) = MAX_FLOW_NUM" using sw_invD(1) [OF assms(2)] .
  have "cl_ok (cl_flows y ! k) \<and> ?N k \<le> 2 ^ 31" if "k < length (cl_flows y)" for k
    using sw_invD(3) [OF assms(2), of k] that l by (auto simp: flow_ok_def)
  moreover have "\<forall>(tm, qs) \<in> set bursts. \<forall>q \<in> set qs. ack_bound d ?N (length (cl_flows y)) q"
    using assms(3) for_client_bound [OF assms(1,2)] l by auto
  ultimately show ?thesis using cl_bursts_ok [of "cl_flows y" ?N bursts d a w] that l by auto
qed

lemma srv_ok:
  assumes "byte_order d" "sw_inv d flow_num y" "flow_num \<le> MAX_FLOW_NUM" "small_nums (sv_flows y)"
    "\<forall>p \<in> set pkts. for_server d y p"
  obtains stop fs acks where "sv_iteration (sw_server d) m diff rfid0 pkts (sv_flows y) = Some (stop, fs, acks)"
    "length fs = MAX_FLOW_NUM" "stop \<longrightarrow> rfid0 = STOP_FLOW_ID \<and> (\<forall>p \<in> set pkts. verify_pkt (sw_server d) p = 0)"
    "\<forall>k < MAX_FLOW_NUM. \<not> stop \<longrightarrow> sv_ok (new_arrived d pkts y k) (fs ! k) \<and>
       (if flow_nums (sw_server d) k pkts = []
        then nxt_pkt_expcd (fs ! k) = nxt_pkt_expcd (sv_flows y ! k) \<and> same_ack (fs ! k) = same_ack (sv_flows y ! k)
        else sv_next (new_arrived d pkts y k) (unat (nxt_pkt_expcd (sv_flows y ! k))) (unat (same_ack (sv_flows y ! k)))
            (unat (nxt_pkt_expcd (fs ! k))) (unat (same_ack (fs ! k))) \<and>
          (\<exists>q \<in> set acks. construct_ack (sw_server d) (mem_alias m k) (mem_freed m k) (mem_new m k) k
            (nxt_pkt_expcd (fs ! k) - 1) (of_nat BUF_SIZE - diff) = Some q))"
    "\<forall>q \<in> set acks. \<exists>k < MAX_FLOW_NUM. flow_nums (sw_server d) k pkts \<noteq> [] \<and> construct_ack (sw_server d) (mem_alias m k) (mem_freed m k) (mem_new m k) k
       (nxt_pkt_expcd (fs ! k) - 1) (of_nat BUF_SIZE - diff) = Some q"
proof -
  have l: "length (sv_flows y) = MAX_FLOW_NUM" using sw_invD(2) [OF assms(2)] .
  have a: "\<forall>k < MAX_FLOW_NUM. sv_ok (arrived y k) (sv_flows y ! k) \<and> unat (nxt_pkt_expcd (sv_flows y ! k)) < 2 ^ 31"
  proof (intro allI impI)
    fix k
    assume k: "k < MAX_FLOW_NUM"
    then have "unat (nxt_pkt_expcd (sv_flows y ! k)) < 2 ^ 30" using assms(4) l by (auto simp: small_nums_def)
    then show "sv_ok (arrived y k) (sv_flows y ! k) \<and> unat (nxt_pkt_expcd (sv_flows y ! k)) < 2 ^ 31"
      using sw_invD(3) [OF assms(2) k] by (auto simp: flow_ok_def)
  qed
  have b: "\<forall>p \<in> set pkts. verify_pkt (sw_server d) p \<le> MAX_FLOW_NUM \<and>
      (verify_pkt (sw_server d) p \<noteq> 0 \<longrightarrow> 1 \<le> unat (sent_seq p) \<and>
        unat (sent_seq p) < unat (nxt_pkt_expcd (sv_flows y ! (verify_pkt (sw_server d) p - 1))) + 128)"
  proof
    fix p
    assume "p \<in> set pkts"
    then have "for_server d y p" using assms(5) by blast
    from for_server_ok [OF assms(1-3) this] assms(3) show "verify_pkt (sw_server d) p \<le> MAX_FLOW_NUM \<and>
      (verify_pkt (sw_server d) p \<noteq> 0 \<longrightarrow> 1 \<le> unat (sent_seq p) \<and>
        unat (sent_seq p) < unat (nxt_pkt_expcd (sv_flows y ! (verify_pkt (sw_server d) p - 1))) + 128)" by auto
  qed
  show ?thesis
    by (rule sv_iteration_ok [OF l a b, of m diff rfid0]) (rule that [unfolded new_arrived_def])
qed

lemma flow_ok_client:
  assumes "flow_ok c s A n" "cl_ok c'" "unat (last_pkt_acked c') < unat (nxt_pkt_expcd s)"
    "unat (last_pkt_sent c) \<le> unat (last_pkt_sent c')"
  shows "flow_ok c' s A n"
  using assms by (fastforce simp: flow_ok_def)

lemma sw_inv_client:
  assumes "sw_inv d flow_num y" "flow_num \<le> MAX_FLOW_NUM" "length fs = MAX_FLOW_NUM"
    "\<And>k. k < MAX_FLOW_NUM \<Longrightarrow> cl_ok (fs ! k) \<and>
       unat (last_pkt_acked (fs ! k)) < unat (nxt_pkt_expcd (sv_flows y ! k)) \<and>
       unat (last_pkt_sent (cl_flows y ! k)) \<le> unat (last_pkt_sent (fs ! k))"
    "\<forall>p \<in> P. \<exists>k < flow_num. \<exists>i src dst m. construct_pkt d src dst m k i = Some p \<and>
       1 \<le> unat i \<and> unat i \<le> unat (last_pkt_sent (fs ! k))"
  shows "sw_inv d flow_num (y\<lparr>cl_flows := fs, data_net := data_net y \<union> P\<rparr>)"
proof -
  have "flow_ok (fs ! k) (sv_flows y ! k) (arrived y k) (stalls y k)" if "k < MAX_FLOW_NUM" for k
    using flow_ok_client [OF sw_invD(3) [OF assms(1) that]] assms(4) [OF that] by blast
  moreover have "\<exists>k < flow_num. \<exists>i src dst m. construct_pkt d src dst m k i = Some p \<and>
       1 \<le> unat i \<and> unat i \<le> unat (last_pkt_sent (fs ! k))" if p: "p \<in> data_net y" for p
  proof -
    obtain k i src dst m where k: "k < flow_num" "construct_pkt d src dst m k i = Some p" "1 \<le> unat i"
      "unat i \<le> unat (last_pkt_sent (cl_flows y ! k))" using p assms(1) unfolding sw_inv_def by blast
    then show ?thesis using assms(4) [of k] assms(2) by (meson less_le_trans order_trans)
  qed
  ultimately show ?thesis using assms(1,3,5) by (simp add: sw_inv_def) blast
qed

lemma flow_ok_server:
  assumes "flow_ok c s A n" "A \<subseteq> B" "sv_ok B s'" "\<forall>i \<in> B. i \<le> unat (last_pkt_sent c)"
    "unat (nxt_pkt_expcd s) < 2 ^ 30"
    "if r then sv_next B (unat (nxt_pkt_expcd s)) (unat (same_ack s)) (unat (nxt_pkt_expcd s')) (unat (same_ack s'))
     else nxt_pkt_expcd s' = nxt_pkt_expcd s \<and> same_ack s' = same_ack s \<and> B = A"
  shows "flow_ok c s' B (n + (if r \<and> unat (nxt_pkt_expcd s) \<notin> B then 1 else 0))"
    "unat (nxt_pkt_expcd s) \<le> unat (nxt_pkt_expcd s')"
proof -
  let ?x = "unat (nxt_pkt_expcd s)" and ?x' = "unat (nxt_pkt_expcd s')"
  have x: "1 \<le> ?x" using assms(1) by (auto simp: flow_ok_def sv_ok_def)
  have m: "missing B ?x \<le> missing A ?x" using assms(2) by (rule missing_mono)
  have "?x \<le> ?x' \<and> flow_ok c s' B (n + (if r \<and> ?x \<notin> B then 1 else 0))"
  proof (cases r)
    case False
    then show ?thesis using assms by (simp add: flow_ok_def)
  next
    case True
    have nx: "sv_next B ?x (unat (same_ack s)) ?x' (unat (same_ack s'))" using assms(6) True by simp
    note mn = missing_next [OF nx x]
    have c: "missing A ?x * 10 + unat (same_ack s) \<le> n" using assms(1) by (simp add: flow_ok_def)
    have le: "missing B ?x' * 10 + unat (same_ack s') \<le> n + (if ?x \<notin> B then 1 else 0)"
    proof (cases "?x \<in> B")
      case True
      then show ?thesis using mn(1) m c by simp
    next
      case False
      then show ?thesis using mn(1) m c by simp
    qed
    have up: "?x' \<le> 2 ^ 31"
    proof (cases "?x \<in> B")
      case True
      then have "?x' - 1 \<in> {?x..<?x'}" "{?x..<?x'} \<subseteq> B" using nx by (auto simp: sv_next_def)
      then have "?x' - 1 \<le> unat (last_pkt_sent c)" using assms(4) by blast
      then show ?thesis using assms(1,5) by (auto simp: flow_ok_def cl_ok_def)
    next
      case False
      then show ?thesis using nx assms(5) by (auto simp: sv_next_def split: if_splits)
    qed
    have last: "?x' \<notin> B" if few: "n + (if ?x \<notin> B then 1 else 0) < 10"
    proof (cases "?x \<in> B")
      case False
      have "?x' = ?x \<or> unat (same_ack s) = 9" using nx False by (auto simp: sv_next_def split: if_splits)
      then show ?thesis using False c few by auto
    qed (rule mn(3))
    have "flow_ok c s' B (n + (if ?x \<notin> B then 1 else 0))"
      unfolding flow_ok_def using assms(1,3,4) le up last mn(2) by (auto simp: flow_ok_def)
    then show ?thesis using mn(2) True by simp
  qed
  then show "flow_ok c s' B (n + (if r \<and> ?x \<notin> B then 1 else 0))" "?x \<le> ?x'" by blast+
qed

lemma new_arrived_bound:
  assumes "byte_order d" "sw_inv d flow_num y" "flow_num \<le> MAX_FLOW_NUM" "\<forall>p \<in> set pkts. for_server d y p"
    "k < MAX_FLOW_NUM" "i \<in> new_arrived d pkts y k"
  shows "i \<le> unat (last_pkt_sent (cl_flows y ! k))"
proof (cases "i \<in> arrived y k")
  case True
  then show ?thesis using sw_invD(3) [OF assms(2,5)] by (auto simp: flow_ok_def)
next
  case False
  then obtain p where p: "p \<in> set pkts" "verify_pkt (sw_server d) p = k + 1" "i = unat (sent_seq p)"
    using assms(6) by (auto simp: new_arrived_def flow_nums_def get_seq_def)
  then show ?thesis using for_server_ok [OF assms(1-3), of p] assms(4) by auto
qed

lemma sw_inv_server:
  assumes "byte_order d" "sw_inv d flow_num y" "flow_num \<le> MAX_FLOW_NUM" "small_nums (sv_flows y)"
    "\<forall>p \<in> set pkts. for_server d y p"
    "sv_iteration (sw_server d) m diff rfid0 pkts (sv_flows y) = Some (False, fs, acks)"
  shows "sw_inv d flow_num (y\<lparr>sv_flows := fs, ack_net := ack_net y \<union> set acks,
       arrived := new_arrived d pkts y, stalls := new_stalls d pkts y\<rparr>)"
proof -
  obtain stop fs' acks' where r: "sv_iteration (sw_server d) m diff rfid0 pkts (sv_flows y) = Some (stop, fs', acks')"
    "length fs' = MAX_FLOW_NUM" "stop \<longrightarrow> rfid0 = STOP_FLOW_ID \<and> (\<forall>p \<in> set pkts. verify_pkt (sw_server d) p = 0)"
    "\<forall>k < MAX_FLOW_NUM. \<not> stop \<longrightarrow> sv_ok (new_arrived d pkts y k) (fs' ! k) \<and>
       (if flow_nums (sw_server d) k pkts = []
        then nxt_pkt_expcd (fs' ! k) = nxt_pkt_expcd (sv_flows y ! k) \<and> same_ack (fs' ! k) = same_ack (sv_flows y ! k)
        else sv_next (new_arrived d pkts y k) (unat (nxt_pkt_expcd (sv_flows y ! k))) (unat (same_ack (sv_flows y ! k)))
            (unat (nxt_pkt_expcd (fs' ! k))) (unat (same_ack (fs' ! k))) \<and>
          (\<exists>q \<in> set acks'. construct_ack (sw_server d) (mem_alias m k) (mem_freed m k) (mem_new m k) k
            (nxt_pkt_expcd (fs' ! k) - 1) (of_nat BUF_SIZE - diff) = Some q))"
    "\<forall>q \<in> set acks'. \<exists>k < MAX_FLOW_NUM. flow_nums (sw_server d) k pkts \<noteq> [] \<and> construct_ack (sw_server d) (mem_alias m k) (mem_freed m k) (mem_new m k) k
       (nxt_pkt_expcd (fs' ! k) - 1) (of_nat BUF_SIZE - diff) = Some q"
    by (rule srv_ok [OF assms(1-5), of m diff rfid0])
  have e: "\<not> stop" "fs' = fs" "acks' = acks" using r(1) assms(6) by auto
  have l: "length (sv_flows y) = MAX_FLOW_NUM" using sw_invD(2) [OF assms(2)] .
  have fl: "flow_ok (cl_flows y ! k) (fs ! k) (new_arrived d pkts y k) (new_stalls d pkts y k) \<and>
    unat (nxt_pkt_expcd (sv_flows y ! k)) \<le> unat (nxt_pkt_expcd (fs ! k))" if k: "k < MAX_FLOW_NUM" for k
  proof -
    have "unat (nxt_pkt_expcd (sv_flows y ! k)) < 2 ^ 30" using assms(4) k l by (auto simp: small_nums_def)
    then show ?thesis
      using flow_ok_server [OF sw_invD(3) [OF assms(2) k], of "new_arrived d pkts y k" "fs ! k"
          "flow_nums (sw_server d) k pkts \<noteq> []"]
        r(4) k e new_arrived_bound [OF assms(1-3,5) k]
      by (auto simp: new_arrived_def new_stalls_def split: if_splits)
  qed
  have ack: "\<exists>k < MAX_FLOW_NUM. dst_port q = cpu_to_be_16 d (of_nat (5001 + k)) \<and>
     unat (recv_ack q) < unat (nxt_pkt_expcd (fs ! k))" if q: "q \<in> ack_net y \<union> set acks" for q
  proof (cases "q \<in> set acks")
    case True
    then obtain k where k: "k < MAX_FLOW_NUM" "construct_ack (sw_server d) (mem_alias m k) (mem_freed m k) (mem_new m k) k
       (nxt_pkt_expcd (fs ! k) - 1) (of_nat BUF_SIZE - diff) = Some q" using r(5) e by blast
    have "dst_port q = cpu_to_be_16 d (of_nat (5001 + k))" "recv_ack q = nxt_pkt_expcd (fs ! k) - 1"
      using construct_ack_port [OF k(2)] by simp_all
    moreover have "1 \<le> unat (nxt_pkt_expcd (fs ! k))" using fl [OF k(1)] by (auto simp: flow_ok_def sv_ok_def)
    ultimately show ?thesis using k(1) unat_minus1 [of "nxt_pkt_expcd (fs ! k)"] by auto
  next
    case False
    then obtain k where "k < MAX_FLOW_NUM" "dst_port q = cpu_to_be_16 d (of_nat (5001 + k))"
      "unat (recv_ack q) < unat (nxt_pkt_expcd (sv_flows y ! k))" using q assms(2) unfolding sw_inv_def by blast
    then show ?thesis using fl [of k] by (auto intro: less_le_trans)
  qed
  show ?thesis using assms(2) fl ack r(2) e(2) by (simp add: sw_inv_def)
qed

lemma out_inv:
  assumes "sw_inv d flow_num y" "flow_num \<le> MAX_FLOW_NUM"
    "cl_output clk flow_num np (cl_flows y) = Some (fs, pkts)"
    "list_all2 (\<lambda>(k, i) p. \<exists>src dst m. construct_pkt d src dst m k i = Some p) pkts ps"
  shows "sw_inv d flow_num (y\<lparr>cl_flows := fs, data_net := data_net y \<union> set ps\<rparr>)"
proof -
  obtain fs' pkts' where r: "cl_output clk flow_num np (cl_flows y) = Some (fs', pkts')" "length fs' = MAX_FLOW_NUM"
    "\<forall>k < MAX_FLOW_NUM. cl_ok (fs' ! k) \<and> last_pkt_acked (fs' ! k) = last_pkt_acked (cl_flows y ! k) \<and>
       unat (last_pkt_sent (cl_flows y ! k)) \<le> unat (last_pkt_sent (fs' ! k))"
    "\<forall>k i. (k, i) \<in> set pkts' \<longrightarrow> k < flow_num \<and> 1 \<le> unat i \<and> unat i \<le> unat (last_pkt_sent (fs' ! k))"
    by (rule out_ok [OF assms(1,2), of clk np])
  have e: "fs' = fs" "pkts' = pkts" using r(1) assms(3) by auto
  show ?thesis
  proof (rule sw_inv_client [OF assms(1,2)])
    show "length fs = MAX_FLOW_NUM" using r(2) e by simp
    show "cl_ok (fs ! k) \<and> unat (last_pkt_acked (fs ! k)) < unat (nxt_pkt_expcd (sv_flows y ! k)) \<and>
       unat (last_pkt_sent (cl_flows y ! k)) \<le> unat (last_pkt_sent (fs ! k))" if "k < MAX_FLOW_NUM" for k
      using r(3) e that sw_invD(3) [OF assms(1) that] by (auto simp: flow_ok_def)
    show "\<forall>p \<in> set ps. \<exists>k < flow_num. \<exists>i src dst m. construct_pkt d src dst m k i = Some p \<and>
       1 \<le> unat i \<and> unat i \<le> unat (last_pkt_sent (fs ! k))"
    proof
      fix p
      assume "p \<in> set ps"
      then obtain j where j: "j < length ps" "p = ps ! j" by (auto simp: in_set_conv_nth)
      obtain k i where ki: "pkts ! j = (k, i)" by (cases "pkts ! j")
      have "(k, i) \<in> set pkts"
        using ki j(1) list_all2_lengthD [OF assms(4)] nth_mem [of j pkts] by simp
      moreover have "\<exists>src dst m. construct_pkt d src dst m k i = Some p"
        using list_all2_nthD2 [OF assms(4) j(1)] ki j(2) by simp
      ultimately show "\<exists>k < flow_num. \<exists>i src dst m. construct_pkt d src dst m k i = Some p \<and>
       1 \<le> unat i \<and> unat i \<le> unat (last_pkt_sent (fs ! k))" using r(4) e by blast
    qed
  qed
qed

lemma inp_inv:
  assumes "byte_order d" "sw_inv d flow_num y" "flow_num \<le> MAX_FLOW_NUM"
    "\<forall>(tm, qs) \<in> set bursts. \<forall>q \<in> set qs. for_client d y q" "cl_bursts d bursts a w (cl_flows y) = Some fs"
  shows "sw_inv d flow_num (y\<lparr>cl_flows := fs\<rparr>)"
proof -
  obtain fs' where r: "cl_bursts d bursts a w (cl_flows y) = Some fs'" "length fs' = MAX_FLOW_NUM"
    "\<forall>k < MAX_FLOW_NUM. cl_step_ok (unat (nxt_pkt_expcd (sv_flows y ! k)) - 1) (cl_flows y ! k) (fs' ! k)"
    by (rule inp_ok [OF assms(1,2,4), of a w])
  have e: "fs' = fs" using r(1) assms(5) by simp
  have "cl_ok (fs ! k) \<and> unat (last_pkt_acked (fs ! k)) < unat (nxt_pkt_expcd (sv_flows y ! k)) \<and>
       unat (last_pkt_sent (cl_flows y ! k)) \<le> unat (last_pkt_sent (fs ! k))" if k: "k < MAX_FLOW_NUM" for k
    using r(3) e k sw_invD(3) [OF assms(2) k] by (auto simp: flow_ok_def cl_step_ok_def)
  then show ?thesis using sw_inv_client [OF assms(2,3), of fs "{}"] r(2) e by simp
qed

lemma sw_inv_lose:
  assumes "sw_inv d flow_num y" "D \<subseteq> data_net y" "Q \<subseteq> ack_net y"
  shows "sw_inv d flow_num (y\<lparr>data_net := D, ack_net := Q\<rparr>)"
  using assms by (simp add: sw_inv_def) blast

lemma sw_reach_inv:
  assumes "sw_reach d flow_num np y" "byte_order d" "flow_num \<le> MAX_FLOW_NUM"
  shows "sw_inv d flow_num y"
  using assms(1)
proof induction
  case init
  show ?case by (rule sw_init_inv)
next
  case (step y y')
  from step.hyps(2) show ?case
  proof cases
    case out
    then show ?thesis using out_inv [OF step.IH assms(3)] by simp
  next
    case inp
    then show ?thesis using inp_inv [OF assms(2) step.IH assms(3)] by simp
  next
    case srv
    then show ?thesis using sw_inv_server [OF assms(2) step.IH assms(3)] by simp
  next
    case lose
    then show ?thesis using sw_inv_lose [OF step.IH] by simp
  qed
qed

end
