(* ===== verification/SwSystemRuns.thy ===== *)
theory SwSystemRuns
  imports SwSystemProps
begin

text \<open>
  What the sliding window guarantees: the window is kept and no step fails; an acknowledgement stands for
  packets that have arrived as long as the server has not stalled ten times; and a duplicated packet is
  enough to have a lost one acknowledged.
\<close>

section \<open>Safety\<close>

text \<open>
  C5: in every reachable state of the client, the server and a network that loses, duplicates and reorders
  packets, each flow has at most 128 packets outstanding, the client has acknowledged only what the server has
  passed, and nothing has arrived that was not sent; and no part of an iteration fails: every loop
  ends and every array is written inside its bounds.
\<close>

theorem sw_window:
  assumes "little_endian d" "flow_num \<le> MAX_FLOW_NUM" "sw_reach d flow_num np y"
  shows "(\<forall>k < MAX_FLOW_NUM.
      last_pkt_acked (cl_flows y ! k) \<le> last_pkt_sent (cl_flows y ! k) \<and>
      last_pkt_sent (cl_flows y ! k) - last_pkt_acked (cl_flows y ! k) \<le> of_nat BUF_SIZE \<and>
      last_pkt_acked (cl_flows y ! k) < nxt_pkt_expcd (sv_flows y ! k) \<and>
      arrived y k \<subseteq> {1..unat (last_pkt_sent (cl_flows y ! k))}) \<and>
    cl_output clk flow_num np (cl_flows y) \<noteq> None \<and>
    ((\<forall>(tm, qs) \<in> set bursts. \<forall>q \<in> set qs. for_client d y q) \<longrightarrow> cl_bursts d bursts a w (cl_flows y) \<noteq> None) \<and>
    (small_nums (sv_flows y) \<and> (\<forall>p \<in> set pkts. for_server d y p) \<longrightarrow>
      sv_iteration (sw_server d) m diff rfid0 pkts (sv_flows y) \<noteq> None)"
proof -
  note o = little_endian_order [OF assms(1)]
  have inv: "sw_inv d flow_num y" using sw_reach_inv [OF assms(3) o assms(2)] .
  have "last_pkt_acked c \<le> last_pkt_sent c \<and> last_pkt_sent c - last_pkt_acked c \<le> of_nat BUF_SIZE \<and>
      last_pkt_acked c < nxt_pkt_expcd s \<and> A \<subseteq> {1..unat (last_pkt_sent c)}" if "flow_ok c s A n" for c s A n
    using that by (auto simp: flow_ok_def cl_ok_def sv_ok_def word_le_nat_alt word_less_nat_alt unat_sub BUF_SIZE_def)
  moreover have "cl_output clk flow_num np (cl_flows y) \<noteq> None"
    by (rule out_ok [OF inv assms(2), of clk np]) simp
  moreover have "cl_bursts d bursts a w (cl_flows y) \<noteq> None" if "\<forall>(tm, qs) \<in> set bursts. \<forall>q \<in> set qs. for_client d y q"
    by (rule inp_ok [OF o inv that, of a w]) simp
  moreover have "sv_iteration (sw_server d) m diff rfid0 pkts (sv_flows y) \<noteq> None"
    if "small_nums (sv_flows y)" "\<forall>p \<in> set pkts. for_server d y p"
    by (rule srv_ok [OF o inv assms(2) that, of m diff rfid0]) simp
  ultimately show ?thesis using sw_invD(3) [OF inv] by meson
qed

text \<open>A clock that stands still, and the first packets of a flow of two packets.\<close>

definition ex_clock :: sw_clock where
  "ex_clock = \<lparr>at_check = \<lambda>_ _. 0, at_retransmit = \<lambda>_ _. 0, at_send = \<lambda>_ _. 0\<rparr>"

lemma sw_window_witness: "\<exists>fs pkts. cl_output ex_clock 1 2 (cl_flows sw_init) = Some (fs, pkts)"
  using sw_window [OF ex_dpdk_order(1) [of 7] _ sw_reach.init, where flow_num = 1 and clk = ex_clock and np = 2]
  by (auto simp: MAX_FLOW_NUM_def)

text \<open>
  C4: what an acknowledgement means. In every reachable state at most a tenth as many packets as there were
  stalls have been passed without having arrived. So while a flow has had fewer than ten stalls the
  server is the abstract receiver: it expects the first number that has not arrived, and every packet
  the client takes as acknowledged has arrived.
\<close>

theorem sw_acked_arrived:
  assumes "little_endian d" "flow_num \<le> MAX_FLOW_NUM" "sw_reach d flow_num np y" "k < MAX_FLOW_NUM"
  shows "card ({1..unat (last_pkt_acked (cl_flows y ! k))} - arrived y k) \<le> stalls y k div 10 \<and>
    card ({1..<unat (nxt_pkt_expcd (sv_flows y ! k))} - arrived y k) \<le> stalls y k div 10 \<and>
    (stalls y k < 10 \<longrightarrow> unat (nxt_pkt_expcd (sv_flows y ! k)) = (LEAST n. 1 \<le> n \<and> n \<notin> arrived y k) \<and>
       {1..unat (last_pkt_acked (cl_flows y ! k))} \<subseteq> arrived y k)"
proof -
  note o = little_endian_order [OF assms(1)]
  define A where "A = arrived y k"
  define n where "n = unat (nxt_pkt_expcd (sv_flows y ! k))"
  define l where "l = unat (last_pkt_acked (cl_flows y ! k))"
  have f: "flow_ok (cl_flows y ! k) (sv_flows y ! k) A (stalls y k)"
    using sw_invD(3) [OF sw_reach_inv [OF assms(3) o assms(2)] assms(4)] by (simp add: A_def)
  then have m: "card ({1..<n} - A) * 10 \<le> stalls y k" "l < n" "1 \<le> n" "stalls y k < 10 \<Longrightarrow> n \<notin> A"
    by (auto simp: flow_ok_def sv_ok_def missing_def n_def l_def)
  have "card ({1..l} - A) \<le> card ({1..<n} - A)" using m(2) by (intro card_mono) auto
  moreover have "n = (LEAST n. 1 \<le> n \<and> n \<notin> A) \<and> {1..l} \<subseteq> A" if few: "stalls y k < 10"
  proof -
    have "card ({1..<n} - A) = 0" using m(1) few by linarith
    then have sub: "{1..<n} \<subseteq> A" by auto
    have "(LEAST n. 1 \<le> n \<and> n \<notin> A) = n"
    proof (rule Least_equality)
      show "1 \<le> n \<and> n \<notin> A" using m few by simp
      show "n \<le> i" if "1 \<le> i \<and> i \<notin> A" for i
      proof (rule ccontr)
        assume "\<not> n \<le> i"
        then have "i \<in> {1..<n}" using that by simp
        then show False using sub that by blast
      qed
    qed
    moreover have "{1..l} \<subseteq> {1..<n}" using m(2) by auto
    ultimately show ?thesis using sub by blast
  qed
  moreover have "card ({1..<n} - A) \<le> stalls y k div 10" using m(1) by (simp add: less_eq_div_iff_mult_less_eq)
  ultimately show ?thesis unfolding A_def n_def l_def by (meson order_trans)
qed

lemma sw_acked_arrived_witness: "unat (nxt_pkt_expcd (sv_flows sw_init ! 3)) = (LEAST n. 1 \<le> n \<and> n \<notin> ({} :: nat set))"
  using sw_acked_arrived [OF ex_dpdk_order(1) [of 7] _ sw_reach.init, where flow_num = 1 and k = 3] by (simp add: MAX_FLOW_NUM_def sw_init_def)

section \<open>Giving up\<close>

lemma flow_nums_single: "flow_nums d j [p] = (if verify_pkt d p = j + 1 then [sent_seq p] else [])"
  by (simp add: get_seq_def)

text \<open>A burst of one packet, answered in a buffer of its own.\<close>

lemma single_burst:
  assumes "byte_order d" "flow_num \<le> MAX_FLOW_NUM" "sw_reach d flow_num np y" "small_nums (sv_flows y)"
    "p \<in> data_net y" "verify_pkt (sw_server d) p = k + 1"
  obtains y' where "sw_step d flow_num np y y'" "cl_flows y' = cl_flows y" "data_net y' = data_net y"
    "arrived y' = (arrived y)(k := insert (unat (sent_seq p)) (arrived y k))" "stalls y' k \<le> stalls y k + 1"
    "\<forall>j < MAX_FLOW_NUM. j \<noteq> k \<longrightarrow> nxt_pkt_expcd (sv_flows y' ! j) = nxt_pkt_expcd (sv_flows y ! j)"
    "sv_next (arrived y' k) (unat (nxt_pkt_expcd (sv_flows y ! k))) (unat (same_ack (sv_flows y ! k)))
       (unat (nxt_pkt_expcd (sv_flows y' ! k))) (unat (same_ack (sv_flows y' ! k)))"
    "\<exists>q \<in> ack_net y'. \<forall>a w. parse_packet d q a w = (k + 1, nxt_pkt_expcd (sv_flows y' ! k) - 1, 128)"
    "length (sv_flows y') = MAX_FLOW_NUM" "k < MAX_FLOW_NUM"
proof -
  have inv: "sw_inv d flow_num y" using sw_reach_inv [OF assms(3,1,2)] .
  have fs: "\<forall>p' \<in> set [p]. for_server d y p'" using assms(5) by (simp add: for_server_def)
  obtain k' i src dst m0 where c: "k' < flow_num" "construct_pkt d src dst m0 k' i = Some p"
    using assms(5) inv unfolding sw_inv_def by blast
  have k'8: "k' < 8" using c(1) assms(2) by (simp add: MAX_FLOW_NUM_def)
  note v = construct_pkt_verified [OF assms(1) k'8 c(2)]
  have k: "k < MAX_FLOW_NUM" "k < 8" using v(1) assms(6) k'8 by (simp_all add: MAX_FLOW_NUM_def)
  define m where "m = \<lparr>mem_alias = \<lambda>_. False, mem_freed = \<lambda>_. p, mem_new = \<lambda>_. p\<rparr>"
  obtain stop fs' acks where r: "sv_iteration (sw_server d) m 0 0 [p] (sv_flows y) = Some (stop, fs', acks)"
    "length fs' = MAX_FLOW_NUM" "stop \<longrightarrow> 0 = STOP_FLOW_ID \<and> (\<forall>p' \<in> set [p]. verify_pkt (sw_server d) p' = 0)"
    "\<forall>j < MAX_FLOW_NUM. \<not> stop \<longrightarrow> sv_ok (new_arrived d [p] y j) (fs' ! j) \<and>
       (if flow_nums (sw_server d) j [p] = []
        then nxt_pkt_expcd (fs' ! j) = nxt_pkt_expcd (sv_flows y ! j) \<and> same_ack (fs' ! j) = same_ack (sv_flows y ! j)
        else sv_next (new_arrived d [p] y j) (unat (nxt_pkt_expcd (sv_flows y ! j))) (unat (same_ack (sv_flows y ! j)))
            (unat (nxt_pkt_expcd (fs' ! j))) (unat (same_ack (fs' ! j))) \<and>
          (\<exists>q \<in> set acks. construct_ack (sw_server d) (mem_alias m j) (mem_freed m j) (mem_new m j) j
            (nxt_pkt_expcd (fs' ! j) - 1) (of_nat BUF_SIZE - 0) = Some q))"
    "\<forall>q \<in> set acks. \<exists>j < MAX_FLOW_NUM. flow_nums (sw_server d) j [p] \<noteq> [] \<and> construct_ack (sw_server d) (mem_alias m j) (mem_freed m j) (mem_new m j) j
       (nxt_pkt_expcd (fs' ! j) - 1) (of_nat BUF_SIZE - 0) = Some q"
    by (rule srv_ok [OF assms(1) inv assms(2,4) fs, of m 0 0])
  have stop: "\<not> stop" using r(3) by (simp add: STOP_FLOW_ID_def)
  define y' where "y' = y\<lparr>sv_flows := fs', ack_net := ack_net y \<union> set acks, arrived := new_arrived d [p] y,
    stalls := new_stalls d [p] y\<rparr>"
  have one: "sw_step d flow_num np y y'"
    unfolding y'_def by (rule sw_step.srv [OF assms(4) fs]) (use r(1) stop in auto)
  have nk: "flow_nums (sw_server d) k [p] = [sent_seq p]" using assms(6) by (simp add: flow_nums_single del: flow_nums_simps)
  have nj: "flow_nums (sw_server d) j [p] = []" if "j \<noteq> k" for j
    using that assms(6) by (simp add: flow_nums_single del: flow_nums_simps)
  have ar: "new_arrived d [p] y = (arrived y)(k := insert (unat (sent_seq p)) (arrived y k))"
  proof
    fix j
    show "new_arrived d [p] y j = ((arrived y)(k := insert (unat (sent_seq p)) (arrived y k))) j"
      by (cases "j = k") (simp_all add: new_arrived_def nk nj del: flow_nums_simps(2))
  qed
  have sv: "sv_next (new_arrived d [p] y k) (unat (nxt_pkt_expcd (sv_flows y ! k))) (unat (same_ack (sv_flows y ! k)))
            (unat (nxt_pkt_expcd (fs' ! k))) (unat (same_ack (fs' ! k)))"
    and ack: "\<exists>q \<in> set acks. construct_ack (sw_server d) False p p k (nxt_pkt_expcd (fs' ! k) - 1) (of_nat BUF_SIZE - 0) = Some q"
    using spec [OF r(4), of k] k(1) stop unfolding nk by (simp_all add: m_def)
  obtain q where q: "construct_ack (sw_server d) False p p k (nxt_pkt_expcd (fs' ! k) - 1) (of_nat BUF_SIZE - 0) = Some q"
    "\<forall>a w. parse_packet d q a w = (k + 1, nxt_pkt_expcd (fs' ! k) - 1, ucast (ucast (of_nat BUF_SIZE - 0 :: u32) :: u16))"
    by (rule construct_ack_parsed [OF assms(1) k(2) v(3), of p "nxt_pkt_expcd (fs' ! k) - 1" "of_nat BUF_SIZE - 0"])
  have "q \<in> ack_net y'" using ack q(1) by (auto simp: y'_def)
  then have qq: "\<exists>q \<in> ack_net y'. \<forall>a w. parse_packet d q a w = (k + 1, nxt_pkt_expcd (sv_flows y' ! k) - 1, 128)"
    using q(2) unfolding y'_def by (intro bexI [of _ q]) (simp_all add: BUF_SIZE_def)
  have other: "nxt_pkt_expcd (fs' ! j) = nxt_pkt_expcd (sv_flows y ! j)" if "j < MAX_FLOW_NUM" "j \<noteq> k" for j
    using spec [OF r(4), of j] that(1) stop unfolding nj [OF that(2)] by simp
  show ?thesis
    by (rule that [OF one]) (use ar sv other qq r(2) k(1) in \<open>simp_all add: y'_def new_stalls_def\<close>)
qed

text \<open>
  C19: the server gives up. If a flow waits for a packet that has not arrived, then from every reachable state
  at most ten copies of any other packet of the flow are enough: the server then acknowledges the missing
  packet to the client, although it has not arrived.
\<close>

theorem sw_gives_up:
  assumes "little_endian d" "flow_num \<le> MAX_FLOW_NUM" "sw_reach d flow_num np y" "small_nums (sv_flows y)"
    "p \<in> data_net y" "verify_pkt (sw_server d) p = k + 1" "sent_seq p \<noteq> nxt_pkt_expcd (sv_flows y ! k)"
    "unat (nxt_pkt_expcd (sv_flows y ! k)) \<notin> arrived y k"
  shows "\<exists>y'. (sw_step d flow_num np)\<^sup>*\<^sup>* y y' \<and> cl_flows y' = cl_flows y \<and> data_net y' = data_net y \<and>
    arrived y' = (arrived y)(k := insert (unat (sent_seq p)) (arrived y k)) \<and> stalls y' k \<le> stalls y k + 10 \<and>
    (\<forall>j < MAX_FLOW_NUM. nxt_pkt_expcd (sv_flows y' ! j) = nxt_pkt_expcd (sv_flows y ! j) + (if j = k then 1 else 0)) \<and>
    (\<exists>q \<in> ack_net y'. \<forall>a w. parse_packet d q a w = (k + 1, nxt_pkt_expcd (sv_flows y ! k), 128))"
proof -
  note o = little_endian_order [OF assms(1)]
  define x where "x = nxt_pkt_expcd (sv_flows y ! k)"
  have "\<exists>y'. (sw_step d flow_num np)\<^sup>*\<^sup>* y y' \<and> cl_flows y' = cl_flows y \<and> data_net y' = data_net y \<and>
    arrived y' = (arrived y)(k := insert (unat (sent_seq p)) (arrived y k)) \<and>
    stalls y' k + unat (same_ack (sv_flows y ! k)) \<le> stalls y k + 10 \<and>
    (\<forall>j < MAX_FLOW_NUM. nxt_pkt_expcd (sv_flows y' ! j) = nxt_pkt_expcd (sv_flows y ! j) + (if j = k then 1 else 0)) \<and>
    (\<exists>q \<in> ack_net y'. \<forall>a w. parse_packet d q a w = (k + 1, x, 128))"
    using assms(3-8) x_def
  proof (induction "9 - unat (same_ack (sv_flows y ! k))" arbitrary: y)
    case (0 y)
    obtain y' where b: "sw_step d flow_num np y y'" "cl_flows y' = cl_flows y" "data_net y' = data_net y"
      "arrived y' = (arrived y)(k := insert (unat (sent_seq p)) (arrived y k))" "stalls y' k \<le> stalls y k + 1"
      "\<forall>j < MAX_FLOW_NUM. j \<noteq> k \<longrightarrow> nxt_pkt_expcd (sv_flows y' ! j) = nxt_pkt_expcd (sv_flows y ! j)"
      "sv_next (arrived y' k) (unat (nxt_pkt_expcd (sv_flows y ! k))) (unat (same_ack (sv_flows y ! k)))
         (unat (nxt_pkt_expcd (sv_flows y' ! k))) (unat (same_ack (sv_flows y' ! k)))"
      "\<exists>q \<in> ack_net y'. \<forall>a w. parse_packet d q a w = (k + 1, nxt_pkt_expcd (sv_flows y' ! k) - 1, 128)"
      "length (sv_flows y') = MAX_FLOW_NUM" "k < MAX_FLOW_NUM"
      by (rule single_burst [OF o assms(2) 0(2-5)])
    have f: "flow_ok (cl_flows y ! k) (sv_flows y ! k) (arrived y k) (stalls y k)"
      using sw_invD(3) [OF sw_reach_inv [OF 0(2) o assms(2)] b(10)] .
    then have nine: "unat (same_ack (sv_flows y ! k)) = 9" using 0(1) by (auto simp: flow_ok_def sv_ok_def)
    have x: "unat x \<notin> arrived y' k" using 0(6-8) b(4) by (auto simp: dest: unsigned_word_eqI)
    have "unat (nxt_pkt_expcd (sv_flows y' ! k)) = unat x + 1" using b(7) nine x 0(8) by (simp add: sv_next_def)
    also have "\<dots> = unat (x + 1)" using f 0(8) by (intro unat_plus1 [symmetric]) (auto simp: flow_ok_def)
    finally have "nxt_pkt_expcd (sv_flows y' ! k) = x + 1" by (rule unsigned_word_eqI)
    then show ?case using b(1-6,8) nine 0(8) by (intro exI [of _ y']) auto
  next
    case (Suc c y)
    obtain y' where b: "sw_step d flow_num np y y'" "cl_flows y' = cl_flows y" "data_net y' = data_net y"
      "arrived y' = (arrived y)(k := insert (unat (sent_seq p)) (arrived y k))" "stalls y' k \<le> stalls y k + 1"
      "\<forall>j < MAX_FLOW_NUM. j \<noteq> k \<longrightarrow> nxt_pkt_expcd (sv_flows y' ! j) = nxt_pkt_expcd (sv_flows y ! j)"
      "sv_next (arrived y' k) (unat (nxt_pkt_expcd (sv_flows y ! k))) (unat (same_ack (sv_flows y ! k)))
         (unat (nxt_pkt_expcd (sv_flows y' ! k))) (unat (same_ack (sv_flows y' ! k)))"
      "\<exists>q \<in> ack_net y'. \<forall>a w. parse_packet d q a w = (k + 1, nxt_pkt_expcd (sv_flows y' ! k) - 1, 128)"
      "length (sv_flows y') = MAX_FLOW_NUM" "k < MAX_FLOW_NUM"
      by (rule single_burst [OF o assms(2) Suc(3-6)])
    have x: "unat x \<notin> arrived y' k" using Suc(7-9) b(4) by (auto simp: dest: unsigned_word_eqI)
    have n: "unat (nxt_pkt_expcd (sv_flows y' ! k)) = unat x"
      "unat (same_ack (sv_flows y' ! k)) = unat (same_ack (sv_flows y ! k)) + 1"
      using b(7) x Suc(2,9) by (auto simp: sv_next_def split: if_splits)
    have nx: "x = nxt_pkt_expcd (sv_flows y' ! k)" using n(1) by (simp add: word_unat_eq_iff)
    have same: "nxt_pkt_expcd (sv_flows y' ! j) = nxt_pkt_expcd (sv_flows y ! j)" if "j < MAX_FLOW_NUM" for j
      using b(6) that nx Suc(9) by (cases "j = k") auto
    have "length (sv_flows y) = MAX_FLOW_NUM" using sw_invD(2) [OF sw_reach_inv [OF Suc(3) o assms(2)]] .
    then have "small_nums (sv_flows y')" using Suc(4) same b(9) by (simp add: small_nums_def all_set_conv_all_nth)
    moreover have "c = 9 - unat (same_ack (sv_flows y' ! k))" using Suc(2) n(2) by simp
    moreover have "p \<in> data_net y'" "sent_seq p \<noteq> nxt_pkt_expcd (sv_flows y' ! k)"
      "unat (nxt_pkt_expcd (sv_flows y' ! k)) \<notin> arrived y' k" using b(3) Suc(5,7,9) nx x by auto
    ultimately obtain y'' where "(sw_step d flow_num np)\<^sup>*\<^sup>* y' y'' \<and> cl_flows y'' = cl_flows y' \<and> data_net y'' = data_net y' \<and>
      arrived y'' = (arrived y')(k := insert (unat (sent_seq p)) (arrived y' k)) \<and>
      stalls y'' k + unat (same_ack (sv_flows y' ! k)) \<le> stalls y' k + 10 \<and>
      (\<forall>j < MAX_FLOW_NUM. nxt_pkt_expcd (sv_flows y'' ! j) = nxt_pkt_expcd (sv_flows y' ! j) + (if j = k then 1 else 0)) \<and>
      (\<exists>q \<in> ack_net y''. \<forall>a w. parse_packet d q a w = (k + 1, x, 128))"
      using Suc(1) [of y'] sw_reach.step [OF Suc(3) b(1)] Suc(6) nx by blast
    then show ?case using b(2-5) same n(2) converse_rtranclp_into_rtranclp [where r = "sw_step d flow_num np", OF b(1), of y'']
      by (intro exI [of _ y'']) auto
  qed
  then show ?thesis unfolding x_def by (elim exE conjE) (intro exI conjI; (assumption | simp))
qed

text \<open>
  A run in which data is lost: the client sends the packets 1 and 2 of its only flow, the network loses the
  first one and repeats the second. The client ends with both acknowledged.
\<close>

lemma ex_retransmit: "sw_retransmit now snt mkSwSend = Some (mkSwSend, [])"
  by (simp add: sw_retransmit_def mkSwSend_def for_u32.simps)

lemma ex_fill: "sw_fill 2 mkSwSend = mkSwSend\<lparr>last_pkt_written := 2\<rparr>"
  by (simp add: sw_fill_def mkSwSend_def BUF_SIZE_def)

lemma ex_transmit:
  "\<exists>tms. sw_transmit snt (mkSwSend\<lparr>last_pkt_written := 2\<rparr>) =
     Some (mkSwSend\<lparr>last_pkt_written := 2, last_pkt_sent := 2, time_sent := tms\<rparr>, [1, 2])"
proof -
  have s: "sw_send_loop (mkSwSend\<lparr>last_pkt_written := 2\<rparr>) [] =
      Some (mkSwSend\<lparr>last_pkt_written := 2, last_pkt_sent := 2\<rparr>, [1, 2])"
    by (simp add: sw_send_loop.simps mkSwSend_def BUF_SIZE_def)
  show ?thesis unfolding sw_transmit_def Let_def s by (simp add: for_u32.simps mkSwSend_def)
qed

lemma ex_output:
  obtains tms where "cl_output ex_clock 1 2 (replicate MAX_FLOW_NUM mkSwSend) =
    Some ((replicate MAX_FLOW_NUM mkSwSend)[0 := mkSwSend\<lparr>last_pkt_written := 2, last_pkt_sent := 2, time_sent := tms\<rparr>],
      [(0, 1), (0, 2)])"
proof -
  obtain tms where "sw_transmit (at_send ex_clock 0) (mkSwSend\<lparr>last_pkt_written := 2\<rparr>) =
     Some (mkSwSend\<lparr>last_pkt_written := 2, last_pkt_sent := 2, time_sent := tms\<rparr>, [1, 2])" using ex_transmit by blast
  then show ?thesis
    by (intro that [of tms]) (simp add: cl_output_def ex_retransmit ex_fill MAX_FLOW_NUM_def)
qed

lemma ex_sent:
  obtains s y p where "sw_reach (ex_dpdk 7) 1 2 y" "cl_ok s" "last_pkt_acked s = 0"
    "y = sw_init\<lparr>cl_flows := (replicate MAX_FLOW_NUM mkSwSend)[0 := s], data_net := data_net y\<rparr>"
    "p \<in> data_net y" "verify_pkt (sw_server (ex_dpdk 7)) p = 0 + 1" "sent_seq p = 2" "last_pkt_sent s = 2"
proof -
  obtain tms where o: "cl_output ex_clock 1 2 (replicate MAX_FLOW_NUM mkSwSend) =
    Some ((replicate MAX_FLOW_NUM mkSwSend)[0 := mkSwSend\<lparr>last_pkt_written := 2, last_pkt_sent := 2, time_sent := tms\<rparr>],
      [(0, 1), (0, 2)])" by (rule ex_output)
  obtain p1 where p1: "construct_pkt (ex_dpdk 7) 0 0 ex_mbuf 0 1 = Some p1" by (rule construct_pkt_fields)
  obtain p2 where p2: "construct_pkt (ex_dpdk 7) 0 0 ex_mbuf 0 2 = Some p2" by (rule construct_pkt_fields)
  define s where "s = mkSwSend\<lparr>last_pkt_written := 2, last_pkt_sent := 2, time_sent := tms\<rparr>"
  define y where "y = sw_init\<lparr>cl_flows := (replicate MAX_FLOW_NUM mkSwSend)[0 := s], data_net := data_net sw_init \<union> set [p1, p2]\<rparr>"
  have i: "cl_flows sw_init = replicate MAX_FLOW_NUM mkSwSend" by (simp add: sw_init_def)
  have "sw_step (ex_dpdk 7) 1 2 sw_init y"
    unfolding y_def
  proof (rule sw_step.out)
    show "cl_running 1 2 (cl_flows sw_init)" by (simp add: i cl_running_def MAX_FLOW_NUM_def mkSwSend_def)
    show "cl_output ex_clock 1 2 (cl_flows sw_init) = Some ((replicate MAX_FLOW_NUM mkSwSend)[0 := s], [(0, 1), (0, 2)])"
      using o by (simp add: i s_def)
    show "list_all2 (\<lambda>(k, i) p. \<exists>src dst m. construct_pkt (ex_dpdk 7) src dst m k i = Some p) [(0, 1), (0, 2)] [p1, p2]"
      using p1 p2 by auto
  qed
  then have reach: "sw_reach (ex_dpdk 7) 1 2 y" using sw_reach.init sw_reach.step by blast
  have "flow_ok (cl_flows y ! 0) (sv_flows y ! 0) (arrived y 0) (stalls y 0)"
    by (rule sw_invD(3) [OF sw_reach_inv [OF reach ex_dpdk_order(2)]]) (simp_all add: MAX_FLOW_NUM_def)
  then have "cl_ok s" by (simp add: flow_ok_def y_def MAX_FLOW_NUM_def)
  then show ?thesis
    using construct_pkt_verified [OF ex_dpdk_order(2) _ p2]
    by (intro that [of y s p2, OF reach]) (simp_all add: y_def s_def mkSwSend_def)
qed

lemma sw_gives_up_witness:
  "\<exists>y. sw_reach (ex_dpdk 7) 1 2 y \<and> \<not> cl_running 1 2 (cl_flows y) \<and> 1 \<notin> arrived y 0"
proof -
  obtain s y p where y: "sw_reach (ex_dpdk 7) 1 2 y" "cl_ok s" "last_pkt_acked s = 0"
    "y = sw_init\<lparr>cl_flows := (replicate MAX_FLOW_NUM mkSwSend)[0 := s], data_net := data_net y\<rparr>"
    "p \<in> data_net y" "verify_pkt (sw_server (ex_dpdk 7)) p = 0 + 1" "sent_seq p = 2" by (rule ex_sent)
  define F where "F = (replicate MAX_FLOW_NUM mkSwSend)[0 := s]"
  have f: "cl_flows y = F" "sv_flows y = replicate MAX_FLOW_NUM mkSwRecv" "arrived y = (\<lambda>k. {})"
    using arg_cong [OF y(4), of cl_flows] arg_cong [OF y(4), of sv_flows] arg_cong [OF y(4), of arrived]
    by (simp_all add: F_def sw_init_def)
  note M = MAX_FLOW_NUM_def
  have "small_nums (sv_flows y)" by (simp add: f small_nums_def M mkSwRecv_def)
  then obtain y2 where y2: "sw_reach (ex_dpdk 7) 1 2 y2" "cl_flows y2 = F" "data_net y2 = data_net y"
    "arrived y2 = (arrived y)(0 := insert (unat (sent_seq p)) (arrived y 0))"
    "\<forall>j < MAX_FLOW_NUM. nxt_pkt_expcd (sv_flows y2 ! j) = nxt_pkt_expcd (sv_flows y ! j) + (if j = 0 then 1 else 0)"
    using sw_gives_up [OF ex_dpdk_order(1) _ y(1) _ y(5,6)] y(1,7) f
    by (auto simp: M mkSwRecv_def intro: sw_steps_reach)
  have l2: "length (sv_flows y2) = MAX_FLOW_NUM"
    by (rule sw_invD(2) [OF sw_reach_inv [OF y2(1) ex_dpdk_order(2)]]) (simp add: M)
  have n2: "nxt_pkt_expcd (sv_flows y2 ! j) = (if j = 0 then 2 else 1)" if "j < MAX_FLOW_NUM" for j
    using y2(5) that by (simp add: f mkSwRecv_def)
  have s2: "small_nums (sv_flows y2)" using n2 l2 by (simp add: small_nums_def all_set_conv_all_nth)
  have fl: "(1 :: nat) \<le> MAX_FLOW_NUM" by (simp add: M)
  have p2: "p \<in> data_net y2" using y(5) y2(3) by simp
  obtain y3 where y3: "sw_step (ex_dpdk 7) 1 2 y2 y3" "cl_flows y3 = cl_flows y2" "data_net y3 = data_net y2"
    "arrived y3 = (arrived y2)(0 := insert (unat (sent_seq p)) (arrived y2 0))" "stalls y3 0 \<le> stalls y2 0 + 1"
    "\<forall>j < MAX_FLOW_NUM. j \<noteq> 0 \<longrightarrow> nxt_pkt_expcd (sv_flows y3 ! j) = nxt_pkt_expcd (sv_flows y2 ! j)"
    "sv_next (arrived y3 0) (unat (nxt_pkt_expcd (sv_flows y2 ! 0))) (unat (same_ack (sv_flows y2 ! 0)))
       (unat (nxt_pkt_expcd (sv_flows y3 ! 0))) (unat (same_ack (sv_flows y3 ! 0)))"
    "\<exists>q \<in> ack_net y3. \<forall>a w. parse_packet (ex_dpdk 7) q a w = (0 + 1, nxt_pkt_expcd (sv_flows y3 ! 0) - 1, 128)"
    "length (sv_flows y3) = MAX_FLOW_NUM" "0 < MAX_FLOW_NUM"
    by (rule single_burst [OF ex_dpdk_order(2) fl y2(1) s2 p2 y(6)])
  have a3: "arrived y3 0 = {2}" using y3(4) y2(4) y(7) f by simp
  have "unat (nxt_pkt_expcd (sv_flows y3 ! 0)) = 3"
  proof -
    define n where "n = unat (nxt_pkt_expcd (sv_flows y3 ! 0))"
    have n: "2 < n" "{2..<n} \<subseteq> {2}" using y3(7,10) n2 [of 0] unfolding a3 n_def [symmetric] by (auto simp: sv_next_def)
    have "n \<le> 3"
    proof (rule ccontr)
      assume "\<not> n \<le> 3"
      then have "3 \<in> {2..<n}" by simp
      then have "3 \<in> {2 :: nat}" by (rule subsetD [OF n(2)])
      then show False by simp
    qed
    then show ?thesis using n(1) by (simp add: n_def)
  qed
  then have "unat (nxt_pkt_expcd (sv_flows y3 ! 0)) = unat (3 :: u32)" by simp
  then have n3: "nxt_pkt_expcd (sv_flows y3 ! 0) = 3" by (rule unsigned_word_eqI)
  obtain q where q: "q \<in> ack_net y3" "parse_packet (ex_dpdk 7) q 0 0 = (1, 2, 128)" using y3(8) n3 by auto
  obtain s' where s': "sw_acked 0 2 128 s = Some s'" "cl_ok s'"
    "unat (last_pkt_acked s') = max (unat (last_pkt_acked s)) (unat (2 :: u32))"
    "unat (last_pkt_sent s') = max (unat (last_pkt_sent s)) (unat (2 :: u32))"
    by (rule sw_acked_ok [OF y(2), of 2 0 128]) simp_all
  define y4 where "y4 = y3\<lparr>cl_flows := F[0 := s']\<rparr>"
  have "sw_step (ex_dpdk 7) 1 2 y3 y4"
    unfolding y4_def
  proof (rule sw_step.inp)
    show "\<forall>(tm, qs) \<in> set [(0, [q])]. \<forall>q \<in> set qs. for_client (ex_dpdk 7) y3 q" using q(1) by (simp add: for_client_def)
    show "cl_bursts (ex_dpdk 7) [(0, [q])] 0 0 (cl_flows y3) = Some (F[0 := s'])"
      using q(2) s'(1) y3(2) y2(2) by (simp add: F_def M)
  qed
  then have "sw_reach (ex_dpdk 7) 1 2 y4" using y2(1) y3(1) sw_reach.step by blast
  moreover have "\<not> cl_running 1 2 (cl_flows y4)"
    using s'(3) y(3) replicate_Suc [of 7 mkSwSend] by (simp add: cl_running_def y4_def F_def M word_less_nat_alt)
  moreover have "1 \<notin> arrived y4 0" using a3 by (simp add: y4_def)
  ultimately show ?thesis by blast
qed

end
