(* ===== verification/SwLiveness.thy ===== *)
theory SwLiveness
  imports SwSystemRuns
begin

text \<open>
  What brings the transfer on when packets are lost: in every reachable state the client can send each
  outstanding packet of a flow again, and new ones if the window is open. A flow with nothing outstanding, a
  closed window and nothing in the network never goes on.
\<close>

abbreviation acked_no :: "sw_sys \<Rightarrow> nat \<Rightarrow> nat" where
  "acked_no y k \<equiv> unat (last_pkt_acked (cl_flows y ! k))"

abbreviation sent_no :: "sw_sys \<Rightarrow> nat \<Rightarrow> nat" where
  "sent_no y k \<equiv> unat (last_pkt_sent (cl_flows y ! k))"

abbreviation next_no :: "sw_sys \<Rightarrow> nat \<Rightarrow> nat" where
  "next_no y k \<equiv> unat (nxt_pkt_expcd (sv_flows y ! k))"

definition flow_pkt :: "dpdk \<Rightarrow> nat \<Rightarrow> mbuf \<Rightarrow> bool" where
  "flow_pkt d k p \<longleftrightarrow> verify_pkt (sw_server d) p = k + 1"

lemma port_inj:
  assumes "byte_order d" "j < 8" "k < 8"
  shows "cpu_to_be_16 d (of_nat (5001 + j)) = cpu_to_be_16 d (of_nat (5001 + k)) \<longleftrightarrow> j = k"
proof
  assume e: "cpu_to_be_16 d (of_nat (5001 + j)) = cpu_to_be_16 d (of_nat (5001 + k))"
  have "j + 1 = port_flow d (cpu_to_be_16 d (of_nat (5001 + j))) [1..<9] 0" by (rule port_flow_of(1) [OF assms(1,2), symmetric])
  also have "\<dots> = k + 1" unfolding e by (rule port_flow_of(1) [OF assms(1,3)])
  finally show "j = k" by simp
qed simp

section \<open>What can be sent again\<close>

text \<open>
  Retransmission goes up to the smaller of \<open>last_pkt_sent\<close> and \<open>last_pkt_written\<close>. The first is beyond the
  second only after the server has given up packets that were never sent, and then nothing is outstanding.
\<close>

definition flow_written :: "u32 \<Rightarrow> sw_send \<Rightarrow> bool" where
  "flow_written np c \<longleftrightarrow> unat (last_pkt_written c) \<le> unat np \<and>
     (unat (last_pkt_sent c) \<le> unat (last_pkt_written c) \<or> unat (last_pkt_sent c) = unat (last_pkt_acked c))"

lemma flow_written_out:
  assumes "flow_written np c" "cl_ok c" "cl_ok c'" "last_pkt_acked c' = last_pkt_acked c"
    "unat (last_pkt_written c') = min (unat np) (unat (last_pkt_acked c) + 128)"
    "unat (last_pkt_sent c') \<le> max (unat (last_pkt_sent c)) (unat (last_pkt_written c'))"
  shows "flow_written np c'"
proof -
  have w: "unat (last_pkt_written c) \<le> unat (last_pkt_written c')" using assms(1,2,5) by (simp add: flow_written_def cl_ok_def)
  have "unat (last_pkt_acked c) \<le> unat (last_pkt_sent c')" using assms(3,4) by (simp add: cl_ok_def)
  then have "unat (last_pkt_sent c') \<le> unat (last_pkt_written c') \<or> unat (last_pkt_sent c') = unat (last_pkt_acked c)"
    using assms(1,6) w unfolding flow_written_def by linarith
  then show ?thesis using assms(4,5) by (simp add: flow_written_def)
qed

lemma flow_written_inp:
  assumes "flow_written np c" "cl_step_ok b c c'" "cl_ok c"
  shows "flow_written np c'"
proof -
  have w: "last_pkt_written c' = last_pkt_written c"
    and s: "unat (last_pkt_sent c') = max (unat (last_pkt_sent c)) (unat (last_pkt_acked c'))"
    and a: "unat (last_pkt_acked c) \<le> unat (last_pkt_acked c')" using assms(2) by (simp_all add: cl_step_ok_def)
  have "unat (last_pkt_acked c) \<le> unat (last_pkt_sent c)" using assms(3) by (simp add: cl_ok_def)
  then have "unat (last_pkt_sent c') \<le> unat (last_pkt_written c) \<or> unat (last_pkt_sent c') = unat (last_pkt_acked c')"
    using assms(1) s a unfolding flow_written_def by linarith
  then show ?thesis using assms(1) w by (simp add: flow_written_def)
qed

lemma sw_reach_written:
  assumes "sw_reach d flow_num np y" "byte_order d" "flow_num \<le> MAX_FLOW_NUM"
  shows "\<forall>k < flow_num. flow_written np (cl_flows y ! k)"
  using assms(1)
proof induction
  case init
  then show ?case using assms(3) by (simp add: flow_written_def sw_init_def mkSwSend_def)
next
  case (step y y')
  have inv: "sw_inv d flow_num y" by (rule sw_reach_inv [OF step.hyps(1) assms(2,3)])
  have a: "flow_num \<le> length (cl_flows y)" "\<forall>k < length (cl_flows y). cl_ok (cl_flows y ! k)"
    using assms(3) sw_invD [OF inv] by (auto simp: flow_ok_def)
  from step.hyps(2) show ?case
  proof cases
    case (out clk fs pkts ps)
    have "flow_written np (fs ! k)" if k: "k < flow_num" for k
    proof (rule cl_output_ok [OF a, of clk np], goal_cases)
      case (1 fs' pkts')
      have e: "fs' = fs" using 1(1) out(3) by simp
      have kl: "k < length (cl_flows y)" using k a(1) by simp
      note f = mp [OF spec [OF 1(3), of k] kl, unfolded e] and g = mp [OF spec [OF 1(7), of k] k, unfolded e]
      show ?case
        by (rule flow_written_out [of np "cl_flows y ! k"]) (use step.IH k a(2) kl f g in blast)+
    qed
    then show ?thesis using out(1) by simp
  next
    case (inp bursts a w fs)
    have "flow_written np (fs ! k)" if k: "k < flow_num" for k
    proof (rule inp_ok [OF assms(2) inv inp(2), of a w], goal_cases)
      case (1 fs')
      then have st: "cl_step_ok (unat (nxt_pkt_expcd (sv_flows y ! k)) - 1) (cl_flows y ! k) (fs ! k)"
        using inp(3) k assms(3) by simp
      have "cl_ok (cl_flows y ! k)" using sw_invD(3) [OF inv, of k] k assms(3) by (simp add: flow_ok_def)
      then show ?case using flow_written_inp [OF _ st] step.IH k by blast
    qed
    then show ?thesis using inp(1) by simp
  next
    case srv
    then show ?thesis using step.IH by simp
  next
    case lose
    then show ?thesis using step.IH by simp
  qed
qed

text \<open>A clock that has run on for more than the timeout since every packet was sent.\<close>

definition late_clock :: "sw_sys \<Rightarrow> sw_clock" where
  "late_clock y = \<lparr>at_check = \<lambda>k i. time_sent (cl_flows y ! k) ! slot i + 60000, at_retransmit = \<lambda>k i. 0, at_send = \<lambda>k i. 0\<rparr>"

lemma some_packets: "\<exists>ps. list_all2 (\<lambda>(k, i) p. \<exists>src dst m. construct_pkt d src dst m k i = Some p) pkts ps"
proof (induction pkts)
  case (Cons ki pkts)
  obtain ps where ps: "list_all2 (\<lambda>(k, i) p. \<exists>src dst m. construct_pkt d src dst m k i = Some p) pkts ps"
    using Cons.IH by blast
  obtain k i where ki: "ki = (k, i)" by (cases ki)
  obtain p where "construct_pkt d 0 0 ex_mbuf k i = Some p" by (rule construct_pkt_fields)
  then have "list_all2 (\<lambda>(k, i) p. \<exists>src dst m. construct_pkt d src dst m k i = Some p) (ki # pkts) (p # ps)"
    using ps ki by auto
  then show ?case by blast
qed simp

lemma packet_built:
  assumes "byte_order d" "k < 8" "(k, i) \<in> set pkts"
    "list_all2 (\<lambda>(k, i) p. \<exists>src dst m. construct_pkt d src dst m k i = Some p) pkts ps"
  shows "\<exists>p \<in> set ps. flow_pkt d k p \<and> sent_seq p = i"
proof -
  obtain j where j: "j < length pkts" "pkts ! j = (k, i)" using assms(3) by (auto simp: in_set_conv_nth)
  then have "\<exists>src dst m. construct_pkt d src dst m k i = Some (ps ! j)" using list_all2_nthD [OF assms(4) j(1)] by simp
  moreover have "ps ! j \<in> set ps" using j(1) list_all2_lengthD [OF assms(4)] by simp
  ultimately show ?thesis using construct_pkt_verified(1,2) [OF assms(1,2)] unfolding flow_pkt_def by blast
qed

text \<open>After the step all outstanding packets of the flow are in the network, whatever was there before.\<close>

lemma client_sends:
  assumes "byte_order d" "flow_num \<le> MAX_FLOW_NUM" "sw_reach d flow_num np y" "k < flow_num" "acked_no y k < unat np"
  obtains y' where "sw_step d flow_num np y y'" "sv_flows y' = sv_flows y" "data_net y \<subseteq> data_net y'"
    "\<forall>j < MAX_FLOW_NUM. acked_no y' j = acked_no y j \<and> sent_no y j \<le> sent_no y' j \<and>
       rcv_wnd (cl_flows y' ! j) = rcv_wnd (cl_flows y ! j)"
    "\<forall>i. acked_no y k < unat i \<and> unat i \<le> sent_no y' k \<longrightarrow> (\<exists>p \<in> data_net y'. flow_pkt d k p \<and> sent_seq p = i)"
    "rcv_wnd (cl_flows y ! k) \<noteq> 0 \<longrightarrow> acked_no y k < sent_no y' k"
proof -
  note found = that
  have inv: "sw_inv d flow_num y" by (rule sw_reach_inv [OF assms(3,1,2)])
  have a: "flow_num \<le> length (cl_flows y)" "\<forall>k < length (cl_flows y). cl_ok (cl_flows y ! k)"
    using assms(2) sw_invD [OF inv] by (auto simp: flow_ok_def)
  have k: "k < length (cl_flows y)" "k < 8" "k < MAX_FLOW_NUM" using assms(2,4) a(1) by (simp_all add: MAX_FLOW_NUM_def)
  have wr: "flow_written np (cl_flows y ! k)" using sw_reach_written [OF assms(3,1,2)] assms(4) by blast
  have "cl_flows y ! k \<in> set (take flow_num (cl_flows y))" using assms(4) a(1) by (auto simp: in_set_conv_nth)
  then have run: "cl_running flow_num np (cl_flows y)" using assms(5) by (auto simp: cl_running_def word_less_nat_alt)
  show thesis
  proof (rule cl_output_ok [OF a, of "late_clock y" np], goal_cases)
    case (1 fs pkts)
    obtain ps where ps: "list_all2 (\<lambda>(k, i) p. \<exists>src dst m. construct_pkt d src dst m k i = Some p) pkts ps"
      using some_packets by blast
    define y' where "y' = y\<lparr>cl_flows := fs, data_net := data_net y \<union> set ps\<rparr>"
    have one: "sw_step d flow_num np y y'" unfolding y'_def by (rule sw_step.out [OF run 1(1) ps])
    have f: "cl_ok (fs ! k)" "last_pkt_acked (fs ! k) = last_pkt_acked (cl_flows y ! k)"
      "sent_no y k \<le> unat (last_pkt_sent (fs ! k))" using 1(3) k(1) by blast+
    have sent: "(k, i) \<in> set pkts" if i: "acked_no y k < unat i" "unat i \<le> unat (last_pkt_sent (fs ! k))" for i
    proof (cases "unat i \<le> sent_no y k")
      case True
      then have "unat i \<le> min (sent_no y k) (unat (last_pkt_written (cl_flows y ! k)))"
        using wr i(1) unfolding flow_written_def by linarith
      moreover have "at_check (late_clock y) k i - time_sent (cl_flows y ! k) ! slot i > TIMEOUT_US * 1000"
        by (simp add: late_clock_def TIMEOUT_US_def)
      ultimately show ?thesis using 1(6) assms(4) i(1) by blast
    next
      case False
      then show ?thesis using 1(5) assms(4) i(2) by (meson not_le)
    qed
    have new: "acked_no y k < unat (last_pkt_sent (fs ! k))" if w: "rcv_wnd (cl_flows y ! k) \<noteq> 0"
    proof (rule ccontr)
      assume "\<not> acked_no y k < unat (last_pkt_sent (fs ! k))"
      then have e: "unat (last_pkt_sent (fs ! k)) = acked_no y k" using f(1,2) by (simp add: cl_ok_def)
      then have "last_pkt_sent (fs ! k) = last_pkt_acked (cl_flows y ! k)" by (rule unsigned_word_eqI)
      moreover have "0 < rcv_wnd (cl_flows y ! k)" using w by (simp add: word_gt_0)
      ultimately show False using mp [OF spec [OF 1(5), of k] assms(4)] assms(5) by simp
    qed
    show thesis
    proof (rule found [OF one])
      show "\<forall>i. acked_no y k < unat i \<and> unat i \<le> sent_no y' k \<longrightarrow> (\<exists>p \<in> data_net y'. flow_pkt d k p \<and> sent_seq p = i)"
      proof (intro allI impI)
        fix i :: u32
        assume "acked_no y k < unat i \<and> unat i \<le> sent_no y' k"
        then have "(k, i) \<in> set pkts" using sent by (simp add: y'_def)
        from packet_built [OF assms(1) k(2) this ps] show "\<exists>p \<in> data_net y'. flow_pkt d k p \<and> sent_seq p = i"
          by (auto simp: y'_def)
      qed
      show "\<forall>j < MAX_FLOW_NUM. acked_no y' j = acked_no y j \<and> sent_no y j \<le> sent_no y' j \<and>
       rcv_wnd (cl_flows y' ! j) = rcv_wnd (cl_flows y ! j)"
        using 1(3) sw_invD(1) [OF inv] by (simp add: y'_def)
      show "rcv_wnd (cl_flows y ! k) \<noteq> 0 \<longrightarrow> acked_no y k < sent_no y' k" using new by (simp add: y'_def)
    qed (simp_all add: y'_def)
  qed
qed

section \<open>What waits for ever\<close>

text \<open>
  A flow with nothing outstanding and a closed window, and with none of its packets and acknowledgements in
  the network: the client does not ask for the window, and the server only answers.
\<close>

definition asleep :: "dpdk \<Rightarrow> nat \<Rightarrow> u32 \<Rightarrow> sw_sys \<Rightarrow> bool" where
  "asleep d k a y \<longleftrightarrow> last_pkt_acked (cl_flows y ! k) = a \<and> last_pkt_sent (cl_flows y ! k) = a \<and>
     rcv_wnd (cl_flows y ! k) = 0 \<and> (\<forall>p \<in> data_net y. \<not> flow_pkt d k p) \<and>
     (\<forall>q \<in> ack_net y. dst_port q \<noteq> cpu_to_be_16 d (of_nat (5001 + k)))"

lemma asleep_out:
  assumes "byte_order d" "flow_num \<le> MAX_FLOW_NUM" "sw_inv d flow_num y" "k < flow_num" "asleep d k a y"
    "cl_output clk flow_num np (cl_flows y) = Some (fs, pkts)"
    "list_all2 (\<lambda>(k, i) p. \<exists>src dst m. construct_pkt d src dst m k i = Some p) pkts ps"
  shows "asleep d k a (y\<lparr>cl_flows := fs, data_net := data_net y \<union> set ps\<rparr>)"
proof -
  have b: "flow_num \<le> length (cl_flows y)" "\<forall>k < length (cl_flows y). cl_ok (cl_flows y ! k)"
    using assms(2) sw_invD [OF assms(3)] by (auto simp: flow_ok_def)
  show ?thesis
  proof (rule cl_output_ok [OF b, of clk np], goal_cases)
    case (1 fs' pkts')
    have e: "fs' = fs" "pkts' = pkts" using 1(1) assms(6) by simp_all
    have f: "last_pkt_acked (fs ! k) = a" "rcv_wnd (fs ! k) = 0" "last_pkt_sent (fs ! k) = a"
      using 1(3,7) e assms(4,5) b(1) by (auto simp: asleep_def)
    have "\<not> flow_pkt d k p" if p: "p \<in> set ps" for p
    proof
      assume fp: "flow_pkt d k p"
      obtain j where j: "j < length ps" "p = ps ! j" using p by (auto simp: in_set_conv_nth)
      obtain k' i where ki: "pkts ! j = (k', i)" by (cases "pkts ! j")
      have jl: "j < length pkts" using j(1) list_all2_lengthD [OF assms(7)] by simp
      then have m: "(k', i) \<in> set pkts" using ki nth_mem by metis
      obtain src dst m where c: "construct_pkt d src dst m k' i = Some p"
        using list_all2_nthD2 [OF assms(7) j(1)] ki j(2) by auto
      have k': "k' < flow_num" "acked_no y k' < unat i" "unat i \<le> unat (last_pkt_sent (fs ! k'))"
        using 1(4) e m by blast+
      have "k' < 8" using k'(1) assms(2) by (simp add: MAX_FLOW_NUM_def)
      then have "k' = k" using construct_pkt_verified(1) [OF assms(1) _ c] fp by (simp add: flow_pkt_def)
      then show False using k'(2,3) f assms(5) by (simp add: asleep_def)
    qed
    then show ?thesis using f assms(5) by (auto simp: asleep_def)
  qed
qed

lemma asleep_inp:
  assumes "byte_order d" "flow_num \<le> MAX_FLOW_NUM" "sw_inv d flow_num y" "k < flow_num" "asleep d k a y"
    "\<forall>(tm, qs) \<in> set bursts. \<forall>q \<in> set qs. for_client d y q" "cl_bursts d bursts b w (cl_flows y) = Some fs"
  shows "asleep d k a (y\<lparr>cl_flows := fs\<rparr>)"
proof -
  have "fst (parse_packet d q a w) \<noteq> k + 1" if q: "for_client d y q" for q a w
  proof
    assume f: "fst (parse_packet d q a w) = k + 1"
    then have me: "is_tcp_for_me d q" by (simp add: parse_packet_def split: if_splits)
    have m: "q \<in> ack_net y" using q f by (auto simp: for_client_def)
    then obtain j where j: "j < 8" "dst_port q = cpu_to_be_16 d (of_nat (5001 + j))"
      using assms(3) unfolding sw_inv_def MAX_FLOW_NUM_def by blast
    then have "j = k" using port_flow_8(2) [OF assms(1) j(1) me j(2)] f by simp
    then show False using assms(5) j(2) m unfolding asleep_def by blast
  qed
  then have "fs ! k = cl_flows y ! k" using cl_bursts_other [OF assms(7), of k] assms(6) by fastforce
  then show ?thesis using assms(5) by (simp add: asleep_def)
qed

lemma asleep_srv:
  assumes "byte_order d" "flow_num \<le> MAX_FLOW_NUM" "sw_inv d flow_num y" "k < flow_num" "asleep d k a y"
    "small_nums (sv_flows y)" "\<forall>p \<in> set pkts. for_server d y p"
    "sv_iteration (sw_server d) m diff rfid0 pkts (sv_flows y) = Some (False, fs, acks)"
  shows "asleep d k a (y\<lparr>sv_flows := fs, ack_net := ack_net y \<union> set acks, arrived := A, stalls := n\<rparr>)"
proof -
  obtain stop fs' acks' where r: "sv_iteration (sw_server d) m diff rfid0 pkts (sv_flows y) = Some (stop, fs', acks')"
    "\<forall>q \<in> set acks'. \<exists>k < MAX_FLOW_NUM. flow_nums (sw_server d) k pkts \<noteq> [] \<and>
       construct_ack (sw_server d) (mem_alias m k) (mem_freed m k) (mem_new m k) k
         (nxt_pkt_expcd (fs' ! k) - 1) (of_nat BUF_SIZE - diff) = Some q"
    by (rule srv_ok [OF assms(1,3,2,6,7), of m diff rfid0]) (rule that)
  have e: "fs' = fs" "acks' = acks" using r(1) assms(8) by auto
  have "dst_port q \<noteq> cpu_to_be_16 d (of_nat (5001 + k))" if q: "q \<in> set acks" for q
  proof
    assume port: "dst_port q = cpu_to_be_16 d (of_nat (5001 + k))"
    obtain j where j: "j < MAX_FLOW_NUM" "flow_nums (sw_server d) j pkts \<noteq> []"
      "construct_ack (sw_server d) (mem_alias m j) (mem_freed m j) (mem_new m j) j
        (nxt_pkt_expcd (fs ! j) - 1) (of_nat BUF_SIZE - diff) = Some q" using r(2) q e by blast
    have "dst_port q = cpu_to_be_16 (sw_server d) (of_nat (5001 + j))" by (rule construct_ack_port(1) [OF j(3)])
    then have "cpu_to_be_16 d (of_nat (5001 + j)) = cpu_to_be_16 d (of_nat (5001 + k))" using port by simp
    moreover have "j < 8" "k < 8" using j(1) assms(2,4) by (simp_all add: MAX_FLOW_NUM_def)
    ultimately have "j = k" using port_inj [OF assms(1)] by blast
    then obtain p where p: "p \<in> set pkts" "verify_pkt (sw_server d) p = k + 1"
      using j(2) unfolding flow_nums_def by (auto simp: filter_empty_conv)
    then show False using assms(5,7) by (auto simp: for_server_def asleep_def flow_pkt_def)
  qed
  then show ?thesis using assms(5) by (auto simp: asleep_def)
qed

lemma sw_asleep:
  assumes "(sw_step d flow_num np)\<^sup>*\<^sup>* y y'" "little_endian d" "flow_num \<le> MAX_FLOW_NUM" "sw_reach d flow_num np y"
    "k < flow_num" "asleep d k a y"
  shows "asleep d k a y'"
  using assms(1)
proof (induction rule: rtranclp_induct)
  case base
  show ?case by (rule assms(6))
next
  case (step z z')
  note o = little_endian_order [OF assms(2)]
  have inv: "sw_inv d flow_num z" by (rule sw_reach_inv [OF sw_steps_reach [OF step.hyps(1) assms(4)] o assms(3)])
  from step.hyps(2) show ?case
  proof cases
    case out
    then show ?thesis using asleep_out [OF o assms(3) inv assms(5) step.IH] by simp
  next
    case inp
    then show ?thesis using asleep_inp [OF o assms(3) inv assms(5) step.IH] by simp
  next
    case srv
    then show ?thesis using asleep_srv [OF o assms(3) inv assms(5) step.IH] by simp
  next
    case lose
    then show ?thesis using step.IH by (auto simp: asleep_def)
  qed
qed

end
