(* ===== verification/SwCompletes.thy ===== *)
theory SwCompletes
  imports SwLiveness
begin

text \<open>
  From every reachable state of the sliding window programs, whatever the network has lost, a network that
  delivers from now on can bring the client to its end.
\<close>

section \<open>Two steps\<close>

text \<open>A packet is delivered alone, and so is the acknowledgement it causes.\<close>

lemma sw_deliver:
  assumes "byte_order d" "flow_num \<le> MAX_FLOW_NUM" "sw_reach d flow_num np y" "small_nums (sv_flows y)"
    "p \<in> data_net y" "flow_pkt d k p"
  obtains y' where "(sw_step d flow_num np)\<^sup>*\<^sup>* y y'" "acked_no y' k = max (acked_no y k) (next_no y' k - 1)"
    "sent_no y' k = max (sent_no y k) (next_no y' k - 1)" "rcv_wnd (cl_flows y' ! k) = 128" "next_no y k \<le> next_no y' k"
    "next_no y' k \<le> max (next_no y k) (sent_no y k) + 1" "unat (sent_seq p) = next_no y k \<longrightarrow> next_no y k < next_no y' k"
    "\<forall>j < MAX_FLOW_NUM. j \<noteq> k \<longrightarrow> cl_flows y' ! j = cl_flows y ! j \<and> next_no y' j = next_no y j" "data_net y' = data_net y"
proof -
  obtain y1 where b: "sw_step d flow_num np y y1" "cl_flows y1 = cl_flows y" "data_net y1 = data_net y"
    "arrived y1 = (arrived y)(k := insert (unat (sent_seq p)) (arrived y k))" "stalls y1 k \<le> stalls y k + 1"
    "\<forall>j < MAX_FLOW_NUM. j \<noteq> k \<longrightarrow> nxt_pkt_expcd (sv_flows y1 ! j) = nxt_pkt_expcd (sv_flows y ! j)"
    "sv_next (arrived y1 k) (next_no y k) (unat (same_ack (sv_flows y ! k))) (next_no y1 k) (unat (same_ack (sv_flows y1 ! k)))"
    "\<exists>q \<in> ack_net y1. \<forall>a w. parse_packet d q a w = (k + 1, nxt_pkt_expcd (sv_flows y1 ! k) - 1, 128)"
    "length (sv_flows y1) = MAX_FLOW_NUM" "k < MAX_FLOW_NUM"
    by (rule single_burst [OF assms(1-5) assms(6)[unfolded flow_pkt_def]])
  have f: "flow_ok (cl_flows y ! k) (sv_flows y ! k) (arrived y k) (stalls y k)"
    by (rule sw_invD(3) [OF sw_reach_inv [OF assms(3,1,2)] b(10)])
  have f1: "flow_ok (cl_flows y ! k) (sv_flows y1 ! k) (arrived y1 k) (stalls y1 k)"
    using sw_invD(3) [OF sw_reach_inv [OF sw_reach.step [OF assms(3) b(1)] assms(1,2)] b(10)] b(2) by simp
  have x: "1 \<le> next_no y k" "1 \<le> next_no y1 k" "next_no y1 k \<le> 2 ^ 31" using f f1 by (auto simp: flow_ok_def sv_ok_def)
  have a: "unat (nxt_pkt_expcd (sv_flows y1 ! k) - 1) = next_no y1 k - 1" using x(2) by (intro unat_minus1) simp
  have up: "next_no y k \<le> next_no y1 k" by (rule missing_next(2) [OF b(7) x(1)])
  have bound: "next_no y1 k \<le> max (next_no y k) (sent_no y k) + 1"
  proof (cases "next_no y k \<in> arrived y1 k")
    case True
    then have "next_no y1 k - 1 \<in> {next_no y k..<next_no y1 k}" "{next_no y k..<next_no y1 k} \<subseteq> arrived y1 k"
      using b(7) by (auto simp: sv_next_def)
    then have "next_no y1 k - 1 \<le> sent_no y k" using f1 unfolding flow_ok_def by blast
    then show ?thesis by simp
  next
    case False
    then show ?thesis using b(7) by (auto simp: sv_next_def split: if_splits)
  qed
  have moved: "next_no y k < next_no y1 k" if "unat (sent_seq p) = next_no y k"
    using b(7) unfolding b(4) using that by (simp add: sv_next_def)
  obtain q where q: "q \<in> ack_net y1" "parse_packet d q 0 0 = (k + 1, nxt_pkt_expcd (sv_flows y1 ! k) - 1, 128)"
    using b(8) by blast
  have ok: "cl_ok (cl_flows y ! k)" "unat (nxt_pkt_expcd (sv_flows y1 ! k) - 1) \<le> 2 ^ 31"
    using f a x(3) by (auto simp: flow_ok_def)
  obtain s' where s': "sw_acked 0 (nxt_pkt_expcd (sv_flows y1 ! k) - 1) 128 (cl_flows y ! k) = Some s'" "cl_ok s'"
    "unat (last_pkt_acked s') = max (acked_no y k) (unat (nxt_pkt_expcd (sv_flows y1 ! k) - 1))"
    "unat (last_pkt_sent s') = max (sent_no y k) (unat (nxt_pkt_expcd (sv_flows y1 ! k) - 1))" "rcv_wnd s' = 128"
    by (rule sw_acked_ok [OF ok])
  have l: "length (cl_flows y) = MAX_FLOW_NUM" by (rule sw_invD(1) [OF sw_reach_inv [OF assms(3,1,2)]])
  define y' where "y' = y1\<lparr>cl_flows := (cl_flows y)[k := s']\<rparr>"
  have "sw_step d flow_num np y1 y'"
    unfolding y'_def
  proof (rule sw_step.inp)
    show "\<forall>(tm, qs) \<in> set [(0, [q])]. \<forall>q \<in> set qs. for_client d y1 q" using q(1) by (simp add: for_client_def)
    show "cl_bursts d [(0, [q])] 0 0 (cl_flows y1) = Some ((cl_flows y)[k := s'])"
      using q(2) s'(1) b(2,10) l by simp
  qed
  then have "(sw_step d flow_num np)\<^sup>*\<^sup>* y y'" 
    by (intro converse_rtranclp_into_rtranclp [where r = "sw_step d flow_num np", OF b(1)] r_into_rtranclp)
  then show ?thesis
  proof (rule that)
    show "unat (sent_seq p) = next_no y k \<longrightarrow> next_no y k < next_no y' k" using moved by (simp add: y'_def)
  qed (use s' a up bound b(3,6,10) l in \<open>simp_all add: y'_def\<close>)
qed

section \<open>Progress of a flow\<close>

text \<open>
  A flow goes on if it is complete, has packets outstanding or an open window, or if one of its packets is
  still in the network.
\<close>

definition flow_awake :: "dpdk \<Rightarrow> u32 \<Rightarrow> sw_sys \<Rightarrow> nat \<Rightarrow> bool" where
  "flow_awake d np y k \<longleftrightarrow> unat np \<le> acked_no y k \<or> acked_no y k < sent_no y k \<or> rcv_wnd (cl_flows y ! k) \<noteq> 0 \<or>
     (\<exists>p \<in> data_net y. flow_pkt d k p)"

lemma flow_awake_mono:
  assumes "flow_awake d np y k" "acked_no y' k = acked_no y k" "sent_no y k \<le> sent_no y' k"
    "rcv_wnd (cl_flows y' ! k) = rcv_wnd (cl_flows y ! k)" "data_net y \<subseteq> data_net y'"
  shows "flow_awake d np y' k"
  using assms by (auto simp: flow_awake_def)

lemma flow_awake_deliver:
  assumes "\<forall>j < flow_num. flow_awake d np y j" "flow_num \<le> MAX_FLOW_NUM" "rcv_wnd (cl_flows y' ! k) = 128"
    "\<forall>j < MAX_FLOW_NUM. j \<noteq> k \<longrightarrow> cl_flows y' ! j = cl_flows y ! j \<and> N j" "data_net y' = data_net y"
  shows "\<forall>j < flow_num. flow_awake d np y' j"
proof (intro allI impI)
  fix j
  assume j: "j < flow_num"
  show "flow_awake d np y' j"
  proof (cases "j = k")
    case True
    then show ?thesis using assms(3) by (simp add: flow_awake_def)
  next
    case False
    then have "cl_flows y' ! j = cl_flows y ! j" using assms(2,4) j by simp
    then show ?thesis using flow_awake_mono [of d np y j y'] assms(1,5) j by simp
  qed
qed

text \<open>
  The client sends what is outstanding, again or for the first time, and the one packet of it that moves the
  server on is delivered: something new is acknowledged.
\<close>

lemma progress_ready:
  assumes "byte_order d" "flow_num \<le> MAX_FLOW_NUM" "sw_reach d flow_num np y" "small_nums (sv_flows y)" "k < flow_num"
    "acked_no y k < unat np" "acked_no y k < sent_no y k \<or> rcv_wnd (cl_flows y ! k) \<noteq> 0" "\<forall>j < flow_num. flow_awake d np y j"
  obtains y' where "(sw_step d flow_num np)\<^sup>*\<^sup>* y y'" "acked_no y k < acked_no y' k" "next_no y' k - 1 \<le> acked_no y' k"
    "next_no y' k \<le> max (next_no y k) (unat np + 129) + 1" "\<forall>j < flow_num. flow_awake d np y' j"
    "\<forall>j < MAX_FLOW_NUM. j \<noteq> k \<longrightarrow> acked_no y' j = acked_no y j \<and> next_no y' j = next_no y j"
proof -
  have k: "k < MAX_FLOW_NUM" using assms(2,5) by simp
  obtain z where z: "sw_step d flow_num np y z" "sv_flows z = sv_flows y" "data_net y \<subseteq> data_net z"
    "\<forall>j < MAX_FLOW_NUM. acked_no z j = acked_no y j \<and> sent_no y j \<le> sent_no z j \<and>
       rcv_wnd (cl_flows z ! j) = rcv_wnd (cl_flows y ! j)"
    "\<forall>i. acked_no y k < unat i \<and> unat i \<le> sent_no z k \<longrightarrow> (\<exists>p \<in> data_net z. flow_pkt d k p \<and> sent_seq p = i)"
    "rcv_wnd (cl_flows y ! k) \<noteq> 0 \<longrightarrow> acked_no y k < sent_no z k"
    by (rule client_sends [OF assms(1-3,5,6)])
  note rz = sw_reach.step [OF assms(3) z(1)]
  have az: "acked_no z k = acked_no y k" "sent_no y k \<le> sent_no z k" using z(4) k by blast+
  have out: "acked_no y k < sent_no z k" using assms(7) z(6) az(2) by linarith
  have fz: "acked_no z k < next_no z k" "sent_no z k \<le> acked_no z k + 128"
    using sw_invD(3) [OF sw_reach_inv [OF rz assms(1,2)] k] by (simp_all add: flow_ok_def cl_ok_def)
  have aw: "\<forall>j < flow_num. flow_awake d np z j"
    using assms(2,8) z(3,4) flow_awake_mono [of d np y _ z] by (meson less_le_trans)
  define i where "i = (if next_no z k \<le> sent_no z k then nxt_pkt_expcd (sv_flows z ! k) else last_pkt_sent (cl_flows z ! k))"
  have i: "acked_no y k < unat i" "unat i \<le> sent_no z k" using fz(1) az(1) out by (auto simp: i_def)
  then obtain p where p: "p \<in> data_net z" "flow_pkt d k p" "sent_seq p = i" using z(5) by blast
  have sm: "small_nums (sv_flows z)" using assms(4) z(2) by simp
  obtain y' where y': "(sw_step d flow_num np)\<^sup>*\<^sup>* z y'" "acked_no y' k = max (acked_no z k) (next_no y' k - 1)"
    "sent_no y' k = max (sent_no z k) (next_no y' k - 1)" "rcv_wnd (cl_flows y' ! k) = 128" "next_no z k \<le> next_no y' k"
    "next_no y' k \<le> max (next_no z k) (sent_no z k) + 1" "unat (sent_seq p) = next_no z k \<longrightarrow> next_no z k < next_no y' k"
    "\<forall>j < MAX_FLOW_NUM. j \<noteq> k \<longrightarrow> cl_flows y' ! j = cl_flows z ! j \<and> next_no y' j = next_no z j" "data_net y' = data_net z"
    by (rule sw_deliver [OF assms(1,2) rz sm p(1,2)])
  have more: "acked_no y k < next_no y' k - 1"
  proof (cases "next_no z k \<le> sent_no z k")
    case True
    then have "unat (sent_seq p) = next_no z k" using p(3) by (simp add: i_def)
    then show ?thesis using y'(7) fz(1) az(1) by linarith
  next
    case False
    then show ?thesis using y'(5) out by linarith
  qed
  show thesis
  proof (rule that)
    show "(sw_step d flow_num np)\<^sup>*\<^sup>* y y'"
      by (rule converse_rtranclp_into_rtranclp [where r = "sw_step d flow_num np", OF z(1) y'(1)])
    show "acked_no y k < acked_no y' k" "next_no y' k - 1 \<le> acked_no y' k" using more y'(2) by linarith+
    have "next_no z k = next_no y k" using z(2) by simp
    then show "next_no y' k \<le> max (next_no y k) (unat np + 129) + 1" using y'(6) fz(2) az(1) assms(6) by linarith
    show "\<forall>j < flow_num. flow_awake d np y' j" by (rule flow_awake_deliver [OF aw assms(2) y'(4,8,9)])
    show "\<forall>j < MAX_FLOW_NUM. j \<noteq> k \<longrightarrow> acked_no y' j = acked_no y j \<and> next_no y' j = next_no y j"
      using y'(8) z(2,4) by simp
  qed
qed

text \<open>With a closed window and nothing outstanding, the server's answer to an old packet opens the window.\<close>

lemma flow_progress:
  assumes "byte_order d" "flow_num \<le> MAX_FLOW_NUM" "sw_reach d flow_num np y" "small_nums (sv_flows y)" "k < flow_num"
    "acked_no y k < unat np" "\<forall>j < flow_num. flow_awake d np y j"
  obtains y' where "(sw_step d flow_num np)\<^sup>*\<^sup>* y y'" "acked_no y k < acked_no y' k" "next_no y' k - 1 \<le> acked_no y' k"
    "next_no y' k \<le> max (next_no y k) (unat np + 129) + 1" "\<forall>j < flow_num. flow_awake d np y' j"
    "\<forall>j < MAX_FLOW_NUM. j \<noteq> k \<longrightarrow> acked_no y' j = acked_no y j \<and> next_no y' j = next_no y j"
proof (cases "acked_no y k < sent_no y k \<or> rcv_wnd (cl_flows y ! k) \<noteq> 0")
  case True
  then show thesis by (rule progress_ready [OF assms(1-6) _ assms(7) that])
next
  case False
  note found = that
  have k: "k < MAX_FLOW_NUM" using assms(2,5) by simp
  have f: "acked_no y k < next_no y k" "sent_no y k \<le> acked_no y k + 128"
    using sw_invD(3) [OF sw_reach_inv [OF assms(3,1,2)] k] by (simp_all add: flow_ok_def cl_ok_def)
  obtain p where p: "p \<in> data_net y" "flow_pkt d k p" using False assms(5-7) by (auto simp: flow_awake_def)
  obtain z where z: "(sw_step d flow_num np)\<^sup>*\<^sup>* y z" "acked_no z k = max (acked_no y k) (next_no z k - 1)"
    "sent_no z k = max (sent_no y k) (next_no z k - 1)" "rcv_wnd (cl_flows z ! k) = 128" "next_no y k \<le> next_no z k"
    "next_no z k \<le> max (next_no y k) (sent_no y k) + 1" "unat (sent_seq p) = next_no y k \<longrightarrow> next_no y k < next_no z k"
    "\<forall>j < MAX_FLOW_NUM. j \<noteq> k \<longrightarrow> cl_flows z ! j = cl_flows y ! j \<and> next_no z j = next_no y j" "data_net z = data_net y"
    by (rule sw_deliver [OF assms(1-4) p])
  note rz = sw_steps_reach [OF z(1) assms(3)]
  have aw: "\<forall>j < flow_num. flow_awake d np z j" by (rule flow_awake_deliver [OF assms(7,2) z(4,8,9)])
  have same: "\<forall>j < MAX_FLOW_NUM. j \<noteq> k \<longrightarrow> acked_no z j = acked_no y j \<and> next_no z j = next_no y j" using z(8) by simp
  show thesis
  proof (cases "acked_no y k < acked_no z k")
    case True
    show thesis
    proof (rule found [OF z(1) True _ _ aw same])
      show "next_no z k - 1 \<le> acked_no z k" using z(2) by linarith
      show "next_no z k \<le> max (next_no y k) (unat np + 129) + 1" using z(6) f(2) assms(6) by linarith
    qed
  next
    case False
    then have nx: "next_no z k = next_no y k" "acked_no z k = acked_no y k" using z(2,5) f(1) by linarith+
    then have "next_no z j = next_no y j" if "j < MAX_FLOW_NUM" for j using same that by (cases "j = k") simp_all
    moreover have "length (sv_flows z) = MAX_FLOW_NUM" "length (sv_flows y) = MAX_FLOW_NUM"
      using sw_invD(2) [OF sw_reach_inv [OF rz assms(1,2)]] sw_invD(2) [OF sw_reach_inv [OF assms(3,1,2)]] by blast+
    ultimately have sm: "small_nums (sv_flows z)" using assms(4) by (simp add: small_nums_def all_set_conv_all_nth)
    have r: "acked_no z k < unat np" "acked_no z k < sent_no z k \<or> rcv_wnd (cl_flows z ! k) \<noteq> 0"
      using nx(2) assms(6) z(4) by simp_all
    obtain y' where y': "(sw_step d flow_num np)\<^sup>*\<^sup>* z y'" "acked_no z k < acked_no y' k" "next_no y' k - 1 \<le> acked_no y' k"
      "next_no y' k \<le> max (next_no z k) (unat np + 129) + 1" "\<forall>j < flow_num. flow_awake d np y' j"
      "\<forall>j < MAX_FLOW_NUM. j \<noteq> k \<longrightarrow> acked_no y' j = acked_no z j \<and> next_no y' j = next_no z j"
      by (rule progress_ready [OF assms(1,2) rz sm assms(5) r aw])
    show thesis
      by (rule found [OF rtranclp_trans [OF z(1) y'(1)] _ y'(3) _ y'(5)]) (use y'(2,4,6) same nx in simp_all)
  qed
qed

section \<open>Completion\<close>

definition room_below :: "sw_sys \<Rightarrow> nat \<Rightarrow> bool" where
  "room_below y n \<longleftrightarrow> (\<forall>k < MAX_FLOW_NUM. next_no y k \<le> n)"

lemma room_small:
  assumes "room_below y n" "n < 2 ^ 30" "length (sv_flows y) = MAX_FLOW_NUM"
  shows "small_nums (sv_flows y)"
  unfolding small_nums_def all_set_conv_all_nth assms(3)
  using assms(1,2) by (auto simp: room_below_def intro: le_less_trans)

text \<open>A flow is brought to its end; the others stay where they are.\<close>

lemma flow_completes:
  assumes "byte_order d" "flow_num \<le> MAX_FLOW_NUM" "unat np < 2 ^ 28" "k < flow_num"
    "sw_reach d flow_num np y" "room_below y (2 ^ 29 + 1)" "next_no y k \<le> 2 ^ 29" "\<forall>j < flow_num. flow_awake d np y j"
  shows "\<exists>y'. (sw_step d flow_num np)\<^sup>*\<^sup>* y y' \<and> unat np \<le> acked_no y' k \<and> next_no y' k \<le> 2 ^ 29 + 1 \<and>
    (\<forall>j < flow_num. flow_awake d np y' j) \<and>
    (\<forall>j < MAX_FLOW_NUM. j \<noteq> k \<longrightarrow> acked_no y' j = acked_no y j \<and> next_no y' j = next_no y j)"
  using assms(5-8)
proof (induction "unat np - acked_no y k" arbitrary: y rule: less_induct)
  case less
  have k: "k < MAX_FLOW_NUM" using assms(2,4) by simp
  show ?case
  proof (cases "acked_no y k < unat np")
    case False
    then show ?thesis using less.prems by (intro exI [of _ y]) simp
  next
    case True
    have "length (sv_flows y) = MAX_FLOW_NUM" by (rule sw_invD(2) [OF sw_reach_inv [OF less.prems(1) assms(1,2)]])
    then have sm: "small_nums (sv_flows y)" using room_small [OF less.prems(2)] by simp
    obtain z where z: "(sw_step d flow_num np)\<^sup>*\<^sup>* y z" "acked_no y k < acked_no z k" "next_no z k - 1 \<le> acked_no z k"
      "next_no z k \<le> max (next_no y k) (unat np + 129) + 1" "\<forall>j < flow_num. flow_awake d np z j"
      "\<forall>j < MAX_FLOW_NUM. j \<noteq> k \<longrightarrow> acked_no z j = acked_no y j \<and> next_no z j = next_no y j"
      by (rule flow_progress [OF assms(1,2) less.prems(1) sm assms(4) True less.prems(4)])
    have n: "next_no z k \<le> 2 ^ 29 + 1" using z(4) less.prems(3) assms(3) by simp
    show ?thesis
    proof (cases "unat np \<le> acked_no z k")
      case True
      then show ?thesis using z(1,5,6) n by (intro exI [of _ z]) simp
    next
      case False
      have "next_no z k \<le> 2 ^ 29" using z(3) False assms(3) by simp
      moreover have "room_below z (2 ^ 29 + 1)" using less.prems(2) z(6) n unfolding room_below_def by metis
      moreover have "unat np - acked_no z k < unat np - acked_no y k" using z(2) True by linarith
      ultimately obtain y' where "(sw_step d flow_num np)\<^sup>*\<^sup>* z y' \<and> unat np \<le> acked_no y' k \<and> next_no y' k \<le> 2 ^ 29 + 1 \<and> (\<forall>j < flow_num. flow_awake d np y' j) \<and>
        (\<forall>j < MAX_FLOW_NUM. j \<noteq> k \<longrightarrow> acked_no y' j = acked_no z j \<and> next_no y' j = next_no z j)"
        using less.hyps [OF _ sw_steps_reach [OF z(1) less.prems(1)]] z(5) by blast
      then show ?thesis using z(6) rtranclp_trans [OF z(1), of y'] by (intro exI [of _ y']) simp
    qed
  qed
qed

lemma flows_complete:
  assumes "byte_order d" "flow_num \<le> MAX_FLOW_NUM" "unat np < 2 ^ 28" "n \<le> flow_num"
    "sw_reach d flow_num np y" "room_below y (2 ^ 29)" "\<forall>j < flow_num. flow_awake d np y j"
  shows "\<exists>y'. (sw_step d flow_num np)\<^sup>*\<^sup>* y y' \<and> (\<forall>k < n. unat np \<le> acked_no y' k) \<and> room_below y' (2 ^ 29 + 1) \<and>
    (\<forall>j < flow_num. flow_awake d np y' j) \<and>
    (\<forall>k < MAX_FLOW_NUM. n \<le> k \<longrightarrow> next_no y' k = next_no y k)"
  using assms(4)
proof (induction n)
  case 0
  have "room_below y (2 ^ 29 + 1)" using assms(6) by (auto simp: room_below_def intro: le_SucI)
  then show ?case using assms(5,7) by (intro exI [of _ y]) simp
next
  case (Suc n)
  then obtain z where z: "(sw_step d flow_num np)\<^sup>*\<^sup>* y z" "\<forall>k < n. unat np \<le> acked_no z k" "room_below z (2 ^ 29 + 1)"
    "\<forall>k < MAX_FLOW_NUM. n \<le> k \<longrightarrow> next_no z k = next_no y k" "\<forall>j < flow_num. flow_awake d np z j" by auto
  have n: "n < flow_num" "n < MAX_FLOW_NUM" using Suc.prems assms(2) by simp_all
  then have "next_no z n \<le> 2 ^ 29" using z(4) assms(6) by (simp add: room_below_def)
  then obtain y' where y': "(sw_step d flow_num np)\<^sup>*\<^sup>* z y'" "unat np \<le> acked_no y' n" "next_no y' n \<le> 2 ^ 29 + 1"
    "\<forall>j < MAX_FLOW_NUM. j \<noteq> n \<longrightarrow> acked_no y' j = acked_no z j \<and> next_no y' j = next_no z j" "\<forall>j < flow_num. flow_awake d np y' j"
    using flow_completes [OF assms(1-3) n(1) sw_steps_reach [OF z(1) assms(5)] z(3) _ z(5)] by blast
  have "unat np \<le> acked_no y' k" if "k < Suc n" for k
    using that y'(2,4) z(2) n(2) by (cases "k = n") auto
  moreover have "room_below y' (2 ^ 29 + 1)"
    unfolding room_below_def
  proof (intro allI impI)
    fix k
    assume "k < MAX_FLOW_NUM"
    then show "next_no y' k \<le> 2 ^ 29 + 1" using y'(3,4) z(3) by (cases "k = n") (auto simp: room_below_def)
  qed
  ultimately show ?case using rtranclp_trans [OF z(1) y'(1)] y'(4,5) z(4) by (intro exI [of _ y']) auto
qed

text \<open>
  C6: the transfer survives every loss. From every state the two programs can reach over a network that loses
  packets for good, duplicates and reorders them, even if there is nothing left in the network, there is a
  continuation in which the client ends with every flow acknowledged completely: the client sends what is
  outstanding again when its time is over. This asks of each flow that is not complete that it has a packet
  outstanding, or that its window is open, or that one of its packets is in the network; a flow with none of
  these waits for ever (\<open>sw_asleep\<close>). The numbers have to be below \<open>2\<^sup>2\<^sup>8\<close> for the packets of a flow, eight
  times the size of the largest one, and at most \<open>2\<^sup>2\<^sup>9\<close> for the next number of a server that has given up.
\<close>

theorem sw_completes:
  assumes "little_endian d" "flow_num \<le> MAX_FLOW_NUM" "unat np < 2 ^ 28" "sw_reach d flow_num np y"
    "\<forall>s \<in> set (sv_flows y). unat (nxt_pkt_expcd s) \<le> 2 ^ 29"
    "\<forall>k < flow_num. np \<le> last_pkt_acked (cl_flows y ! k) \<or>
       last_pkt_acked (cl_flows y ! k) < last_pkt_sent (cl_flows y ! k) \<or> rcv_wnd (cl_flows y ! k) \<noteq> 0 \<or>
       (\<exists>p \<in> data_net y. verify_pkt (sw_server d) p = k + 1)"
  shows "\<exists>y'. (sw_step d flow_num np)\<^sup>*\<^sup>* y y' \<and> \<not> cl_running flow_num np (cl_flows y')"
proof -
  note o = little_endian_order [OF assms(1)]
  have "length (sv_flows y) = MAX_FLOW_NUM" by (rule sw_invD(2) [OF sw_reach_inv [OF assms(4) o assms(2)]])
  then have room: "room_below y (2 ^ 29)" using assms(5) by (simp add: room_below_def all_set_conv_all_nth)
  have "\<forall>k < flow_num. flow_awake d np y k"
    using assms(6) by (simp add: flow_awake_def flow_pkt_def word_le_nat_alt word_less_nat_alt)
  then obtain y' where y': "(sw_step d flow_num np)\<^sup>*\<^sup>* y y'" "\<forall>k < flow_num. unat np \<le> acked_no y' k"
    using flows_complete [OF o assms(2,3) order_refl assms(4) room] by blast
  have "length (cl_flows y') = MAX_FLOW_NUM"
    by (rule sw_invD(1) [OF sw_reach_inv [OF sw_steps_reach [OF y'(1) assms(4)] o assms(2)]])
  then have "\<not> cl_running flow_num np (cl_flows y')"
    using y'(2) assms(2) by (auto simp: cl_running_def in_set_conv_nth word_less_nat_alt not_less)
  then show ?thesis using y'(1) by blast
qed

text \<open>Both packets of a flow are lost, and the flow completes.\<close>

lemma sw_completes_witness:
  "\<exists>y y'. sw_reach (ex_dpdk 7) 1 2 y \<and> data_net y = {} \<and> ack_net y = {} \<and> last_pkt_acked (cl_flows y ! 0) = 0 \<and>
     last_pkt_sent (cl_flows y ! 0) = 2 \<and> (sw_step (ex_dpdk 7) 1 2)\<^sup>*\<^sup>* y y' \<and> \<not> cl_running 1 2 (cl_flows y')"
proof -
  obtain s y p where y: "sw_reach (ex_dpdk 7) 1 2 y" "cl_ok s" "last_pkt_acked s = 0"
    "y = sw_init\<lparr>cl_flows := (replicate MAX_FLOW_NUM mkSwSend)[0 := s], data_net := data_net y\<rparr>"
    "p \<in> data_net y" "verify_pkt (sw_server (ex_dpdk 7)) p = 0 + 1" "sent_seq p = 2" "last_pkt_sent s = 2" by (rule ex_sent)
  define z where "z = y\<lparr>data_net := {}, ack_net := {}\<rparr>"
  have "sw_step (ex_dpdk 7) 1 2 y z" unfolding z_def by (rule sw_step.lose) simp_all
  then have z: "sw_reach (ex_dpdk 7) 1 2 z" by (rule sw_reach.step [OF y(1)])
  have "cl_flows y = (replicate MAX_FLOW_NUM mkSwSend)[0 := s]" "sv_flows y = replicate MAX_FLOW_NUM mkSwRecv"
    using arg_cong [OF y(4), of cl_flows] arg_cong [OF y(4), of sv_flows] by (simp_all add: sw_init_def)
  then have f: "last_pkt_acked (cl_flows z ! 0) = 0" "last_pkt_sent (cl_flows z ! 0) = 2"
    "\<forall>s \<in> set (sv_flows z). unat (nxt_pkt_expcd s) \<le> 2 ^ 29"
    using y(3,8) by (simp_all add: z_def MAX_FLOW_NUM_def mkSwRecv_def)
  then have "\<exists>y'. (sw_step (ex_dpdk 7) 1 2)\<^sup>*\<^sup>* z y' \<and> \<not> cl_running 1 2 (cl_flows y')"
    by (intro sw_completes [OF ex_dpdk_order(1) _ _ z]) (simp_all add: MAX_FLOW_NUM_def)
  moreover have "data_net z = {}" "ack_net z = {}" by (simp_all add: z_def)
  ultimately show ?thesis using z f(1,2) by blast
qed

end
