(* ===== verification/Spec2Isabelle.thy ===== *)
theory Spec2Isabelle
  imports Link CongaLoop TcpProps TcpSinkModel StocFairQ QueueProps FlowGenRuns TransportProps LoggersProps
    ExperimentProps FatTreeProps CongaLabProps SingleLink ClockModel SwCompletes
begin

text \<open>
  A verification library for \<open>src/CONGA-Htsim\<close>, a discrete-event simulator of data-centre networks
  in C++ (htsim with queue disciplines, TCP/DCTCP and the CONGA load balancer), and for \<open>src/TCP-SW-DPDK\<close>, a
  client and a server in C that transfer flows with a sliding window over DPDK.

  The simulator. \<open>EventList\<close> holds the pending events in the order of their times and calls
  \<open>doNextEvent\<close> of each source. A \<open>Packet\<close> moves along its route, a vector of sinks, by \<open>sendOn\<close>,
  which calls \<open>receivePacket\<close> of the next hop. Queues and pipes are both: they receive packets, and
  they schedule the event that sends the packet on. Data sources and sinks are the ends of a route.

  The sliding window programs. The client keeps up to 128 packets of each flow outstanding, retransmits what is
  not acknowledged in time and takes cumulative acknowledgements; the server buffers the numbers of packets out
  of order and answers each burst. They meet only in the packets.

  How it is modelled. A class is a record, a subclass an extension of the record of its base class;
  an operation is a function from the object to the changed object and the list of calls it makes on
  other objects (\<open>Network.action\<close>), in the order of the code. The callee of such a call does
  not re-enter the caller. A failed assertion, a division by zero, an access outside a vector or a null
  dereference, an uncaught exception and \<open>exit\<close> with an error are \<open>None\<close>. Integers are words of their
  C++ width, a \<open>double\<close> is a rational rounded by \<open>Floating.dbl\<close>. Pointers to flows are flow ids, pointers to routes are addresses of a store, because
  packets share route objects. Results of \<open>rand()\<close> and of \<open>libm\<close> functions are arguments.

  Theories.
  \<^item> \<open>Prelude\<close>: word lemmas, insertion into ordered containers, vectors. \<open>Floating\<close>: rounding to 53
    and 64 bits. \<open>Htsim\<close> (\<open>htsim.h\<close>): constants, \<open>drand\<close>, units.
  \<^item> \<open>Events\<close> (\<open>eventlist.cpp\<close>): the event list and the main loop; the locale \<open>event_handler\<close> is the
    interface to the simulated components, interpreted in \<open>Link\<close>.
  \<^item> \<open>Network\<close> (\<open>network.cpp\<close>, \<open>datapacket.h\<close>): packets, routes, pool, actions.
  \<^item> \<open>Discipline\<close>: the locale \<open>queue_discipline\<close>, the contract of all queues, with what it implies for
    every reachable state: conservation of packets, the byte bound, exactly one outstanding event
    while packets wait. Interpreted by \<open>FifoQueue\<close> (\<open>queue.cpp\<close>), \<open>PrioQueue\<close>
    (\<open>priorityqueue.cpp\<close>), \<open>FairQ\<close> (\<open>fairqueue.cpp\<close>), \<open>AprxLemmas\<close> (\<open>aprx-fairqueue.cpp\<close>, modelled
    in \<open>AprxFairQ\<close>), \<open>StocFairQ\<close> (\<open>stoc-fairqueue.cpp\<close>) and \<open>RandomQ\<close> (\<open>randomqueue.cpp\<close>, \<open>exoqueue.cpp\<close>).
    \<open>HashFlow\<close> is what the two hashing disciplines share. \<open>FairProps\<close> and \<open>AprxProps\<close> add the fairness of two
    of them, \<open>QueueProps\<close> states the contract for the code's queues and what the random queue drops.
  \<^item> \<open>PipeModel\<close> (\<open>pipe.cpp\<close>): the delay line. \<open>Link\<close>: a queue, a pipe and a destination driven by the
    event list.
  \<^item> \<open>CongaNet\<close> (\<open>test_conga_testbed.cpp\<close>): topology, random routes, rerouting. \<open>Conga\<close> (\<open>conga.cpp\<close>,
    \<open>conga.h\<close>): leaf switches and core queues; \<open>CongaLoop\<close>: the congestion feedback loop.
  \<^item> \<open>Endpoint\<close>, \<open>Sink\<close> (\<open>datasource.cpp\<close>, \<open>datasink.cpp\<close>): the ends of a flow. \<open>Tcp\<close>, \<open>TcpSend\<close>,
    \<open>TcpInv\<close>, \<open>TcpSteps\<close>, \<open>TcpProps\<close>: \<open>TcpSrc\<close> of \<open>tcp.cpp\<close>, its invariant and its behaviour.
    \<open>TcpSinkModel\<close>: \<open>TcpSink\<close>.
  \<^item> \<open>Timely\<close>, \<open>TimelyRate\<close>, \<open>TimelySteps\<close>, \<open>TimelyProps\<close> (\<open>timely.cpp\<close>): rate control by the gradient
    of the round trip time; the arithmetic of the rate, the steps of the handlers, their properties.
    \<open>PacketPair\<close>, \<open>PacketPairSend\<close>, \<open>PacketPairSteps\<close>, \<open>PacketPairProps\<close> (\<open>packetpair.cpp\<close>): pairs of
    packets, the measurement of their distance, the estimates of rate and window.
  \<^item> \<open>Transport\<close>: a source and a sink over a network that loses, delays and reorders packets; the locales
    \<open>transport_source\<close> and \<open>transport_sink\<close> say what the handlers of the three protocols have in common, and
    \<open>transport\<close> derives that acknowledged data has arrived. Interpreted in \<open>TransportTcp\<close>,
    \<open>TransportTimely\<close> and \<open>TransportPair\<close>; \<open>TransportProps\<close> states the classes of the packets.
  \<^item> \<open>Logfile\<close> (\<open>logfile.cpp\<close>): the buffered trace file and its equivalence with a list of records.
    \<open>Loggers\<close> (\<open>loggers.h\<close>, \<open>loggers.cpp\<close>): what the loggers write; \<open>LoggersProps\<close>: the sampling logger driven by
    a FIFO queue.
  \<^item> \<open>Workloads\<close> (\<open>workloads.cpp\<close>): flow sizes by interpolation in the two tables. \<open>FlowGen\<close>,
    \<open>FlowGenProps\<close>, \<open>FlowGenRuns\<close> (\<open>flow-generator.cpp\<close>): the creation and replacement of flows; the
    reachability relation of a generator and its invariant.
  \<^item> \<open>Experiment\<close>, \<open>ExperimentProps\<close> (\<open>main.cpp\<close>, \<open>test.h\<close>): arguments and numbers in them. \<open>Lab\<close>
    (\<open>logged.h\<close>): the objects an experiment creates, with ids and names; its predicate \<open>adds\<close> says what a
    part of a set-up creates and is composed along sequences and loops. \<open>FatTree\<close>, \<open>FatTreeProps\<close>
    (\<open>test_fat-tree_testbed.cpp\<close>), \<open>CongaLab\<close>, \<open>CongaLabProps\<close> (\<open>test_conga_testbed.cpp\<close>) and \<open>SingleLink\<close>
    (\<open>test_single_link.cpp\<close>, \<open>test_simp_single_link.cpp\<close>): the four experiments.
  \<^item> \<open>ClockModel\<close> (\<open>clock.cpp\<close>): the clock that estimates the speed of the simulation.
  \<^item> \<open>SwPacket\<close>, \<open>SwPacketProps\<close> (\<open>lab1-client.c\<close>, \<open>lab1-server.c\<close>): checksum, headers and parsing; the functions
    of DPDK are the record \<open>dpdk\<close>, a parameter. \<open>SwClient\<close>, \<open>SwClientProps\<close> (\<open>lab1-client.c\<close>) and \<open>SwServer\<close>,
    \<open>SwServerProps\<close> (\<open>lab1-server.c\<close>): the main loops, their termination, and the invariant of a flow at each end.
    \<open>SwSystem\<close>, \<open>SwSystemProps\<close>, \<open>SwSystemRuns\<close>: both programs over a network that duplicates and
    reorders packets and loses them for good; a step relation, its invariant, and what an acknowledgement is worth.
    \<open>SwLiveness\<close>, \<open>SwCompletes\<close>: what the client sends again is enough to complete every flow, whatever has been
    lost, and which flows wait for ever.

  Loops. The drop loops of the priority and fair queues end because each turn removes a packet
  (\<open>function\<close> with a measure). The send loop of TCP and the searches of the two multi-queue
  disciplines are \<open>partial_function\<close>, and they are shown to return: the send loop because the highest
  sent number grows towards the end of the window, the searches because a queue with a packet, or with
  enough credit, is reached. The main loop is cut after a given number of events. The loops of the sliding window
  programs are \<open>partial_function\<close> too: those over packet numbers end because the window has at most 128
  numbers below \<open>2\<^sup>3\<^sup>2 - 1\<close>, the server's search because no place of the buffer holds two numbers. The step
  relation lets the server step only below number \<open>2\<^sup>3\<^sup>0\<close>, and completion is shown from numbers below \<open>2\<^sup>2\<^sup>9\<close>; a flow
  has at most \<open>2\<^sup>2\<^sup>5\<close> packets.

  Not modelled: \<open>FairQueue\<close>'s mode \<open>PRECISE\<close>, which is never selected; text output to the terminal and the
  opening of files; seeding \<open>rand()\<close>. Of the DPDK programs the start-up of the environment and \<open>main\<close>, the
  exhaustion of the packet pool, and who owns a packet buffer after it has been sent or freed, apart from the
  reuse of a freed buffer for an acknowledgement.
\<close>

end
